(* ===== verification/Prelude.thy ===== *)
theory Prelude
  imports Main "HOL-Library.Word"
begin

text \<open>
  What every component of the development shares.

  \<^item> The machine types of \<^verbatim>\<open>Common/Types.h\<close>: bytes and unsigned integers are words of
    their width; an \<open>int32\<close> is kept as the mathematical integer it denotes, with
    \<open>to_int32\<close> where the source converts, and a component that adds two of them proves
    that the sum stays in range.
  \<^item> The ways the program stops: \<open>ASSERT_CRASH\<close> of \<^verbatim>\<open>Common/Macros.h\<close> writes through a
    null pointer, and an access outside an array or to freed memory is undefined. Both
    are the \<open>Inl\<close> side of \<open>'a res\<close>; a theorem that an operation returns \<open>Ok\<close> says
    that it neither asserts nor leaves its arrays.
  \<^item> \<open>memcpy\<close> on byte arrays as \<open>mem_read\<close> and \<open>mem_write\<close>, and the little-endian
    layout of integers on x64.
  \<^item> \<open>std::to_string\<close> of an integer, and its inverse.
  \<^item> The list and \<open>mod\<close> lemmas the components use.
\<close>

section \<open>Machine types\<close>

type_synonym byte = "8 word"
type_synonym uint16 = "16 word"
type_synonym uint32 = "32 word"
type_synonym uint64 = "64 word"
type_synonym int32 = int

definition in_int32 :: "int \<Rightarrow> bool" where
  "in_int32 x \<longleftrightarrow> - 2147483648 \<le> x \<and> x \<le> 2147483647"

definition to_int32 :: "int \<Rightarrow> int32" where
  "to_int32 x = (x + 2147483648) mod 4294967296 - 2147483648"

definition to_size_t :: "int \<Rightarrow> int" where
  "to_size_t x = x mod 18446744073709551616"

lemma to_int32_id: "in_int32 x \<Longrightarrow> to_int32 x = x"
  by (simp add: in_int32_def to_int32_def)

lemma in_int32_to_int32: "in_int32 (to_int32 x)"
proof -
  have "0 \<le> (x + 2147483648) mod 4294967296" "(x + 2147483648) mod 4294967296 < 4294967296"
    by simp_all
  then show ?thesis unfolding in_int32_def to_int32_def by linarith
qed

lemma sint_int32: "in_int32 n \<Longrightarrow> sint (word_of_int n :: uint32) = n"
  by (simp add: in_int32_def sint_sbintrunc' signed_take_bit_int_eq_self)

lemma to_size_t_id: "0 \<le> x \<Longrightarrow> x \<le> 2147483647 \<Longrightarrow> to_size_t x = x"
  by (simp add: to_size_t_def)

section \<open>Faults\<close>

datatype fault =
    AssertCrash
  | OutOfBounds
  | NullDeref
  | EmptyContainer
  | UseAfterFree
  | Uncaught
  | Undefined

type_synonym 'a res = "fault + 'a"

abbreviation Ok :: "'a \<Rightarrow> 'a res" where
  "Ok x \<equiv> Inr x"

abbreviation Crash :: "fault \<Rightarrow> 'a res" where
  "Crash e \<equiv> Inl e"

definition res_bind :: "'a res \<Rightarrow> ('a \<Rightarrow> 'b res) \<Rightarrow> 'b res" where
  "res_bind m f = (case m of Inl e \<Rightarrow> Inl e | Inr x \<Rightarrow> f x)"

definition assert_crash :: "bool \<Rightarrow> 'a res \<Rightarrow> 'a res" where
  "assert_crash b k = (if b then k else Crash AssertCrash)"

named_theorems res_iff

lemma res_bind_simps [simp]:
  "res_bind (Inl e) f = Inl e"
  "res_bind (Inr x) f = f x"
  by (simp_all add: res_bind_def)

lemma res_bind_cong [fundef_cong]:
  "m = m' \<Longrightarrow> (\<And>x. m' = Inr x \<Longrightarrow> f x = f' x) \<Longrightarrow> res_bind m f = res_bind m' f'"
  by (cases m') auto

lemma res_bind_Ok_iff [res_iff]: "res_bind m f = Inr y \<longleftrightarrow> (\<exists>x. m = Inr x \<and> f x = Inr y)"
  by (cases m) auto

text \<open>The operation returns: no assertion fails and no access leaves its array.\<close>

definition returns :: "'a res \<Rightarrow> bool" where
  "returns m \<longleftrightarrow> \<not> isl m"

lemma returns_simps [simp]:
  "returns (Inr x)" "\<not> returns (Inl e)"
  "returns (if b then m else n) \<longleftrightarrow> (if b then returns m else returns n)"
  by (simp_all add: returns_def)

lemma returns_iff: "returns m \<longleftrightarrow> (\<exists>x. m = Inr x)"
  by (cases m) auto

lemma returns_bind: "m = Inr x \<Longrightarrow> returns (f x) \<Longrightarrow> returns (res_bind m f)"
  by simp

lemma assert_crash_simps [simp]:
  "assert_crash True k = k"
  "assert_crash False k = Inl AssertCrash"
  by (simp_all add: assert_crash_def)

lemma assert_crash_Ok_iff [res_iff]: "assert_crash b k = Inr y \<longleftrightarrow> b \<and> k = Inr y"
  by (simp add: assert_crash_def)

section \<open>Byte arrays\<close>

definition mem_read :: "'a list \<Rightarrow> int \<Rightarrow> int \<Rightarrow> 'a list res" where
  "mem_read b off n =
     (if 0 \<le> off \<and> 0 \<le> n \<and> off + n \<le> int (length b)
      then Ok (take (nat n) (drop (nat off) b)) else Crash OutOfBounds)"

definition mem_write :: "'a list \<Rightarrow> int \<Rightarrow> 'a list \<Rightarrow> 'a list res" where
  "mem_write b off d =
     (if 0 \<le> off \<and> off + int (length d) \<le> int (length b)
      then Ok (take (nat off) b @ d @ drop (nat off + length d) b) else Crash OutOfBounds)"

text \<open>The result of a write that is in bounds, on natural offsets.\<close>

definition patch :: "'a list \<Rightarrow> nat \<Rightarrow> 'a list \<Rightarrow> 'a list" where
  "patch b off d = take off b @ d @ drop (off + length d) b"

lemma mem_write_patch:
  "0 \<le> off \<Longrightarrow> off + int (length d) \<le> int (length b) \<Longrightarrow>
   mem_write b off d = Inr (patch b (nat off) d)"
  by (simp add: mem_write_def patch_def)

lemma mem_write_Ok_iff [res_iff]:
  "mem_write b off d = Inr b' \<longleftrightarrow>
     0 \<le> off \<and> off + int (length d) \<le> int (length b) \<and> b' = patch b (nat off) d"
  by (auto simp: mem_write_def patch_def)

lemma mem_read_Ok_iff [res_iff]:
  "mem_read b off n = Inr d \<longleftrightarrow>
     0 \<le> off \<and> 0 \<le> n \<and> off + n \<le> int (length b) \<and> d = take (nat n) (drop (nat off) b)"
  by (auto simp: mem_read_def)

lemma length_patch [simp]: "off + length d \<le> length b \<Longrightarrow> length (patch b off d) = length b"
  by (simp add: patch_def)

lemma patch_Nil [simp]: "patch b off [] = b"
  by (simp add: patch_def)

lemma nth_patch:
  "off + length d \<le> length b \<Longrightarrow> i < length b \<Longrightarrow>
   patch b off d ! i = (if off \<le> i \<and> i < off + length d then d ! (i - off) else b ! i)"
  by (auto simp: patch_def nth_append min_def)

lemma take_drop_patch:
  "off + length d \<le> length b \<Longrightarrow> take (length d) (drop off (patch b off d)) = d"
  by (simp add: patch_def)

lemma take_patch_before:
  "n \<le> off \<Longrightarrow> off + length d \<le> length b \<Longrightarrow> take n (patch b off d) = take n b"
  by (simp add: patch_def min_def)

lemma take_patch_through:
  "off + length d \<le> length b \<Longrightarrow> take (off + length d) (patch b off d) = take off b @ d"
  by (simp add: patch_def)

lemma take_drop_patch_disjoint:
  assumes "off + length d \<le> length b" "o' + n \<le> off \<or> off + length d \<le> o'"
  shows "take n (drop o' (patch b off d)) = take n (drop o' b)"
proof (rule nth_equalityI)
  show "length (take n (drop o' (patch b off d))) = length (take n (drop o' b))"
    using assms(1) by simp
next
  fix i assume "i < length (take n (drop o' (patch b off d)))"
  then have i: "i < n" "o' + i < length b" using assms(1) by auto
  then have "patch b off d ! (o' + i) = b ! (o' + i)"
    using assms by (auto simp: nth_patch)
  with i assms(1) show "take n (drop o' (patch b off d)) ! i = take n (drop o' b) ! i"
    by (simp add: nth_append)
qed

lemma patch_patch_append:
  assumes "off + length d + length e \<le> length b"
  shows "patch (patch b off d) (off + length d) e = patch b off (d @ e)"
  using assms by (simp add: patch_def ac_simps)

section \<open>Little-endian integers\<close>

fun le_bytes :: "nat \<Rightarrow> nat \<Rightarrow> byte list" where
  "le_bytes 0 x = []"
| "le_bytes (Suc n) x = of_nat (x mod 256) # le_bytes n (x div 256)"

fun le_nat :: "byte list \<Rightarrow> nat" where
  "le_nat [] = 0"
| "le_nat (b # bs) = unat b + 256 * le_nat bs"

lemma length_le_bytes [simp]: "length (le_bytes n x) = n"
  by (induction n arbitrary: x) auto

lemma le_nat_le_bytes: "le_nat (le_bytes n x) = x mod 256 ^ n"
proof (induction n arbitrary: x)
  case 0
  then show ?case by simp
next
  case (Suc n)
  have "unat (of_nat (x mod 256) :: byte) = x mod 256"
    by (simp add: unat_of_nat)
  with Suc show ?case
    by (metis add.commute le_bytes.simps(2) le_nat.simps(2) mod_mult2_eq power_Suc)
qed

lemma le_nat_bound: "le_nat bs < 256 ^ length bs"
proof (induction bs)
  case Nil
  then show ?case by simp
next
  case (Cons b bs)
  have "unat b < 256" using unsigned_less [of b, where 'a = nat] by simp
  with Cons show ?case by simp
qed

lemma le_nat_le_bytes_word16 [simp]: "of_nat (le_nat (le_bytes 2 (unat w))) = (w :: uint16)"
  using unsigned_less [of w, where 'a = nat] by (simp add: le_nat_le_bytes)

lemma le_nat_le_bytes_word32 [simp]: "of_nat (le_nat (le_bytes 4 (unat w))) = (w :: uint32)"
  using unsigned_less [of w, where 'a = nat] by (simp add: le_nat_le_bytes)

lemma le_nat_le_bytes_word64 [simp]: "of_nat (le_nat (le_bytes 8 (unat w))) = (w :: uint64)"
  using unsigned_less [of w, where 'a = nat] by (simp add: le_nat_le_bytes)

section \<open>Lists and remainders\<close>

lemma mod_add_once: "(a::nat) < c \<Longrightarrow> k < c \<Longrightarrow> (a + k) mod c = (if a + k < c then a + k else a + k - c)"
  by (simp add: mod_if)

lemma int_mod_once: "(0::int) \<le> a \<Longrightarrow> a < 2 * c \<Longrightarrow> a mod c = (if a < c then a else a - c)"
  by (metis diff_ge_0_iff_ge diff_less_eq linorder_not_less minus_mod_self2 mod_pos_pos_trivial
      mult_2)

lemma nat_add_mod:
  "0 \<le> a \<Longrightarrow> 0 \<le> n \<Longrightarrow> 0 < c \<Longrightarrow> nat ((a + n) mod c) = (nat a + nat n) mod nat c"
  by (simp add: nat_mod_distrib nat_add_distrib)

lemma take_take_drop: "take n xs @ take m (drop n xs) = take (n + m) xs"
  by (simp add: take_add)

text \<open>A sum over threads after one of them has moved.\<close>

lemma sum_if_upd:
  fixes N i :: nat and f :: "'p \<Rightarrow> int"
  assumes "i < N"
  shows "(\<Sum>j < N. f (if j = i then x else g j)) = (\<Sum>j < N. f (g j)) - f (g i) + f x"
proof -
  have i: "i \<in> {..<N}" using assms by simp
  have rest: "(\<Sum>j \<in> {..<N} - {i}. f (if j = i then x else g j)) = (\<Sum>j \<in> {..<N} - {i}. f (g j))"
    by (intro sum.cong) auto
  have split: "(\<Sum>j < N. h j) = h i + (\<Sum>j \<in> {..<N} - {i}. h j)" for h :: "nat \<Rightarrow> int"
    using i by (intro sum.remove) auto
  show ?thesis
    using split [of "\<lambda>j. f (if j = i then x else g j)"] split [of "\<lambda>j. f (g j)"] rest by simp
qed

section \<open>Decimal numbers\<close>

definition digit_char :: "nat \<Rightarrow> char" where
  "digit_char n = char_of (48 + n)"

definition char_digit :: "char \<Rightarrow> nat" where
  "char_digit c = of_char c - 48"

fun decimal :: "nat \<Rightarrow> string" where
  "decimal n = (if n < 10 then [digit_char n] else decimal (n div 10) @ [digit_char (n mod 10)])"

declare decimal.simps [simp del]

text \<open>\<open>std::to_string\<close> of an \<open>int32\<close>.\<close>

definition to_string :: "int32 \<Rightarrow> string" where
  "to_string i = (if i < 0 then CHR ''-'' # decimal (nat (- i)) else decimal (nat i))"

definition decimal_value :: "string \<Rightarrow> nat" where
  "decimal_value s = foldl (\<lambda>n c. 10 * n + char_digit c) 0 s"

lemma char_digit_char [simp]: "n < 10 \<Longrightarrow> char_digit (digit_char n) = n"
  by (simp add: char_digit_def digit_char_def)

lemma decimal_value_decimal [simp]: "decimal_value (decimal n) = n"
  by (induction n rule: decimal.induct) (subst decimal.simps, auto simp: decimal_value_def)

lemma decimal_inj: "decimal m = decimal n \<longleftrightarrow> m = n"
  by (metis decimal_value_decimal)

lemma hd_decimal: "hd (decimal n) \<noteq> CHR ''-''" "decimal n \<noteq> []"
proof -
  have "decimal n \<noteq> [] \<and> (\<forall>c \<in> set (decimal n). c \<noteq> CHR ''-'')"
  proof (induction n rule: decimal.induct)
    case (1 n)
    have "digit_char k \<noteq> CHR ''-''" if "k < 10" for k
    proof
      assume "digit_char k = CHR ''-''"
      then have "(of_char (digit_char k) :: nat) = of_char CHR ''-''" by simp
      with that show False by (simp add: digit_char_def)
    qed
    with 1 show ?case by (subst (1 2) decimal.simps) auto
  qed
  then show "hd (decimal n) \<noteq> CHR ''-''" "decimal n \<noteq> []" by simp_all
qed

lemma to_string_inj: "to_string i = to_string j \<longleftrightarrow> i = j"
proof
  assume "to_string i = to_string j"
  then show "i = j"
    using hd_decimal(1) [of "nat i"] hd_decimal(1) [of "nat j"]
    by (auto simp: to_string_def decimal_inj split: if_splits) (metis list.sel(1))+
qed simp

end
