(* ===== verification/RingBuffer.thy ===== *)
theory RingBuffer
  imports Prelude
begin

text \<open>
  The receive ring buffer, \<^verbatim>\<open>ServerEngine/Buffer/RingBuffer.h\<close> and \<^verbatim>\<open>RingBuffer.cpp\<close>.

  One byte is always left free, so that \<open>_writePos = _readPos\<close> means empty. Besides the
  copying \<open>Read\<close>, \<open>Write\<close> and \<open>Peek\<close> the class hands out its free and its filled region as
  at most two \<open>WSABUF\<close> slices and moves its positions after the kernel has used them.

  The abstract view is \<open>rb_contents\<close>, the bytes from the read position on: \<open>Write\<close>
  appends to it, \<open>Read\<close> removes a prefix, and the slices address exactly the bytes behind
  and of it. The array is read and written through \<open>mem_read\<close> and \<open>mem_write\<close>, so a result
  \<open>Ok\<close> is also a proof that no byte outside the array is touched.
\<close>

section \<open>The class\<close>

record ring_buffer =
  rb_buffer :: "byte list"
  rb_capacity :: int32
  rb_readPos :: int32
  rb_writePos :: int32

record wsabuf =
  wb_off :: int32
  wb_len :: int32

text \<open>The constructor; \<open>mem\<close> is the block \<open>PoolAllocator::Alloc\<close> returned, contents arbitrary.\<close>

definition RingBuffer_new :: "byte list \<Rightarrow> int32 \<Rightarrow> ring_buffer res" where
  "RingBuffer_new mem cap =
     assert_crash (cap > 0)
       (Ok \<lparr>rb_buffer = mem, rb_capacity = cap, rb_readPos = 0, rb_writePos = 0\<rparr>)"

definition RingBuffer_Clear :: "ring_buffer \<Rightarrow> ring_buffer" where
  "RingBuffer_Clear rb = rb\<lparr>rb_readPos := 0, rb_writePos := 0\<rparr>"

definition GetDataSize :: "ring_buffer \<Rightarrow> int32" where
  "GetDataSize rb =
     (if rb_writePos rb \<ge> rb_readPos rb then rb_writePos rb - rb_readPos rb
      else rb_capacity rb - rb_readPos rb + rb_writePos rb)"

definition GetFreeSize :: "ring_buffer \<Rightarrow> int32" where
  "GetFreeSize rb = rb_capacity rb - 1 - GetDataSize rb"

definition RingBuffer_Write :: "byte list \<Rightarrow> int32 \<Rightarrow> ring_buffer \<Rightarrow> (bool \<times> ring_buffer) res" where
  "RingBuffer_Write data sz rb =
     (if sz \<le> 0 \<or> sz > GetFreeSize rb then Ok (False, rb)
      else if rb_writePos rb + sz \<le> rb_capacity rb then
        res_bind (mem_read data 0 sz) (\<lambda>d.
        res_bind (mem_write (rb_buffer rb) (rb_writePos rb) d) (\<lambda>b.
        Ok (True, rb\<lparr>rb_buffer := b,
                     rb_writePos := (rb_writePos rb + sz) mod rb_capacity rb\<rparr>)))
      else
        let firstPart = rb_capacity rb - rb_writePos rb;
            secondPart = sz - firstPart
        in
        res_bind (mem_read data 0 firstPart) (\<lambda>d1.
        res_bind (mem_write (rb_buffer rb) (rb_writePos rb) d1) (\<lambda>b1.
        res_bind (mem_read data firstPart secondPart) (\<lambda>d2.
        res_bind (mem_write b1 0 d2) (\<lambda>b2.
        Ok (True, rb\<lparr>rb_buffer := b2, rb_writePos := secondPart\<rparr>))))))"

text \<open>\<open>Peek\<close> returns the bytes it copies to \<open>dest\<close>; on failure \<open>dest\<close> is not written.\<close>

definition RingBuffer_Peek :: "int32 \<Rightarrow> ring_buffer \<Rightarrow> (byte list option) res" where
  "RingBuffer_Peek sz rb =
     (if sz \<le> 0 \<or> sz > GetDataSize rb then Ok None
      else if rb_readPos rb + sz \<le> rb_capacity rb then
        res_bind (mem_read (rb_buffer rb) (rb_readPos rb) sz) (\<lambda>d. Ok (Some d))
      else
        let firstPart = rb_capacity rb - rb_readPos rb;
            secondPart = sz - firstPart
        in
        res_bind (mem_read (rb_buffer rb) (rb_readPos rb) firstPart) (\<lambda>d1.
        res_bind (mem_read (rb_buffer rb) 0 secondPart) (\<lambda>d2.
        Ok (Some (d1 @ d2)))))"

definition MoveWritePos :: "int32 \<Rightarrow> ring_buffer \<Rightarrow> bool \<times> ring_buffer" where
  "MoveWritePos sz rb =
     (if sz \<le> 0 \<or> sz > GetFreeSize rb then (False, rb)
      else (True, rb\<lparr>rb_writePos := (rb_writePos rb + sz) mod rb_capacity rb\<rparr>))"

definition MoveReadPos :: "int32 \<Rightarrow> ring_buffer \<Rightarrow> bool \<times> ring_buffer" where
  "MoveReadPos sz rb =
     (if sz \<le> 0 \<or> sz > GetDataSize rb then (False, rb)
      else (True, rb\<lparr>rb_readPos := (rb_readPos rb + sz) mod rb_capacity rb\<rparr>))"

definition RingBuffer_Read :: "int32 \<Rightarrow> ring_buffer \<Rightarrow> (byte list option \<times> ring_buffer) res" where
  "RingBuffer_Read sz rb =
     res_bind (RingBuffer_Peek sz rb) (\<lambda>d.
       case d of
         None \<Rightarrow> Ok (None, rb)
       | Some bs \<Rightarrow>
           (let (ok, rb') = MoveReadPos sz rb in Ok (if ok then Some bs else None, rb')))"

text \<open>
  The slice computations return \<open>spanCount\<close> and the two entries of \<open>outWsabufs\<close>, \<open>None\<close>
  for an entry the code leaves as it found it.
\<close>

definition GetWriteSpan :: "ring_buffer \<Rightarrow> int32 \<Rightarrow> int32 \<times> wsabuf option \<times> wsabuf option" where
  "GetWriteSpan rb maxBytes =
     (let r = rb_readPos rb; w = rb_writePos rb; cap = rb_capacity rb;
          freeSize = (if maxBytes > 0 then min (GetFreeSize rb) maxBytes else GetFreeSize rb)
      in
      if freeSize \<le> 0 then (0, None, None)
      else if w \<ge> r then
        let tailFree0 = cap - w;
            tailFree1 = (if r = 0 then tailFree0 - 1 else tailFree0);
            tailFree = min tailFree1 freeSize;
            spanCount = (if tailFree > 0 then 1 else 0);
            out0 = (if tailFree > 0 then Some \<lparr>wb_off = w, wb_len = tailFree\<rparr> else None);
            freeSize' = (if tailFree > 0 then freeSize - tailFree else freeSize);
            headFree = min (r - 1) freeSize'
        in
        if freeSize' > 0 \<and> r > 0 \<and> headFree > 0
        then (2, out0, Some \<lparr>wb_off = 0, wb_len = headFree\<rparr>)
        else (spanCount, out0, None)
      else
        let directFree = min (r - w - 1) freeSize
        in
        if directFree > 0 then (1, Some \<lparr>wb_off = w, wb_len = directFree\<rparr>, None)
        else (0, None, None))"

definition GetReadSpan :: "ring_buffer \<Rightarrow> int32 \<Rightarrow> int32 \<times> wsabuf option \<times> wsabuf option" where
  "GetReadSpan rb maxBytes =
     (let r = rb_readPos rb; w = rb_writePos rb; cap = rb_capacity rb;
          dataSize = (if maxBytes > 0 then min (GetDataSize rb) maxBytes else GetDataSize rb)
      in
      if dataSize \<le> 0 then (0, None, None)
      else if w \<ge> r then (1, Some \<lparr>wb_off = r, wb_len = dataSize\<rparr>, None)
      else
        let tailData = min (cap - r) dataSize;
            out0 = Some \<lparr>wb_off = r, wb_len = tailData\<rparr>;
            dataSize' = dataSize - tailData;
            headData = min w dataSize'
        in
        if dataSize' > 0 \<and> w > 0 \<and> headData > 0
        then (2, out0, Some \<lparr>wb_off = 0, wb_len = headData\<rparr>)
        else (1, out0, None))"

section \<open>Invariant and abstract contents\<close>

definition rb_inv :: "ring_buffer \<Rightarrow> bool" where
  "rb_inv rb \<longleftrightarrow>
     0 < rb_capacity rb \<and> int (length (rb_buffer rb)) = rb_capacity rb \<and>
     0 \<le> rb_readPos rb \<and> rb_readPos rb < rb_capacity rb \<and>
     0 \<le> rb_writePos rb \<and> rb_writePos rb < rb_capacity rb"

definition rb_addr :: "ring_buffer \<Rightarrow> int32 \<Rightarrow> nat \<Rightarrow> nat" where
  "rb_addr rb pos k = (nat pos + k) mod length (rb_buffer rb)"

definition rb_contents :: "ring_buffer \<Rightarrow> byte list" where
  "rb_contents rb =
     map (\<lambda>k. rb_buffer rb ! rb_addr rb (rb_readPos rb) k) [0..<nat (GetDataSize rb)]"

text \<open>The addresses a pair of slices covers, in the order the kernel fills or drains them.\<close>

definition slot_addrs :: "wsabuf option \<Rightarrow> nat list" where
  "slot_addrs s =
     (case s of None \<Rightarrow> [] | Some b \<Rightarrow> [nat (wb_off b)..<nat (wb_off b) + nat (wb_len b)])"

definition span_addrs :: "int32 \<times> wsabuf option \<times> wsabuf option \<Rightarrow> nat list" where
  "span_addrs sp =
     (case sp of (n, s0, s1) \<Rightarrow>
        (if n \<ge> 1 then slot_addrs s0 else []) @ (if n \<ge> 2 then slot_addrs s1 else []))"

lemma rb_invD:
  assumes "rb_inv rb"
  shows "0 < length (rb_buffer rb)" "rb_capacity rb = int (length (rb_buffer rb))"
    "nat (rb_readPos rb) < length (rb_buffer rb)" "nat (rb_writePos rb) < length (rb_buffer rb)"
  using assms by (auto simp: rb_inv_def)

lemma GetDataSize_range: "rb_inv rb \<Longrightarrow> 0 \<le> GetDataSize rb \<and> GetDataSize rb < rb_capacity rb"
  by (auto simp: rb_inv_def GetDataSize_def)

lemma GetFreeSize_range: "rb_inv rb \<Longrightarrow> 0 \<le> GetFreeSize rb \<and> GetFreeSize rb < rb_capacity rb"
  using GetDataSize_range [of rb] by (auto simp: GetFreeSize_def)

lemma length_rb_contents [simp]: "length (rb_contents rb) = nat (GetDataSize rb)"
  by (simp add: rb_contents_def)

lemma nth_rb_contents:
  "k < nat (GetDataSize rb) \<Longrightarrow>
   rb_contents rb ! k = rb_buffer rb ! rb_addr rb (rb_readPos rb) k"
  by (simp add: rb_contents_def)

lemma rb_addr_less: "rb_inv rb \<Longrightarrow> rb_addr rb p k < length (rb_buffer rb)"
  using rb_invD(1) [of rb] by (simp add: rb_addr_def)

text \<open>
  Moving a position by \<open>n\<close> bytes round the ring: the difference of the positions grows or
  shrinks by \<open>n\<close>, as long as it stays below the capacity.
\<close>

lemma rb_readPos_writePos:
  assumes "rb_inv rb"
  shows "rb_writePos rb = (rb_readPos rb + GetDataSize rb) mod rb_capacity rb"
  using assms by (auto simp: rb_inv_def GetDataSize_def)

lemma GetDataSize_advance_write:
  assumes "rb_inv rb" "0 \<le> n" "n \<le> GetFreeSize rb" "rb_capacity rb' = rb_capacity rb"
    "rb_readPos rb' = rb_readPos rb"
    "rb_writePos rb' = (rb_writePos rb + n) mod rb_capacity rb"
  shows "GetDataSize rb' = GetDataSize rb + n"
proof -
  have w: "(rb_writePos rb + n) mod rb_capacity rb =
      (if rb_writePos rb + n < rb_capacity rb then rb_writePos rb + n
       else rb_writePos rb + n - rb_capacity rb)"
    using assms(1-3) GetFreeSize_range [OF assms(1)]
    by (intro int_mod_once) (auto simp: rb_inv_def)
  show ?thesis
    using assms(1-3) unfolding GetDataSize_def GetFreeSize_def assms(4-6) w
    by (auto simp: rb_inv_def split: if_splits)
qed

lemma GetDataSize_advance_read:
  assumes "rb_inv rb" "0 \<le> n" "n \<le> GetDataSize rb" "rb_capacity rb' = rb_capacity rb"
    "rb_writePos rb' = rb_writePos rb"
    "rb_readPos rb' = (rb_readPos rb + n) mod rb_capacity rb"
  shows "GetDataSize rb' = GetDataSize rb - n"
proof -
  have r: "(rb_readPos rb + n) mod rb_capacity rb =
      (if rb_readPos rb + n < rb_capacity rb then rb_readPos rb + n
       else rb_readPos rb + n - rb_capacity rb)"
    using assms(1-3) GetDataSize_range [OF assms(1)]
    by (intro int_mod_once) (auto simp: rb_inv_def)
  show ?thesis
    using assms(1-3) unfolding GetDataSize_def assms(4-6) r
    by (auto simp: rb_inv_def split: if_splits)
qed

text \<open>Addresses: the byte \<open>k\<close> behind the contents is byte \<open>k\<close> from the write position.\<close>

lemma rb_addr_write:
  assumes "rb_inv rb"
  shows "rb_addr rb (rb_writePos rb) k = rb_addr rb (rb_readPos rb) (nat (GetDataSize rb) + k)"
proof -
  have "nat (rb_writePos rb) =
      (nat (rb_readPos rb) + nat (GetDataSize rb)) mod length (rb_buffer rb)"
    using assms GetDataSize_range [OF assms] rb_readPos_writePos [OF assms]
    by (metis nat_add_mod nat_int rb_invD(2) rb_inv_def)
  then show ?thesis
    by (simp add: rb_addr_def mod_add_left_eq add.assoc)
qed

lemma rb_addr_split:
  assumes "0 \<le> p" "nat p < length (rb_buffer rb)" "k < length (rb_buffer rb)"
  shows "rb_addr rb p k =
    (if nat p + k < length (rb_buffer rb) then nat p + k
     else nat p + k - length (rb_buffer rb))"
  using assms by (simp add: rb_addr_def mod_add_once)

lemma rb_addr_inj:
  assumes "i < length (rb_buffer rb)" "j < length (rb_buffer rb)"
    "rb_addr rb p i = rb_addr rb p j"
  shows "i = j"
proof -
  let ?c = "length (rb_buffer rb)"
  have "(nat p + x) mod ?c = (nat p mod ?c + x) mod ?c" for x
    by (simp add: mod_add_left_eq)
  moreover have "nat p mod ?c < ?c"
    using assms(1) by (intro mod_less_divisor) auto
  ultimately show ?thesis
    using assms by (auto simp: rb_addr_def mod_add_once split: if_splits)
qed

lemma rb_contents_extend:
  assumes inv: "rb_inv rb" and n: "int (length d) \<le> GetFreeSize rb"
    and len: "length b = length (rb_buffer rb)"
    and new: "\<And>k. k < length d \<Longrightarrow> b ! rb_addr rb (rb_writePos rb) k = d ! k"
    and old: "\<And>k. k < nat (GetDataSize rb) \<Longrightarrow>
       b ! rb_addr rb (rb_readPos rb) k = rb_buffer rb ! rb_addr rb (rb_readPos rb) k"
  defines "rb' \<equiv> rb\<lparr>rb_buffer := b,
       rb_writePos := (rb_writePos rb + int (length d)) mod rb_capacity rb\<rparr>"
  shows "rb_contents rb' = rb_contents rb @ d" and "rb_inv rb'"
proof -
  have sz: "GetDataSize rb' = GetDataSize rb + int (length d)"
    by (rule GetDataSize_advance_write [OF inv _ n]) (simp_all add: rb'_def)
  have addr: "rb_addr rb' p k = rb_addr rb p k" for p k
    by (simp add: rb'_def rb_addr_def len)
  show "rb_contents rb' = rb_contents rb @ d"
  proof (rule nth_equalityI)
    show "length (rb_contents rb') = length (rb_contents rb @ d)"
      using GetDataSize_range [OF inv] by (simp add: sz nat_add_distrib)
  next
    fix i assume "i < length (rb_contents rb')"
    then have i: "i < nat (GetDataSize rb) + length d"
      using GetDataSize_range [OF inv] by (simp add: sz nat_add_distrib)
    then have l: "rb_contents rb' ! i = b ! rb_addr rb (rb_readPos rb) i"
      using GetDataSize_range [OF inv]
      by (subst nth_rb_contents) (simp_all add: sz nat_add_distrib addr, simp_all add: rb'_def)
    show "rb_contents rb' ! i = (rb_contents rb @ d) ! i"
    proof (cases "i < nat (GetDataSize rb)")
      case True
      then show ?thesis by (simp add: l old nth_append nth_rb_contents)
    next
      case False
      then have "b ! rb_addr rb (rb_readPos rb) i = d ! (i - nat (GetDataSize rb))"
        using new [of "i - nat (GetDataSize rb)"] i by (simp add: rb_addr_write [OF inv])
      with False show ?thesis by (simp add: l nth_append)
    qed
  qed
  show "rb_inv rb'"
    using inv len by (auto simp: rb_inv_def rb'_def)
qed

section \<open>Write appends\<close>

text \<open>
  The array after the one or two copies of \<open>Write\<close>: what it holds at the addresses written
  and at every other one.
\<close>

definition ring_patch :: "byte list \<Rightarrow> nat \<Rightarrow> byte list \<Rightarrow> byte list" where
  "ring_patch b w d =
     (if w + length d \<le> length b then patch b w d
      else patch (patch b w (take (length b - w) d)) 0 (drop (length b - w) d))"

lemma length_ring_patch [simp]:
  "w < length b \<Longrightarrow> length d < length b \<Longrightarrow> length (ring_patch b w d) = length b"
  by (auto simp: ring_patch_def min_def)

lemma nth_ring_patch_new:
  assumes "w < length b" "length d < length b" "k < length d"
  shows "ring_patch b w d ! ((w + k) mod length b) = d ! k"
  using assms by (auto simp: ring_patch_def nth_patch mod_add_once)

lemma nth_ring_patch_old:
  assumes "w < length b" "length d < length b" "j < length b"
    "\<And>k. k < length d \<Longrightarrow> j \<noteq> (w + k) mod length b"
  shows "ring_patch b w d ! j = b ! j"
proof -
  have 1: "\<not> (w \<le> j \<and> j < w + length d)"
    using assms(4) [of "j - w"] assms(3) by (auto, arith)
  have 2: "\<not> (j + length b < w + length d)" if "length b < w + length d"
    using assms(4) [of "j + length b - w"] assms(1-3) that by (auto simp: mod_add_once, arith)
  show ?thesis
    using assms(1-3) 1 2 by (auto simp: ring_patch_def nth_patch)
qed

lemma RingBuffer_Write_eq:
  assumes inv: "rb_inv rb" and sz: "0 < sz" "sz \<le> GetFreeSize rb" "sz \<le> int (length data)"
  shows "RingBuffer_Write data sz rb =
    Ok (True, rb\<lparr>rb_buffer := ring_patch (rb_buffer rb) (nat (rb_writePos rb)) (take (nat sz) data),
                 rb_writePos := (rb_writePos rb + sz) mod rb_capacity rb\<rparr>)"
proof -
  have free: "GetFreeSize rb < rb_capacity rb"
    using GetFreeSize_range [OF inv] by simp
  have b: "0 \<le> rb_writePos rb" "rb_writePos rb < rb_capacity rb"
    "rb_capacity rb = int (length (rb_buffer rb))"
    using inv by (auto simp: rb_inv_def)
  show ?thesis
  proof (cases "rb_writePos rb + sz \<le> rb_capacity rb")
    case True
    then show ?thesis
      using sz b by (simp add: RingBuffer_Write_def mem_read_def mem_write_patch ring_patch_def
          min_def)
  next
    case False
    define fp where "fp = length (rb_buffer rb) - nat (rb_writePos rb)"
    have f: "rb_capacity rb - rb_writePos rb = int fp"
      using b by (simp add: fp_def of_nat_diff)
    have m: "(rb_writePos rb + sz) mod rb_capacity rb = sz - int fp"
      using False b sz free by (subst int_mod_once) (simp_all add: f [symmetric])
    have d: "take (nat (sz - int fp)) (drop fp data) = drop fp (take (nat sz) data)"
      by (simp add: drop_take) (metis nat_int nat_minus_as_int nat_diff_distrib' of_nat_0_le_iff
          order_less_imp_le sz(1))
    have q: "fp \<le> nat sz" using False b unfolding fp_def by arith
    then have t: "take fp data = take fp (take (nat sz) data)"
      by (simp add: min_def)
    have len: "fp \<le> length data" "nat sz \<le> length data" "nat sz - fp \<le> length (rb_buffer rb)"
      "nat (rb_writePos rb) + fp = length (rb_buffer rb)"
      using q sz b free by (auto simp: fp_def)
    have r1: "mem_read data 0 (int fp) = Ok (take fp data)"
      using len by (simp add: mem_read_def)
    have w1: "mem_write (rb_buffer rb) (rb_writePos rb) (take fp data) =
        Ok (patch (rb_buffer rb) (nat (rb_writePos rb)) (take fp data))"
      using len b by (intro mem_write_patch) (auto simp: min_def)
    have r2: "mem_read data (int fp) (sz - int fp) = Ok (drop fp (take (nat sz) data))"
      using len q sz by (simp add: mem_read_def d)
    have w2: "mem_write (patch (rb_buffer rb) (nat (rb_writePos rb)) (take fp data)) 0
        (drop fp (take (nat sz) data)) =
        Ok (patch (patch (rb_buffer rb) (nat (rb_writePos rb)) (take fp data)) 0
          (drop fp (take (nat sz) data)))"
      using len by (subst mem_write_patch) (auto simp: min_def)
    have p: "ring_patch (rb_buffer rb) (nat (rb_writePos rb)) (take (nat sz) data) =
        patch (patch (rb_buffer rb) (nat (rb_writePos rb)) (take fp data)) 0
          (drop fp (take (nat sz) data))"
    proof -
      have "\<not> nat (rb_writePos rb) + length (take (nat sz) data) \<le> length (rb_buffer rb)"
        using False len(2) b by (simp add: min_def)
      then show ?thesis
        by (simp add: ring_patch_def fp_def [symmetric] t [symmetric] del: take_take length_take)
    qed
    show ?thesis
      unfolding RingBuffer_Write_def Let_def f r1 res_bind_simps w1 r2 w2 m p
      using sz False by simp
  qed
qed

lemma ring_patch_contents:
  assumes inv: "rb_inv rb" and n: "int (length d) \<le> GetFreeSize rb"
  defines "rb' \<equiv> rb\<lparr>rb_buffer := ring_patch (rb_buffer rb) (nat (rb_writePos rb)) d,
       rb_writePos := (rb_writePos rb + int (length d)) mod rb_capacity rb\<rparr>"
  shows "rb_contents rb' = rb_contents rb @ d" and "rb_inv rb'"
proof -
  note pos = rb_invD [OF inv]
  have d: "length d < length (rb_buffer rb)"
    using n GetFreeSize_range [OF inv] pos(2) by simp
  have sum: "nat (GetDataSize rb) + length d < length (rb_buffer rb)"
    using n GetDataSize_range [OF inv] pos(2) by (simp add: GetFreeSize_def)
  have new: "ring_patch (rb_buffer rb) (nat (rb_writePos rb)) d ! rb_addr rb (rb_writePos rb) k
      = d ! k" if "k < length d" for k
    using that pos d by (simp add: rb_addr_def nth_ring_patch_new)
  have old: "ring_patch (rb_buffer rb) (nat (rb_writePos rb)) d ! rb_addr rb (rb_readPos rb) k
      = rb_buffer rb ! rb_addr rb (rb_readPos rb) k" if k: "k < nat (GetDataSize rb)" for k
  proof (rule nth_ring_patch_old [OF pos(4) d rb_addr_less [OF inv]])
    fix j assume j: "j < length d"
    have "rb_addr rb (rb_readPos rb) k \<noteq> rb_addr rb (rb_readPos rb) (nat (GetDataSize rb) + j)"
      using rb_addr_inj [of k rb "nat (GetDataSize rb) + j"] k j sum by fastforce
    then show "rb_addr rb (rb_readPos rb) k \<noteq> (nat (rb_writePos rb) + j) mod length (rb_buffer rb)"
      by (simp add: rb_addr_write [OF inv, symmetric]) (simp add: rb_addr_def)
  qed
  show "rb_contents rb' = rb_contents rb @ d" "rb_inv rb'"
    unfolding rb'_def using rb_contents_extend [OF inv n _ new old] pos d by simp_all
qed

lemma RingBuffer_Write_ok:
  assumes "rb_inv rb" "0 < sz" "sz \<le> GetFreeSize rb" "sz \<le> int (length data)"
  shows "\<exists>rb'. RingBuffer_Write data sz rb = Ok (True, rb') \<and> rb_inv rb' \<and>
     rb_contents rb' = rb_contents rb @ take (nat sz) data \<and> rb_capacity rb' = rb_capacity rb"
proof -
  have "int (length (take (nat sz) data)) = sz" using assms by simp
  then show ?thesis
    using RingBuffer_Write_eq [OF assms] ring_patch_contents [OF assms(1), of "take (nat sz) data"]
      assms(3) by (simp del: length_take)
qed

lemma RingBuffer_Write_refused:
  "sz \<le> 0 \<or> GetFreeSize rb < sz \<Longrightarrow> RingBuffer_Write data sz rb = Ok (False, rb)"
  by (simp add: RingBuffer_Write_def)

section \<open>Peek and Read take a prefix\<close>

lemma take_rb_contents:
  assumes inv: "rb_inv rb" and n: "n \<le> nat (GetDataSize rb)"
  shows "take n (rb_contents rb) =
    (if nat (rb_readPos rb) + n \<le> length (rb_buffer rb)
     then take n (drop (nat (rb_readPos rb)) (rb_buffer rb))
     else drop (nat (rb_readPos rb)) (rb_buffer rb) @
          take (n - (length (rb_buffer rb) - nat (rb_readPos rb))) (rb_buffer rb))"
proof (rule nth_equalityI, goal_cases)
  case 1
  show ?case
    using n rb_invD [OF inv] GetDataSize_range [OF inv] by (auto simp: min_def)
next
  case (2 i)
  then have i: "i < n" by simp
  have p: "0 \<le> rb_readPos rb" "nat (rb_readPos rb) < length (rb_buffer rb)"
    using inv by (auto simp: rb_inv_def)
  have "n < length (rb_buffer rb)"
    using n GetDataSize_range [OF inv] rb_invD(2) [OF inv] by linarith
  then show ?case
    using i n p by (auto simp: nth_rb_contents rb_addr_split nth_append min_def add.commute)
qed

lemma RingBuffer_Peek_ok:
  assumes inv: "rb_inv rb" and sz: "0 < sz" "sz \<le> GetDataSize rb"
  shows "RingBuffer_Peek sz rb = Ok (Some (take (nat sz) (rb_contents rb)))"
proof -
  have b: "0 \<le> rb_readPos rb" "rb_readPos rb < rb_capacity rb"
    "rb_capacity rb = int (length (rb_buffer rb))" "sz < rb_capacity rb"
    using inv sz GetDataSize_range [OF inv] by (auto simp: rb_inv_def)
  define r where "r = nat (rb_readPos rb)"
  define n where "n = nat sz"
  have rn: "rb_readPos rb = int r" "sz = int n" "r < length (rb_buffer rb)"
    "n < length (rb_buffer rb)" "0 < n" "n \<le> nat (GetDataSize rb)"
    using b sz by (auto simp: r_def n_def)
  show ?thesis
  proof (cases "r + n \<le> length (rb_buffer rb)")
    case True
    then show ?thesis
      using rn b(3) sz take_rb_contents [OF inv rn(6)] by (simp add: RingBuffer_Peek_def mem_read_def)
  next
    case False
    define m where "m = length (rb_buffer rb) - r"
    have m: "r + m = length (rb_buffer rb)" "m < n" "sz - int m = int (n - m)"
      "rb_capacity rb - rb_readPos rb = int m"
      using False rn b(3) by (simp_all add: m_def of_nat_diff)
    have r1: "mem_read (rb_buffer rb) (int r) (int m) = Ok (drop r (rb_buffer rb))"
      using m(1) by (simp add: mem_read_def)
    have r2: "mem_read (rb_buffer rb) 0 (int (n - m)) = Ok (take (n - m) (rb_buffer rb))"
      using m(1) rn by (simp add: mem_read_def)
    have t: "take n (rb_contents rb) = drop r (rb_buffer rb) @ take (n - m) (rb_buffer rb)"
      using take_rb_contents [OF inv rn(6)] False rn(1) by (simp add: m_def)
    have "\<not> int r + int n \<le> rb_capacity rb"
      using False b(3) by simp
    then show ?thesis
      unfolding RingBuffer_Peek_def Let_def m(3,4) using r1 r2 t rn sz by simp
  qed
qed

lemma MoveReadPos_ok:
  assumes inv: "rb_inv rb" and sz: "0 < sz" "sz \<le> GetDataSize rb"
  shows "\<exists>rb'. MoveReadPos sz rb = (True, rb') \<and> rb_inv rb' \<and>
     rb_contents rb' = drop (nat sz) (rb_contents rb) \<and> rb_capacity rb' = rb_capacity rb"
proof -
  let ?rb = "rb\<lparr>rb_readPos := (rb_readPos rb + sz) mod rb_capacity rb\<rparr>"
  have data: "GetDataSize ?rb = GetDataSize rb - sz"
    by (rule GetDataSize_advance_read [OF inv _ sz(2)]) (use sz in simp_all)
  have addr: "rb_addr ?rb ((rb_readPos rb + sz) mod rb_capacity rb) k =
      rb_addr rb (rb_readPos rb) (nat sz + k)" for k
  proof -
    have "nat ((rb_readPos rb + sz) mod rb_capacity rb) =
        (nat (rb_readPos rb) + nat sz) mod length (rb_buffer rb)"
      using inv sz rb_invD(1,2) [OF inv] by (subst nat_add_mod) (auto simp: rb_inv_def)
    then show ?thesis by (simp add: rb_addr_def mod_add_left_eq add.assoc)
  qed
  have "rb_contents ?rb = drop (nat sz) (rb_contents rb)"
  proof (rule nth_equalityI)
    show "length (rb_contents ?rb) = length (drop (nat sz) (rb_contents rb))"
      using sz by (simp add: data nat_diff_distrib)
  next
    fix i assume "i < length (rb_contents ?rb)"
    then show "rb_contents ?rb ! i = drop (nat sz) (rb_contents rb) ! i"
      using sz addr [of i] by (simp add: data nth_rb_contents)
  qed
  moreover have "rb_inv ?rb" using inv by (auto simp: rb_inv_def)
  ultimately show ?thesis using sz by (simp add: MoveReadPos_def)
qed

lemma MoveReadPos_refused:
  "sz \<le> 0 \<or> GetDataSize rb < sz \<Longrightarrow> MoveReadPos sz rb = (False, rb)"
  by (simp add: MoveReadPos_def)

lemma RingBuffer_Read_ok:
  assumes "rb_inv rb" "0 < sz" "sz \<le> GetDataSize rb"
  shows "\<exists>rb'. RingBuffer_Read sz rb = Ok (Some (take (nat sz) (rb_contents rb)), rb') \<and>
     rb_inv rb' \<and> rb_contents rb' = drop (nat sz) (rb_contents rb) \<and>
     rb_capacity rb' = rb_capacity rb"
  using MoveReadPos_ok [OF assms] by (auto simp: RingBuffer_Read_def RingBuffer_Peek_ok [OF assms])

lemma RingBuffer_Read_refused:
  "sz \<le> 0 \<or> GetDataSize rb < sz \<Longrightarrow> RingBuffer_Read sz rb = Ok (None, rb)"
  by (auto simp: RingBuffer_Read_def RingBuffer_Peek_def)

section \<open>The scatter/gather slices\<close>

text \<open>\<open>n\<close> consecutive ring addresses from \<open>p\<close> are one interval, or two if they wrap.\<close>

lemma rb_addrs_split:
  assumes "0 \<le> p" "nat p < length (rb_buffer rb)" "n \<le> length (rb_buffer rb)"
  shows "map (rb_addr rb p) [0..<n] =
    (if nat p + n \<le> length (rb_buffer rb) then [nat p..<nat p + n]
     else [nat p..<length (rb_buffer rb)] @ [0..<nat p + n - length (rb_buffer rb)])"
  by (rule nth_equalityI) (use assms in \<open>auto simp: rb_addr_split nth_append\<close>)

text \<open>Both computations reduce to one case: does the region pass the end of the array?\<close>

definition ring_spans :: "int32 \<Rightarrow> int32 \<Rightarrow> int32 \<Rightarrow> int32 \<times> wsabuf option \<times> wsabuf option" where
  "ring_spans cap p n =
     (if n \<le> 0 then (0, None, None)
      else if p + n \<le> cap then (1, Some \<lparr>wb_off = p, wb_len = n\<rparr>, None)
      else (2, Some \<lparr>wb_off = p, wb_len = cap - p\<rparr>, Some \<lparr>wb_off = 0, wb_len = p + n - cap\<rparr>))"

definition span_bytes :: "int32 \<Rightarrow> int32 \<Rightarrow> int32" where
  "span_bytes avail m = (if m > 0 then min avail m else avail)"

lemma span_bytes_le: "span_bytes avail m \<le> avail"
  by (simp add: span_bytes_def)

lemma GetWriteSpan_ring_spans:
  assumes "rb_inv rb"
  shows "GetWriteSpan rb m =
    ring_spans (rb_capacity rb) (rb_writePos rb) (span_bytes (GetFreeSize rb) m)"
proof -
  define n where "n = span_bytes (GetFreeSize rb) m"
  have n: "n \<le> GetFreeSize rb" by (simp add: n_def span_bytes_le)
  have unfold: "(if m > 0 then min (GetFreeSize rb) m else GetFreeSize rb) = n"
    by (simp add: n_def span_bytes_def)
  show ?thesis
  proof (cases "n \<le> 0")
    case True
    then show ?thesis unfolding GetWriteSpan_def Let_def unfold n_def [symmetric]
      by (simp add: ring_spans_def)
  next
    case False
    then show ?thesis
      using n assms unfolding GetWriteSpan_def Let_def unfold n_def [symmetric]
      by (cases "rb_readPos rb \<le> rb_writePos rb")
        (auto simp: ring_spans_def rb_inv_def GetFreeSize_def GetDataSize_def split: if_splits)
  qed
qed

lemma GetReadSpan_ring_spans:
  assumes "rb_inv rb"
  shows "GetReadSpan rb m =
    ring_spans (rb_capacity rb) (rb_readPos rb) (span_bytes (GetDataSize rb) m)"
proof -
  define n where "n = span_bytes (GetDataSize rb) m"
  have n: "n \<le> GetDataSize rb" by (simp add: n_def span_bytes_le)
  have unfold: "(if m > 0 then min (GetDataSize rb) m else GetDataSize rb) = n"
    by (simp add: n_def span_bytes_def)
  show ?thesis
    using n assms unfolding GetReadSpan_def Let_def unfold n_def [symmetric]
    by (cases "rb_readPos rb \<le> rb_writePos rb")
      (auto simp: ring_spans_def rb_inv_def GetDataSize_def split: if_splits)
qed

lemma ring_spans_addrs:
  assumes inv: "rb_inv rb" and p: "0 \<le> p" "p < rb_capacity rb" and n: "n < rb_capacity rb"
  shows "span_addrs (ring_spans (rb_capacity rb) p n) = map (rb_addr rb p) [0..<nat n]"
proof -
  note cap = rb_invD(2) [OF inv]
  have "nat n \<le> length (rb_buffer rb)" "nat p < length (rb_buffer rb)"
    using p n cap by auto
  note addrs = rb_addrs_split [OF p(1) this(2,1)]
  have e: "nat (rb_capacity rb - p) = length (rb_buffer rb) - nat p"
    "nat (p + n - rb_capacity rb) = nat p + nat n - length (rb_buffer rb)" if "0 < n"
    using that cap p by auto
  have c: "p + n \<le> rb_capacity rb \<longleftrightarrow> nat p + nat n \<le> length (rb_buffer rb)" if "0 < n"
    using that cap p by auto
  show ?thesis
    unfolding addrs using p e c cap by (auto simp: ring_spans_def span_addrs_def slot_addrs_def)
qed

lemma GetWriteSpan_addrs:
  assumes inv: "rb_inv rb"
  shows "span_addrs (GetWriteSpan rb m) =
    map (rb_addr rb (rb_writePos rb)) [0..<nat (span_bytes (GetFreeSize rb) m)]"
  unfolding GetWriteSpan_ring_spans [OF inv]
  using inv GetFreeSize_range [OF inv] span_bytes_le [of "GetFreeSize rb" m]
  by (intro ring_spans_addrs) (auto simp: rb_inv_def)

lemma GetReadSpan_addrs:
  assumes inv: "rb_inv rb"
  shows "span_addrs (GetReadSpan rb m) =
    map (rb_addr rb (rb_readPos rb)) [0..<nat (span_bytes (GetDataSize rb) m)]"
  unfolding GetReadSpan_ring_spans [OF inv]
  using inv GetDataSize_range [OF inv] span_bytes_le [of "GetDataSize rb" m]
  by (intro ring_spans_addrs) (auto simp: rb_inv_def)

section \<open>A byte queue and its client\<close>

text \<open>
  What a caller relies on: an insertion that fits appends, one that does not is refused and
  changes nothing, and the same for removals. From these laws alone, whatever the order of
  insertions and removals, the bytes come out in the order in which they went in.
\<close>

datatype 'x fifo_op = Put "'x list" | Get int

fun fifo_run ::
  "('x list \<Rightarrow> 'b \<Rightarrow> (bool \<times> 'b) res) \<Rightarrow> (int \<Rightarrow> 'b \<Rightarrow> ('x list option \<times> 'b) res) \<Rightarrow>
   'x fifo_op list \<Rightarrow> 'b \<Rightarrow> ('x list \<times> 'x list \<times> 'b) res" where
  "fifo_run put get [] b = Ok ([], [], b)"
| "fifo_run put get (Put d # ops) b =
     res_bind (put d b) (\<lambda>(ok, b').
     res_bind (fifo_run put get ops b') (\<lambda>(ins, outs, c).
     Ok ((if ok then d else []) @ ins, outs, c)))"
| "fifo_run put get (Get n # ops) b =
     res_bind (get n b) (\<lambda>(d, b').
     res_bind (fifo_run put get ops b') (\<lambda>(ins, outs, c).
     Ok (ins, (case d of None \<Rightarrow> [] | Some x \<Rightarrow> x) @ outs, c)))"

locale byte_queue =
  fixes inv :: "'b \<Rightarrow> bool"
    and contents :: "'b \<Rightarrow> 'x list"
    and room :: "'b \<Rightarrow> int"
    and put :: "'x list \<Rightarrow> 'b \<Rightarrow> (bool \<times> 'b) res"
    and get :: "int \<Rightarrow> 'b \<Rightarrow> ('x list option \<times> 'b) res"
  assumes put_fits: "inv b \<Longrightarrow> d \<noteq> [] \<Longrightarrow> int (length d) \<le> room b \<Longrightarrow>
      \<exists>b'. put d b = Ok (True, b') \<and> inv b' \<and> contents b' = contents b @ d"
    and put_refused: "d = [] \<or> room b < int (length d) \<Longrightarrow> put d b = Ok (False, b)"
    and get_fits: "inv b \<Longrightarrow> 0 < n \<Longrightarrow> n \<le> int (length (contents b)) \<Longrightarrow>
      \<exists>b'. get n b = Ok (Some (take (nat n) (contents b)), b') \<and> inv b' \<and>
           contents b' = drop (nat n) (contents b)"
    and get_refused: "inv b \<Longrightarrow> n \<le> 0 \<or> int (length (contents b)) < n \<Longrightarrow> get n b = Ok (None, b)"
begin

lemma put_total:
  assumes "inv b"
  obtains ok b' where "put d b = Ok (ok, b')" "inv b'"
    "contents b' = contents b @ (if ok then d else [])"
  using put_fits [OF assms, of d] put_refused [of d b] assms
  by (metis append_Nil2 linorder_not_less)

lemma get_total:
  assumes "inv b"
  obtains d b' where "get n b = Ok (d, b')" "inv b'"
    "contents b = (case d of None \<Rightarrow> [] | Some x \<Rightarrow> x) @ contents b'"
proof (cases "0 < n \<and> n \<le> int (length (contents b))")
  case True
  then obtain b' where "get n b = Ok (Some (take (nat n) (contents b)), b')" "inv b'"
    "contents b' = drop (nat n) (contents b)"
    using get_fits [OF assms] by blast
  then show ?thesis by (intro that) (auto simp: append_take_drop_id)
next
  case False
  then have "get n b = Ok (None, b)" using get_refused [OF assms] by force
  then show ?thesis using that assms by simp
qed

lemma fifo_order:
  assumes "inv b"
  shows "\<exists>ins outs b'. fifo_run put get ops b = Ok (ins, outs, b') \<and> inv b' \<and>
    contents b @ ins = outs @ contents b'"
  using assms
proof (induction ops arbitrary: b)
  case Nil
  then show ?case by simp
next
  case (Cons a ops)
  show ?case
  proof (cases a)
    case (Put d)
    obtain ok b' where p: "put d b = Ok (ok, b')" "inv b'"
      "contents b' = contents b @ (if ok then d else [])"
      using put_total [OF Cons.prems, of d] by blast
    from Cons.IH [OF p(2)] p Put show ?thesis by auto
  next
    case (Get n)
    obtain d b' where g: "get n b = Ok (d, b')" "inv b'"
      "contents b = (case d of None \<Rightarrow> [] | Some x \<Rightarrow> x) @ contents b'"
      using get_total [OF Cons.prems, of n] by blast
    from Cons.IH [OF g(2)] g Get show ?thesis by auto
  qed
qed

end

definition rb_put :: "byte list \<Rightarrow> ring_buffer \<Rightarrow> (bool \<times> ring_buffer) res" where
  "rb_put d rb = RingBuffer_Write d (int (length d)) rb"

interpretation ring: byte_queue rb_inv rb_contents GetFreeSize rb_put RingBuffer_Read
proof (unfold_locales, goal_cases)
  case (1 b d)
  then show ?case using RingBuffer_Write_ok [of b "int (length d)" d] by (auto simp: rb_put_def)
next
  case (2 d b)
  then show ?case by (auto simp: rb_put_def RingBuffer_Write_refused)
next
  case (3 b n)
  then show ?case using RingBuffer_Read_ok [of b n] GetDataSize_range [of b] by auto
next
  case (4 b n)
  then show ?case using GetDataSize_range [of b] by (intro RingBuffer_Read_refused) auto
qed

text \<open>A receive into the write spans.\<close>

lemma scatter_receive:
  assumes inv: "rb_inv rb" and n: "0 < n" "n \<le> span_bytes (GetFreeSize rb) m"
    and d: "length d = nat n" and b: "length b = length (rb_buffer rb)"
    and filled: "\<forall>k < nat n. b ! (span_addrs (GetWriteSpan rb m) ! k) = d ! k"
    and kept: "\<forall>a < length (rb_buffer rb).
      a \<notin> set (take (nat n) (span_addrs (GetWriteSpan rb m))) \<longrightarrow> b ! a = rb_buffer rb ! a"
  shows "\<exists>rb'. MoveWritePos n (rb\<lparr>rb_buffer := b\<rparr>) = (True, rb') \<and> rb_inv rb' \<and>
    rb_contents rb' = rb_contents rb @ d"
proof -
  have nf: "n \<le> GetFreeSize rb" using n(2) span_bytes_le [of "GetFreeSize rb" m] by simp
  have take_addrs: "take (nat n) (span_addrs (GetWriteSpan rb m)) =
      map (rb_addr rb (rb_writePos rb)) [0..<nat n]"
    using n by (simp add: GetWriteSpan_addrs [OF inv] take_map min_def nat_mono)
  have new: "b ! rb_addr rb (rb_writePos rb) k = d ! k" if "k < length d" for k
    using filled that d n by (auto simp: GetWriteSpan_addrs [OF inv] nat_mono)
  have old: "b ! rb_addr rb (rb_readPos rb) k = rb_buffer rb ! rb_addr rb (rb_readPos rb) k"
    if k: "k < nat (GetDataSize rb)" for k
  proof -
    have "rb_addr rb (rb_readPos rb) k \<noteq> rb_addr rb (rb_writePos rb) j" if "j < nat n" for j
    proof -
      have "nat (GetDataSize rb) + j < length (rb_buffer rb)"
        using that nf GetDataSize_range [OF inv] rb_invD(2) [OF inv] by (auto simp: GetFreeSize_def)
      then show ?thesis
        using rb_addr_inj [of k rb "nat (GetDataSize rb) + j" "rb_readPos rb"] k
        by (auto simp: rb_addr_write [OF inv])
    qed
    then have "rb_addr rb (rb_readPos rb) k \<notin> rb_addr rb (rb_writePos rb) ` {0..<nat n}"
      by (metis atLeastLessThan_iff imageE)
    then show ?thesis using kept rb_addr_less [OF inv] by (simp add: take_addrs)
  qed
  have dn: "int (length d) = n" using d n(1) by simp
  have "GetFreeSize (rb\<lparr>rb_buffer := b\<rparr>) = GetFreeSize rb"
    by (simp add: GetFreeSize_def GetDataSize_def)
  then show ?thesis
    using rb_contents_extend [OF inv _ b new old] n(1) nf dn by (simp add: MoveWritePos_def)
qed

section \<open>Properties\<close>

text \<open>C6: whatever the sequence of \<open>Write\<close> and \<open>Read\<close> calls, with whatever sizes, the ring buffer
  never leaves its array, never loses, duplicates or reorders a byte: what was in it followed
  by what was accepted is what was delivered followed by what is still in it.\<close>

theorem ring_buffer_fifo:
  assumes "rb_inv rb"
  shows "\<exists>ins outs rb'. fifo_run rb_put RingBuffer_Read ops rb = Ok (ins, outs, rb') \<and> rb_inv rb' \<and>
    rb_contents rb @ ins = outs @ rb_contents rb'"
  using assms by (rule ring.fifo_order)

theorem ring_buffer_fifo_witness:
  "\<exists>ins outs rb'. fifo_run rb_put RingBuffer_Read [Put [1, 2], Get 1, Put [3, 4], Put [5], Get 3]
      \<lparr>rb_buffer = [0, 0, 0, 0], rb_capacity = 4, rb_readPos = 3, rb_writePos = 3\<rparr> =
      Ok (ins, outs, rb') \<and> rb_inv rb' \<and>
    rb_contents \<lparr>rb_buffer = [0, 0, 0, 0], rb_capacity = 4, rb_readPos = 3, rb_writePos = 3\<rparr> @ ins =
      outs @ rb_contents rb'"
  by (rule ring_buffer_fifo) (simp add: rb_inv_def)

text \<open>the zero-copy receive. The kernel fills the slices of \<open>GetWriteSpan\<close> in order with the
  \<open>n\<close> bytes \<open>d\<close> it received and leaves the rest of the array alone (the hypotheses on the array
  \<open>b\<close> it leaves behind, the documented behaviour of \<open>WSARecv\<close>). Then \<open>MoveWritePos n\<close> succeeds
  and exactly \<open>d\<close> has been appended to the contents.\<close>

theorem scatter_receive_appends:
  assumes inv: "rb_inv rb" and n: "0 < n" "n \<le> span_bytes (GetFreeSize rb) m"
    and d: "length d = nat n" and b: "length b = length (rb_buffer rb)"
    and filled: "\<forall>k < nat n. b ! (span_addrs (GetWriteSpan rb m) ! k) = d ! k"
    and kept: "\<forall>a < length (rb_buffer rb).
      a \<notin> set (take (nat n) (span_addrs (GetWriteSpan rb m))) \<longrightarrow> b ! a = rb_buffer rb ! a"
  shows "\<exists>rb'. MoveWritePos n (rb\<lparr>rb_buffer := b\<rparr>) = (True, rb') \<and> rb_inv rb' \<and>
    rb_contents rb' = rb_contents rb @ d"
  using assms by (rule scatter_receive)

theorem scatter_receive_appends_witness:
  "\<exists>rb'. MoveWritePos 2 (\<lparr>rb_buffer = [9, 9, 9, 9], rb_capacity = 4, rb_readPos = 3, rb_writePos = 3\<rparr>
      \<lparr>rb_buffer := [8, 9, 9, 7]\<rparr>) = (True, rb') \<and> rb_inv rb' \<and>
    rb_contents rb' =
      rb_contents \<lparr>rb_buffer = [9, 9, 9, 9], rb_capacity = 4, rb_readPos = 3, rb_writePos = 3\<rparr> @ [7, 8]"
  by (rule scatter_receive_appends [where m = 0])
    (auto simp: rb_inv_def span_bytes_def GetFreeSize_def GetDataSize_def GetWriteSpan_def
      span_addrs_def slot_addrs_def less_Suc_eq numeral_2_eq_2 numeral_3_eq_3 numeral_eq_Suc)

text \<open>the slices of \<open>GetReadSpan\<close> hold, in order, exactly the first bytes of the contents (all of
  them, or \<open>maxBytes\<close> when that is positive and smaller), never a byte outside the array and never
  a byte twice.\<close>

theorem gather_read_prefix:
  assumes inv: "rb_inv rb"
  shows "map ((!) (rb_buffer rb)) (span_addrs (GetReadSpan rb m)) =
      take (nat (span_bytes (GetDataSize rb) m)) (rb_contents rb) \<and>
    distinct (span_addrs (GetReadSpan rb m)) \<and>
    (\<forall>a \<in> set (span_addrs (GetReadSpan rb m)). a < length (rb_buffer rb))"
proof -
  have le: "nat (span_bytes (GetDataSize rb) m) \<le> nat (GetDataSize rb)"
    using span_bytes_le by (rule nat_mono)
  have "inj_on (rb_addr rb (rb_readPos rb)) {0..<nat (span_bytes (GetDataSize rb) m)}"
    using le GetDataSize_range [OF inv] rb_invD(2) [OF inv]
    by (intro inj_onI) (rule rb_addr_inj, auto)
  then show ?thesis
    using le rb_addr_less [OF inv]
    by (auto simp: GetReadSpan_addrs [OF inv] rb_contents_def take_map distinct_map min_def)
qed

theorem gather_read_prefix_witness:
  "map ((!) (rb_buffer \<lparr>rb_buffer = [3, 4, 1, 2], rb_capacity = 4, rb_readPos = 2, rb_writePos = 1\<rparr>))
      (span_addrs (GetReadSpan \<lparr>rb_buffer = [3, 4, 1, 2], rb_capacity = 4, rb_readPos = 2,
        rb_writePos = 1\<rparr> 0)) = [1, 2, 3]"
proof -
  have c: "rb_contents \<lparr>rb_buffer = [3, 4, 1, 2], rb_capacity = 4, rb_readPos = 2, rb_writePos = 1\<rparr> =
      [1, 2, 3]"
    by code_simp
  show ?thesis
    using gather_read_prefix [of "\<lparr>rb_buffer = [3, 4, 1, 2], rb_capacity = 4, rb_readPos = 2,
        rb_writePos = 1\<rparr>" 0]
    by (simp add: rb_inv_def span_bytes_def GetDataSize_def c)
qed

text \<open>no \<open>int32\<close> sum of the class overflows, whatever size the caller passes, as long as the
  capacity is at most \<open>2^30\<close> (the program uses 4096 and 65536): the data and free sizes and
  both advanced positions stay in range, and so do the positions the operations store.\<close>

theorem ring_buffer_no_overflow:
  assumes "rb_inv rb" "rb_capacity rb \<le> 1073741824" "sz \<le> GetFreeSize rb \<or> sz \<le> GetDataSize rb" "0 < sz"
  shows "in_int32 (GetDataSize rb) \<and> in_int32 (GetFreeSize rb) \<and>
    in_int32 (rb_capacity rb - rb_readPos rb + rb_writePos rb) \<and>
    in_int32 (rb_writePos rb + sz) \<and> in_int32 (rb_readPos rb + sz) \<and>
    (\<forall>rb'. MoveWritePos sz rb = (True, rb') \<longrightarrow> rb_inv rb') \<and>
    (\<forall>rb'. MoveReadPos sz rb = (True, rb') \<longrightarrow> rb_inv rb')"
  using assms GetDataSize_range [OF assms(1)] GetFreeSize_range [OF assms(1)]
  by (auto simp: in_int32_def rb_inv_def MoveWritePos_def MoveReadPos_def split: if_splits)

theorem ring_buffer_no_overflow_witness:
  "in_int32 (rb_writePos \<lparr>rb_buffer = [0, 0], rb_capacity = 2, rb_readPos = 1, rb_writePos = 1\<rparr> + 1)"
  using ring_buffer_no_overflow [of "\<lparr>rb_buffer = [0, 0], rb_capacity = 2, rb_readPos = 1,
      rb_writePos = 1\<rparr>" 1]
  by (simp add: rb_inv_def GetFreeSize_def GetDataSize_def)

end
