(* ===== verification/TokenBucket.thy ===== *)
theory TokenBucket
  imports Prelude
begin

text \<open>
  The packet rate limiter, \<^verbatim>\<open>ServerEngine/Utility/TokenBucket.h\<close>.

  The sequential class first: \<open>Refill\<close>, \<open>Consume\<close> and \<open>Reset\<close> take the value \<open>now\<close> that
  \<open>GetTickCount64\<close> returns. Time is a 64-bit word and the token arithmetic has the
  source's conversions: the product is unsigned 64-bit, its quotient is narrowed to \<open>int32\<close>.
  Then the same code as interleaved steps of any number of threads, with every atomic access
  a step of its own, for what the compare-and-swap loops guarantee.
\<close>

section \<open>The sequential class\<close>

record token_bucket =
  tb_capacity :: int32
  tb_refillRatePerSec :: int32
  tb_tokens :: int32
  tb_lastRefillTick :: uint64

definition TokenBucket_new :: "int32 \<Rightarrow> int32 \<Rightarrow> uint64 \<Rightarrow> token_bucket" where
  "TokenBucket_new cap rate now =
     \<lparr>tb_capacity = cap, tb_refillRatePerSec = rate, tb_tokens = cap, tb_lastRefillTick = now\<rparr>"

definition TokenBucket_Reset :: "uint64 \<Rightarrow> token_bucket \<Rightarrow> token_bucket" where
  "TokenBucket_Reset now tb = tb\<lparr>tb_tokens := tb_capacity tb, tb_lastRefillTick := now\<rparr>"

text \<open>\<open>static_cast<int32>((elapsedMs * _refillRatePerSec) / 1000)\<close>\<close>

definition add_tokens :: "uint64 \<Rightarrow> int32 \<Rightarrow> int32" where
  "add_tokens elapsedMs rate = to_int32 (int (unat (elapsedMs * word_of_int rate) div 1000))"

definition Refill :: "uint64 \<Rightarrow> token_bucket \<Rightarrow> token_bucket" where
  "Refill now tb =
     (let last = tb_lastRefillTick tb in
      if now \<le> last then tb
      else
        let elapsedMs = now - last in
        if elapsedMs < 50 then tb
        else
          let tb' = tb\<lparr>tb_lastRefillTick := now\<rparr>;
              addTokens = add_tokens elapsedMs (tb_refillRatePerSec tb)
          in
          if addTokens > 0
          then tb'\<lparr>tb_tokens := min (tb_capacity tb) (tb_tokens tb + addTokens)\<rparr>
          else tb')"

definition Consume :: "uint64 \<Rightarrow> int32 \<Rightarrow> token_bucket \<Rightarrow> bool \<times> token_bucket" where
  "Consume now count tb =
     (let tb' = Refill now tb; currentTokens = tb_tokens tb' in
      if currentTokens < count then (False, tb')
      else (True, tb'\<lparr>tb_tokens := currentTokens - count\<rparr>))"

text \<open>A session's packets, each at its arrival tick: how many are let through.\<close>

fun consume_run :: "uint64 list \<Rightarrow> token_bucket \<Rightarrow> nat \<times> token_bucket" where
  "consume_run [] tb = (0, tb)"
| "consume_run (now # nows) tb =
     (let (ok, tb') = Consume now 1 tb; (n, tb'') = consume_run nows tb'
      in ((if ok then Suc n else n), tb''))"

section \<open>Refilling\<close>

definition tb_inv :: "token_bucket \<Rightarrow> bool" where
  "tb_inv tb \<longleftrightarrow> 0 \<le> tb_tokens tb \<and> tb_tokens tb \<le> tb_capacity tb \<and> 0 \<le> tb_refillRatePerSec tb \<and>
     in_int32 (tb_capacity tb) \<and> in_int32 (tb_refillRatePerSec tb)"

text \<open>The exact number of tokens earned while the unsigned product and the narrowing do not wrap.\<close>

definition earned :: "int32 \<Rightarrow> uint64 \<Rightarrow> nat" where
  "earned rate elapsed = unat elapsed * nat rate div 1000"

definition no_wrap :: "int32 \<Rightarrow> nat \<Rightarrow> bool" where
  "no_wrap rate elapsed \<longleftrightarrow> elapsed * nat rate < 2147483648 * 1000"

lemma add_tokens_earned:
  assumes "0 \<le> rate" "no_wrap rate (unat e)"
  shows "add_tokens e rate = int (earned rate e)"
proof -
  have prod: "unat e * nat rate < 2 ^ 64" using assms(2) by (simp add: no_wrap_def)
  have "e * word_of_int rate = (of_nat (unat e * nat rate) :: uint64)"
    using assms(1) by simp
  then have "unat (e * word_of_int rate) = unat e * nat rate"
    using prod by (simp add: unat_of_nat del: of_nat_mult)
  moreover have "unat e * nat rate div 1000 < 2147483648"
    using assms(2) by (simp add: no_wrap_def less_mult_imp_div_less)
  ultimately show ?thesis
    by (simp add: add_tokens_def earned_def to_int32_id in_int32_def)
qed

lemma earned_mono: "unat a \<le> unat b \<Longrightarrow> earned rate a \<le> earned rate b"
  by (simp add: earned_def div_le_mono)

lemma unat_diff: "(a :: uint64) \<le> b \<Longrightarrow> unat (b - a) = unat b - unat a"
  by (simp add: unat_sub word_le_nat_alt)

lemma unat_diff_mono: "(a :: uint64) \<le> b \<Longrightarrow> b \<le> c \<Longrightarrow> unat (b - a) \<le> unat (c - a)"
  using order_trans [of a b c] by (simp add: unat_diff) (simp add: word_le_nat_alt)

lemma earned_split:
  assumes "(a :: uint64) \<le> b" "b \<le> c"
  shows "earned rate (b - a) + earned rate (c - b) \<le> earned rate (c - a)"
proof -
  have "unat (b - a) + unat (c - b) = unat (c - a)"
    using assms by (auto simp: unat_diff word_le_nat_alt)
  then have "unat (c - a) * nat rate = unat (b - a) * nat rate + unat (c - b) * nat rate"
    by (metis add_mult_distrib)
  then show ?thesis
    unfolding earned_def by (metis div_add1_eq le_add1)
qed

lemma no_wrap_mono: "no_wrap rate m \<Longrightarrow> n \<le> m \<Longrightarrow> no_wrap rate n"
  unfolding no_wrap_def by (meson le_less_trans mult_le_mono1)

lemma Refill_spec:
  assumes inv: "tb_inv tb" and t: "now \<le> T" "tb_lastRefillTick tb \<le> T"
    and w: "no_wrap (tb_refillRatePerSec tb) (unat (T - tb_lastRefillTick tb))"
  shows "tb_inv (Refill now tb)"
    and "tb_capacity (Refill now tb) = tb_capacity tb"
    and "tb_refillRatePerSec (Refill now tb) = tb_refillRatePerSec tb"
    and "tb_lastRefillTick tb \<le> tb_lastRefillTick (Refill now tb)"
    and "tb_lastRefillTick (Refill now tb) \<le> T"
    and "tb_tokens tb \<le> tb_tokens (Refill now tb)"
    and "tb_tokens (Refill now tb) \<le> tb_tokens tb +
      int (earned (tb_refillRatePerSec tb) (tb_lastRefillTick (Refill now tb) - tb_lastRefillTick tb))"
proof -
  let ?last = "tb_lastRefillTick tb"
  have add: "add_tokens (now - ?last) (tb_refillRatePerSec tb) =
      int (earned (tb_refillRatePerSec tb) (now - ?last))" if "?last < now"
  proof (rule add_tokens_earned)
    show "0 \<le> tb_refillRatePerSec tb" using inv by (simp add: tb_inv_def)
    show "no_wrap (tb_refillRatePerSec tb) (unat (now - ?last))"
      using that t by (intro no_wrap_mono [OF w] unat_diff_mono) auto
  qed
  show "tb_inv (Refill now tb)" "tb_capacity (Refill now tb) = tb_capacity tb"
    "tb_refillRatePerSec (Refill now tb) = tb_refillRatePerSec tb"
    "?last \<le> tb_lastRefillTick (Refill now tb)" "tb_lastRefillTick (Refill now tb) \<le> T"
    "tb_tokens tb \<le> tb_tokens (Refill now tb)"
    "tb_tokens (Refill now tb) \<le> tb_tokens tb +
      int (earned (tb_refillRatePerSec tb) (tb_lastRefillTick (Refill now tb) - ?last))"
    using inv t add by (auto simp: Refill_def Let_def tb_inv_def not_le)
qed

lemma Consume_run_step:
  assumes inv: "tb_inv tb" and t: "now \<le> T" "tb_lastRefillTick tb \<le> T"
    and w: "no_wrap (tb_refillRatePerSec tb) (unat (T - tb_lastRefillTick tb))"
    and c: "Consume now 1 tb = (ok, tb')"
  shows "tb_inv tb'" "tb_refillRatePerSec tb' = tb_refillRatePerSec tb"
    "tb_lastRefillTick tb \<le> tb_lastRefillTick tb'" "tb_lastRefillTick tb' \<le> T"
    "nat (tb_tokens tb') + (if ok then 1 else 0) \<le> nat (tb_tokens tb) +
       earned (tb_refillRatePerSec tb) (tb_lastRefillTick tb' - tb_lastRefillTick tb)"
  using Refill_spec [OF inv t w] c by (auto simp: Consume_def Let_def tb_inv_def split: if_splits)

lemma consume_run_bound:
  assumes "tb_inv tb" "\<forall>t \<in> set nows. t \<le> T" "tb_lastRefillTick tb \<le> T"
    "no_wrap (tb_refillRatePerSec tb) (unat (T - tb_lastRefillTick tb))"
  shows "fst (consume_run nows tb) \<le>
    nat (tb_tokens tb) + earned (tb_refillRatePerSec tb) (T - tb_lastRefillTick tb)"
  using assms
proof (induction nows arbitrary: tb)
  case Nil
  then show ?case by simp
next
  case (Cons now nows)
  obtain ok tb' where c: "Consume now 1 tb = (ok, tb')" by fastforce
  have now: "now \<le> T" using Cons.prems(2) by simp
  note step = Consume_run_step [OF Cons.prems(1) now Cons.prems(3,4) c]
  have "unat (T - tb_lastRefillTick tb') \<le> unat (T - tb_lastRefillTick tb)"
    using step(3,4) Cons.prems(3) by (auto simp: unat_diff word_le_nat_alt)
  then have "fst (consume_run nows tb') \<le>
      nat (tb_tokens tb') + earned (tb_refillRatePerSec tb) (T - tb_lastRefillTick tb')"
    using Cons.IH [OF step(1)] Cons.prems(2,4) step(2,4) no_wrap_mono by auto
  then show ?case
    using step(5) earned_split [OF step(3,4), of "tb_refillRatePerSec tb"] c
    by (auto split: prod.splits if_splits)
qed

text \<open>Polls \<open>gap\<close> milliseconds apart.\<close>

fun poll_times :: "uint64 \<Rightarrow> uint64 \<Rightarrow> nat \<Rightarrow> uint64 list" where
  "poll_times start gap 0 = []"
| "poll_times start gap (Suc n) = (start + gap) # poll_times (start + gap) gap n"

lemma Refill_starved:
  assumes "0 \<le> tb_refillRatePerSec tb" "50 \<le> unat gap" "unat gap * nat (tb_refillRatePerSec tb) < 1000"
    "unat (tb_lastRefillTick tb) + unat gap < 2 ^ 64"
  shows "Refill (tb_lastRefillTick tb + gap) tb =
    tb\<lparr>tb_lastRefillTick := tb_lastRefillTick tb + gap\<rparr>"
proof -
  have "unat (tb_lastRefillTick tb + gap) = unat (tb_lastRefillTick tb) + unat gap"
    using assms(4) by (simp add: unat_word_ariths(1))
  then have "\<not> tb_lastRefillTick tb + gap \<le> tb_lastRefillTick tb"
    using assms(2) by (simp add: word_le_nat_alt)
  moreover have "\<not> gap < 50" using assms(2) by (simp add: word_less_nat_alt)
  moreover have "add_tokens gap (tb_refillRatePerSec tb) = 0"
    using assms(1,3) by (subst add_tokens_earned) (auto simp: no_wrap_def earned_def)
  ultimately show ?thesis by (simp add: Refill_def Let_def)
qed

lemma consume_run_starved:
  assumes "0 \<le> tb_refillRatePerSec tb" "50 \<le> unat gap"
    "unat gap * nat (tb_refillRatePerSec tb) < 1000"
    "unat (tb_lastRefillTick tb) + n * unat gap < 2 ^ 64" "tb_tokens tb = 0"
  shows "fst (consume_run (poll_times (tb_lastRefillTick tb) gap n) tb) = 0"
  using assms
proof (induction n arbitrary: tb)
  case 0
  then show ?case by simp
next
  case (Suc n)
  let ?tb = "tb\<lparr>tb_lastRefillTick := tb_lastRefillTick tb + gap\<rparr>"
  have b: "unat (tb_lastRefillTick tb) + unat gap < 2 ^ 64"
    using Suc.prems(4) by simp
  then have u: "unat (tb_lastRefillTick tb + gap) = unat (tb_lastRefillTick tb) + unat gap"
    by (simp add: unat_word_ariths(1))
  have "Consume (tb_lastRefillTick tb + gap) 1 tb = (False, ?tb)"
    using Refill_starved [OF Suc.prems(1-3) b] Suc.prems(5) by (simp add: Consume_def Let_def)
  moreover have "fst (consume_run (poll_times (tb_lastRefillTick ?tb) gap n) ?tb) = 0"
    by (rule Suc.IH) (use Suc.prems u in \<open>simp_all add: algebra_simps\<close>)
  ultimately show ?case by (simp add: split_beta)
qed

section \<open>Interleaved threads\<close>

text \<open>
  Where a thread stands inside \<open>Consume\<close>: each atomic load and each compare-and-swap is one
  step. \<open>compare_exchange_weak\<close> may fail with no reason and reloads the expected value when
  it fails; in \<open>Refill\<close> the loop recomputes \<open>next\<close> from it.
\<close>

datatype tb_pc =
    TbIdle
  | TbNow uint64
  | TbLast uint64 uint64
  | TbAdd int
  | TbAddCas int int
  | TbLoad
  | TbCas int
  | TbDone bool

record tb_shared =
  ts_tokens :: int32
  ts_last :: uint64
  ts_pc :: "nat \<Rightarrow> tb_pc"
  ts_granted :: int

inductive tb_step :: "int32 \<Rightarrow> int32 \<Rightarrow> int32 \<Rightarrow> uint64 \<Rightarrow> nat \<Rightarrow> tb_shared \<Rightarrow> tb_shared \<Rightarrow> bool"
  for cap rate count T N where
  read_clock: "i < N \<Longrightarrow> ts_pc s i = TbIdle \<or> ts_pc s i = TbDone b \<Longrightarrow> now \<le> T \<Longrightarrow>
     tb_step cap rate count T N s (s\<lparr>ts_pc := (ts_pc s)(i := TbNow now)\<rparr>)"
| load_last_skip: "i < N \<Longrightarrow> ts_pc s i = TbNow now \<Longrightarrow> now \<le> ts_last s \<or> now - ts_last s < 50 \<Longrightarrow>
     tb_step cap rate count T N s (s\<lparr>ts_pc := (ts_pc s)(i := TbLoad)\<rparr>)"
| load_last: "i < N \<Longrightarrow> ts_pc s i = TbNow now \<Longrightarrow> ts_last s < now \<Longrightarrow> \<not> now - ts_last s < 50 \<Longrightarrow>
     tb_step cap rate count T N s (s\<lparr>ts_pc := (ts_pc s)(i := TbLast now (ts_last s))\<rparr>)"
| cas_last_lost: "i < N \<Longrightarrow> ts_pc s i = TbLast now prev \<Longrightarrow> ts_last s \<noteq> prev \<Longrightarrow>
     tb_step cap rate count T N s (s\<lparr>ts_pc := (ts_pc s)(i := TbLoad)\<rparr>)"
| cas_last_won: "i < N \<Longrightarrow> ts_pc s i = TbLast now prev \<Longrightarrow> ts_last s = prev \<Longrightarrow>
     tb_step cap rate count T N s
       (s\<lparr>ts_last := now,
          ts_pc := (ts_pc s)(i := (let a = add_tokens (now - prev) rate
                                   in if a > 0 then TbAdd a else TbLoad))\<rparr>)"
| add_load: "i < N \<Longrightarrow> ts_pc s i = TbAdd a \<Longrightarrow>
     tb_step cap rate count T N s (s\<lparr>ts_pc := (ts_pc s)(i := TbAddCas a (ts_tokens s))\<rparr>)"
| add_cas_fail: "i < N \<Longrightarrow> ts_pc s i = TbAddCas a cur \<Longrightarrow>
     tb_step cap rate count T N s (s\<lparr>ts_pc := (ts_pc s)(i := TbAddCas a (ts_tokens s))\<rparr>)"
| add_cas_ok: "i < N \<Longrightarrow> ts_pc s i = TbAddCas a cur \<Longrightarrow> ts_tokens s = cur \<Longrightarrow>
     tb_step cap rate count T N s
       (s\<lparr>ts_tokens := min cap (cur + a), ts_pc := (ts_pc s)(i := TbLoad)\<rparr>)"
| take_load: "i < N \<Longrightarrow> ts_pc s i = TbLoad \<Longrightarrow>
     tb_step cap rate count T N s (s\<lparr>ts_pc := (ts_pc s)(i := TbCas (ts_tokens s))\<rparr>)"
| take_empty: "i < N \<Longrightarrow> ts_pc s i = TbCas cur \<Longrightarrow> cur < count \<Longrightarrow>
     tb_step cap rate count T N s (s\<lparr>ts_pc := (ts_pc s)(i := TbDone False)\<rparr>)"
| take_cas_fail: "i < N \<Longrightarrow> ts_pc s i = TbCas cur \<Longrightarrow> \<not> cur < count \<Longrightarrow>
     tb_step cap rate count T N s (s\<lparr>ts_pc := (ts_pc s)(i := TbCas (ts_tokens s))\<rparr>)"
| take_cas_ok: "i < N \<Longrightarrow> ts_pc s i = TbCas cur \<Longrightarrow> \<not> cur < count \<Longrightarrow> ts_tokens s = cur \<Longrightarrow>
     tb_step cap rate count T N s
       (s\<lparr>ts_tokens := cur - count, ts_pc := (ts_pc s)(i := TbDone True),
          ts_granted := ts_granted s + count\<rparr>)"

inductive tb_reach :: "int32 \<Rightarrow> int32 \<Rightarrow> int32 \<Rightarrow> uint64 \<Rightarrow> nat \<Rightarrow> tb_shared \<Rightarrow> tb_shared \<Rightarrow> bool"
  for cap rate count T N s where
  here: "tb_reach cap rate count T N s s"
| step: "tb_reach cap rate count T N s t \<Longrightarrow> tb_step cap rate count T N t u \<Longrightarrow>
     tb_reach cap rate count T N s u"

definition tb_start :: "int32 \<Rightarrow> uint64 \<Rightarrow> tb_shared" where
  "tb_start cap start =
     \<lparr>ts_tokens = cap, ts_last = start, ts_pc = (\<lambda>_. TbIdle), ts_granted = 0\<rparr>"

text \<open>Tokens a thread has won by moving the refill tick and not yet added.\<close>

fun tb_pending :: "tb_pc \<Rightarrow> int" where
  "tb_pending (TbAdd a) = a"
| "tb_pending (TbAddCas a cur) = a"
| "tb_pending _ = 0"

fun tb_pc_ok :: "uint64 \<Rightarrow> tb_pc \<Rightarrow> bool" where
  "tb_pc_ok T (TbNow now) = (now \<le> T)"
| "tb_pc_ok T (TbLast now prev) = (now \<le> T \<and> prev < now)"
| "tb_pc_ok T (TbAdd a) = (0 \<le> a)"
| "tb_pc_ok T (TbAddCas a cur) = (0 \<le> a)"
| "tb_pc_ok T _ = True"

definition tb_conc_inv :: "int32 \<Rightarrow> int32 \<Rightarrow> uint64 \<Rightarrow> uint64 \<Rightarrow> nat \<Rightarrow> tb_shared \<Rightarrow> bool" where
  "tb_conc_inv cap rate start T N s \<longleftrightarrow>
     0 \<le> ts_tokens s \<and> ts_tokens s \<le> cap \<and> start \<le> ts_last s \<and> ts_last s \<le> T \<and>
     (\<forall>i < N. tb_pc_ok T (ts_pc s i)) \<and>
     ts_tokens s + ts_granted s + (\<Sum>i < N. tb_pending (ts_pc s i))
       \<le> cap + int (earned rate (ts_last s - start))"

lemma tb_pending_nonneg: "tb_pc_ok T p \<Longrightarrow> 0 \<le> tb_pending p"
  by (cases p) auto

lemma tb_step_inv:
  assumes "tb_step cap rate count T N s t" "tb_conc_inv cap rate start T N s"
    and rate: "0 \<le> rate" and count: "0 < count" and w: "no_wrap rate (unat (T - start))"
  shows "tb_conc_inv cap rate start T N t"
  using assms(1,2)
proof (cases rule: tb_step.cases)
  case (cas_last_won i now prev)
  then have ok: "now \<le> T" "prev < now" "start \<le> prev"
    using assms(2) by (auto simp: tb_conc_inv_def)
  have "no_wrap rate (unat (now - prev))"
  proof (rule no_wrap_mono [OF w])
    show "unat (now - prev) \<le> unat (T - start)"
      using ok by (simp add: unat_diff less_imp_le order_trans [of start prev T]) 
        (simp add: word_le_nat_alt word_less_nat_alt)
  qed
  then have a: "add_tokens (now - prev) rate = int (earned rate (now - prev))"
    using rate by (rule add_tokens_earned [rotated])
  have e: "earned rate (prev - start) + earned rate (now - prev) \<le> earned rate (now - start)"
    using ok by (intro earned_split) auto
  show ?thesis
    using cas_last_won assms(2) ok e a
    by (auto simp: tb_conc_inv_def Let_def sum_if_upd)
qed (use count in \<open>auto simp: tb_conc_inv_def sum_if_upd\<close>)

lemma tb_reach_inv:
  assumes "tb_reach cap rate count T N (tb_start cap start) s"
    and "0 \<le> rate" "0 < count" "0 \<le> cap" "start \<le> T" "no_wrap rate (unat (T - start))"
  shows "tb_conc_inv cap rate start T N s"
  using assms(1)
proof (induction rule: tb_reach.induct)
  case here
  then show ?case using assms by (simp add: tb_conc_inv_def tb_start_def earned_def)
next
  case (step t u)
  then show ?case using assms by (blast intro: tb_step_inv)
qed

section \<open>Properties\<close>

text \<open>the rate limit. Whatever packets arrive up to tick \<open>T\<close>, in whatever pattern, at most
  the tokens in the bucket plus \<open>rate * elapsed / 1000\<close> of them are let through.\<close>

theorem token_bucket_rate_limit:
  assumes "tb_inv tb" "\<forall>t \<in> set nows. t \<le> T" "tb_lastRefillTick tb \<le> T"
    "no_wrap (tb_refillRatePerSec tb) (unat (T - tb_lastRefillTick tb))"
  shows "fst (consume_run nows tb) \<le> nat (tb_tokens tb) +
    unat (T - tb_lastRefillTick tb) * nat (tb_refillRatePerSec tb) div 1000"
  using consume_run_bound [OF assms] by (simp add: earned_def)

theorem token_bucket_rate_limit_witness:
  "fst (consume_run (replicate 80 1000) (TokenBucket_new 40 20 0)) \<le> 60"
  using token_bucket_rate_limit [of "TokenBucket_new 40 20 0" "replicate 80 1000" 1000]
  by (simp add: TokenBucket_new_def tb_inv_def in_int32_def no_wrap_def)

text \<open>the same limit with any number of threads inside \<open>Consume\<close> at once: the
  compare-and-swap loops never grant a token twice and never credit an interval twice, and the
  count of tokens never leaves \<open>0..capacity\<close>.\<close>

theorem token_bucket_concurrent_limit:
  assumes "tb_reach cap rate count T N (tb_start cap start) s"
    and "0 \<le> rate" "0 < count" "0 \<le> cap" "start \<le> T" "no_wrap rate (unat (T - start))"
  shows "ts_granted s \<le> cap + int (unat (T - start) * nat rate div 1000) \<and>
    0 \<le> ts_tokens s \<and> ts_tokens s \<le> cap"
proof -
  have inv: "tb_conc_inv cap rate start T N s" by (rule tb_reach_inv [OF assms])
  then have "\<forall>i < N. 0 \<le> tb_pending (ts_pc s i)"
    using tb_pending_nonneg by (auto simp: tb_conc_inv_def)
  then have "0 \<le> (\<Sum>i < N. tb_pending (ts_pc s i))" by (intro sum_nonneg) auto
  moreover have "earned rate (ts_last s - start) \<le> earned rate (T - start)"
    using inv by (intro earned_mono unat_diff_mono) (auto simp: tb_conc_inv_def)
  ultimately show ?thesis using inv by (simp add: tb_conc_inv_def earned_def)
qed

theorem token_bucket_concurrent_limit_witness:
  "ts_granted (tb_start 40 7) \<le> (40 :: int) + int (unat (1007 - (7 :: uint64)) * nat 20 div 1000)"
  using token_bucket_concurrent_limit [OF tb_reach.here, of 20 1 40 7 1007]
  by (simp add: no_wrap_def)

text \<open>a client that waits is served. With the server's rate of 20 per second or more, a packet
  that arrives at least 50 ms after the last refill always finds a token.\<close>

theorem token_bucket_refills:
  assumes "tb_inv tb" "20 \<le> tb_refillRatePerSec tb" "1 \<le> tb_capacity tb"
    "tb_lastRefillTick tb < now" "50 \<le> unat (now - tb_lastRefillTick tb)"
    "no_wrap (tb_refillRatePerSec tb) (unat (now - tb_lastRefillTick tb))"
  shows "fst (Consume now 1 tb)"
proof -
  have a: "add_tokens (now - tb_lastRefillTick tb) (tb_refillRatePerSec tb) =
      int (earned (tb_refillRatePerSec tb) (now - tb_lastRefillTick tb))"
    using assms by (intro add_tokens_earned) auto
  have "50 * 20 \<le> unat (now - tb_lastRefillTick tb) * nat (tb_refillRatePerSec tb)"
    using assms by (intro mult_le_mono) auto
  then have "1 \<le> earned (tb_refillRatePerSec tb) (now - tb_lastRefillTick tb)"
    by (simp add: earned_def div_greater_zero_iff Suc_leI)
  moreover have "\<not> now \<le> tb_lastRefillTick tb" "\<not> now - tb_lastRefillTick tb < 50"
    using assms(4,5) by (simp_all add: not_le) (simp add: word_less_nat_alt)
  ultimately show ?thesis
    using assms(1,3) a by (auto simp: Consume_def Refill_def Let_def tb_inv_def min_def)
qed

theorem token_bucket_refills_witness:
  "fst (Consume 150 1 \<lparr>tb_capacity = 40, tb_refillRatePerSec = 20, tb_tokens = 0,
      tb_lastRefillTick = 100\<rparr>)"
  by (rule token_bucket_refills) (simp_all add: tb_inv_def in_int32_def no_wrap_def)

text \<open>C40: a slow bucket starves. \<open>Refill\<close> moves the refill tick even when the narrowed quotient is
  0, so the fraction earned is lost: an empty bucket polled every \<open>gap >= 50\<close> milliseconds with
  \<open>gap * rate < 1000\<close> (rate 5 polled every 100 ms, say) refuses every packet for ever, although
  \<open>rate\<close> tokens a second are due.\<close>

theorem token_bucket_starves:
  assumes "0 \<le> tb_refillRatePerSec tb" "50 \<le> unat gap"
    "unat gap * nat (tb_refillRatePerSec tb) < 1000"
    "unat (tb_lastRefillTick tb) + n * unat gap < 2 ^ 64" "tb_tokens tb = 0"
  shows "fst (consume_run (poll_times (tb_lastRefillTick tb) gap n) tb) = 0"
  by (rule consume_run_starved [OF assms])

theorem token_bucket_starves_witness:
  "fst (consume_run (poll_times 0 100 1000000) \<lparr>tb_capacity = 5, tb_refillRatePerSec = 5,
      tb_tokens = 0, tb_lastRefillTick = 0\<rparr>) = 0"
  using token_bucket_starves [of "\<lparr>tb_capacity = 5, tb_refillRatePerSec = 5,
      tb_tokens = 0, tb_lastRefillTick = 0\<rparr>" 100 1000000]
  by simp

end
