(* ===== verification/BufferIO.thy ===== *)
theory BufferIO
  imports Prelude
begin

text \<open>
  \<open>BufferReader\<close> and \<open>BufferWriter\<close>, \<^verbatim>\<open>ServerEngine/Buffer/BufferReader.h\<close> and
  \<^verbatim>\<open>BufferWriter.h\<close>: the cursors over a byte array that every packet is parsed from and
  serialised to.

  An operation that returns \<open>bool\<close> in the source returns here the value it read (or the unit)
  as an option, \<open>None\<close> for \<open>false\<close>, and the new cursor, inside \<open>res\<close>: \<open>Inl OutOfBounds\<close> would
  be an access outside the array. A caller's \<open>if (... == false) return false;\<close> is \<open>rd_bind\<close> and
  \<open>wr_then\<close>. A template instance is one definition per type, over the number of bytes
  \<open>sizeof(T)\<close>. Comparisons of \<open>FreeSize()\<close> with \<open>sizeof\<close> are made on \<open>size_t\<close>, as in C++.

  The locale \<open>codec\<close> is the contract between a serialiser and its parser; the primitive types
  are its first instances, and it is closed under sequencing, which gives each packet's.
\<close>

section \<open>BufferReader\<close>

record buffer_reader =
  br_buffer :: "byte list"
  br_size :: int32
  br_pos :: int32
  br_isValid :: bool

definition BufferReader_new :: "byte list \<Rightarrow> int32 \<Rightarrow> buffer_reader" where
  "BufferReader_new b sz = \<lparr>br_buffer = b, br_size = sz, br_pos = 0, br_isValid = True\<rparr>"

definition br_FreeSize :: "buffer_reader \<Rightarrow> int32" where
  "br_FreeSize r = br_size r - br_pos r"

type_synonym 'a rd = "buffer_reader \<Rightarrow> ('a option \<times> buffer_reader) res"

definition rd_bind :: "'a rd \<Rightarrow> ('a \<Rightarrow> 'b rd) \<Rightarrow> 'b rd" where
  "rd_bind m f r = res_bind (m r) (\<lambda>(x, r').
     case x of None \<Rightarrow> Ok (None, r') | Some a \<Rightarrow> f a r')"

definition rd_return :: "'a \<Rightarrow> 'a rd" where
  "rd_return a r = Ok (Some a, r)"

text \<open>\<open>return reader.IsValid()\<close> at the end of a packet's \<open>Read\<close>.\<close>

definition rd_valid :: "'a \<Rightarrow> 'a rd" where
  "rd_valid a r = Ok (if br_isValid r then Some a else None, r)"

text \<open>\<open>Peek\<close>, then \<open>Read\<close>, of \<open>n = sizeof(T)\<close> bytes.\<close>

definition Peek_bytes :: "nat \<Rightarrow> byte list rd" where
  "Peek_bytes n r =
     (if to_size_t (br_FreeSize r) < int n then Ok (None, r\<lparr>br_isValid := False\<rparr>)
      else res_bind (mem_read (br_buffer r) (br_pos r) (int n)) (\<lambda>d. Ok (Some d, r)))"

definition Read_bytes :: "nat \<Rightarrow> byte list rd" where
  "Read_bytes n r = res_bind (Peek_bytes n r) (\<lambda>(x, r').
     case x of None \<Rightarrow> Ok (None, r')
     | Some d \<Rightarrow> Ok (Some d, r'\<lparr>br_pos := br_pos r' + int n\<rparr>))"

definition Read_uint16 :: "uint16 rd" where
  "Read_uint16 = rd_bind (Read_bytes 2) (\<lambda>d. rd_return (of_nat (le_nat d)))"

definition Read_int32 :: "uint32 rd" where
  "Read_int32 = rd_bind (Read_bytes 4) (\<lambda>d. rd_return (of_nat (le_nat d)))"

definition Read_uint64 :: "uint64 rd" where
  "Read_uint64 = rd_bind (Read_bytes 8) (\<lambda>d. rd_return (of_nat (le_nat d)))"

definition Read_bool :: "bool rd" where
  "Read_bool = rd_bind (Read_bytes 1) (\<lambda>d. rd_return (le_nat d \<noteq> 0))"

text \<open>\<open>Read(void* dest, int32 len)\<close>: here the comparison is between two \<open>int32\<close>.\<close>

definition Read_raw :: "int32 \<Rightarrow> byte list rd" where
  "Read_raw n r =
     (if br_FreeSize r < n then Ok (None, r\<lparr>br_isValid := False\<rparr>)
      else res_bind (mem_read (br_buffer r) (br_pos r) n) (\<lambda>d.
             Ok (Some d, r\<lparr>br_pos := br_pos r + n\<rparr>)))"

definition byte_of_char :: "char \<Rightarrow> byte" where
  "byte_of_char c = of_nat (of_char c)"

definition char_of_byte :: "byte \<Rightarrow> char" where
  "char_of_byte b = char_of (unat b)"

definition ReadString :: "string rd" where
  "ReadString = rd_bind Read_uint16 (\<lambda>len r.
     if br_FreeSize r < uint len then Ok (None, r\<lparr>br_isValid := False\<rparr>)
     else if len > 0 then
       res_bind (mem_read (br_buffer r) (br_pos r) (uint len)) (\<lambda>d.
         Ok (Some (map char_of_byte d), r\<lparr>br_pos := br_pos r + uint len\<rparr>))
     else Ok (Some [], r))"

section \<open>BufferWriter\<close>

record buffer_writer =
  bw_buffer :: "byte list"
  bw_size :: int32
  bw_pos :: int32

definition BufferWriter_new :: "byte list \<Rightarrow> int32 \<Rightarrow> buffer_writer" where
  "BufferWriter_new b sz = \<lparr>bw_buffer = b, bw_size = sz, bw_pos = 0\<rparr>"

definition bw_FreeSize :: "buffer_writer \<Rightarrow> int32" where
  "bw_FreeSize w = bw_size w - bw_pos w"

type_synonym wr = "buffer_writer \<Rightarrow> (bool \<times> buffer_writer) res"

definition wr_then :: "wr \<Rightarrow> wr \<Rightarrow> wr" where
  "wr_then a b w = res_bind (a w) (\<lambda>(ok, w'). if ok then b w' else Ok (False, w'))"

definition wr_skip :: wr where
  "wr_skip w = Ok (True, w)"

text \<open>\<open>Write<T>\<close> of a value whose object representation is \<open>d\<close>.\<close>

definition Write_bytes :: "byte list \<Rightarrow> wr" where
  "Write_bytes d w =
     (if to_size_t (bw_FreeSize w) < int (length d) then Ok (False, w)
      else res_bind (mem_write (bw_buffer w) (bw_pos w) d) (\<lambda>b.
             Ok (True, w\<lparr>bw_buffer := b, bw_pos := bw_pos w + int (length d)\<rparr>)))"

definition Write_uint16 :: "uint16 \<Rightarrow> wr" where
  "Write_uint16 x = Write_bytes (le_bytes 2 (unat x))"

definition Write_int32 :: "uint32 \<Rightarrow> wr" where
  "Write_int32 x = Write_bytes (le_bytes 4 (unat x))"

definition Write_uint64 :: "uint64 \<Rightarrow> wr" where
  "Write_uint64 x = Write_bytes (le_bytes 8 (unat x))"

definition Write_bool :: "bool \<Rightarrow> wr" where
  "Write_bool x = Write_bytes (le_bytes 1 (if x then 1 else 0))"

definition Write_raw :: "byte list \<Rightarrow> int32 \<Rightarrow> wr" where
  "Write_raw src n w =
     (if bw_FreeSize w < n then Ok (False, w)
      else res_bind (mem_read src 0 n) (\<lambda>d.
           res_bind (mem_write (bw_buffer w) (bw_pos w) d) (\<lambda>b.
             Ok (True, w\<lparr>bw_buffer := b, bw_pos := bw_pos w + n\<rparr>))))"

text \<open>The length of the string is narrowed to 16 bits before anything else is done with it.\<close>

definition WriteString :: "string \<Rightarrow> wr" where
  "WriteString str =
     (let len = (of_nat (length str) :: uint16) in
      wr_then (Write_uint16 len)
        (if len > 0 then Write_raw (map byte_of_char str) (uint len) else wr_skip))"

text \<open>\<open>Reserve<T>\<close> returns the offset of the block it hands out.\<close>

definition Reserve_bytes :: "nat \<Rightarrow> buffer_writer \<Rightarrow> int32 option \<times> buffer_writer" where
  "Reserve_bytes n w =
     (if to_size_t (bw_FreeSize w) < int n then (None, w)
      else (Some (bw_pos w), w\<lparr>bw_pos := bw_pos w + int n\<rparr>))"

section \<open>Well-formed cursors\<close>

definition br_inv :: "buffer_reader \<Rightarrow> bool" where
  "br_inv r \<longleftrightarrow> 0 \<le> br_pos r \<and> br_pos r \<le> br_size r \<and> br_size r \<le> int (length (br_buffer r)) \<and>
     br_size r \<le> 2147483647"

definition bw_inv :: "buffer_writer \<Rightarrow> bool" where
  "bw_inv w \<longleftrightarrow> 0 \<le> bw_pos w \<and> bw_pos w \<le> bw_size w \<and> bw_size w \<le> int (length (bw_buffer w)) \<and>
     bw_size w \<le> 2147483647"

text \<open>What is still to be read, and what has been written.\<close>

definition br_rest :: "buffer_reader \<Rightarrow> byte list" where
  "br_rest r = take (nat (br_FreeSize r)) (drop (nat (br_pos r)) (br_buffer r))"

definition bw_written :: "buffer_writer \<Rightarrow> byte list" where
  "bw_written w = take (nat (bw_pos w)) (bw_buffer w)"

lemma br_FreeSize_range: "br_inv r \<Longrightarrow> 0 \<le> br_FreeSize r \<and> br_FreeSize r \<le> 2147483647"
  by (auto simp: br_inv_def br_FreeSize_def)

lemma bw_FreeSize_range: "bw_inv w \<Longrightarrow> 0 \<le> bw_FreeSize w \<and> bw_FreeSize w \<le> 2147483647"
  by (auto simp: bw_inv_def bw_FreeSize_def)

lemma length_br_rest: "br_inv r \<Longrightarrow> length (br_rest r) = nat (br_FreeSize r)"
  by (auto simp: br_rest_def br_inv_def br_FreeSize_def)

lemma char_of_byte_of_char [simp]: "char_of_byte (byte_of_char c) = c"
proof -
  have "unat (of_nat (of_char c) :: byte) = of_char c mod 256"
    by (simp add: unat_of_nat)
  also have "\<dots> = of_char c" by simp
  finally show ?thesis by (simp add: byte_of_char_def char_of_byte_def)
qed

lemma map_char_of_byte_of_char [simp]: "map (char_of_byte \<circ> byte_of_char) s = s"
  by (simp add: comp_def)

section \<open>Parsers: safety and what they accept\<close>

definition br_adv :: "nat \<Rightarrow> buffer_reader \<Rightarrow> buffer_reader" where
  "br_adv n r = r\<lparr>br_pos := br_pos r + int n\<rparr>"

text \<open>
  A safe parser never leaves the array, whatever the bytes are; it keeps the cursor well-formed
  and only moves it forward.
\<close>

definition rd_safe :: "'a rd \<Rightarrow> bool" where
  "rd_safe m \<longleftrightarrow> (\<forall>r. br_inv r \<longrightarrow> (\<exists>x r'. m r = Ok (x, r') \<and> br_inv r' \<and>
     br_buffer r' = br_buffer r \<and> br_size r' = br_size r \<and> br_pos r \<le> br_pos r'))"

definition reads :: "'a rd \<Rightarrow> byte list \<Rightarrow> 'a \<Rightarrow> bool" where
  "reads m bs a \<longleftrightarrow> (\<forall>r. br_inv r \<longrightarrow> br_isValid r \<longrightarrow> take (length bs) (br_rest r) = bs \<longrightarrow>
     m r = Ok (Some a, br_adv (length bs) r))"

named_theorems codec_intros

lemma rd_safe_bind [codec_intros]: "rd_safe m \<Longrightarrow> (\<And>a. rd_safe (f a)) \<Longrightarrow> rd_safe (rd_bind m f)"
  unfolding rd_safe_def
proof (intro allI impI)
  fix r assume m: "\<forall>r. br_inv r \<longrightarrow> (\<exists>x r'. m r = Ok (x, r') \<and> br_inv r' \<and>
      br_buffer r' = br_buffer r \<and> br_size r' = br_size r \<and> br_pos r \<le> br_pos r')"
    and f: "\<And>a. \<forall>r. br_inv r \<longrightarrow> (\<exists>x r'. f a r = Ok (x, r') \<and> br_inv r' \<and>
      br_buffer r' = br_buffer r \<and> br_size r' = br_size r \<and> br_pos r \<le> br_pos r')"
    and inv: "br_inv r"
  obtain x r1 where r1: "m r = Ok (x, r1)" "br_inv r1" "br_buffer r1 = br_buffer r"
    "br_size r1 = br_size r" "br_pos r \<le> br_pos r1"
    using m inv by blast
  show "\<exists>x r'. rd_bind m f r = Ok (x, r') \<and> br_inv r' \<and>
      br_buffer r' = br_buffer r \<and> br_size r' = br_size r \<and> br_pos r \<le> br_pos r'"
  proof (cases x)
    case None
    with r1 show ?thesis by (simp add: rd_bind_def)
  next
    case (Some a)
    obtain y r2 where "f a r1 = Ok (y, r2)" "br_inv r2" "br_buffer r2 = br_buffer r1"
      "br_size r2 = br_size r1" "br_pos r1 \<le> br_pos r2"
      using f r1(2) by blast
    with Some r1 show ?thesis by (simp add: rd_bind_def)
  qed
qed

lemma rd_safe_return [codec_intros]: "rd_safe (rd_return a)"
  by (simp add: rd_safe_def rd_return_def)

lemma rd_safe_valid [codec_intros]: "rd_safe (rd_valid a)"
  by (simp add: rd_safe_def rd_valid_def)

lemma br_adv_simps [simp]:
  "br_adv 0 r = r" "br_isValid (br_adv n r) = br_isValid r" "br_size (br_adv n r) = br_size r"
  "br_buffer (br_adv n r) = br_buffer r" "br_adv m (br_adv n r) = br_adv (n + m) r"
  by (simp_all add: br_adv_def)

lemma br_rest_adv: "br_inv r \<Longrightarrow> br_rest (br_adv n r) = drop n (br_rest r)"
  by (auto simp: br_rest_def br_adv_def br_FreeSize_def br_inv_def drop_take nat_add_distrib
      nat_diff_distrib' add.commute intro!: arg_cong2 [where f = take])

lemma br_inv_adv: "br_inv r \<Longrightarrow> n \<le> length (br_rest r) \<Longrightarrow> br_inv (br_adv n r)"
  by (auto simp: length_br_rest br_inv_def br_adv_def br_FreeSize_def)

lemma reads_prefix_le: "take (length bs) xs = bs \<Longrightarrow> length bs \<le> length xs"
  by (metis length_take min.cobounded1)

lemma reads_bind [codec_intros]:
  assumes "reads m bs a" "reads (f a) cs b"
  shows "reads (rd_bind m f) (bs @ cs) b"
  unfolding reads_def
proof (intro allI impI)
  fix r assume r: "br_inv r" "br_isValid r" "take (length (bs @ cs)) (br_rest r) = bs @ cs"
  have bs: "take (length bs) (br_rest r) = bs"
    using r(3) by (metis append_eq_conv_conj length_append take_take min_absorb1 le_add1)
  then have 1: "m r = Ok (Some a, br_adv (length bs) r)"
    using assms(1) r by (simp add: reads_def)
  have "take (length cs) (br_rest (br_adv (length bs) r)) = cs"
    using r by (simp add: br_rest_adv take_drop add.commute)
  then have "f a (br_adv (length bs) r) = Ok (Some b, br_adv (length (bs @ cs)) r)"
    using assms(2) r br_inv_adv [OF r(1) reads_prefix_le [OF bs]] by (simp add: reads_def)
  with 1 show "rd_bind m f r = Ok (Some b, br_adv (length (bs @ cs)) r)"
    by (simp add: rd_bind_def)
qed

lemma reads_return [codec_intros]: "reads (rd_return a) [] a"
  by (simp add: reads_def rd_return_def)

lemma reads_valid [codec_intros]: "reads (rd_valid a) [] a"
  by (simp add: reads_def rd_valid_def)

text \<open>\<open>Read<T>\<close> on a well-formed cursor.\<close>

lemma Read_bytes_eq:
  assumes "br_inv r"
  shows "Read_bytes n r =
    (if n \<le> length (br_rest r) then Ok (Some (take n (br_rest r)), br_adv n r)
     else Ok (None, r\<lparr>br_isValid := False\<rparr>))"
proof -
  have f: "to_size_t (br_FreeSize r) = br_FreeSize r"
    using br_FreeSize_range [OF assms] by (simp add: to_size_t_id)
  have len: "n \<le> length (br_rest r) \<longleftrightarrow> \<not> br_FreeSize r < int n"
    using br_FreeSize_range [OF assms] by (auto simp: length_br_rest [OF assms])
  have "mem_read (br_buffer r) (br_pos r) (int n) = Ok (take n (br_rest r))"
    if "\<not> br_FreeSize r < int n"
    using assms that by (auto simp: mem_read_def br_inv_def br_FreeSize_def br_rest_def min_def)
  then show ?thesis
    by (auto simp: Read_bytes_def Peek_bytes_def f len br_adv_def)
qed

lemma rd_safe_Read_bytes [codec_intros]: "rd_safe (Read_bytes n)"
  unfolding rd_safe_def
proof (intro allI impI)
  fix r assume inv: "br_inv r"
  show "\<exists>x r'. Read_bytes n r = Ok (x, r') \<and> br_inv r' \<and> br_buffer r' = br_buffer r \<and>
      br_size r' = br_size r \<and> br_pos r \<le> br_pos r'"
    using inv br_inv_adv [OF inv, of n]
    by (auto simp: Read_bytes_eq [OF inv] br_adv_def) (simp add: br_inv_def)
qed

lemma reads_Read_bytes: "reads (Read_bytes (length bs)) bs bs"
  by (auto simp: reads_def Read_bytes_eq dest: reads_prefix_le)

lemma reads_bytes_bind:
  assumes "length bs = n"
  shows "reads (rd_bind (Read_bytes n) (\<lambda>d. rd_return (g d))) bs (g bs)"
  using reads_bind [OF reads_Read_bytes [of bs], of "\<lambda>d. rd_return (g d)" "[]" "g bs"] assms
  by (simp add: reads_return)

lemma ReadString_eq:
  assumes inv: "br_inv r" and len: "2 \<le> length (br_rest r)"
  defines "n \<equiv> unat (of_nat (le_nat (take 2 (br_rest r))) :: uint16)"
  shows "ReadString r =
    (if n + 2 \<le> length (br_rest r)
     then Ok (Some (map char_of_byte (take n (drop 2 (br_rest r)))), br_adv (n + 2) r)
     else Ok (None, (br_adv 2 r)\<lparr>br_isValid := False\<rparr>))"
proof -
  let ?r = "br_adv 2 r" and ?l = "of_nat (le_nat (take 2 (br_rest r))) :: uint16"
  have inv': "br_inv ?r" using inv len by (rule br_inv_adv)
  have rest: "br_rest ?r = drop 2 (br_rest r)" by (rule br_rest_adv [OF inv])
  have u: "uint ?l = int n" by (simp add: n_def)
  have free: "br_FreeSize ?r < int n \<longleftrightarrow> \<not> n + 2 \<le> length (br_rest r)"
    using br_FreeSize_range [OF inv'] length_br_rest [OF inv'] len by (auto simp: rest)
  have read: "mem_read (br_buffer ?r) (br_pos ?r) (int n) = Ok (take n (drop 2 (br_rest r)))"
    if "n + 2 \<le> length (br_rest r)"
  proof -
    have "\<not> br_FreeSize ?r < int n" using that free by simp
    then show ?thesis
      unfolding rest [symmetric]
      using inv' by (auto simp: mem_read_def br_inv_def br_FreeSize_def br_rest_def min_def)
  qed
  have zero: "?l > 0 \<longleftrightarrow> n \<noteq> 0"
    by (simp add: n_def word_neq_0_conv [symmetric] unat_eq_0)
  have eq: "ReadString r = (if br_FreeSize ?r < int n then Ok (None, ?r\<lparr>br_isValid := False\<rparr>)
     else if n \<noteq> 0 then
       res_bind (mem_read (br_buffer ?r) (br_pos ?r) (int n)) (\<lambda>d.
         Ok (Some (map char_of_byte d), ?r\<lparr>br_pos := br_pos ?r + int n\<rparr>))
     else Ok (Some [], ?r))"
    using len unfolding zero [symmetric] u [symmetric]
    by (simp add: ReadString_def Read_uint16_def rd_bind_def rd_return_def Read_bytes_eq [OF inv])
  show ?thesis
    unfolding eq free using read by (cases "n = 0") (auto simp: br_adv_def)
qed

lemma ReadString_short:
  assumes "br_inv r" "\<not> 2 \<le> length (br_rest r)"
  shows "ReadString r = Ok (None, r\<lparr>br_isValid := False\<rparr>)"
  using assms by (simp add: ReadString_def Read_uint16_def rd_bind_def Read_bytes_eq)

lemma rd_safe_ReadString [codec_intros]: "rd_safe ReadString"
  unfolding rd_safe_def
proof (intro allI impI)
  fix r assume inv: "br_inv r"
  let ?n = "unat (of_nat (le_nat (take 2 (br_rest r))) :: uint16)"
  show "\<exists>x r'. ReadString r = Ok (x, r') \<and> br_inv r' \<and> br_buffer r' = br_buffer r \<and>
      br_size r' = br_size r \<and> br_pos r \<le> br_pos r'"
  proof (cases "2 \<le> length (br_rest r)")
    case True
    have "br_inv ((br_adv 2 r)\<lparr>br_isValid := False\<rparr>)"
      using br_inv_adv [OF inv True] by (simp add: br_inv_def)
    then show ?thesis
      using br_inv_adv [OF inv, of "?n + 2"] by (simp add: ReadString_eq [OF inv True], simp add: br_adv_def)
  next
    case False
    then show ?thesis using inv ReadString_short [OF inv False] by (simp add: br_inv_def)
  qed
qed

section \<open>Encodings\<close>

definition enc_uint16 :: "uint16 \<Rightarrow> byte list" where
  "enc_uint16 x = le_bytes 2 (unat x)"

definition enc_int32 :: "uint32 \<Rightarrow> byte list" where
  "enc_int32 x = le_bytes 4 (unat x)"

definition enc_uint64 :: "uint64 \<Rightarrow> byte list" where
  "enc_uint64 x = le_bytes 8 (unat x)"

definition enc_bool :: "bool \<Rightarrow> byte list" where
  "enc_bool x = le_bytes 1 (if x then 1 else 0)"

definition enc_string :: "string \<Rightarrow> byte list" where
  "enc_string s =
     (let len = (of_nat (length s) :: uint16)
      in enc_uint16 len @ map byte_of_char (take (unat len) s))"

lemma length_enc [simp]:
  "length (enc_uint16 x) = 2" "length (enc_int32 y) = 4" "length (enc_uint64 z) = 8"
  "length (enc_bool b) = 1"
  by (simp_all add: enc_uint16_def enc_int32_def enc_uint64_def enc_bool_def)

lemma unat_length16: "unat (of_nat (length s) :: uint16) = length s mod 65536"
  by (simp add: unat_of_nat)

lemma length_enc_string: "length (enc_string s) = 2 + length s mod 65536"
  by (simp add: enc_string_def Let_def unat_length16 min_def)

lemma reads_uint16 [codec_intros]: "reads Read_uint16 (enc_uint16 x) x"
  using reads_bytes_bind [of "enc_uint16 x" 2 "\<lambda>d. (of_nat (le_nat d) :: uint16)"]
  by (simp add: Read_uint16_def enc_uint16_def)

lemma reads_int32 [codec_intros]: "reads Read_int32 (enc_int32 x) x"
  using reads_bytes_bind [of "enc_int32 x" 4 "\<lambda>d. (of_nat (le_nat d) :: uint32)"]
  by (simp add: Read_int32_def enc_int32_def)

lemma reads_uint64 [codec_intros]: "reads Read_uint64 (enc_uint64 x) x"
  using reads_bytes_bind [of "enc_uint64 x" 8 "\<lambda>d. (of_nat (le_nat d) :: uint64)"]
  by (simp add: Read_uint64_def enc_uint64_def)

lemma reads_bool [codec_intros]: "reads Read_bool (enc_bool x) x"
  using reads_bytes_bind [of "enc_bool x" 1 "\<lambda>d. le_nat d \<noteq> 0"]
  by (cases x) (simp_all add: Read_bool_def enc_bool_def)

lemma rd_safe_prims [codec_intros]:
  "rd_safe Read_uint16" "rd_safe Read_int32" "rd_safe Read_uint64" "rd_safe Read_bool"
  unfolding Read_uint16_def Read_int32_def Read_uint64_def Read_bool_def
  by (intro codec_intros)+

lemma reads_string [codec_intros]:
  assumes "length s < 65536"
  shows "reads ReadString (enc_string s) s"
  unfolding reads_def
proof (intro allI impI)
  fix r assume r: "br_inv r" "take (length (enc_string s)) (br_rest r) = enc_string s"
  let ?l = "of_nat (length s) :: uint16"
  have l: "unat ?l = length s" using assms by (simp add: unat_length16)
  have e: "enc_string s = enc_uint16 ?l @ map byte_of_char s"
    using l by (simp add: enc_string_def Let_def)
  have len: "length s + 2 \<le> length (br_rest r)"
    using reads_prefix_le [OF r(2)] by (simp add: e)
  have full: "take (length s + 2) (br_rest r) = enc_uint16 ?l @ map byte_of_char s"
    using r(2) by (simp add: e add.commute)
  then have t2: "take 2 (br_rest r) = enc_uint16 ?l"
    using len by (metis append_eq_conv_conj length_enc(1) le_add2 min_absorb1 take_take)
  have body: "take (length s) (drop 2 (br_rest r)) = map byte_of_char s"
    using full by (metis append_eq_conv_conj drop_take add_diff_cancel_right' length_enc(1))
  have n: "of_nat (le_nat (enc_uint16 ?l)) = ?l"
    by (simp add: enc_uint16_def)
  show "ReadString r = Ok (Some s, br_adv (length (enc_string s)) r)"
    using ReadString_eq [OF r(1)] len l body by (simp add: t2 n e)
qed

section \<open>Serialisers\<close>

definition bw_put :: "byte list \<Rightarrow> buffer_writer \<Rightarrow> buffer_writer" where
  "bw_put d w = w\<lparr>bw_buffer := patch (bw_buffer w) (nat (bw_pos w)) d,
                  bw_pos := bw_pos w + int (length d)\<rparr>"

text \<open>
  A serialiser that \<open>writes\<close> \<open>bs\<close> appends exactly these bytes if they fit; if they do not it
  reports \<open>false\<close>, and even then it has stayed inside the array.
\<close>

definition writes :: "wr \<Rightarrow> byte list \<Rightarrow> bool" where
  "writes op bs \<longleftrightarrow> (\<forall>w. bw_inv w \<longrightarrow>
     (if int (length bs) \<le> bw_FreeSize w then op w = Ok (True, bw_put bs w)
      else \<exists>w'. op w = Ok (False, w') \<and> bw_inv w' \<and> bw_size w' = bw_size w \<and>
             length (bw_buffer w') = length (bw_buffer w)))"

lemma bw_inv_put: "bw_inv w \<Longrightarrow> int (length d) \<le> bw_FreeSize w \<Longrightarrow> bw_inv (bw_put d w)"
  by (auto simp: bw_inv_def bw_put_def bw_FreeSize_def)

lemma bw_put_Nil [simp]: "bw_put [] w = w"
  by (simp add: bw_put_def)

lemma bw_put_put:
  assumes "bw_inv w" "int (length d) + int (length e) \<le> bw_FreeSize w"
  shows "bw_put e (bw_put d w) = bw_put (d @ e) w"
proof -
  have "patch (patch (bw_buffer w) (nat (bw_pos w)) d) (nat (bw_pos w) + length d) e =
      patch (bw_buffer w) (nat (bw_pos w)) (d @ e)"
    using assms by (intro patch_patch_append) (auto simp: bw_inv_def bw_FreeSize_def)
  moreover have "nat (bw_pos w + int (length d)) = nat (bw_pos w) + length d"
    using assms(1) by (simp add: bw_inv_def nat_add_distrib)
  ultimately show ?thesis by (simp add: bw_put_def)
qed

lemma bw_put_simps:
  assumes "bw_inv w" "int (length d) \<le> bw_FreeSize w"
  shows "bw_FreeSize (bw_put d w) = bw_FreeSize w - int (length d)"
    and "bw_size (bw_put d w) = bw_size w"
    and "length (bw_buffer (bw_put d w)) = length (bw_buffer w)"
    and "bw_written (bw_put d w) = bw_written w @ d"
  using assms
  by (auto simp: bw_put_def bw_FreeSize_def bw_inv_def bw_written_def nat_add_distrib
      take_patch_through)

lemma writes_fits:
  "writes op bs \<Longrightarrow> bw_inv w \<Longrightarrow> int (length bs) \<le> bw_FreeSize w \<Longrightarrow> op w = Ok (True, bw_put bs w)"
  by (simp add: writes_def)

lemma writes_full:
  assumes "writes op bs" "bw_inv w" "\<not> int (length bs) \<le> bw_FreeSize w"
  obtains w' where "op w = Ok (False, w')" "bw_inv w'" "bw_size w' = bw_size w"
    "length (bw_buffer w') = length (bw_buffer w)"
proof -
  have "\<exists>w'. op w = Ok (False, w') \<and> bw_inv w' \<and> bw_size w' = bw_size w \<and>
      length (bw_buffer w') = length (bw_buffer w)"
    using assms(1) [unfolded writes_def, THEN spec, THEN mp, OF assms(2)] assms(3) by presburger
  then show ?thesis using that by blast
qed

lemma writes_then [codec_intros]:
  assumes "writes a bs" "writes b cs"
  shows "writes (wr_then a b) (bs @ cs)"
  unfolding writes_def
proof (intro allI impI)
  fix w assume w: "bw_inv w"
  show "if int (length (bs @ cs)) \<le> bw_FreeSize w then wr_then a b w = Ok (True, bw_put (bs @ cs) w)
      else \<exists>w'. wr_then a b w = Ok (False, w') \<and> bw_inv w' \<and> bw_size w' = bw_size w \<and>
             length (bw_buffer w') = length (bw_buffer w)"
  proof (cases "int (length bs) \<le> bw_FreeSize w")
    case True
    then have a: "a w = Ok (True, bw_put bs w)"
      using assms(1) w by (simp add: writes_def)
    note inv = bw_inv_put [OF w True] and put = bw_put_simps [OF w True]
    from assms(2) inv show ?thesis
      using bw_put_put [OF w, of bs cs] a put
      by (auto simp: writes_def wr_then_def split: if_splits)
  next
    case False
    obtain w' where "a w = Ok (False, w')" "bw_inv w'" "bw_size w' = bw_size w"
      "length (bw_buffer w') = length (bw_buffer w)"
      using writes_full [OF assms(1) w False] by blast
    with False show ?thesis by (simp add: wr_then_def)
  qed
qed

lemma writes_skip [codec_intros]: "writes wr_skip []"
  using bw_FreeSize_range by (auto simp: writes_def wr_skip_def)

lemma writes_bytes: "writes (Write_bytes d) d"
  unfolding writes_def
proof (intro allI impI)
  fix w assume w: "bw_inv w"
  have f: "to_size_t (bw_FreeSize w) = bw_FreeSize w"
    using bw_FreeSize_range [OF w] by (simp add: to_size_t_id)
  have "mem_write (bw_buffer w) (bw_pos w) d = Ok (patch (bw_buffer w) (nat (bw_pos w)) d)"
    if "int (length d) \<le> bw_FreeSize w"
    using w that by (intro mem_write_patch) (auto simp: bw_inv_def bw_FreeSize_def)
  then show "if int (length d) \<le> bw_FreeSize w then Write_bytes d w = Ok (True, bw_put d w)
      else \<exists>w'. Write_bytes d w = Ok (False, w') \<and> bw_inv w' \<and> bw_size w' = bw_size w \<and>
             length (bw_buffer w') = length (bw_buffer w)"
    using w by (auto simp: Write_bytes_def f bw_put_def)
qed

lemma writes_raw:
  assumes "n \<le> length d"
  shows "writes (Write_raw d (int n)) (take n d)"
  unfolding writes_def
proof (intro allI impI)
  fix w assume w: "bw_inv w"
  have len: "length (take n d) = n" using assms by simp
  have r: "mem_read d 0 (int n) = Ok (take n d)" using assms by (simp add: mem_read_def)
  have "mem_write (bw_buffer w) (bw_pos w) (take n d) =
      Ok (patch (bw_buffer w) (nat (bw_pos w)) (take n d))" if "int n \<le> bw_FreeSize w"
    using w that len by (intro mem_write_patch) (auto simp: bw_inv_def bw_FreeSize_def)
  then show "if int (length (take n d)) \<le> bw_FreeSize w
      then Write_raw d (int n) w = Ok (True, bw_put (take n d) w)
      else \<exists>w'. Write_raw d (int n) w = Ok (False, w') \<and> bw_inv w' \<and> bw_size w' = bw_size w \<and>
             length (bw_buffer w') = length (bw_buffer w)"
    using w by (auto simp: Write_raw_def bw_put_def len r simp del: length_take)
qed

lemma writes_prims [codec_intros]:
  "writes (Write_uint16 x) (enc_uint16 x)" "writes (Write_int32 y) (enc_int32 y)"
  "writes (Write_uint64 z) (enc_uint64 z)" "writes (Write_bool b) (enc_bool b)"
  by (simp_all add: Write_uint16_def Write_int32_def Write_uint64_def Write_bool_def
      enc_uint16_def enc_int32_def enc_uint64_def enc_bool_def writes_bytes)

lemma writes_string [codec_intros]: "writes (WriteString s) (enc_string s)"
proof -
  let ?l = "of_nat (length s) :: uint16"
  have le: "unat ?l \<le> length (map byte_of_char s)"
    by (simp add: unat_length16)
  have "writes (if ?l > 0 then Write_raw (map byte_of_char s) (uint ?l) else wr_skip)
      (map byte_of_char (take (unat ?l) s))"
  proof (cases "?l = 0")
    case True
    then show ?thesis by (simp add: writes_skip)
  next
    case False
    then show ?thesis
      using writes_raw [OF le] by (simp add: take_map word_neq_0_conv)
  qed
  then show ?thesis
    unfolding WriteString_def Let_def enc_string_def
    by (intro codec_intros)
qed

section \<open>Counted sequences\<close>

text \<open>
  A \<open>repeated\<close> field: a 16-bit count, then the elements one after the other. The count written
  is the vector's \<open>size()\<close> narrowed to 16 bits, while the loop runs over the whole vector.
\<close>

fun rd_times :: "nat \<Rightarrow> 'a rd \<Rightarrow> 'a list rd" where
  "rd_times 0 m = rd_return []"
| "rd_times (Suc n) m = rd_bind m (\<lambda>a. rd_bind (rd_times n m) (\<lambda>as. rd_return (a # as)))"

fun wr_each :: "('a \<Rightarrow> wr) \<Rightarrow> 'a list \<Rightarrow> wr" where
  "wr_each f [] = wr_skip"
| "wr_each f (x # xs) = wr_then (f x) (wr_each f xs)"

definition Read_counted :: "'a rd \<Rightarrow> 'a list rd" where
  "Read_counted m = rd_bind Read_uint16 (\<lambda>n. rd_times (unat n) m)"

definition Write_counted :: "('a \<Rightarrow> wr) \<Rightarrow> 'a list \<Rightarrow> wr" where
  "Write_counted f xs = wr_then (Write_uint16 (of_nat (length xs))) (wr_each f xs)"

definition enc_counted :: "('a \<Rightarrow> byte list) \<Rightarrow> 'a list \<Rightarrow> byte list" where
  "enc_counted e xs = enc_uint16 (of_nat (length xs)) @ concat (map e xs)"

lemma rd_safe_times: "rd_safe m \<Longrightarrow> rd_safe (rd_times n m)"
  by (induction n) (auto intro!: codec_intros)

lemma reads_times:
  "(\<And>x. x \<in> set xs \<Longrightarrow> reads m (e x) x) \<Longrightarrow>
   reads (rd_times (length xs) m) (concat (map e xs)) xs"
proof (induction xs)
  case Nil
  then show ?case by (simp add: reads_return)
next
  case (Cons x xs)
  have "reads (rd_bind (rd_times (length xs) m) (\<lambda>as. rd_return (x # as)))
      (concat (map e xs) @ []) (x # xs)"
    using Cons by (intro reads_bind [where a = xs] reads_return) auto
  then show ?case
    using reads_bind [of m "e x" x] Cons.prems by simp
qed

lemma writes_each: "(\<And>x. writes (f x) (e x)) \<Longrightarrow> writes (wr_each f xs) (concat (map e xs))"
  by (induction xs) (auto intro!: codec_intros)

section \<open>The contract of a serialiser and its parser\<close>

text \<open>
  \<open>dom\<close> is where nothing is lost: \<open>WriteString\<close> and the counts narrow to 16 bits, so a value
  beyond them is written without an error and is not the value read.
\<close>

locale codec =
  fixes rd :: "'a rd"
    and wr :: "'a \<Rightarrow> wr"
    and enc :: "'a \<Rightarrow> byte list"
    and dom :: "'a \<Rightarrow> bool"
  assumes writes: "writes (wr x) (enc x)"
    and reads: "dom x \<Longrightarrow> reads rd (enc x) x"
    and safe: "rd_safe rd"
begin

lemma written:
  assumes "bw_inv w" "int (length (enc x)) \<le> bw_FreeSize w"
  obtains w' where "wr x w = Ok (True, w')" "bw_inv w'" "bw_written w' = bw_written w @ enc x"
  using writes_fits [OF writes assms] bw_inv_put [OF assms] bw_put_simps(4) [OF assms] by blast

lemma refused: "bw_inv w \<Longrightarrow> \<not> int (length (enc x)) \<le> bw_FreeSize w \<Longrightarrow>
   \<exists>w'. wr x w = Ok (False, w') \<and> bw_inv w'"
  using writes_full [OF writes] by metis

lemma read_back:
  assumes "dom x" "br_inv r" "br_isValid r" "br_rest r = enc x @ rest"
  shows "rd r = Ok (Some x, br_adv (length (enc x)) r)"
  using reads [OF assms(1)] assms(2-4) by (simp add: reads_def)

lemma read_total: "br_inv r \<Longrightarrow> \<exists>y r'. rd r = Ok (y, r') \<and> br_inv r'"
  using safe unfolding rd_safe_def by meson

text \<open>No encoding is a proper prefix of another: the parser knows where to stop.\<close>

lemma prefix_free:
  assumes "dom x" "dom y" "enc x @ xs = enc y @ ys" "length (enc x @ xs) \<le> 2147483647"
  shows "x = y"
proof -
  let ?r = "BufferReader_new (enc x @ xs) (int (length (enc x @ xs)))"
  have r: "br_inv ?r" "br_isValid ?r" "br_rest ?r = enc x @ xs"
    using assms(4) by (auto simp: br_inv_def BufferReader_new_def br_rest_def br_FreeSize_def)
  have "rd ?r = Ok (Some x, br_adv (length (enc x)) ?r)"
    using assms(1) r by (rule read_back)
  moreover have "rd ?r = Ok (Some y, br_adv (length (enc y)) ?r)"
    using r assms(3) by (intro read_back [OF assms(2)]) auto
  ultimately show "x = y" by simp
qed

end

text \<open>A counted sequence of a type that has a codec has one.\<close>

locale counted = item: codec rd wr enc dom
  for rd :: "'a rd" and wr :: "'a \<Rightarrow> wr" and enc :: "'a \<Rightarrow> byte list" and dom :: "'a \<Rightarrow> bool"

sublocale counted \<subseteq> codec "Read_counted rd" "Write_counted wr" "enc_counted enc"
    "\<lambda>xs. length xs < 65536 \<and> (\<forall>x \<in> set xs. dom x)"
proof (unfold_locales, goal_cases)
  case (1 xs)
  show ?case
    unfolding Write_counted_def enc_counted_def
    by (intro codec_intros writes_each item.writes)
next
  case (2 xs)
  then have "unat (of_nat (length xs) :: uint16) = length xs"
    by (simp add: unat_of_nat)
  moreover have "reads (rd_times (length xs) rd) (concat (map enc xs)) xs"
    using 2 by (intro reads_times item.reads) auto
  ultimately show ?case
    unfolding Read_counted_def enc_counted_def
    by (intro reads_bind [OF reads_uint16]) simp
next
  case 3
  show ?case
    unfolding Read_counted_def
    by (intro codec_intros rd_safe_times item.safe)
qed

interpretation uint16: codec Read_uint16 Write_uint16 enc_uint16 "\<lambda>_. True"
  by unfold_locales (intro codec_intros)+

interpretation int32: codec Read_int32 Write_int32 enc_int32 "\<lambda>_. True"
  by unfold_locales (intro codec_intros)+

interpretation uint64: codec Read_uint64 Write_uint64 enc_uint64 "\<lambda>_. True"
  by unfold_locales (intro codec_intros)+

interpretation bool: codec Read_bool Write_bool enc_bool "\<lambda>_. True"
  by unfold_locales (intro codec_intros)+

interpretation str: codec ReadString WriteString enc_string "\<lambda>s. length s < 65536"
  by unfold_locales (intro codec_intros; assumption)+

end
