(* ===== verification/SendBuffer.thy ===== *)
theory SendBuffer
  imports Prelude
begin

text \<open>
  \<^verbatim>\<open>ServerEngine/Buffer/SendBuffer.h\<close> and \<^verbatim>\<open>SendBuffer.cpp\<close>: every thread carves the buffers
  it serialises packets to out of a chunk of 64 KB of its own, and takes a new chunk when the
  current one is too full. The asynchronous sends of all sessions read these buffers later.

  The chunks are a heap indexed by chunk identity (\<open>SendBufferChunkRef\<close>), a \<open>SendBuffer\<close> is
  its chunk and its offset there; \<open>LSendBufferChunk\<close> is one variable per thread. Reference
  counting only frees chunks nobody can reach, so the heap here keeps them all.

  \<open>sb_step\<close> interleaves the threads. A buffer that has been closed keeps its bytes, whatever the
  other threads and the same thread do afterwards, and no two closed buffers share a byte.
\<close>

definition CHUNK_SIZE :: nat where
  "CHUNK_SIZE = 65536"

record sb_chunk =
  ck_buffer :: "byte list"
  ck_open :: bool
  ck_usedSize :: int32

record send_buffer =
  sb_owner :: nat
  sb_buffer :: int
  sb_allocSize :: int32
  sb_writeSize :: int32

record sb_state =
  sb_chunks :: "nat \<Rightarrow> sb_chunk"
  sb_nextChunk :: nat
  LSendBufferChunk :: "nat \<Rightarrow> nat option"
  GChunkPool :: "nat list"

section \<open>SendBufferChunk\<close>

definition SendBufferChunk_new :: sb_chunk where
  "SendBufferChunk_new =
     \<lparr>ck_buffer = replicate CHUNK_SIZE 0, ck_open = False, ck_usedSize = 0\<rparr>"

definition SendBufferChunk_Reset :: "sb_chunk \<Rightarrow> sb_chunk" where
  "SendBufferChunk_Reset c = c\<lparr>ck_open := False, ck_usedSize := 0\<rparr>"

definition SendBufferChunk_FreeSize :: "sb_chunk \<Rightarrow> int32" where
  "SendBufferChunk_FreeSize c = int (length (ck_buffer c)) - ck_usedSize c"

definition SendBufferChunk_Open ::
    "nat \<Rightarrow> int32 \<Rightarrow> sb_chunk \<Rightarrow> (send_buffer option \<times> sb_chunk) res" where
  "SendBufferChunk_Open self allocSize c =
     assert_crash (allocSize > 0 \<and> allocSize \<le> int CHUNK_SIZE) (
     assert_crash (\<not> ck_open c) (
       if allocSize > SendBufferChunk_FreeSize c then Ok (None, c)
       else Ok (Some \<lparr>sb_owner = self, sb_buffer = ck_usedSize c, sb_allocSize = allocSize,
                       sb_writeSize = 0\<rparr>,
                c\<lparr>ck_open := True\<rparr>)))"

definition SendBufferChunk_Close :: "int32 \<Rightarrow> sb_chunk \<Rightarrow> sb_chunk res" where
  "SendBufferChunk_Close writeSize c =
     assert_crash (ck_open c)
       (Ok (c\<lparr>ck_open := False, ck_usedSize := ck_usedSize c + writeSize\<rparr>))"

section \<open>SendBuffer and SendBufferManager\<close>

definition SendBuffer_Close ::
    "send_buffer \<Rightarrow> int32 \<Rightarrow> sb_state \<Rightarrow> (send_buffer \<times> sb_state) res" where
  "SendBuffer_Close sb writeSize s =
     assert_crash (sb_allocSize sb \<ge> writeSize) (
       res_bind (SendBufferChunk_Close writeSize (sb_chunks s (sb_owner sb))) (\<lambda>c.
         Ok (sb\<lparr>sb_writeSize := writeSize\<rparr>,
             s\<lparr>sb_chunks := (sb_chunks s)(sb_owner sb := c)\<rparr>)))"

text \<open>The pool is a vector used as a stack.\<close>

definition SendBufferManager_Pop :: "sb_state \<Rightarrow> nat \<times> sb_state" where
  "SendBufferManager_Pop s =
     (if GChunkPool s \<noteq> [] then
        (last (GChunkPool s), s\<lparr>GChunkPool := butlast (GChunkPool s)\<rparr>)
      else (sb_nextChunk s,
            s\<lparr>sb_chunks := (sb_chunks s)(sb_nextChunk s := SendBufferChunk_new),
              sb_nextChunk := Suc (sb_nextChunk s)\<rparr>))"

definition SendBufferManager_Push :: "nat \<Rightarrow> sb_state \<Rightarrow> sb_state" where
  "SendBufferManager_Push c s = s\<lparr>GChunkPool := GChunkPool s @ [c]\<rparr>"

text \<open>\<open>LSendBufferChunk = Pop(); LSendBufferChunk->Reset();\<close>\<close>

definition pop_and_reset :: "nat \<Rightarrow> sb_state \<Rightarrow> nat \<times> sb_state" where
  "pop_and_reset t s =
     (let (c, s1) = SendBufferManager_Pop s in
      (c, s1\<lparr>LSendBufferChunk := (LSendBufferChunk s1)(t := Some c),
            sb_chunks := (sb_chunks s1)(c := SendBufferChunk_Reset (sb_chunks s1 c))\<rparr>))"

definition SendBufferManager_Open ::
    "nat \<Rightarrow> int32 \<Rightarrow> sb_state \<Rightarrow> (send_buffer option \<times> sb_state) res" where
  "SendBufferManager_Open t sz s =
     (let (c, s1) = (case LSendBufferChunk s t of None \<Rightarrow> pop_and_reset t s | Some c \<Rightarrow> (c, s)) in
      assert_crash (\<not> ck_open (sb_chunks s1 c)) (
        let (c', s2) = (if SendBufferChunk_FreeSize (sb_chunks s1 c) < sz
                        then pop_and_reset t s1 else (c, s1)) in
        res_bind (SendBufferChunk_Open c' sz (sb_chunks s2 c')) (\<lambda>(sb, ck).
          Ok (sb, s2\<lparr>sb_chunks := (sb_chunks s2)(c' := ck)\<rparr>))))"

definition SendBufferManager_Close ::
    "send_buffer \<Rightarrow> int32 \<Rightarrow> sb_state \<Rightarrow> (send_buffer \<times> sb_state) res" where
  "SendBufferManager_Close sb writeSize s = SendBuffer_Close sb writeSize s"

text \<open>Before \<open>main\<close>.\<close>

definition sb_start :: sb_state where
  "sb_start = \<lparr>sb_chunks = \<lambda>_. SendBufferChunk_new, sb_nextChunk = 0,
     LSendBufferChunk = \<lambda>_. None, GChunkPool = []\<rparr>"

section \<open>The memory of a send buffer\<close>

text \<open>The \<open>allocSize\<close> bytes from \<open>Buffer()\<close> on, and the assignment of all of them.\<close>

definition sb_block :: "sb_state \<Rightarrow> send_buffer \<Rightarrow> byte list" where
  "sb_block s sb = take (nat (sb_allocSize sb))
     (drop (nat (sb_buffer sb)) (ck_buffer (sb_chunks s (sb_owner sb))))"

definition sb_store :: "send_buffer \<Rightarrow> byte list \<Rightarrow> sb_state \<Rightarrow> sb_state" where
  "sb_store sb d s =
     (let c = sb_chunks s (sb_owner sb) in
      s\<lparr>sb_chunks := (sb_chunks s)(sb_owner sb :=
          c\<lparr>ck_buffer := patch (ck_buffer c) (nat (sb_buffer sb)) d\<rparr>)\<rparr>)"

text \<open>What \<open>WSASend\<close> is given: \<open>WriteSize()\<close> bytes from \<open>Buffer()\<close> on.\<close>

definition sb_bytes :: "sb_state \<Rightarrow> send_buffer \<Rightarrow> byte list" where
  "sb_bytes s sb = take (nat (sb_writeSize sb))
     (drop (nat (sb_buffer sb)) (ck_buffer (sb_chunks s (sb_owner sb))))"

section \<open>The invariant of the chunks\<close>

definition chunk_ok :: "sb_chunk \<Rightarrow> bool" where
  "chunk_ok c \<longleftrightarrow> length (ck_buffer c) = CHUNK_SIZE \<and>
     0 \<le> ck_usedSize c \<and> ck_usedSize c \<le> int CHUNK_SIZE"

text \<open>
  \<open>SendBufferManager::Push\<close> is private and has no caller, so the pool stays empty: a chunk is
  never taken back while sends still read it.
\<close>

definition sb_inv :: "sb_state \<Rightarrow> bool" where
  "sb_inv s \<longleftrightarrow> (\<forall>c. chunk_ok (sb_chunks s c)) \<and>
     (\<forall>t c. LSendBufferChunk s t = Some c \<longrightarrow> c < sb_nextChunk s) \<and>
     (\<forall>t u c. LSendBufferChunk s t = Some c \<longrightarrow> LSendBufferChunk s u = Some c \<longrightarrow> t = u) \<and>
     GChunkPool s = []"

text \<open>A buffer that a thread has opened and not closed.\<close>

definition sb_held :: "sb_state \<Rightarrow> nat \<Rightarrow> send_buffer \<Rightarrow> bool" where
  "sb_held s t sb \<longleftrightarrow> LSendBufferChunk s t = Some (sb_owner sb) \<and>
     ck_open (sb_chunks s (sb_owner sb)) \<and>
     sb_buffer sb = ck_usedSize (sb_chunks s (sb_owner sb)) \<and> 0 < sb_allocSize sb \<and>
     sb_buffer sb + sb_allocSize sb \<le> int CHUNK_SIZE"

text \<open>A buffer that has been closed.\<close>

definition sb_closed :: "sb_state \<Rightarrow> send_buffer \<Rightarrow> bool" where
  "sb_closed s sb \<longleftrightarrow> sb_owner sb < sb_nextChunk s \<and> 0 \<le> sb_buffer sb \<and> 0 \<le> sb_writeSize sb \<and>
     sb_buffer sb + sb_writeSize sb \<le> ck_usedSize (sb_chunks s (sb_owner sb))"

lemma chunk_ok_simps [simp]:
  "chunk_ok SendBufferChunk_new" "chunk_ok c \<Longrightarrow> chunk_ok (SendBufferChunk_Reset c)"
  "chunk_ok c \<Longrightarrow> chunk_ok (c\<lparr>ck_open := b\<rparr>)"
  by (simp_all add: chunk_ok_def SendBufferChunk_new_def SendBufferChunk_Reset_def)

lemma sb_inv_start: "sb_inv sb_start"
  by (simp add: sb_inv_def sb_start_def)

lemma SendBufferChunk_new_simps [simp]:
  "\<not> ck_open SendBufferChunk_new" "ck_usedSize SendBufferChunk_new = 0"
  by (simp_all add: SendBufferChunk_new_def)

lemma SendBufferChunk_Reset_new [simp]: "SendBufferChunk_Reset SendBufferChunk_new = SendBufferChunk_new"
  by (simp add: SendBufferChunk_Reset_def SendBufferChunk_new_def)

lemma SendBufferChunk_FreeSize_ok:
  "chunk_ok c \<Longrightarrow> SendBufferChunk_FreeSize c = int CHUNK_SIZE - ck_usedSize c"
  by (simp add: SendBufferChunk_FreeSize_def chunk_ok_def)

text \<open>What a thread gets with an empty pool: a chunk nobody has seen.\<close>

lemma pop_and_reset_fresh:
  "sb_inv s \<Longrightarrow> pop_and_reset t s = (sb_nextChunk s,
     s\<lparr>LSendBufferChunk := (LSendBufferChunk s)(t := Some (sb_nextChunk s)),
       sb_chunks := (sb_chunks s)(sb_nextChunk s := SendBufferChunk_new),
       sb_nextChunk := Suc (sb_nextChunk s)\<rparr>)"
  by (simp add: pop_and_reset_def SendBufferManager_Pop_def sb_inv_def)

section \<open>Opening, writing, closing\<close>

text \<open>
  What thread \<open>t\<close> leaves alone: the chunk and the thread-local variable of every other thread,
  and the bytes that have been handed out before.
\<close>

definition sb_frame :: "nat \<Rightarrow> sb_state \<Rightarrow> sb_state \<Rightarrow> bool" where
  "sb_frame t s s' \<longleftrightarrow> sb_nextChunk s \<le> sb_nextChunk s' \<and>
     (\<forall>u. u \<noteq> t \<longrightarrow> LSendBufferChunk s' u = LSendBufferChunk s u) \<and>
     (\<forall>c. LSendBufferChunk s' t = Some c \<longrightarrow> LSendBufferChunk s t = Some c \<or> sb_nextChunk s \<le> c) \<and>
     (\<forall>c < sb_nextChunk s. LSendBufferChunk s t \<noteq> Some c \<longrightarrow> sb_chunks s' c = sb_chunks s c) \<and>
     (\<forall>c < sb_nextChunk s. ck_usedSize (sb_chunks s c) \<le> ck_usedSize (sb_chunks s' c) \<and>
        take (nat (ck_usedSize (sb_chunks s c))) (ck_buffer (sb_chunks s' c)) =
        take (nat (ck_usedSize (sb_chunks s c))) (ck_buffer (sb_chunks s c)))"

lemma sb_frame_refl: "sb_frame t s s"
  by (simp add: sb_frame_def)

lemma sb_frame_trans:
  assumes a: "sb_frame t s s'" and b: "sb_frame t s' s''"
  shows "sb_frame t s s''"
  unfolding sb_frame_def
proof (intro conjI allI impI)
  fix c assume c: "c < sb_nextChunk s"
  let ?u = "nat (ck_usedSize (sb_chunks s c))" and ?u' = "nat (ck_usedSize (sb_chunks s' c))"
  have le: "ck_usedSize (sb_chunks s c) \<le> ck_usedSize (sb_chunks s' c)"
    "ck_usedSize (sb_chunks s' c) \<le> ck_usedSize (sb_chunks s'' c)"
    using a b c by (auto simp: sb_frame_def)
  then show "ck_usedSize (sb_chunks s c) \<le> ck_usedSize (sb_chunks s'' c)" by simp
  have "take ?u (ck_buffer (sb_chunks s'' c)) = take ?u (take ?u' (ck_buffer (sb_chunks s'' c)))"
    using le by (simp add: min_def nat_mono)
  also have "\<dots> = take ?u (take ?u' (ck_buffer (sb_chunks s' c)))"
    using a b c by (simp add: sb_frame_def)
  also have "\<dots> = take ?u (ck_buffer (sb_chunks s' c))"
    using le by (simp add: min_def nat_mono)
  also have "\<dots> = take ?u (ck_buffer (sb_chunks s c))"
    using a c by (simp add: sb_frame_def)
  finally show "take ?u (ck_buffer (sb_chunks s'' c)) = take ?u (ck_buffer (sb_chunks s c))" .
next
  fix c assume "c < sb_nextChunk s" "LSendBufferChunk s t \<noteq> Some c"
  moreover from this a have "LSendBufferChunk s' t \<noteq> Some c" "c < sb_nextChunk s'"
    by (auto simp: sb_frame_def)
  ultimately show "sb_chunks s'' c = sb_chunks s c"
    using a b by (simp add: sb_frame_def)
next
  fix c assume "LSendBufferChunk s'' t = Some c"
  then show "LSendBufferChunk s t = Some c \<or> sb_nextChunk s \<le> c"
    using a b by (force simp: sb_frame_def)
qed (use a b in \<open>auto simp: sb_frame_def\<close>)

lemma sb_frame_closed:
  assumes "sb_frame t s s'" "sb_closed s sb"
  shows "sb_closed s' sb" and "sb_bytes s' sb = sb_bytes s sb"
proof -
  let ?c = "sb_owner sb" and ?o = "nat (sb_buffer sb)" and ?n = "nat (sb_writeSize sb)"
  let ?b = "ck_buffer (sb_chunks s ?c)" and ?b' = "ck_buffer (sb_chunks s' ?c)"
  let ?u = "nat (ck_usedSize (sb_chunks s ?c))"
  have le: "ck_usedSize (sb_chunks s ?c) \<le> ck_usedSize (sb_chunks s' ?c)"
    and eq: "take ?u ?b' = take ?u ?b"
    using assms by (auto simp: sb_frame_def sb_closed_def)
  show "sb_closed s' sb"
    using assms le by (auto simp: sb_frame_def sb_closed_def)
  have n: "?o + ?n \<le> ?u" using assms(2) by (auto simp: sb_closed_def)
  have "take ?n (drop ?o ?b') = take ?n (drop ?o (take ?u ?b'))"
    using n by (simp add: take_drop min_def)
  also have "\<dots> = take ?n (drop ?o (take ?u ?b))" by (simp only: eq)
  also have "\<dots> = take ?n (drop ?o ?b)" using n by (simp add: take_drop min_def)
  finally show "sb_bytes s' sb = sb_bytes s sb" by (simp add: sb_bytes_def)
qed

lemma SendBufferManager_Open_ok:
  assumes inv: "sb_inv s" and n: "0 < n" "n \<le> int CHUNK_SIZE"
    and idle: "\<And>c. LSendBufferChunk s t = Some c \<Longrightarrow> \<not> ck_open (sb_chunks s c)"
  obtains sb s' where "SendBufferManager_Open t n s = Ok (Some sb, s')" "sb_inv s'"
    "sb_held s' t sb" "sb_allocSize sb = n" "sb_writeSize sb = 0" "sb_frame t s s'"
proof -
  let ?k = "sb_nextChunk s"
  let ?new = "\<lparr>sb_owner = ?k, sb_buffer = 0, sb_allocSize = n, sb_writeSize = 0\<rparr>"
  let ?s' = "s\<lparr>LSendBufferChunk := (LSendBufferChunk s)(t := Some ?k),
       sb_chunks := (sb_chunks s)(?k := SendBufferChunk_new\<lparr>ck_open := True\<rparr>),
       sb_nextChunk := Suc ?k\<rparr>"
  have newok: "chunk_ok (SendBufferChunk_new\<lparr>ck_open := True\<rparr>)" by simp
  have free: "SendBufferChunk_FreeSize SendBufferChunk_new = int CHUNK_SIZE"
    by (simp add: SendBufferChunk_FreeSize_ok)
  have open_new: "SendBufferChunk_Open ?k n SendBufferChunk_new =
      Ok (Some ?new, SendBufferChunk_new\<lparr>ck_open := True\<rparr>)"
    using n by (simp add: SendBufferChunk_Open_def free)
  have inv': "sb_inv ?s'" using inv newok by (auto simp: sb_inv_def less_Suc_eq)
  have held': "sb_held ?s' t ?new" using n by (simp add: sb_held_def)
  have frame': "sb_frame t s ?s'" by (simp add: sb_frame_def)
  show thesis
  proof (cases "LSendBufferChunk s t")
    case None
    then have "SendBufferManager_Open t n s = Ok (Some ?new, ?s')"
      using n inv open_new by (simp add: SendBufferManager_Open_def pop_and_reset_fresh free)
    then show thesis using that inv' held' frame' by simp
  next
    case (Some c)
    note closed = idle [OF Some]
    show thesis
    proof (cases "SendBufferChunk_FreeSize (sb_chunks s c) < n")
      case True
      then have "SendBufferManager_Open t n s = Ok (Some ?new, ?s')"
        using Some n inv open_new closed
        by (simp add: SendBufferManager_Open_def pop_and_reset_fresh free)
      then show thesis using that inv' held' frame' by simp
    next
      case False
      let ?c = "sb_chunks s c"
      let ?sb = "\<lparr>sb_owner = c, sb_buffer = ck_usedSize ?c, sb_allocSize = n, sb_writeSize = 0\<rparr>"
      let ?t = "s\<lparr>sb_chunks := (sb_chunks s)(c := ?c\<lparr>ck_open := True\<rparr>)\<rparr>"
      have ok: "chunk_ok ?c" using inv by (simp add: sb_inv_def)
      have "SendBufferManager_Open t n s = Ok (Some ?sb, ?t)"
        using Some n closed False by (simp add: SendBufferManager_Open_def SendBufferChunk_Open_def)
      moreover have "sb_inv ?t" using inv by (auto simp: sb_inv_def)
      moreover have "sb_held ?t t ?sb"
        using Some False n by (simp add: sb_held_def SendBufferChunk_FreeSize_ok [OF ok])
      moreover have "sb_frame t s ?t" using Some by (auto simp: sb_frame_def)
      ultimately show thesis using that by simp
    qed
  qed
qed

lemma SendBufferManager_Open_busy:
  "LSendBufferChunk s t = Some c \<Longrightarrow> ck_open (sb_chunks s c) \<Longrightarrow>
   SendBufferManager_Open t n s = Crash AssertCrash"
  by (simp add: SendBufferManager_Open_def)

lemma sb_held_chunk:
  assumes "sb_inv s" "sb_held s t sb"
  shows "0 \<le> sb_buffer sb" "length (ck_buffer (sb_chunks s (sb_owner sb))) = CHUNK_SIZE"
    and "nat (sb_buffer sb) + nat (sb_allocSize sb) \<le> CHUNK_SIZE"
    and "sb_owner sb < sb_nextChunk s"
proof -
  have ok: "chunk_ok (sb_chunks s (sb_owner sb))" using assms(1) by (simp add: sb_inv_def)
  then show "0 \<le> sb_buffer sb" "length (ck_buffer (sb_chunks s (sb_owner sb))) = CHUNK_SIZE"
    using assms(2) by (simp_all add: chunk_ok_def sb_held_def)
  then show "nat (sb_buffer sb) + nat (sb_allocSize sb) \<le> CHUNK_SIZE"
    using assms(2) unfolding sb_held_def by linarith
  have "LSendBufferChunk s t = Some (sb_owner sb)" using assms(2) by (simp add: sb_held_def)
  then show "sb_owner sb < sb_nextChunk s" using assms(1) by (auto simp: sb_inv_def)
qed

lemma sb_block_length:
  "sb_inv s \<Longrightarrow> sb_held s t sb \<Longrightarrow> length (sb_block s sb) = nat (sb_allocSize sb)"
  using sb_held_chunk [of s t sb] by (simp add: sb_block_def)

lemma sb_store_ok:
  assumes inv: "sb_inv s" and held: "sb_held s t sb" and d: "length d = nat (sb_allocSize sb)"
  shows "sb_inv (sb_store sb d s)" "sb_held (sb_store sb d s) t sb" "sb_frame t s (sb_store sb d s)"
    and "sb_block (sb_store sb d s) sb = d"
proof -
  note c = sb_held_chunk [OF inv held]
  let ?c = "sb_chunks s (sb_owner sb)"
  have fits: "nat (sb_buffer sb) + length d \<le> length (ck_buffer ?c)" using c d by simp
  then have len: "length (patch (ck_buffer ?c) (nat (sb_buffer sb)) d) = CHUNK_SIZE"
    using c by simp
  have ok: "chunk_ok ?c" using inv by (simp add: sb_inv_def)
  show "sb_inv (sb_store sb d s)"
    using inv ok len by (auto simp: sb_inv_def sb_store_def Let_def chunk_ok_def)
  show "sb_held (sb_store sb d s) t sb"
    using held by (simp add: sb_held_def sb_store_def Let_def)
  have "take (nat (ck_usedSize ?c)) (patch (ck_buffer ?c) (nat (sb_buffer sb)) d) =
      take (nat (ck_usedSize ?c)) (ck_buffer ?c)"
    using held fits by (intro take_patch_before) (auto simp: sb_held_def)
  then show "sb_frame t s (sb_store sb d s)"
    using held by (auto simp: sb_frame_def sb_store_def sb_held_def Let_def)
  show "sb_block (sb_store sb d s) sb = d"
    using take_drop_patch [OF fits] d by (simp add: sb_block_def sb_store_def Let_def)
qed

lemma SendBufferManager_Close_ok:
  assumes inv: "sb_inv s" and held: "sb_held s t sb" and n: "0 \<le> n" "n \<le> sb_allocSize sb"
  obtains s' where "SendBufferManager_Close sb n s = Ok (sb\<lparr>sb_writeSize := n\<rparr>, s')" "sb_inv s'"
    "sb_frame t s s'" "sb_closed s' (sb\<lparr>sb_writeSize := n\<rparr>)"
    "sb_bytes s' (sb\<lparr>sb_writeSize := n\<rparr>) = take (nat n) (sb_block s sb)"
    "LSendBufferChunk s' = LSendBufferChunk s" "\<not> ck_open (sb_chunks s' (sb_owner sb))"
proof -
  let ?c = "sb_chunks s (sb_owner sb)"
  let ?s' = "s\<lparr>sb_chunks := (sb_chunks s)(sb_owner sb :=
      ?c\<lparr>ck_open := False, ck_usedSize := ck_usedSize ?c + n\<rparr>)\<rparr>"
  note c = sb_held_chunk [OF inv held]
  have "SendBufferManager_Close sb n s = Ok (sb\<lparr>sb_writeSize := n\<rparr>, ?s')"
    using held n by (simp add: SendBufferManager_Close_def SendBuffer_Close_def
        SendBufferChunk_Close_def sb_held_def)
  moreover have "sb_inv ?s'"
    using inv held n by (auto simp: sb_inv_def chunk_ok_def sb_held_def)
  moreover have "sb_frame t s ?s'"
    using held n by (auto simp: sb_frame_def sb_held_def)
  moreover have "sb_closed ?s' (sb\<lparr>sb_writeSize := n\<rparr>)"
    using c(1,4) held n by (simp add: sb_closed_def sb_held_def)
  moreover have "sb_bytes ?s' (sb\<lparr>sb_writeSize := n\<rparr>) = take (nat n) (sb_block s sb)"
    using n by (simp add: sb_bytes_def sb_block_def min_def nat_le_iff)
  ultimately show thesis using that by simp
qed

lemma length_sb_bytes:
  assumes "sb_inv s" "sb_closed s sb"
  shows "int (length (sb_bytes s sb)) = sb_writeSize sb"
proof -
  have "chunk_ok (sb_chunks s (sb_owner sb))" using assms(1) by (simp add: sb_inv_def)
  then have "sb_buffer sb + sb_writeSize sb \<le> int (length (ck_buffer (sb_chunks s (sb_owner sb))))"
    using assms(2) unfolding chunk_ok_def sb_closed_def by linarith
  moreover have "0 \<le> sb_buffer sb" "0 \<le> sb_writeSize sb"
    using assms(2) by (simp_all add: sb_closed_def)
  ultimately have "nat (sb_writeSize sb) \<le>
      length (ck_buffer (sb_chunks s (sb_owner sb))) - nat (sb_buffer sb)"
    by linarith
  then show ?thesis using \<open>0 \<le> sb_writeSize sb\<close> by (simp add: sb_bytes_def min_def)
qed

section \<open>Threads\<close>

text \<open>
  A run records, beside the chunks, the buffer each thread is filling and, for every buffer
  closed so far, the bytes it had at that moment. \<open>sb_abandon\<close> is a \<open>MakeSendBuffer\<close> that
  returns \<open>nullptr\<close> after \<open>Open\<close>.
\<close>

record sb_run =
  run_state :: sb_state
  run_held :: "nat \<Rightarrow> send_buffer option"
  run_closed :: "(send_buffer \<times> byte list) list"

inductive sb_step :: "sb_run \<Rightarrow> sb_run \<Rightarrow> bool" where
  sb_open: "0 < n \<Longrightarrow> n \<le> int CHUNK_SIZE \<Longrightarrow>
    SendBufferManager_Open t n (run_state r) = Ok (Some sb, s') \<Longrightarrow>
    sb_step r (r\<lparr>run_state := s', run_held := (run_held r)(t := Some sb)\<rparr>)"
| sb_write: "run_held r t = Some sb \<Longrightarrow> length d = nat (sb_allocSize sb) \<Longrightarrow>
    sb_step r (r\<lparr>run_state := sb_store sb d (run_state r)\<rparr>)"
| sb_close: "run_held r t = Some sb \<Longrightarrow> 0 \<le> n \<Longrightarrow>
    SendBufferManager_Close sb n (run_state r) = Ok (sb', s') \<Longrightarrow>
    sb_step r (r\<lparr>run_state := s', run_held := (run_held r)(t := None),
                 run_closed := (sb', sb_bytes s' sb') # run_closed r\<rparr>)"
| sb_abandon: "run_held r t = Some sb \<Longrightarrow>
    sb_step r (r\<lparr>run_held := (run_held r)(t := None)\<rparr>)"

inductive_cases sb_stepE: "sb_step r r'"

definition sb_run_start :: sb_run where
  "sb_run_start = \<lparr>run_state = sb_start, run_held = \<lambda>_. None, run_closed = []\<rparr>"

abbreviation sb_reach :: "sb_run \<Rightarrow> bool" where
  "sb_reach r \<equiv> sb_step\<^sup>*\<^sup>* sb_run_start r"

definition sb_disjoint :: "send_buffer \<Rightarrow> send_buffer \<Rightarrow> bool" where
  "sb_disjoint a b \<longleftrightarrow> sb_owner a \<noteq> sb_owner b \<or>
     sb_buffer a + sb_writeSize a \<le> sb_buffer b \<or> sb_buffer b + sb_writeSize b \<le> sb_buffer a"

definition sb_run_inv :: "sb_run \<Rightarrow> bool" where
  "sb_run_inv r \<longleftrightarrow> sb_inv (run_state r) \<and>
     (\<forall>t sb. run_held r t = Some sb \<longrightarrow> sb_held (run_state r) t sb) \<and>
     (\<forall>(sb, d) \<in> set (run_closed r). sb_closed (run_state r) sb \<and> sb_bytes (run_state r) sb = d) \<and>
     sorted_wrt sb_disjoint (map fst (run_closed r))"

lemma sb_frame_held:
  assumes "sb_inv s" "sb_frame t s s'" "sb_held s u sb" "u \<noteq> t"
  shows "sb_held s' u sb"
proof -
  have "LSendBufferChunk s u = Some (sb_owner sb)" using assms(3) by (simp add: sb_held_def)
  then have "sb_owner sb < sb_nextChunk s" "LSendBufferChunk s t \<noteq> Some (sb_owner sb)"
    using assms(1,4) unfolding sb_inv_def by blast+
  then have "sb_chunks s' (sb_owner sb) = sb_chunks s (sb_owner sb)"
    "LSendBufferChunk s' u = LSendBufferChunk s u"
    using assms(2,4) by (simp_all add: sb_frame_def)
  with assms(3) show ?thesis by (simp add: sb_held_def)
qed

text \<open>A thread that calls \<open>Open\<close> successfully holds no other buffer.\<close>

lemma SendBufferManager_Open_inv:
  assumes "sb_inv s" "SendBufferManager_Open t n s = Ok (Some sb, s')" "0 < n" "n \<le> int CHUNK_SIZE"
  shows "sb_inv s'" "sb_held s' t sb" "sb_frame t s s'" "\<And>sb0. \<not> sb_held s t sb0"
    and "sb_allocSize sb = n"
proof -
  have idle: "\<not> ck_open (sb_chunks s c)" if "LSendBufferChunk s t = Some c" for c
    using SendBufferManager_Open_busy [OF that] assms(2) by auto
  obtain sb1 s1 where "SendBufferManager_Open t n s = Ok (Some sb1, s1)" "sb_inv s1"
    "sb_held s1 t sb1" "sb_allocSize sb1 = n" "sb_frame t s s1"
    using SendBufferManager_Open_ok [OF assms(1,3,4) idle] by blast
  then show "sb_inv s'" "sb_held s' t sb" "sb_frame t s s'" "sb_allocSize sb = n"
    using assms(2) by simp_all
  show "\<not> sb_held s t sb0" for sb0
    using idle by (auto simp: sb_held_def)
qed

lemma SendBufferManager_Close_inv:
  assumes "sb_inv s" "sb_held s t sb" "0 \<le> n" "SendBufferManager_Close sb n s = Ok (sb', s')"
  shows "sb_inv s'" "sb_frame t s s'" "sb_closed s' sb'" "sb_buffer sb' = sb_buffer sb"
    and "sb_owner sb' = sb_owner sb"
proof -
  have "n \<le> sb_allocSize sb"
    using assms(4) by (simp add: SendBufferManager_Close_def SendBuffer_Close_def res_iff)
  then obtain s1 where "SendBufferManager_Close sb n s = Ok (sb\<lparr>sb_writeSize := n\<rparr>, s1)"
    "sb_inv s1" "sb_frame t s s1" "sb_closed s1 (sb\<lparr>sb_writeSize := n\<rparr>)"
    using SendBufferManager_Close_ok [OF assms(1-3)] by blast
  then show "sb_inv s'" "sb_frame t s s'" "sb_closed s' sb'" "sb_buffer sb' = sb_buffer sb"
    "sb_owner sb' = sb_owner sb"
    using assms(4) by auto
qed

text \<open>A step of thread \<open>t\<close> that frames the rest keeps the record of the closed buffers true.\<close>

lemma sb_run_inv_frame:
  assumes inv: "sb_run_inv r" and s': "sb_inv s'" "sb_frame t (run_state r) s'"
    and h: "\<And>u. u \<noteq> t \<Longrightarrow> h u = run_held r u" "\<And>sb. h t = Some sb \<Longrightarrow> sb_held s' t sb"
  shows "sb_run_inv (r\<lparr>run_state := s', run_held := h\<rparr>)"
proof -
  have "sb_held s' u sb" if "h u = Some sb" for u sb
  proof (cases "u = t")
    case False
    with that h(1) inv have "sb_held (run_state r) u sb" by (simp add: sb_run_inv_def)
    moreover have "sb_inv (run_state r)" using inv by (simp add: sb_run_inv_def)
    ultimately show ?thesis using sb_frame_held s'(2) False by blast
  qed (use h that in simp)
  moreover have "sb_closed s' sb \<and> sb_bytes s' sb = d" if "(sb, d) \<in> set (run_closed r)" for sb d
    using inv that sb_frame_closed [OF s'(2)] by (auto simp: sb_run_inv_def)
  ultimately show ?thesis
    using inv s'(1) by (auto simp: sb_run_inv_def)
qed

lemma sb_run_inv_step:
  assumes "sb_step r r'" "sb_run_inv r"
  shows "sb_run_inv r'"
  using assms
proof (cases rule: sb_step.cases)
  case (sb_open n t sb s')
  then show ?thesis
    using assms(2) SendBufferManager_Open_inv [of "run_state r" t n sb s']
    by (auto intro!: sb_run_inv_frame simp: sb_run_inv_def [of r])
next
  case (sb_write t sb d)
  then have held: "sb_inv (run_state r)" "sb_held (run_state r) t sb"
    using assms(2) by (simp_all add: sb_run_inv_def)
  have "sb_run_inv (r\<lparr>run_state := sb_store sb d (run_state r), run_held := run_held r\<rparr>)"
    using sb_store_ok [OF held] sb_write assms(2) by (intro sb_run_inv_frame) auto
  then show ?thesis using sb_write by simp
next
  case (sb_close t sb n sb' s')
  then have held: "sb_inv (run_state r)" "sb_held (run_state r) t sb"
    using assms(2) by (simp_all add: sb_run_inv_def)
  note c = SendBufferManager_Close_inv [OF held sb_close(3,4)]
  have "sb_disjoint sb' a" if "(a, d) \<in> set (run_closed r)" for a d
  proof -
    have "sb_closed (run_state r) a" using that assms(2) by (auto simp: sb_run_inv_def)
    then show ?thesis
      using c(4,5) held(2) by (auto simp: sb_disjoint_def sb_closed_def sb_held_def)
  qed
  moreover have "sb_run_inv (r\<lparr>run_state := s', run_held := (run_held r)(t := None)\<rparr>)"
    using c assms(2) by (intro sb_run_inv_frame) auto
  ultimately show ?thesis
    using c(3) sb_close by (auto simp: sb_run_inv_def)
next
  case (sb_abandon t sb)
  then show ?thesis using assms(2) by (auto simp: sb_run_inv_def)
qed

lemma sb_run_inv_reach: "sb_reach r \<Longrightarrow> sb_run_inv r"
proof (induction rule: rtranclp_induct)
  case base
  then show ?case by (simp add: sb_run_inv_def sb_run_start_def sb_inv_start)
next
  case (step y z)
  then show ?case using sb_run_inv_step by blast
qed

text \<open>
  C32: Send buffers are stable. Whatever the threads of the server open, fill and close, a buffer
  that has once been closed has for ever the bytes it was closed with, so that a session may
  hand it to an asynchronous send and other sessions may share it.
\<close>

theorem send_buffers_stable:
  assumes "sb_reach r" "(sb, d) \<in> set (run_closed r)" "sb_step\<^sup>*\<^sup>* r r'"
  shows "sb_bytes (run_state r') sb = d"
proof -
  have "set (run_closed r) \<subseteq> set (run_closed r')"
    using assms(3) by induction (auto elim!: sb_stepE)
  moreover have "sb_reach r'" using assms(1,3) by (rule rtranclp_trans)
  ultimately show ?thesis
    using sb_run_inv_reach [of r'] assms(2) by (auto simp: sb_run_inv_def)
qed

text \<open>
  No two closed send buffers, of the same thread or of different ones, share a byte of memory.
\<close>

theorem send_buffers_disjoint:
  assumes "sb_reach r" "i < j" "j < length (run_closed r)"
  shows "sb_disjoint (fst (run_closed r ! i)) (fst (run_closed r ! j))"
  using sb_run_inv_reach [OF assms(1)] assms(2,3)
  by (auto simp: sb_run_inv_def sorted_wrt_iff_nth_less)

text \<open>
  A run for the witnesses: a thread opens a buffer of \<open>n\<close> bytes, fills it with \<open>d\<close> and closes it
  after \<open>k\<close> of them.
\<close>

lemma sb_fill_run:
  assumes r: "sb_reach r" "run_held r t = None"
    and idle: "\<And>c. LSendBufferChunk (run_state r) t = Some c \<Longrightarrow> \<not> ck_open (sb_chunks (run_state r) c)"
    and d: "d \<noteq> []" "length d \<le> CHUNK_SIZE" "k \<le> length d"
  obtains r' sb where "sb_step\<^sup>*\<^sup>* r r'" "run_closed r' = (sb, take k d) # run_closed r"
    "run_held r' t = None"
    "\<And>c. LSendBufferChunk (run_state r') t = Some c \<Longrightarrow> \<not> ck_open (sb_chunks (run_state r') c)"
proof -
  have inv: "sb_inv (run_state r)" using sb_run_inv_reach [OF r(1)] by (simp add: sb_run_inv_def)
  have n: "0 < int (length d)" "int (length d) \<le> int CHUNK_SIZE" using d by auto
  obtain sb s1 where o: "SendBufferManager_Open t (int (length d)) (run_state r) = Ok (Some sb, s1)"
    "sb_inv s1" "sb_held s1 t sb" "sb_allocSize sb = int (length d)"
    using SendBufferManager_Open_ok [OF inv n idle] by blast
  let ?r1 = "r\<lparr>run_state := s1, run_held := (run_held r)(t := Some sb)\<rparr>"
  let ?r2 = "?r1\<lparr>run_state := sb_store sb d s1\<rparr>"
  have l: "length d = nat (sb_allocSize sb)" using o(4) by simp
  note w = sb_store_ok [OF o(2,3) l]
  have k: "0 \<le> int k" "int k \<le> sb_allocSize sb" using d(3) o(4) by simp_all
  obtain s3 where c: "SendBufferManager_Close sb (int k) (sb_store sb d s1) =
      Ok (sb\<lparr>sb_writeSize := int k\<rparr>, s3)"
    "sb_bytes s3 (sb\<lparr>sb_writeSize := int k\<rparr>) = take k d"
    "LSendBufferChunk s3 = LSendBufferChunk (sb_store sb d s1)" "\<not> ck_open (sb_chunks s3 (sb_owner sb))"
    using SendBufferManager_Close_ok [OF w(1,2) k] unfolding w(4) nat_int by blast
  let ?r3 = "?r2\<lparr>run_state := s3, run_held := (run_held ?r2)(t := None),
      run_closed := (sb\<lparr>sb_writeSize := int k\<rparr>, take k d) # run_closed ?r2\<rparr>"
  have "sb_step r ?r1" by (rule sb_step.sb_open [OF n o(1)])
  moreover have "sb_step ?r1 ?r2"
    using sb_step.sb_write [of ?r1 t sb d] l by simp
  moreover have "sb_step ?r2 ?r3"
    using sb_step.sb_close [of ?r2 t sb "int k"] c(1,2) by simp
  ultimately have "sb_step\<^sup>*\<^sup>* r ?r3"
    by (meson converse_rtranclp_into_rtranclp rtranclp.rtrancl_refl)
  moreover have "LSendBufferChunk s3 t = Some (sb_owner sb)"
    using c(3) w(2) by (simp add: sb_held_def)
  ultimately show thesis
    using c(4) by (intro that [of ?r3 "sb\<lparr>sb_writeSize := int k\<rparr>"]) simp_all
qed

lemma sb_two_buffers:
  obtains r r' sb where "sb_reach r" "(sb, [1, 2]) \<in> set (run_closed r)" "sb_step\<^sup>*\<^sup>* r r'"
    "length (run_closed r') = 2"
proof -
  have idle: "\<And>c. LSendBufferChunk (run_state sb_run_start) 0 = Some c \<Longrightarrow>
      \<not> ck_open (sb_chunks (run_state sb_run_start) c)"
    by (simp add: sb_run_start_def sb_start_def)
  obtain r sb where r: "sb_reach r"
    "run_closed r = (sb, take 2 [1, 2, 3]) # run_closed sb_run_start" "run_held r 0 = None"
    and i: "\<And>c. LSendBufferChunk (run_state r) 0 = Some c \<Longrightarrow> \<not> ck_open (sb_chunks (run_state r) c)"
    by (rule sb_fill_run [OF _ _ idle, where d = "[1, 2, 3]" and k = 2])
      (auto simp: sb_run_start_def CHUNK_SIZE_def)
  obtain r' sb' where r': "sb_step\<^sup>*\<^sup>* r r'" "run_closed r' = (sb', take 1 [9, 9]) # run_closed r"
    by (rule sb_fill_run [OF r(1,3) i, where d = "[9, 9]" and k = 1])
      (auto simp: CHUNK_SIZE_def)
  have "(sb, [1, 2]) \<in> set (run_closed r)" using r(2) by simp
  moreover have "length (run_closed r') = 2" using r(2) r'(2) by (simp add: sb_run_start_def)
  ultimately show thesis using that r(1) r'(1) by blast
qed

theorem send_buffers_stable_witness:
  "\<exists>r r' sb. sb_reach r \<and> (sb, [1, 2]) \<in> set (run_closed r) \<and> sb_step\<^sup>*\<^sup>* r r' \<and>
     length (run_closed r') = 2 \<and> sb_bytes (run_state r') sb = [1, 2]"
proof -
  obtain r r' sb where r: "sb_reach r" "(sb, [1, 2]) \<in> set (run_closed r)" "sb_step\<^sup>*\<^sup>* r r'"
    "length (run_closed r') = 2"
    by (rule sb_two_buffers)
  from send_buffers_stable [OF r(1-3)] r show ?thesis by blast
qed

theorem send_buffers_disjoint_witness:
  "\<exists>r. sb_reach r \<and> length (run_closed r) = 2 \<and>
     sb_disjoint (fst (run_closed r ! 0)) (fst (run_closed r ! 1))"
proof -
  obtain r r' sb where r: "sb_reach r" "(sb, [1, 2]) \<in> set (run_closed r)" "sb_step\<^sup>*\<^sup>* r r'"
    "length (run_closed r') = 2"
    by (rule sb_two_buffers)
  have "sb_reach r'" using r(1,3) by (rule rtranclp_trans)
  from send_buffers_disjoint [OF this, of 0 1] this r(4) show ?thesis by auto
qed

end
