(* ===== verification/PacketProtocol.thy ===== *)
theory PacketProtocol
  imports BufferIO SendBuffer
begin

text \<open>
  \<^verbatim>\<open>Common/Protocol/PacketProtocol.h\<close>: the packets of the chat protocol. For every struct:
  its members as a record (\<open>header\<close> is left out, \<open>MakeSendBuffer\<close> overwrites it before it is
  used), \<open>Read\<close>, the sequence of writes of \<open>MakeSendBuffer\<close> (\<open>fields_\<dots>\<close>) and the bytes
  that sequence stands for. An interpretation of \<open>codec\<close> makes \<open>Read\<close> and these writes one
  another's inverse.

  \<open>MakeSendBuffer\<close> is the frame the generated functions share: open 4096 bytes, a header with
  size 0, the members, the header again with the size, close. A failed write returns
  \<open>nullptr\<close> from the middle of it.
\<close>

section \<open>Sequences of writes\<close>

text \<open>\<open>if (writer.Write(...) == false) return nullptr;\<close> one after the other.\<close>

fun wr_seq :: "wr list \<Rightarrow> wr" where
  "wr_seq [] = wr_skip"
| "wr_seq (a # as) = wr_then a (wr_seq as)"

lemma writes_seq_Nil [codec_intros]: "writes (wr_seq []) (concat [])"
  by (simp add: writes_skip)

lemma writes_seq_Cons [codec_intros]:
  "writes a bs \<Longrightarrow> writes (wr_seq as) (concat bss) \<Longrightarrow> writes (wr_seq (a # as)) (concat (bs # bss))"
  by (simp add: writes_then)

lemma reads_bind_concat:
  "reads m bs a \<Longrightarrow> reads (f a) (concat bss) b \<Longrightarrow> reads (rd_bind m f) (concat (bs # bss)) b"
  by (simp add: reads_bind)

lemma reads_end:
  "b = a \<Longrightarrow> reads (rd_valid a) (concat []) b" "b = a \<Longrightarrow> reads (rd_return a) (concat []) b"
  by (simp_all add: reads_valid reads_return)

lemmas reads_fields = reads_bind_concat reads_end reads_uint16 reads_int32 reads_uint64 reads_bool
  reads_string

section \<open>The structs\<close>

record C_LOGIN =
  C_LOGIN_name :: "string"

definition Read_C_LOGIN :: "C_LOGIN rd" where
  "Read_C_LOGIN =
     rd_bind ReadString (\<lambda>name.
     rd_valid \<lparr>C_LOGIN_name = name\<rparr>)"

definition fields_C_LOGIN :: "C_LOGIN \<Rightarrow> wr" where
  "fields_C_LOGIN pkt = wr_seq
     [WriteString (C_LOGIN_name pkt)]"

definition enc_C_LOGIN :: "C_LOGIN \<Rightarrow> byte list" where
  "enc_C_LOGIN pkt = concat
     [enc_string (C_LOGIN_name pkt)]"

definition dom_C_LOGIN :: "C_LOGIN \<Rightarrow> bool" where
  "dom_C_LOGIN pkt \<longleftrightarrow> length (C_LOGIN_name pkt) < 65536"

interpretation c_login: codec Read_C_LOGIN fields_C_LOGIN enc_C_LOGIN dom_C_LOGIN
proof (unfold_locales, goal_cases)
  case (1 pkt)
  show ?case unfolding fields_C_LOGIN_def enc_C_LOGIN_def by (intro codec_intros)
next
  case (2 pkt)
  note dom = 2 [unfolded dom_C_LOGIN_def]
  show ?case unfolding Read_C_LOGIN_def enc_C_LOGIN_def by (rule reads_fields | simp add: dom)+
next
  case 3
  show ?case unfolding Read_C_LOGIN_def by (intro codec_intros)
qed

record S_LOGIN =
  S_LOGIN_success :: "bool"
  S_LOGIN_playerId :: "uint64"
  S_LOGIN_name :: "string"
  S_LOGIN_message :: "string"

definition Read_S_LOGIN :: "S_LOGIN rd" where
  "Read_S_LOGIN =
     rd_bind Read_bool (\<lambda>success.
     rd_bind Read_uint64 (\<lambda>playerId.
     rd_bind ReadString (\<lambda>name.
     rd_bind ReadString (\<lambda>message.
     rd_valid \<lparr>S_LOGIN_success = success, S_LOGIN_playerId = playerId, S_LOGIN_name = name, S_LOGIN_message = message\<rparr>))))"

definition fields_S_LOGIN :: "S_LOGIN \<Rightarrow> wr" where
  "fields_S_LOGIN pkt = wr_seq
     [Write_bool (S_LOGIN_success pkt),
      Write_uint64 (S_LOGIN_playerId pkt),
      WriteString (S_LOGIN_name pkt),
      WriteString (S_LOGIN_message pkt)]"

definition enc_S_LOGIN :: "S_LOGIN \<Rightarrow> byte list" where
  "enc_S_LOGIN pkt = concat
     [enc_bool (S_LOGIN_success pkt),
      enc_uint64 (S_LOGIN_playerId pkt),
      enc_string (S_LOGIN_name pkt),
      enc_string (S_LOGIN_message pkt)]"

definition dom_S_LOGIN :: "S_LOGIN \<Rightarrow> bool" where
  "dom_S_LOGIN pkt \<longleftrightarrow> length (S_LOGIN_name pkt) < 65536 \<and>
     length (S_LOGIN_message pkt) < 65536"

interpretation s_login: codec Read_S_LOGIN fields_S_LOGIN enc_S_LOGIN dom_S_LOGIN
proof (unfold_locales, goal_cases)
  case (1 pkt)
  show ?case unfolding fields_S_LOGIN_def enc_S_LOGIN_def by (intro codec_intros)
next
  case (2 pkt)
  note dom = 2 [unfolded dom_S_LOGIN_def]
  show ?case unfolding Read_S_LOGIN_def enc_S_LOGIN_def by (rule reads_fields | simp add: dom)+
next
  case 3
  show ?case unfolding Read_S_LOGIN_def by (intro codec_intros)
qed

record C_HEARTBEAT =
  C_HEARTBEAT_clientTick :: "uint64"

definition Read_C_HEARTBEAT :: "C_HEARTBEAT rd" where
  "Read_C_HEARTBEAT =
     rd_bind Read_uint64 (\<lambda>clientTick.
     rd_valid \<lparr>C_HEARTBEAT_clientTick = clientTick\<rparr>)"

definition fields_C_HEARTBEAT :: "C_HEARTBEAT \<Rightarrow> wr" where
  "fields_C_HEARTBEAT pkt = wr_seq
     [Write_uint64 (C_HEARTBEAT_clientTick pkt)]"

definition enc_C_HEARTBEAT :: "C_HEARTBEAT \<Rightarrow> byte list" where
  "enc_C_HEARTBEAT pkt = concat
     [enc_uint64 (C_HEARTBEAT_clientTick pkt)]"

definition dom_C_HEARTBEAT :: "C_HEARTBEAT \<Rightarrow> bool" where
  "dom_C_HEARTBEAT pkt \<longleftrightarrow> True"

interpretation c_heartbeat: codec Read_C_HEARTBEAT fields_C_HEARTBEAT enc_C_HEARTBEAT dom_C_HEARTBEAT
proof (unfold_locales, goal_cases)
  case (1 pkt)
  show ?case unfolding fields_C_HEARTBEAT_def enc_C_HEARTBEAT_def by (intro codec_intros)
next
  case (2 pkt)
  note dom = 2 [unfolded dom_C_HEARTBEAT_def]
  show ?case unfolding Read_C_HEARTBEAT_def enc_C_HEARTBEAT_def by (rule reads_fields | simp add: dom)+
next
  case 3
  show ?case unfolding Read_C_HEARTBEAT_def by (intro codec_intros)
qed

record S_HEARTBEAT =
  S_HEARTBEAT_serverTick :: "uint64"

definition Read_S_HEARTBEAT :: "S_HEARTBEAT rd" where
  "Read_S_HEARTBEAT =
     rd_bind Read_uint64 (\<lambda>serverTick.
     rd_valid \<lparr>S_HEARTBEAT_serverTick = serverTick\<rparr>)"

definition fields_S_HEARTBEAT :: "S_HEARTBEAT \<Rightarrow> wr" where
  "fields_S_HEARTBEAT pkt = wr_seq
     [Write_uint64 (S_HEARTBEAT_serverTick pkt)]"

definition enc_S_HEARTBEAT :: "S_HEARTBEAT \<Rightarrow> byte list" where
  "enc_S_HEARTBEAT pkt = concat
     [enc_uint64 (S_HEARTBEAT_serverTick pkt)]"

definition dom_S_HEARTBEAT :: "S_HEARTBEAT \<Rightarrow> bool" where
  "dom_S_HEARTBEAT pkt \<longleftrightarrow> True"

interpretation s_heartbeat: codec Read_S_HEARTBEAT fields_S_HEARTBEAT enc_S_HEARTBEAT dom_S_HEARTBEAT
proof (unfold_locales, goal_cases)
  case (1 pkt)
  show ?case unfolding fields_S_HEARTBEAT_def enc_S_HEARTBEAT_def by (intro codec_intros)
next
  case (2 pkt)
  note dom = 2 [unfolded dom_S_HEARTBEAT_def]
  show ?case unfolding Read_S_HEARTBEAT_def enc_S_HEARTBEAT_def by (rule reads_fields | simp add: dom)+
next
  case 3
  show ?case unfolding Read_S_HEARTBEAT_def by (intro codec_intros)
qed

definition Read_C_ROOM_LIST :: "unit rd" where
  "Read_C_ROOM_LIST = rd_valid ()"

definition fields_C_ROOM_LIST :: "unit \<Rightarrow> wr" where
  "fields_C_ROOM_LIST pkt = wr_seq []"

definition enc_C_ROOM_LIST :: "unit \<Rightarrow> byte list" where
  "enc_C_ROOM_LIST pkt = concat []"

definition dom_C_ROOM_LIST :: "unit \<Rightarrow> bool" where
  "dom_C_ROOM_LIST pkt \<longleftrightarrow> True"

interpretation c_room_list: codec Read_C_ROOM_LIST fields_C_ROOM_LIST enc_C_ROOM_LIST dom_C_ROOM_LIST
proof (unfold_locales, goal_cases)
  case (1 pkt)
  show ?case unfolding fields_C_ROOM_LIST_def enc_C_ROOM_LIST_def by (intro codec_intros)
next
  case (2 pkt)
  note dom = 2 [unfolded dom_C_ROOM_LIST_def]
  show ?case unfolding Read_C_ROOM_LIST_def enc_C_ROOM_LIST_def by (rule reads_fields | simp add: dom)+
next
  case 3
  show ?case unfolding Read_C_ROOM_LIST_def by (intro codec_intros)
qed

record RoomsInfo =
  RoomsInfo_roomId :: "uint32"
  RoomsInfo_roomName :: "string"
  RoomsInfo_userCount :: "uint32"

definition Read_RoomsInfo :: "RoomsInfo rd" where
  "Read_RoomsInfo =
     rd_bind Read_int32 (\<lambda>roomId.
     rd_bind ReadString (\<lambda>roomName.
     rd_bind Read_int32 (\<lambda>userCount.
     rd_return \<lparr>RoomsInfo_roomId = roomId, RoomsInfo_roomName = roomName, RoomsInfo_userCount = userCount\<rparr>)))"

definition Write_RoomsInfo :: "RoomsInfo \<Rightarrow> wr" where
  "Write_RoomsInfo pkt = wr_seq
     [Write_int32 (RoomsInfo_roomId pkt),
      WriteString (RoomsInfo_roomName pkt),
      Write_int32 (RoomsInfo_userCount pkt)]"

definition enc_RoomsInfo :: "RoomsInfo \<Rightarrow> byte list" where
  "enc_RoomsInfo pkt = concat
     [enc_int32 (RoomsInfo_roomId pkt),
      enc_string (RoomsInfo_roomName pkt),
      enc_int32 (RoomsInfo_userCount pkt)]"

definition dom_RoomsInfo :: "RoomsInfo \<Rightarrow> bool" where
  "dom_RoomsInfo pkt \<longleftrightarrow> length (RoomsInfo_roomName pkt) < 65536"

interpretation roomsinfo: codec Read_RoomsInfo Write_RoomsInfo enc_RoomsInfo dom_RoomsInfo
proof (unfold_locales, goal_cases)
  case (1 pkt)
  show ?case unfolding Write_RoomsInfo_def enc_RoomsInfo_def by (intro codec_intros)
next
  case (2 pkt)
  note dom = 2 [unfolded dom_RoomsInfo_def]
  show ?case unfolding Read_RoomsInfo_def enc_RoomsInfo_def by (rule reads_fields | simp add: dom)+
next
  case 3
  show ?case unfolding Read_RoomsInfo_def by (intro codec_intros)
qed

interpretation rooms: counted Read_RoomsInfo Write_RoomsInfo enc_RoomsInfo dom_RoomsInfo ..

lemmas [codec_intros] = rooms.writes rooms.safe

record S_ROOM_LIST =
  S_ROOM_LIST_rooms :: "RoomsInfo list"

definition Read_S_ROOM_LIST :: "S_ROOM_LIST rd" where
  "Read_S_ROOM_LIST =
     rd_bind (Read_counted Read_RoomsInfo) (\<lambda>rooms.
     rd_valid \<lparr>S_ROOM_LIST_rooms = rooms\<rparr>)"

definition fields_S_ROOM_LIST :: "S_ROOM_LIST \<Rightarrow> wr" where
  "fields_S_ROOM_LIST pkt = wr_seq
     [Write_counted Write_RoomsInfo (S_ROOM_LIST_rooms pkt)]"

definition enc_S_ROOM_LIST :: "S_ROOM_LIST \<Rightarrow> byte list" where
  "enc_S_ROOM_LIST pkt = concat
     [enc_counted enc_RoomsInfo (S_ROOM_LIST_rooms pkt)]"

definition dom_S_ROOM_LIST :: "S_ROOM_LIST \<Rightarrow> bool" where
  "dom_S_ROOM_LIST pkt \<longleftrightarrow> length (S_ROOM_LIST_rooms pkt) < 65536 \<and> (\<forall>x \<in> set (S_ROOM_LIST_rooms pkt). dom_RoomsInfo x)"

interpretation s_room_list: codec Read_S_ROOM_LIST fields_S_ROOM_LIST enc_S_ROOM_LIST dom_S_ROOM_LIST
proof (unfold_locales, goal_cases)
  case (1 pkt)
  show ?case unfolding fields_S_ROOM_LIST_def enc_S_ROOM_LIST_def by (intro codec_intros)
next
  case (2 pkt)
  note dom = 2 [unfolded dom_S_ROOM_LIST_def]
  show ?case unfolding Read_S_ROOM_LIST_def enc_S_ROOM_LIST_def by (rule reads_fields rooms.reads | simp add: dom)+
next
  case 3
  show ?case unfolding Read_S_ROOM_LIST_def by (intro codec_intros)
qed

record C_ENTER_ROOM =
  C_ENTER_ROOM_roomId :: "uint32"
  C_ENTER_ROOM_roomName :: "string"

definition Read_C_ENTER_ROOM :: "C_ENTER_ROOM rd" where
  "Read_C_ENTER_ROOM =
     rd_bind Read_int32 (\<lambda>roomId.
     rd_bind ReadString (\<lambda>roomName.
     rd_valid \<lparr>C_ENTER_ROOM_roomId = roomId, C_ENTER_ROOM_roomName = roomName\<rparr>))"

definition fields_C_ENTER_ROOM :: "C_ENTER_ROOM \<Rightarrow> wr" where
  "fields_C_ENTER_ROOM pkt = wr_seq
     [Write_int32 (C_ENTER_ROOM_roomId pkt),
      WriteString (C_ENTER_ROOM_roomName pkt)]"

definition enc_C_ENTER_ROOM :: "C_ENTER_ROOM \<Rightarrow> byte list" where
  "enc_C_ENTER_ROOM pkt = concat
     [enc_int32 (C_ENTER_ROOM_roomId pkt),
      enc_string (C_ENTER_ROOM_roomName pkt)]"

definition dom_C_ENTER_ROOM :: "C_ENTER_ROOM \<Rightarrow> bool" where
  "dom_C_ENTER_ROOM pkt \<longleftrightarrow> length (C_ENTER_ROOM_roomName pkt) < 65536"

interpretation c_enter_room: codec Read_C_ENTER_ROOM fields_C_ENTER_ROOM enc_C_ENTER_ROOM dom_C_ENTER_ROOM
proof (unfold_locales, goal_cases)
  case (1 pkt)
  show ?case unfolding fields_C_ENTER_ROOM_def enc_C_ENTER_ROOM_def by (intro codec_intros)
next
  case (2 pkt)
  note dom = 2 [unfolded dom_C_ENTER_ROOM_def]
  show ?case unfolding Read_C_ENTER_ROOM_def enc_C_ENTER_ROOM_def by (rule reads_fields | simp add: dom)+
next
  case 3
  show ?case unfolding Read_C_ENTER_ROOM_def by (intro codec_intros)
qed

record MembersInfo =
  MembersInfo_name :: "string"

definition Read_MembersInfo :: "MembersInfo rd" where
  "Read_MembersInfo =
     rd_bind ReadString (\<lambda>name.
     rd_return \<lparr>MembersInfo_name = name\<rparr>)"

definition Write_MembersInfo :: "MembersInfo \<Rightarrow> wr" where
  "Write_MembersInfo pkt = wr_seq
     [WriteString (MembersInfo_name pkt)]"

definition enc_MembersInfo :: "MembersInfo \<Rightarrow> byte list" where
  "enc_MembersInfo pkt = concat
     [enc_string (MembersInfo_name pkt)]"

definition dom_MembersInfo :: "MembersInfo \<Rightarrow> bool" where
  "dom_MembersInfo pkt \<longleftrightarrow> length (MembersInfo_name pkt) < 65536"

interpretation membersinfo: codec Read_MembersInfo Write_MembersInfo enc_MembersInfo dom_MembersInfo
proof (unfold_locales, goal_cases)
  case (1 pkt)
  show ?case unfolding Write_MembersInfo_def enc_MembersInfo_def by (intro codec_intros)
next
  case (2 pkt)
  note dom = 2 [unfolded dom_MembersInfo_def]
  show ?case unfolding Read_MembersInfo_def enc_MembersInfo_def by (rule reads_fields | simp add: dom)+
next
  case 3
  show ?case unfolding Read_MembersInfo_def by (intro codec_intros)
qed

interpretation members: counted Read_MembersInfo Write_MembersInfo enc_MembersInfo dom_MembersInfo ..

lemmas [codec_intros] = members.writes members.safe

record S_ENTER_ROOM =
  S_ENTER_ROOM_success :: "bool"
  S_ENTER_ROOM_roomId :: "uint32"
  S_ENTER_ROOM_roomName :: "string"
  S_ENTER_ROOM_members :: "MembersInfo list"

definition Read_S_ENTER_ROOM :: "S_ENTER_ROOM rd" where
  "Read_S_ENTER_ROOM =
     rd_bind Read_bool (\<lambda>success.
     rd_bind Read_int32 (\<lambda>roomId.
     rd_bind ReadString (\<lambda>roomName.
     rd_bind (Read_counted Read_MembersInfo) (\<lambda>members.
     rd_valid \<lparr>S_ENTER_ROOM_success = success, S_ENTER_ROOM_roomId = roomId, S_ENTER_ROOM_roomName = roomName, S_ENTER_ROOM_members = members\<rparr>))))"

definition fields_S_ENTER_ROOM :: "S_ENTER_ROOM \<Rightarrow> wr" where
  "fields_S_ENTER_ROOM pkt = wr_seq
     [Write_bool (S_ENTER_ROOM_success pkt),
      Write_int32 (S_ENTER_ROOM_roomId pkt),
      WriteString (S_ENTER_ROOM_roomName pkt),
      Write_counted Write_MembersInfo (S_ENTER_ROOM_members pkt)]"

definition enc_S_ENTER_ROOM :: "S_ENTER_ROOM \<Rightarrow> byte list" where
  "enc_S_ENTER_ROOM pkt = concat
     [enc_bool (S_ENTER_ROOM_success pkt),
      enc_int32 (S_ENTER_ROOM_roomId pkt),
      enc_string (S_ENTER_ROOM_roomName pkt),
      enc_counted enc_MembersInfo (S_ENTER_ROOM_members pkt)]"

definition dom_S_ENTER_ROOM :: "S_ENTER_ROOM \<Rightarrow> bool" where
  "dom_S_ENTER_ROOM pkt \<longleftrightarrow> length (S_ENTER_ROOM_roomName pkt) < 65536 \<and>
     length (S_ENTER_ROOM_members pkt) < 65536 \<and> (\<forall>x \<in> set (S_ENTER_ROOM_members pkt). dom_MembersInfo x)"

interpretation s_enter_room: codec Read_S_ENTER_ROOM fields_S_ENTER_ROOM enc_S_ENTER_ROOM dom_S_ENTER_ROOM
proof (unfold_locales, goal_cases)
  case (1 pkt)
  show ?case unfolding fields_S_ENTER_ROOM_def enc_S_ENTER_ROOM_def by (intro codec_intros)
next
  case (2 pkt)
  note dom = 2 [unfolded dom_S_ENTER_ROOM_def]
  show ?case unfolding Read_S_ENTER_ROOM_def enc_S_ENTER_ROOM_def by (rule reads_fields members.reads | simp add: dom)+
next
  case 3
  show ?case unfolding Read_S_ENTER_ROOM_def by (intro codec_intros)
qed

definition Read_C_LEAVE_ROOM :: "unit rd" where
  "Read_C_LEAVE_ROOM = rd_valid ()"

definition fields_C_LEAVE_ROOM :: "unit \<Rightarrow> wr" where
  "fields_C_LEAVE_ROOM pkt = wr_seq []"

definition enc_C_LEAVE_ROOM :: "unit \<Rightarrow> byte list" where
  "enc_C_LEAVE_ROOM pkt = concat []"

definition dom_C_LEAVE_ROOM :: "unit \<Rightarrow> bool" where
  "dom_C_LEAVE_ROOM pkt \<longleftrightarrow> True"

interpretation c_leave_room: codec Read_C_LEAVE_ROOM fields_C_LEAVE_ROOM enc_C_LEAVE_ROOM dom_C_LEAVE_ROOM
proof (unfold_locales, goal_cases)
  case (1 pkt)
  show ?case unfolding fields_C_LEAVE_ROOM_def enc_C_LEAVE_ROOM_def by (intro codec_intros)
next
  case (2 pkt)
  note dom = 2 [unfolded dom_C_LEAVE_ROOM_def]
  show ?case unfolding Read_C_LEAVE_ROOM_def enc_C_LEAVE_ROOM_def by (rule reads_fields | simp add: dom)+
next
  case 3
  show ?case unfolding Read_C_LEAVE_ROOM_def by (intro codec_intros)
qed

record S_LEAVE_ROOM =
  S_LEAVE_ROOM_success :: "bool"

definition Read_S_LEAVE_ROOM :: "S_LEAVE_ROOM rd" where
  "Read_S_LEAVE_ROOM =
     rd_bind Read_bool (\<lambda>success.
     rd_valid \<lparr>S_LEAVE_ROOM_success = success\<rparr>)"

definition fields_S_LEAVE_ROOM :: "S_LEAVE_ROOM \<Rightarrow> wr" where
  "fields_S_LEAVE_ROOM pkt = wr_seq
     [Write_bool (S_LEAVE_ROOM_success pkt)]"

definition enc_S_LEAVE_ROOM :: "S_LEAVE_ROOM \<Rightarrow> byte list" where
  "enc_S_LEAVE_ROOM pkt = concat
     [enc_bool (S_LEAVE_ROOM_success pkt)]"

definition dom_S_LEAVE_ROOM :: "S_LEAVE_ROOM \<Rightarrow> bool" where
  "dom_S_LEAVE_ROOM pkt \<longleftrightarrow> True"

interpretation s_leave_room: codec Read_S_LEAVE_ROOM fields_S_LEAVE_ROOM enc_S_LEAVE_ROOM dom_S_LEAVE_ROOM
proof (unfold_locales, goal_cases)
  case (1 pkt)
  show ?case unfolding fields_S_LEAVE_ROOM_def enc_S_LEAVE_ROOM_def by (intro codec_intros)
next
  case (2 pkt)
  note dom = 2 [unfolded dom_S_LEAVE_ROOM_def]
  show ?case unfolding Read_S_LEAVE_ROOM_def enc_S_LEAVE_ROOM_def by (rule reads_fields | simp add: dom)+
next
  case 3
  show ?case unfolding Read_S_LEAVE_ROOM_def by (intro codec_intros)
qed

record C_ROOM_CHAT =
  C_ROOM_CHAT_message :: "string"

definition Read_C_ROOM_CHAT :: "C_ROOM_CHAT rd" where
  "Read_C_ROOM_CHAT =
     rd_bind ReadString (\<lambda>message.
     rd_valid \<lparr>C_ROOM_CHAT_message = message\<rparr>)"

definition fields_C_ROOM_CHAT :: "C_ROOM_CHAT \<Rightarrow> wr" where
  "fields_C_ROOM_CHAT pkt = wr_seq
     [WriteString (C_ROOM_CHAT_message pkt)]"

definition enc_C_ROOM_CHAT :: "C_ROOM_CHAT \<Rightarrow> byte list" where
  "enc_C_ROOM_CHAT pkt = concat
     [enc_string (C_ROOM_CHAT_message pkt)]"

definition dom_C_ROOM_CHAT :: "C_ROOM_CHAT \<Rightarrow> bool" where
  "dom_C_ROOM_CHAT pkt \<longleftrightarrow> length (C_ROOM_CHAT_message pkt) < 65536"

interpretation c_room_chat: codec Read_C_ROOM_CHAT fields_C_ROOM_CHAT enc_C_ROOM_CHAT dom_C_ROOM_CHAT
proof (unfold_locales, goal_cases)
  case (1 pkt)
  show ?case unfolding fields_C_ROOM_CHAT_def enc_C_ROOM_CHAT_def by (intro codec_intros)
next
  case (2 pkt)
  note dom = 2 [unfolded dom_C_ROOM_CHAT_def]
  show ?case unfolding Read_C_ROOM_CHAT_def enc_C_ROOM_CHAT_def by (rule reads_fields | simp add: dom)+
next
  case 3
  show ?case unfolding Read_C_ROOM_CHAT_def by (intro codec_intros)
qed

record S_ROOM_CHAT =
  S_ROOM_CHAT_senderName :: "string"
  S_ROOM_CHAT_message :: "string"

definition Read_S_ROOM_CHAT :: "S_ROOM_CHAT rd" where
  "Read_S_ROOM_CHAT =
     rd_bind ReadString (\<lambda>senderName.
     rd_bind ReadString (\<lambda>message.
     rd_valid \<lparr>S_ROOM_CHAT_senderName = senderName, S_ROOM_CHAT_message = message\<rparr>))"

definition fields_S_ROOM_CHAT :: "S_ROOM_CHAT \<Rightarrow> wr" where
  "fields_S_ROOM_CHAT pkt = wr_seq
     [WriteString (S_ROOM_CHAT_senderName pkt),
      WriteString (S_ROOM_CHAT_message pkt)]"

definition enc_S_ROOM_CHAT :: "S_ROOM_CHAT \<Rightarrow> byte list" where
  "enc_S_ROOM_CHAT pkt = concat
     [enc_string (S_ROOM_CHAT_senderName pkt),
      enc_string (S_ROOM_CHAT_message pkt)]"

definition dom_S_ROOM_CHAT :: "S_ROOM_CHAT \<Rightarrow> bool" where
  "dom_S_ROOM_CHAT pkt \<longleftrightarrow> length (S_ROOM_CHAT_senderName pkt) < 65536 \<and>
     length (S_ROOM_CHAT_message pkt) < 65536"

interpretation s_room_chat: codec Read_S_ROOM_CHAT fields_S_ROOM_CHAT enc_S_ROOM_CHAT dom_S_ROOM_CHAT
proof (unfold_locales, goal_cases)
  case (1 pkt)
  show ?case unfolding fields_S_ROOM_CHAT_def enc_S_ROOM_CHAT_def by (intro codec_intros)
next
  case (2 pkt)
  note dom = 2 [unfolded dom_S_ROOM_CHAT_def]
  show ?case unfolding Read_S_ROOM_CHAT_def enc_S_ROOM_CHAT_def by (rule reads_fields | simp add: dom)+
next
  case 3
  show ?case unfolding Read_S_ROOM_CHAT_def by (intro codec_intros)
qed

record C_GLOBAL_CHAT =
  C_GLOBAL_CHAT_message :: "string"

definition Read_C_GLOBAL_CHAT :: "C_GLOBAL_CHAT rd" where
  "Read_C_GLOBAL_CHAT =
     rd_bind ReadString (\<lambda>message.
     rd_valid \<lparr>C_GLOBAL_CHAT_message = message\<rparr>)"

definition fields_C_GLOBAL_CHAT :: "C_GLOBAL_CHAT \<Rightarrow> wr" where
  "fields_C_GLOBAL_CHAT pkt = wr_seq
     [WriteString (C_GLOBAL_CHAT_message pkt)]"

definition enc_C_GLOBAL_CHAT :: "C_GLOBAL_CHAT \<Rightarrow> byte list" where
  "enc_C_GLOBAL_CHAT pkt = concat
     [enc_string (C_GLOBAL_CHAT_message pkt)]"

definition dom_C_GLOBAL_CHAT :: "C_GLOBAL_CHAT \<Rightarrow> bool" where
  "dom_C_GLOBAL_CHAT pkt \<longleftrightarrow> length (C_GLOBAL_CHAT_message pkt) < 65536"

interpretation c_global_chat: codec Read_C_GLOBAL_CHAT fields_C_GLOBAL_CHAT enc_C_GLOBAL_CHAT dom_C_GLOBAL_CHAT
proof (unfold_locales, goal_cases)
  case (1 pkt)
  show ?case unfolding fields_C_GLOBAL_CHAT_def enc_C_GLOBAL_CHAT_def by (intro codec_intros)
next
  case (2 pkt)
  note dom = 2 [unfolded dom_C_GLOBAL_CHAT_def]
  show ?case unfolding Read_C_GLOBAL_CHAT_def enc_C_GLOBAL_CHAT_def by (rule reads_fields | simp add: dom)+
next
  case 3
  show ?case unfolding Read_C_GLOBAL_CHAT_def by (intro codec_intros)
qed

record S_GLOBAL_CHAT =
  S_GLOBAL_CHAT_senderName :: "string"
  S_GLOBAL_CHAT_message :: "string"

definition Read_S_GLOBAL_CHAT :: "S_GLOBAL_CHAT rd" where
  "Read_S_GLOBAL_CHAT =
     rd_bind ReadString (\<lambda>senderName.
     rd_bind ReadString (\<lambda>message.
     rd_valid \<lparr>S_GLOBAL_CHAT_senderName = senderName, S_GLOBAL_CHAT_message = message\<rparr>))"

definition fields_S_GLOBAL_CHAT :: "S_GLOBAL_CHAT \<Rightarrow> wr" where
  "fields_S_GLOBAL_CHAT pkt = wr_seq
     [WriteString (S_GLOBAL_CHAT_senderName pkt),
      WriteString (S_GLOBAL_CHAT_message pkt)]"

definition enc_S_GLOBAL_CHAT :: "S_GLOBAL_CHAT \<Rightarrow> byte list" where
  "enc_S_GLOBAL_CHAT pkt = concat
     [enc_string (S_GLOBAL_CHAT_senderName pkt),
      enc_string (S_GLOBAL_CHAT_message pkt)]"

definition dom_S_GLOBAL_CHAT :: "S_GLOBAL_CHAT \<Rightarrow> bool" where
  "dom_S_GLOBAL_CHAT pkt \<longleftrightarrow> length (S_GLOBAL_CHAT_senderName pkt) < 65536 \<and>
     length (S_GLOBAL_CHAT_message pkt) < 65536"

interpretation s_global_chat: codec Read_S_GLOBAL_CHAT fields_S_GLOBAL_CHAT enc_S_GLOBAL_CHAT dom_S_GLOBAL_CHAT
proof (unfold_locales, goal_cases)
  case (1 pkt)
  show ?case unfolding fields_S_GLOBAL_CHAT_def enc_S_GLOBAL_CHAT_def by (intro codec_intros)
next
  case (2 pkt)
  note dom = 2 [unfolded dom_S_GLOBAL_CHAT_def]
  show ?case unfolding Read_S_GLOBAL_CHAT_def enc_S_GLOBAL_CHAT_def by (rule reads_fields | simp add: dom)+
next
  case 3
  show ?case unfolding Read_S_GLOBAL_CHAT_def by (intro codec_intros)
qed

record S_NOTICE =
  S_NOTICE_message :: "string"

definition Read_S_NOTICE :: "S_NOTICE rd" where
  "Read_S_NOTICE =
     rd_bind ReadString (\<lambda>message.
     rd_valid \<lparr>S_NOTICE_message = message\<rparr>)"

definition fields_S_NOTICE :: "S_NOTICE \<Rightarrow> wr" where
  "fields_S_NOTICE pkt = wr_seq
     [WriteString (S_NOTICE_message pkt)]"

definition enc_S_NOTICE :: "S_NOTICE \<Rightarrow> byte list" where
  "enc_S_NOTICE pkt = concat
     [enc_string (S_NOTICE_message pkt)]"

definition dom_S_NOTICE :: "S_NOTICE \<Rightarrow> bool" where
  "dom_S_NOTICE pkt \<longleftrightarrow> length (S_NOTICE_message pkt) < 65536"

interpretation s_notice: codec Read_S_NOTICE fields_S_NOTICE enc_S_NOTICE dom_S_NOTICE
proof (unfold_locales, goal_cases)
  case (1 pkt)
  show ?case unfolding fields_S_NOTICE_def enc_S_NOTICE_def by (intro codec_intros)
next
  case (2 pkt)
  note dom = 2 [unfolded dom_S_NOTICE_def]
  show ?case unfolding Read_S_NOTICE_def enc_S_NOTICE_def by (rule reads_fields | simp add: dom)+
next
  case 3
  show ?case unfolding Read_S_NOTICE_def by (intro codec_intros)
qed

section \<open>Packet ids, the header\<close>

datatype PacketId =
    PKT_C_LOGIN
  | PKT_S_LOGIN
  | PKT_C_HEARTBEAT
  | PKT_S_HEARTBEAT
  | PKT_C_ROOM_LIST
  | PKT_S_ROOM_LIST
  | PKT_C_ENTER_ROOM
  | PKT_S_ENTER_ROOM
  | PKT_C_LEAVE_ROOM
  | PKT_S_LEAVE_ROOM
  | PKT_C_ROOM_CHAT
  | PKT_S_ROOM_CHAT
  | PKT_C_GLOBAL_CHAT
  | PKT_S_GLOBAL_CHAT
  | PKT_S_NOTICE

fun PacketId_value :: "PacketId \<Rightarrow> uint16" where
  "PacketId_value PKT_C_LOGIN = 1001"
| "PacketId_value PKT_S_LOGIN = 1002"
| "PacketId_value PKT_C_HEARTBEAT = 1003"
| "PacketId_value PKT_S_HEARTBEAT = 1004"
| "PacketId_value PKT_C_ROOM_LIST = 1005"
| "PacketId_value PKT_S_ROOM_LIST = 1006"
| "PacketId_value PKT_C_ENTER_ROOM = 1007"
| "PacketId_value PKT_S_ENTER_ROOM = 1008"
| "PacketId_value PKT_C_LEAVE_ROOM = 1009"
| "PacketId_value PKT_S_LEAVE_ROOM = 1010"
| "PacketId_value PKT_C_ROOM_CHAT = 1011"
| "PacketId_value PKT_S_ROOM_CHAT = 1012"
| "PacketId_value PKT_C_GLOBAL_CHAT = 1013"
| "PacketId_value PKT_S_GLOBAL_CHAT = 1014"
| "PacketId_value PKT_S_NOTICE = 1015"

record PacketHeader =
  header_size :: uint16
  header_id :: uint16

text \<open>\<open>#pragma pack(1)\<close>: the two members one after the other.\<close>

definition enc_PacketHeader :: "PacketHeader \<Rightarrow> byte list" where
  "enc_PacketHeader h = enc_uint16 (header_size h) @ enc_uint16 (header_id h)"

definition dec_PacketHeader :: "byte list \<Rightarrow> PacketHeader" where
  "dec_PacketHeader d = \<lparr>header_size = of_nat (le_nat (take 2 d)),
                         header_id = of_nat (le_nat (take 2 (drop 2 d)))\<rparr>"

definition Read_PacketHeader :: "PacketHeader rd" where
  "Read_PacketHeader = rd_bind (Read_bytes 4) (\<lambda>d. rd_return (dec_PacketHeader d))"

definition Write_PacketHeader :: "PacketHeader \<Rightarrow> wr" where
  "Write_PacketHeader h = Write_bytes (enc_PacketHeader h)"

lemma length_enc_PacketHeader [simp]: "length (enc_PacketHeader h) = 4"
  by (simp add: enc_PacketHeader_def)

lemma dec_enc_PacketHeader [simp]: "dec_PacketHeader (enc_PacketHeader h @ rest) = h"
  by (cases h) (simp add: dec_PacketHeader_def enc_PacketHeader_def enc_uint16_def)

interpretation header: codec Read_PacketHeader Write_PacketHeader enc_PacketHeader "\<lambda>_. True"
proof (unfold_locales, goal_cases)
  case (1 h)
  show ?case by (simp add: Write_PacketHeader_def writes_bytes)
next
  case (2 h)
  show ?case
    using reads_bytes_bind [of "enc_PacketHeader h" 4 dec_PacketHeader]
      dec_enc_PacketHeader [of h "[]"]
    by (simp add: Read_PacketHeader_def del: dec_enc_PacketHeader)
next
  case 3
  show ?case unfolding Read_PacketHeader_def by (intro codec_intros)
qed

section \<open>Packets\<close>

text \<open>Any packet, and what its struct contributes to its serialiser.\<close>

datatype packet =
    Pkt_C_LOGIN C_LOGIN
  | Pkt_S_LOGIN S_LOGIN
  | Pkt_C_HEARTBEAT C_HEARTBEAT
  | Pkt_S_HEARTBEAT S_HEARTBEAT
  | Pkt_C_ROOM_LIST unit
  | Pkt_S_ROOM_LIST S_ROOM_LIST
  | Pkt_C_ENTER_ROOM C_ENTER_ROOM
  | Pkt_S_ENTER_ROOM S_ENTER_ROOM
  | Pkt_C_LEAVE_ROOM unit
  | Pkt_S_LEAVE_ROOM S_LEAVE_ROOM
  | Pkt_C_ROOM_CHAT C_ROOM_CHAT
  | Pkt_S_ROOM_CHAT S_ROOM_CHAT
  | Pkt_C_GLOBAL_CHAT C_GLOBAL_CHAT
  | Pkt_S_GLOBAL_CHAT S_GLOBAL_CHAT
  | Pkt_S_NOTICE S_NOTICE

fun packet_id :: "packet \<Rightarrow> PacketId" where
  "packet_id (Pkt_C_LOGIN _) = PKT_C_LOGIN"
| "packet_id (Pkt_S_LOGIN _) = PKT_S_LOGIN"
| "packet_id (Pkt_C_HEARTBEAT _) = PKT_C_HEARTBEAT"
| "packet_id (Pkt_S_HEARTBEAT _) = PKT_S_HEARTBEAT"
| "packet_id (Pkt_C_ROOM_LIST _) = PKT_C_ROOM_LIST"
| "packet_id (Pkt_S_ROOM_LIST _) = PKT_S_ROOM_LIST"
| "packet_id (Pkt_C_ENTER_ROOM _) = PKT_C_ENTER_ROOM"
| "packet_id (Pkt_S_ENTER_ROOM _) = PKT_S_ENTER_ROOM"
| "packet_id (Pkt_C_LEAVE_ROOM _) = PKT_C_LEAVE_ROOM"
| "packet_id (Pkt_S_LEAVE_ROOM _) = PKT_S_LEAVE_ROOM"
| "packet_id (Pkt_C_ROOM_CHAT _) = PKT_C_ROOM_CHAT"
| "packet_id (Pkt_S_ROOM_CHAT _) = PKT_S_ROOM_CHAT"
| "packet_id (Pkt_C_GLOBAL_CHAT _) = PKT_C_GLOBAL_CHAT"
| "packet_id (Pkt_S_GLOBAL_CHAT _) = PKT_S_GLOBAL_CHAT"
| "packet_id (Pkt_S_NOTICE _) = PKT_S_NOTICE"

fun packet_fields :: "packet \<Rightarrow> wr" where
  "packet_fields (Pkt_C_LOGIN pkt) = fields_C_LOGIN pkt"
| "packet_fields (Pkt_S_LOGIN pkt) = fields_S_LOGIN pkt"
| "packet_fields (Pkt_C_HEARTBEAT pkt) = fields_C_HEARTBEAT pkt"
| "packet_fields (Pkt_S_HEARTBEAT pkt) = fields_S_HEARTBEAT pkt"
| "packet_fields (Pkt_C_ROOM_LIST pkt) = fields_C_ROOM_LIST pkt"
| "packet_fields (Pkt_S_ROOM_LIST pkt) = fields_S_ROOM_LIST pkt"
| "packet_fields (Pkt_C_ENTER_ROOM pkt) = fields_C_ENTER_ROOM pkt"
| "packet_fields (Pkt_S_ENTER_ROOM pkt) = fields_S_ENTER_ROOM pkt"
| "packet_fields (Pkt_C_LEAVE_ROOM pkt) = fields_C_LEAVE_ROOM pkt"
| "packet_fields (Pkt_S_LEAVE_ROOM pkt) = fields_S_LEAVE_ROOM pkt"
| "packet_fields (Pkt_C_ROOM_CHAT pkt) = fields_C_ROOM_CHAT pkt"
| "packet_fields (Pkt_S_ROOM_CHAT pkt) = fields_S_ROOM_CHAT pkt"
| "packet_fields (Pkt_C_GLOBAL_CHAT pkt) = fields_C_GLOBAL_CHAT pkt"
| "packet_fields (Pkt_S_GLOBAL_CHAT pkt) = fields_S_GLOBAL_CHAT pkt"
| "packet_fields (Pkt_S_NOTICE pkt) = fields_S_NOTICE pkt"

fun enc_packet :: "packet \<Rightarrow> byte list" where
  "enc_packet (Pkt_C_LOGIN pkt) = enc_C_LOGIN pkt"
| "enc_packet (Pkt_S_LOGIN pkt) = enc_S_LOGIN pkt"
| "enc_packet (Pkt_C_HEARTBEAT pkt) = enc_C_HEARTBEAT pkt"
| "enc_packet (Pkt_S_HEARTBEAT pkt) = enc_S_HEARTBEAT pkt"
| "enc_packet (Pkt_C_ROOM_LIST pkt) = enc_C_ROOM_LIST pkt"
| "enc_packet (Pkt_S_ROOM_LIST pkt) = enc_S_ROOM_LIST pkt"
| "enc_packet (Pkt_C_ENTER_ROOM pkt) = enc_C_ENTER_ROOM pkt"
| "enc_packet (Pkt_S_ENTER_ROOM pkt) = enc_S_ENTER_ROOM pkt"
| "enc_packet (Pkt_C_LEAVE_ROOM pkt) = enc_C_LEAVE_ROOM pkt"
| "enc_packet (Pkt_S_LEAVE_ROOM pkt) = enc_S_LEAVE_ROOM pkt"
| "enc_packet (Pkt_C_ROOM_CHAT pkt) = enc_C_ROOM_CHAT pkt"
| "enc_packet (Pkt_S_ROOM_CHAT pkt) = enc_S_ROOM_CHAT pkt"
| "enc_packet (Pkt_C_GLOBAL_CHAT pkt) = enc_C_GLOBAL_CHAT pkt"
| "enc_packet (Pkt_S_GLOBAL_CHAT pkt) = enc_S_GLOBAL_CHAT pkt"
| "enc_packet (Pkt_S_NOTICE pkt) = enc_S_NOTICE pkt"

fun dom_packet :: "packet \<Rightarrow> bool" where
  "dom_packet (Pkt_C_LOGIN pkt) = dom_C_LOGIN pkt"
| "dom_packet (Pkt_S_LOGIN pkt) = dom_S_LOGIN pkt"
| "dom_packet (Pkt_C_HEARTBEAT pkt) = dom_C_HEARTBEAT pkt"
| "dom_packet (Pkt_S_HEARTBEAT pkt) = dom_S_HEARTBEAT pkt"
| "dom_packet (Pkt_C_ROOM_LIST pkt) = dom_C_ROOM_LIST pkt"
| "dom_packet (Pkt_S_ROOM_LIST pkt) = dom_S_ROOM_LIST pkt"
| "dom_packet (Pkt_C_ENTER_ROOM pkt) = dom_C_ENTER_ROOM pkt"
| "dom_packet (Pkt_S_ENTER_ROOM pkt) = dom_S_ENTER_ROOM pkt"
| "dom_packet (Pkt_C_LEAVE_ROOM pkt) = dom_C_LEAVE_ROOM pkt"
| "dom_packet (Pkt_S_LEAVE_ROOM pkt) = dom_S_LEAVE_ROOM pkt"
| "dom_packet (Pkt_C_ROOM_CHAT pkt) = dom_C_ROOM_CHAT pkt"
| "dom_packet (Pkt_S_ROOM_CHAT pkt) = dom_S_ROOM_CHAT pkt"
| "dom_packet (Pkt_C_GLOBAL_CHAT pkt) = dom_C_GLOBAL_CHAT pkt"
| "dom_packet (Pkt_S_GLOBAL_CHAT pkt) = dom_S_GLOBAL_CHAT pkt"
| "dom_packet (Pkt_S_NOTICE pkt) = dom_S_NOTICE pkt"

text \<open>The bytes of a packet on the wire.\<close>

definition packet_size :: "packet \<Rightarrow> nat" where
  "packet_size p = 4 + length (enc_packet p)"

definition packet_bytes :: "packet \<Rightarrow> byte list" where
  "packet_bytes p = enc_PacketHeader
     \<lparr>header_size = of_nat (packet_size p), header_id = PacketId_value (packet_id p)\<rparr> @ enc_packet p"

lemma length_packet_bytes [simp]: "length (packet_bytes p) = packet_size p"
  by (simp add: packet_bytes_def packet_size_def)

lemma writes_packet_fields: "writes (packet_fields p) (enc_packet p)"
  by (cases p) (simp_all add: c_login.writes s_login.writes c_heartbeat.writes s_heartbeat.writes c_room_list.writes s_room_list.writes c_enter_room.writes s_enter_room.writes c_leave_room.writes s_leave_room.writes c_room_chat.writes s_room_chat.writes c_global_chat.writes s_global_chat.writes s_notice.writes)

lemma PacketId_value_inj: "PacketId_value a = PacketId_value b \<longleftrightarrow> a = b"
  by (cases a; cases b) simp_all

section \<open>MakeSendBuffer\<close>

definition MakeSendBuffer ::
    "nat \<Rightarrow> PacketId \<Rightarrow> wr \<Rightarrow> sb_state \<Rightarrow> (send_buffer option \<times> sb_state) res" where
  "MakeSendBuffer t pid body s =
     res_bind (SendBufferManager_Open t 4096 s) (\<lambda>(sendBuffer, s1).
     case sendBuffer of None \<Rightarrow> Crash NullDeref
     | Some sb \<Rightarrow>
       let writer = BufferWriter_new (sb_block s1 sb) (sb_allocSize sb);
           header = \<lparr>header_size = 0, header_id = PacketId_value pid\<rparr> in
       res_bind (Write_PacketHeader header writer) (\<lambda>(_, writer).
       res_bind (body writer) (\<lambda>(ok, writer).
       if \<not> ok then Ok (None, sb_store sb (bw_buffer writer) s1)
       else
         let header = header\<lparr>header_size := of_int (bw_pos writer)\<rparr> in
         res_bind (mem_write (bw_buffer writer) 0 (enc_PacketHeader header)) (\<lambda>block.
         res_bind (SendBufferManager_Close sb (uint (header_size header)) (sb_store sb block s1))
           (\<lambda>(sb, s2). Ok (Some sb, s2))))))"

definition MakeSendBuffer_C_LOGIN ::
    "nat \<Rightarrow> C_LOGIN \<Rightarrow> sb_state \<Rightarrow> (send_buffer option \<times> sb_state) res" where
  "MakeSendBuffer_C_LOGIN t pkt = MakeSendBuffer t PKT_C_LOGIN (fields_C_LOGIN pkt)"

definition MakeSendBuffer_S_LOGIN ::
    "nat \<Rightarrow> S_LOGIN \<Rightarrow> sb_state \<Rightarrow> (send_buffer option \<times> sb_state) res" where
  "MakeSendBuffer_S_LOGIN t pkt = MakeSendBuffer t PKT_S_LOGIN (fields_S_LOGIN pkt)"

definition MakeSendBuffer_C_HEARTBEAT ::
    "nat \<Rightarrow> C_HEARTBEAT \<Rightarrow> sb_state \<Rightarrow> (send_buffer option \<times> sb_state) res" where
  "MakeSendBuffer_C_HEARTBEAT t pkt = MakeSendBuffer t PKT_C_HEARTBEAT (fields_C_HEARTBEAT pkt)"

definition MakeSendBuffer_S_HEARTBEAT ::
    "nat \<Rightarrow> S_HEARTBEAT \<Rightarrow> sb_state \<Rightarrow> (send_buffer option \<times> sb_state) res" where
  "MakeSendBuffer_S_HEARTBEAT t pkt = MakeSendBuffer t PKT_S_HEARTBEAT (fields_S_HEARTBEAT pkt)"

definition MakeSendBuffer_C_ROOM_LIST ::
    "nat \<Rightarrow> unit \<Rightarrow> sb_state \<Rightarrow> (send_buffer option \<times> sb_state) res" where
  "MakeSendBuffer_C_ROOM_LIST t pkt = MakeSendBuffer t PKT_C_ROOM_LIST (fields_C_ROOM_LIST pkt)"

definition MakeSendBuffer_S_ROOM_LIST ::
    "nat \<Rightarrow> S_ROOM_LIST \<Rightarrow> sb_state \<Rightarrow> (send_buffer option \<times> sb_state) res" where
  "MakeSendBuffer_S_ROOM_LIST t pkt = MakeSendBuffer t PKT_S_ROOM_LIST (fields_S_ROOM_LIST pkt)"

definition MakeSendBuffer_C_ENTER_ROOM ::
    "nat \<Rightarrow> C_ENTER_ROOM \<Rightarrow> sb_state \<Rightarrow> (send_buffer option \<times> sb_state) res" where
  "MakeSendBuffer_C_ENTER_ROOM t pkt = MakeSendBuffer t PKT_C_ENTER_ROOM (fields_C_ENTER_ROOM pkt)"

definition MakeSendBuffer_S_ENTER_ROOM ::
    "nat \<Rightarrow> S_ENTER_ROOM \<Rightarrow> sb_state \<Rightarrow> (send_buffer option \<times> sb_state) res" where
  "MakeSendBuffer_S_ENTER_ROOM t pkt = MakeSendBuffer t PKT_S_ENTER_ROOM (fields_S_ENTER_ROOM pkt)"

definition MakeSendBuffer_C_LEAVE_ROOM ::
    "nat \<Rightarrow> unit \<Rightarrow> sb_state \<Rightarrow> (send_buffer option \<times> sb_state) res" where
  "MakeSendBuffer_C_LEAVE_ROOM t pkt = MakeSendBuffer t PKT_C_LEAVE_ROOM (fields_C_LEAVE_ROOM pkt)"

definition MakeSendBuffer_S_LEAVE_ROOM ::
    "nat \<Rightarrow> S_LEAVE_ROOM \<Rightarrow> sb_state \<Rightarrow> (send_buffer option \<times> sb_state) res" where
  "MakeSendBuffer_S_LEAVE_ROOM t pkt = MakeSendBuffer t PKT_S_LEAVE_ROOM (fields_S_LEAVE_ROOM pkt)"

definition MakeSendBuffer_C_ROOM_CHAT ::
    "nat \<Rightarrow> C_ROOM_CHAT \<Rightarrow> sb_state \<Rightarrow> (send_buffer option \<times> sb_state) res" where
  "MakeSendBuffer_C_ROOM_CHAT t pkt = MakeSendBuffer t PKT_C_ROOM_CHAT (fields_C_ROOM_CHAT pkt)"

definition MakeSendBuffer_S_ROOM_CHAT ::
    "nat \<Rightarrow> S_ROOM_CHAT \<Rightarrow> sb_state \<Rightarrow> (send_buffer option \<times> sb_state) res" where
  "MakeSendBuffer_S_ROOM_CHAT t pkt = MakeSendBuffer t PKT_S_ROOM_CHAT (fields_S_ROOM_CHAT pkt)"

definition MakeSendBuffer_C_GLOBAL_CHAT ::
    "nat \<Rightarrow> C_GLOBAL_CHAT \<Rightarrow> sb_state \<Rightarrow> (send_buffer option \<times> sb_state) res" where
  "MakeSendBuffer_C_GLOBAL_CHAT t pkt = MakeSendBuffer t PKT_C_GLOBAL_CHAT (fields_C_GLOBAL_CHAT pkt)"

definition MakeSendBuffer_S_GLOBAL_CHAT ::
    "nat \<Rightarrow> S_GLOBAL_CHAT \<Rightarrow> sb_state \<Rightarrow> (send_buffer option \<times> sb_state) res" where
  "MakeSendBuffer_S_GLOBAL_CHAT t pkt = MakeSendBuffer t PKT_S_GLOBAL_CHAT (fields_S_GLOBAL_CHAT pkt)"

definition MakeSendBuffer_S_NOTICE ::
    "nat \<Rightarrow> S_NOTICE \<Rightarrow> sb_state \<Rightarrow> (send_buffer option \<times> sb_state) res" where
  "MakeSendBuffer_S_NOTICE t pkt = MakeSendBuffer t PKT_S_NOTICE (fields_S_NOTICE pkt)"

fun MakeSendBuffer_packet ::
    "nat \<Rightarrow> packet \<Rightarrow> sb_state \<Rightarrow> (send_buffer option \<times> sb_state) res" where
  "MakeSendBuffer_packet t (Pkt_C_LOGIN pkt) = MakeSendBuffer_C_LOGIN t pkt"
| "MakeSendBuffer_packet t (Pkt_S_LOGIN pkt) = MakeSendBuffer_S_LOGIN t pkt"
| "MakeSendBuffer_packet t (Pkt_C_HEARTBEAT pkt) = MakeSendBuffer_C_HEARTBEAT t pkt"
| "MakeSendBuffer_packet t (Pkt_S_HEARTBEAT pkt) = MakeSendBuffer_S_HEARTBEAT t pkt"
| "MakeSendBuffer_packet t (Pkt_C_ROOM_LIST pkt) = MakeSendBuffer_C_ROOM_LIST t pkt"
| "MakeSendBuffer_packet t (Pkt_S_ROOM_LIST pkt) = MakeSendBuffer_S_ROOM_LIST t pkt"
| "MakeSendBuffer_packet t (Pkt_C_ENTER_ROOM pkt) = MakeSendBuffer_C_ENTER_ROOM t pkt"
| "MakeSendBuffer_packet t (Pkt_S_ENTER_ROOM pkt) = MakeSendBuffer_S_ENTER_ROOM t pkt"
| "MakeSendBuffer_packet t (Pkt_C_LEAVE_ROOM pkt) = MakeSendBuffer_C_LEAVE_ROOM t pkt"
| "MakeSendBuffer_packet t (Pkt_S_LEAVE_ROOM pkt) = MakeSendBuffer_S_LEAVE_ROOM t pkt"
| "MakeSendBuffer_packet t (Pkt_C_ROOM_CHAT pkt) = MakeSendBuffer_C_ROOM_CHAT t pkt"
| "MakeSendBuffer_packet t (Pkt_S_ROOM_CHAT pkt) = MakeSendBuffer_S_ROOM_CHAT t pkt"
| "MakeSendBuffer_packet t (Pkt_C_GLOBAL_CHAT pkt) = MakeSendBuffer_C_GLOBAL_CHAT t pkt"
| "MakeSendBuffer_packet t (Pkt_S_GLOBAL_CHAT pkt) = MakeSendBuffer_S_GLOBAL_CHAT t pkt"
| "MakeSendBuffer_packet t (Pkt_S_NOTICE pkt) = MakeSendBuffer_S_NOTICE t pkt"

lemma MakeSendBuffer_packet_eq:
  "MakeSendBuffer_packet t p = MakeSendBuffer t (packet_id p) (packet_fields p)"
  by (cases p) (simp_all add: MakeSendBuffer_C_LOGIN_def MakeSendBuffer_S_LOGIN_def MakeSendBuffer_C_HEARTBEAT_def MakeSendBuffer_S_HEARTBEAT_def MakeSendBuffer_C_ROOM_LIST_def MakeSendBuffer_S_ROOM_LIST_def MakeSendBuffer_C_ENTER_ROOM_def MakeSendBuffer_S_ENTER_ROOM_def MakeSendBuffer_C_LEAVE_ROOM_def MakeSendBuffer_S_LEAVE_ROOM_def MakeSendBuffer_C_ROOM_CHAT_def MakeSendBuffer_S_ROOM_CHAT_def MakeSendBuffer_C_GLOBAL_CHAT_def MakeSendBuffer_S_GLOBAL_CHAT_def MakeSendBuffer_S_NOTICE_def)

text \<open>A thread that may serialise: its chunk is not open.\<close>

definition sb_idle :: "sb_state \<Rightarrow> nat \<Rightarrow> bool" where
  "sb_idle s t \<longleftrightarrow> (\<forall>c. LSendBufferChunk s t = Some c \<longrightarrow> \<not> ck_open (sb_chunks s c))"

end
