(* ===== verification/PacketHandler.thy ===== *)
theory PacketHandler
  imports PacketProtocol
begin

text \<open>
  What \<open>MakeSendBuffer\<close> produces, and the two dispatchers that parse it,
  \<^verbatim>\<open>Common/Protocol/ServerPacketHandler.h\<close> and \<^verbatim>\<open>ClientPacketHandler.h\<close>. The handlers
  \<open>Handle_\<dots>\<close> are a parameter here: a function of the packet and of a state of the caller's
  choice.
\<close>

section \<open>MakeSendBuffer\<close>

lemma uint_of_nat16: "n < 65536 \<Longrightarrow> uint (of_nat n :: uint16) = int n"
  using uint_nat [of "of_nat n :: uint16"] by (simp add: unat_of_nat)

lemma MakeSendBuffer_opened:
  assumes inv: "sb_inv s" and idle: "sb_idle s t" and w: "writes body bs"
  obtains sb s1 where "SendBufferManager_Open t 4096 s = Ok (Some sb, s1)" "sb_inv s1"
    "sb_held s1 t sb" "sb_allocSize sb = 4096" "sb_frame t s s1"
    "bw_inv (BufferWriter_new (sb_block s1 sb) 4096)" "length (sb_block s1 sb) = 4096"
proof -
  have n: "(0::int) < 4096" "4096 \<le> int CHUNK_SIZE" by (simp_all add: CHUNK_SIZE_def)
  obtain sb s1 where o: "SendBufferManager_Open t 4096 s = Ok (Some sb, s1)" "sb_inv s1"
    "sb_held s1 t sb" "sb_allocSize sb = 4096" "sb_frame t s s1"
    using SendBufferManager_Open_ok [OF inv n] idle unfolding sb_idle_def by metis
  moreover have "length (sb_block s1 sb) = 4096"
    using sb_block_length [OF o(2,3)] o(4) by simp
  ultimately show thesis
    using that by (simp add: bw_inv_def BufferWriter_new_def)
qed

text \<open>After the header has been written the members have 4092 bytes.\<close>

lemma bw_start:
  fixes h :: PacketHeader
  assumes "bw_inv (BufferWriter_new b 4096)"
  shows "Write_PacketHeader h (BufferWriter_new b 4096) =
      Ok (True, bw_put (enc_PacketHeader h) (BufferWriter_new b 4096))"
    and "bw_inv (bw_put (enc_PacketHeader h) (BufferWriter_new b 4096))"
    and "bw_FreeSize (bw_put (enc_PacketHeader h) (BufferWriter_new b 4096)) = 4092"
    and "bw_size (bw_put (enc_PacketHeader h) (BufferWriter_new b 4096)) = 4096"
    and "length (bw_buffer (bw_put (enc_PacketHeader h) (BufferWriter_new b 4096))) = length b"
proof -
  have f: "int (length (enc_PacketHeader h)) \<le> bw_FreeSize (BufferWriter_new b 4096)"
    by (simp add: bw_FreeSize_def BufferWriter_new_def)
  show "Write_PacketHeader h (BufferWriter_new b 4096) =
      Ok (True, bw_put (enc_PacketHeader h) (BufferWriter_new b 4096))"
    using header.writes assms f by (rule writes_fits)
  show "bw_inv (bw_put (enc_PacketHeader h) (BufferWriter_new b 4096))"
    using assms f by (rule bw_inv_put)
  show "bw_FreeSize (bw_put (enc_PacketHeader h) (BufferWriter_new b 4096)) = 4092"
    "bw_size (bw_put (enc_PacketHeader h) (BufferWriter_new b 4096)) = 4096"
    "length (bw_buffer (bw_put (enc_PacketHeader h) (BufferWriter_new b 4096))) = length b"
    using bw_put_simps [OF assms f] by (simp_all add: bw_FreeSize_def BufferWriter_new_def)
qed

lemma MakeSendBuffer_ok:
  assumes inv: "sb_inv s" and idle: "sb_idle s t" and w: "writes body bs"
    and fits: "4 + length bs \<le> 4096"
  obtains sb s' where "MakeSendBuffer t pid body s = Ok (Some sb, s')" "sb_inv s'" "sb_idle s' t"
    "sb_frame t s s'" "sb_closed s' sb" "sb_bytes s' sb = enc_PacketHeader
       \<lparr>header_size = of_nat (4 + length bs), header_id = PacketId_value pid\<rparr> @ bs"
proof -
  obtain sb s1 where o: "SendBufferManager_Open t 4096 s = Ok (Some sb, s1)" "sb_inv s1"
    "sb_held s1 t sb" "sb_allocSize sb = 4096" "sb_frame t s s1"
    "bw_inv (BufferWriter_new (sb_block s1 sb) 4096)" "length (sb_block s1 sb) = 4096"
    by (rule MakeSendBuffer_opened [OF inv idle w])
  define b where "b = sb_block s1 sb"
  let ?hz = "\<lparr>header_size = 0, header_id = PacketId_value pid\<rparr>"
  let ?n = "4 + length bs"
  let ?h = "\<lparr>header_size = of_nat ?n, header_id = PacketId_value pid\<rparr>"
  define w1 where "w1 = bw_put (enc_PacketHeader ?hz) (BufferWriter_new b 4096)"
  note st = bw_start [OF o(6) [folded b_def], of ?hz, folded w1_def]
  have f: "int (length bs) \<le> bw_FreeSize w1" using st(3) fits by simp
  define w2 where "w2 = bw_put bs w1"
  have w2: "body w1 = Ok (True, w2)" using writes_fits [OF w st(2) f] by (simp add: w2_def)
  have f0: "int (length (enc_PacketHeader ?hz)) \<le> bw_FreeSize (BufferWriter_new b 4096)"
    by (simp add: bw_FreeSize_def BufferWriter_new_def)
  have "bw_pos w1 = 4" by (simp add: w1_def bw_put_def BufferWriter_new_def)
  then have pos: "bw_pos w2 = int ?n" by (simp add: w2_def bw_put_def)
  have "bw_written (BufferWriter_new b 4096) = []"
    by (simp add: bw_written_def BufferWriter_new_def)
  then have "bw_written w1 = enc_PacketHeader ?hz"
    using bw_put_simps(4) [OF o(6) [folded b_def] f0] by (simp only: w1_def append_Nil)
  then have wr: "bw_written w2 = enc_PacketHeader ?hz @ bs"
    using bw_put_simps(4) [OF st(2) f] by (simp only: w2_def)
  have len: "length (bw_buffer w2) = 4096"
    using bw_put_simps(3) [OF st(2) f] st(5) o(7) by (simp only: w2_def b_def)
  define blk where "blk = patch (bw_buffer w2) 0 (enc_PacketHeader ?h)"
  have blk: "mem_write (bw_buffer w2) 0 (enc_PacketHeader ?h) = Ok blk"
    using len by (simp add: mem_write_patch blk_def)
  have blen: "length blk = nat (sb_allocSize sb)" using len o(4) by (simp add: blk_def)
  have "drop 4 (take ?n (bw_buffer w2)) = bs"
    using wr pos by (simp add: bw_written_def nat_add_distrib)
  then have btake: "take ?n blk = enc_PacketHeader ?h @ bs"
    by (simp add: blk_def patch_def take_drop add.commute)
  note s = sb_store_ok [OF o(2,3) blen]
  have u: "uint (of_nat ?n :: uint16) = int ?n"
    by (rule uint_of_nat16) (use fits in simp)
  have n: "(0::int) \<le> int ?n" "int ?n \<le> sb_allocSize sb" using fits o(4) by simp_all
  obtain s2 where c: "SendBufferManager_Close sb (int ?n) (sb_store sb blk s1) =
      Ok (sb\<lparr>sb_writeSize := int ?n\<rparr>, s2)" "sb_inv s2" "sb_frame t (sb_store sb blk s1) s2"
    "sb_closed s2 (sb\<lparr>sb_writeSize := int ?n\<rparr>)"
    "sb_bytes s2 (sb\<lparr>sb_writeSize := int ?n\<rparr>) = take (nat (int ?n)) blk"
    "LSendBufferChunk s2 = LSendBufferChunk (sb_store sb blk s1)" "\<not> ck_open (sb_chunks s2 (sb_owner sb))"
    using SendBufferManager_Close_ok [OF s(1,2) n] unfolding s(4) by blast
  have "MakeSendBuffer t pid body s = Ok (Some (sb\<lparr>sb_writeSize := int ?n\<rparr>), s2)"
    using o(1,4) st(1) w2 blk c(1) u
    by (simp add: MakeSendBuffer_def b_def [symmetric] pos)
  moreover have "sb_frame t s s2"
    using sb_frame_trans [OF sb_frame_trans [OF o(5) s(3)] c(3)] .
  moreover have "sb_idle s2 t"
    using c(6,7) s(2) by (simp add: sb_idle_def sb_held_def)
  ultimately show thesis
    using that c btake by (simp only: nat_int)
qed

lemma MakeSendBuffer_full:
  assumes inv: "sb_inv s" and idle: "sb_idle s t" and w: "writes body bs"
    and full: "\<not> 4 + length bs \<le> 4096"
  obtains s' where "MakeSendBuffer t pid body s = Ok (None, s')" "sb_inv s'" "\<not> sb_idle s' t"
    "sb_frame t s s'"
proof -
  obtain sb s1 where o: "SendBufferManager_Open t 4096 s = Ok (Some sb, s1)" "sb_inv s1"
    "sb_held s1 t sb" "sb_allocSize sb = 4096" "sb_frame t s s1"
    "bw_inv (BufferWriter_new (sb_block s1 sb) 4096)" "length (sb_block s1 sb) = 4096"
    by (rule MakeSendBuffer_opened [OF inv idle w])
  let ?hz = "\<lparr>header_size = 0, header_id = PacketId_value pid\<rparr>"
  note st = bw_start [OF o(6), of ?hz]
  have f: "\<not> int (length bs) \<le>
      bw_FreeSize (bw_put (enc_PacketHeader ?hz) (BufferWriter_new (sb_block s1 sb) 4096))"
    using st(3) full by simp
  obtain w2 where w2: "body (bw_put (enc_PacketHeader ?hz) (BufferWriter_new (sb_block s1 sb) 4096)) =
      Ok (False, w2)" "length (bw_buffer w2) = nat (sb_allocSize sb)"
    using writes_full [OF w st(2) f] st(5) o(4,7) by (metis nat_numeral)
  note s = sb_store_ok [OF o(2,3) w2(2)]
  have "MakeSendBuffer t pid body s = Ok (None, sb_store sb (bw_buffer w2) s1)"
    using o(1,4) st(1) w2(1) by (simp add: MakeSendBuffer_def)
  moreover have "\<not> sb_idle (sb_store sb (bw_buffer w2) s1) t"
    using s(2) by (simp add: sb_idle_def sb_held_def)
  ultimately show thesis
    using that s(1) sb_frame_trans [OF o(5) s(3)] by blast
qed

lemma MakeSendBuffer_busy:
  "\<not> sb_idle s t \<Longrightarrow> MakeSendBuffer t pid body s = Crash AssertCrash"
  by (auto simp: sb_idle_def MakeSendBuffer_def SendBufferManager_Open_busy)

section \<open>The dispatchers\<close>

text \<open>One \<open>case\<close> of the switch: parse, return \<open>false\<close> if that fails, else call the handler.\<close>

definition dispatch ::
    "'p rd \<Rightarrow> ('p \<Rightarrow> 's \<Rightarrow> (bool \<times> 's) res) \<Rightarrow> buffer_reader \<Rightarrow> 's \<Rightarrow> (bool \<times> 's) res" where
  "dispatch rd handle reader s = res_bind (rd reader) (\<lambda>(pkt, _).
     case pkt of None \<Rightarrow> Ok (False, s) | Some p \<Rightarrow> handle p s)"

definition ServerPacketHandler_HandlePacket ::
    "(packet \<Rightarrow> 's \<Rightarrow> (bool \<times> 's) res) \<Rightarrow> byte list \<Rightarrow> int32 \<Rightarrow> 's \<Rightarrow> (bool \<times> 's) res" where
  "ServerPacketHandler_HandlePacket handle buffer len s =
     (let reader = BufferReader_new buffer len in
      res_bind (Read_PacketHeader reader) (\<lambda>(header, reader).
      case header of None \<Rightarrow> Ok (False, s)
      | Some header \<Rightarrow>
        let id = header_id header in
        if id = PacketId_value PKT_C_LOGIN then dispatch Read_C_LOGIN (\<lambda>pkt. handle (Pkt_C_LOGIN pkt)) reader s else
        if id = PacketId_value PKT_C_HEARTBEAT then dispatch Read_C_HEARTBEAT (\<lambda>pkt. handle (Pkt_C_HEARTBEAT pkt)) reader s else
        if id = PacketId_value PKT_C_ROOM_LIST then dispatch Read_C_ROOM_LIST (\<lambda>pkt. handle (Pkt_C_ROOM_LIST pkt)) reader s else
        if id = PacketId_value PKT_C_ENTER_ROOM then dispatch Read_C_ENTER_ROOM (\<lambda>pkt. handle (Pkt_C_ENTER_ROOM pkt)) reader s else
        if id = PacketId_value PKT_C_LEAVE_ROOM then dispatch Read_C_LEAVE_ROOM (\<lambda>pkt. handle (Pkt_C_LEAVE_ROOM pkt)) reader s else
        if id = PacketId_value PKT_C_ROOM_CHAT then dispatch Read_C_ROOM_CHAT (\<lambda>pkt. handle (Pkt_C_ROOM_CHAT pkt)) reader s else
        if id = PacketId_value PKT_C_GLOBAL_CHAT then dispatch Read_C_GLOBAL_CHAT (\<lambda>pkt. handle (Pkt_C_GLOBAL_CHAT pkt)) reader s else
        Ok (False, s)))"

definition ClientPacketHandler_HandlePacket ::
    "(packet \<Rightarrow> 's \<Rightarrow> (bool \<times> 's) res) \<Rightarrow> byte list \<Rightarrow> int32 \<Rightarrow> 's \<Rightarrow> (bool \<times> 's) res" where
  "ClientPacketHandler_HandlePacket handle buffer len s =
     (let reader = BufferReader_new buffer len in
      res_bind (Read_PacketHeader reader) (\<lambda>(header, reader).
      case header of None \<Rightarrow> Ok (False, s)
      | Some header \<Rightarrow>
        let id = header_id header in
        if id = PacketId_value PKT_S_LOGIN then dispatch Read_S_LOGIN (\<lambda>pkt. handle (Pkt_S_LOGIN pkt)) reader s else
        if id = PacketId_value PKT_S_HEARTBEAT then dispatch Read_S_HEARTBEAT (\<lambda>pkt. handle (Pkt_S_HEARTBEAT pkt)) reader s else
        if id = PacketId_value PKT_S_ROOM_LIST then dispatch Read_S_ROOM_LIST (\<lambda>pkt. handle (Pkt_S_ROOM_LIST pkt)) reader s else
        if id = PacketId_value PKT_S_ENTER_ROOM then dispatch Read_S_ENTER_ROOM (\<lambda>pkt. handle (Pkt_S_ENTER_ROOM pkt)) reader s else
        if id = PacketId_value PKT_S_LEAVE_ROOM then dispatch Read_S_LEAVE_ROOM (\<lambda>pkt. handle (Pkt_S_LEAVE_ROOM pkt)) reader s else
        if id = PacketId_value PKT_S_ROOM_CHAT then dispatch Read_S_ROOM_CHAT (\<lambda>pkt. handle (Pkt_S_ROOM_CHAT pkt)) reader s else
        if id = PacketId_value PKT_S_GLOBAL_CHAT then dispatch Read_S_GLOBAL_CHAT (\<lambda>pkt. handle (Pkt_S_GLOBAL_CHAT pkt)) reader s else
        if id = PacketId_value PKT_S_NOTICE then dispatch Read_S_NOTICE (\<lambda>pkt. handle (Pkt_S_NOTICE pkt)) reader s else
        Ok (False, s)))"

text \<open>Which packets the server, and which the client, has a case for.\<close>

fun to_server :: "packet \<Rightarrow> bool" where
  "to_server (Pkt_C_LOGIN _) = True"
| "to_server (Pkt_C_HEARTBEAT _) = True"
| "to_server (Pkt_C_ROOM_LIST _) = True"
| "to_server (Pkt_C_ENTER_ROOM _) = True"
| "to_server (Pkt_C_LEAVE_ROOM _) = True"
| "to_server (Pkt_C_ROOM_CHAT _) = True"
| "to_server (Pkt_C_GLOBAL_CHAT _) = True"
| "to_server _ = False"

section \<open>What the dispatchers do\<close>

lemma dispatch_total:
  assumes "rd_safe rd" "br_inv r" "\<And>p. returns (handle p s)"
  shows "returns (dispatch rd handle r s)"
proof -
  obtain x r' where "rd r = Ok (x, r')" using assms(1,2) unfolding rd_safe_def by blast
  then show ?thesis using assms(3) by (cases x) (simp_all add: dispatch_def)
qed

lemma dispatch_read:
  "rd r = Ok (Some p, r') \<Longrightarrow> dispatch rd handle r s = handle p s"
  by (simp add: dispatch_def)

text \<open>A reader over \<open>len\<close> bytes of a buffer that has as many.\<close>

lemma br_new:
  assumes "0 \<le> len" "len \<le> int (length b)" "len \<le> 2147483647"
  shows "br_inv (BufferReader_new b len)" "br_isValid (BufferReader_new b len)"
    and "br_rest (BufferReader_new b len) = take (nat len) b"
  using assms by (auto simp: br_inv_def BufferReader_new_def br_rest_def br_FreeSize_def)

lemma Read_PacketHeader_cases:
  assumes "br_inv r"
  obtains r' where "Read_PacketHeader r = Ok (None, r')"
  | h r' where "Read_PacketHeader r = Ok (Some h, r')" "br_inv r'"
  using header.safe assms unfolding rd_safe_def by (metis not_None_eq)

lemma server_dispatch_total:
  assumes "0 \<le> len" "len \<le> int (length b)" "len \<le> 2147483647" "\<And>p. returns (handle p s)"
  shows "returns (ServerPacketHandler_HandlePacket handle b len s)"
proof (rule Read_PacketHeader_cases [OF br_new(1) [OF assms(1-3)]])
  fix h r' assume "Read_PacketHeader (BufferReader_new b len) = Ok (Some h, r')" "br_inv r'"
  moreover note total = dispatch_total [where r = r' and s = s]
  ultimately show ?thesis
    using assms(4)
      total [OF c_login.safe] total [OF c_heartbeat.safe] total [OF c_room_list.safe] total [OF c_enter_room.safe] total [OF c_leave_room.safe] total [OF c_room_chat.safe] total [OF c_global_chat.safe]
    by (simp add: ServerPacketHandler_HandlePacket_def Let_def del: PacketId_value.simps)
qed (simp add: ServerPacketHandler_HandlePacket_def)

lemma client_dispatch_total:
  assumes "0 \<le> len" "len \<le> int (length b)" "len \<le> 2147483647" "\<And>p. returns (handle p s)"
  shows "returns (ClientPacketHandler_HandlePacket handle b len s)"
proof (rule Read_PacketHeader_cases [OF br_new(1) [OF assms(1-3)]])
  fix h r' assume "Read_PacketHeader (BufferReader_new b len) = Ok (Some h, r')" "br_inv r'"
  moreover note total = dispatch_total [where r = r' and s = s]
  ultimately show ?thesis
    using assms(4)
      total [OF s_login.safe] total [OF s_heartbeat.safe] total [OF s_room_list.safe] total [OF s_enter_room.safe] total [OF s_leave_room.safe] total [OF s_room_chat.safe] total [OF s_global_chat.safe] total [OF s_notice.safe]
    by (simp add: ClientPacketHandler_HandlePacket_def Let_def del: PacketId_value.simps)
qed (simp add: ClientPacketHandler_HandlePacket_def)

text \<open>The reader after the header of a packet's bytes.\<close>

lemma read_packet_bytes:
  assumes "take (packet_size p) b = packet_bytes p" "packet_size p \<le> 65535"
  obtains r where
    "Read_PacketHeader (BufferReader_new b (int (packet_size p))) = Ok (Some
       \<lparr>header_size = of_nat (packet_size p), header_id = PacketId_value (packet_id p)\<rparr>, r)"
    "br_inv r" "br_isValid r" "br_rest r = enc_packet p @ []"
proof -
  let ?b = "BufferReader_new b (int (packet_size p))"
  let ?hd = "\<lparr>header_size = of_nat (packet_size p), header_id = PacketId_value (packet_id p)\<rparr>"
  have "packet_size p \<le> length b"
    using assms(1) by (metis length_packet_bytes length_take min.cobounded1)
  then have n: "0 \<le> int (packet_size p)" "int (packet_size p) \<le> int (length b)"
    "int (packet_size p) \<le> 2147483647"
    using assms(2) by simp_all
  note r = br_new [OF n]
  have rest: "br_rest ?b = enc_PacketHeader ?hd @ enc_packet p"
    using r(3) assms(1) by (simp add: packet_bytes_def)
  have 1: "Read_PacketHeader ?b = Ok (Some ?hd, br_adv (length (enc_PacketHeader ?hd)) ?b)"
    by (rule header.read_back [OF TrueI r(1,2) rest])
  have "br_inv (br_adv (length (enc_PacketHeader ?hd)) ?b)"
    using r(1) rest by (intro br_inv_adv) simp_all
  moreover have "br_rest (br_adv (length (enc_PacketHeader ?hd)) ?b) = enc_packet p @ []"
    using br_rest_adv [OF r(1)] rest by simp
  ultimately show thesis using that 1 r(2) by simp
qed

lemma server_dispatch_read:
  assumes "take (packet_size p) b = packet_bytes p" "packet_size p \<le> 65535" "dom_packet p"
    "to_server p"
  shows "ServerPacketHandler_HandlePacket handle b (int (packet_size p)) s = handle p s"
proof (rule read_packet_bytes [OF assms(1,2)])
  fix r assume h: "Read_PacketHeader (BufferReader_new b (int (packet_size p))) = Ok (Some
       \<lparr>header_size = of_nat (packet_size p), header_id = PacketId_value (packet_id p)\<rparr>, r)"
    and r: "br_inv r" "br_isValid r" "br_rest r = enc_packet p @ []"
  show ?thesis
    using assms(3,4) h r
    by (cases p) (auto simp: ServerPacketHandler_HandlePacket_def
      intro!: dispatch_read [OF c_login.read_back] dispatch_read [OF c_heartbeat.read_back] dispatch_read [OF c_room_list.read_back] dispatch_read [OF c_enter_room.read_back] dispatch_read [OF c_leave_room.read_back] dispatch_read [OF c_room_chat.read_back] dispatch_read [OF c_global_chat.read_back])
qed

lemma client_dispatch_read:
  assumes "take (packet_size p) b = packet_bytes p" "packet_size p \<le> 65535" "dom_packet p"
    "\<not> to_server p"
  shows "ClientPacketHandler_HandlePacket handle b (int (packet_size p)) s = handle p s"
proof (rule read_packet_bytes [OF assms(1,2)])
  fix r assume h: "Read_PacketHeader (BufferReader_new b (int (packet_size p))) = Ok (Some
       \<lparr>header_size = of_nat (packet_size p), header_id = PacketId_value (packet_id p)\<rparr>, r)"
    and r: "br_inv r" "br_isValid r" "br_rest r = enc_packet p @ []"
  show ?thesis
    using assms(3,4) h r
    by (cases p) (auto simp: ClientPacketHandler_HandlePacket_def
      intro!: dispatch_read [OF s_login.read_back] dispatch_read [OF s_heartbeat.read_back] dispatch_read [OF s_room_list.read_back] dispatch_read [OF s_enter_room.read_back] dispatch_read [OF s_leave_room.read_back] dispatch_read [OF s_room_chat.read_back] dispatch_read [OF s_global_chat.read_back] dispatch_read [OF s_notice.read_back])
qed

section \<open>Properties\<close>

lemma enc_string_mod: "enc_string (take (length m mod 65536) m) = enc_string m"
proof -
  define n where "n = length m mod 65536"
  have n: "n \<le> length m" "n < 65536" by (simp_all add: n_def)
  then have len: "length (take n m) = n" by simp
  have u: "unat (of_nat (length m) :: uint16) = n" by (simp only: unat_length16 n_def)
  have u': "unat (of_nat n :: uint16) = n" using n(2) by (simp add: unat_of_nat)
  with u have eq: "(of_nat n :: uint16) = of_nat (length m)" by (simp only: word_unat_eq_iff)
  have "enc_string (take n m) =
      enc_uint16 (of_nat n) @ map byte_of_char (take (unat (of_nat n :: uint16)) (take n m))"
    by (simp only: enc_string_def Let_def len)
  also have "\<dots> = enc_uint16 (of_nat (length m)) @ map byte_of_char (take n m)"
    by (simp only: u' take_take min.idem) (simp only: eq)
  also have "\<dots> = enc_string m" by (simp only: enc_string_def Let_def u)
  finally show ?thesis by (simp only: n_def)
qed

lemma MakeSendBuffer_packet_ok:
  assumes "sb_inv s" "sb_idle s t" "packet_size p \<le> 4096"
  obtains sb s' where "MakeSendBuffer_packet t p s = Ok (Some sb, s')" "sb_inv s'" "sb_idle s' t"
    "sb_frame t s s'" "sb_closed s' sb" "sb_bytes s' sb = packet_bytes p"
  using MakeSendBuffer_ok [OF assms(1,2) writes_packet_fields, of p "packet_id p"] assms(3)
  unfolding packet_size_def packet_bytes_def MakeSendBuffer_packet_eq by blast

lemma sb_idle_start: "sb_idle sb_start t"
  by (simp add: sb_idle_def sb_start_def)

text \<open>
  C7: Every packet survives the trip. For each of the fifteen structs: if its encoding fits the
  4096 bytes and its strings and counts fit 16 bits, \<open>MakeSendBuffer\<close> returns a buffer, leaves the
  thread ready for the next one, and the peer's \<open>HandlePacket\<close> on the bytes of this buffer calls
  exactly the handler of that struct, with exactly its members.
\<close>

theorem packet_roundtrip:
  fixes handle :: "packet \<Rightarrow> 's \<Rightarrow> (bool \<times> 's) res"
  assumes "sb_inv s" "sb_idle s t" "dom_packet p" "packet_size p \<le> 4096"
  shows "\<exists>sb s'. MakeSendBuffer_packet t p s = Ok (Some sb, s') \<and> sb_inv s' \<and> sb_idle s' t \<and>
    (let b = sb_bytes s' sb in
       int (length b) = sb_writeSize sb \<and>
       (if to_server p then ServerPacketHandler_HandlePacket handle b (int (length b)) w = handle p w
        else ClientPacketHandler_HandlePacket handle b (int (length b)) w = handle p w))"
proof -
  obtain sb s' where m: "MakeSendBuffer_packet t p s = Ok (Some sb, s')" "sb_inv s'" "sb_idle s' t"
    "sb_closed s' sb" "sb_bytes s' sb = packet_bytes p"
    by (rule MakeSendBuffer_packet_ok [OF assms(1,2,4)])
  have size: "packet_size p \<le> 65535" and t: "take (packet_size p) (packet_bytes p) = packet_bytes p"
    using assms(4) by simp_all
  have "int (length (sb_bytes s' sb)) = sb_writeSize sb"
    by (rule length_sb_bytes [OF m(2,4)])
  then show ?thesis
    using m server_dispatch_read [OF t size assms(3)] client_dispatch_read [OF t size assms(3)]
    by (auto simp: Let_def)
qed

theorem packet_roundtrip_witness:
  "\<exists>sb s'. MakeSendBuffer_packet 1 (Pkt_S_ROOM_CHAT \<lparr>S_ROOM_CHAT_senderName = ''bob'',
      S_ROOM_CHAT_message = ''hi''\<rparr>) sb_start = Ok (Some sb, s') \<and>
    ClientPacketHandler_HandlePacket (\<lambda>p seen. Ok (True, seen @ [p])) (sb_bytes s' sb)
      (int (length (sb_bytes s' sb))) [] =
    Ok (True, [Pkt_S_ROOM_CHAT \<lparr>S_ROOM_CHAT_senderName = ''bob'', S_ROOM_CHAT_message = ''hi''\<rparr>])"
proof -
  let ?p = "Pkt_S_ROOM_CHAT \<lparr>S_ROOM_CHAT_senderName = ''bob'', S_ROOM_CHAT_message = ''hi''\<rparr>"
  have "dom_packet ?p" "packet_size ?p \<le> 4096"
    by (simp_all add: dom_S_ROOM_CHAT_def packet_size_def enc_S_ROOM_CHAT_def length_enc_string)
  from packet_roundtrip [OF sb_inv_start sb_idle_start this, of 1 "\<lambda>p seen. Ok (True, seen @ [p])" "[]"]
  show ?thesis by (auto simp: Let_def)
qed

text \<open>
  C15: Parsing is safe. Whatever bytes arrive, neither dispatcher reads outside the \<open>len\<close> bytes it
  was given, whatever lengths and counts these bytes claim, and none of their assertions fails;
  only a handler may.
\<close>

theorem handle_packet_safe:
  assumes "0 \<le> len" "len \<le> int (length b)" "len \<le> 2147483647" "\<And>p. returns (handle p s)"
  shows "returns (ServerPacketHandler_HandlePacket handle b len s) \<and>
         returns (ClientPacketHandler_HandlePacket handle b len s)"
  using server_dispatch_total [OF assms(1-3), where handle = handle and s = s]
    client_dispatch_total [OF assms(1-3), where handle = handle and s = s] assms(4) by simp

theorem handle_packet_safe_witness:
  "returns (ServerPacketHandler_HandlePacket (\<lambda>p n. Ok (True, Suc n)) [9, 0, 233, 3, 255, 255, 1] 7 0) \<and>
   returns (ClientPacketHandler_HandlePacket (\<lambda>p n. Ok (True, Suc n)) [9, 0, 233, 3, 255, 255, 1] 7 0)"
  by (rule handle_packet_safe) simp_all

text \<open>
  A packet that does not fit takes the thread down. \<open>MakeSendBuffer\<close> returns \<open>nullptr\<close> for it
  without closing the chunk it opened, and the next \<open>MakeSendBuffer\<close> of that thread, for whatever
  packet, fails the assertion \<open>IsOpen() == false\<close>.
\<close>

theorem oversized_packet_crashes_next:
  assumes "sb_inv s" "sb_idle s t" "packet_size p > 4096"
  shows "\<exists>s'. MakeSendBuffer_packet t p s = Ok (None, s') \<and>
    (\<forall>q. MakeSendBuffer_packet t q s' = Crash AssertCrash)"
proof -
  have "\<not> 4 + length (enc_packet p) \<le> 4096" using assms(3) by (simp add: packet_size_def)
  from MakeSendBuffer_full [OF assms(1,2) writes_packet_fields this, of "packet_id p"]
  show ?thesis unfolding MakeSendBuffer_packet_eq by (metis MakeSendBuffer_busy)
qed

theorem oversized_packet_crashes_next_witness:
  "\<exists>s'. MakeSendBuffer_packet 0 (Pkt_S_GLOBAL_CHAT \<lparr>S_GLOBAL_CHAT_senderName = ''bob'',
      S_GLOBAL_CHAT_message = replicate 4090 CHR ''x''\<rparr>) sb_start = Ok (None, s') \<and>
    MakeSendBuffer_packet 0 (Pkt_S_HEARTBEAT \<lparr>S_HEARTBEAT_serverTick = 1\<rparr>) s' = Crash AssertCrash"
proof -
  let ?p = "Pkt_S_GLOBAL_CHAT \<lparr>S_GLOBAL_CHAT_senderName = ''bob'',
      S_GLOBAL_CHAT_message = replicate 4090 CHR ''x''\<rparr>"
  have "packet_size ?p > 4096"
    by (simp add: packet_size_def enc_S_GLOBAL_CHAT_def length_enc_string)
  from oversized_packet_crashes_next [OF sb_inv_start sb_idle_start this, of 0]
  show ?thesis by blast
qed

text \<open>
  Long strings are truncated without an error. \<open>WriteString\<close> narrows the length to 16 bits: of
  a notice of 65536 bytes or more only the length modulo 65536 is sent, as a well-formed packet
  that the peer accepts.
\<close>

theorem long_string_truncated:
  assumes "sb_inv s" "sb_idle s t" "65536 \<le> length m" "length m mod 65536 \<le> 4090"
  shows "\<exists>sb s'. MakeSendBuffer_packet t (Pkt_S_NOTICE \<lparr>S_NOTICE_message = m\<rparr>) s = Ok (Some sb, s') \<and>
    ClientPacketHandler_HandlePacket handle (sb_bytes s' sb) (int (length (sb_bytes s' sb))) w =
    handle (Pkt_S_NOTICE \<lparr>S_NOTICE_message = take (length m mod 65536) m\<rparr>) w"
proof -
  let ?p = "Pkt_S_NOTICE \<lparr>S_NOTICE_message = m\<rparr>"
  let ?q = "Pkt_S_NOTICE \<lparr>S_NOTICE_message = take (length m mod 65536) m\<rparr>"
  note eq_str = enc_string_mod [of m]
  have eq: "packet_bytes ?p = packet_bytes ?q" "packet_size ?p = packet_size ?q"
    using eq_str by (simp_all add: packet_bytes_def packet_size_def enc_S_NOTICE_def)
  have size: "packet_size ?q \<le> 4096" and dom: "dom_packet ?q"
    using assms(3,4) by (simp_all add: packet_size_def enc_S_NOTICE_def length_enc_string dom_S_NOTICE_def min_def)
  obtain sb s' where m: "MakeSendBuffer_packet t ?p s = Ok (Some sb, s')"
    "sb_bytes s' sb = packet_bytes ?p"
    using MakeSendBuffer_packet_ok [OF assms(1,2), of ?p] size eq by metis
  have "take (packet_size ?q) (packet_bytes ?q) = packet_bytes ?q" "packet_size ?q \<le> 65535"
    using size by simp_all
  from client_dispatch_read [OF this dom, of handle w] m eq show ?thesis by auto
qed

theorem long_string_truncated_witness:
  "\<exists>sb s'. MakeSendBuffer_packet 0 (Pkt_S_NOTICE \<lparr>S_NOTICE_message = replicate 65537 CHR ''a''\<rparr>)
      sb_start = Ok (Some sb, s') \<and>
    ClientPacketHandler_HandlePacket (\<lambda>p seen. Ok (True, seen @ [p])) (sb_bytes s' sb)
      (int (length (sb_bytes s' sb))) [] =
    Ok (True, [Pkt_S_NOTICE \<lparr>S_NOTICE_message = ''a''\<rparr>])"
proof -
  have n: "65536 \<le> length (replicate 65537 CHR ''a'')"
    "length (replicate 65537 CHR ''a'') mod 65536 = 1"
    "length (replicate 65537 CHR ''a'') mod 65536 \<le> 4090"
    by (simp_all)
  have "take 1 (replicate 65537 CHR ''a'') = ''a''"
    by (simp only: take_replicate) simp
  with long_string_truncated [OF sb_inv_start sb_idle_start n(1,3),
      of 0 "\<lambda>p seen. Ok (True, seen @ [p])" "[]"]
  show ?thesis unfolding n(2) by simp
qed

end
