(* ===== verification/PacketSession.thy ===== *)
theory PacketSession
  imports PacketHandler
begin

text \<open>
  \<^verbatim>\<open>ServerEngine/Network/PacketSession.h\<close> and \<^verbatim>\<open>PacketSession.cpp\<close>: \<open>OnRecv\<close> cuts the bytes
  received so far into packets. \<open>OnRecvPacket\<close> is virtual: here it is a parameter, a function of
  the bytes it is pointed to, of their number and of a state.

  \<open>frames\<close> is the specification: the packets that lie complete in a stream of bytes, and what is
  left over; it does not depend on how the stream is cut into receives.
\<close>

section \<open>OnRecv\<close>

function OnRecv_loop ::
    "(byte list \<Rightarrow> int32 \<Rightarrow> 's \<Rightarrow> 's res) \<Rightarrow> byte list \<Rightarrow> int32 \<Rightarrow> int32 \<Rightarrow> 's \<Rightarrow> (int32 \<times> 's) res" where
  "OnRecv_loop onRecvPacket buffer len processedLen s =
     (let dataSize = len - processedLen in
      if to_size_t dataSize < 4 then Ok (processedLen, s)
      else res_bind (mem_read buffer processedLen 4) (\<lambda>d.
        let header = dec_PacketHeader d in
        if header_size header < 4 then Ok (- 1, s)
        else if dataSize < uint (header_size header) then Ok (processedLen, s)
        else res_bind (onRecvPacket
            (take (unat (header_size header)) (drop (nat processedLen) buffer))
            (uint (header_size header)) s)
          (\<lambda>s'. OnRecv_loop onRecvPacket buffer len (processedLen + uint (header_size header)) s')))"
  by pat_completeness auto
termination
proof (relation "measure (\<lambda>(f, b, len, k, s). nat (len - k))", goal_cases)
  case 1
  then show ?case by simp
next
  case (2 f buffer len k s n d h s')
  have "4 \<le> uint (header_size h)" using 2 by (simp add: word_less_def)
  then show ?case using 2 by simp
qed

declare OnRecv_loop.simps [simp del]

definition OnRecv ::
    "(byte list \<Rightarrow> int32 \<Rightarrow> 's \<Rightarrow> 's res) \<Rightarrow> byte list \<Rightarrow> int32 \<Rightarrow> 's \<Rightarrow> (int32 \<times> 's) res" where
  "OnRecv onRecvPacket buffer len s = OnRecv_loop onRecvPacket buffer len 0 s"

section \<open>The frames of a stream\<close>

text \<open>\<open>frame_size b\<close>: the size in the header, if there is one.\<close>

definition frame_size :: "byte list \<Rightarrow> nat" where
  "frame_size b = unat (header_size (dec_PacketHeader (take 4 b)))"

text \<open>\<open>None\<close>: a header whose size is below its own size has been met.\<close>

function frames :: "byte list \<Rightarrow> byte list list \<times> byte list option" where
  "frames b =
     (if length b < 4 then ([], Some b)
      else if frame_size b < 4 then ([], None)
      else if length b < frame_size b then ([], Some b)
      else let (fs, rest) = frames (drop (frame_size b) b) in (take (frame_size b) b # fs, rest))"
  by pat_completeness auto
termination by (relation "measure length") auto

declare frames.simps [simp del]

lemma frames_short: "length b < 4 \<Longrightarrow> frames b = ([], Some b)"
  by (simp add: frames.simps)

lemma frame_size_append: "4 \<le> length b \<Longrightarrow> frame_size (b @ c) = frame_size b"
  by (simp add: frame_size_def)

text \<open>More bytes only add frames, and what is left over is all that matters of the past.\<close>

lemma frames_append:
  "frames (a @ b) = (case frames a of (fs, None) \<Rightarrow> (fs, None)
     | (fs, Some rest) \<Rightarrow> (let (gs, rest') = frames (rest @ b) in (fs @ gs, rest')))"
proof (induction a rule: frames.induct)
  case (1 a)
  show ?case
  proof (cases "length a < 4 \<or> frame_size a < 4 \<or> length a < frame_size a")
    case True
    then show ?thesis
      by (auto simp: frames.simps [of a] frame_size_append frames.simps [of "a @ b"]
          split: prod.splits)
  next
    case False
    then have "frames (a @ b) = (let (fs, rest) = frames (drop (frame_size a) a @ b)
        in (take (frame_size a) a # fs, rest))"
      by (simp add: frames.simps [of "a @ b"] frame_size_append)
    with False 1 show ?thesis
      by (auto simp: frames.simps [of a] split: prod.splits option.splits)
  qed
qed

lemma frames_rest: "frames a = (fs, Some rest) \<Longrightarrow> concat fs @ rest = a \<and> frames rest = ([], Some rest)"
proof (induction a arbitrary: fs rule: frames.induct)
  case (1 a)
  show ?case
  proof (cases "length a < 4 \<or> frame_size a < 4 \<or> length a < frame_size a")
    case True
    then have "frames a = ([], None) \<or> frames a = ([], Some a)" by (auto simp: frames.simps [of a])
    then show ?thesis using 1(2) by auto
  next
    case False
    then obtain gs where "frames (drop (frame_size a) a) = (gs, Some rest)"
      "fs = take (frame_size a) a # gs"
      using 1(2) by (auto simp: frames.simps [of a] split: prod.splits)
    with 1(1) False show ?thesis by (metis append_Cons append_assoc append_take_drop_id concat.simps(2) not_le)
  qed
qed

section \<open>OnRecv delivers the frames\<close>

fun feed :: "(byte list \<Rightarrow> int32 \<Rightarrow> 's \<Rightarrow> 's res) \<Rightarrow> byte list list \<Rightarrow> 's \<Rightarrow> 's res" where
  "feed f [] s = Ok s"
| "feed f (b # bs) s = res_bind (f b (int (length b)) s) (feed f bs)"

lemma feed_append: "feed f (as @ bs) s = res_bind (feed f as s) (feed f bs)"
proof (induction as arbitrary: s)
  case (Cons a as)
  then show ?case by (cases "f a (int (length a)) s") simp_all
qed simp

text \<open>The cases of one turn of the loop, on natural offsets.\<close>

lemma OnRecv_loop_step:
  assumes "k \<le> length b" "length b \<le> 2147483647"
  defines "r \<equiv> drop k b"
  shows "OnRecv_loop f b (int (length b)) (int k) s =
    (if length r < 4 then Ok (int k, s)
     else if frame_size r < 4 then Ok (- 1, s)
     else if length r < frame_size r then Ok (int k, s)
     else res_bind (f (take (frame_size r) r) (int (frame_size r)) s)
            (OnRecv_loop f b (int (length b)) (int (k + frame_size r))))"
proof -
  have size: "to_size_t (int (length b) - int k) = int (length r)"
    using assms by (simp add: to_size_t_id of_nat_diff)
  have rd: "mem_read b (int k) 4 = Ok (take 4 r)" if "\<not> length r < 4"
    using that assms(1) by (simp add: mem_read_def r_def)
  have hs: "header_size (dec_PacketHeader (take 4 r)) < 4 \<longleftrightarrow> frame_size r < 4"
    "uint (header_size (dec_PacketHeader (take 4 r))) = int (frame_size r)"
    "unat (header_size (dec_PacketHeader (take 4 r))) = frame_size r"
    by (simp_all add: frame_size_def word_less_nat_alt)
  have len: "int (length b) - int k < int (frame_size r) \<longleftrightarrow> length r < frame_size r"
    using assms(1) by (auto simp: r_def)
  show ?thesis
    using rd by (subst OnRecv_loop.simps)
      (simp add: Let_def size hs len r_def [symmetric])
qed

lemma OnRecv_loop_frames:
  assumes "k \<le> length b" "length b \<le> 2147483647"
  shows "OnRecv_loop f b (int (length b)) (int k) s =
    (let (fs, rest) = frames (drop k b) in res_bind (feed f fs s) (\<lambda>s'.
       Ok (case rest of None \<Rightarrow> - 1 | Some r \<Rightarrow> int (length b - length r), s')))"
  using assms
proof (induction "length b - k" arbitrary: k s rule: less_induct)
  case less
  let ?r = "drop k b"
  note st = OnRecv_loop_step [OF less(2,3), of f s]
  show ?case
  proof (cases "length ?r < 4 \<or> frame_size ?r < 4 \<or> length ?r < frame_size ?r")
    case True
    then show ?thesis
      using less(2) by (auto simp: st frames.simps [of ?r])
  next
    case False
    let ?k = "k + frame_size ?r"
    have k: "length b - ?k < length b - k" "?k \<le> length b"
      using False by auto
    have "frames ?r = (let (fs, rest) = frames (drop ?k b) in (take (frame_size ?r) ?r # fs, rest))"
      using False by (simp add: frames.simps [of ?r] add.commute)
    moreover have "length (take (frame_size ?r) ?r) = frame_size ?r"
      using False by simp
    ultimately show ?thesis
      using False less(1) [OF k less(3)]
      by (cases "f (take (frame_size ?r) ?r) (int (frame_size ?r)) s")
        (simp_all add: st split: prod.splits)
  qed
qed

section \<open>Streams of packets\<close>

lemma frame_size_packet:
  assumes "packet_size p \<le> 65535"
  shows "frame_size (packet_bytes p @ r) = packet_size p"
proof -
  have "take 4 (packet_bytes p @ r) = enc_PacketHeader
      \<lparr>header_size = of_nat (packet_size p), header_id = PacketId_value (packet_id p)\<rparr> @ []"
    by (simp add: packet_bytes_def)
  then have "dec_PacketHeader (take 4 (packet_bytes p @ r)) =
      \<lparr>header_size = of_nat (packet_size p), header_id = PacketId_value (packet_id p)\<rparr>"
    by (simp only: dec_enc_PacketHeader)
  then show ?thesis using assms by (simp add: frame_size_def unat_of_nat)
qed

lemma frames_packets:
  assumes "\<forall>p \<in> set ps. packet_size p \<le> 65535"
  shows "frames (concat (map packet_bytes ps) @ r) =
    (let (fs, rest) = frames r in (map packet_bytes ps @ fs, rest))"
  using assms
proof (induction ps)
  case Nil
  then show ?case by simp
next
  case (Cons p ps)
  let ?tl = "concat (map packet_bytes ps) @ r"
  have size: "frame_size (packet_bytes p @ ?tl) = packet_size p"
    using Cons.prems by (intro frame_size_packet) simp
  have four: "4 \<le> packet_size p" by (simp add: packet_size_def)
  have "frames (packet_bytes p @ ?tl) =
      (let (fs, rest) = frames ?tl in (packet_bytes p # fs, rest))"
    using four by (subst frames.simps) (simp add: size)
  with Cons show ?case by (simp split: prod.splits)
qed

text \<open>The packets of a stream handed one by one to a handler whose verdict is not looked at.\<close>

fun handle_all :: "(packet \<Rightarrow> 's \<Rightarrow> (bool \<times> 's) res) \<Rightarrow> packet list \<Rightarrow> 's \<Rightarrow> 's res" where
  "handle_all handle [] s = Ok s"
| "handle_all handle (p # ps) s = res_bind (handle p s) (\<lambda>(_, s'). handle_all handle ps s')"

definition ignore_result :: "(byte list \<Rightarrow> int32 \<Rightarrow> 's \<Rightarrow> (bool \<times> 's) res) \<Rightarrow> byte list \<Rightarrow> int32 \<Rightarrow> 's \<Rightarrow> 's res" where
  "ignore_result f b n s = res_bind (f b n s) (\<lambda>(_, s'). Ok s')"

lemma feed_packets:
  assumes "\<forall>p \<in> set ps. \<forall>s. f (packet_bytes p) (int (packet_size p)) s = handle p s"
  shows "feed (ignore_result f) (map packet_bytes ps) s = handle_all handle ps s"
  using assms
proof (induction ps arbitrary: s)
  case (Cons p ps)
  then show ?case
    by (cases "handle p s") (auto simp: ignore_result_def)
qed simp

lemma feed_server_packets:
  assumes "\<forall>p \<in> set ps. packet_size p \<le> 65535 \<and> dom_packet p \<and> to_server p"
  shows "feed (ignore_result (ServerPacketHandler_HandlePacket handle)) (map packet_bytes ps) s =
    handle_all handle ps s"
  using assms by (intro feed_packets) (auto intro!: server_dispatch_read)

lemma OnRecv_frames:
  assumes "length b \<le> 2147483647"
  shows "OnRecv f b (int (length b)) s = (let (fs, rest) = frames b in res_bind (feed f fs s) (\<lambda>s'.
       Ok (case rest of None \<Rightarrow> - 1 | Some r \<Rightarrow> int (length b - length r), s')))"
  using OnRecv_loop_frames [of 0 b f s] assms by (simp add: OnRecv_def)

lemma OnRecv_frames_len:
  "n = int (length b) \<Longrightarrow> length b \<le> 2147483647 \<Longrightarrow>
   OnRecv f b n s = (let (fs, rest) = frames b in res_bind (feed f fs s) (\<lambda>s'.
       Ok (case rest of None \<Rightarrow> - 1 | Some r \<Rightarrow> int (length b - length r), s')))"
  by (simp only: OnRecv_frames)

section \<open>Properties\<close>

text \<open>
  The server hears exactly the packets sent to it. On any number of packets one after the
  other, followed by the beginning of one more, \<open>OnRecv\<close> calls the handler of each, in order and
  with its members, and returns the number of bytes up to the incomplete one.
\<close>

theorem onrecv_delivers_packets:
  fixes handle :: "packet \<Rightarrow> 's \<Rightarrow> (bool \<times> 's) res"
  assumes "\<forall>p \<in> set ps. packet_size p \<le> 65535 \<and> dom_packet p \<and> to_server p"
    and "length part < 4 \<or> 4 \<le> frame_size part \<and> length part < frame_size part"
    and "length (concat (map packet_bytes ps) @ part) \<le> 2147483647"
  shows "OnRecv (ignore_result (ServerPacketHandler_HandlePacket handle))
      (concat (map packet_bytes ps) @ part) (int (length (concat (map packet_bytes ps) @ part))) s =
    res_bind (handle_all handle ps s) (\<lambda>s'. Ok (int (\<Sum>p \<leftarrow> ps. packet_size p), s'))"
proof -
  have "frames part = ([], Some part)" using assms(2) by (auto simp: frames.simps [of part])
  then have "frames (concat (map packet_bytes ps) @ part) = (map packet_bytes ps, Some part)"
    using frames_packets [of ps part] assms(1) by simp
  then show ?thesis
    unfolding OnRecv_frames [OF assms(3)]
    using feed_server_packets [OF assms(1), of handle s] by (simp add: length_concat comp_def)
qed

theorem onrecv_delivers_packets_witness:
  "OnRecv (ignore_result (ServerPacketHandler_HandlePacket (\<lambda>p seen. Ok (True, seen @ [p]))))
     (concat (map packet_bytes [Pkt_C_ROOM_CHAT \<lparr>C_ROOM_CHAT_message = ''hi''\<rparr>, Pkt_C_LEAVE_ROOM ()]) @ [7])
     (int (length (concat (map packet_bytes
        [Pkt_C_ROOM_CHAT \<lparr>C_ROOM_CHAT_message = ''hi''\<rparr>, Pkt_C_LEAVE_ROOM ()]) @ [7]))) [] =
   Ok (12, [Pkt_C_ROOM_CHAT \<lparr>C_ROOM_CHAT_message = ''hi''\<rparr>, Pkt_C_LEAVE_ROOM ()])"
  by (subst onrecv_delivers_packets)
    (simp_all add: dom_C_ROOM_CHAT_def dom_C_LEAVE_ROOM_def packet_size_def enc_C_ROOM_CHAT_def
      enc_C_LEAVE_ROOM_def length_enc_string)

text \<open>
  C33: \<open>OnRecv\<close> does not depend on how the stream is cut. Processing some bytes and then what is
  left of them together with more bytes has the effects, and consumes the bytes, of processing
  all of them at once; a header with an impossible size is reported in either case.
\<close>

theorem onrecv_segmentation:
  assumes "length (a @ b) \<le> 2147483647"
  shows "OnRecv f (a @ b) (int (length (a @ b))) s =
    res_bind (OnRecv f a (int (length a)) s) (\<lambda>(k, s1).
      if k < 0 then Ok (- 1, s1)
      else res_bind (OnRecv f (drop (nat k) a @ b) (int (length (drop (nat k) a @ b))) s1) (\<lambda>(k', s2).
        Ok (if k' < 0 then - 1 else k + k', s2)))"
proof -
  obtain fs ro where a: "frames a = (fs, ro)" by fastforce
  have la: "length a \<le> 2147483647" using assms by simp
  show ?thesis
  proof (cases ro)
    case None
    then show ?thesis
      unfolding OnRecv_frames [OF assms] OnRecv_frames [OF la] frames_append [of a b] a
      by (cases "feed f fs s") simp_all
  next
    case (Some r)
    with frames_rest a have ar: "concat fs @ r = a" by blast
    obtain gs ro' where g: "frames (r @ b) = (gs, ro')" by fastforce
    have r: "drop (length a - length r) a = r" "length r \<le> length a"
      using ar by (metis append_eq_conv_conj length_append add_diff_cancel_right')
        (metis ar length_append le_add2)
    have lr: "length (r @ b) \<le> 2147483647" using assms r(2) by simp
    have le: "length r' \<le> length (r @ b)" if "ro' = Some r'" for r'
      using frames_rest g that by (metis length_append le_add2)
    have dr: "drop (nat (int (length a - length r))) a = r" using r(1) by (simp only: nat_int)
    have nn: "\<not> int (length a - length r) < 0" by simp
    show ?thesis
    proof (cases "feed f fs s")
      case (Inr s1)
      have ab: "frames (a @ b) = (fs @ gs, ro')"
        unfolding frames_append [of a b] a Some using g by simp
      have second: "OnRecv f (r @ b) (int (length (r @ b))) s1 =
          res_bind (feed f gs s1) (\<lambda>s2. Ok (case ro' of None \<Rightarrow> - 1
            | Some r' \<Rightarrow> int (length (r @ b) - length r'), s2))"
        unfolding OnRecv_frames [OF lr] g by simp
      have first: "OnRecv f a (int (length a)) s = Ok (int (length a - length r), s1)"
        unfolding OnRecv_frames [OF la] a Some using Inr by simp
      show ?thesis
        unfolding OnRecv_frames [OF assms] ab first res_bind_simps prod.case if_not_P [OF nn] dr second
        using Inr le r(2) by (cases "feed f gs s1") (auto simp: feed_append split: option.splits)
    next
      case (Inl e)
      then show ?thesis
        unfolding OnRecv_frames [OF assms] OnRecv_frames [OF la] frames_append [of a b] a
        using Some g by (simp add: feed_append)
    qed
  qed
qed

theorem onrecv_segmentation_witness:
  "OnRecv (\<lambda>b n seen. Ok (seen @ [b])) ([5, 0] @ [7, 7, 1, 4]) (int (length ([5, 0] @ [7, 7, 1, 4 :: byte]))) [] =
   Ok (5, [[5, 0, 7, 7, 1]])"
  by (subst onrecv_segmentation)
    (simp_all add: OnRecv_frames_len frames.simps frame_size_def dec_PacketHeader_def)

end
