(* ===== verification/Session.thy ===== *)
theory Session
  imports RingBuffer PacketSession
begin

text \<open>
  \<^verbatim>\<open>ServerEngine/Network/Session.h\<close> and \<^verbatim>\<open>Session.cpp\<close>: a connection, its send queue and its
  receive ring, driven by the completions of overlapped I/O.

  What a Winsock call returns is an argument \<open>os_result\<close> of the operation that makes it; a
  request the system has accepted is appended to \<open>ss_posts\<close>, and its completion is a later call
  of \<open>Dispatch\<close>. \<open>Disconnect\<close> ignores its \<open>cause\<close>, which is left out. The virtual \<open>OnRecv\<close> is
  a parameter. The socket, the address and the heartbeat are not part of this state.
\<close>

section \<open>Winsock results\<close>

definition WSA_IO_PENDING :: int32 where "WSA_IO_PENDING = 997"
definition WSA_IO_INCOMPLETE :: int32 where "WSA_IO_INCOMPLETE = 996"
definition WSAEWOULDBLOCK :: int32 where "WSAEWOULDBLOCK = 10035"

datatype os_result =
    OsDone
  | OsError int32

text \<open>\<open>WSA_IO_PENDING\<close> is the normal case of an overlapped call.\<close>

fun os_posted :: "os_result \<Rightarrow> bool" where
  "os_posted OsDone = True"
| "os_posted (OsError e) = (e = WSA_IO_PENDING)"

definition IsRecoverableErrorCode :: "int32 \<Rightarrow> bool" where
  "IsRecoverableErrorCode e \<longleftrightarrow> e = WSAEWOULDBLOCK \<or> e = WSA_IO_INCOMPLETE"

section \<open>The session\<close>

text \<open>One entry of the gather list: the buffer, where in it the bytes start, how many.\<close>

type_synonym gather_buf = "send_buffer \<times> int32 \<times> int32"

datatype io_request =
    PostConnect
  | PostDisconnect
  | PostRecv "int32 \<times> wsabuf option \<times> wsabuf option"
  | PostSend "gather_buf list"

record session =
  ss_connected :: bool
  ss_recvBuffer :: ring_buffer
  ss_sendQueue :: "send_buffer list"
  ss_isSending :: bool
  ss_sendOffset :: int32
  ss_sendEvent :: "send_buffer list"
  ss_sendOwner :: bool
  ss_recvOwner :: bool
  ss_connectOwner :: bool
  ss_disconnectOwner :: bool
  ss_posts :: "io_request list"

definition MAX_SEND_QUEUE_SIZE :: nat where "MAX_SEND_QUEUE_SIZE = 500"
definition MAX_GATHER :: nat where "MAX_GATHER = 64"

definition Session_new :: "ring_buffer \<Rightarrow> session" where
  "Session_new rb = \<lparr>ss_connected = False, ss_recvBuffer = rb, ss_sendQueue = [], ss_isSending = False,
     ss_sendOffset = 0, ss_sendEvent = [], ss_sendOwner = False, ss_recvOwner = False,
     ss_connectOwner = False, ss_disconnectOwner = False, ss_posts = []\<rparr>"

definition post :: "io_request \<Rightarrow> session \<Rightarrow> session" where
  "post q s = s\<lparr>ss_posts := ss_posts s @ [q]\<rparr>"

section \<open>Connecting and disconnecting\<close>

text \<open>
  When \<open>DisconnectEx\<close> fails, \<open>HandleError\<close> calls \<open>Disconnect\<close> again; its only caller has just
  set \<open>_connected\<close> to false, so that call returns at once.
\<close>

definition RegisterDisconnect :: "os_result \<Rightarrow> session \<Rightarrow> bool \<times> session" where
  "RegisterDisconnect d s =
     (let s1 = s\<lparr>ss_disconnectOwner := True\<rparr> in
      if os_posted d then (True, post PostDisconnect s1)
      else (False, s1\<lparr>ss_disconnectOwner := False\<rparr>))"

definition Session_Disconnect :: "os_result \<Rightarrow> session \<Rightarrow> session" where
  "Session_Disconnect d s =
     (if \<not> ss_connected s then s
      else snd (RegisterDisconnect d (s\<lparr>ss_connected := False\<rparr>)))"

text \<open>All branches disconnect, each with another cause.\<close>

definition HandleError :: "os_result \<Rightarrow> int32 \<Rightarrow> session \<Rightarrow> session" where
  "HandleError d errorCode s = Session_Disconnect d s"

text \<open>\<open>bound\<close> and \<open>registered\<close>: whether \<open>BindAnyAddress\<close> and \<open>IocpCore::Register\<close> succeed.\<close>

definition RegisterConnect ::
    "bool \<Rightarrow> bool \<Rightarrow> os_result \<Rightarrow> os_result \<Rightarrow> session \<Rightarrow> bool \<times> session" where
  "RegisterConnect bound registered c d s =
     (if ss_connected s then (False, s)
      else if \<not> bound then (False, s)
      else if \<not> registered then (False, s)
      else
        let s1 = s\<lparr>ss_connectOwner := True\<rparr> in
        (case c of
            OsDone \<Rightarrow> (True, post PostConnect s1)
          | OsError errorCode \<Rightarrow>
              if errorCode \<noteq> WSA_IO_PENDING
              then (False, (HandleError d errorCode s1)\<lparr>ss_connectOwner := False\<rparr>)
              else (True, post PostConnect s1)))"

definition Session_Connect ::
    "bool \<Rightarrow> bool \<Rightarrow> os_result \<Rightarrow> os_result \<Rightarrow> session \<Rightarrow> bool \<times> session" where
  "Session_Connect = RegisterConnect"

section \<open>Receiving\<close>

definition RegisterRecv :: "os_result \<Rightarrow> os_result \<Rightarrow> session \<Rightarrow> session" where
  "RegisterRecv r d s =
     (if \<not> ss_connected s then s
      else
        let s1 = s\<lparr>ss_recvOwner := True\<rparr>;
            wsabufs = GetWriteSpan (ss_recvBuffer s1) 0 in
        if fst wsabufs = 0 then Session_Disconnect d s1
        else (case r of
            OsDone \<Rightarrow> post (PostRecv wsabufs) s1
          | OsError errorCode \<Rightarrow>
              if errorCode \<noteq> WSA_IO_PENDING
              then (HandleError d errorCode s1)\<lparr>ss_recvOwner := False\<rparr>
              else post (PostRecv wsabufs) s1))"

text \<open>
  The bytes are in the spans of the ring already; \<open>Peek\<close> copies what is buffered and its result
  is not looked at, so that on \<open>false\<close> the vector of zeros would be handed on. \<open>OnRecv\<close> may send
  and disconnect on this session: it works on the session and the rest of the program, \<open>'c\<close>.
\<close>

type_synonym 'c on_recv = "byte list \<Rightarrow> int32 \<Rightarrow> session \<times> 'c \<Rightarrow> (int32 \<times> session \<times> 'c) res"

definition ProcessRecv ::
    "'c on_recv \<Rightarrow> int32 \<Rightarrow> os_result \<Rightarrow> os_result \<Rightarrow> session \<times> 'c \<Rightarrow> (session \<times> 'c) res" where
  "ProcessRecv onRecv numOfBytes r d = (\<lambda>(s, c).
     let s1 = s\<lparr>ss_recvOwner := False\<rparr> in
      if numOfBytes = 0 then Ok (Session_Disconnect d s1, c)
      else
        let (moved, rb) = MoveWritePos numOfBytes (ss_recvBuffer s1); s2 = s1\<lparr>ss_recvBuffer := rb\<rparr> in
        if \<not> moved then Ok (Session_Disconnect d s2, c)
        else
          let dataSize = GetDataSize rb in
          res_bind (RingBuffer_Peek dataSize rb) (\<lambda>peeked.
          let packetData = (case peeked of Some b \<Rightarrow> b | None \<Rightarrow> replicate (nat dataSize) 0) in
          res_bind (onRecv packetData dataSize (s2, c)) (\<lambda>(processedLen, s3, c').
          if processedLen < 0 \<or> processedLen > dataSize then Ok (Session_Disconnect d s3, c')
          else
            let (moved, rb') = MoveReadPos processedLen (ss_recvBuffer s3);
                s4 = s3\<lparr>ss_recvBuffer := rb'\<rparr> in
            if \<not> moved then Ok (Session_Disconnect d s4, c')
            else Ok (RegisterRecv r d s4, c'))))"

section \<open>Sending\<close>

text \<open>
  The loop of \<open>RegisterSend\<close> under the lock: what it pops, the gather list, what stays queued.
\<close>

fun gather_loop ::
    "int32 \<Rightarrow> nat \<Rightarrow> send_buffer list \<Rightarrow> send_buffer list \<times> gather_buf list \<times> send_buffer list" where
  "gather_loop offset bufCount [] = ([], [], [])"
| "gather_loop offset bufCount (sb # q) =
     (if bufCount < MAX_GATHER then
        let wsaBuf = (if bufCount = 0 \<and> offset > 0
                      then (sb, offset, sb_writeSize sb - offset)
                      else (sb, 0, sb_writeSize sb));
            (popped, wsaBufs, rest) = gather_loop offset (Suc bufCount) q
        in (sb # popped, wsaBuf # wsaBufs, rest)
      else ([], [], sb # q))"

text \<open>The second result is the gather list if the system has taken it.\<close>

definition RegisterSend ::
    "os_result \<Rightarrow> os_result \<Rightarrow> session \<Rightarrow> session \<times> gather_buf list option" where
  "RegisterSend w d s =
     (if \<not> ss_connected s then (s, None)
      else
        let s1 = s\<lparr>ss_sendOwner := True\<rparr>;
            (popped, wsaBufs, rest) = gather_loop (ss_sendOffset s1) 0 (ss_sendQueue s1);
            s2 = s1\<lparr>ss_sendQueue := rest, ss_sendEvent := ss_sendEvent s1 @ popped\<rparr> in
        if wsaBufs = [] then (s2\<lparr>ss_isSending := False, ss_sendOwner := False\<rparr>, None)
        else (case w of
            OsDone \<Rightarrow> (post (PostSend wsaBufs) s2, Some wsaBufs)
          | OsError errorCode \<Rightarrow>
              if errorCode \<noteq> WSA_IO_PENDING then
                if \<not> IsRecoverableErrorCode errorCode then
                  ((HandleError d errorCode s2)\<lparr>ss_sendOwner := False, ss_sendEvent := [],
                                               ss_isSending := False\<rparr>, None)
                else (s2, None)
              else (post (PostSend wsaBufs) s2, Some wsaBufs)))"

text \<open>The locked part of both \<open>Send\<close>s: the new state, \<open>registerSend\<close>, \<open>queueOverflow\<close>.\<close>

definition Send_push :: "send_buffer \<Rightarrow> session \<Rightarrow> session \<times> bool \<times> bool" where
  "Send_push sb s =
     (if length (ss_sendQueue s) \<ge> MAX_SEND_QUEUE_SIZE then (s, False, True)
      else (s\<lparr>ss_sendQueue := ss_sendQueue s @ [sb], ss_isSending := True\<rparr>, \<not> ss_isSending s, False))"

definition Send_push_many :: "send_buffer list \<Rightarrow> session \<Rightarrow> session \<times> bool \<times> bool" where
  "Send_push_many sbs s =
     (if length (ss_sendQueue s) + length sbs \<ge> MAX_SEND_QUEUE_SIZE then (s, False, True)
      else (s\<lparr>ss_sendQueue := ss_sendQueue s @ sbs, ss_isSending := True\<rparr>, \<not> ss_isSending s, False))"

text \<open>A null \<open>SendBufferRef\<close> is \<open>None\<close>.\<close>

definition Session_Send :: "send_buffer option \<Rightarrow> os_result \<Rightarrow> os_result \<Rightarrow> session \<Rightarrow> session" where
  "Session_Send sendBuffer w d s =
     (case sendBuffer of None \<Rightarrow> s
      | Some sb \<Rightarrow>
        if \<not> ss_connected s then s
        else
          let (s1, registerSend, queueOverflow) = Send_push sb s in
          if queueOverflow then Session_Disconnect d s1
          else if registerSend then fst (RegisterSend w d s1)
          else s1)"

definition Session_Send_many :: "send_buffer list \<Rightarrow> os_result \<Rightarrow> os_result \<Rightarrow> session \<Rightarrow> session" where
  "Session_Send_many sbs w d s =
     (if sbs = [] \<or> \<not> ss_connected s then s
      else
        let (s1, registerSend, queueOverflow) = Send_push_many sbs s in
        if queueOverflow then Session_Disconnect d s1
        else if registerSend then fst (RegisterSend w d s1)
        else s1)"

text \<open>The loop of \<open>ProcessSend\<close>: the buffers that are not complete, and \<open>nextOffset\<close>.\<close>

fun complete_loop ::
    "int32 \<Rightarrow> nat \<Rightarrow> int32 \<Rightarrow> send_buffer list \<Rightarrow> send_buffer list \<times> int32" where
  "complete_loop offset i bytesRemaining [] = ([], 0)"
| "complete_loop offset i bytesRemaining (sb # sbs) =
     (let actualPendingBytes = sb_writeSize sb - (if i = 0 then offset else 0) in
      if bytesRemaining \<ge> actualPendingBytes
      then complete_loop offset (Suc i) (bytesRemaining - actualPendingBytes) sbs
      else (sb # sbs, (if i = 0 then offset else 0) + bytesRemaining))"

text \<open>\<open>ProcessSend\<close> up to its last \<open>if\<close>: the new state and \<open>registerSend\<close>.\<close>

definition ProcessSend_update :: "int32 \<Rightarrow> session \<Rightarrow> session \<times> bool" where
  "ProcessSend_update numOfBytes s =
     (let (uncompleted, nextOffset) = complete_loop (ss_sendOffset s) 0 numOfBytes (ss_sendEvent s);
          s1 = s\<lparr>ss_sendEvent := []\<rparr> in
      if uncompleted \<noteq> [] then
        (s1\<lparr>ss_sendQueue := uncompleted @ ss_sendQueue s1, ss_sendOffset := nextOffset\<rparr>, True)
      else if ss_sendQueue s1 = [] then (s1\<lparr>ss_sendOffset := 0, ss_isSending := False\<rparr>, False)
      else (s1\<lparr>ss_sendOffset := 0\<rparr>, True))"

definition ProcessSend :: "int32 \<Rightarrow> os_result \<Rightarrow> os_result \<Rightarrow> session \<Rightarrow> session" where
  "ProcessSend numOfBytes w d s =
     (let s1 = s\<lparr>ss_sendOwner := False\<rparr> in
      if numOfBytes = 0 then Session_Disconnect d (s1\<lparr>ss_sendEvent := []\<rparr>)
      else
        let (s2, registerSend) = ProcessSend_update numOfBytes s1 in
        if registerSend then fst (RegisterSend w d s2) else s2)"

section \<open>Completions\<close>

text \<open>
  \<open>entered\<close> and \<open>left\<close> are what \<open>AddSession\<close> with \<open>OnConnected\<close>, and \<open>OnDisconnected\<close> with
  \<open>ReleaseSession\<close>, do to the session and the rest of the program.
\<close>

definition ProcessConnect ::
    "(session \<times> 'c \<Rightarrow> session \<times> 'c) \<Rightarrow> os_result \<Rightarrow> os_result \<Rightarrow> session \<times> 'c \<Rightarrow> session \<times> 'c" where
  "ProcessConnect entered r d = (\<lambda>(s, c).
     let (s1, c1) = entered (s\<lparr>ss_connectOwner := False, ss_connected := True\<rparr>, c) in
     (RegisterRecv r d s1, c1))"

definition ProcessDisconnect ::
    "(session \<times> 'c \<Rightarrow> session \<times> 'c) \<Rightarrow> session \<times> 'c \<Rightarrow> session \<times> 'c" where
  "ProcessDisconnect left = (\<lambda>(s, c). left (s\<lparr>ss_disconnectOwner := False\<rparr>, c))"

datatype EventType =
    EvConnect
  | EvDisconnect
  | EvAccept
  | EvRecv
  | EvSend

text \<open>\<open>io\<close> is what the receive or send posted in the end returns, \<open>d\<close> what \<open>DisconnectEx\<close> does.\<close>

definition Session_Dispatch ::
    "'c on_recv \<Rightarrow> (session \<times> 'c \<Rightarrow> session \<times> 'c) \<Rightarrow> (session \<times> 'c \<Rightarrow> session \<times> 'c) \<Rightarrow>
     EventType \<Rightarrow> int32 \<Rightarrow> os_result \<Rightarrow> os_result \<Rightarrow> session \<times> 'c \<Rightarrow> (session \<times> 'c) res" where
  "Session_Dispatch onRecv entered left ev numOfBytes io d x = (case ev of
      EvConnect \<Rightarrow> Ok (ProcessConnect entered io d x)
    | EvDisconnect \<Rightarrow> Ok (ProcessDisconnect left x)
    | EvRecv \<Rightarrow> ProcessRecv onRecv numOfBytes io d x
    | EvSend \<Rightarrow> Ok (ProcessSend numOfBytes io d (fst x), snd x)
    | EvAccept \<Rightarrow> Ok x)"

section \<open>Disconnecting once\<close>

lemma Session_Disconnect_simps [simp]:
  "\<not> ss_connected (Session_Disconnect d s)"
  "ss_sendQueue (Session_Disconnect d s) = ss_sendQueue s"
  "ss_sendEvent (Session_Disconnect d s) = ss_sendEvent s"
  "ss_sendOffset (Session_Disconnect d s) = ss_sendOffset s"
  "ss_isSending (Session_Disconnect d s) = ss_isSending s"
  "ss_recvBuffer (Session_Disconnect d s) = ss_recvBuffer s"
  by (simp_all add: Session_Disconnect_def RegisterDisconnect_def post_def Let_def)

lemma HandleError_simps [simp]:
  "\<not> ss_connected (HandleError d e s)"
  "ss_sendQueue (HandleError d e s) = ss_sendQueue s"
  "ss_sendEvent (HandleError d e s) = ss_sendEvent s"
  "ss_sendOffset (HandleError d e s) = ss_sendOffset s"
  "ss_isSending (HandleError d e s) = ss_isSending s"
  "ss_recvBuffer (HandleError d e s) = ss_recvBuffer s"
  by (simp_all add: HandleError_def)

text \<open>How often \<open>DisconnectEx\<close> has been asked for.\<close>

definition disconnects :: "session \<Rightarrow> nat" where
  "disconnects s = length (filter ((=) PostDisconnect) (ss_posts s))"

end
