(* ===== verification/SessionSend.thy ===== *)
theory SessionSend
  imports Session "HOL-Library.Sublist"
begin

text \<open>
  The send side of a session under concurrency. Any number of threads call \<open>Send\<close>; the completion
  of a send is handled by whichever worker dequeues it. A step is one locked part, one
  \<open>RegisterSend\<close>, one completion or one \<open>Disconnect\<close>; \<open>sr_registering\<close> counts the threads that
  have been told to call \<open>RegisterSend\<close> and have not done so, \<open>sr_inflight\<close> holds the gather
  lists the system has taken and not completed. \<open>mem\<close> gives the bytes of a buffer, which do not
  change once it is closed (\<open>send_buffers_stable\<close>).

  The system transmits, on completing a send with \<open>n\<close> bytes, the first \<open>n\<close> bytes of its gather
  list; nothing else is assumed of it.
\<close>

section \<open>The steps\<close>

record send_run =
  sr_session :: session
  sr_registering :: nat
  sr_inflight :: "gather_buf list list"
  sr_accepted :: "send_buffer list"
  sr_wire :: "byte list"
  sr_lost :: bool
  sr_stalled :: bool

definition gather_bytes :: "(send_buffer \<Rightarrow> byte list) \<Rightarrow> gather_buf list \<Rightarrow> byte list" where
  "gather_bytes mem g = concat (map (\<lambda>(sb, off, n). take (nat n) (drop (nat off) (mem sb))) g)"

definition buf_ok :: "(send_buffer \<Rightarrow> byte list) \<Rightarrow> send_buffer \<Rightarrow> bool" where
  "buf_ok mem sb \<longleftrightarrow> int (length (mem sb)) = sb_writeSize sb"

inductive ss_step :: "(send_buffer \<Rightarrow> byte list) \<Rightarrow> send_run \<Rightarrow> send_run \<Rightarrow> bool" for mem where
  push: "buf_ok mem sb \<Longrightarrow> Send_push sb (sr_session r) = (s', reg, over) \<Longrightarrow>
    ss_step mem r (r\<lparr>sr_session := s', sr_registering := sr_registering r + (if reg then 1 else 0),
       sr_accepted := (if over then sr_accepted r else sr_accepted r @ [sb])\<rparr>)"
| push_many: "\<forall>sb \<in> set sbs. buf_ok mem sb \<Longrightarrow> sbs \<noteq> [] \<Longrightarrow>
    Send_push_many sbs (sr_session r) = (s', reg, over) \<Longrightarrow>
    ss_step mem r (r\<lparr>sr_session := s', sr_registering := sr_registering r + (if reg then 1 else 0),
       sr_accepted := (if over then sr_accepted r else sr_accepted r @ sbs)\<rparr>)"
| register_post: "sr_registering r > 0 \<Longrightarrow> RegisterSend w d (sr_session r) = (s', Some g) \<Longrightarrow>
    ss_step mem r (r\<lparr>sr_session := s', sr_registering := sr_registering r - 1,
       sr_inflight := g # sr_inflight r\<rparr>)"
| register_fail: "sr_registering r > 0 \<Longrightarrow> RegisterSend w d (sr_session r) = (s', None) \<Longrightarrow>
    ss_step mem r (r\<lparr>sr_session := s', sr_registering := sr_registering r - 1,
       sr_lost := sr_lost r \<or> ss_sendEvent s' = [] \<and> ss_sendQueue s' \<noteq> ss_sendQueue (sr_session r),
       sr_stalled := sr_stalled r \<or> ss_connected s'\<rparr>)"
| complete: "sr_inflight r = as @ g # bs \<Longrightarrow> 0 < n \<Longrightarrow> n \<le> int (length (gather_bytes mem g)) \<Longrightarrow>
    ProcessSend_update n (sr_session r) = (s', reg) \<Longrightarrow>
    ss_step mem r (r\<lparr>sr_session := s', sr_registering := sr_registering r + (if reg then 1 else 0),
       sr_inflight := as @ bs, sr_wire := sr_wire r @ take (nat n) (gather_bytes mem g)\<rparr>)"
| complete_zero: "sr_inflight r = as @ g # bs \<Longrightarrow>
    ss_step mem r (r\<lparr>sr_session := ProcessSend 0 w d (sr_session r), sr_inflight := as @ bs,
       sr_lost := True\<rparr>)"
| disconnect: "ss_step mem r (r\<lparr>sr_session := Session_Disconnect d (sr_session r)\<rparr>)"

inductive_cases ss_stepE: "ss_step mem r r'"

text \<open>A session that has just been connected.\<close>

definition send_start :: "session \<Rightarrow> bool" where
  "send_start s \<longleftrightarrow> ss_connected s \<and> ss_sendQueue s = [] \<and> \<not> ss_isSending s \<and> ss_sendOffset s = 0 \<and>
     ss_sendEvent s = []"

definition run_start :: "session \<Rightarrow> send_run" where
  "run_start s = \<lparr>sr_session = s, sr_registering = 0, sr_inflight = [], sr_accepted = [], sr_wire = [],
     sr_lost = False, sr_stalled = False\<rparr>"

section \<open>The loops\<close>

text \<open>What \<open>n\<close> buffers look like as a gather list when the first has \<open>off\<close> bytes sent.\<close>

fun gather_of :: "int32 \<Rightarrow> send_buffer list \<Rightarrow> gather_buf list" where
  "gather_of off [] = []"
| "gather_of off (sb # sbs) =
     (sb, off, sb_writeSize sb - off) # map (\<lambda>b. (b, 0, sb_writeSize b)) sbs"

lemma gather_loop_rest:
  "0 < k \<Longrightarrow> gather_loop off k q =
     (take (MAX_GATHER - k) q, map (\<lambda>b. (b, 0, sb_writeSize b)) (take (MAX_GATHER - k) q),
      drop (MAX_GATHER - k) q)"
proof (induction q arbitrary: k)
  case (Cons sb q)
  show ?case
  proof (cases "k < MAX_GATHER")
    case True
    then have "MAX_GATHER - k = Suc (MAX_GATHER - Suc k)" by simp
    with True Cons show ?thesis by simp
  qed simp
qed simp

lemma gather_loop_eq:
  assumes "0 \<le> off"
  shows "gather_loop off 0 q = (take MAX_GATHER q, gather_of off (take MAX_GATHER q), drop MAX_GATHER q)"
proof (cases q)
  case (Cons sb q')
  have "MAX_GATHER = Suc (MAX_GATHER - Suc 0)" by (simp add: MAX_GATHER_def)
  then show ?thesis
    using Cons assms gather_loop_rest [of 1 off q']
    by (auto simp: take_Cons' drop_Cons' MAX_GATHER_def)
qed simp

text \<open>The bytes of some buffers, and how far into the first of them an offset may be.\<close>

definition bytes_of :: "(send_buffer \<Rightarrow> byte list) \<Rightarrow> send_buffer list \<Rightarrow> byte list" where
  "bytes_of mem sbs = concat (map mem sbs)"

fun off_ok :: "int32 \<Rightarrow> send_buffer list \<Rightarrow> bool" where
  "off_ok off [] = (off = 0)"
| "off_ok off (sb # sbs) = (0 \<le> off \<and> (off = 0 \<or> off < sb_writeSize sb))"

lemma off_ok_nonneg: "off_ok off sbs \<Longrightarrow> 0 \<le> off"
  by (cases sbs) auto

lemma bytes_of_simps [simp]:
  "bytes_of mem [] = []" "bytes_of mem (sb # sbs) = mem sb @ bytes_of mem sbs"
  by (simp_all add: bytes_of_def)

lemma bytes_of_append: "bytes_of mem (xs @ ys) = bytes_of mem xs @ bytes_of mem ys"
  by (simp add: bytes_of_def)

lemma gather_bytes_whole:
  "\<forall>sb \<in> set sbs. buf_ok mem sb \<Longrightarrow>
   gather_bytes mem (map (\<lambda>b. (b, 0, sb_writeSize b)) sbs) = bytes_of mem sbs"
proof (induction sbs)
  case (Cons b bs)
  then have "int (length (mem b)) = sb_writeSize b" by (simp add: buf_ok_def)
  then have "take (nat (sb_writeSize b)) (mem b) = mem b" by (metis nat_int take_all order_refl)
  with Cons show ?case by (simp add: gather_bytes_def)
qed (simp add: gather_bytes_def)

lemma gather_bytes_of:
  assumes "\<forall>sb \<in> set sbs. buf_ok mem sb" "off_ok off sbs"
  shows "gather_bytes mem (gather_of off sbs) = drop (nat off) (bytes_of mem sbs)"
proof (cases sbs)
  case (Cons b bs)
  have b: "int (length (mem b)) = sb_writeSize b" using assms(1) Cons by (simp add: buf_ok_def)
  have off: "nat off \<le> length (mem b)" using assms(2) Cons b by auto
  have "take (nat (sb_writeSize b - off)) (drop (nat off) (mem b)) = drop (nat off) (mem b)"
    using b off_ok_nonneg [OF assms(2)] by simp
  moreover have "gather_bytes mem (map (\<lambda>b. (b, 0, sb_writeSize b)) bs) = bytes_of mem bs"
    using assms(1) Cons by (intro gather_bytes_whole) simp
  ultimately show ?thesis using Cons off by (simp add: gather_bytes_def)
qed (simp add: gather_bytes_def)

text \<open>
  What \<open>ProcessSend\<close> keeps are exactly the bytes beyond the \<open>n\<close> transmitted ones.
\<close>

lemma complete_loop_rest:
  assumes "\<forall>sb \<in> set sbs. buf_ok mem sb" "0 \<le> n" "n \<le> int (length (bytes_of mem sbs))" "0 < i"
  shows "case complete_loop off i n sbs of (unc, nxt) \<Rightarrow>
    drop (nat nxt) (bytes_of mem unc) = drop (nat n) (bytes_of mem sbs) \<and> off_ok nxt unc \<and>
    length unc \<le> length sbs \<and> set unc \<subseteq> set sbs"
  using assms
proof (induction sbs arbitrary: i n)
  case (Cons b bs)
  have b: "int (length (mem b)) = sb_writeSize b" using Cons.prems(1) by (simp add: buf_ok_def)
  show ?case
  proof (cases "n \<ge> sb_writeSize b")
    case True
    have "nat n = length (mem b) + nat (n - sb_writeSize b)"
      using True b by (simp add: nat_diff_distrib')
    then have "drop (nat n) (bytes_of mem (b # bs)) = drop (nat (n - sb_writeSize b)) (bytes_of mem bs)"
      by simp
    moreover have "0 \<le> n - sb_writeSize b" "n - sb_writeSize b \<le> int (length (bytes_of mem bs))"
      using True Cons.prems(3) b by simp_all
    ultimately show ?thesis
      using Cons.IH [of "n - sb_writeSize b" "Suc i"] Cons.prems True
      by (auto split: prod.splits)
  next
    case False
    then show ?thesis using Cons.prems by auto
  qed
qed simp

lemma complete_loop_ok:
  assumes "\<forall>sb \<in> set sbs. buf_ok mem sb" "off_ok off sbs" "0 \<le> n"
    "n \<le> int (length (drop (nat off) (bytes_of mem sbs)))"
  shows "case complete_loop off 0 n sbs of (unc, nxt) \<Rightarrow>
    drop (nat nxt) (bytes_of mem unc) = drop (nat (off + n)) (bytes_of mem sbs) \<and> off_ok nxt unc \<and>
    length unc \<le> length sbs \<and> set unc \<subseteq> set sbs"
proof (cases sbs)
  case Nil
  then show ?thesis using assms by simp
next
  case (Cons b bs)
  have b: "int (length (mem b)) = sb_writeSize b" using assms(1) Cons by (simp add: buf_ok_def)
  have off: "0 \<le> off" "off \<le> sb_writeSize b" using assms(2) Cons b by auto
  show ?thesis
  proof (cases "n \<ge> sb_writeSize b - off")
    case True
    define k where "k = n - (sb_writeSize b - off)"
    have k: "0 \<le> k" "off + n = int (length (mem b)) + k" using True b by (simp_all add: k_def)
    then have "nat (off + n) = length (mem b) + nat k" by (simp add: nat_add_distrib)
    then have d: "drop (nat (off + n)) (bytes_of mem sbs) = drop (nat k) (bytes_of mem bs)"
      using Cons by simp
    have "n \<le> int (length (mem b) + length (bytes_of mem bs) - nat off)" using assms(4) Cons by simp
    also have "\<dots> = int (length (mem b)) + int (length (bytes_of mem bs)) - off"
      using off b by simp
    finally have "k \<le> int (length (bytes_of mem bs))" using k(2) by simp
    moreover have cl: "complete_loop off 0 n sbs = complete_loop off 1 k bs"
      using Cons True by (simp add: k_def)
    ultimately show ?thesis
      using complete_loop_rest [of bs mem k 1 off] assms(1) Cons k(1)
      unfolding cl d by (auto simp del: complete_loop.simps split: prod.splits)
  next
    case False
    then show ?thesis using Cons assms(3) off by auto
  qed
qed

section \<open>The invariant\<close>

text \<open>
  At most one thread is about to call \<open>RegisterSend\<close> or one send is in flight, and then
  \<open>_isSending\<close> is set; the event holds what is in flight; what has been transmitted, then the rest
  of the event, then the queue are all that was accepted. \<open>sr_lost\<close> marks a send that failed.
\<close>

abbreviation sr_pending :: "send_run \<Rightarrow> send_buffer list" where
  "sr_pending r \<equiv> ss_sendEvent (sr_session r) @ ss_sendQueue (sr_session r)"

abbreviation sr_active :: "send_run \<Rightarrow> nat" where
  "sr_active r \<equiv> sr_registering r + length (sr_inflight r)"

definition send_shape :: "(send_buffer \<Rightarrow> byte list) \<Rightarrow> send_run \<Rightarrow> bool" where
  "send_shape mem r \<longleftrightarrow> (let s = sr_session r in
     (\<forall>sb \<in> set (sr_pending r). buf_ok mem sb) \<and>
     length (sr_pending r) \<le> MAX_SEND_QUEUE_SIZE + MAX_GATHER \<and> length (ss_sendEvent s) \<le> MAX_GATHER \<and>
     sr_active r \<le> 1 \<and> (sr_active r > 0 \<longrightarrow> ss_isSending s) \<and>
     (\<not> ss_isSending s \<longrightarrow> ss_sendEvent s = [] \<and> (ss_connected s \<longrightarrow> ss_sendQueue s = [])) \<and>
     (sr_registering r > 0 \<longrightarrow> ss_sendEvent s = [] \<and> ss_sendQueue s \<noteq> []) \<and>
     (\<forall>g. sr_inflight r = [g] \<longrightarrow> ss_sendEvent s \<noteq> [] \<and> g = gather_of (ss_sendOffset s) (ss_sendEvent s)) \<and>
     (ss_connected s \<and> \<not> sr_stalled r \<and> ss_isSending s \<longrightarrow> sr_active r = 1))"

definition send_stream :: "(send_buffer \<Rightarrow> byte list) \<Rightarrow> send_run \<Rightarrow> bool" where
  "send_stream mem r \<longleftrightarrow> (let s = sr_session r in
     if sr_lost r then \<not> ss_connected s \<and> sr_inflight r = [] \<and> ss_sendEvent s = [] \<and>
       prefix (sr_wire r) (bytes_of mem (sr_accepted r))
     else off_ok (ss_sendOffset s) (sr_pending r) \<and>
       sr_wire r @ drop (nat (ss_sendOffset s)) (bytes_of mem (sr_pending r)) = bytes_of mem (sr_accepted r))"

lemma send_inv_start:
  "send_start s \<Longrightarrow> send_shape mem (run_start s) \<and> send_stream mem (run_start s)"
  by (simp add: send_start_def run_start_def send_shape_def send_stream_def Let_def)

lemma off_ok_append: "off_ok off xs \<Longrightarrow> xs \<noteq> [] \<Longrightarrow> off_ok off (xs @ ys)"
  by (cases xs) auto

lemma off_ok_append_left: "off_ok off (xs @ ys) \<Longrightarrow> xs \<noteq> [] \<Longrightarrow> off_ok off xs"
  by (cases xs) auto

lemma off_ok_snoc: "off_ok off xs \<Longrightarrow> off_ok off (xs @ ys)"
  by (cases xs; cases ys) auto

text \<open>An offset stays inside the first buffer, so what comes behind it is not cut.\<close>

lemma drop_off_append:
  assumes "\<forall>sb \<in> set xs. buf_ok mem sb" "off_ok off xs"
  shows "drop (nat off) (bytes_of mem xs @ ys) = drop (nat off) (bytes_of mem xs) @ ys"
proof (cases xs)
  case (Cons b bs)
  then have "int (length (mem b)) = sb_writeSize b" "off = 0 \<or> off < sb_writeSize b"
    using assms by (auto simp: buf_ok_def)
  then have "nat off \<le> length (mem b)" by auto
  then show ?thesis using Cons by simp
qed (use assms in simp)

section \<open>Every step keeps it\<close>

text \<open>Accepting buffers, in whatever number.\<close>

lemma send_inv_accept:
  assumes inv: "send_shape mem r" "send_stream mem r" and sbs: "\<forall>sb \<in> set sbs. buf_ok mem sb" "sbs \<noteq> []"
    and room: "length (ss_sendQueue (sr_session r)) + length sbs \<le> MAX_SEND_QUEUE_SIZE"
    and s': "s' = (sr_session r)\<lparr>ss_sendQueue := ss_sendQueue (sr_session r) @ sbs, ss_isSending := True\<rparr>"
    and r': "r' = r\<lparr>sr_session := s', sr_registering := sr_registering r +
         (if ss_isSending (sr_session r) then 0 else 1), sr_accepted := sr_accepted r @ sbs\<rparr>"
  shows "send_shape mem r' \<and> send_stream mem r'"
proof
  show "send_shape mem r'"
    using inv(1) sbs room unfolding r' s' send_shape_def by (auto simp: Let_def)
  have bufs: "\<forall>sb \<in> set (sr_pending r). buf_ok mem sb"
    using inv(1) by (simp add: send_shape_def Let_def)
  show "send_stream mem r'"
  proof (cases "sr_lost r")
    case True
    then show ?thesis using inv(2) by (simp add: r' s' send_stream_def Let_def bytes_of_append prefix_prefix)
  next
    case False
    then have off: "off_ok (ss_sendOffset (sr_session r)) (sr_pending r)"
      and eq: "sr_wire r @ drop (nat (ss_sendOffset (sr_session r))) (bytes_of mem (sr_pending r)) =
        bytes_of mem (sr_accepted r)"
      using inv(2) by (simp_all add: send_stream_def Let_def)
    have "sr_pending r' = sr_pending r @ sbs" by (simp add: r' s')
    then show ?thesis
      using False eq off_ok_snoc [OF off, of sbs] drop_off_append [OF bufs off, of "bytes_of mem sbs"]
      by (simp add: r' s' send_stream_def Let_def bytes_of_append flip: append_assoc)
  qed
qed

text \<open>Handing a list of buffers to the system: what all outcomes of \<open>RegisterSend\<close> share.\<close>

lemma RegisterSend_closed: "\<not> ss_connected s \<Longrightarrow> RegisterSend w d s = (s, None)"
  by (simp add: RegisterSend_def)

lemma RegisterSend_open:
  assumes "ss_connected s" "0 \<le> ss_sendOffset s" "ss_sendQueue s \<noteq> []" "ss_sendEvent s = []"
  defines "g \<equiv> gather_of (ss_sendOffset s) (take MAX_GATHER (ss_sendQueue s))"
  obtains
    (posted) s' where "RegisterSend w d s = (s', Some g)" "ss_connected s'" "ss_isSending s' = ss_isSending s"
      "ss_sendOffset s' = ss_sendOffset s" "ss_sendEvent s' = take MAX_GATHER (ss_sendQueue s)"
      "ss_sendQueue s' = drop MAX_GATHER (ss_sendQueue s)"
  | (stalled) s' where "RegisterSend w d s = (s', None)" "ss_connected s'" "ss_isSending s' = ss_isSending s"
      "ss_sendOffset s' = ss_sendOffset s" "ss_sendEvent s' = take MAX_GATHER (ss_sendQueue s)"
      "ss_sendQueue s' = drop MAX_GATHER (ss_sendQueue s)"
  | (failed) s' where "RegisterSend w d s = (s', None)" "\<not> ss_connected s'" "\<not> ss_isSending s'"
      "ss_sendEvent s' = []" "ss_sendQueue s' = drop MAX_GATHER (ss_sendQueue s)"
proof -
  have m: "take MAX_GATHER (ss_sendQueue s) \<noteq> []" using assms(3) by (simp add: MAX_GATHER_def)
  then have "gather_of (ss_sendOffset s) (take MAX_GATHER (ss_sendQueue s)) \<noteq> []"
    by (cases "take MAX_GATHER (ss_sendQueue s)") auto
  note defs = RegisterSend_def gather_loop_eq [OF assms(2)] g_def post_def Let_def
  show thesis
  proof (cases w)
    case OsDone
    with assms(1,4) \<open>gather_of _ _ \<noteq> []\<close> show ?thesis by (intro posted [of "fst (RegisterSend w d s)"]) (simp_all add: defs)
  next
    case (OsError e)
    consider "e = WSA_IO_PENDING" | "e \<noteq> WSA_IO_PENDING" "IsRecoverableErrorCode e"
      | "e \<noteq> WSA_IO_PENDING" "\<not> IsRecoverableErrorCode e" by blast
    then show ?thesis
    proof cases
      case 1
      with OsError assms(1,4) \<open>gather_of _ _ \<noteq> []\<close> show ?thesis by (intro posted [of "fst (RegisterSend w d s)"]) (simp_all add: defs)
    next
      case 2
      with OsError assms(1,4) \<open>gather_of _ _ \<noteq> []\<close> show ?thesis by (intro stalled [of "fst (RegisterSend w d s)"]) (simp_all add: defs)
    next
      case 3
      with OsError assms(1,4) \<open>gather_of _ _ \<noteq> []\<close> show ?thesis by (intro failed [of "fst (RegisterSend w d s)"]) (simp_all add: defs)
    qed
  qed
qed

lemma send_inv_push_many:
  assumes inv: "send_shape mem r" "send_stream mem r" and sbs: "\<forall>sb \<in> set sbs. buf_ok mem sb" "sbs \<noteq> []"
    and p: "Send_push_many sbs (sr_session r) = (s', reg, over)"
  shows "send_shape mem (r\<lparr>sr_session := s', sr_registering := sr_registering r + (if reg then 1 else 0),
      sr_accepted := (if over then sr_accepted r else sr_accepted r @ sbs)\<rparr>) \<and>
    send_stream mem (r\<lparr>sr_session := s', sr_registering := sr_registering r + (if reg then 1 else 0),
      sr_accepted := (if over then sr_accepted r else sr_accepted r @ sbs)\<rparr>)"
proof (cases "length (ss_sendQueue (sr_session r)) + length sbs \<ge> MAX_SEND_QUEUE_SIZE")
  case True
  with p have "s' = sr_session r" "\<not> reg" "over" by (simp_all add: Send_push_many_def)
  with inv show ?thesis by simp
next
  case False
  with p have *: "s' = (sr_session r)\<lparr>ss_sendQueue := ss_sendQueue (sr_session r) @ sbs, ss_isSending := True\<rparr>"
    "reg = (\<not> ss_isSending (sr_session r))" "\<not> over"
    by (auto simp: Send_push_many_def)
  show ?thesis
    by (rule send_inv_accept [OF inv sbs _ *(1)]) (use False * in auto)
qed

lemma send_inv_push:
  assumes inv: "send_shape mem r" "send_stream mem r" and sb: "buf_ok mem sb"
    and p: "Send_push sb (sr_session r) = (s', reg, over)"
  shows "send_shape mem (r\<lparr>sr_session := s', sr_registering := sr_registering r + (if reg then 1 else 0),
      sr_accepted := (if over then sr_accepted r else sr_accepted r @ [sb])\<rparr>) \<and>
    send_stream mem (r\<lparr>sr_session := s', sr_registering := sr_registering r + (if reg then 1 else 0),
      sr_accepted := (if over then sr_accepted r else sr_accepted r @ [sb])\<rparr>)"
proof (cases "length (ss_sendQueue (sr_session r)) \<ge> MAX_SEND_QUEUE_SIZE")
  case True
  with p have "s' = sr_session r" "\<not> reg" "over" by (simp_all add: Send_push_def)
  with inv show ?thesis by simp
next
  case False
  with p have *: "s' = (sr_session r)\<lparr>ss_sendQueue := ss_sendQueue (sr_session r) @ [sb], ss_isSending := True\<rparr>"
    "reg = (\<not> ss_isSending (sr_session r))" "\<not> over"
    by (auto simp: Send_push_def)
  show ?thesis
    by (rule send_inv_accept [OF inv _ _ _ *(1)]) (use False * sb in auto)
qed

lemma active_registering: "sr_active r \<le> Suc 0 \<Longrightarrow> 0 < sr_registering r \<Longrightarrow>
    sr_registering r = 1 \<and> sr_inflight r = []"
  by (cases "sr_inflight r") auto

lemma send_inv_disconnect:
  assumes "send_shape mem r" "send_stream mem r"
  shows "send_shape mem (r\<lparr>sr_session := Session_Disconnect d (sr_session r)\<rparr>) \<and>
    send_stream mem (r\<lparr>sr_session := Session_Disconnect d (sr_session r)\<rparr>)"
  using assms by (simp add: send_shape_def send_stream_def Let_def)

lemma send_inv_zero:
  assumes inv: "send_shape mem r" "send_stream mem r" and fl: "sr_inflight r = as @ g # bs"
  shows "send_shape mem (r\<lparr>sr_session := ProcessSend 0 w d (sr_session r), sr_inflight := as @ bs,
      sr_lost := True\<rparr>) \<and>
    send_stream mem (r\<lparr>sr_session := ProcessSend 0 w d (sr_session r), sr_inflight := as @ bs,
      sr_lost := True\<rparr>)"
proof -
  have one: "as = []" "bs = []" "sr_registering r = 0"
    using inv(1) fl by (auto simp: send_shape_def Let_def)
  have "sr_inflight r = [g]" using fl one by simp
  then have "\<not> sr_lost r" using inv(2) by (auto simp: send_stream_def Let_def)
  then have "prefix (sr_wire r) (bytes_of mem (sr_accepted r))"
    using inv(2) by (auto simp: send_stream_def Let_def intro: prefixI [OF sym])
  with one inv(1) show ?thesis
    by (simp add: send_shape_def send_stream_def Let_def ProcessSend_def)
qed

lemma send_inv_register_closed:
  assumes inv: "send_shape mem r" "send_stream mem r" and reg: "sr_registering r > 0"
    and c: "\<not> ss_connected (sr_session r)"
  shows "send_shape mem (r\<lparr>sr_registering := sr_registering r - 1\<rparr>) \<and>
    send_stream mem (r\<lparr>sr_registering := sr_registering r - 1\<rparr>)"
proof -
  have "sr_inflight r = []" "sr_registering r = 1"
    using inv(1) reg by (auto simp: send_shape_def Let_def dest: active_registering)
  then show ?thesis using inv c by (auto simp: send_shape_def send_stream_def Let_def)
qed

text \<open>The facts a registering thread finds while the session is connected.\<close>

lemma registering_facts:
  assumes inv: "send_shape mem r" "send_stream mem r" and reg: "sr_registering r > 0"
    and c: "ss_connected (sr_session r)"
  shows "\<not> sr_lost r" "ss_sendEvent (sr_session r) = []" "ss_sendQueue (sr_session r) \<noteq> []"
    "sr_registering r = 1" "sr_inflight r = []" "0 \<le> ss_sendOffset (sr_session r)"
    "ss_isSending (sr_session r)"
proof -
  show l: "\<not> sr_lost r" using inv(2) c by (auto simp: send_stream_def Let_def)
  show "ss_sendEvent (sr_session r) = []" "ss_sendQueue (sr_session r) \<noteq> []" "sr_registering r = 1"
    "sr_inflight r = []" "ss_isSending (sr_session r)"
    using inv(1) reg by (auto simp: send_shape_def Let_def dest: active_registering)
  show "0 \<le> ss_sendOffset (sr_session r)"
    using inv(2) l off_ok_nonneg by (auto simp: send_stream_def Let_def)
qed

lemma send_inv_post:
  assumes inv: "send_shape mem r" "send_stream mem r" and reg: "sr_registering r > 0"
    and w: "RegisterSend w d (sr_session r) = (s', Some g)"
  shows "send_shape mem (r\<lparr>sr_session := s', sr_registering := sr_registering r - 1,
      sr_inflight := g # sr_inflight r\<rparr>) \<and>
    send_stream mem (r\<lparr>sr_session := s', sr_registering := sr_registering r - 1,
      sr_inflight := g # sr_inflight r\<rparr>)"
proof -
  let ?s = "sr_session r" and ?t = "take MAX_GATHER (ss_sendQueue (sr_session r))"
  have c: "ss_connected ?s"
    using w by (cases "ss_connected ?s") (auto simp: RegisterSend_closed)
  note f = registering_facts [OF inv reg c]
  have s': "ss_connected s'" "ss_isSending s' = ss_isSending ?s" "ss_sendOffset s' = ss_sendOffset ?s"
    "ss_sendEvent s' = ?t" "ss_sendQueue s' = drop MAX_GATHER (ss_sendQueue ?s)"
    "g = gather_of (ss_sendOffset ?s) ?t"
    by (rule RegisterSend_open [OF c f(6,3,2), of w d]; use w in auto)+
  have pend: "ss_sendEvent s' @ ss_sendQueue s' = ss_sendQueue ?s" using s' by simp
  have ne: "?t \<noteq> []" using f(3) by (simp add: MAX_GATHER_def)
  have len: "length ?t \<le> MAX_GATHER" by simp
  have "send_shape mem (r\<lparr>sr_session := s', sr_registering := 0, sr_inflight := [g]\<rparr>)"
    using inv(1) f ne len s' pend unfolding send_shape_def
    by (simp add: Let_def del: append_take_drop_id flip: set_append length_append)
  moreover have "send_stream mem (r\<lparr>sr_session := s', sr_registering := 0, sr_inflight := [g]\<rparr>)"
    using inv(2) f pend s'(3) unfolding send_stream_def
    by (simp add: Let_def)
  ultimately show ?thesis using f by simp
qed

lemma drop_shorter: "0 < n \<Longrightarrow> xs \<noteq> [] \<Longrightarrow> drop n xs \<noteq> xs"
  by (metis diff_less length_drop length_greater_0_conv less_irrefl)

lemma send_inv_fail:
  assumes inv: "send_shape mem r" "send_stream mem r" and reg: "sr_registering r > 0"
    and w: "RegisterSend w d (sr_session r) = (s', None)"
  defines "r' \<equiv> r\<lparr>sr_session := s', sr_registering := sr_registering r - 1,
       sr_lost := sr_lost r \<or> ss_sendEvent s' = [] \<and> ss_sendQueue s' \<noteq> ss_sendQueue (sr_session r),
       sr_stalled := sr_stalled r \<or> ss_connected s'\<rparr>"
  shows "send_shape mem r' \<and> send_stream mem r'"
proof (cases "ss_connected (sr_session r)")
  case False
  then have "s' = sr_session r" using w by (simp add: RegisterSend_closed)
  then show ?thesis
    using send_inv_register_closed [OF inv reg False] False by (simp add: r'_def)
next
  case c: True
  let ?s = "sr_session r" and ?t = "take MAX_GATHER (ss_sendQueue (sr_session r))"
  note f = registering_facts [OF inv reg c]
  have ne: "?t \<noteq> []" "drop MAX_GATHER (ss_sendQueue ?s) \<noteq> ss_sendQueue ?s"
    using f(3) drop_shorter [of MAX_GATHER] by (simp_all add: MAX_GATHER_def)
  have len: "length ?t \<le> MAX_GATHER" by simp
  show ?thesis
  proof (rule RegisterSend_open [OF c f(6,3,2), of w d])
    fix t assume "RegisterSend w d ?s = (t, Some (gather_of (ss_sendOffset ?s) ?t))"
    then show ?thesis using w by simp
  next
    fix t assume t: "RegisterSend w d ?s = (t, None)" "ss_connected t" "ss_isSending t = ss_isSending ?s"
      "ss_sendOffset t = ss_sendOffset ?s" "ss_sendEvent t = ?t"
      "ss_sendQueue t = drop MAX_GATHER (ss_sendQueue ?s)"
    have pend: "ss_sendEvent t @ ss_sendQueue t = ss_sendQueue ?s" using t by simp
    have r': "r' = r\<lparr>sr_session := t, sr_registering := 0, sr_lost := False, sr_stalled := True\<rparr>"
      using w t f ne(1) by (simp add: r'_def)
    have "send_shape mem r'"
      using inv(1) f ne(1) len t pend unfolding send_shape_def r'
      by (simp add: Let_def del: append_take_drop_id flip: set_append length_append)
    moreover have "send_stream mem r'"
      using inv(2) f pend t(4) unfolding send_stream_def r'
      by (simp add: Let_def)
    ultimately show ?thesis by simp
  next
    fix t assume t: "RegisterSend w d ?s = (t, None)" "\<not> ss_connected t" "\<not> ss_isSending t"
      "ss_sendEvent t = []" "ss_sendQueue t = drop MAX_GATHER (ss_sendQueue ?s)"
    have r': "r' = r\<lparr>sr_session := t, sr_registering := 0, sr_lost := True\<rparr>"
      using w t f ne(2) by (simp add: r'_def)
    have "set (ss_sendQueue t) \<subseteq> set (ss_sendQueue ?s)" using t(5) set_drop_subset by metis
    moreover have "length (ss_sendQueue t) \<le> length (ss_sendQueue ?s)" using t(5) by simp
    ultimately have "send_shape mem r'"
      using inv(1) f t(2-4) unfolding send_shape_def r' by (auto simp: Let_def)
    moreover have "send_stream mem r'"
      using inv(2) f t(2-4) unfolding send_stream_def r'
      by (auto simp: Let_def intro: prefixI [OF sym])
    ultimately show ?thesis by simp
  qed
qed

lemma send_inv_complete:
  assumes inv: "send_shape mem r" "send_stream mem r" and fl: "sr_inflight r = as @ g # bs"
    and n: "0 < n" "n \<le> int (length (gather_bytes mem g))"
    and p: "ProcessSend_update n (sr_session r) = (s', reg)"
  defines "r' \<equiv> r\<lparr>sr_session := s', sr_registering := sr_registering r + (if reg then 1 else 0),
       sr_inflight := as @ bs, sr_wire := sr_wire r @ take (nat n) (gather_bytes mem g)\<rparr>"
  shows "send_shape mem r' \<and> send_stream mem r'"
proof -
  let ?s = "sr_session r"
  let ?ev = "ss_sendEvent ?s" and ?q = "ss_sendQueue ?s" and ?off = "ss_sendOffset ?s"
  have one: "as = []" "bs = []" "sr_registering r = 0"
    using inv(1) fl by (auto simp: send_shape_def Let_def)
  then have fl1: "sr_inflight r = [g]" using fl by simp
  then have ev: "?ev \<noteq> []" "g = gather_of ?off ?ev" "ss_isSending ?s"
    and bufs: "\<forall>sb \<in> set (?ev @ ?q). buf_ok mem sb"
    using inv(1) by (auto simp: send_shape_def Let_def)
  have lost: "\<not> sr_lost r" using inv(2) fl1 by (auto simp: send_stream_def Let_def)
  then have off: "off_ok ?off ?ev"
    and eq: "sr_wire r @ drop (nat ?off) (bytes_of mem (?ev @ ?q)) = bytes_of mem (sr_accepted r)"
    using inv(2) ev(1) off_ok_append_left by (auto simp: send_stream_def Let_def)
  have bev: "\<forall>sb \<in> set ?ev. buf_ok mem sb" using bufs by simp
  have gb: "gather_bytes mem g = drop (nat ?off) (bytes_of mem ?ev)"
    unfolding ev(2) by (rule gather_bytes_of [OF bev off])
  obtain unc nxt where u: "complete_loop ?off 0 n ?ev = (unc, nxt)" by fastforce
  have n0: "0 \<le> n" using n(1) by simp
  have nle: "n \<le> int (length (drop (nat ?off) (bytes_of mem ?ev)))" using n(2) by (simp only: gb)
  have c: "drop (nat nxt) (bytes_of mem unc) = drop (nat (?off + n)) (bytes_of mem ?ev)"
    "off_ok nxt unc" "length unc \<le> length ?ev" "set unc \<subseteq> set ?ev"
    using complete_loop_ok [OF bev off n0 nle] by (simp_all add: u)
  have bunc: "\<forall>sb \<in> set unc. buf_ok mem sb" using c(4) bev by blast
  have wire: "take (nat n) (gather_bytes mem g) @ drop (nat nxt) (bytes_of mem (unc @ ?q)) =
      drop (nat ?off) (bytes_of mem (?ev @ ?q))"
  proof -
    have "nat (?off + n) = nat n + nat ?off"
      using n(1) off_ok_nonneg [OF off] by (simp add: nat_add_distrib)
    then have "take (nat n) (gather_bytes mem g) @ drop (nat nxt) (bytes_of mem unc) =
        drop (nat ?off) (bytes_of mem ?ev)"
      using append_take_drop_id [of "nat n" "drop (nat ?off) (bytes_of mem ?ev)"]
      by (simp add: gb c(1))
    then show ?thesis
      unfolding bytes_of_append drop_off_append [OF bunc c(2)] drop_off_append [OF bev off]
      by (simp flip: append_assoc)
  qed
  have upd: "(s', reg) = (if unc \<noteq> [] then (?s\<lparr>ss_sendEvent := [], ss_sendQueue := unc @ ?q,
        ss_sendOffset := nxt\<rparr>, True)
      else if ?q = [] then (?s\<lparr>ss_sendEvent := [], ss_sendOffset := 0, ss_isSending := False\<rparr>, False)
      else (?s\<lparr>ss_sendEvent := [], ss_sendOffset := 0\<rparr>, True))"
    using p u by (cases "unc = []"; cases "?q = []") (auto simp: ProcessSend_update_def)
  have nil: "nxt = 0" if "unc = []" using c(2) that by simp
  have pend: "sr_pending r' = unc @ ?q" "ss_sendEvent (sr_session r') = []"
    "ss_sendOffset (sr_session r') = nxt" "sr_lost r' = sr_lost r"
    "sr_wire r' = sr_wire r @ take (nat n) (gather_bytes mem g)" "sr_accepted r' = sr_accepted r"
    using upd nil by (auto simp: r'_def split: if_splits)
  have shape: "sr_inflight r' = []" "sr_registering r' = (if unc @ ?q = [] then 0 else 1)"
    "ss_isSending (sr_session r') = (unc @ ?q \<noteq> [])" "ss_connected (sr_session r') = ss_connected ?s"
    "sr_stalled r' = sr_stalled r" "ss_sendQueue (sr_session r') = unc @ ?q"
    using upd one ev(3) by (auto simp: r'_def split: if_splits)
  have len: "length (unc @ ?q) \<le> MAX_SEND_QUEUE_SIZE + MAX_GATHER"
    using inv(1) c(3) by (simp add: send_shape_def Let_def)
  have "send_shape mem r'"
    using bunc bufs len unfolding send_shape_def Let_def pend(2) shape by auto
  moreover have "off_ok nxt (unc @ ?q)" using c(2) off_ok_snoc by blast
  then have "send_stream mem r'"
    unfolding send_stream_def Let_def pend shape(6) using lost eq wire by simp
  ultimately show ?thesis ..
qed

lemma send_inv_step:
  assumes "ss_step mem r r'" "send_shape mem r" "send_stream mem r"
  shows "send_shape mem r' \<and> send_stream mem r'"
  using assms(1)
proof cases
  case (push sb s' reg over)
  then show ?thesis using send_inv_push [OF assms(2,3)] by blast
next
  case (push_many sbs s' reg over)
  then show ?thesis using send_inv_push_many [OF assms(2,3)] by blast
next
  case (register_post w d s' g)
  then show ?thesis using send_inv_post [OF assms(2,3)] by blast
next
  case (register_fail w d s')
  then show ?thesis using send_inv_fail [OF assms(2,3)] by blast
next
  case (complete as g bs n s' reg)
  then show ?thesis using send_inv_complete [OF assms(2,3)] by blast
next
  case (complete_zero as g bs w d)
  then show ?thesis using send_inv_zero [OF assms(2,3)] by blast
next
  case (disconnect d)
  then show ?thesis using send_inv_disconnect [OF assms(2,3)] by blast
qed

abbreviation send_reach :: "(send_buffer \<Rightarrow> byte list) \<Rightarrow> session \<Rightarrow> send_run \<Rightarrow> bool" where
  "send_reach mem s r \<equiv> (ss_step mem)\<^sup>*\<^sup>* (run_start s) r"

lemma send_inv_reach:
  assumes "send_reach mem s r" "send_start s"
  shows "send_shape mem r \<and> send_stream mem r"
  using assms(1)
proof (induction rule: rtranclp_induct)
  case base
  then show ?case using assms(2) send_inv_start by blast
next
  case (step y z)
  then show ?case using send_inv_step by blast
qed

section \<open>Properties\<close>

text \<open>
  C1: The stream is what was sent. However the threads that send, the completions (partial ones
  included) and a disconnect interleave, the bytes transmitted are at every moment a prefix of
  the concatenation of the accepted buffers in the order of their acceptance: none is lost in
  the middle, repeated or reordered. Until a send fails, the rest is in the event and the queue.
\<close>

theorem session_stream_integrity:
  assumes "send_reach mem s r" "send_start s"
  shows "prefix (sr_wire r) (bytes_of mem (sr_accepted r)) \<and>
    (\<not> sr_lost r \<longrightarrow> sr_wire r @ drop (nat (ss_sendOffset (sr_session r))) (bytes_of mem (sr_pending r)) =
       bytes_of mem (sr_accepted r))"
  using send_inv_reach [OF assms]
  by (auto simp: send_stream_def Let_def split: if_splits intro: prefixI [OF sym])

text \<open>
  One send at a time. Never do two threads serve the queue, never are two sends of a session
  in flight, and the queue with the event holds at most 564 buffers: the limit of 500 on
  acceptance and one gather list put back by a partial completion.
\<close>

theorem session_single_sender:
  assumes "send_reach mem s r" "send_start s"
  shows "sr_registering r + length (sr_inflight r) \<le> 1 \<and> length (sr_pending r) \<le> 564"
  using send_inv_reach [OF assms]
  by (simp add: send_shape_def Let_def MAX_SEND_QUEUE_SIZE_def MAX_GATHER_def)

text \<open>
  C11: No wake-up is lost. While the session is connected and no send has ended with a recoverable
  error, something accepted and not transmitted is on its way: exactly one send is in flight, or
  exactly one thread is about to post it, and then it finds the queue not empty.
\<close>

theorem session_no_lost_wakeup:
  assumes "send_reach mem s r" "send_start s" "ss_connected (sr_session r)" "\<not> sr_stalled r"
    "sr_pending r \<noteq> []"
  shows "sr_registering r + length (sr_inflight r) = 1 \<and>
    (sr_registering r = 1 \<longrightarrow> ss_sendQueue (sr_session r) \<noteq> [])"
proof -
  have i: "send_shape mem r" using send_inv_reach [OF assms(1,2)] by simp
  then have "ss_isSending (sr_session r)" using assms(3,5) by (auto simp: send_shape_def Let_def)
  with i assms(3,4) show ?thesis by (simp add: send_shape_def Let_def)
qed

text \<open>Once nobody serves the queue and \<open>_isSending\<close> is set, nobody ever will.\<close>

lemma stalled_forever:
  assumes "(ss_step mem)\<^sup>*\<^sup>* r r'" "sr_registering r = 0" "sr_inflight r = []" "ss_isSending (sr_session r)"
  shows "sr_registering r' = 0 \<and> sr_inflight r' = [] \<and> ss_isSending (sr_session r') \<and> sr_wire r' = sr_wire r"
  using assms(1)
proof (induction rule: rtranclp_induct)
  case base
  then show ?case using assms by simp
next
  case (step y z)
  from step(2) show ?case
    using step(3) by cases (auto simp: Send_push_def Send_push_many_def split: if_splits)
qed

text \<open>A call of \<open>Send\<close> there only appends to the queue: nobody registers.\<close>

lemma stalled_accepts:
  assumes "ss_isSending (sr_session r)" "ss_connected (sr_session r)" "buf_ok mem sb"
    "length (ss_sendQueue (sr_session r)) < MAX_SEND_QUEUE_SIZE"
    and s': "s' = (sr_session r)\<lparr>ss_sendQueue := ss_sendQueue (sr_session r) @ [sb]\<rparr>"
  shows "Session_Send (Some sb) w d (sr_session r) = s'"
    "ss_step mem r (r\<lparr>sr_session := s', sr_accepted := sr_accepted r @ [sb]\<rparr>)"
proof -
  have p: "Send_push sb (sr_session r) = (s', False, False)"
    using assms(1,4) by (simp add: Send_push_def s')
  then show "Session_Send (Some sb) w d (sr_session r) = s'"
    using assms(2) by (simp add: Session_Send_def)
  show "ss_step mem r (r\<lparr>sr_session := s', sr_accepted := sr_accepted r @ [sb]\<rparr>)"
    using ss_step.push [OF assms(3) p] by simp
qed

text \<open>
  C39: A recoverable error stalls the session. When \<open>WSASend\<close> fails with \<open>WSAEWOULDBLOCK\<close> or
  \<open>WSA_IO_INCOMPLETE\<close>, \<open>RegisterSend\<close> returns with the session connected, the buffers in the event, no
  send in flight and \<open>_isSending\<close> still set. From there, whatever happens, no byte is transmitted any
  more, no send is in flight and no thread is about to post one. Yet as long as the session is
  connected and its queue is below the limit of 500, every call of \<open>Send\<close> succeeds: its buffer is
  accepted, it is appended to the queue, and that is all that happens, for every result the
  operating system could give.
\<close>

theorem recoverable_error_stalls:
  assumes "send_reach mem s r" "send_start s" "sr_registering r > 0" "ss_connected (sr_session r)"
    "e = WSAEWOULDBLOCK \<or> e = WSA_IO_INCOMPLETE"
  shows "\<exists>r1. ss_step mem r r1 \<and> sr_session r1 = fst (RegisterSend (OsError e) d (sr_session r)) \<and>
    ss_connected (sr_session r1) \<and> sr_pending r1 = sr_pending r \<and> sr_pending r1 \<noteq> [] \<and>
    (\<forall>r'. (ss_step mem)\<^sup>*\<^sup>* r1 r' \<longrightarrow> sr_wire r' = sr_wire r) \<and>
    (\<forall>r'. (ss_step mem)\<^sup>*\<^sup>* r1 r' \<longrightarrow> sr_inflight r' = [] \<and> sr_registering r' = 0 \<and>
      (\<forall>sb. ss_connected (sr_session r') \<and> length (ss_sendQueue (sr_session r')) < MAX_SEND_QUEUE_SIZE \<and>
          buf_ok mem sb \<longrightarrow>
        (\<exists>r''. ss_step mem r' r'' \<and> (\<forall>w d'. sr_session r'' = Session_Send (Some sb) w d' (sr_session r')) \<and>
          sr_session r'' = (sr_session r')\<lparr>ss_sendQueue := ss_sendQueue (sr_session r') @ [sb]\<rparr> \<and>
          sr_accepted r'' = sr_accepted r' @ [sb] \<and> sr_pending r'' = sr_pending r' @ [sb] \<and>
          sr_wire r'' = sr_wire r)))"
proof -
  have inv: "send_shape mem r" "send_stream mem r" using send_inv_reach [OF assms(1,2)] by simp_all
  note f = registering_facts [OF inv assms(3,4)]
  let ?s = "sr_session r"
  have e: "e \<noteq> WSA_IO_PENDING" "IsRecoverableErrorCode e"
    using assms(5) by (auto simp: IsRecoverableErrorCode_def WSA_IO_PENDING_def WSAEWOULDBLOCK_def
        WSA_IO_INCOMPLETE_def)
  obtain s' where s': "RegisterSend (OsError e) d ?s = (s', None)" "ss_connected s'"
    "ss_isSending s' = ss_isSending ?s" "ss_sendEvent s' @ ss_sendQueue s' = ss_sendQueue ?s"
    by (rule RegisterSend_open [OF assms(4) f(6,3,2), of "OsError e" d])
      (use e assms(4) in \<open>auto simp: RegisterSend_def post_def Let_def split: prod.splits if_splits\<close>)
  define r1 where "r1 = r\<lparr>sr_session := s', sr_registering := sr_registering r - 1,
       sr_lost := sr_lost r \<or> ss_sendEvent s' = [] \<and> ss_sendQueue s' \<noteq> ss_sendQueue (sr_session r),
       sr_stalled := sr_stalled r \<or> ss_connected s'\<rparr>"
  have st: "ss_step mem r r1" unfolding r1_def by (rule ss_step.register_fail [OF assms(3) s'(1)])
  have r1: "sr_session r1 = s'" by (simp add: r1_def)
  have dead: "sr_registering r' = 0 \<and> sr_inflight r' = [] \<and> ss_isSending (sr_session r') \<and>
      sr_wire r' = sr_wire r" if "(ss_step mem)\<^sup>*\<^sup>* r1 r'" for r'
    using stalled_forever [OF that] f s'(3) by (simp add: r1_def)
  have accepts: "\<exists>r''. ss_step mem r' r'' \<and> (\<forall>w d'. sr_session r'' = Session_Send (Some sb) w d' (sr_session r')) \<and>
      sr_session r'' = (sr_session r')\<lparr>ss_sendQueue := ss_sendQueue (sr_session r') @ [sb]\<rparr> \<and>
      sr_accepted r'' = sr_accepted r' @ [sb] \<and> sr_pending r'' = sr_pending r' @ [sb] \<and> sr_wire r'' = sr_wire r"
    if r': "(ss_step mem)\<^sup>*\<^sup>* r1 r'" "ss_connected (sr_session r')" "buf_ok mem sb"
      "length (ss_sendQueue (sr_session r')) < MAX_SEND_QUEUE_SIZE" for r' sb
  proof -
    have "ss_isSending (sr_session r')" "sr_wire r' = sr_wire r" using dead [OF r'(1)] by simp_all
    define r2 where "r2 = r'\<lparr>sr_session := (sr_session r')\<lparr>ss_sendQueue := ss_sendQueue (sr_session r') @ [sb]\<rparr>,
        sr_accepted := sr_accepted r' @ [sb]\<rparr>"
    have "ss_step mem r' r2" "\<forall>w d'. Session_Send (Some sb) w d' (sr_session r') = sr_session r2"
      using stalled_accepts [OF \<open>ss_isSending (sr_session r')\<close> r'(2-4) refl] by (simp_all add: r2_def)
    with \<open>sr_wire r' = sr_wire r\<close> show ?thesis by (intro exI [of _ r2]) (simp add: r2_def)
  qed
  show ?thesis
  proof (rule exI [of _ r1], intro conjI allI impI st)
    show "sr_session r1 = fst (RegisterSend (OsError e) d (sr_session r))" "ss_connected (sr_session r1)"
      "sr_pending r1 = sr_pending r" "sr_pending r1 \<noteq> []"
      using s' f(2,3) by (simp_all add: r1)
  qed (((elim conjE, rule accepts, assumption+) | simp add: dead)+)
qed

section \<open>A run\<close>

text \<open>A buffer of three bytes is accepted and posted; two bytes are transmitted.\<close>

definition ex_buf :: send_buffer where
  "ex_buf = \<lparr>sb_owner = 0, sb_buffer = 0, sb_allocSize = 4, sb_writeSize = 3\<rparr>"

definition ex_mem :: "send_buffer \<Rightarrow> byte list" where
  "ex_mem sb = (if sb = ex_buf then [1, 2, 3] else [])"

definition ex_session :: session where
  "ex_session = (Session_new \<lparr>rb_buffer = [], rb_capacity = 0, rb_readPos = 0, rb_writePos = 0\<rparr>)
     \<lparr>ss_connected := True\<rparr>"

lemma ex_start: "send_start ex_session"
  by (simp add: send_start_def ex_session_def Session_new_def)

lemma ex_run:
  obtains r where "send_reach ex_mem ex_session r" "sr_wire r = [1, 2]" "sr_accepted r = [ex_buf]"
    "sr_registering r = 1" "ss_connected (sr_session r)" "\<not> sr_stalled r" "sr_pending r = [ex_buf]"
    "\<not> sr_lost r" "ss_sendOffset (sr_session r) = 2"
proof -
  let ?r0 = "run_start ex_session"
  let ?s1 = "ex_session\<lparr>ss_sendQueue := [ex_buf], ss_isSending := True\<rparr>"
  let ?r1 = "?r0\<lparr>sr_session := ?s1, sr_registering := 1, sr_accepted := [ex_buf]\<rparr>"
  let ?g = "[(ex_buf, 0, 3)]"
  let ?s2 = "?s1\<lparr>ss_sendOwner := True, ss_sendQueue := [], ss_sendEvent := [ex_buf],
      ss_posts := [PostSend ?g]\<rparr>"
  let ?r2 = "?r1\<lparr>sr_session := ?s2, sr_registering := 0, sr_inflight := [?g]\<rparr>"
  let ?s3 = "?s2\<lparr>ss_sendEvent := [], ss_sendQueue := [ex_buf], ss_sendOffset := 2\<rparr>"
  let ?r3 = "?r2\<lparr>sr_session := ?s3, sr_registering := 1, sr_inflight := [], sr_wire := [1, 2]\<rparr>"
  note defs = ex_session_def Session_new_def run_start_def
  have "ss_step ex_mem ?r0 ?r1"
    using ss_step.push [of ex_mem ex_buf ?r0 ?s1 True False]
    by (simp add: defs buf_ok_def ex_mem_def ex_buf_def Send_push_def MAX_SEND_QUEUE_SIZE_def)
  moreover have "ss_step ex_mem ?r1 ?r2"
    using ss_step.register_post [of ?r1 OsDone OsDone ?s2 ?g]
    by (simp add: defs RegisterSend_def MAX_GATHER_def post_def ex_buf_def)
  moreover have "ss_step ex_mem ?r2 ?r3"
    using ss_step.complete [of ?r2 "[]" ?g "[]" 2 ex_mem ?s3 True]
    by (simp add: defs gather_bytes_def ProcessSend_update_def ex_mem_def ex_buf_def)
  ultimately have "send_reach ex_mem ex_session ?r3"
    by (meson rtranclp.rtrancl_refl rtranclp.rtrancl_into_rtrancl)
  then show thesis by (rule that) (simp_all add: defs)
qed

theorem session_stream_integrity_witness:
  "\<exists>r. send_reach ex_mem ex_session r \<and> sr_wire r = [1, 2] \<and> sr_accepted r = [ex_buf] \<and>
     prefix (sr_wire r) (bytes_of ex_mem (sr_accepted r))"
proof -
  obtain r where r: "send_reach ex_mem ex_session r" "sr_wire r = [1, 2]" "sr_accepted r = [ex_buf]"
    by (rule ex_run)
  from session_stream_integrity [OF r(1) ex_start] r show ?thesis by blast
qed

theorem session_single_sender_witness:
  "\<exists>r. send_reach ex_mem ex_session r \<and> sr_registering r = 1 \<and>
     sr_registering r + length (sr_inflight r) \<le> 1 \<and> length (sr_pending r) \<le> 564"
proof -
  obtain r where r: "send_reach ex_mem ex_session r" "sr_registering r = 1" by (rule ex_run)
  from session_single_sender [OF r(1) ex_start] r show ?thesis by blast
qed

theorem session_no_lost_wakeup_witness:
  "\<exists>r. send_reach ex_mem ex_session r \<and> sr_pending r = [ex_buf] \<and>
     sr_registering r + length (sr_inflight r) = 1"
proof -
  obtain r where r: "send_reach ex_mem ex_session r" "ss_connected (sr_session r)" "\<not> sr_stalled r"
    "sr_pending r = [ex_buf]"
    by (rule ex_run)
  then have "sr_pending r \<noteq> []" by simp
  from session_no_lost_wakeup [OF r(1) ex_start r(2,3) this] r show ?thesis by blast
qed

theorem recoverable_error_stalls_witness:
  "\<exists>r r1. send_reach ex_mem ex_session r \<and> ss_step ex_mem r r1 \<and> ss_connected (sr_session r1) \<and>
     sr_pending r1 = [ex_buf] \<and> (\<forall>r'. (ss_step ex_mem)\<^sup>*\<^sup>* r1 r' \<longrightarrow> sr_wire r' = [1, 2]) \<and>
     (\<exists>r2. ss_step ex_mem r1 r2 \<and> sr_accepted r2 = sr_accepted r1 @ [ex_buf] \<and>
       sr_pending r2 = [ex_buf, ex_buf] \<and> sr_wire r2 = [1, 2])"
proof -
  obtain r where r: "send_reach ex_mem ex_session r" "sr_wire r = [1, 2]" "sr_registering r = 1"
    "ss_connected (sr_session r)" "sr_pending r = [ex_buf]"
    by (rule ex_run)
  then have "sr_registering r > 0" by simp
  from recoverable_error_stalls [OF r(1) ex_start this r(4) disjI1 [OF refl], of OsDone] r(2,5)
  obtain r1 where r1: "ss_step ex_mem r r1" "ss_connected (sr_session r1)" "sr_pending r1 = [ex_buf]"
    "\<forall>r'. (ss_step ex_mem)\<^sup>*\<^sup>* r1 r' \<longrightarrow> sr_wire r' = [1, 2]"
    and accepts: "\<And>sb. ss_connected (sr_session r1) \<and> length (ss_sendQueue (sr_session r1)) < MAX_SEND_QUEUE_SIZE \<and>
      buf_ok ex_mem sb \<Longrightarrow> \<exists>r''. ss_step ex_mem r1 r'' \<and> sr_accepted r'' = sr_accepted r1 @ [sb] \<and>
        sr_pending r'' = sr_pending r1 @ [sb] \<and> sr_wire r'' = [1, 2]"
    by (metis rtranclp.rtrancl_refl)
  have "length (ss_sendQueue (sr_session r1)) < MAX_SEND_QUEUE_SIZE"
    using arg_cong [OF r1(3), of size] by (simp add: MAX_SEND_QUEUE_SIZE_def)
  moreover have "buf_ok ex_mem ex_buf" by (simp add: buf_ok_def ex_mem_def ex_buf_def)
  ultimately have "\<exists>r2. ss_step ex_mem r1 r2 \<and> sr_accepted r2 = sr_accepted r1 @ [ex_buf] \<and>
      sr_pending r2 = sr_pending r1 @ [ex_buf] \<and> sr_wire r2 = [1, 2]"
    using accepts r1(2) by blast
  with r(1) r1 show ?thesis by auto
qed

end
