(* ===== verification/SessionRecv.thy ===== *)
theory SessionRecv
  imports Session
begin

text \<open>
  The receive side of a session. The system scatters \<open>n\<close> bytes into the spans \<open>RegisterRecv\<close>
  posted and completes with \<open>n\<close>; \<open>ProcessRecv\<close> hands what is buffered to \<open>OnRecv\<close>, drops what
  \<open>OnRecv\<close> consumed and posts again. Here \<open>OnRecv\<close> is that of \<open>PacketSession\<close>, which calls the virtual
  \<open>OnRecvPacket\<close> of the session's class: \<open>hook\<close>, any function of a packet's bytes on the session and
  the rest of the program's state.
\<close>

section \<open>A completed receive\<close>

text \<open>\<open>b\<close> is the array after the system has stored \<open>d\<close> in the posted spans.\<close>

definition recv_filled :: "ring_buffer \<Rightarrow> byte list \<Rightarrow> byte list \<Rightarrow> bool" where
  "recv_filled rb d b \<longleftrightarrow> d \<noteq> [] \<and> int (length d) \<le> GetFreeSize rb \<and> length b = length (rb_buffer rb) \<and>
     (\<forall>k < length d. b ! (span_addrs (GetWriteSpan rb 0) ! k) = d ! k) \<and>
     (\<forall>a < length (rb_buffer rb). a \<notin> set (take (length d) (span_addrs (GetWriteSpan rb 0))) \<longrightarrow>
        b ! a = rb_buffer rb ! a)"

lemma recv_filled_contents:
  assumes "rb_inv rb" "recv_filled rb d b"
  obtains rb' where "MoveWritePos (int (length d)) (rb\<lparr>rb_buffer := b\<rparr>) = (True, rb')" "rb_inv rb'"
    "rb_contents rb' = rb_contents rb @ d" "rb_capacity rb' = rb_capacity rb"
    "length (rb_contents rb @ d) < nat (rb_capacity rb)"
proof -
  have n: "0 < int (length d)" "int (length d) \<le> span_bytes (GetFreeSize rb) 0"
    using assms(2) by (auto simp: recv_filled_def span_bytes_def)
  have "\<exists>rb'. MoveWritePos (int (length d)) (rb\<lparr>rb_buffer := b\<rparr>) = (True, rb') \<and> rb_inv rb' \<and>
      rb_contents rb' = rb_contents rb @ d"
    using assms(2) by (intro scatter_receive [OF assms(1) n]) (auto simp: recv_filled_def)
  moreover have "length (rb_contents rb @ d) < nat (rb_capacity rb)"
    using assms(2) GetDataSize_range [OF assms(1)] by (auto simp: recv_filled_def GetFreeSize_def)
  moreover have "rb_capacity rb' = rb_capacity rb" if "MoveWritePos n (rb\<lparr>rb_buffer := b\<rparr>) = (True, rb')" for n rb'
    using that by (auto simp: MoveWritePos_def split: if_splits)
  ultimately show thesis using that by blast
qed

text \<open>An \<open>OnRecv\<close> that leaves the receive ring alone, as every handler of the program does.\<close>

definition keeps_ring :: "'c on_recv \<Rightarrow> bool" where
  "keeps_ring f \<longleftrightarrow> (\<forall>b s c k s' c'. f b (int (length b)) (s, c) = Ok (k, s', c') \<longrightarrow>
     length b \<le> 2147483647 \<longrightarrow> ss_recvBuffer s' = ss_recvBuffer s)"

text \<open>
  What \<open>ProcessRecv\<close> does when the system has delivered \<open>d\<close>: \<open>OnRecv\<close> sees all that is buffered, and
  unless it consumes a positive number of these bytes the session is disconnected.
\<close>

lemma ProcessRecv_filled:
  assumes inv: "rb_inv (ss_recvBuffer s)" "rb_capacity (ss_recvBuffer s) \<le> 2147483647" and b: "recv_filled (ss_recvBuffer s) d b"
    and keeps: "keeps_ring f"
  defines "s1 \<equiv> s\<lparr>ss_recvBuffer := (ss_recvBuffer s)\<lparr>rb_buffer := b\<rparr>\<rparr>"
  obtains rb where "rb_inv rb" "rb_contents rb = rb_contents (ss_recvBuffer s) @ d"
    "length (rb_contents rb) \<le> 2147483647" "rb_capacity rb = rb_capacity (ss_recvBuffer s)"
    "ProcessRecv f (int (length d)) r dd (s1, c) =
      res_bind (f (rb_contents rb) (int (length (rb_contents rb)))
          (s\<lparr>ss_recvOwner := False, ss_recvBuffer := rb\<rparr>, c)) (\<lambda>(k, s3, c').
        if k \<le> 0 \<or> k > int (length (rb_contents rb)) then Ok (Session_Disconnect dd s3, c')
        else Ok (RegisterRecv r dd (s3\<lparr>ss_recvBuffer := snd (MoveReadPos k rb)\<rparr>), c'))"
proof -
  obtain rb where rb: "MoveWritePos (int (length d)) ((ss_recvBuffer s)\<lparr>rb_buffer := b\<rparr>) = (True, rb)"
    "rb_inv rb" "rb_contents rb = rb_contents (ss_recvBuffer s) @ d" "rb_capacity rb = rb_capacity (ss_recvBuffer s)"
    "length (rb_contents (ss_recvBuffer s) @ d) < nat (rb_capacity (ss_recvBuffer s))"
    by (rule recv_filled_contents [OF inv(1) b])
  have d: "d \<noteq> []" using b by (simp add: recv_filled_def)
  have size: "GetDataSize rb = int (length (rb_contents rb))"
    using GetDataSize_range [OF rb(2)] by simp
  have "0 < length (rb_contents rb)" using d rb(3) by (simp del: length_rb_contents)
  with size have pos: "0 < GetDataSize rb" by linarith
  have peek: "RingBuffer_Peek (GetDataSize rb) rb = Ok (Some (rb_contents rb))"
    using RingBuffer_Peek_ok [OF rb(2) pos] by simp
  let ?s2 = "s\<lparr>ss_recvOwner := False, ss_recvBuffer := rb\<rparr>"
  have s2: "s1\<lparr>ss_recvOwner := False, ss_recvBuffer := rb\<rparr> = ?s2"
    by (simp add: s1_def)
  have "ProcessRecv f (int (length d)) r dd (s1, c) =
      res_bind (f (rb_contents rb) (GetDataSize rb) (?s2, c)) (\<lambda>(k, s3, c').
        if k \<le> 0 \<or> k > GetDataSize rb then Ok (Session_Disconnect dd s3, c')
        else Ok (RegisterRecv r dd (s3\<lparr>ss_recvBuffer := snd (MoveReadPos k rb)\<rparr>), c'))"
  proof (cases "f (rb_contents rb) (GetDataSize rb) (?s2, c)")
    case (Inl e)
    then show ?thesis using rb(1) d peek s2 by (simp add: ProcessRecv_def s1_def)
  next
    case (Inr x)
    then obtain k s3 c' where x: "f (rb_contents rb) (GetDataSize rb) (?s2, c) = Ok (k, s3, c')"
      by (metis prod_cases3)
    have "length (rb_contents rb) \<le> 2147483647" using rb(3,5) inv(2) by (simp del: length_rb_contents)
    with x keeps have ring: "ss_recvBuffer s3 = rb" unfolding keeps_ring_def size by fastforce
    have same: "s3\<lparr>ss_recvBuffer := rb\<rparr> = s3" using ring by simp
    show ?thesis
    proof (cases "k \<le> 0 \<or> GetDataSize rb < k")
      case True
      then have "MoveReadPos k rb = (False, rb)" by (rule MoveReadPos_refused)
      then show ?thesis using rb(1) d peek x True ring by (simp add: ProcessRecv_def s1_def same)
    next
      case False
      then have "0 < k" "k \<le> GetDataSize rb" by simp_all
      then obtain rb' where "MoveReadPos k rb = (True, rb')" using MoveReadPos_ok [OF rb(2)] by blast
      then show ?thesis using rb(1) d peek x False ring by (simp add: ProcessRecv_def s1_def)
    qed
  qed
  moreover have "length (rb_contents rb) \<le> 2147483647" using rb(3,5) inv(2) by (simp del: length_rb_contents)
  ultimately show thesis using that rb size by simp
qed

section \<open>The OnRecv of PacketSession\<close>

type_synonym 'c recv_hook = "byte list \<Rightarrow> int32 \<Rightarrow> session \<times> 'c \<Rightarrow> (session \<times> 'c) res"

text \<open>An \<open>OnRecvPacket\<close> that leaves the receive ring alone, as every one of the program does.\<close>

definition hook_keeps_ring :: "'c recv_hook \<Rightarrow> bool" where
  "hook_keeps_ring hook \<longleftrightarrow> (\<forall>b n s c s' c'. hook b n (s, c) = Ok (s', c') \<longrightarrow>
     ss_recvBuffer s' = ss_recvBuffer s)"

lemma feed_keeps_ring:
  assumes "hook_keeps_ring hook" "feed hook fs (s, c) = Ok (s', c')"
  shows "ss_recvBuffer s' = ss_recvBuffer s"
  using assms(2)
proof (induction fs arbitrary: s c)
  case (Cons b bs)
  then obtain s1 c1 where h: "hook b (int (length b)) (s, c) = Ok (s1, c1)" "feed hook bs (s1, c1) = Ok (s', c')"
    by (auto simp: res_iff)
  then have "ss_recvBuffer s1 = ss_recvBuffer s" using assms(1) unfolding hook_keeps_ring_def by blast
  with Cons.IH [OF h(2)] show ?case by simp
qed simp

lemma OnRecv_keeps_ring:
  assumes "hook_keeps_ring hook"
  shows "keeps_ring (OnRecv hook)"
  unfolding keeps_ring_def
proof (intro allI impI)
  fix b s c k s' c'
  assume o: "OnRecv hook b (int (length b)) (s, c) = Ok (k, s', c')" and l: "length b \<le> 2147483647"
  then show "ss_recvBuffer s' = ss_recvBuffer s"
    using feed_keeps_ring [OF assms] by (auto simp: OnRecv_frames [OF l] res_iff split: prod.splits)
qed

section \<open>A receive that completes packets, and one that does not\<close>

lemma recv_delivers:
  fixes c :: 'c
  assumes "rb_inv (ss_recvBuffer s)" "rb_capacity (ss_recvBuffer s) \<le> 2147483647"
    and "recv_filled (ss_recvBuffer s) d b" and "hook_keeps_ring hook"
    and "rb_contents (ss_recvBuffer s) @ d = concat (map packet_bytes ps) @ part" "ps \<noteq> []"
    and "\<forall>p \<in> set ps. packet_size p \<le> 65535"
    and "length part < 4 \<or> 4 \<le> frame_size part \<and> length part < frame_size part"
  shows "\<exists>rb rb'. rb_inv rb' \<and> rb_contents rb' = part \<and> rb_capacity rb' = rb_capacity (ss_recvBuffer s) \<and>
    ProcessRecv (OnRecv hook) (int (length d)) r dd
        (s\<lparr>ss_recvBuffer := (ss_recvBuffer s)\<lparr>rb_buffer := b\<rparr>\<rparr>, c) =
      res_bind (feed hook (map packet_bytes ps) (s\<lparr>ss_recvOwner := False, ss_recvBuffer := rb\<rparr>, c)) (\<lambda>(s', c').
        Ok (RegisterRecv r dd (s'\<lparr>ss_recvBuffer := rb'\<rparr>), c'))"
proof -
  obtain rb where rb: "rb_inv rb" "rb_contents rb = rb_contents (ss_recvBuffer s) @ d"
    "length (rb_contents rb) \<le> 2147483647" "rb_capacity rb = rb_capacity (ss_recvBuffer s)"
    and p: "ProcessRecv (OnRecv hook) (int (length d)) r dd
        (s\<lparr>ss_recvBuffer := (ss_recvBuffer s)\<lparr>rb_buffer := b\<rparr>\<rparr>, c) =
      res_bind (OnRecv hook (rb_contents rb) (int (length (rb_contents rb)))
          (s\<lparr>ss_recvOwner := False, ss_recvBuffer := rb\<rparr>, c)) (\<lambda>(k, s3, c').
        if k \<le> 0 \<or> k > int (length (rb_contents rb)) then Ok (Session_Disconnect dd s3, c')
        else Ok (RegisterRecv r dd (s3\<lparr>ss_recvBuffer := snd (MoveReadPos k rb)\<rparr>), c'))"
    by (rule ProcessRecv_filled [OF assms(1-3) OnRecv_keeps_ring [OF assms(4)], of r dd c])
  define k where "k = (\<Sum>p \<leftarrow> ps. packet_size p)"
  have con: "rb_contents rb = concat (map packet_bytes ps) @ part" using rb(2) assms(5) by simp
  have len: "length (concat (map packet_bytes ps)) = k" by (simp add: k_def length_concat comp_def)
  have k0: "0 < int k" using assms(6) by (cases ps) (auto simp: packet_size_def k_def)
  have le: "int k \<le> int (length (rb_contents rb))" unfolding con by (simp add: len)
  have size: "GetDataSize rb = int (length (rb_contents rb))" using GetDataSize_range [OF rb(1)] by simp
  obtain rb' where rb': "MoveReadPos (int k) rb = (True, rb')" "rb_inv rb'"
    "rb_contents rb' = drop (nat (int k)) (rb_contents rb)" "rb_capacity rb' = rb_capacity rb"
    using MoveReadPos_ok [OF rb(1) k0] le size by metis
  have "frames part = ([], Some part)" using assms(8) by (auto simp: frames.simps [of part])
  then have fr: "frames (rb_contents rb) = (map packet_bytes ps, Some part)"
    unfolding con using frames_packets [of ps part] assms(7) by simp
  have "length (rb_contents rb) - length part = k" unfolding con by (simp add: len)
  then have on: "OnRecv hook (rb_contents rb) (int (length (rb_contents rb))) x =
      res_bind (feed hook (map packet_bytes ps) x) (\<lambda>x'. Ok (int k, x'))" for x
    unfolding OnRecv_frames [OF rb(3)] fr by simp
  have rest: "rb_contents rb' = part" unfolding rb'(3) con by (simp add: len)
  have "ProcessRecv (OnRecv hook) (int (length d)) r dd
        (s\<lparr>ss_recvBuffer := (ss_recvBuffer s)\<lparr>rb_buffer := b\<rparr>\<rparr>, c) =
      res_bind (feed hook (map packet_bytes ps) (s\<lparr>ss_recvOwner := False, ss_recvBuffer := rb\<rparr>, c)) (\<lambda>(s', c').
        Ok (RegisterRecv r dd (s'\<lparr>ss_recvBuffer := rb'\<rparr>), c'))"
    unfolding p on using k0 le rb'(1)
    by (cases "feed hook (map packet_bytes ps) (s\<lparr>ss_recvOwner := False, ss_recvBuffer := rb\<rparr>, c)") auto
  then show ?thesis using rb'(2,4) rb(4) rest by (intro exI [of _ rb] exI [of _ rb'] conjI) simp_all
qed

text \<open>A receive that completes no packet.\<close>

lemma recv_partial:
  fixes c :: 'c
  assumes "rb_inv (ss_recvBuffer s)" "rb_capacity (ss_recvBuffer s) \<le> 2147483647"
    and "recv_filled (ss_recvBuffer s) d b" "hook_keeps_ring hook"
    and "frames (rb_contents (ss_recvBuffer s) @ d) = ([], Some (rb_contents (ss_recvBuffer s) @ d))"
  shows "\<exists>rb. rb_inv rb \<and> rb_contents rb = rb_contents (ss_recvBuffer s) @ d \<and> rb_capacity rb = rb_capacity (ss_recvBuffer s) \<and>
    ProcessRecv (OnRecv hook) (int (length d)) r dd
        (s\<lparr>ss_recvBuffer := (ss_recvBuffer s)\<lparr>rb_buffer := b\<rparr>\<rparr>, c) =
      Ok (Session_Disconnect dd (s\<lparr>ss_recvOwner := False, ss_recvBuffer := rb\<rparr>), c)"
proof -
  obtain rb where rb: "rb_inv rb" "rb_contents rb = rb_contents (ss_recvBuffer s) @ d"
    "length (rb_contents rb) \<le> 2147483647" "rb_capacity rb = rb_capacity (ss_recvBuffer s)"
    and p: "ProcessRecv (OnRecv hook) (int (length d)) r dd
        (s\<lparr>ss_recvBuffer := (ss_recvBuffer s)\<lparr>rb_buffer := b\<rparr>\<rparr>, c) =
      res_bind (OnRecv hook (rb_contents rb) (int (length (rb_contents rb)))
          (s\<lparr>ss_recvOwner := False, ss_recvBuffer := rb\<rparr>, c)) (\<lambda>(k, s3, c').
        if k \<le> 0 \<or> k > int (length (rb_contents rb)) then Ok (Session_Disconnect dd s3, c')
        else Ok (RegisterRecv r dd (s3\<lparr>ss_recvBuffer := snd (MoveReadPos k rb)\<rparr>), c'))"
    by (rule ProcessRecv_filled [OF assms(1-3) OnRecv_keeps_ring [OF assms(4)], of r dd c])
  have "OnRecv hook (rb_contents rb) (int (length (rb_contents rb))) x = Ok (0, x)" for x
    unfolding OnRecv_frames [OF rb(3)] unfolding rb(2) assms(5) by simp
  then show ?thesis unfolding p using rb(1,2,4) by auto
qed

lemma frames_prefix_packet:
  assumes "k < packet_size p" "packet_size p \<le> 65535"
  shows "frames (take k (packet_bytes p)) = ([], Some (take k (packet_bytes p)))"
proof (cases "k < 4")
  case True
  then show ?thesis by (simp add: frames_short)
next
  case False
  then have "take 4 (take k (packet_bytes p)) = take 4 (packet_bytes p)" by (simp add: min_def)
  then have "frame_size (take k (packet_bytes p)) = packet_size p"
    using frame_size_packet [OF assms(2), of "[]"] by (simp add: frame_size_def)
  with False assms(1) show ?thesis by (subst frames.simps) simp
qed

section \<open>Properties\<close>

text \<open>
  A session receives the stream. When the bytes delivered complete at least one packet,
  \<open>OnRecvPacket\<close> is called with the bytes of every complete packet in order, exactly the bytes of the
  last, incomplete one stay buffered, and the next receive is posted (unless one of the calls has
  disconnected the session).
\<close>

theorem recv_delivers_packets:
  fixes c :: 'c and hook :: "'c recv_hook"
  assumes "rb_inv (ss_recvBuffer s)" "rb_capacity (ss_recvBuffer s) \<le> 2147483647"
    and "recv_filled (ss_recvBuffer s) d b" and "hook_keeps_ring hook"
    and "rb_contents (ss_recvBuffer s) @ d = concat (map packet_bytes ps) @ part" "ps \<noteq> []"
    and "\<forall>p \<in> set ps. packet_size p \<le> 65535"
    and "length part < 4 \<or> 4 \<le> frame_size part \<and> length part < frame_size part"
  shows "\<exists>rb rb'. rb_inv rb' \<and> rb_contents rb' = part \<and>
    ProcessRecv (OnRecv hook) (int (length d)) r dd
        (s\<lparr>ss_recvBuffer := (ss_recvBuffer s)\<lparr>rb_buffer := b\<rparr>\<rparr>, c) =
      res_bind (feed hook (map packet_bytes ps) (s\<lparr>ss_recvOwner := False, ss_recvBuffer := rb\<rparr>, c)) (\<lambda>(s', c').
        Ok (RegisterRecv r dd (s'\<lparr>ss_recvBuffer := rb'\<rparr>), c'))"
proof -
  from recv_delivers [OF assms, of r dd c] show ?thesis by blast
qed

text \<open>
  C37: A packet that arrives in two pieces ends the connection. When a receive delivers the first
  bytes of a packet and nothing else is buffered, \<open>OnRecv\<close>, whatever \<open>OnRecvPacket\<close> does, rightly waits for the rest and returns
  0, but \<open>MoveReadPos(0)\<close> is false, and \<open>ProcessRecv\<close> takes that for an invalid packet.
\<close>

theorem partial_packet_disconnects:
  fixes c :: 'c
  assumes "rb_inv (ss_recvBuffer s)" "rb_capacity (ss_recvBuffer s) \<le> 2147483647"
    and "rb_contents (ss_recvBuffer s) = []"
    and "recv_filled (ss_recvBuffer s) (take k (packet_bytes p)) b" "hook_keeps_ring hook"
    and "k < packet_size p" "packet_size p \<le> 65535" "ss_connected s"
  shows "\<exists>s'. ProcessRecv (OnRecv hook) (int (length (take k (packet_bytes p)))) r OsDone
        (s\<lparr>ss_recvBuffer := (ss_recvBuffer s)\<lparr>rb_buffer := b\<rparr>\<rparr>, c) = Ok (s', c) \<and>
      \<not> ss_connected s' \<and> ss_posts s' = ss_posts s @ [PostDisconnect]"
proof -
  have "frames (rb_contents (ss_recvBuffer s) @ take k (packet_bytes p)) =
      ([], Some (rb_contents (ss_recvBuffer s) @ take k (packet_bytes p)))"
    using frames_prefix_packet [OF assms(6,7)] assms(3) by simp
  from recv_partial [OF assms(1,2,4,5) this, of r OsDone c] assms(8) show ?thesis
    by (auto simp: Session_Disconnect_def RegisterDisconnect_def post_def Let_def)
qed

section \<open>A small session\<close>

definition ex_ring :: "byte list \<Rightarrow> ring_buffer" where
  "ex_ring b = \<lparr>rb_buffer = b, rb_capacity = 8, rb_readPos = 0, rb_writePos = 0\<rparr>"

definition ex_connected :: session where
  "ex_connected = (Session_new (ex_ring (replicate 8 0)))\<lparr>ss_connected := True\<rparr>"

definition ex_hook :: "byte list list recv_hook" where
  "ex_hook b n = (\<lambda>(s, seen). Ok (s, seen @ [b]))"

lemma ex_session_facts:
  "rb_inv (ss_recvBuffer ex_connected)" "rb_capacity (ss_recvBuffer ex_connected) \<le> 2147483647"
  "rb_contents (ss_recvBuffer ex_connected) = []" "ss_connected ex_connected"
  "hook_keeps_ring ex_hook"
  by (simp_all add: ex_connected_def Session_new_def ex_ring_def rb_inv_def rb_contents_def
      GetDataSize_def hook_keeps_ring_def ex_hook_def)

lemma le_bytes_2: "le_bytes 2 x = [of_nat (x mod 256), of_nat (x div 256 mod 256)]"
  by (simp add: numeral_2_eq_2)

lemma ex_packet: "packet_bytes (Pkt_C_LEAVE_ROOM ()) = [4, 0, 241, 3]"
  by (simp add: packet_bytes_def packet_size_def enc_C_LEAVE_ROOM_def enc_PacketHeader_def
      enc_uint16_def le_bytes_2)

lemma ex_filled:
  "recv_filled (ss_recvBuffer ex_connected) [4, 0, 241, 3, 9] [4, 0, 241, 3, 9, 0, 0, 0]"
  "recv_filled (ss_recvBuffer ex_connected) [4, 0] [4, 0, 0, 0, 0, 0, 0, 0]"
  by (auto simp: recv_filled_def ex_connected_def Session_new_def ex_ring_def GetFreeSize_def
      GetDataSize_def GetWriteSpan_def span_addrs_def slot_addrs_def less_Suc_eq numeral_eq_Suc)

theorem recv_delivers_packets_witness:
  "\<exists>s'. ProcessRecv (OnRecv ex_hook) 5 OsDone OsDone
      (ex_connected\<lparr>ss_recvBuffer := ex_ring [4, 0, 241, 3, 9, 0, 0, 0]\<rparr>, []) =
      Ok (s', [[4, 0, 241, 3]]) \<and> rb_contents (ss_recvBuffer s') = [9]"
proof -
  have "rb_contents (ss_recvBuffer ex_connected) @ [4, 0, 241, 3, 9] =
      concat (map packet_bytes [Pkt_C_LEAVE_ROOM ()]) @ [9]"
    by (simp add: ex_session_facts ex_packet)
  moreover have "\<forall>p \<in> set [Pkt_C_LEAVE_ROOM ()]. packet_size p \<le> 65535"
    by (simp add: packet_size_def enc_C_LEAVE_ROOM_def)
  ultimately have "\<exists>rb rb'. rb_inv rb' \<and> rb_contents rb' = [9] \<and>
    ProcessRecv (OnRecv ex_hook) (int (length [4, 0, 241, 3, 9 :: byte])) OsDone OsDone
        (ex_connected\<lparr>ss_recvBuffer := (ss_recvBuffer ex_connected)
           \<lparr>rb_buffer := [4, 0, 241, 3, 9, 0, 0, 0]\<rparr>\<rparr>, []) =
      res_bind (feed ex_hook (map packet_bytes [Pkt_C_LEAVE_ROOM ()])
          (ex_connected\<lparr>ss_recvOwner := False, ss_recvBuffer := rb\<rparr>, [])) (\<lambda>(s', c').
        Ok (RegisterRecv OsDone OsDone (s'\<lparr>ss_recvBuffer := rb'\<rparr>), c'))"
    by (intro recv_delivers_packets ex_session_facts ex_filled) simp_all
  moreover have "(ss_recvBuffer ex_connected)\<lparr>rb_buffer := [4, 0, 241, 3, 9, 0, 0, 0]\<rparr> =
      ex_ring [4, 0, 241, 3, 9, 0, 0, 0]"
    by (simp add: ex_connected_def Session_new_def ex_ring_def)
  ultimately show ?thesis
    by (auto simp: ex_hook_def ex_packet RegisterRecv_def post_def Let_def)
qed

theorem partial_packet_disconnects_witness:
  "\<exists>s'. ProcessRecv (OnRecv ex_hook) 2 OsDone OsDone
      (ex_connected\<lparr>ss_recvBuffer := ex_ring [4, 0, 0, 0, 0, 0, 0, 0]\<rparr>, []) = Ok (s', []) \<and>
    \<not> ss_connected s'"
proof -
  have size: "packet_size (Pkt_C_LEAVE_ROOM ()) = 4"
    by (simp add: packet_size_def enc_C_LEAVE_ROOM_def)
  have two: "take 2 (packet_bytes (Pkt_C_LEAVE_ROOM ())) = [4, 0]" by (simp add: ex_packet)
  have "recv_filled (ss_recvBuffer ex_connected) (take 2 (packet_bytes (Pkt_C_LEAVE_ROOM ())))
      [4, 0, 0, 0, 0, 0, 0, 0]"
    unfolding two by (rule ex_filled)
  moreover have "(ss_recvBuffer ex_connected)\<lparr>rb_buffer := [4, 0, 0, 0, 0, 0, 0, 0]\<rparr> =
      ex_ring [4, 0, 0, 0, 0, 0, 0, 0]"
    by (simp add: ex_connected_def Session_new_def ex_ring_def)
  ultimately show ?thesis
    using partial_packet_disconnects [OF ex_session_facts(1-3) _ ex_session_facts(5) _ _
        ex_session_facts(4), of 2 "Pkt_C_LEAVE_ROOM ()" "[4, 0, 0, 0, 0, 0, 0, 0]" OsDone "[]"]
    unfolding two by (auto simp: size)
qed

end
