(* ===== verification/JobQueue.thy ===== *)
theory JobQueue
  imports Prelude "HOL-Library.Multiset"
begin

text \<open>
  \<^verbatim>\<open>ServerEngine/Job/Job.h\<close>, \<^verbatim>\<open>JobQueue.h\<close>, \<^verbatim>\<open>JobQueue.cpp\<close> and \<^verbatim>\<open>GlobalQueue.cpp\<close>: a job queue
  is an actor. Any thread pushes jobs; the push that finds the counter at 0 puts the queue into
  the global queue; a worker takes it out of there, runs up to 64 jobs and puts it back if the
  counter says that there are more. The rooms of the server rely on this for having no locks.

  First the operations one after the other, on the state of one queue and the global queue; then
  their atomic parts, interleaved for any number of queues, pushing threads and workers. A push
  made by a running job is a pushing thread of its own there, which only adds interleavings.
\<close>

section \<open>The operations\<close>

text \<open>A class derived from \<open>JobQueue\<close>, such as \<open>Room\<close>, is an extension of this record.\<close>

record 'j job_queue =
  jq_jobs :: "'j list"
  jq_jobCount :: int32

definition JobQueue_new :: "'j job_queue" where
  "JobQueue_new = \<lparr>jq_jobs = [], jq_jobCount = 0\<rparr>"

text \<open>The global queue holds references to job queues.\<close>

definition GlobalQueue_Push :: "'q \<Rightarrow> 'q list \<Rightarrow> 'q list" where
  "GlobalQueue_Push q g = g @ [q]"

definition GlobalQueue_Pop :: "'q list \<Rightarrow> 'q option \<times> 'q list" where
  "GlobalQueue_Pop g = (case g of [] \<Rightarrow> (None, []) | q # g' \<Rightarrow> (Some q, g'))"

definition GlobalQueue_GetCount :: "'q list \<Rightarrow> int32" where
  "GlobalQueue_GetCount g = int (length g)"

text \<open>\<open>_jobCount.fetch_add(1)\<close>, with the previous count, and \<open>_jobs.push(job)\<close>.\<close>

definition jobCount_fetch_add :: "('j, 'm) job_queue_scheme \<Rightarrow> int32 \<times> ('j, 'm) job_queue_scheme" where
  "jobCount_fetch_add jq = (jq_jobCount jq, jq\<lparr>jq_jobCount := jq_jobCount jq + 1\<rparr>)"

definition jobs_push :: "'j \<Rightarrow> ('j, 'm) job_queue_scheme \<Rightarrow> ('j, 'm) job_queue_scheme" where
  "jobs_push j jq = jq\<lparr>jq_jobs := jq_jobs jq @ [j]\<rparr>"

definition JobQueue_Push ::
    "'q \<Rightarrow> 'j \<Rightarrow> bool \<Rightarrow> ('j, 'm) job_queue_scheme \<Rightarrow> 'q list \<Rightarrow> ('j, 'm) job_queue_scheme \<times> 'q list" where
  "JobQueue_Push self job pushOnly jq g =
     (let (prevCount, jq1) = jobCount_fetch_add jq; jq2 = jobs_push job jq1 in
      if prevCount = 0 then if \<not> pushOnly then (jq2, GlobalQueue_Push self g) else (jq2, g)
      else (jq2, g))"

definition maxExecuteCount :: nat where "maxExecuteCount = 64"

text \<open>The loop under the lock of \<open>Execute\<close>; \<open>n\<close> is \<open>executeList.size()\<close>.\<close>

fun take_loop :: "nat \<Rightarrow> 'j list \<Rightarrow> 'j list \<times> 'j list" where
  "take_loop n [] = ([], [])"
| "take_loop n (j # js) =
     (if n < maxExecuteCount then let (ex, rest) = take_loop (Suc n) js in (j # ex, rest)
      else ([], j # js))"

definition Execute_take :: "('j, 'm) job_queue_scheme \<Rightarrow> 'j list \<times> ('j, 'm) job_queue_scheme" where
  "Execute_take jq = (let (executeList, rest) = take_loop 0 (jq_jobs jq) in
     (executeList, jq\<lparr>jq_jobs := rest\<rparr>))"

text \<open>\<open>fetch_sub(executedCount) - executedCount\<close>.\<close>

definition Execute_done :: "int32 \<Rightarrow> ('j, 'm) job_queue_scheme \<Rightarrow> int32 \<times> ('j, 'm) job_queue_scheme" where
  "Execute_done executedCount jq =
     (jq_jobCount jq - executedCount, jq\<lparr>jq_jobCount := jq_jobCount jq - executedCount\<rparr>)"

text \<open>
  \<open>run\<close> executes a job on the rest of the program, \<open>'s\<close>, with this queue and the global queue:
  a job may push to its own queue.
\<close>

fun run_jobs :: "('j \<Rightarrow> 's \<Rightarrow> 's res) \<Rightarrow> 'j list \<Rightarrow> 's \<Rightarrow> 's res" where
  "run_jobs run [] s = Ok s"
| "run_jobs run (j # js) s = res_bind (run j s) (run_jobs run js)"

definition JobQueue_Execute ::
    "'q \<Rightarrow> ('j \<Rightarrow> 'j job_queue \<times> 'q list \<times> 's \<Rightarrow> ('j job_queue \<times> 'q list \<times> 's) res) \<Rightarrow>
     'j job_queue \<times> 'q list \<times> 's \<Rightarrow> ('j job_queue \<times> 'q list \<times> 's) res" where
  "JobQueue_Execute self run = (\<lambda>(jq, g, s).
     let (executeList, jq1) = Execute_take jq in
     res_bind (run_jobs run executeList (jq1, g, s)) (\<lambda>(jq2, g2, s2).
     let (remain, jq3) = Execute_done (int (length executeList)) jq2 in
     Ok (jq3, if remain > 0 then GlobalQueue_Push self g2 else g2, s2)))"

definition JobQueue_Clear :: "('j, 'm) job_queue_scheme \<Rightarrow> ('j, 'm) job_queue_scheme" where
  "JobQueue_Clear jq = jq\<lparr>jq_jobs := [], jq_jobCount := 0\<rparr>"

lemma take_loop_eq:
  "take_loop n js = (take (maxExecuteCount - n) js, drop (maxExecuteCount - n) js)"
proof (induction js arbitrary: n)
  case (Cons j js)
  show ?case
  proof (cases "n < maxExecuteCount")
    case True
    then have "maxExecuteCount - n = Suc (maxExecuteCount - Suc n)" by simp
    with True Cons show ?thesis by simp
  qed simp
qed simp

lemma Execute_take_eq:
  "Execute_take jq = (take maxExecuteCount (jq_jobs jq), jq\<lparr>jq_jobs := drop maxExecuteCount (jq_jobs jq)\<rparr>)"
  by (simp add: Execute_take_def take_loop_eq)

section \<open>Interleaving\<close>

text \<open>Where a push and where a worker stands between two atomic accesses.\<close>

datatype ('q, 'j) pusher =
    PAdded 'q 'j int32
  | PRegister 'q

datatype ('q, 'j) worker =
    WIdle
  | WPopped 'q
  | WRunning 'q "'j list" nat
  | WRegister 'q

text \<open>\<open>js_stored\<close> and \<open>js_executed\<close> record, for every queue, what has been put into \<open>_jobs\<close> and run.\<close>

record ('q, 'j) jq_sys =
  js_queue :: "'q \<Rightarrow> 'j job_queue"
  js_global :: "'q list"
  js_pushers :: "('q, 'j) pusher multiset"
  js_workers :: "('q, 'j) worker multiset"
  js_stored :: "'q \<Rightarrow> 'j list"
  js_executed :: "'q \<Rightarrow> 'j list"

text \<open>
  The counter is an \<open>int32\<close>; the guard of \<open>push_add\<close> says that fewer than 2147483647 jobs of one
  queue are outstanding.
\<close>

inductive jq_step :: "('q, 'j) jq_sys \<Rightarrow> ('q, 'j) jq_sys \<Rightarrow> bool" where
  push_add: "jq_jobCount (js_queue s q) < 2147483647 \<Longrightarrow>
    jobCount_fetch_add (js_queue s q) = (prevCount, jq) \<Longrightarrow>
    jq_step s (s\<lparr>js_queue := (js_queue s)(q := jq),
                 js_pushers := add_mset (PAdded q j prevCount) (js_pushers s)\<rparr>)"
| push_store: "js_pushers s = add_mset (PAdded q j prevCount) ps \<Longrightarrow>
    jq_step s (s\<lparr>js_queue := (js_queue s)(q := jobs_push j (js_queue s q)),
                 js_pushers := (if prevCount = 0 then add_mset (PRegister q) ps else ps),
                 js_stored := (js_stored s)(q := js_stored s q @ [j])\<rparr>)"
| push_register: "js_pushers s = add_mset (PRegister q) ps \<Longrightarrow>
    jq_step s (s\<lparr>js_global := GlobalQueue_Push q (js_global s), js_pushers := ps\<rparr>)"
| pop: "js_workers s = add_mset WIdle ws \<Longrightarrow> GlobalQueue_Pop (js_global s) = (Some q, g) \<Longrightarrow>
    jq_step s (s\<lparr>js_global := g, js_workers := add_mset (WPopped q) ws\<rparr>)"
| take_jobs: "js_workers s = add_mset (WPopped q) ws \<Longrightarrow> Execute_take (js_queue s q) = (js, jq) \<Longrightarrow>
    jq_step s (s\<lparr>js_queue := (js_queue s)(q := jq),
                 js_workers := add_mset (WRunning q js (length js)) ws\<rparr>)"
| execute: "js_workers s = add_mset (WRunning q (j # js) n) ws \<Longrightarrow>
    jq_step s (s\<lparr>js_workers := add_mset (WRunning q js n) ws,
                 js_executed := (js_executed s)(q := js_executed s q @ [j])\<rparr>)"
| finish: "js_workers s = add_mset (WRunning q [] n) ws \<Longrightarrow>
    Execute_done (int n) (js_queue s q) = (remain, jq) \<Longrightarrow>
    jq_step s (s\<lparr>js_queue := (js_queue s)(q := jq),
                 js_workers := add_mset (if remain > 0 then WRegister q else WIdle) ws\<rparr>)"
| worker_register: "js_workers s = add_mset (WRegister q) ws \<Longrightarrow>
    jq_step s (s\<lparr>js_global := GlobalQueue_Push q (js_global s), js_workers := add_mset WIdle ws\<rparr>)"

inductive_cases jq_stepE: "jq_step s s'"

text \<open>\<open>n\<close> workers, empty queues.\<close>

definition jq_start :: "nat \<Rightarrow> ('q, 'j) jq_sys" where
  "jq_start n = \<lparr>js_queue = \<lambda>_. JobQueue_new, js_global = [], js_pushers = {#},
     js_workers = replicate_mset n WIdle, js_stored = \<lambda>_. [], js_executed = \<lambda>_. []\<rparr>"

abbreviation jq_reach :: "nat \<Rightarrow> ('q, 'j) jq_sys \<Rightarrow> bool" where
  "jq_reach n s \<equiv> jq_step\<^sup>*\<^sup>* (jq_start n) s"

section \<open>The invariant\<close>

text \<open>Who is responsible for a queue: an entry of the global queue, a worker, or a push that will
  register it.\<close>

fun worker_on :: "'q \<Rightarrow> ('q, 'j) worker \<Rightarrow> bool" where
  "worker_on q WIdle = False"
| "worker_on q (WPopped q') = (q = q')"
| "worker_on q (WRunning q' js n) = (q = q')"
| "worker_on q (WRegister q') = (q = q')"

fun pusher_registers :: "'q \<Rightarrow> ('q, 'j) pusher \<Rightarrow> bool" where
  "pusher_registers q (PAdded q' j prev) = (q = q' \<and> prev = 0)"
| "pusher_registers q (PRegister q') = (q = q')"

fun pusher_counted :: "'q \<Rightarrow> ('q, 'j) pusher \<Rightarrow> bool" where
  "pusher_counted q (PAdded q' j prev) = (q = q')"
| "pusher_counted q (PRegister q') = False"

fun worker_taken :: "'q \<Rightarrow> ('q, 'j) worker \<Rightarrow> nat" where
  "worker_taken q (WRunning q' js n) = (if q = q' then n else 0)"
| "worker_taken q _ = 0"

definition tokens :: "'q \<Rightarrow> ('q, 'j) jq_sys \<Rightarrow> nat" where
  "tokens q s = count (mset (js_global s)) q + size (filter_mset (worker_on q) (js_workers s)) +
     size (filter_mset (pusher_registers q) (js_pushers s))"

definition outstanding :: "'q \<Rightarrow> ('q, 'j) jq_sys \<Rightarrow> nat" where
  "outstanding q s = length (jq_jobs (js_queue s q)) +
     size (filter_mset (pusher_counted q) (js_pushers s)) +
     sum_mset (image_mset (worker_taken q) (js_workers s))"

fun worker_order :: "'q \<Rightarrow> 'j list \<Rightarrow> 'j list \<Rightarrow> 'j list \<Rightarrow> ('q, 'j) worker \<Rightarrow> bool" where
  "worker_order q stored executed jobs (WRunning q' js n) = (q = q' \<longrightarrow> stored = executed @ js @ jobs)"
| "worker_order q stored executed jobs (WPopped q') = (q = q' \<longrightarrow> stored = executed @ jobs)"
| "worker_order q stored executed jobs (WRegister q') = (q = q' \<longrightarrow> stored = executed @ jobs)"
| "worker_order q stored executed jobs WIdle = True"

definition q_inv :: "'q \<Rightarrow> ('q, 'j) jq_sys \<Rightarrow> bool" where
  "q_inv q s \<longleftrightarrow> jq_jobCount (js_queue s q) = int (outstanding q s) \<and>
     tokens q s = (if outstanding q s = 0 then 0 else 1) \<and>
     (\<forall>w \<in># js_workers s. worker_order q (js_stored s q) (js_executed s q) (jq_jobs (js_queue s q)) w) \<and>
     (filter_mset (worker_on q) (js_workers s) = {#} \<longrightarrow>
        js_stored s q = js_executed s q @ jq_jobs (js_queue s q))"

definition jq_inv :: "('q, 'j) jq_sys \<Rightarrow> bool" where
  "jq_inv s \<longleftrightarrow> (\<forall>q. q_inv q s)"

lemma jq_inv_start: "jq_inv (jq_start n)"
  by (simp add: jq_inv_def q_inv_def jq_start_def JobQueue_new_def tokens_def outstanding_def)

lemma worker_order_off: "\<not> worker_on q w \<Longrightarrow> worker_order q a b c w"
  by (cases w) auto

lemma worker_order_store:
  "worker_order q a b c w \<Longrightarrow> worker_order q (a @ [j]) b (c @ [j]) w"
  by (cases w) auto

text \<open>The facts about one queue in the hands of a worker.\<close>

lemma q_inv_held:
  assumes "q_inv q s" "js_workers s = add_mset w ws" "worker_on q w"
  shows "q \<notin> set (js_global s)" "\<forall>v \<in># ws. \<not> worker_on q v"
    "\<forall>p \<in># js_pushers s. \<not> pusher_registers q p" "0 < outstanding q s" "tokens q s = 1"
    "worker_order q (js_stored s q) (js_executed s q) (jq_jobs (js_queue s q)) w"
    "worker_taken q w \<le> outstanding q s"
proof -
  show t: "tokens q s = 1" and "0 < outstanding q s"
    using assms by (auto simp: q_inv_def tokens_def split: if_splits)
  then have "count (mset (js_global s)) q + size (filter_mset (worker_on q) ws) +
      size (filter_mset (pusher_registers q) (js_pushers s)) = 0"
    using assms(2,3) by (simp add: tokens_def)
  then show "q \<notin> set (js_global s)" "\<forall>v \<in># ws. \<not> worker_on q v"
    "\<forall>p \<in># js_pushers s. \<not> pusher_registers q p"
    by auto
  show "worker_order q (js_stored s q) (js_executed s q) (jq_jobs (js_queue s q)) w"
    "worker_taken q w \<le> outstanding q s"
    using assms by (auto simp: q_inv_def outstanding_def)
qed

lemma jq_inv_step:
  assumes "jq_step s s'" "jq_inv s"
  shows "jq_inv s'"
  unfolding jq_inv_def
proof
  fix p
  have inv: "q_inv p s" using assms(2) by (simp add: jq_inv_def)
  from assms(1) show "q_inv p s'"
  proof cases
    case (push_add q prevCount jq j)
    then have jq: "prevCount = jq_jobCount (js_queue s q)" "jq_jobs jq = jq_jobs (js_queue s q)"
      "jq_jobCount jq = jq_jobCount (js_queue s q) + 1"
      by (auto simp: jobCount_fetch_add_def)
    have "outstanding p s' = outstanding p s + (if p = q then 1 else 0)"
      "tokens p s' = tokens p s + (if p = q \<and> prevCount = 0 then 1 else 0)"
      using jq(2) by (simp_all add: push_add(1) outstanding_def tokens_def)
    then show ?thesis
      using inv jq by (cases "p = q") (simp_all add: push_add(1) q_inv_def)
  next
    case (push_store q j prevCount ps)
    have "outstanding p s' = outstanding p s" "tokens p s' = tokens p s"
      using push_store(2) by (auto simp: push_store(1) outstanding_def tokens_def jobs_push_def)
    moreover have "\<forall>w \<in># js_workers s.
        worker_order p (js_stored s p) (js_executed s p) (jq_jobs (js_queue s p)) w"
      using inv by (simp add: q_inv_def)
    then have "\<forall>w \<in># js_workers s.
        worker_order p (js_stored s' p) (js_executed s' p) (jq_jobs (js_queue s' p)) w"
      by (auto simp: push_store(1) jobs_push_def worker_order_store)
    ultimately show ?thesis
      using inv unfolding q_inv_def by (auto simp: push_store(1) jobs_push_def)
  next
    case (push_register q ps)
    show ?thesis
      using inv push_register(2) unfolding push_register(1) q_inv_def tokens_def outstanding_def
      by (cases "p = q") (simp_all add: GlobalQueue_Push_def)
  next
    case (pop ws q g)
    have g: "js_global s = q # g" using pop(3) by (cases "js_global s") (auto simp: GlobalQueue_Pop_def)
    show ?thesis
    proof (cases "p = q")
      case True
      have "filter_mset (worker_on p) (js_workers s) = {#}"
        using inv g True by (auto simp: q_inv_def tokens_def split: if_splits)
      then have off: "\<forall>v \<in># ws. worker_order p a b c v" for a b c
        using pop(2) by (auto intro: worker_order_off)
      with \<open>filter_mset (worker_on p) (js_workers s) = {#}\<close> show ?thesis
        using True inv pop(2) g off unfolding pop(1) q_inv_def tokens_def outstanding_def by simp
    next
      case False
      then show ?thesis
        using inv pop(2) g unfolding pop(1) q_inv_def tokens_def outstanding_def by simp
    qed
  next
    case (take_jobs q ws js jq)
    have jq: "js = take maxExecuteCount (jq_jobs (js_queue s q))"
      "jq = (js_queue s q)\<lparr>jq_jobs := drop maxExecuteCount (jq_jobs (js_queue s q))\<rparr>"
      using take_jobs(3) by (simp_all add: Execute_take_eq)
    show ?thesis
    proof (cases "p = q")
      case True
      note h = q_inv_held [OF inv take_jobs(2)]
      have off: "\<forall>v \<in># ws. worker_order p a b c v" for a b c
        using h(2) True by (auto intro: worker_order_off)
      show ?thesis
        using True inv take_jobs(2) jq h(6) off unfolding take_jobs(1) q_inv_def tokens_def outstanding_def
        by (simp add: min_def)
    next
      case False
      then show ?thesis
        using inv take_jobs(2) jq unfolding take_jobs(1) q_inv_def tokens_def outstanding_def by simp
    qed
  next
    case (execute q j js n ws)
    show ?thesis
    proof (cases "p = q")
      case True
      note h = q_inv_held [OF inv execute(2)]
      have off: "\<forall>v \<in># ws. worker_order p a b c v" for a b c
        using h(2) True by (auto intro: worker_order_off)
      show ?thesis
        using True inv execute(2) h(6) off unfolding execute(1) q_inv_def tokens_def outstanding_def
        by simp
    next
      case False
      then show ?thesis
        using inv execute(2) unfolding execute(1) q_inv_def tokens_def outstanding_def by simp
    qed
  next
    case (finish q n ws remain jq)
    have jq: "remain = jq_jobCount (js_queue s q) - int n" "jq_jobs jq = jq_jobs (js_queue s q)"
      "jq_jobCount jq = jq_jobCount (js_queue s q) - int n"
      using finish(3) by (auto simp: Execute_done_def)
    show ?thesis
    proof (cases "p = q")
      case True
      note h = q_inv_held [OF inv finish(2)]
      have off: "\<forall>v \<in># ws. worker_order p a b c v" for a b c
        using h(2) True by (auto intro: worker_order_off)
      have o: "outstanding p s = outstanding p s' + n"
        using True finish(2) jq(2) by (simp add: finish(1) outstanding_def)
      have r: "remain = int (outstanding p s')"
        using inv True jq(1) o by (simp add: q_inv_def)
      have "tokens p s' + 1 = tokens p s + (if remain > 0 then 1 else 0)"
        using True finish(2) by (simp add: finish(1) tokens_def)
      then have t: "tokens p s' = (if outstanding p s' = 0 then 0 else 1)"
        using h(5) True r by (simp split: if_splits)
      have c: "jq_jobCount (js_queue s' p) = int (outstanding p s')"
        using r jq True by (simp add: finish(1))
      show ?thesis
        unfolding q_inv_def using t c True jq(2) h(6) off by (simp add: finish(1))
    next
      case False
      then have "outstanding p s' = outstanding p s" "tokens p s' = tokens p s"
        using finish(2) by (simp_all add: finish(1) outstanding_def tokens_def)
      with False show ?thesis
        using inv finish(2) unfolding q_inv_def by (auto simp: finish(1))
    qed
  next
    case (worker_register q ws)
    show ?thesis
    proof (cases "p = q")
      case True
      note h = q_inv_held [OF inv worker_register(2)]
      have off: "\<forall>v \<in># ws. worker_order p a b c v" for a b c
        using h(2) True by (auto intro: worker_order_off)
      show ?thesis
        using True inv worker_register(2) h(6) off unfolding worker_register(1) q_inv_def tokens_def outstanding_def
        by (simp add: GlobalQueue_Push_def)
    next
      case False
      then show ?thesis
        using inv worker_register(2) unfolding worker_register(1) q_inv_def tokens_def outstanding_def
        by (simp add: GlobalQueue_Push_def)
    qed
  qed
qed

lemma jq_inv_reach: "jq_reach n s \<Longrightarrow> jq_inv s"
proof (induction rule: rtranclp_induct)
  case base
  then show ?case by (rule jq_inv_start)
next
  case (step y z)
  then show ?case using jq_inv_step by blast
qed

text \<open>What has been stored is what has been run, what a worker still has to run, and what is queued.\<close>

lemma q_inv_running:
  assumes inv: "q_inv q s"
  shows "\<exists>running. js_stored s q = js_executed s q @ running @ jq_jobs (js_queue s q) \<and>
    (running = [] \<or> (\<exists>k. WRunning q running k \<in># js_workers s))"
proof (cases "\<exists>w \<in># js_workers s. worker_on q w")
  case True
  then obtain w where w: "w \<in># js_workers s" "worker_on q w" by blast
  then have "worker_order q (js_stored s q) (js_executed s q) (jq_jobs (js_queue s q)) w"
    using inv by (simp add: q_inv_def)
  with w show ?thesis by (cases w) (auto intro: exI [of _ "[]"])
next
  case False
  then have "js_stored s q = js_executed s q @ jq_jobs (js_queue s q)"
    using inv by (auto simp: q_inv_def)
  then show ?thesis by (intro exI [of _ "[]"]) simp
qed

section \<open>Properties\<close>

text \<open>
  C5: One worker per queue. A job queue is at most once in the global queue or in the hands of a
  worker, so no two workers ever run jobs of the same queue: this is what lets \<open>Room\<close> do without
  locks.
\<close>

theorem job_queue_exclusive:
  assumes "jq_reach n s"
  shows "count (mset (js_global s)) q + size (filter_mset (worker_on q) (js_workers s)) \<le> 1"
proof -
  have "q_inv q s" using jq_inv_reach [OF assms] by (simp add: jq_inv_def)
  then have "tokens q s \<le> 1" by (simp add: q_inv_def)
  then show ?thesis by (simp add: tokens_def)
qed

text \<open>
  C21: Jobs run in order, each exactly once. What the workers have run of a queue is a prefix of what
  has been put into it; while a worker runs, the rest is its list followed by the jobs still
  queued, and otherwise the jobs still queued.
\<close>

theorem job_queue_fifo:
  assumes "jq_reach n s"
  shows "\<exists>running. js_stored s q = js_executed s q @ running @ jq_jobs (js_queue s q) \<and>
    (running = [] \<or> (\<exists>k. WRunning q running k \<in># js_workers s))"
  using q_inv_running [of q s] jq_inv_reach [OF assms] by (simp add: jq_inv_def)

text \<open>
  C8: No job is forgotten. A queue that holds jobs is in the global queue, in the hands of a worker,
  or about to be registered by the push that found its counter at 0. So when no push is under way,
  no worker has anything and the global queue is empty, every job that was stored has been run.
\<close>

theorem job_queue_no_lost_jobs:
  assumes "jq_reach n s"
  shows "(jq_jobs (js_queue s q) \<noteq> [] \<longrightarrow> q \<in> set (js_global s) \<or> (\<exists>w \<in># js_workers s. worker_on q w) \<or>
      (\<exists>p \<in># js_pushers s. pusher_registers q p)) \<and>
    (js_global s = [] \<and> js_pushers s = {#} \<and> (\<forall>w \<in># js_workers s. w = WIdle) \<longrightarrow>
      js_executed s q = js_stored s q)"
proof -
  have inv: "q_inv q s" using jq_inv_reach [OF assms] by (simp add: jq_inv_def)
  have 1: "q \<in> set (js_global s) \<or> (\<exists>w \<in># js_workers s. worker_on q w) \<or>
      (\<exists>p \<in># js_pushers s. pusher_registers q p)" if "jq_jobs (js_queue s q) \<noteq> []"
  proof (rule ccontr)
    assume "\<not> ?thesis"
    then have "tokens q s = 0" by (auto simp: tokens_def)
    moreover have "outstanding q s \<noteq> 0" using that by (simp add: outstanding_def)
    ultimately show False using inv by (simp add: q_inv_def)
  qed
  moreover have "js_executed s q = js_stored s q"
    if "js_global s = []" "js_pushers s = {#}" "\<forall>w \<in># js_workers s. w = WIdle"
  proof -
    have idle: "\<not> worker_on q w" if "w \<in># js_workers s" for w
      using that \<open>\<forall>w \<in># js_workers s. w = WIdle\<close> by auto
    then have "js_stored s q = js_executed s q @ jq_jobs (js_queue s q)"
      using inv by (auto simp: q_inv_def)
    moreover have "jq_jobs (js_queue s q) = []" using 1 that(1,2) idle by auto
    ultimately show ?thesis by simp
  qed
  ultimately show ?thesis by blast
qed

section \<open>A run\<close>

text \<open>
  Two jobs are pushed to queue 7 (\<open>r\<close>); later one of them has been run and the worker still has
  the other (\<open>s\<close>).
\<close>

lemma jq_ex_run:
  obtains r s :: "(nat, string) jq_sys" where "jq_reach 1 r" "jq_jobs (js_queue r 7) = [''a'', ''b'']"
    "js_workers r = {#WIdle#}" "js_pushers r = {#}" "jq_reach 1 s" "js_executed s 7 = [''a'']"
    "js_stored s 7 = [''a'', ''b'']" "js_workers s = {#WRunning 7 [''b''] 2#}" "js_global s = []"
    "js_pushers s = {#}" "jq_jobCount (js_queue s 7) = 2" "jq_jobs (js_queue s 7) = []"
proof -
  let ?J = "\<lambda>js c. (\<lambda>_. JobQueue_new)((7::nat) := \<lparr>jq_jobs = js, jq_jobCount = c\<rparr>)"
  let ?S = "\<lambda>js c g ps ws st ex. \<lparr>js_queue = ?J js c, js_global = g, js_pushers = ps, js_workers = ws,
      js_stored = (\<lambda>_. [])(7 := st), js_executed = (\<lambda>_. [])(7 := ex)\<rparr> :: (nat, string) jq_sys"
  let ?s0 = "?S [] 0 [] {#} {#WIdle#} [] []"
  let ?s1 = "?S [] 1 [] {#PAdded 7 ''a'' 0#} {#WIdle#} [] []"
  let ?s2 = "?S [''a''] 1 [] {#PRegister 7#} {#WIdle#} [''a''] []"
  let ?s3 = "?S [''a''] 1 [7] {#} {#WIdle#} [''a''] []"
  let ?s4 = "?S [''a''] 2 [7] {#PAdded 7 ''b'' 1#} {#WIdle#} [''a''] []"
  let ?s5 = "?S [''a'', ''b''] 2 [7] {#} {#WIdle#} [''a'', ''b''] []"
  let ?s6 = "?S [''a'', ''b''] 2 [] {#} {#WPopped 7#} [''a'', ''b''] []"
  let ?s7 = "?S [] 2 [] {#} {#WRunning 7 [''a'', ''b''] 2#} [''a'', ''b''] []"
  let ?s8 = "?S [] 2 [] {#} {#WRunning 7 [''b''] 2#} [''a'', ''b''] [''a'']"
  note defs = JobQueue_new_def jobCount_fetch_add_def jobs_push_def GlobalQueue_Push_def
    GlobalQueue_Pop_def Execute_take_eq maxExecuteCount_def
  have "?s0 = jq_start 1" by (simp add: jq_start_def JobQueue_new_def fun_eq_iff)
  then have r0: "jq_reach 1 ?s0" by simp
  have st1: "jq_step ?s0 ?s1"
    using jq_step.push_add [of ?s0 7 0 "\<lparr>jq_jobs = [], jq_jobCount = 1\<rparr>" "''a''"] by (simp add: defs)
  have st2: "jq_step ?s1 ?s2"
    using jq_step.push_store [of ?s1 7 "''a''" 0 "{#}"] by (simp add: defs)
  have st3: "jq_step ?s2 ?s3"
    using jq_step.push_register [of ?s2 7 "{#}"] by (simp add: defs)
  have st4: "jq_step ?s3 ?s4"
    using jq_step.push_add [of ?s3 7 1 "\<lparr>jq_jobs = [''a''], jq_jobCount = 2\<rparr>" "''b''"] by (simp add: defs)
  have st5: "jq_step ?s4 ?s5"
    using jq_step.push_store [of ?s4 7 "''b''" 1 "{#}"] by (simp add: defs)
  have st6: "jq_step ?s5 ?s6"
    using jq_step.pop [of ?s5 "{#}" 7 "[]"] by (simp add: defs)
  have st7: "jq_step ?s6 ?s7"
    using jq_step.take_jobs [of ?s6 7 "{#}" "[''a'', ''b'']" "\<lparr>jq_jobs = [], jq_jobCount = 2\<rparr>"]
    by (simp add: defs numeral_2_eq_2)
  have st8: "jq_step ?s7 ?s8"
    using jq_step.execute [of ?s7 7 "''a''" "[''b'']" 2 "{#}"] by (simp add: defs)
  note into = rtranclp.rtrancl_into_rtrancl [of jq_step "jq_start 1"]
  note r5 = into [OF into [OF into [OF into [OF into [OF r0 st1] st2] st3] st4] st5]
  note r8 = into [OF into [OF into [OF r5 st6] st7] st8]
  show thesis by (rule that [OF r5 _ _ _ r8]) simp_all
qed

theorem job_queue_exclusive_witness:
  "\<exists>s :: (nat, string) jq_sys. jq_reach 1 s \<and> js_workers s = {#WRunning 7 [''b''] 2#} \<and>
     count (mset (js_global s)) 7 + size (filter_mset (worker_on 7) (js_workers s)) \<le> 1"
proof -
  obtain s :: "(nat, string) jq_sys" where s: "jq_reach 1 s" "js_workers s = {#WRunning 7 [''b''] 2#}"
    by (rule jq_ex_run)
  from job_queue_exclusive [OF s(1)] s show ?thesis by blast
qed

theorem job_queue_fifo_witness:
  "\<exists>s running. jq_reach 1 s \<and> js_stored s (7::nat) = [''a'', ''b''] \<and>
     js_stored s 7 = js_executed s 7 @ running @ jq_jobs (js_queue s 7)"
proof -
  obtain s :: "(nat, string) jq_sys" where s: "jq_reach 1 s" "js_stored s 7 = [''a'', ''b'']"
    by (rule jq_ex_run)
  from job_queue_fifo [OF s(1), of 7] s show ?thesis by blast
qed

theorem job_queue_no_lost_jobs_witness:
  "\<exists>s :: (nat, string) jq_sys. jq_reach 1 s \<and> jq_jobs (js_queue s 7) = [''a'', ''b''] \<and>
     7 \<in> set (js_global s)"
proof -
  obtain r :: "(nat, string) jq_sys" where r: "jq_reach 1 r" "jq_jobs (js_queue r 7) = [''a'', ''b'']"
    "js_workers r = {#WIdle#}" "js_pushers r = {#}"
    by (rule jq_ex_run)
  from job_queue_no_lost_jobs [OF r(1), of 7] r show ?thesis by (intro exI [of _ r]) simp
qed

end
