(* ===== verification/JobTimer.thy ===== *)
theory JobTimer
  imports JobQueue
begin

text \<open>
  \<^verbatim>\<open>ServerEngine/Job/JobTimer.h\<close> and \<^verbatim>\<open>JobTimer.cpp\<close>, with \<open>JobQueue::DoTimer\<close>: jobs that are
  pushed to their queue when a tick has come.

  \<open>std::priority_queue\<close> is an interface, the locale \<open>priority_queue\<close>: its \<open>top\<close> is an element that
  no other is above. \<open>Distribute\<close> is translated over these operations and its lemmas are proved
  from the laws alone; the model then uses the list of the items in the order they are popped.
  The comparison is \<open>TimerItem::operator<\<close>, reversed so that the earliest tick is on top: the
  instance of \<open>preorder\<close> below.
\<close>

section \<open>TimerItem\<close>

datatype ('q, 'j) timer_item = TimerItem (executeTick: uint64) (ti_owner: 'q) (ti_job: 'j)

definition TimerItem_less :: "('a, 'b) timer_item \<Rightarrow> ('a, 'b) timer_item \<Rightarrow> bool" where
  "TimerItem_less x y \<longleftrightarrow> executeTick x > executeTick y"

instantiation timer_item :: (type, type) preorder
begin

definition less_timer_item :: "('a, 'b) timer_item \<Rightarrow> ('a, 'b) timer_item \<Rightarrow> bool" where
  "less_timer_item x y \<longleftrightarrow> TimerItem_less x y"

definition less_eq_timer_item :: "('a, 'b) timer_item \<Rightarrow> ('a, 'b) timer_item \<Rightarrow> bool" where
  "less_eq_timer_item x y \<longleftrightarrow> executeTick x \<ge> executeTick y"

instance
  by standard (auto simp: less_timer_item_def TimerItem_less_def less_eq_timer_item_def)

end

section \<open>The interface of the priority queue\<close>

locale priority_queue =
  fixes pq_empty :: "'h \<Rightarrow> bool"
    and pq_push :: "'a::preorder \<Rightarrow> 'h \<Rightarrow> 'h"
    and pq_top :: "'h \<Rightarrow> 'a"
    and pq_pop :: "'h \<Rightarrow> 'h"
    and pq_items :: "'h \<Rightarrow> 'a multiset"
  assumes empty_iff: "pq_empty h \<longleftrightarrow> pq_items h = {#}"
    and items_push: "pq_items (pq_push x h) = add_mset x (pq_items h)"
    and top_in: "\<not> pq_empty h \<Longrightarrow> pq_top h \<in># pq_items h"
    and top_greatest: "\<not> pq_empty h \<Longrightarrow> x \<in># pq_items h \<Longrightarrow> \<not> pq_top h < x"
    and items_pop: "\<not> pq_empty h \<Longrightarrow> pq_items (pq_pop h) = pq_items h - {#pq_top h#}"

text \<open>
  The loop of \<open>Distribute\<close> under the lock, over any priority queue; \<open>None\<close> would be a loop that
  does not end.
\<close>

partial_function (option) expire_loop ::
    "('h \<Rightarrow> bool) \<Rightarrow> ('h \<Rightarrow> ('q, 'j) timer_item) \<Rightarrow> ('h \<Rightarrow> 'h) \<Rightarrow> uint64 \<Rightarrow> 'h \<Rightarrow>
     (('q, 'j) timer_item list \<times> 'h) option" where
  "expire_loop emp tp pp now h =
     (if emp h then Some ([], h)
      else if executeTick (tp h) > now then Some ([], h)
      else Option.bind (expire_loop emp tp pp now (pp h)) (\<lambda>(expired, h').
             Some (tp h # expired, h')))"

text \<open>The loop of \<open>Clear\<close>.\<close>

partial_function (option) clear_loop ::
    "('h \<Rightarrow> bool) \<Rightarrow> ('h \<Rightarrow> 'h) \<Rightarrow> 'h \<Rightarrow> 'h option" where
  "clear_loop emp pp h = (if emp h then Some h else clear_loop emp pp (pp h))"

locale timer_queue = priority_queue pq_empty pq_push pq_top pq_pop pq_items
  for pq_empty :: "'h \<Rightarrow> bool" and pq_push :: "('q, 'j) timer_item \<Rightarrow> 'h \<Rightarrow> 'h"
    and pq_top :: "'h \<Rightarrow> ('q, 'j) timer_item" and pq_pop :: "'h \<Rightarrow> 'h"
    and pq_items :: "'h \<Rightarrow> ('q, 'j) timer_item multiset"
begin

lemma size_pop: "\<not> pq_empty h \<Longrightarrow> size (pq_items (pq_pop h)) < size (pq_items h)"
  using top_in [of h] by (simp add: items_pop size_Diff1_less)

lemma top_earliest:
  "\<not> pq_empty h \<Longrightarrow> x \<in># pq_items h \<Longrightarrow> executeTick (pq_top h) \<le> executeTick x"
  using top_greatest [of h x] by (simp add: less_timer_item_def TimerItem_less_def)

text \<open>The loop ends, and it takes out exactly the items that are due, earliest first.\<close>

lemma expire_loop_total:
  "\<exists>expired h'. expire_loop pq_empty pq_top pq_pop now h = Some (expired, h') \<and>
     pq_items h = mset expired + pq_items h' \<and> (\<forall>x \<in> set expired. executeTick x \<le> now) \<and>
     (\<forall>x \<in># pq_items h'. now < executeTick x) \<and> sorted (map executeTick expired)"
proof (induction "size (pq_items h)" arbitrary: h rule: less_induct)
  case less
  show ?case
  proof (cases "pq_empty h \<or> executeTick (pq_top h) > now")
    case True
    have "now < executeTick x" if "x \<in># pq_items h" for x
    proof -
      have "\<not> pq_empty h" using that by (auto simp: empty_iff)
      with True top_earliest [OF this that] show ?thesis by auto
    qed
    with True show ?thesis by (subst expire_loop.simps) auto
  next
    case False
    then obtain expired h' where e: "expire_loop pq_empty pq_top pq_pop now (pq_pop h) = Some (expired, h')"
      "pq_items (pq_pop h) = mset expired + pq_items h'" "\<forall>x \<in> set expired. executeTick x \<le> now"
      "\<forall>x \<in># pq_items h'. now < executeTick x" "sorted (map executeTick expired)"
      using less [OF size_pop] by blast
    have items: "pq_items h = add_mset (pq_top h) (mset expired + pq_items h')"
      using False items_pop [of h] top_in [of h] e(2) by (metis insert_DiffM)
    have "executeTick (pq_top h) \<le> executeTick x" if "x \<in> set expired" for x
      using False that items by (intro top_earliest) auto
    with False e items show ?thesis by (subst expire_loop.simps) auto
  qed
qed

lemma clear_loop_total: "\<exists>h'. clear_loop pq_empty pq_pop h = Some h' \<and> pq_items h' = {#}"
proof (induction "size (pq_items h)" arbitrary: h rule: less_induct)
  case less
  show ?case
  proof (cases "pq_empty h")
    case True
    then show ?thesis by (subst clear_loop.simps) (simp add: empty_iff)
  next
    case False
    with less [OF size_pop [OF False]] show ?thesis by (subst clear_loop.simps) simp
  qed
qed

end

section \<open>The model's priority queue\<close>

text \<open>The items in the order in which they are popped; equal ticks in the order of insertion.\<close>

fun tq_push :: "('q, 'j) timer_item \<Rightarrow> ('q, 'j) timer_item list \<Rightarrow> ('q, 'j) timer_item list" where
  "tq_push x [] = [x]"
| "tq_push x (y # ys) = (if y < x then x # y # ys else y # tq_push x ys)"

definition tq_sorted :: "('q, 'j) timer_item list \<Rightarrow> bool" where
  "tq_sorted h \<longleftrightarrow> sorted (map executeTick h)"

lemma set_tq_push [simp]: "set (tq_push x h) = insert x (set h)"
  by (induction h) auto

lemma mset_tq_push [simp]: "mset (tq_push x h) = add_mset x (mset h)"
  by (induction h) auto

lemma tq_sorted_push: "tq_sorted h \<Longrightarrow> tq_sorted (tq_push x h)"
  by (induction h) (auto simp: tq_sorted_def less_timer_item_def TimerItem_less_def not_less)

typedef ('q, 'j) timer_heap = "{h :: ('q, 'j) timer_item list. tq_sorted h}"
  by (rule exI [of _ "[]"]) (simp add: tq_sorted_def)

setup_lifting type_definition_timer_heap

lift_definition th_new :: "('q, 'j) timer_heap" is "[]"
  by (simp add: tq_sorted_def)

lift_definition th_empty :: "('q, 'j) timer_heap \<Rightarrow> bool" is "\<lambda>h. h = []" .

lift_definition th_push :: "('q, 'j) timer_item \<Rightarrow> ('q, 'j) timer_heap \<Rightarrow> ('q, 'j) timer_heap" is tq_push
  by (rule tq_sorted_push)

lift_definition th_top :: "('q, 'j) timer_heap \<Rightarrow> ('q, 'j) timer_item" is hd .

lift_definition th_pop :: "('q, 'j) timer_heap \<Rightarrow> ('q, 'j) timer_heap" is tl
  by (auto simp: tq_sorted_def map_tl intro: sorted_tl)

lift_definition th_items :: "('q, 'j) timer_heap \<Rightarrow> ('q, 'j) timer_item multiset" is mset .

interpretation timer_heap: timer_queue th_empty th_push th_top th_pop th_items
proof (unfold_locales, goal_cases)
  case (1 h)
  show ?case by transfer simp
next
  case (2 x h)
  show ?case by transfer simp
next
  case (3 h)
  then show ?case by transfer simp
next
  case (4 h x)
  then show ?case
    by transfer (auto simp: tq_sorted_def less_timer_item_def TimerItem_less_def not_less neq_Nil_conv)
next
  case (5 h)
  then show ?case by transfer (simp add: neq_Nil_conv, force)
qed

section \<open>JobTimer\<close>

record ('q, 'j) job_timer =
  jt_items :: "('q, 'j) timer_heap"
  jt_distributing :: bool

definition JobTimer_new :: "('q, 'j) job_timer" where
  "JobTimer_new = \<lparr>jt_items = th_new, jt_distributing = False\<rparr>"

text \<open>\<open>tick\<close> is what \<open>GetTickCount64\<close> returns.\<close>

definition Reserve ::
    "uint64 \<Rightarrow> uint64 \<Rightarrow> 'q \<Rightarrow> 'j \<Rightarrow> ('q, 'j) job_timer \<Rightarrow> ('q, 'j) job_timer" where
  "Reserve tick afterMs owner job jt =
     (let item = TimerItem (tick + afterMs) owner job in jt\<lparr>jt_items := th_push item (jt_items jt)\<rparr>)"

definition DoTimer ::
    "uint64 \<Rightarrow> 'q \<Rightarrow> uint64 \<Rightarrow> 'j \<Rightarrow> ('q, 'j) job_timer \<Rightarrow> ('q, 'j) job_timer" where
  "DoTimer tick self afterMs callback jt = Reserve tick afterMs self callback jt"

text \<open>
  The second loop: \<open>alive\<close> tells whether \<open>owner.lock()\<close> still gets the queue. All job queues of the
  program are one map, beside the global queue.
\<close>

fun push_expired ::
    "('q \<Rightarrow> bool) \<Rightarrow> ('q, 'j) timer_item list \<Rightarrow> ('q \<Rightarrow> 'j job_queue) \<times> 'q list \<Rightarrow>
     ('q \<Rightarrow> 'j job_queue) \<times> 'q list" where
  "push_expired alive [] (queues, g) = (queues, g)"
| "push_expired alive (item # items) (queues, g) =
     (if alive (ti_owner item)
      then let (jq, g') = JobQueue_Push (ti_owner item) (ti_job item) False (queues (ti_owner item)) g in
        push_expired alive items (queues(ti_owner item := jq), g')
      else push_expired alive items (queues, g))"

text \<open>\<open>None\<close>: the loop over the heap does not end; \<open>timer_distribute\<close> shows that it does.\<close>

definition Distribute ::
    "uint64 \<Rightarrow> ('q \<Rightarrow> bool) \<Rightarrow> ('q, 'j) job_timer \<times> ('q \<Rightarrow> 'j job_queue) \<times> 'q list \<Rightarrow>
     (('q, 'j) job_timer \<times> ('q \<Rightarrow> 'j job_queue) \<times> 'q list) option" where
  "Distribute now alive = (\<lambda>(jt, queues, g).
     if jt_distributing jt then Some (jt, queues, g)
     else let jt1 = jt\<lparr>jt_distributing := True\<rparr> in
       Option.bind (expire_loop th_empty th_top th_pop now (jt_items jt1)) (\<lambda>(expiredItems, h).
       let jt2 = jt1\<lparr>jt_items := h\<rparr>; (queues', g') = push_expired alive expiredItems (queues, g) in
       Some (jt2\<lparr>jt_distributing := False\<rparr>, queues', g')))"

definition JobTimer_Clear :: "('q, 'j) job_timer \<Rightarrow> ('q, 'j) job_timer option" where
  "JobTimer_Clear jt = Option.bind (clear_loop th_empty th_pop (jt_items jt)) (\<lambda>h.
     Some (jt\<lparr>jt_items := h\<rparr>))"

abbreviation timer_items :: "('q, 'j) job_timer \<Rightarrow> ('q, 'j) timer_item multiset" where
  "timer_items jt \<equiv> th_items (jt_items jt)"

section \<open>Properties\<close>

definition jobs_for :: "'q \<Rightarrow> ('q, 'j) timer_item list \<Rightarrow> 'j list" where
  "jobs_for q items = map ti_job (filter (\<lambda>i. ti_owner i = q) items)"

lemma jobs_for_simps [simp]:
  "jobs_for q [] = []"
  "jobs_for q (i # items) = (if ti_owner i = q then ti_job i # jobs_for q items else jobs_for q items)"
  by (simp_all add: jobs_for_def)

lemma th_items_push [simp]: "th_items (th_push x h) = add_mset x (th_items h)"
  by (rule timer_heap.items_push)

lemma th_items_new [simp]: "th_items th_new = {#}"
  by transfer simp

lemma jobs_JobQueue_Push:
  "jq_jobs (fst (JobQueue_Push self job po jq g)) = jq_jobs jq @ [job]"
  by (simp add: JobQueue_Push_def jobCount_fetch_add_def jobs_push_def Let_def)

lemma push_expired_jobs:
  "push_expired alive items (queues, g) = (queues', g') \<Longrightarrow>
   jq_jobs (queues' q) = jq_jobs (queues q) @ (if alive q then jobs_for q items else [])"
proof (induction items arbitrary: queues g)
  case (Cons i items)
  then show ?case
    using jobs_JobQueue_Push [of "ti_owner i" "ti_job i" False "queues (ti_owner i)" g]
    by (fastforce split: if_splits prod.splits)
qed simp

lemma JobTimer_Clear_empties: "\<exists>jt'. JobTimer_Clear jt = Some jt' \<and> timer_items jt' = {#}"
  using timer_heap.clear_loop_total [of "jt_items jt"] by (auto simp: JobTimer_Clear_def)

lemma Distribute_spec:
  assumes "\<not> jt_distributing jt"
  obtains expired jt' queues' g' where "Distribute now alive (jt, queues, g) = Some (jt', queues', g')"
    "\<not> jt_distributing jt'" "timer_items jt = mset expired + timer_items jt'"
    "\<forall>x \<in> set expired. executeTick x \<le> now" "\<forall>x \<in># timer_items jt'. now < executeTick x"
    "sorted (map executeTick expired)"
    "\<And>q. jq_jobs (queues' q) = jq_jobs (queues q) @ (if alive q then jobs_for q expired else [])"
proof -
  obtain expired h where e: "expire_loop th_empty th_top th_pop now (jt_items jt) = Some (expired, h)"
    "timer_items jt = mset expired + th_items h" "\<forall>x \<in> set expired. executeTick x \<le> now"
    "\<forall>x \<in># th_items h. now < executeTick x" "sorted (map executeTick expired)"
    using timer_heap.expire_loop_total [of now "jt_items jt"] by blast
  obtain queues' g' where p: "push_expired alive expired (queues, g) = (queues', g')" by fastforce
  show thesis
    by (rule that [of "jt\<lparr>jt_items := h, jt_distributing := False\<rparr>" queues' g' expired])
      (use assms e p push_expired_jobs [OF p] in \<open>simp_all add: Distribute_def\<close>)
qed

text \<open>
  \<open>Distribute\<close> delivers what is due. It ends; the items it takes out of the heap are exactly those
  whose tick has come, earliest first, and each of their jobs is appended, in that order, to the
  queue that owns it, if that queue still exists. Nothing else changes queue; a call that finds
  another one under way does nothing.
\<close>

theorem timer_distribute:
  assumes "Distribute now alive (jt, queues, g) = res"
  shows "if jt_distributing jt then res = Some (jt, queues, g)
    else \<exists>expired jt' queues' g'. res = Some (jt', queues', g') \<and> \<not> jt_distributing jt' \<and>
      timer_items jt = mset expired + timer_items jt' \<and>
      (\<forall>x \<in> set expired. executeTick x \<le> now) \<and> (\<forall>x \<in># timer_items jt'. now < executeTick x) \<and>
      sorted (map executeTick expired) \<and>
      (\<forall>q. jq_jobs (queues' q) = jq_jobs (queues q) @ (if alive q then jobs_for q expired else []))"
proof (cases "jt_distributing jt")
  case True
  then show ?thesis using assms by (simp add: Distribute_def)
next
  case False
  then show ?thesis
    using Distribute_spec [OF False, of now alive queues g] assms by (smt (verit))
qed

text \<open>A history of the timer: reservations through \<open>DoTimer\<close> and calls of \<open>Distribute\<close>.\<close>

datatype ('q, 'j) timer_op = OpDoTimer uint64 'q uint64 'j | OpDistribute uint64

fun timer_run ::
    "('q \<Rightarrow> bool) \<Rightarrow> ('q, 'j) timer_op list \<Rightarrow> ('q, 'j) job_timer \<times> ('q \<Rightarrow> 'j job_queue) \<times> 'q list \<Rightarrow>
     (('q, 'j) job_timer \<times> ('q \<Rightarrow> 'j job_queue) \<times> 'q list) option" where
  "timer_run alive [] st = Some st"
| "timer_run alive (OpDoTimer tick q after j # ops) (jt, queues, g) =
     timer_run alive ops (DoTimer tick q after j jt, queues, g)"
| "timer_run alive (OpDistribute now # ops) st =
     Option.bind (Distribute now alive st) (timer_run alive ops)"

fun reserved_for :: "'q \<Rightarrow> ('q, 'j) timer_op list \<Rightarrow> 'j list" where
  "reserved_for q [] = []"
| "reserved_for q (OpDoTimer tick q' after j # ops) =
     (if q' = q then j # reserved_for q ops else reserved_for q ops)"
| "reserved_for q (OpDistribute now # ops) = reserved_for q ops"

definition pending_for :: "'q \<Rightarrow> ('q, 'j) job_timer \<Rightarrow> 'j multiset" where
  "pending_for q jt = image_mset ti_job (filter_mset (\<lambda>i. ti_owner i = q) (timer_items jt))"

lemma timer_run_conserves:
  assumes "\<not> jt_distributing jt" "alive q"
  shows "\<exists>jt' queues' g'. timer_run alive ops (jt, queues, g) = Some (jt', queues', g') \<and>
    \<not> jt_distributing jt' \<and> mset (jq_jobs (queues' q)) + pending_for q jt' =
      mset (jq_jobs (queues q)) + pending_for q jt + mset (reserved_for q ops)"
  using assms
proof (induction ops arbitrary: jt queues g)
  case (Cons op ops)
  show ?case
  proof (cases op)
    case (OpDoTimer tick q' after j)
    have "pending_for q (DoTimer tick q' after j jt) =
        (if q' = q then {#j#} else {#}) + pending_for q jt"
      by (simp add: pending_for_def DoTimer_def Reserve_def Let_def)
    moreover have "\<not> jt_distributing (DoTimer tick q' after j jt)"
      using Cons.prems by (simp add: DoTimer_def Reserve_def Let_def)
    ultimately show ?thesis
      using Cons.IH [of "DoTimer tick q' after j jt" queues g] Cons.prems OpDoTimer by auto
  next
    case (OpDistribute now)
    obtain expired jt' queues' g' where d: "Distribute now alive (jt, queues, g) = Some (jt', queues', g')"
      "\<not> jt_distributing jt'" "timer_items jt = mset expired + timer_items jt'"
      "\<And>q. jq_jobs (queues' q) = jq_jobs (queues q) @ (if alive q then jobs_for q expired else [])"
      using Distribute_spec [OF Cons.prems(1), of now alive queues g] by metis
    have "mset (jq_jobs (queues' q)) + pending_for q jt' = mset (jq_jobs (queues q)) + pending_for q jt"
      using d(3,4) Cons.prems(2)
      by (simp add: pending_for_def jobs_for_def flip: mset_filter)
    then show ?thesis
      using Cons.IH [OF d(2) Cons.prems(2), of queues' g'] OpDistribute d(1) by auto
  qed
qed simp

lemma timer_run_append:
  "timer_run alive (ops @ ops') st = Option.bind (timer_run alive ops st) (timer_run alive ops')"
proof (induction ops arbitrary: st)
  case (Cons op ops)
  have "timer_run alive (ops @ ops') = (\<lambda>st. Option.bind (timer_run alive ops st) (timer_run alive ops'))"
    using Cons by (intro ext)
  then show ?case by (cases op; cases st) auto
qed simp

text \<open>
  C25: A reserved job is delivered once. Over any history of reservations and distributions, starting
  from an idle timer, every queue that stays alive has received exactly the jobs reserved for it
  that are no longer pending, as multisets: none is lost and none is delivered twice. And if the
  history ends with a \<open>Distribute\<close> at \<open>now\<close>, every item still pending has its tick after \<open>now\<close>.
\<close>

theorem timer_exactly_once:
  assumes "alive q"
  shows "\<exists>jt' queues' g'.
    timer_run alive (ops @ [OpDistribute now]) (JobTimer_new, \<lambda>_. JobQueue_new, []) = Some (jt', queues', g') \<and>
    mset (jq_jobs (queues' q)) + pending_for q jt' = mset (reserved_for q ops) \<and>
    (\<forall>i \<in># timer_items jt'. now < executeTick i)"
proof -
  obtain jt queues g where r: "timer_run alive ops (JobTimer_new, \<lambda>_. JobQueue_new, []) = Some (jt, queues, g)"
    "\<not> jt_distributing jt" "mset (jq_jobs (queues q)) + pending_for q jt = mset (reserved_for q ops)"
    using timer_run_conserves [where alive = alive and q = q and jt = JobTimer_new and ops = ops and
      queues = "\<lambda>_. JobQueue_new" and g = "[]"] assms
    by (auto simp: JobTimer_new_def JobQueue_new_def pending_for_def)
  obtain expired jt' queues' g' where d: "Distribute now alive (jt, queues, g) = Some (jt', queues', g')"
    "\<forall>x \<in># timer_items jt'. now < executeTick x"
    using Distribute_spec [OF r(2), of now alive queues g] by metis
  have "mset (jq_jobs (queues' q)) + pending_for q jt' = mset (jq_jobs (queues q)) + pending_for q jt"
    using timer_run_conserves [where alive = alive and q = q and ops = "[OpDistribute now]" and
      queues = queues and g = g, OF r(2) assms] d(1) by simp
  with r d show ?thesis by (simp add: timer_run_append)
qed

text \<open>A job of queue 7 due at tick 150 and one of queue 8 due at 300: at tick 200 the first is delivered.\<close>

theorem timer_distribute_witness:
  "\<exists>jt' queues' g'. Distribute 200 (\<lambda>_. True)
     (DoTimer 110 8 190 ''b'' (DoTimer 100 (7::nat) 50 ''a'' JobTimer_new), \<lambda>_. JobQueue_new, []) =
       Some (jt', queues', g') \<and>
     jq_jobs (queues' 7) = [''a''] \<and> timer_items jt' = {#TimerItem 300 8 ''b''#}"
proof -
  let ?jt = "DoTimer 110 8 190 ''b'' (DoTimer 100 (7::nat) 50 ''a'' JobTimer_new)"
  have i: "timer_items ?jt = {#TimerItem 150 7 ''a'', TimerItem 300 8 ''b''#}"
    by (simp add: DoTimer_def Reserve_def JobTimer_new_def Let_def)
  have "\<not> jt_distributing ?jt" by (simp add: DoTimer_def Reserve_def JobTimer_new_def Let_def)
  then obtain expired jt' queues' g' where d: "Distribute 200 (\<lambda>_. True) (?jt, \<lambda>_. JobQueue_new, []) =
      Some (jt', queues', g')" "timer_items ?jt = mset expired + timer_items jt'"
      "\<forall>x \<in> set expired. executeTick x \<le> 200" "\<forall>x \<in># timer_items jt'. 200 < executeTick x"
      "\<forall>q. jq_jobs (queues' q) = jq_jobs (JobQueue_new :: string job_queue) @ jobs_for q expired"
    using timer_distribute [where now = 200 and alive = "\<lambda>_. True" and jt = ?jt and queues = "\<lambda>_. JobQueue_new" and
        g = "[]", OF refl] by auto
  have "filter_mset (\<lambda>x. executeTick x \<le> 200) (mset expired) = mset expired"
    using d(3) by (simp flip: mset_filter)
  moreover have "filter_mset (\<lambda>x. executeTick x \<le> 200) (timer_items jt') = {#}"
    using d(4) by (auto simp: filter_mset_eq_mempty_iff)
  ultimately have e: "mset expired = filter_mset (\<lambda>x. executeTick x \<le> 200) (timer_items ?jt)"
    using d(2) by simp
  then have "expired = [TimerItem 150 7 ''a'']" unfolding i by simp
  with d i show ?thesis by (auto simp: JobQueue_new_def)
qed

theorem timer_exactly_once_witness:
  "\<exists>jt' queues' g'. timer_run (\<lambda>_. True)
      ([OpDoTimer 100 7 50 ''a'', OpDoTimer 110 8 190 ''b'', OpDoTimer 110 7 10 ''c''] @ [OpDistribute 200])
      (JobTimer_new, \<lambda>_. JobQueue_new, []) = Some (jt', queues', g') \<and>
    mset (jq_jobs (queues' (7::nat))) + pending_for 7 jt' = {#''a'', ''c''#}"
  using timer_exactly_once [of "\<lambda>_. True" "7::nat"
    "[OpDoTimer 100 7 50 ''a'', OpDoTimer 110 8 190 ''b'', OpDoTimer 110 7 10 ''c'']" 200] by auto

end
