(* ===== verification/ServerStats.thy ===== *)
theory ServerStats
  imports Prelude Complex_Main
begin

text \<open>
  \<^verbatim>\<open>ChatServer/Monitoring/ServerStats.h\<close> and \<^verbatim>\<open>ServerStats.cpp\<close>: the counters of the server, at
  their widths, the rates per second and the formatted uptime. Doubles are reals with the rounding \<open>fl\<close>,
  as in \<open>LatencyMonitor\<close>; the conversion of one that is no \<open>uint32\<close> is undefined.
\<close>

record server_stats =
  st_totalAccepted :: uint64
  st_currentCcu :: int32
  st_totalRecvPackets :: uint64
  st_totalRecvBytes :: uint64
  st_totalSendBytes :: uint64
  st_totalAbuseDisconnects :: uint32
  st_lastRecvPackets :: uint64
  st_lastRecvBytes :: uint64
  st_lastSendBytes :: uint64
  st_lastRateTick :: uint64
  st_currentPps :: uint32
  st_currentRecvBps :: uint32
  st_currentSendBps :: uint32
  st_startTime :: uint64

definition ServerStats_Init :: "uint64 \<Rightarrow> server_stats" where
  "ServerStats_Init tick = \<lparr>st_totalAccepted = 0, st_currentCcu = 0, st_totalRecvPackets = 0,
     st_totalRecvBytes = 0, st_totalSendBytes = 0, st_totalAbuseDisconnects = 0, st_lastRecvPackets = 0,
     st_lastRecvBytes = 0, st_lastSendBytes = 0, st_lastRateTick = tick, st_currentPps = 0, st_currentRecvBps = 0,
     st_currentSendBps = 0, st_startTime = tick\<rparr>"

definition OnSessionConnected :: "server_stats \<Rightarrow> server_stats" where
  "OnSessionConnected st = st\<lparr>st_totalAccepted := st_totalAccepted st + 1,
     st_currentCcu := to_int32 (st_currentCcu st + 1)\<rparr>"

definition OnSessionDisconnected :: "server_stats \<Rightarrow> server_stats" where
  "OnSessionDisconnected st = st\<lparr>st_currentCcu := to_int32 (st_currentCcu st - 1)\<rparr>"

definition OnPacketReceived :: "int32 \<Rightarrow> server_stats \<Rightarrow> server_stats" where
  "OnPacketReceived bytes st = st\<lparr>st_totalRecvPackets := st_totalRecvPackets st + 1,
     st_totalRecvBytes := st_totalRecvBytes st + word_of_int bytes\<rparr>"

definition OnPacketSent :: "int32 \<Rightarrow> server_stats \<Rightarrow> server_stats" where
  "OnPacketSent bytes st = st\<lparr>st_totalSendBytes := st_totalSendBytes st + word_of_int bytes\<rparr>"

definition OnAbuseDisconnection :: "server_stats \<Rightarrow> server_stats" where
  "OnAbuseDisconnection st = st\<lparr>st_totalAbuseDisconnects := st_totalAbuseDisconnects st + 1\<rparr>"

text \<open>\<open>static_cast<uint32>((cur - last) / elapsedSec)\<close>\<close>

definition rate :: "(real \<Rightarrow> real) \<Rightarrow> uint64 \<Rightarrow> uint64 \<Rightarrow> real \<Rightarrow> uint32 res" where
  "rate fl cur prev elapsedSec =
     (let x = \<lfloor>fl (fl (real (unat (cur - prev))) / elapsedSec)\<rfloor> in
      if 0 \<le> x \<and> x < 4294967296 then Ok (of_int x) else Crash Undefined)"

definition UpdateRates :: "(real \<Rightarrow> real) \<Rightarrow> uint64 \<Rightarrow> server_stats \<Rightarrow> server_stats res" where
  "UpdateRates fl now st =
     (let elapsedMs = now - st_lastRateTick st in
      if elapsedMs < 500 then Ok st
      else
        let curRecvPackets = st_totalRecvPackets st; curRecvBytes = st_totalRecvBytes st;
            curSendBytes = st_totalSendBytes st; elapsedSec = fl (fl (real (unat elapsedMs)) / 1000) in
        res_bind
          (if elapsedSec > 0 then
             res_bind (rate fl curRecvPackets (st_lastRecvPackets st) elapsedSec) (\<lambda>pps.
             res_bind (rate fl curRecvBytes (st_lastRecvBytes st) elapsedSec) (\<lambda>recvBps.
             res_bind (rate fl curSendBytes (st_lastSendBytes st) elapsedSec) (\<lambda>sendBps.
             Ok (st\<lparr>st_currentPps := pps, st_currentRecvBps := recvBps, st_currentSendBps := sendBps\<rparr>))))
           else Ok st)
          (\<lambda>st. Ok (st\<lparr>st_lastRecvPackets := curRecvPackets, st_lastRecvBytes := curRecvBytes,
             st_lastSendBytes := curSendBytes, st_lastRateTick := now\<rparr>)))"

definition GetUptimeSeconds :: "uint64 \<Rightarrow> server_stats \<Rightarrow> uint64" where
  "GetUptimeSeconds tick st = (if st_startTime st = 0 then 0 else (tick - st_startTime st) div 1000)"

text \<open>\<open>std::setfill('0') << std::setw(2)\<close>\<close>

definition setw2 :: "uint64 \<Rightarrow> string" where
  "setw2 n = (let d = decimal (unat n) in replicate (2 - length d) CHR ''0'' @ d)"

definition GetFormattedUptime :: "uint64 \<Rightarrow> server_stats \<Rightarrow> string" where
  "GetFormattedUptime tick st =
     (let totalSec = GetUptimeSeconds tick st;
          hours = totalSec div 3600;
          mins = (totalSec mod 3600) div 60;
          secs = totalSec mod 60
      in setw2 hours @ '':'' @ setw2 mins @ '':'' @ setw2 secs)"

end
