(* ===== verification/Outbox.thy ===== *)
theory Outbox
  imports PacketHandler
begin

text \<open>
  What the clients rely on when they serialise and send a packet: a world with the send buffers of
  the program, and for each of its sessions the buffers that \<open>Send\<close> has been given. The chat server,
  the bots and the interactive client are three such worlds.
\<close>

lemma sb_frame_idle:
  assumes "sb_inv s" "sb_frame t s s'" "sb_idle s u" "u \<noteq> t"
  shows "sb_idle s' u"
proof -
  have "sb_chunks s' c = sb_chunks s c" if "LSendBufferChunk s u = Some c" for c
  proof -
    have "c < sb_nextChunk s" "LSendBufferChunk s t \<noteq> Some c"
      using that assms(1,4) unfolding sb_inv_def by blast+
    then show ?thesis using assms(2) by (simp add: sb_frame_def)
  qed
  then show ?thesis using assms(2-4) by (auto simp: sb_idle_def sb_frame_def)
qed

definition out_sent :: "('w \<Rightarrow> sb_state) \<Rightarrow> ('w \<Rightarrow> 'i \<Rightarrow> send_buffer list) \<Rightarrow> 'w \<Rightarrow> 'i \<Rightarrow> byte list list" where
  "out_sent bufs sends w i = map (sb_bytes (bufs w)) (sends w i)"

definition out_ready :: "('w \<Rightarrow> sb_state) \<Rightarrow> ('w \<Rightarrow> 'i \<Rightarrow> send_buffer list) \<Rightarrow> 'w \<Rightarrow> bool" where
  "out_ready bufs sends w \<longleftrightarrow> sb_inv (bufs w) \<and> (\<forall>t. sb_idle (bufs w) t) \<and>
     (\<forall>i. \<forall>sb \<in> set (sends w i). sb_closed (bufs w) sb)"

locale outbox =
  fixes bufs :: "'w \<Rightarrow> sb_state"
    and set_bufs :: "sb_state \<Rightarrow> 'w \<Rightarrow> 'w"
    and sends :: "'w \<Rightarrow> 'i \<Rightarrow> send_buffer list"
    and push :: "send_buffer \<Rightarrow> 'i \<Rightarrow> 'w \<Rightarrow> 'w"
  assumes bufs_set [simp]: "bufs (set_bufs s w) = s"
    and sends_set [simp]: "sends (set_bufs s w) i = sends w i"
    and bufs_push [simp]: "bufs (push sb i w) = bufs w"
    and sends_push [simp]: "sends (push sb i w) j = sends w j @ (if j = i then [sb] else [])"
begin

lemma view_fold:
  assumes "distinct is"
  shows "sends (fold (push sb) is w) j = sends w j @ (if j \<in> set is then [sb] else [])" "bufs (fold (push sb) is w) = bufs w"
proof -
  have "sends (fold (push sb) is w) j = sends w j @ (if j \<in> set is then [sb] else []) \<and> bufs (fold (push sb) is w) = bufs w"
    using assms by (induction "is" arbitrary: w) auto
  then show "sends (fold (push sb) is w) j = sends w j @ (if j \<in> set is then [sb] else [])"
    "bufs (fold (push sb) is w) = bufs w" by simp_all
qed

lemma makes:
  assumes "out_ready bufs sends w" "packet_size p \<le> 4096"
  obtains sb s where "MakeSendBuffer_packet t p (bufs w) = Ok (Some sb, s)"
    "\<And>is. distinct is \<Longrightarrow> out_ready bufs sends (fold (push sb) is (set_bufs s w))"
    "\<And>is j. distinct is \<Longrightarrow> out_sent bufs sends (fold (push sb) is (set_bufs s w)) j =
       out_sent bufs sends w j @ (if j \<in> set is then [packet_bytes p] else [])"
proof -
  obtain sb s where m: "MakeSendBuffer_packet t p (bufs w) = Ok (Some sb, s)" "sb_inv s" "sb_idle s t"
    "sb_frame t (bufs w) s" "sb_closed s sb" "sb_bytes s sb = packet_bytes p"
    using MakeSendBuffer_packet_ok [of "bufs w" t p] assms by (auto simp: out_ready_def)
  have idle: "sb_idle s u" for u
    using sb_frame_idle [OF _ m(4), of u] assms(1) m(3) by (cases "u = t") (auto simp: out_ready_def)
  have cl: "sb_closed s x" "sb_bytes s x = sb_bytes (bufs w) x" if "x \<in> set (sends w j)" for x j
    using that assms(1) sb_frame_closed [OF m(4), of x] by (auto simp: out_ready_def)
  have "out_ready bufs sends (fold (push sb) is (set_bufs s w))" if "distinct is" for "is"
    using m(2,5) idle cl(1) view_fold [OF that] by (auto simp: out_ready_def)
  moreover have "out_sent bufs sends (fold (push sb) is (set_bufs s w)) j =
      out_sent bufs sends w j @ (if j \<in> set is then [packet_bytes p] else [])" if "distinct is" for "is" j
    using m(6) cl(2) view_fold [OF that] by (auto simp: out_sent_def)
  ultimately show thesis using that [OF m(1)] by blast
qed

lemma send_ok:
  assumes "out_ready bufs sends w" "packet_size p \<le> 4096"
  obtains sb s where "MakeSendBuffer_packet t p (bufs w) = Ok (Some sb, s)"
    "out_ready bufs sends (push sb i (set_bufs s w))"
    "\<And>j. out_sent bufs sends (push sb i (set_bufs s w)) j = out_sent bufs sends w j @ (if j = i then [packet_bytes p] else [])"
proof (rule makes [OF assms])
  fix sb s assume m: "MakeSendBuffer_packet t p (bufs w) = Ok (Some sb, s)"
    "\<And>is. distinct is \<Longrightarrow> out_ready bufs sends (fold (push sb) is (set_bufs s w))"
    "\<And>is j. distinct is \<Longrightarrow> out_sent bufs sends (fold (push sb) is (set_bufs s w)) j =
       out_sent bufs sends w j @ (if j \<in> set is then [packet_bytes p] else [])"
  show thesis using that [OF m(1)] m(2) [of "[i]"] m(3) [of "[i]"] by simp
qed

lemma out_cong:
  assumes "bufs w' = bufs w" "\<And>i. sends w' i = sends w i"
  shows "out_ready bufs sends w' = out_ready bufs sends w" "out_sent bufs sends w' i = out_sent bufs sends w i"
  using assms by (simp_all add: out_ready_def out_sent_def)

end

end
