(* ===== verification/Service.thy ===== *)
theory Service
  imports Prelude
begin

text \<open>
  \<^verbatim>\<open>ServerEngine/Network/Service.h\<close> and \<^verbatim>\<open>Service.cpp\<close>: the sessions of a service. Every operation
  here is one critical section of its lock.

  \<open>std::unordered_set\<close> is a list without duplicates; its iteration order, which the standard
  leaves open, is the order of insertion here and no lemma depends on it. \<open>session->Send\<close> and
  \<open>session->Disconnect\<close> are parameters: what a call for every session does to the rest of the
  program, \<open>'w\<close>, is proved in the locale \<open>per_session\<close> from one law, that a call touches the
  state of its own session only.
\<close>

record 's service =
  sv_sessions :: "'s list"
  sv_sessionCount :: int32
  sv_maxSessionCount :: int32

definition Service_new :: "int32 \<Rightarrow> 's service" where
  "Service_new maxSessionCount =
     \<lparr>sv_sessions = [], sv_sessionCount = 0, sv_maxSessionCount = maxSessionCount\<rparr>"

definition AddSession :: "'s \<Rightarrow> 's service \<Rightarrow> 's service" where
  "AddSession session sv = sv\<lparr>sv_sessionCount := sv_sessionCount sv + 1,
     sv_sessions := (if session \<in> set (sv_sessions sv) then sv_sessions sv else sv_sessions sv @ [session])\<rparr>"

definition ReleaseSession :: "'s \<Rightarrow> 's service \<Rightarrow> 's service" where
  "ReleaseSession session sv = sv\<lparr>sv_sessionCount := sv_sessionCount sv - 1,
     sv_sessions := removeAll session (sv_sessions sv)\<rparr>"

definition Service_Broadcast :: "('s \<Rightarrow> 'w \<Rightarrow> 'w) \<Rightarrow> 's service \<Rightarrow> 'w \<Rightarrow> 'w" where
  "Service_Broadcast send sv w = fold send (sv_sessions sv) w"

definition GetSessionsSnapshot :: "'s service \<Rightarrow> 's list" where
  "GetSessionsSnapshot sv = sv_sessions sv"

definition Service_Stop :: "('s \<Rightarrow> 'w \<Rightarrow> 'w) \<Rightarrow> 's service \<times> 'w \<Rightarrow> 's service \<times> 'w" where
  "Service_Stop disconnect = (\<lambda>(sv, w).
     let w' = fold disconnect (sv_sessions sv) w in (sv\<lparr>sv_sessions := []\<rparr>, w'))"

section \<open>A call for every session\<close>

locale per_session =
  fixes call :: "'s \<Rightarrow> 'w \<Rightarrow> 'w" and view :: "'s \<Rightarrow> 'w \<Rightarrow> 'v" and upd :: "'s \<Rightarrow> 'v \<Rightarrow> 'v"
  assumes view_call: "view s (call s w) = upd s (view s w)"
    and view_call_other: "s \<noteq> t \<Longrightarrow> view s (call t w) = view s w"
begin

lemma view_fold:
  "distinct ss \<Longrightarrow> view s (fold call ss w) = (if s \<in> set ss then upd s (view s w) else view s w)"
proof (induction ss arbitrary: w)
  case (Cons t ss)
  then show ?case by (cases "s = t") (auto simp: view_call view_call_other)
qed simp

end

section \<open>Counting sessions\<close>

definition service_inv :: "'s service \<Rightarrow> bool" where
  "service_inv sv \<longleftrightarrow> distinct (sv_sessions sv) \<and> sv_sessionCount sv = int (length (sv_sessions sv))"

lemma service_inv_new [simp]: "service_inv (Service_new n)"
  by (simp add: service_inv_def Service_new_def)

lemma service_inv_Add: "service_inv sv \<Longrightarrow> s \<notin> set (sv_sessions sv) \<Longrightarrow> service_inv (AddSession s sv)"
  by (simp add: service_inv_def AddSession_def)

lemma length_removeAll_distinct:
  "distinct xs \<Longrightarrow> x \<in> set xs \<Longrightarrow> int (length (removeAll x xs)) = int (length xs) - 1"
  by (induction xs) auto

lemma service_inv_Release: "service_inv sv \<Longrightarrow> s \<in> set (sv_sessions sv) \<Longrightarrow> service_inv (ReleaseSession s sv)"
  by (simp add: service_inv_def ReleaseSession_def distinct_removeAll length_removeAll_distinct)

end
