(* ===== verification/ChatWorld.thy ===== *)
theory ChatWorld
  imports Outbox JobQueue Service ServerStats TokenBucket
begin

text \<open>
  The state of the chat server, \<^verbatim>\<open>ChatServer/\<close>: its sessions (\<^verbatim>\<open>Session/ClientSession.h\<close>), its rooms
  (\<^verbatim>\<open>Room/Room.h\<close>, a class derived from \<open>JobQueue\<close>), the room table, the global queue of jobs, the
  service, the counters and the abuse log.

  References: a session is its id, which the constructor draws from a counter and nothing changes;
  a room is the number of the allocation. A \<open>shared_ptr\<close> that may be null is an option. Rooms are
  never freed: the table holds every room and nothing calls \<open>RemoveRoom\<close>. The service is \<open>None\<close>
  once it is gone and the weak pointers of the sessions expire.

  The serialisers are those of \<open>PacketProtocol\<close>, on the send buffers of the thread that runs the
  operation, \<open>t\<close>. Of \<open>Session\<close> the state below has what the chat server reads. The \<open>Send\<close> of
  this theory only records that \<open>Session::Send\<close> is called with a buffer: \<open>cs_sends\<close> are these calls, in order.
  Whether a call accepts its buffer is decided in \<open>Session\<close> and \<open>SessionSend\<close>, by \<open>IsConnected()\<close> and the limit of the
  queue; no operation of the server looks at the outcome. \<open>RoomDelivery\<close> puts the two together, for the members
  of a room; elsewhere a statement about \<open>cs_sends\<close> is one about the calls.
\<close>

section \<open>The state\<close>

type_synonym session_ref = uint64
type_synonym room_ref = nat
type_synonym wstring = "uint16 list"

text \<open>\<open>L"..."\<close>, and the conversion of a wide string by \<open>static_cast<char>\<close> of every element.\<close>

definition wide :: "string \<Rightarrow> wstring" where
  "wide s = map (\<lambda>c. of_nat (of_char c)) s"

definition narrow :: "wstring \<Rightarrow> string" where
  "narrow ws = map (\<lambda>c. char_of (unat c)) ws"

record client_session =
  cs_playerId :: uint64
  cs_playerName :: string
  cs_authenticated :: bool
  cs_room :: "room_ref option"
  cs_isAbuseReported :: bool
  cs_rateLimiter :: token_bucket
  cs_lastHeartbeatTick :: uint64
  cs_connected :: bool
  cs_disconnects :: "wstring list"
  cs_ipAddress :: wstring
  cs_port :: uint16
  cs_sends :: "send_buffer list"

text \<open>The jobs rooms are given: a member function and its arguments.\<close>

datatype room_job =
    JobEnter "session_ref option"
  | JobLeave "session_ref option"
  | JobHandleChat "session_ref option" string
  | JobLeaveAndEnter "session_ref option" "room_ref option"

record room = "room_job job_queue" +
  rm_roomId :: uint32
  rm_roomName :: string
  rm_members :: "session_ref list"

record abuse_log_entry =
  al_sessionId :: uint64
  al_playerName :: string
  al_ipAddress :: string
  al_port :: uint16
  al_reason :: wstring
  al_timestamp :: uint64
  al_timeStr :: string

record world =
  w_clients :: "session_ref \<Rightarrow> client_session"
  w_rooms :: "room_ref \<Rightarrow> room"
  w_nextRoom :: room_ref
  w_roomTable :: "(uint32 \<times> room_ref) list"
  w_globalQueue :: "room_ref list"
  w_service :: "session_ref service option"
  w_playerIdGenerator :: uint64
  w_stats :: server_stats
  w_abuseLogs :: "abuse_log_entry list"
  w_abuseCount :: uint32
  w_sendBuffers :: sb_state

text \<open>The constructor: \<open>tick\<close> is the clock; \<open>_rateLimiter{ 40, 20 }\<close>.\<close>

definition ClientSession_new :: "uint64 \<Rightarrow> wstring \<Rightarrow> uint16 \<Rightarrow> client_session" where
  "ClientSession_new tick ip port = \<lparr>cs_playerId = 0, cs_playerName = [], cs_authenticated = False,
     cs_room = None, cs_isAbuseReported = False, cs_rateLimiter = TokenBucket_new 40 20 tick,
     cs_lastHeartbeatTick = tick, cs_connected = False, cs_disconnects = [], cs_ipAddress = ip,
     cs_port = port, cs_sends = []\<rparr>"

definition upd_client :: "session_ref \<Rightarrow> (client_session \<Rightarrow> client_session) \<Rightarrow> world \<Rightarrow> world" where
  "upd_client s f w = w\<lparr>w_clients := (w_clients w)(s := f (w_clients w s))\<rparr>"

definition upd_room :: "room_ref \<Rightarrow> (room \<Rightarrow> room) \<Rightarrow> world \<Rightarrow> world" where
  "upd_room r f w = w\<lparr>w_rooms := (w_rooms w)(r := f (w_rooms w r))\<rparr>"

lemma upd_client_simps [simp]:
  "w_clients (upd_client s f w) = (w_clients w)(s := f (w_clients w s))"
  "w_rooms (upd_client s f w) = w_rooms w" "w_nextRoom (upd_client s f w) = w_nextRoom w"
  "w_roomTable (upd_client s f w) = w_roomTable w" "w_globalQueue (upd_client s f w) = w_globalQueue w"
  "w_service (upd_client s f w) = w_service w" "w_stats (upd_client s f w) = w_stats w"
  "w_playerIdGenerator (upd_client s f w) = w_playerIdGenerator w"
  "w_abuseLogs (upd_client s f w) = w_abuseLogs w" "w_abuseCount (upd_client s f w) = w_abuseCount w"
  "w_sendBuffers (upd_client s f w) = w_sendBuffers w"
  by (simp_all add: upd_client_def)

lemma upd_room_simps [simp]:
  "w_rooms (upd_room r g w) = (w_rooms w)(r := g (w_rooms w r))"
  "w_clients (upd_room r g w) = w_clients w" "w_nextRoom (upd_room r g w) = w_nextRoom w"
  "w_roomTable (upd_room r g w) = w_roomTable w" "w_globalQueue (upd_room r g w) = w_globalQueue w"
  "w_service (upd_room r g w) = w_service w" "w_stats (upd_room r g w) = w_stats w"
  "w_playerIdGenerator (upd_room r g w) = w_playerIdGenerator w"
  "w_abuseLogs (upd_room r g w) = w_abuseLogs w" "w_abuseCount (upd_room r g w) = w_abuseCount w"
  "w_sendBuffers (upd_room r g w) = w_sendBuffers w"
  by (simp_all add: upd_room_def)

section \<open>Calls into the engine\<close>

text \<open>\<open>pkt.MakeSendBuffer()\<close>\<close>

definition make_buffer :: "nat \<Rightarrow> packet \<Rightarrow> world \<Rightarrow> (send_buffer option \<times> world) res" where
  "make_buffer t pkt w = res_bind (MakeSendBuffer_packet t pkt (w_sendBuffers w)) (\<lambda>(sb, s).
     Ok (sb, w\<lparr>w_sendBuffers := s\<rparr>))"

text \<open>The record of a call of \<open>Session::Send\<close>; a null buffer has no effect in either.\<close>

fun Send :: "send_buffer option \<Rightarrow> session_ref \<Rightarrow> world \<Rightarrow> world" where
  "Send None s w = w"
| "Send (Some sb) s w = upd_client s (\<lambda>c. c\<lparr>cs_sends := cs_sends c @ [sb]\<rparr>) w"

text \<open>\<open>Session::Disconnect\<close>: \<open>cs_disconnects\<close> has the causes of the calls that register a disconnect.\<close>

definition Disconnect :: "wstring \<Rightarrow> session_ref \<Rightarrow> world \<Rightarrow> world" where
  "Disconnect cause s w =
     (if \<not> cs_connected (w_clients w s) then w
      else upd_client s (\<lambda>c. c\<lparr>cs_connected := False, cs_disconnects := cs_disconnects c @ [cause]\<rparr>) w)"

definition UpdateHeartbeat :: "uint64 \<Rightarrow> session_ref \<Rightarrow> world \<Rightarrow> world" where
  "UpdateHeartbeat tick s = upd_client s (\<lambda>c. c\<lparr>cs_lastHeartbeatTick := tick\<rparr>)"

definition SetRoom :: "room_ref option \<Rightarrow> session_ref \<Rightarrow> world \<Rightarrow> world" where
  "SetRoom r s = upd_client s (\<lambda>c. c\<lparr>cs_room := r\<rparr>)"

definition GetRoom :: "session_ref \<Rightarrow> world \<Rightarrow> room_ref option" where
  "GetRoom s w = cs_room (w_clients w s)"

definition SetPlayerInfo :: "uint64 \<Rightarrow> string \<Rightarrow> session_ref \<Rightarrow> world \<Rightarrow> world" where
  "SetPlayerInfo i name s = upd_client s (\<lambda>c. c\<lparr>cs_playerId := i, cs_playerName := name, cs_authenticated := True\<rparr>)"

definition GetPlayerName :: "session_ref \<Rightarrow> world \<Rightarrow> string" where
  "GetPlayerName s w = cs_playerName (w_clients w s)"

text \<open>\<open>room->PushJob(room, &Room::..., ...)\<close>\<close>

definition PushJob :: "room_ref \<Rightarrow> room_job \<Rightarrow> world \<Rightarrow> world" where
  "PushJob r job w =
     (let (q, g) = JobQueue_Push r job False (w_rooms w r) (w_globalQueue w) in
      w\<lparr>w_rooms := (w_rooms w)(r := q), w_globalQueue := g\<rparr>)"

lemma PushJob_simps [simp]:
  "w_clients (PushJob r j w) = w_clients w" "w_nextRoom (PushJob r j w) = w_nextRoom w"
  "w_roomTable (PushJob r j w) = w_roomTable w" "w_service (PushJob r j w) = w_service w"
  "w_stats (PushJob r j w) = w_stats w" "w_playerIdGenerator (PushJob r j w) = w_playerIdGenerator w"
  "w_abuseLogs (PushJob r j w) = w_abuseLogs w" "w_abuseCount (PushJob r j w) = w_abuseCount w"
  "w_sendBuffers (PushJob r j w) = w_sendBuffers w"
  by (simp_all add: PushJob_def split: prod.split)

lemma PushJob_room [simp]:
  "jq_jobs (w_rooms (PushJob r j w) r') = (if r' = r then jq_jobs (w_rooms w r) @ [j] else jq_jobs (w_rooms w r'))"
  "rm_roomId (w_rooms (PushJob r j w) r') = rm_roomId (w_rooms w r')"
  "rm_roomName (w_rooms (PushJob r j w) r') = rm_roomName (w_rooms w r')"
  "rm_members (w_rooms (PushJob r j w) r') = rm_members (w_rooms w r')"
  by (auto simp: PushJob_def JobQueue_Push_def jobCount_fetch_add_def jobs_push_def Let_def)

section \<open>What every session is sent\<close>

text \<open>The bytes of the buffers that \<open>Send\<close> has been given, one list per call.\<close>

definition sent :: "world \<Rightarrow> session_ref \<Rightarrow> byte list list" where
  "sent w s = map (sb_bytes (w_sendBuffers w)) (cs_sends (w_clients w s))"

definition all_closed :: "world \<Rightarrow> bool" where
  "all_closed w \<longleftrightarrow> (\<forall>s. \<forall>sb \<in> set (cs_sends (w_clients w s)). sb_closed (w_sendBuffers w) sb)"

text \<open>Every thread can serialise: its chunk is not open.\<close>

definition ready :: "world \<Rightarrow> bool" where
  "ready w \<longleftrightarrow> sb_inv (w_sendBuffers w) \<and> (\<forall>t. sb_idle (w_sendBuffers w) t) \<and> all_closed w"

text \<open>The world without its messages.\<close>

definition quiet :: "world \<Rightarrow> world" where
  "quiet w = w\<lparr>w_sendBuffers := sb_start, w_clients := (\<lambda>s. (w_clients w s)\<lparr>cs_sends := []\<rparr>)\<rparr>"

text \<open>What an operation does: the same world up to \<open>f\<close>, and the messages \<open>m\<close> for every session.\<close>

definition tells :: "world \<Rightarrow> (session_ref \<Rightarrow> packet list) \<Rightarrow> world \<Rightarrow> bool" where
  "tells w m w' \<longleftrightarrow> ready w' \<and> quiet w' = quiet w \<and>
     (\<forall>s. sent w' s = sent w s @ map packet_bytes (m s))"

lemma quiet_eqD:
  assumes "quiet w' = quiet w"
  shows "w_rooms w' = w_rooms w" "w_nextRoom w' = w_nextRoom w" "w_roomTable w' = w_roomTable w"
    "w_globalQueue w' = w_globalQueue w" "w_service w' = w_service w" "w_stats w' = w_stats w"
    "w_playerIdGenerator w' = w_playerIdGenerator w" "w_abuseLogs w' = w_abuseLogs w"
    "w_abuseCount w' = w_abuseCount w"
    "\<And>s. (w_clients w' s)\<lparr>cs_sends := []\<rparr> = (w_clients w s)\<lparr>cs_sends := []\<rparr>"
proof -
  note c = assms [unfolded quiet_def, THEN arg_cong]
  show "w_rooms w' = w_rooms w" using c [of w_rooms] by simp
  show "w_nextRoom w' = w_nextRoom w" using c [of w_nextRoom] by simp
  show "w_roomTable w' = w_roomTable w" using c [of w_roomTable] by simp
  show "w_globalQueue w' = w_globalQueue w" using c [of w_globalQueue] by simp
  show "w_service w' = w_service w" using c [of w_service] by simp
  show "w_stats w' = w_stats w" using c [of w_stats] by simp
  show "w_playerIdGenerator w' = w_playerIdGenerator w" using c [of w_playerIdGenerator] by simp
  show "w_abuseLogs w' = w_abuseLogs w" using c [of w_abuseLogs] by simp
  show "w_abuseCount w' = w_abuseCount w" using c [of w_abuseCount] by simp
  show "(w_clients w' s)\<lparr>cs_sends := []\<rparr> = (w_clients w s)\<lparr>cs_sends := []\<rparr>" for s
    using c [of w_clients] by (simp add: fun_eq_iff)
qed

lemma quiet_clients:
  assumes "quiet w' = quiet w"
  shows "cs_room (w_clients w' s) = cs_room (w_clients w s)"
    "cs_playerName (w_clients w' s) = cs_playerName (w_clients w s)"
    "cs_connected (w_clients w' s) = cs_connected (w_clients w s)"
    "cs_rateLimiter (w_clients w' s) = cs_rateLimiter (w_clients w s)"
    "cs_isAbuseReported (w_clients w' s) = cs_isAbuseReported (w_clients w s)"
    "cs_disconnects (w_clients w' s) = cs_disconnects (w_clients w s)"
proof -
  note c = quiet_eqD(10) [OF assms, of s, THEN arg_cong]
  show "cs_room (w_clients w' s) = cs_room (w_clients w s)" using c [of cs_room] by simp
  show "cs_playerName (w_clients w' s) = cs_playerName (w_clients w s)" using c [of cs_playerName] by simp
  show "cs_connected (w_clients w' s) = cs_connected (w_clients w s)" using c [of cs_connected] by simp
  show "cs_rateLimiter (w_clients w' s) = cs_rateLimiter (w_clients w s)" using c [of cs_rateLimiter] by simp
  show "cs_isAbuseReported (w_clients w' s) = cs_isAbuseReported (w_clients w s)"
    using c [of cs_isAbuseReported] by simp
  show "cs_disconnects (w_clients w' s) = cs_disconnects (w_clients w s)" using c [of cs_disconnects] by simp
qed

lemma tells_refl: "ready w \<Longrightarrow> tells w (\<lambda>_. []) w"
  by (simp add: tells_def)

lemma tells_trans: "tells w m w1 \<Longrightarrow> tells w1 m' w2 \<Longrightarrow> tells w (\<lambda>s. m s @ m' s) w2"
  by (simp add: tells_def)

section \<open>Serialising and sending\<close>

text \<open>\<open>Send\<close> of one buffer to each of some sessions.\<close>

interpretation send: per_session "Send (Some sb)" "\<lambda>s w. cs_sends (w_clients w s)" "\<lambda>s l. l @ [sb]" for sb
  by unfold_locales simp_all

interpretation server: outbox w_sendBuffers "\<lambda>b w. w\<lparr>w_sendBuffers := b\<rparr>" "\<lambda>w s. cs_sends (w_clients w s)"
    "\<lambda>sb. Send (Some sb)"
  by unfold_locales simp_all

lemma ready_out:
  "ready = out_ready w_sendBuffers (\<lambda>w s. cs_sends (w_clients w s))"
  "sent = out_sent w_sendBuffers (\<lambda>w s. cs_sends (w_clients w s))"
  by (simp_all add: fun_eq_iff ready_def all_closed_def out_ready_def sent_def out_sent_def)

lemma fold_Send_other:
  "w_sendBuffers (fold (Send sb) ss w) = w_sendBuffers w" "quiet (fold (Send sb) ss w) = quiet w"
proof -
  have "quiet (Send sb s w) = quiet w \<and> w_sendBuffers (Send sb s w) = w_sendBuffers w" for s w
    by (cases sb) (simp_all add: quiet_def upd_client_def fun_eq_iff)
  then show "w_sendBuffers (fold (Send sb) ss w) = w_sendBuffers w" "quiet (fold (Send sb) ss w) = quiet w"
    by (induction ss arbitrary: w) simp_all
qed

lemma make_ok:
  assumes "ready w" "packet_size p \<le> 4096"
  obtains sb w1 where "make_buffer t p w = Ok (Some sb, w1)" "tells w (\<lambda>_. []) w1"
    "\<And>ss. distinct ss \<Longrightarrow> tells w (\<lambda>s. if s \<in> set ss then [p] else []) (fold (Send (Some sb)) ss w1)"
proof (rule server.makes [OF assms(1) [unfolded ready_out] assms(2), where t = t], fold ready_out)
  fix sb b assume m: "MakeSendBuffer_packet t p (w_sendBuffers w) = Ok (Some sb, b)"
    "\<And>ss. distinct ss \<Longrightarrow> ready (fold (Send (Some sb)) ss (w\<lparr>w_sendBuffers := b\<rparr>))"
    "\<And>ss s. distinct ss \<Longrightarrow> sent (fold (Send (Some sb)) ss (w\<lparr>w_sendBuffers := b\<rparr>)) s =
       sent w s @ (if s \<in> set ss then [packet_bytes p] else [])"
  let ?w1 = "w\<lparr>w_sendBuffers := b\<rparr>"
  have tell: "tells w (\<lambda>s. if s \<in> set ss then [p] else []) (fold (Send (Some sb)) ss ?w1)" if "distinct ss" for ss
  proof -
    have "quiet ?w1 = quiet w" by (simp add: quiet_def)
    then show ?thesis using m(2,3) [OF that] by (simp add: tells_def fold_Send_other)
  qed
  show thesis
  proof (rule that [of sb ?w1])
    show "make_buffer t p w = Ok (Some sb, ?w1)" using m(1) by (simp add: make_buffer_def)
    show "tells w (\<lambda>_. []) ?w1" using tell [of "[]"] by simp
  qed (rule tell)
qed

end
