(* ===== verification/Room.thy ===== *)
theory Room
  imports ChatWorld "HOL-Library.Sublist"
begin

text \<open>
  \<^verbatim>\<open>ChatServer/Room/Room.cpp\<close>: the jobs of a room, run by the thread \<open>t\<close> that executes its queue.
  \<open>r\<close> is \<open>this\<close>. \<open>_members\<close> maps the id of a session to the session, so it is the list of the
  members here, in the order of insertion where the order of the hash map is left open by the
  standard.
\<close>

definition Room_new :: "uint32 \<Rightarrow> string \<Rightarrow> room" where
  "Room_new roomId name = \<lparr>jq_jobs = [], jq_jobCount = 0, rm_roomId = roomId, rm_roomName = name, rm_members = []\<rparr>"

text \<open>The state before \<open>main\<close>, with any clients.\<close>

definition world_start :: "(session_ref \<Rightarrow> client_session) \<Rightarrow> world" where
  "world_start clients = \<lparr>w_clients = clients, w_rooms = \<lambda>_. Room_new 0 [], w_nextRoom = 0, w_roomTable = [],
     w_globalQueue = [], w_service = Some (Service_new 10000), w_playerIdGenerator = 1000,
     w_stats = ServerStats_Init 0, w_abuseLogs = [], w_abuseCount = 0, w_sendBuffers = sb_start\<rparr>"

definition GetUserCount :: "room_ref \<Rightarrow> world \<Rightarrow> uint32" where
  "GetUserCount r w = of_nat (length (rm_members (w_rooms w r)))"

definition GetMemberNames :: "room_ref \<Rightarrow> world \<Rightarrow> string list" where
  "GetMemberNames r w = map (\<lambda>member. GetPlayerName member w) (rm_members (w_rooms w r))"

definition members_insert :: "session_ref \<Rightarrow> session_ref list \<Rightarrow> session_ref list" where
  "members_insert s ms = (if s \<in> set ms then ms else ms @ [s])"

definition Room_Broadcast :: "room_ref \<Rightarrow> send_buffer option \<Rightarrow> world \<Rightarrow> world" where
  "Room_Broadcast r sendBuffer w = fold (Send sendBuffer) (rm_members (w_rooms w r)) w"

definition joined_notice :: "string \<Rightarrow> packet" where
  "joined_notice name = Pkt_S_NOTICE \<lparr>S_NOTICE_message = ''['' @ name @ ''] joined the room.''\<rparr>"

definition left_notice :: "string \<Rightarrow> packet" where
  "left_notice name = Pkt_S_NOTICE \<lparr>S_NOTICE_message = ''['' @ name @ ''] left the room.''\<rparr>"

definition Room_Enter :: "nat \<Rightarrow> room_ref \<Rightarrow> session_ref option \<Rightarrow> world \<Rightarrow> world res" where
  "Room_Enter t r session w =
     (case session of None \<Rightarrow> Ok w
      | Some s \<Rightarrow>
        let w1 = upd_room r (\<lambda>x. x\<lparr>rm_members := members_insert s (rm_members x)\<rparr>) w;
            w2 = SetRoom (Some r) s w1;
            enterRes = \<lparr>S_ENTER_ROOM_success = True, S_ENTER_ROOM_roomId = rm_roomId (w_rooms w2 r),
              S_ENTER_ROOM_roomName = rm_roomName (w_rooms w2 r),
              S_ENTER_ROOM_members = map (\<lambda>member. \<lparr>MembersInfo_name = GetPlayerName member w2\<rparr>)
                (rm_members (w_rooms w2 r))\<rparr> in
        res_bind (make_buffer t (Pkt_S_ENTER_ROOM enterRes) w2) (\<lambda>(sb, w3).
        let w4 = Send sb s w3 in
        res_bind (make_buffer t (joined_notice (GetPlayerName s w4)) w4) (\<lambda>(notice, w5).
        Ok (Room_Broadcast r notice w5))))"

definition Room_Leave :: "nat \<Rightarrow> room_ref \<Rightarrow> session_ref option \<Rightarrow> world \<Rightarrow> world res" where
  "Room_Leave t r session w =
     (case session of None \<Rightarrow> Ok w
      | Some s \<Rightarrow>
        let w1 = upd_room r (\<lambda>x. x\<lparr>rm_members := removeAll s (rm_members x)\<rparr>) w;
            w2 = (if GetRoom s w1 = Some r then SetRoom None s w1 else w1) in
        res_bind (make_buffer t (Pkt_S_LEAVE_ROOM \<lparr>S_LEAVE_ROOM_success = True\<rparr>) w2) (\<lambda>(sb, w3).
        let w4 = Send sb s w3 in
        res_bind (make_buffer t (left_notice (GetPlayerName s w4)) w4) (\<lambda>(notice, w5).
        Ok (Room_Broadcast r notice w5))))"

definition Room_LeaveAndEnter ::
    "nat \<Rightarrow> room_ref \<Rightarrow> session_ref option \<Rightarrow> room_ref option \<Rightarrow> world \<Rightarrow> world res" where
  "Room_LeaveAndEnter t r session targetRoom w =
     (case session of None \<Rightarrow> Ok w
      | Some s \<Rightarrow>
        res_bind (Room_Leave t r session w) (\<lambda>w1.
        Ok (case targetRoom of None \<Rightarrow> w1 | Some target \<Rightarrow> PushJob target (JobEnter session) w1)))"

definition Room_HandleChat :: "nat \<Rightarrow> room_ref \<Rightarrow> session_ref option \<Rightarrow> string \<Rightarrow> world \<Rightarrow> world res" where
  "Room_HandleChat t r session message w =
     (case session of None \<Rightarrow> Ok w
      | Some s \<Rightarrow>
        let chatPkt = \<lparr>S_ROOM_CHAT_senderName = GetPlayerName s w, S_ROOM_CHAT_message = message\<rparr> in
        res_bind (make_buffer t (Pkt_S_ROOM_CHAT chatPkt) w) (\<lambda>(sb, w1). Ok (Room_Broadcast r sb w1)))"

text \<open>\<open>job->Execute()\<close>\<close>

fun run_job :: "nat \<Rightarrow> room_ref \<Rightarrow> room_job \<Rightarrow> world \<Rightarrow> world res" where
  "run_job t r (JobEnter s) = Room_Enter t r s"
| "run_job t r (JobLeave s) = Room_Leave t r s"
| "run_job t r (JobHandleChat s message) = Room_HandleChat t r s message"
| "run_job t r (JobLeaveAndEnter s target) = Room_LeaveAndEnter t r s target"

section \<open>What each job does\<close>

text \<open>The packets of \<open>Enter\<close> and \<open>Leave\<close>, on the members after the change.\<close>

definition enter_response :: "room_ref \<Rightarrow> session_ref list \<Rightarrow> world \<Rightarrow> packet" where
  "enter_response r ms w = Pkt_S_ENTER_ROOM \<lparr>S_ENTER_ROOM_success = True,
     S_ENTER_ROOM_roomId = rm_roomId (w_rooms w r), S_ENTER_ROOM_roomName = rm_roomName (w_rooms w r),
     S_ENTER_ROOM_members = map (\<lambda>m. \<lparr>MembersInfo_name = GetPlayerName m w\<rparr>) ms\<rparr>"

definition leave_response :: packet where
  "leave_response = Pkt_S_LEAVE_ROOM \<lparr>S_LEAVE_ROOM_success = True\<rparr>"

definition chat_packet :: "session_ref \<Rightarrow> string \<Rightarrow> world \<Rightarrow> packet" where
  "chat_packet s message w =
     Pkt_S_ROOM_CHAT \<lparr>S_ROOM_CHAT_senderName = GetPlayerName s w, S_ROOM_CHAT_message = message\<rparr>"

definition joined :: "room_ref \<Rightarrow> session_ref \<Rightarrow> world \<Rightarrow> world" where
  "joined r s w = SetRoom (Some r) s (upd_room r (\<lambda>x. x\<lparr>rm_members := members_insert s (rm_members x)\<rparr>) w)"

definition parted :: "room_ref \<Rightarrow> session_ref \<Rightarrow> world \<Rightarrow> world" where
  "parted r s w = (let w1 = upd_room r (\<lambda>x. x\<lparr>rm_members := removeAll s (rm_members x)\<rparr>) w in
     if GetRoom s w1 = Some r then SetRoom None s w1 else w1)"

lemma ready_cong:
  assumes "w_sendBuffers w' = w_sendBuffers w" "\<And>s. cs_sends (w_clients w' s) = cs_sends (w_clients w s)"
  shows "ready w' = ready w" "sent w' s = sent w s"
  using assms by (simp_all add: ready_def all_closed_def sent_def)

lemma joined_simps [simp]:
  "w_sendBuffers (joined r s w) = w_sendBuffers w" "cs_sends (w_clients (joined r s w) u) = cs_sends (w_clients w u)"
  "ready (joined r s w) = ready w" "sent (joined r s w) u = sent w u"
  "GetPlayerName u (joined r s w) = GetPlayerName u w"
  "rm_members (w_rooms (joined r s w) q) =
     (if q = r then members_insert s (rm_members (w_rooms w r)) else rm_members (w_rooms w q))"
  "rm_roomId (w_rooms (joined r s w) q) = rm_roomId (w_rooms w q)"
  "rm_roomName (w_rooms (joined r s w) q) = rm_roomName (w_rooms w q)"
  "jq_jobs (w_rooms (joined r s w) q) = jq_jobs (w_rooms w q)"
  "cs_room (w_clients (joined r s w) u) = (if u = s then Some r else cs_room (w_clients w u))"
  by (auto simp: joined_def SetRoom_def GetPlayerName_def intro!: ready_cong)

lemma parted_simps [simp]:
  "w_sendBuffers (parted r s w) = w_sendBuffers w" "cs_sends (w_clients (parted r s w) u) = cs_sends (w_clients w u)"
  "ready (parted r s w) = ready w" "sent (parted r s w) u = sent w u"
  "GetPlayerName u (parted r s w) = GetPlayerName u w"
  "rm_members (w_rooms (parted r s w) q) =
     (if q = r then removeAll s (rm_members (w_rooms w r)) else rm_members (w_rooms w q))"
  "rm_roomId (w_rooms (parted r s w) q) = rm_roomId (w_rooms w q)"
  "rm_roomName (w_rooms (parted r s w) q) = rm_roomName (w_rooms w q)"
  "jq_jobs (w_rooms (parted r s w) q) = jq_jobs (w_rooms w q)"
  "cs_room (w_clients (parted r s w) u) =
     (if u = s \<and> cs_room (w_clients w s) = Some r then None else cs_room (w_clients w u))"
  by (auto simp: parted_def SetRoom_def GetRoom_def GetPlayerName_def Let_def intro!: ready_cong)

lemma distinct_members_insert [simp]: "distinct (members_insert s ms) = distinct ms"
  by (auto simp: members_insert_def)

lemma set_members_insert [simp]: "set (members_insert s ms) = insert s (set ms)"
  by (auto simp: members_insert_def)

lemma GetPlayerName_tells: "tells w m w' \<Longrightarrow> GetPlayerName s w' = GetPlayerName s w"
  using quiet_clients(2) [of w' w s] by (simp add: tells_def GetPlayerName_def)

lemma make_broadcast:
  assumes "ready w" "packet_size p \<le> 4096" "distinct (rm_members (w_rooms w r))"
  shows "\<exists>sb w1. make_buffer t p w = Ok (Some sb, w1) \<and>
    tells w (\<lambda>s. if s \<in> set (rm_members (w_rooms w r)) then [p] else []) (Room_Broadcast r (Some sb) w1)"
proof -
  obtain sb w1 where m: "make_buffer t p w = Ok (Some sb, w1)" "tells w (\<lambda>_. []) w1"
    "\<And>ss. distinct ss \<Longrightarrow> tells w (\<lambda>s. if s \<in> set ss then [p] else []) (fold (Send (Some sb)) ss w1)"
    by (rule make_ok [OF assms(1,2), where t = t]) blast
  have "w_rooms w1 = w_rooms w" using m(2) quiet_eqD(1) [of w1 w] by (simp add: tells_def)
  then show ?thesis using m(1) m(3) [OF assms(3)] by (auto simp: Room_Broadcast_def)
qed

lemma make_send:
  assumes "ready w" "packet_size p \<le> 4096"
  shows "\<exists>sb w1. make_buffer t p w = Ok (Some sb, w1) \<and> tells w (\<lambda>u. if u = s then [p] else []) (Send (Some sb) s w1)"
proof -
  obtain sb w1 where m: "make_buffer t p w = Ok (Some sb, w1)"
    "\<And>ss. distinct ss \<Longrightarrow> tells w (\<lambda>s. if s \<in> set ss then [p] else []) (fold (Send (Some sb)) ss w1)"
    by (rule make_ok [OF assms(1,2), where t = t]) blast
  show ?thesis using m(1) m(2) [of "[s]"] by auto
qed

text \<open>Send a response to \<open>s\<close>, then broadcast a notice: the common part of \<open>Enter\<close> and \<open>Leave\<close>.\<close>

lemma respond_and_broadcast:
  assumes "ready w" "packet_size p \<le> 4096" "packet_size (n (GetPlayerName s w)) \<le> 4096"
    "distinct (rm_members (w_rooms w r))"
  shows "\<exists>w'. res_bind (make_buffer t p w) (\<lambda>(sb, w3). let w4 = Send sb s w3 in
        res_bind (make_buffer t (n (GetPlayerName s w4)) w4) (\<lambda>(notice, w5). Ok (Room_Broadcast r notice w5))) = Ok w' \<and>
    tells w (\<lambda>u. (if u = s then [p] else []) @
      (if u \<in> set (rm_members (w_rooms w r)) then [n (GetPlayerName s w)] else [])) w'"
proof -
  obtain sb w1 where a: "make_buffer t p w = Ok (Some sb, w1)"
    "tells w (\<lambda>u. if u = s then [p] else []) (Send (Some sb) s w1)"
    using make_send [OF assms(1,2)] by blast
  define w4 where "w4 = Send (Some sb) s w1"
  note a2 = a(2) [folded w4_def]
  have r: "w_rooms w4 = w_rooms w" "ready w4" "GetPlayerName s w4 = GetPlayerName s w"
    using a2 quiet_eqD(1) [of w4 w] GetPlayerName_tells [OF a2] by (auto simp: tells_def)
  obtain nb w5 where b: "make_buffer t (n (GetPlayerName s w)) w4 = Ok (Some nb, w5)"
    "tells w4 (\<lambda>u. if u \<in> set (rm_members (w_rooms w r)) then [n (GetPlayerName s w)] else [])
       (Room_Broadcast r (Some nb) w5)"
    using make_broadcast [OF r(2), of "n (GetPlayerName s w)" r t] assms(3,4) unfolding r(1) by blast
  show ?thesis
    using a(1) b(1) tells_trans [OF a2 b(2)] r(3) by (simp add: Let_def w4_def [symmetric] del: Send.simps)
qed

lemma Room_Enter_tells:
  assumes "ready w" "distinct (rm_members (w_rooms w r))"
    "packet_size (enter_response r (members_insert s (rm_members (w_rooms w r))) w) \<le> 4096"
    "packet_size (joined_notice (GetPlayerName s w)) \<le> 4096"
  shows "\<exists>w'. Room_Enter t r (Some s) w = Ok w' \<and>
    tells (joined r s w) (\<lambda>u. (if u = s then [enter_response r (members_insert s (rm_members (w_rooms w r))) w] else []) @
      (if u = s \<or> u \<in> set (rm_members (w_rooms w r)) then [joined_notice (GetPlayerName s w)] else [])) w'"
proof -
  let ?j = "joined r s w" and ?ms = "members_insert s (rm_members (w_rooms w r))"
  have "Room_Enter t r (Some s) w = res_bind (make_buffer t (enter_response r ?ms w) ?j) (\<lambda>(sb, w3).
      let w4 = Send sb s w3 in res_bind (make_buffer t (joined_notice (GetPlayerName s w4)) w4)
        (\<lambda>(notice, w5). Ok (Room_Broadcast r notice w5)))"
    by (simp add: Room_Enter_def enter_response_def Let_def flip: joined_def)
  then show ?thesis
    using respond_and_broadcast [of ?j "enter_response r ?ms w" joined_notice s r t] assms
    by (simp cong: if_cong)
qed

lemma Room_Leave_tells:
  assumes "ready w" "distinct (rm_members (w_rooms w r))"
    "packet_size (left_notice (GetPlayerName s w)) \<le> 4096"
  shows "\<exists>w'. Room_Leave t r (Some s) w = Ok w' \<and>
    tells (parted r s w) (\<lambda>u. (if u = s then [leave_response] else []) @
      (if u \<noteq> s \<and> u \<in> set (rm_members (w_rooms w r)) then [left_notice (GetPlayerName s w)] else [])) w'"
proof -
  let ?j = "parted r s w"
  have "Room_Leave t r (Some s) w = res_bind (make_buffer t leave_response ?j) (\<lambda>(sb, w3).
      let w4 = Send sb s w3 in res_bind (make_buffer t (left_notice (GetPlayerName s w4)) w4)
        (\<lambda>(notice, w5). Ok (Room_Broadcast r notice w5)))"
    by (simp add: Room_Leave_def leave_response_def parted_def Let_def)
  moreover have "packet_size leave_response \<le> 4096"
    by (simp add: leave_response_def packet_size_def enc_S_LEAVE_ROOM_def enc_bool_def)
  ultimately show ?thesis
    using respond_and_broadcast [of ?j leave_response left_notice s r t] assms
    by (simp add: distinct_removeAll conj_commute cong: if_cong)
qed

lemma Room_HandleChat_tells:
  assumes "ready w" "distinct (rm_members (w_rooms w r))" "packet_size (chat_packet s message w) \<le> 4096"
  shows "\<exists>w'. Room_HandleChat t r (Some s) message w = Ok w' \<and>
    tells w (\<lambda>u. if u \<in> set (rm_members (w_rooms w r)) then [chat_packet s message w] else []) w'"
  using make_broadcast [OF assms(1,3,2), of t]
  by (auto simp: Room_HandleChat_def chat_packet_def Let_def)

section \<open>Sizes\<close>

lemma enter_response_size:
  "packet_size (enter_response r ms w) =
     13 + length (rm_roomName (w_rooms w r)) mod 65536 + (\<Sum>m \<leftarrow> ms. 2 + length (GetPlayerName m w) mod 65536)"
proof -
  have "length (concat (map enc_MembersInfo (map (\<lambda>m. \<lparr>MembersInfo_name = GetPlayerName m w\<rparr>) ms))) =
      (\<Sum>m \<leftarrow> ms. 2 + length (GetPlayerName m w) mod 65536)"
    by (induction ms) (simp_all add: enc_MembersInfo_def length_enc_string)
  then show ?thesis
    by (simp add: enter_response_def packet_size_def enc_S_ENTER_ROOM_def enc_counted_def length_enc_string)
qed

lemma notice_sizes:
  "packet_size (joined_notice n) = 6 + (19 + length n) mod 65536"
  "packet_size (left_notice n) = 6 + (17 + length n) mod 65536"
  by (simp_all add: joined_notice_def left_notice_def packet_size_def enc_S_NOTICE_def length_enc_string)

lemma chat_packet_size:
  "packet_size (chat_packet s message w) = 8 + length (GetPlayerName s w) mod 65536 + length message mod 65536"
  by (simp add: chat_packet_def packet_size_def enc_S_ROOM_CHAT_def length_enc_string)

section \<open>Runs of jobs\<close>

text \<open>
  What a room whose jobs stay within the size of a packet looks like: at most 100 members with
  names of up to 32 bytes, a room name of up to 256 bytes, messages of up to 4000 bytes.
\<close>

definition room_ok :: "room_ref \<Rightarrow> nat \<Rightarrow> world \<Rightarrow> bool" where
  "room_ok r k w \<longleftrightarrow> ready w \<and> distinct (rm_members (w_rooms w r)) \<and>
     length (rm_members (w_rooms w r)) + k \<le> 100 \<and> length (rm_roomName (w_rooms w r)) \<le> 256 \<and>
     (\<forall>s. length (GetPlayerName s w) \<le> 32)"

fun job_ok :: "room_job \<Rightarrow> bool" where
  "job_ok (JobHandleChat s message) = (length message \<le> 4000)"
| "job_ok _ = True"

fun job_feed :: "(session_ref \<Rightarrow> string) \<Rightarrow> room_job \<Rightarrow> packet list" where
  "job_feed name (JobEnter (Some s)) = [joined_notice (name s)]"
| "job_feed name (JobLeave (Some s)) = [left_notice (name s)]"
| "job_feed name (JobHandleChat (Some s) message) =
     [Pkt_S_ROOM_CHAT \<lparr>S_ROOM_CHAT_senderName = name s, S_ROOM_CHAT_message = message\<rparr>]"
| "job_feed name (JobLeaveAndEnter (Some s) _) = [left_notice (name s)]"
| "job_feed name _ = []"

fun job_moves :: "session_ref \<Rightarrow> room_job \<Rightarrow> bool" where
  "job_moves s (JobEnter x) = (x = Some s)"
| "job_moves s (JobLeave x) = (x = Some s)"
| "job_moves s (JobHandleChat _ _) = False"
| "job_moves s (JobLeaveAndEnter x _) = (x = Some s)"

lemma sum_list_bound: "(\<And>x. f x \<le> n) \<Longrightarrow> (\<Sum>x \<leftarrow> xs. f x) \<le> length xs * (n :: nat)"
  by (induction xs) (auto simp: add_mono)

lemma enter_fits:
  assumes "length ms \<le> 100" "length (rm_roomName (w_rooms w r)) \<le> 256" "\<forall>s. length (GetPlayerName s w) \<le> 32"
  shows "packet_size (enter_response r ms w) \<le> 4096"
proof -
  have "2 + length (GetPlayerName m w) mod 65536 \<le> 34" for m using assms(3) [rule_format, of m] by simp
  then have "(\<Sum>m \<leftarrow> ms. 2 + length (GetPlayerName m w) mod 65536) \<le> length ms * 34" by (rule sum_list_bound)
  then show ?thesis using assms(1,2) by (simp add: enter_response_size)
qed

lemma PushJob_ready [simp]: "ready (PushJob r j w) = ready w" "sent (PushJob r j w) s = sent w s"
  "GetPlayerName s (PushJob r j w) = GetPlayerName s w"
  by (auto simp: GetPlayerName_def intro!: ready_cong)

lemma tells_simps:
  assumes "tells w m w'"
  shows "ready w'" "sent w' s = sent w s @ map packet_bytes (m s)" "w_rooms w' = w_rooms w"
    "GetPlayerName s w' = GetPlayerName s w" "cs_room (w_clients w' s) = cs_room (w_clients w s)"
    "w_roomTable w' = w_roomTable w" "w_nextRoom w' = w_nextRoom w"
  using assms quiet_eqD(1-3) [of w' w] quiet_clients(1) [of w' w s] GetPlayerName_tells [OF assms]
  by (auto simp: tells_def)

lemma room_okD:
  assumes "room_ok r (Suc k) w"
  shows "ready w" "distinct (rm_members (w_rooms w r))" "length (rm_roomName (w_rooms w r)) \<le> 256"
    "\<forall>s. length (GetPlayerName s w) \<le> 32" "length (members_insert s (rm_members (w_rooms w r))) + k \<le> 100"
    "packet_size (enter_response r (members_insert s (rm_members (w_rooms w r))) w) \<le> 4096"
    "packet_size (joined_notice (GetPlayerName s w)) \<le> 4096"
    "packet_size (left_notice (GetPlayerName s w)) \<le> 4096"
    "length message \<le> 4000 \<Longrightarrow> packet_size (chat_packet s message w) \<le> 4096"
    "length (removeAll s (rm_members (w_rooms w r))) + k \<le> 100"
proof -
  show "length (removeAll s (rm_members (w_rooms w r))) + k \<le> 100"
    using assms length_removeAll_less_eq [of s "rm_members (w_rooms w r)"] unfolding room_ok_def by linarith
  show r: "ready w" "distinct (rm_members (w_rooms w r))" "length (rm_roomName (w_rooms w r)) \<le> 256"
    "\<forall>s. length (GetPlayerName s w) \<le> 32" "length (members_insert s (rm_members (w_rooms w r))) + k \<le> 100"
    using assms by (auto simp: room_ok_def members_insert_def)
  then show "packet_size (enter_response r (members_insert s (rm_members (w_rooms w r))) w) \<le> 4096"
    by (intro enter_fits) auto
  have "length (GetPlayerName s w) \<le> 32" using r(4) by simp
  then show "packet_size (joined_notice (GetPlayerName s w)) \<le> 4096"
    "packet_size (left_notice (GetPlayerName s w)) \<le> 4096"
    "length message \<le> 4000 \<Longrightarrow> packet_size (chat_packet s message w) \<le> 4096"
    by (simp_all add: notice_sizes chat_packet_size)
qed

lemma run_job_spec:
  assumes "room_ok r (Suc k) w" "job_ok j"
  obtains w' where "run_job t r j w = Ok w'" "room_ok r k w'" "\<And>s. GetPlayerName s w' = GetPlayerName s w"
    "\<And>s. \<not> job_moves s j \<Longrightarrow> s \<in> set (rm_members (w_rooms w' r)) \<longleftrightarrow> s \<in> set (rm_members (w_rooms w r))"
    "\<And>s. s \<in> set (rm_members (w_rooms w r)) \<Longrightarrow> \<not> job_moves s j \<Longrightarrow>
       sent w' s = sent w s @ map packet_bytes (job_feed (\<lambda>u. GetPlayerName u w) j)"
proof (cases j)
  case (JobEnter x)
  show thesis
  proof (cases x)
    case None
    then show thesis
      using that [of w] JobEnter assms(1) by (simp add: Room_Enter_def room_ok_def)
  next
    case (Some s)
    note ok = room_okD [OF assms(1)]
    obtain w' where w': "Room_Enter t r (Some s) w = Ok w'"
      "tells (joined r s w) (\<lambda>u. (if u = s then [enter_response r (members_insert s (rm_members (w_rooms w r))) w] else []) @
      (if u = s \<or> u \<in> set (rm_members (w_rooms w r)) then [joined_notice (GetPlayerName s w)] else [])) w'"
      using Room_Enter_tells [OF ok(1,2,6,7), where t = t] by blast
    show thesis
      by (rule that [of w'])
        (use w'(1) tells_simps [OF w'(2)] ok JobEnter Some in \<open>auto simp: room_ok_def\<close>)
  qed
next
  case (JobLeave x)
  show thesis
  proof (cases x)
    case None
    then show thesis
      using that [of w] JobLeave assms(1) by (simp add: Room_Leave_def room_ok_def)
  next
    case (Some s)
    note ok = room_okD [OF assms(1)]
    obtain w' where w': "Room_Leave t r (Some s) w = Ok w'"
      "tells (parted r s w) (\<lambda>u. (if u = s then [leave_response] else []) @
      (if u \<noteq> s \<and> u \<in> set (rm_members (w_rooms w r)) then [left_notice (GetPlayerName s w)] else [])) w'"
      using Room_Leave_tells [OF ok(1,2,8), where t = t] by blast
    show thesis
      using that [of w'] w'(1) tells_simps [OF w'(2)] ok JobLeave Some
      by (auto simp: room_ok_def distinct_removeAll)
  qed
next
  case (JobHandleChat x message)
  show thesis
  proof (cases x)
    case None
    then show thesis
      using that [of w] JobHandleChat assms(1) by (simp add: Room_HandleChat_def room_ok_def)
  next
    case (Some s)
    note ok = room_okD [OF assms(1)]
    have m: "packet_size (chat_packet s message w) \<le> 4096" using ok(9) assms(2) JobHandleChat by simp
    obtain w' where w': "Room_HandleChat t r (Some s) message w = Ok w'"
      "tells w (\<lambda>u. if u \<in> set (rm_members (w_rooms w r)) then [chat_packet s message w] else []) w'"
      using Room_HandleChat_tells [OF ok(1,2) m, where t = t] by blast
    show thesis
      by (rule that [of w'])
        (use w'(1) tells_simps [OF w'(2)] ok JobHandleChat Some assms(1) in \<open>auto simp: room_ok_def chat_packet_def\<close>)
  qed
next
  case (JobLeaveAndEnter x target)
  show thesis
  proof (cases x)
    case None
    then show thesis
      using that [of w] JobLeaveAndEnter assms(1) by (simp add: Room_LeaveAndEnter_def room_ok_def)
  next
    case (Some s)
    note ok = room_okD [OF assms(1)]
    obtain w' where w': "Room_Leave t r (Some s) w = Ok w'"
      "tells (parted r s w) (\<lambda>u. (if u = s then [leave_response] else []) @
      (if u \<noteq> s \<and> u \<in> set (rm_members (w_rooms w r)) then [left_notice (GetPlayerName s w)] else [])) w'"
      using Room_Leave_tells [OF ok(1,2,8), where t = t] by blast
    define w'' where "w'' = (case target of None \<Rightarrow> w' | Some q \<Rightarrow> PushJob q (JobEnter (Some s)) w')"
    have "ready w'' = ready w'" "sent w'' u = sent w' u" "GetPlayerName u w'' = GetPlayerName u w'"
      "rm_members (w_rooms w'' r) = rm_members (w_rooms w' r)"
      "rm_roomName (w_rooms w'' r) = rm_roomName (w_rooms w' r)" for u
      by (simp_all add: w''_def split: option.split)
    then show thesis
      using that [of w''] w'(1) tells_simps [OF w'(2)] ok JobLeaveAndEnter Some
      by (auto simp: room_ok_def distinct_removeAll Room_LeaveAndEnter_def w''_def [symmetric])
  qed
qed

lemma run_job_ex:
  assumes "room_ok r (Suc k) w" "job_ok j"
  shows "\<exists>w'. run_job t r j w = Ok w' \<and> room_ok r k w' \<and> (\<forall>s. GetPlayerName s w' = GetPlayerName s w) \<and>
    (\<forall>s. \<not> job_moves s j \<longrightarrow> s \<in> set (rm_members (w_rooms w' r)) \<longleftrightarrow> s \<in> set (rm_members (w_rooms w r))) \<and>
    (\<forall>s. s \<in> set (rm_members (w_rooms w r)) \<longrightarrow> \<not> job_moves s j \<longrightarrow>
       sent w' s = sent w s @ map packet_bytes (job_feed (\<lambda>u. GetPlayerName u w) j))"
  by (rule run_job_spec [where t = t, OF assms]) blast

section \<open>Properties\<close>

text \<open>
  Entering a room. The session becomes a member, once, and its room is this one; nothing changes
  in other rooms. It is sent the response with the names of all members, itself included, and then
  every member, itself included, is sent the notice; nobody else is sent anything.
\<close>

theorem room_enter:
  assumes "ready w" "distinct (rm_members (w_rooms w r))"
    "packet_size (enter_response r (members_insert s (rm_members (w_rooms w r))) w) \<le> 4096"
    "packet_size (joined_notice (GetPlayerName s w)) \<le> 4096"
  shows "\<exists>w'. Room_Enter t r (Some s) w = Ok w' \<and> ready w' \<and>
    (let ms = rm_members (w_rooms w' r) in
     distinct ms \<and> set ms = insert s (set (rm_members (w_rooms w r))) \<and> GetRoom s w' = Some r \<and>
     (\<forall>q. q \<noteq> r \<longrightarrow> w_rooms w' q = w_rooms w q) \<and>
     sent w' s = sent w s @ [packet_bytes (enter_response r ms w), packet_bytes (joined_notice (GetPlayerName s w))] \<and>
     (\<forall>u \<in> set ms - {s}. sent w' u = sent w u @ [packet_bytes (joined_notice (GetPlayerName s w))]) \<and>
     (\<forall>u. u \<notin> set ms \<longrightarrow> sent w' u = sent w u))"
proof -
  obtain w' where w': "Room_Enter t r (Some s) w = Ok w'"
    "tells (joined r s w) (\<lambda>u. (if u = s then [enter_response r (members_insert s (rm_members (w_rooms w r))) w] else []) @
      (if u = s \<or> u \<in> set (rm_members (w_rooms w r)) then [joined_notice (GetPlayerName s w)] else [])) w'"
    using Room_Enter_tells [OF assms, of t] by blast
  have "w_rooms (joined r s w) q = w_rooms w q" if "q \<noteq> r" for q
    using that by (simp add: joined_def SetRoom_def)
  then show ?thesis
    using w'(1) tells_simps [OF w'(2)] assms(1,2) by (auto simp: Let_def GetRoom_def)
qed

text \<open>
  Leaving a room. The session is a member no more, and has no room if it was in this one; it is
  sent the response, every remaining member is sent the notice, and nobody else anything.
\<close>

theorem room_leave:
  assumes "ready w" "distinct (rm_members (w_rooms w r))"
    "packet_size (left_notice (GetPlayerName s w)) \<le> 4096"
  shows "\<exists>w'. Room_Leave t r (Some s) w = Ok w' \<and> ready w' \<and>
    (let ms = rm_members (w_rooms w' r) in
     distinct ms \<and> set ms = set (rm_members (w_rooms w r)) - {s} \<and> GetRoom s w' \<noteq> Some r \<and>
     (GetRoom s w \<noteq> Some r \<longrightarrow> GetRoom s w' = GetRoom s w) \<and>
     (\<forall>q. q \<noteq> r \<longrightarrow> w_rooms w' q = w_rooms w q) \<and> sent w' s = sent w s @ [packet_bytes leave_response] \<and>
     (\<forall>u \<in> set ms. sent w' u = sent w u @ [packet_bytes (left_notice (GetPlayerName s w))]) \<and>
     (\<forall>u. u \<noteq> s \<and> u \<notin> set ms \<longrightarrow> sent w' u = sent w u))"
proof -
  obtain w' where w': "Room_Leave t r (Some s) w = Ok w'"
    "tells (parted r s w) (\<lambda>u. (if u = s then [leave_response] else []) @
      (if u \<noteq> s \<and> u \<in> set (rm_members (w_rooms w r)) then [left_notice (GetPlayerName s w)] else [])) w'"
    using Room_Leave_tells [OF assms, of t] by blast
  have "w_rooms (parted r s w) q = w_rooms w q" if "q \<noteq> r" for q
    using that by (simp add: parted_def SetRoom_def Let_def)
  then show ?thesis
    using w'(1) tells_simps [OF w'(2)] assms(1,2) by (auto simp: Let_def GetRoom_def distinct_removeAll)
qed

lemma run_jobs_room:
  assumes "room_ok r (length js) w" "\<forall>j \<in> set js. job_ok j" "\<forall>j \<in> set js. \<not> job_moves s j"
    "s \<in> set (rm_members (w_rooms w r))"
  shows "\<exists>w'. run_jobs (run_job t r) js w = Ok w' \<and> room_ok r 0 w' \<and> s \<in> set (rm_members (w_rooms w' r)) \<and>
    sent w' s = sent w s @ map packet_bytes (concat (map (job_feed (\<lambda>u. GetPlayerName u w)) js))"
  using assms
proof (induction js arbitrary: w)
  case (Cons j js)
  then have ok: "room_ok r (Suc (length js)) w" "job_ok j" by simp_all
  obtain w1 where w1: "run_job t r j w = Ok w1" "room_ok r (length js) w1"
    "\<And>s. GetPlayerName s w1 = GetPlayerName s w"
    "\<And>s. \<not> job_moves s j \<Longrightarrow> s \<in> set (rm_members (w_rooms w1 r)) \<longleftrightarrow> s \<in> set (rm_members (w_rooms w r))"
    "\<And>s. s \<in> set (rm_members (w_rooms w r)) \<Longrightarrow> \<not> job_moves s j \<Longrightarrow>
       sent w1 s = sent w s @ map packet_bytes (job_feed (\<lambda>u. GetPlayerName u w) j)"
    using run_job_ex [OF ok, of t] by blast
  have "s \<in> set (rm_members (w_rooms w1 r))" "\<not> job_moves s j" using w1(4) Cons.prems by simp_all
  with Cons.IH [OF w1(2)] Cons.prems w1 show ?case by auto
qed simp

text \<open>
  The calls of \<open>Send\<close> that a sequence of jobs makes on a member that does not itself move: one packet
  per job, the chat message, the join or the leave it announces. No job fails and none is skipped. The
  bounds keep every packet below 4096 bytes. What the sessions do with these calls is the matter of
  the theory \<open>RoomDelivery\<close>.
\<close>

lemma room_jobs_feed:
  assumes "room_ok r (length js) w" "\<forall>j \<in> set js. job_ok j"
  shows "\<exists>w'. run_jobs (run_job t r) js w = Ok w' \<and>
    (\<forall>s \<in> set (rm_members (w_rooms w r)). (\<forall>j \<in> set js. \<not> job_moves s j) \<longrightarrow> ready w' \<and>
       sent w' s = sent w s @ map packet_bytes (concat (map (job_feed (\<lambda>u. GetPlayerName u w)) js)))"
proof -
  have "\<exists>w'. run_jobs (run_job t r) js w = Ok w'" using assms
  proof (induction js arbitrary: w)
    case (Cons j js)
    then have ok: "room_ok r (Suc (length js)) w" "job_ok j" by simp_all
    obtain w1 where "run_job t r j w = Ok w1" "room_ok r (length js) w1"
      using run_job_ex [OF ok, of t] by blast
    with Cons.IH [of w1] Cons.prems show ?case by simp
  qed simp
  then obtain w' where w': "run_jobs (run_job t r) js w = Ok w'" by blast
  then show ?thesis using run_jobs_room [where t = t, OF assms] by (auto simp: room_ok_def)
qed

text \<open>Jobs only add calls of \<open>Send\<close>.\<close>

lemma make_buffer_sends: "make_buffer t p w = Ok (sb, w') \<Longrightarrow> cs_sends (w_clients w' u) = cs_sends (w_clients w u)"
  by (auto simp: make_buffer_def res_iff)

lemma Send_sends: "prefix (cs_sends (w_clients w u)) (cs_sends (w_clients (Send sb s w) u))"
  by (cases sb) simp_all

lemma fold_Send_sends: "prefix (cs_sends (w_clients w u)) (cs_sends (w_clients (fold (Send sb) ss w) u))"
  by (induction ss arbitrary: w) (auto intro: prefix_order.trans [OF Send_sends])

lemma respond_sends:
  assumes "res_bind (make_buffer t p w) (\<lambda>(sb, w3). let w4 = Send sb s w3 in
      res_bind (make_buffer t (n (GetPlayerName s w4)) w4) (\<lambda>(notice, w5). Ok (Room_Broadcast r notice w5))) = Ok w'"
  shows "prefix (cs_sends (w_clients w u)) (cs_sends (w_clients w' u))"
proof -
  obtain sb w3 where 3: "make_buffer t p w = Ok (sb, w3)"
    "res_bind (make_buffer t (n (GetPlayerName s (Send sb s w3))) (Send sb s w3))
       (\<lambda>(notice, w5). Ok (Room_Broadcast r notice w5)) = Ok w'"
    using assms by (auto simp: res_iff Let_def)
  then obtain notice w5 where 5: "make_buffer t (n (GetPlayerName s (Send sb s w3))) (Send sb s w3) = Ok (notice, w5)"
    "w' = Room_Broadcast r notice w5" by (auto simp: res_iff)
  show ?thesis
    using Send_sends [of w3 u sb s] fold_Send_sends [of w5 u notice "rm_members (w_rooms w5 r)"]
    unfolding 5(2) Room_Broadcast_def make_buffer_sends [OF 5(1)] make_buffer_sends [OF 3(1)]
    by (rule prefix_order.trans)
qed

lemma run_job_sends:
  assumes "run_job t r j w = Ok w'"
  shows "prefix (cs_sends (w_clients w u)) (cs_sends (w_clients w' u))"
proof -
  have leave: "prefix (cs_sends (w_clients w u)) (cs_sends (w_clients w1 u))"
    if l: "Room_Leave t r (Some s) w = Ok w1" for s w1
    using l unfolding Room_Leave_def option.case Let_def parted_def [unfolded Let_def, symmetric]
    by (auto dest!: respond_sends [unfolded Let_def, where u = u])
  show ?thesis
  proof (cases j)
    case (JobEnter x)
    then show ?thesis
      using assms by (cases x) (auto simp: Room_Enter_def Let_def simp flip: joined_def
        dest!: respond_sends [unfolded Let_def, where u = u])
  next
    case (JobLeave x)
    then show ?thesis using assms leave by (cases x) (auto simp: Room_Leave_def [of _ _ None])
  next
    case (JobHandleChat x msg)
    then show ?thesis
      using assms by (cases x) (auto simp: Room_HandleChat_def Let_def res_iff Room_Broadcast_def
          dest!: make_buffer_sends [where u = u] intro: prefix_order.trans [OF _ fold_Send_sends])
  next
    case (JobLeaveAndEnter x target)
    then show ?thesis
      using assms leave by (cases x) (auto simp: Room_LeaveAndEnter_def res_iff split: option.splits)
  qed
qed

lemma run_jobs_sends:
  "run_jobs (run_job t r) js w = Ok w' \<Longrightarrow> prefix (cs_sends (w_clients w u)) (cs_sends (w_clients w' u))"
  by (induction js arbitrary: w) (auto simp: res_iff intro: prefix_order.trans [OF run_job_sends])

text \<open>
  C36: A crowded room takes the server down. When the names of the members, the newcomer included, no
  longer fit into one packet of 4096 bytes, the response of \<open>Enter\<close> cannot be serialised:
  \<open>MakeSendBuffer\<close> gives a null buffer, and in the state \<open>w3\<close> it leaves, the session is a member and has
  the room, but no session has been sent anything; passing the null buffer to \<open>Send\<close> changes nothing. All
  that is left of \<open>Enter\<close> is then the notice for the members, which the same thread serialises with
  the chunk still open: that assertion fails, and the process ends. With names of nine bytes 372
  members are enough.
\<close>

theorem crowded_room_crashes:
  assumes "ready w" "packet_size (enter_response r (members_insert s (rm_members (w_rooms w r))) w) > 4096"
  shows "\<exists>w3. make_buffer t (enter_response r (members_insert s (rm_members (w_rooms w r))) w) (joined r s w) =
      Ok (None, w3) \<and>
    s \<in> set (rm_members (w_rooms w3 r)) \<and> GetRoom s w3 = Some r \<and>
    (\<forall>u. cs_sends (w_clients w3 u) = cs_sends (w_clients w u)) \<and>
    Room_Enter t r (Some s) w = res_bind (make_buffer t (joined_notice (GetPlayerName s w)) w3)
      (\<lambda>(notice, w5). Ok (Room_Broadcast r notice w5)) \<and>
    make_buffer t (joined_notice (GetPlayerName s w)) w3 = Crash AssertCrash \<and>
    Room_Enter t r (Some s) w = Crash AssertCrash"
proof -
  let ?p = "enter_response r (members_insert s (rm_members (w_rooms w r))) w"
  have sb: "sb_inv (w_sendBuffers w)" "sb_idle (w_sendBuffers w) t" using assms(1) by (simp_all add: ready_def)
  have full: "\<not> 4 + length (enc_packet ?p) \<le> 4096" using assms(2) by (simp add: packet_size_def)
  obtain b where b: "MakeSendBuffer_packet t ?p (w_sendBuffers w) = Ok (None, b)" "\<not> sb_idle b t"
    unfolding MakeSendBuffer_packet_eq by (rule MakeSendBuffer_full [OF sb writes_packet_fields full])
  define w3 where "w3 = (joined r s w)\<lparr>w_sendBuffers := b\<rparr>"
  have enter: "Room_Enter t r (Some s) w = res_bind (make_buffer t ?p (joined r s w)) (\<lambda>(sb, w3).
      let w4 = Send sb s w3 in res_bind (make_buffer t (joined_notice (GetPlayerName s w4)) w4)
        (\<lambda>(notice, w5). Ok (Room_Broadcast r notice w5)))"
    by (simp add: Room_Enter_def enter_response_def Let_def flip: joined_def)
  have make: "make_buffer t ?p (joined r s w) = Ok (None, w3)" using b(1) by (simp add: make_buffer_def w3_def)
  have crash: "make_buffer t p w3 = Crash AssertCrash" for p
    using b(2) by (simp add: make_buffer_def w3_def MakeSendBuffer_packet_eq MakeSendBuffer_busy)
  have w3: "w_clients w3 = w_clients (joined r s w)" "w_rooms w3 = w_rooms (joined r s w)"
    by (simp_all add: w3_def)
  have "GetPlayerName s w3 = GetPlayerName s w" using joined_simps(5) [of s r s w] by (simp add: GetPlayerName_def w3)
  then show ?thesis
    using make crash by (intro exI [of _ w3]) (simp add: enter w3 GetRoom_def Let_def)
qed

section \<open>Examples\<close>

text \<open>A room with the members \<open>ms\<close>; session 2 is called bob, everybody else \<open>n\<close>.\<close>

definition room_world :: "string \<Rightarrow> session_ref list \<Rightarrow> world" where
  "room_world n ms = upd_room 0 (\<lambda>x. x\<lparr>rm_members := ms\<rparr>)
     (world_start (\<lambda>s. (ClientSession_new 0 [] 0)\<lparr>cs_playerName := (if s = 2 then ''bob'' else n)\<rparr>))"

lemma room_world_simps [simp]:
  "ready (room_world n ms)" "rm_members (w_rooms (room_world n ms) 0) = ms"
  "rm_roomName (w_rooms (room_world n ms) 0) = []" "sent (room_world n ms) s = []"
  "GetPlayerName s (room_world n ms) = (if s = 2 then ''bob'' else n)"
  by (simp_all add: room_world_def world_start_def ClientSession_new_def Room_new_def ready_def sent_def
      all_closed_def sb_inv_start sb_idle_start GetPlayerName_def)

theorem room_enter_witness:
  "\<exists>w'. Room_Enter 0 0 (Some 2) (room_world ''al'' [1]) = Ok w' \<and> set (rm_members (w_rooms w' 0)) = {1, 2} \<and>
     sent w' 1 = [packet_bytes (joined_notice ''bob'')] \<and> length (sent w' 2) = 2"
  using room_enter [of "room_world ''al'' [1]" 0 2 0]
  by (auto simp: members_insert_def enter_response_size notice_sizes Let_def)

theorem room_leave_witness:
  "\<exists>w'. Room_Leave 0 0 (Some 2) (room_world ''al'' [1, 2]) = Ok w' \<and> set (rm_members (w_rooms w' 0)) = {1} \<and>
     sent w' 1 = [packet_bytes (left_notice ''bob'')] \<and> sent w' 2 = [packet_bytes leave_response]"
  using room_leave [of "room_world ''al'' [1, 2]" 0 2 0] by (auto simp: notice_sizes Let_def)

theorem crowded_room_crashes_witness:
  "Room_Enter 0 0 (Some 2) (room_world ''dummy_001'' (map of_nat [3..<1003])) = Crash AssertCrash"
proof -
  define ms where "ms = (map of_nat [3..<1003] :: session_ref list)"
  let ?w = "room_world ''dummy_001'' ms"
  have "length l * 5 \<le> (\<Sum>m \<leftarrow> l. 2 + length (GetPlayerName m ?w) mod 65536)" for l
    by (induction l) simp_all
  from this [of "members_insert 2 ms"] have "length (members_insert 2 ms) * 5 + 13 \<le>
      packet_size (enter_response 0 (members_insert 2 ms) ?w)"
    by (simp only: enter_response_size)
  moreover have "length ms = 1000" by (simp add: ms_def)
  then have "1000 \<le> length (members_insert 2 ms)" by (simp add: members_insert_def)
  ultimately have "packet_size (enter_response 0 (members_insert 2 (rm_members (w_rooms ?w 0))) ?w) > 4096"
    unfolding room_world_simps by linarith
  from crowded_room_crashes [OF room_world_simps(1) this, of 0] show ?thesis by (auto simp: ms_def)
qed

end
