(* ===== verification/RoomManager.thy ===== *)
theory RoomManager
  imports Room "HOL-Library.AList"
begin

text \<open>
  \<^verbatim>\<open>ChatServer/Room/RoomManager.cpp\<close>: the table of the rooms. Every operation is one critical section
  of its lock, except \<open>GetOrCreateRoom\<close>, which looks under the shared lock first and calls
  \<open>CreateRoom\<close> after having released it; between the two another thread may create the room.
  \<open>_rooms\<close> is an association list, the iteration order of the hash map being open.
\<close>

section \<open>Operations\<close>

text \<open>\<open>std::make_shared<Room>(roomId, name)\<close> and \<open>_rooms[roomId] = room\<close>\<close>

definition make_room :: "uint32 \<Rightarrow> string \<Rightarrow> world \<Rightarrow> room_ref \<times> world" where
  "make_room roomId name w = (w_nextRoom w,
     w\<lparr>w_rooms := (w_rooms w)(w_nextRoom w := Room_new roomId name), w_nextRoom := Suc (w_nextRoom w)\<rparr>)"

definition table_set :: "uint32 \<Rightarrow> room_ref \<Rightarrow> world \<Rightarrow> world" where
  "table_set roomId room w = w\<lparr>w_roomTable := AList.update roomId room (w_roomTable w)\<rparr>"

definition RoomManager_Init :: "world \<Rightarrow> world" where
  "RoomManager_Init w =
     (let w = w\<lparr>w_roomTable := []\<rparr>;
          (r1, w) = make_room 1 ''Lobby Channel 1'' w; w = table_set 1 r1 w;
          (r2, w) = make_room 2 ''Chat Room 2'' w; w = table_set 2 r2 w;
          (r3, w) = make_room 3 ''Free Talk 3'' w; w = table_set 3 r3 w
      in w)"

definition FindRoom :: "uint32 \<Rightarrow> world \<Rightarrow> room_ref option" where
  "FindRoom roomId w = map_of (w_roomTable w) roomId"

definition CreateRoom :: "uint32 \<Rightarrow> string \<Rightarrow> world \<Rightarrow> room_ref \<times> world" where
  "CreateRoom roomId name w =
     (case map_of (w_roomTable w) roomId of
        Some room \<Rightarrow> (room, w)
      | None \<Rightarrow> let (room, w1) = make_room roomId name w in (room, table_set roomId room w1))"

definition GetOrCreateRoom :: "uint32 \<Rightarrow> string \<Rightarrow> world \<Rightarrow> room_ref \<times> world" where
  "GetOrCreateRoom roomId defaultName w =
     (case map_of (w_roomTable w) roomId of
        Some room \<Rightarrow> (room, w)
      | None \<Rightarrow> CreateRoom roomId defaultName w)"

definition RemoveRoom :: "uint32 \<Rightarrow> world \<Rightarrow> world" where
  "RemoveRoom roomId w = w\<lparr>w_roomTable := AList.delete roomId (w_roomTable w)\<rparr>"

definition GetRoomListInfo :: "world \<Rightarrow> RoomsInfo list" where
  "GetRoomListInfo w = map (\<lambda>(i, room).
     \<lparr>RoomsInfo_roomId = rm_roomId (w_rooms w room), RoomsInfo_roomName = rm_roomName (w_rooms w room),
      RoomsInfo_userCount = GetUserCount room w\<rparr>) (w_roomTable w)"

definition GetTotalRoomCount :: "world \<Rightarrow> int32" where
  "GetTotalRoomCount w = int (length (w_roomTable w))"

section \<open>The table\<close>

text \<open>
  One entry per id; the entry of an id is an allocated room with that id; no room is under two ids.
\<close>

definition table_inv :: "world \<Rightarrow> bool" where
  "table_inv w \<longleftrightarrow> distinct (map fst (w_roomTable w)) \<and>
     (\<forall>(i, r) \<in> set (w_roomTable w). r < w_nextRoom w \<and> rm_roomId (w_rooms w r) = i)"

lemma table_invD:
  assumes "table_inv w" "map_of (w_roomTable w) i = Some r"
  shows "r < w_nextRoom w" "rm_roomId (w_rooms w r) = i"
  using assms map_of_SomeD [OF assms(2)] by (auto simp: table_inv_def)

lemma AList_update_new: "map_of xs k = None \<Longrightarrow> AList.update k v xs = xs @ [(k, v)]"
  by (induction xs) (auto split: if_splits)

lemma make_room_table:
  assumes "table_inv w" "map_of (w_roomTable w) i = None" "make_room i name w = (r, w1)"
  shows "table_inv (table_set i r w1)" "w_roomTable (table_set i r w1) = w_roomTable w @ [(i, r)]"
proof -
  show t: "w_roomTable (table_set i r w1) = w_roomTable w @ [(i, r)]"
    using assms(2,3) by (auto simp: make_room_def table_set_def AList_update_new)
  have "i \<notin> fst ` set (w_roomTable w)" using assms(2) by (simp add: map_of_eq_None_iff)
  then show "table_inv (table_set i r w1)"
    using assms(1,3) t unfolding table_inv_def
    by (auto simp: make_room_def table_set_def Room_new_def less_Suc_eq)
qed

lemma CreateRoom_found: "map_of (w_roomTable w) i = Some r \<Longrightarrow> CreateRoom i name w = (r, w)"
  by (simp add: CreateRoom_def)

lemma GetOrCreateRoom_eq: "GetOrCreateRoom i name w = CreateRoom i name w"
  by (simp add: GetOrCreateRoom_def CreateRoom_def split: option.split)

lemma CreateRoom_inv:
  assumes "table_inv w" "CreateRoom i name w = (r, w')"
  shows "table_inv w'" "FindRoom i w' = Some r" "w_nextRoom w \<le> w_nextRoom w'" "r < w_nextRoom w'"
    "\<forall>j q. FindRoom j w = Some q \<longrightarrow> FindRoom j w' = Some q"
    "\<forall>q < w_nextRoom w. w_rooms w' q = w_rooms w q"
    "w_clients w' = w_clients w" "w_sendBuffers w' = w_sendBuffers w"
proof -
  show "table_inv w'" "FindRoom i w' = Some r" "w_nextRoom w \<le> w_nextRoom w'" "r < w_nextRoom w'"
    "\<forall>j q. FindRoom j w = Some q \<longrightarrow> FindRoom j w' = Some q"
    "\<forall>q < w_nextRoom w. w_rooms w' q = w_rooms w q"
    "w_clients w' = w_clients w" "w_sendBuffers w' = w_sendBuffers w"
    using assms table_invD [OF assms(1)] make_room_table [OF assms(1)]
    by (auto simp: CreateRoom_def FindRoom_def make_room_def table_set_def map_add_Some_iff update_conv'
        split: option.splits)
qed

section \<open>Threads that look for rooms\<close>

text \<open>
  Any number of worker threads call \<open>GetOrCreateRoom\<close>. The section under the shared lock and \<open>CreateRoom\<close>, the
  section under the exclusive lock, are steps of their own. \<open>rt_results\<close> are the ids asked for and the rooms
  returned, \<open>other\<close> is what the rest of the server does in between.
\<close>

datatype room_thread =
    RtIdle
  | RtLooking uint32 string
  | RtCreating uint32 string

record room_run =
  rt_world :: world
  rt_threads :: "nat \<Rightarrow> room_thread"
  rt_results :: "(uint32 \<times> room_ref) list"

definition rt_return :: "nat \<Rightarrow> uint32 \<Rightarrow> room_ref \<Rightarrow> room_run \<Rightarrow> room_run" where
  "rt_return t i r x = x\<lparr>rt_threads := (rt_threads x)(t := RtIdle), rt_results := rt_results x @ [(i, r)]\<rparr>"

inductive room_run_step :: "room_run \<Rightarrow> room_run \<Rightarrow> bool" where
  call: "rt_threads x t = RtIdle \<Longrightarrow>
    room_run_step x (x\<lparr>rt_threads := (rt_threads x)(t := RtLooking i name)\<rparr>)"
| found: "rt_threads x t = RtLooking i name \<Longrightarrow> FindRoom i (rt_world x) = Some r \<Longrightarrow>
    room_run_step x (rt_return t i r x)"
| missed: "rt_threads x t = RtLooking i name \<Longrightarrow> FindRoom i (rt_world x) = None \<Longrightarrow>
    room_run_step x (x\<lparr>rt_threads := (rt_threads x)(t := RtCreating i name)\<rparr>)"
| create: "rt_threads x t = RtCreating i name \<Longrightarrow> CreateRoom i name (rt_world x) = (r, w') \<Longrightarrow>
    room_run_step x (rt_return t i r (x\<lparr>rt_world := w'\<rparr>))"
| other: "w_roomTable w' = w_roomTable (rt_world x) \<Longrightarrow> w_nextRoom w' = w_nextRoom (rt_world x) \<Longrightarrow>
    (\<And>r. rm_roomId (w_rooms w' r) = rm_roomId (w_rooms (rt_world x) r)) \<Longrightarrow>
    room_run_step x (x\<lparr>rt_world := w'\<rparr>)"

abbreviation room_run_reach :: "room_run \<Rightarrow> room_run \<Rightarrow> bool" where
  "room_run_reach \<equiv> room_run_step\<^sup>*\<^sup>*"

lemma rt_return_simps [simp]:
  "rt_world (rt_return t i r x) = rt_world x" "rt_results (rt_return t i r x) = rt_results x @ [(i, r)]"
  by (simp_all add: rt_return_def)

text \<open>Every room made since \<open>v\<close> is in the table, and no other entry.\<close>

definition room_run_inv :: "world \<Rightarrow> room_run \<Rightarrow> bool" where
  "room_run_inv v x \<longleftrightarrow> table_inv (rt_world x) \<and>
     w_nextRoom (rt_world x) + length (w_roomTable v) = w_nextRoom v + length (w_roomTable (rt_world x)) \<and>
     (\<forall>(i, r) \<in> set (rt_results x). FindRoom i (rt_world x) = Some r)"

lemma CreateRoom_counts:
  assumes "CreateRoom i name w = (r, w')"
  shows "w_nextRoom w' + length (w_roomTable w) = w_nextRoom w + length (w_roomTable w')"
  using assms
  by (auto simp: CreateRoom_def make_room_def table_set_def AList_update_new split: option.splits)

lemma room_run_step_inv:
  assumes "room_run_step x y" "room_run_inv v x"
  shows "room_run_inv v y"
  using assms(1)
proof cases
  case (create t i name r w')
  note c = CreateRoom_inv [OF _ create(3)]
  have "table_inv (rt_world x)" using assms(2) by (simp add: room_run_inv_def)
  then show ?thesis
    using assms(2) c(1,2,5) create(1) CreateRoom_counts [OF create(3)] by (auto simp: room_run_inv_def)
qed (use assms(2) in \<open>auto simp: room_run_inv_def table_inv_def FindRoom_def\<close>)

text \<open>C10: However the lookups and creations of any number of threads interleave, all calls of
  \<open>GetOrCreateRoom\<close> with one id return the same room, the one that \<open>FindRoom\<close> gives from then on, it has
  that id, calls with different ids return different rooms, and no room is made that is not in the table.\<close>

theorem rooms_created_once:
  assumes "table_inv (rt_world x)" "rt_results x = []" "room_run_reach x y"
    and "(i, r) \<in> set (rt_results y)" "(j, q) \<in> set (rt_results y)"
  shows "(i = j \<longleftrightarrow> r = q) \<and> FindRoom i (rt_world y) = Some r \<and> rm_roomId (w_rooms (rt_world y) r) = i \<and>
    w_nextRoom (rt_world y) + length (w_roomTable (rt_world x)) = w_nextRoom (rt_world x) + length (w_roomTable (rt_world y))"
proof -
  have "room_run_inv (rt_world x) x" using assms(1,2) by (simp add: room_run_inv_def)
  with assms(3) have "room_run_inv (rt_world x) y" by (induction rule: rtranclp_induct) (auto intro: room_run_step_inv)
  then have y: "table_inv (rt_world y)" "FindRoom i (rt_world y) = Some r" "FindRoom j (rt_world y) = Some q"
    "w_nextRoom (rt_world y) + length (w_roomTable (rt_world x)) = w_nextRoom (rt_world x) + length (w_roomTable (rt_world y))"
    using assms(4,5) by (auto simp: room_run_inv_def)
  have "rm_roomId (w_rooms (rt_world y) r) = i" "rm_roomId (w_rooms (rt_world y) q) = j"
    using table_invD(2) [OF y(1)] y(2,3) by (simp_all add: FindRoom_def)
  then show ?thesis using y(2-4) by (metis option.inject)
qed

text \<open>Two threads that both miss room 7 and then both create it.\<close>

definition two_threads :: "world \<Rightarrow> room_run" where
  "two_threads w = \<lparr>rt_world = w, rt_threads = \<lambda>_. RtIdle, rt_results = []\<rparr>"

lemma both_miss:
  assumes "FindRoom i w = None"
  shows "\<exists>y r q. room_run_reach (two_threads w) y \<and> rt_results y = [(i, r), (i, q)]"
proof -
  note step = rtranclp.rtrancl_into_rtrancl [of room_run_step]
  let ?x1 = "(two_threads w)\<lparr>rt_threads := (\<lambda>_. RtIdle)(0 := RtLooking i a)\<rparr>"
  let ?x2 = "?x1\<lparr>rt_threads := (rt_threads ?x1)(1 := RtLooking i b)\<rparr>"
  let ?x3 = "?x2\<lparr>rt_threads := (rt_threads ?x2)(0 := RtCreating i a)\<rparr>"
  let ?x4 = "?x3\<lparr>rt_threads := (rt_threads ?x3)(1 := RtCreating i b)\<rparr>"
  obtain r w1 where r: "CreateRoom i a w = (r, w1)" by fastforce
  let ?x5 = "rt_return 0 i r (?x4\<lparr>rt_world := w1\<rparr>)"
  obtain q w2 where q: "CreateRoom i b w1 = (q, w2)" by fastforce
  let ?x6 = "rt_return 1 i q (?x5\<lparr>rt_world := w2\<rparr>)"
  have "room_run_step (two_threads w) ?x1"
    using room_run_step.call [of "two_threads w" 0 i a] by (simp add: two_threads_def)
  moreover have "room_run_step ?x1 ?x2" by (rule room_run_step.call) simp
  moreover have "room_run_step ?x2 ?x3" by (rule room_run_step.missed) (use assms in \<open>simp_all add: two_threads_def\<close>)
  moreover have "room_run_step ?x3 ?x4" by (rule room_run_step.missed) (use assms in \<open>simp_all add: two_threads_def\<close>)
  moreover have "room_run_step ?x4 ?x5" by (rule room_run_step.create) (use r in \<open>simp_all add: two_threads_def\<close>)
  moreover have "room_run_step ?x5 ?x6" by (rule room_run_step.create) (use q in \<open>simp_all add: rt_return_def\<close>)
  ultimately have "room_run_reach (two_threads w) ?x6" by (meson rtranclp.rtrancl_refl step)
  moreover have "rt_results ?x6 = [(i, r), (i, q)]" by (simp add: two_threads_def)
  ultimately show ?thesis by blast
qed

theorem rooms_created_once_witness:
  "\<exists>y r. room_run_reach (two_threads (world_start (\<lambda>_. ClientSession_new 0 [] 0))) y \<and> rt_results y = [(7, r), (7, r)]"
proof -
  let ?w = "world_start (\<lambda>_. ClientSession_new 0 [] 0)"
  have w: "table_inv ?w" "FindRoom 7 ?w = None" by (simp_all add: world_start_def table_inv_def FindRoom_def)
  obtain y r q where y: "room_run_reach (two_threads ?w) y" "rt_results y = [(7, r), (7, q)]"
    using both_miss [OF w(2)] by blast
  have "r = q" using rooms_created_once [of "two_threads ?w", OF _ _ y(1), of 7 r 7 q] w(1) y(2) by (simp add: two_threads_def)
  then show ?thesis using y by blast
qed

end
