(* ===== verification/PacketHandlerImpl.thy ===== *)
theory PacketHandlerImpl
  imports RoomManager
begin

text \<open>
  \<^verbatim>\<open>ChatServer/Protocol/PacketHandlerImpl.cpp\<close>: what the server does with each packet. \<open>session\<close> is
  the pointer it is given, \<open>t\<close> the thread, \<open>clock\<close> the successive readings of \<open>GetTickCount64\<close>.
  \<open>handle_packet\<close> is the table through which the dispatcher of \<open>PacketHandler\<close> calls them.
\<close>

definition Handle_C_LOGIN ::
    "nat \<Rightarrow> session_ref option \<Rightarrow> C_LOGIN \<Rightarrow> world \<Rightarrow> (bool \<times> world) res" where
  "Handle_C_LOGIN t session pkt w =
     (case session of None \<Rightarrow> Ok (False, w)
      | Some clientSession \<Rightarrow>
        let playerId = w_playerIdGenerator w;
            w = w\<lparr>w_playerIdGenerator := playerId + 1\<rparr>;
            w = SetPlayerInfo playerId (C_LOGIN_name pkt) clientSession w;
            loginRes = \<lparr>S_LOGIN_success = True, S_LOGIN_playerId = playerId, S_LOGIN_name = C_LOGIN_name pkt,
              S_LOGIN_message = ''Welcome to High-Performance IOCP Chat Server!''\<rparr> in
        res_bind (make_buffer t (Pkt_S_LOGIN loginRes) w) (\<lambda>(sb, w). Ok (True, Send sb clientSession w)))"

definition Handle_C_HEARTBEAT ::
    "nat \<Rightarrow> (nat \<Rightarrow> uint64) \<Rightarrow> session_ref option \<Rightarrow> C_HEARTBEAT \<Rightarrow> world \<Rightarrow> (bool \<times> world) res" where
  "Handle_C_HEARTBEAT t clock session pkt w =
     (case session of None \<Rightarrow> Ok (False, w)
      | Some clientSession \<Rightarrow>
        let w = UpdateHeartbeat (clock 0) clientSession w;
            heartbeatRes = \<lparr>S_HEARTBEAT_serverTick = clock 1\<rparr> in
        res_bind (make_buffer t (Pkt_S_HEARTBEAT heartbeatRes) w) (\<lambda>(sb, w). Ok (True, Send sb clientSession w)))"

definition Handle_C_ROOM_LIST :: "nat \<Rightarrow> session_ref option \<Rightarrow> world \<Rightarrow> (bool \<times> world) res" where
  "Handle_C_ROOM_LIST t session w =
     (case session of None \<Rightarrow> Ok (False, w)
      | Some clientSession \<Rightarrow>
        let listRes = \<lparr>S_ROOM_LIST_rooms = GetRoomListInfo w\<rparr> in
        res_bind (make_buffer t (Pkt_S_ROOM_LIST listRes) w) (\<lambda>(sb, w). Ok (True, Send sb clientSession w)))"

definition Handle_C_ENTER_ROOM :: "session_ref option \<Rightarrow> C_ENTER_ROOM \<Rightarrow> world \<Rightarrow> (bool \<times> world) res" where
  "Handle_C_ENTER_ROOM session pkt w =
     (case session of None \<Rightarrow> Ok (False, w)
      | Some clientSession \<Rightarrow>
        let roomName = (if C_ENTER_ROOM_roomName pkt = [] then ''Room_'' @ to_string (sint (C_ENTER_ROOM_roomId pkt))
              else C_ENTER_ROOM_roomName pkt);
            (targetRoom, w) = GetOrCreateRoom (C_ENTER_ROOM_roomId pkt) roomName w in
        case GetRoom clientSession w of
          Some oldRoom \<Rightarrow>
            if oldRoom = targetRoom then Ok (True, w)
            else Ok (True, PushJob oldRoom (JobLeaveAndEnter session (Some targetRoom)) w)
        | None \<Rightarrow> Ok (True, PushJob targetRoom (JobEnter session) w))"

definition Handle_C_LEAVE_ROOM :: "session_ref option \<Rightarrow> world \<Rightarrow> (bool \<times> world) res" where
  "Handle_C_LEAVE_ROOM session w =
     (case session of None \<Rightarrow> Ok (False, w)
      | Some clientSession \<Rightarrow>
        (case GetRoom clientSession w of
           Some room \<Rightarrow> Ok (True, PushJob room (JobLeave session) w)
         | None \<Rightarrow> Ok (True, w)))"

definition Handle_C_ROOM_CHAT :: "session_ref option \<Rightarrow> C_ROOM_CHAT \<Rightarrow> world \<Rightarrow> (bool \<times> world) res" where
  "Handle_C_ROOM_CHAT session pkt w =
     (case session of None \<Rightarrow> Ok (False, w)
      | Some clientSession \<Rightarrow>
        (case GetRoom clientSession w of
           Some room \<Rightarrow> Ok (True, PushJob room (JobHandleChat session (C_ROOM_CHAT_message pkt)) w)
         | None \<Rightarrow> Ok (True, w)))"

definition Handle_C_GLOBAL_CHAT ::
    "nat \<Rightarrow> session_ref option \<Rightarrow> C_GLOBAL_CHAT \<Rightarrow> world \<Rightarrow> (bool \<times> world) res" where
  "Handle_C_GLOBAL_CHAT t session pkt w =
     (case session of None \<Rightarrow> Ok (False, w)
      | Some clientSession \<Rightarrow>
        let globalPkt = \<lparr>S_GLOBAL_CHAT_senderName = GetPlayerName clientSession w,
              S_GLOBAL_CHAT_message = C_GLOBAL_CHAT_message pkt\<rparr> in
        (case w_service w of
           Some service \<Rightarrow>
             res_bind (make_buffer t (Pkt_S_GLOBAL_CHAT globalPkt) w) (\<lambda>(sb, w).
             Ok (True, Service_Broadcast (Send sb) service w))
         | None \<Rightarrow> Ok (True, w)))"

text \<open>The dispatcher passes none of the packets of the last line.\<close>

fun handle_packet ::
    "nat \<Rightarrow> (nat \<Rightarrow> uint64) \<Rightarrow> session_ref option \<Rightarrow> packet \<Rightarrow> world \<Rightarrow> (bool \<times> world) res" where
  "handle_packet t clock session (Pkt_C_LOGIN pkt) = Handle_C_LOGIN t session pkt"
| "handle_packet t clock session (Pkt_C_HEARTBEAT pkt) = Handle_C_HEARTBEAT t clock session pkt"
| "handle_packet t clock session (Pkt_C_ROOM_LIST _) = Handle_C_ROOM_LIST t session"
| "handle_packet t clock session (Pkt_C_ENTER_ROOM pkt) = Handle_C_ENTER_ROOM session pkt"
| "handle_packet t clock session (Pkt_C_LEAVE_ROOM _) = Handle_C_LEAVE_ROOM session"
| "handle_packet t clock session (Pkt_C_ROOM_CHAT pkt) = Handle_C_ROOM_CHAT session pkt"
| "handle_packet t clock session (Pkt_C_GLOBAL_CHAT pkt) = Handle_C_GLOBAL_CHAT t session pkt"
| "handle_packet t clock session _ = (\<lambda>w. Ok (False, w))"

section \<open>Global chat\<close>

definition global_chat_packet :: "session_ref \<Rightarrow> string \<Rightarrow> world \<Rightarrow> packet" where
  "global_chat_packet s message w =
     Pkt_S_GLOBAL_CHAT \<lparr>S_GLOBAL_CHAT_senderName = GetPlayerName s w, S_GLOBAL_CHAT_message = message\<rparr>"

lemma Handle_C_GLOBAL_CHAT_tells:
  assumes "ready w" "w_service w = Some sv" "distinct (sv_sessions sv)"
    "packet_size (global_chat_packet s (C_GLOBAL_CHAT_message pkt) w) \<le> 4096"
  shows "\<exists>w'. Handle_C_GLOBAL_CHAT t (Some s) pkt w = Ok (True, w') \<and>
    tells w (\<lambda>u. if u \<in> set (sv_sessions sv) then [global_chat_packet s (C_GLOBAL_CHAT_message pkt) w] else []) w'"
proof -
  obtain sb w1 where m: "make_buffer t (global_chat_packet s (C_GLOBAL_CHAT_message pkt) w) w = Ok (Some sb, w1)"
    "\<And>ss. distinct ss \<Longrightarrow> tells w (\<lambda>u. if u \<in> set ss then [global_chat_packet s (C_GLOBAL_CHAT_message pkt) w] else [])
       (fold (Send (Some sb)) ss w1)"
    by (rule make_ok [OF assms(1,4), where t = t]) blast
  show ?thesis
    using m(1) m(2) [OF assms(3)] assms(2)
    by (auto simp: Handle_C_GLOBAL_CHAT_def global_chat_packet_def Let_def Service_Broadcast_def)
qed

section \<open>Properties\<close>

text \<open>
  Login. The session gets the next player id, which nobody has had, and the name it asks for, and
  is sent exactly the response that says so; the next login gets another id.
\<close>

theorem login_assigns_id:
  assumes "ready w" "length (C_LOGIN_name pkt) \<le> 4000"
  shows "\<exists>w'. Handle_C_LOGIN t (Some s) pkt w = Ok (True, w') \<and> ready w' \<and>
    cs_playerId (w_clients w' s) = w_playerIdGenerator w \<and> cs_playerName (w_clients w' s) = C_LOGIN_name pkt \<and>
    cs_authenticated (w_clients w' s) \<and> w_playerIdGenerator w' = w_playerIdGenerator w + 1 \<and>
    (\<forall>u. sent w' u = sent w u @ (if u = s then [packet_bytes (Pkt_S_LOGIN \<lparr>S_LOGIN_success = True,
       S_LOGIN_playerId = w_playerIdGenerator w, S_LOGIN_name = C_LOGIN_name pkt,
       S_LOGIN_message = ''Welcome to High-Performance IOCP Chat Server!''\<rparr>)] else []))"
proof -
  define w1 where "w1 = SetPlayerInfo (w_playerIdGenerator w) (C_LOGIN_name pkt) s
      (w\<lparr>w_playerIdGenerator := w_playerIdGenerator w + 1\<rparr>)"
  let ?p = "Pkt_S_LOGIN \<lparr>S_LOGIN_success = True, S_LOGIN_playerId = w_playerIdGenerator w,
      S_LOGIN_name = C_LOGIN_name pkt, S_LOGIN_message = ''Welcome to High-Performance IOCP Chat Server!''\<rparr>"
  have "ready w1" "sent w1 u = sent w u" for u
    using assms(1) ready_cong [of w1 w] by (simp_all add: w1_def SetPlayerInfo_def)
  moreover have "packet_size ?p \<le> 4096"
    using assms(2) by (simp add: packet_size_def enc_S_LOGIN_def length_enc_string)
  ultimately obtain sb w2 where m: "make_buffer t ?p w1 = Ok (Some sb, w2)"
    "tells w1 (\<lambda>u. if u = s then [?p] else []) (Send (Some sb) s w2)"
    using make_send [of w1 ?p t s] by blast
  define w' where "w' = Send (Some sb) s w2"
  note t = m(2) [folded w'_def]
  have "w_playerIdGenerator w' = w_playerIdGenerator w1"
    using t quiet_eqD(7) [of w' w1] by (simp add: tells_def)
  moreover have "(w_clients w' s)\<lparr>cs_sends := []\<rparr> = (w_clients w1 s)\<lparr>cs_sends := []\<rparr>"
    using t quiet_eqD(10) [of w' w1 s] by (simp add: tells_def)
  note c = this [THEN arg_cong]
  have "cs_playerId (w_clients w' s) = cs_playerId (w_clients w1 s)"
    "cs_playerName (w_clients w' s) = cs_playerName (w_clients w1 s)"
    "cs_authenticated (w_clients w' s) = cs_authenticated (w_clients w1 s)"
    using c [of cs_playerId] c [of cs_playerName] c [of cs_authenticated] by simp_all
  moreover have "Handle_C_LOGIN t (Some s) pkt w = Ok (True, w')"
    using m(1) by (simp add: Handle_C_LOGIN_def Let_def w1_def [symmetric] w'_def del: Send.simps)
  ultimately show ?thesis
    using tells_simps(1,2) [OF t] \<open>\<And>u. sent w1 u = sent w u\<close> by (simp add: w1_def SetPlayerInfo_def)
qed

lemma room_world_fields:
  "w_playerIdGenerator (room_world n ms) = 1000" "w_service (room_world n ms) = Some (Service_new 10000)"
  "w_roomTable (room_world n ms) = []" "w_nextRoom (room_world n ms) = 0"
  by (simp_all add: room_world_def world_start_def)

theorem login_assigns_id_witness:
  "\<exists>w'. Handle_C_LOGIN 0 (Some 5) \<lparr>C_LOGIN_name = ''eve''\<rparr> (room_world ''al'' []) = Ok (True, w') \<and>
     cs_playerId (w_clients w' 5) = 1000 \<and> w_playerIdGenerator w' = 1001 \<and> length (sent w' 5) = 1 \<and> sent w' 6 = []"
  using login_assigns_id [of "room_world ''al'' []" "\<lparr>C_LOGIN_name = ''eve''\<rparr>" 0 5]
  by (auto simp: room_world_fields)

end
