(* ===== verification/AbuseMonitor.thy ===== *)
theory AbuseMonitor
  imports Room
begin

text \<open>
  \<^verbatim>\<open>ChatServer/Service/AbuseMonitor.cpp\<close>: the log of forced disconnects and the check of the
  heartbeats. What the clock says is an argument: \<open>tick\<close> of \<open>GetTickCount64\<close>, \<open>timeStr\<close> of
  \<open>GetCurrentTimeString\<close>, a formatted local time. \<open>DumpLogsToFile\<close> is in \<open>Monitoring\<close>.
\<close>

definition AbuseMonitor_Init :: "world \<Rightarrow> world" where
  "AbuseMonitor_Init w = w\<lparr>w_abuseLogs := [], w_abuseCount := 0\<rparr>"

definition abuse_entry ::
    "uint64 \<Rightarrow> string \<Rightarrow> session_ref \<Rightarrow> string \<Rightarrow> string \<Rightarrow> uint16 \<Rightarrow> wstring \<Rightarrow> abuse_log_entry" where
  "abuse_entry tick timeStr sessionId playerName ipAddress port reason =
     \<lparr>al_sessionId = sessionId, al_playerName = (if playerName = [] then ''(Unauth)'' else playerName),
      al_ipAddress = (if ipAddress = [] then ''0.0.0.0'' else ipAddress), al_port = port,
      al_reason = reason, al_timestamp = tick, al_timeStr = timeStr\<rparr>"

definition ReportAbuse ::
    "uint64 \<Rightarrow> string \<Rightarrow> session_ref \<Rightarrow> string \<Rightarrow> string \<Rightarrow> uint16 \<Rightarrow> wstring \<Rightarrow> world \<Rightarrow> world" where
  "ReportAbuse tick timeStr sessionId playerName ipAddress port reason w =
     (let entry = abuse_entry tick timeStr sessionId playerName ipAddress port reason in
      w\<lparr>w_abuseCount := w_abuseCount w + 1, w_stats := OnAbuseDisconnection (w_stats w),
        w_abuseLogs := w_abuseLogs w @ [entry]\<rparr>)"

text \<open>One iteration of the loop: \<open>now\<close> was read before it, \<open>tick\<close> is read by \<open>ReportAbuse\<close>.\<close>

definition check_session :: "uint64 \<Rightarrow> uint64 \<Rightarrow> uint64 \<times> string \<Rightarrow> session_ref \<Rightarrow> world \<Rightarrow> world" where
  "check_session now timeoutMs = (\<lambda>(tick, timeStr) session w.
     let c = w_clients w session in
     if \<not> cs_connected c then w
     else let lastHeartbeat = cs_lastHeartbeatTick c in
       if lastHeartbeat = 0 then w
       else if now \<le> lastHeartbeat then w
       else if now - lastHeartbeat > timeoutMs then
         Disconnect (wide ''Heartbeat Timeout'') session
           (ReportAbuse tick timeStr session [] (narrow (cs_ipAddress c)) (cs_port c)
             (wide ''Heartbeat Timeout (Keep-alive Failed)'') w)
       else w)"

text \<open>\<open>clock s\<close> is the reading for the report on session \<open>s\<close>.\<close>

definition CheckHeartbeatTimeouts ::
    "uint64 \<Rightarrow> (session_ref \<Rightarrow> uint64 \<times> string) \<Rightarrow> session_ref service option \<Rightarrow> uint64 \<Rightarrow> world \<Rightarrow> world" where
  "CheckHeartbeatTimeouts now clock service timeoutMs w =
     (case service of None \<Rightarrow> w
      | Some sv \<Rightarrow> fold (\<lambda>s. check_session now timeoutMs (clock s) s) (GetSessionsSnapshot sv) w)"

definition GetLogs :: "world \<Rightarrow> abuse_log_entry list" where
  "GetLogs w = w_abuseLogs w"

definition GetRecentLogs :: "nat \<Rightarrow> world \<Rightarrow> abuse_log_entry list" where
  "GetRecentLogs maxCount w =
     (if w_abuseLogs w = [] then []
      else let count = min maxCount (length (w_abuseLogs w)) in
        drop (length (w_abuseLogs w) - count) (w_abuseLogs w))"

section \<open>Properties\<close>

lemma ReportAbuse_simps [simp]:
  "w_clients (ReportAbuse tick ts s n ip p reason w) = w_clients w"
  "w_rooms (ReportAbuse tick ts s n ip p reason w) = w_rooms w"
  "w_nextRoom (ReportAbuse tick ts s n ip p reason w) = w_nextRoom w"
  "w_roomTable (ReportAbuse tick ts s n ip p reason w) = w_roomTable w"
  "w_globalQueue (ReportAbuse tick ts s n ip p reason w) = w_globalQueue w"
  "w_service (ReportAbuse tick ts s n ip p reason w) = w_service w"
  "w_playerIdGenerator (ReportAbuse tick ts s n ip p reason w) = w_playerIdGenerator w"
  "w_abuseLogs (ReportAbuse tick ts s n ip p reason w) = w_abuseLogs w @ [abuse_entry tick ts s n ip p reason]"
  "w_abuseCount (ReportAbuse tick ts s n ip p reason w) = w_abuseCount w + 1"
  "w_sendBuffers (ReportAbuse tick ts s n ip p reason w) = w_sendBuffers w"
  by (simp_all add: ReportAbuse_def Let_def)

text \<open>The rule, in exact arithmetic.\<close>

definition timed_out :: "uint64 \<Rightarrow> uint64 \<Rightarrow> client_session \<Rightarrow> bool" where
  "timed_out now timeoutMs c \<longleftrightarrow> cs_connected c \<and> cs_lastHeartbeatTick c \<noteq> 0 \<and>
     unat now > unat (cs_lastHeartbeatTick c) + unat timeoutMs"

definition timeout_entry :: "(session_ref \<Rightarrow> uint64 \<times> string) \<Rightarrow> world \<Rightarrow> session_ref \<Rightarrow> abuse_log_entry" where
  "timeout_entry clock w s = abuse_entry (fst (clock s)) (snd (clock s)) s []
     (narrow (cs_ipAddress (w_clients w s))) (cs_port (w_clients w s))
     (wide ''Heartbeat Timeout (Keep-alive Failed)'')"

lemma check_session_eq:
  "check_session now timeoutMs (clock s) s w =
     (if timed_out now timeoutMs (w_clients w s)
      then Disconnect (wide ''Heartbeat Timeout'') s (ReportAbuse (fst (clock s)) (snd (clock s)) s []
        (narrow (cs_ipAddress (w_clients w s))) (cs_port (w_clients w s))
        (wide ''Heartbeat Timeout (Keep-alive Failed)'') w)
      else w)"
proof -
  have "now \<le> l \<or> \<not> now - l > timeoutMs \<longleftrightarrow> \<not> unat now > unat l + unat timeoutMs" for l
  proof (cases "now \<le> l")
    case False
    then have "unat (now - l) = unat now - unat l" by (simp add: unat_sub)
    with False show ?thesis by (auto simp: word_less_nat_alt word_le_nat_alt)
  qed (auto simp: word_le_nat_alt)
  then show ?thesis
    by (auto simp: check_session_def timed_out_def Let_def split_beta)
qed

text \<open>
  C29: The heartbeat check. It disconnects exactly the sessions of the service that are connected, have
  had a heartbeat and have been silent for more than the timeout, measured without wrap-around
  even when a heartbeat is later than \<open>now\<close>; each of them is reported once, in order; nothing else
  of any session changes.
\<close>

theorem heartbeat_timeouts:
  assumes "distinct (sv_sessions sv)"
  shows "let w' = CheckHeartbeatTimeouts now clock (Some sv) timeoutMs w;
      stale = filter (\<lambda>s. timed_out now timeoutMs (w_clients w s)) (sv_sessions sv) in
    w_abuseLogs w' = w_abuseLogs w @ map (timeout_entry clock w) stale \<and>
    w_abuseCount w' = w_abuseCount w + of_nat (length stale) \<and>
    (\<forall>s. w_clients w' s = (if s \<in> set stale
       then (w_clients w s)\<lparr>cs_connected := False,
         cs_disconnects := cs_disconnects (w_clients w s) @ [wide ''Heartbeat Timeout'']\<rparr>
       else w_clients w s))"
proof -
  let ?f = "\<lambda>s. check_session now timeoutMs (clock s) s"
  let ?stale = "filter (\<lambda>s. timed_out now timeoutMs (w_clients w s))"
  have "w_abuseLogs (fold ?f ss w) = w_abuseLogs w @ map (timeout_entry clock w) (?stale ss) \<and>
      w_abuseCount (fold ?f ss w) = w_abuseCount w + of_nat (length (?stale ss)) \<and>
      (\<forall>s. w_clients (fold ?f ss w) s = (if s \<in> set (?stale ss)
       then (w_clients w s)\<lparr>cs_connected := False,
         cs_disconnects := cs_disconnects (w_clients w s) @ [wide ''Heartbeat Timeout'']\<rparr>
       else w_clients w s))" if "distinct ss" for ss
    using that
  proof (induction ss rule: rev_induct)
    case (snoc s ss)
    then have "w_clients (fold ?f ss w) s = w_clients w s" by auto
    with snoc show ?case
      by (auto simp: check_session_eq Disconnect_def timed_out_def timeout_entry_def)
  qed simp
  from this [OF assms] show ?thesis by (simp add: CheckHeartbeatTimeouts_def GetSessionsSnapshot_def Let_def)
qed

text \<open>At tick 20000 with a timeout of 15000: session 1 is silent since 4000, session 2 since 5000.\<close>

theorem heartbeat_timeouts_witness:
  "let w = world_start (\<lambda>s. (ClientSession_new (if s = 1 then 4000 else 5000) [] 0)\<lparr>cs_connected := True\<rparr>);
      w' = CheckHeartbeatTimeouts 20000 (\<lambda>_. (20001, ''now'')) (Some \<lparr>sv_sessions = [1, 2],
        sv_sessionCount = 2, sv_maxSessionCount = 10000\<rparr>) 15000 w in
    map al_sessionId (w_abuseLogs w') = [1] \<and> \<not> cs_connected (w_clients w' 1) \<and> cs_connected (w_clients w' 2)"
  using heartbeat_timeouts [where sv = "\<lparr>sv_sessions = [1, 2], sv_sessionCount = 2, sv_maxSessionCount = 10000\<rparr>"
      and now = 20000 and clock = "\<lambda>_. (20001, ''now'')" and timeoutMs = 15000 and
      w = "world_start (\<lambda>s. (ClientSession_new (if s = 1 then 4000 else 5000) [] 0)\<lparr>cs_connected := True\<rparr>)"]
  by (simp add: Let_def timed_out_def world_start_def ClientSession_new_def timeout_entry_def abuse_entry_def)

end
