(* ===== verification/ClientSession.thy ===== *)
theory ClientSession
  imports PacketHandlerImpl AbuseMonitor "HOL-Library.Sublist"
begin

text \<open>
  \<^verbatim>\<open>ChatServer/Session/ClientSession.cpp\<close>: the hooks that the engine calls on a session of the server,
  and with them the whole way of a packet: the rate limit, the heartbeat, the dispatcher, the
  handlers. \<open>clock\<close> is the successive readings of \<open>GetTickCount64\<close> during the call, \<open>timeStr\<close> what
  \<open>GetCurrentTimeString\<close> returns.
\<close>

definition OnConnected :: "(nat \<Rightarrow> uint64) \<Rightarrow> session_ref \<Rightarrow> world \<Rightarrow> world" where
  "OnConnected clock s w =
     (let w = UpdateHeartbeat (clock 0) s w;
          w = upd_client s (\<lambda>c. c\<lparr>cs_rateLimiter := TokenBucket_Reset (clock 1) (cs_rateLimiter c)\<rparr>) w
      in w\<lparr>w_stats := OnSessionConnected (w_stats w)\<rparr>)"

text \<open>\<open>_rateLimiter.Consume(1)\<close>\<close>

definition rate_limit :: "uint64 \<Rightarrow> session_ref \<Rightarrow> world \<Rightarrow> bool \<times> world" where
  "rate_limit tick s w =
     (let (ok, tb) = Consume tick 1 (cs_rateLimiter (w_clients w s)) in
      (ok, upd_client s (\<lambda>c. c\<lparr>cs_rateLimiter := tb\<rparr>) w))"

definition report :: "uint64 \<Rightarrow> string \<Rightarrow> session_ref \<Rightarrow> string \<Rightarrow> world \<Rightarrow> world" where
  "report tick timeStr s reason w =
     ReportAbuse tick timeStr s (cs_playerName (w_clients w s)) (narrow (cs_ipAddress (w_clients w s)))
       (cs_port (w_clients w s)) (wide reason) w"

text \<open>
  \<open>OnRecvPacket\<close> with its call of \<open>ServerPacketHandler::HandlePacket\<close> as an argument: it gets the rest
  of the clock and works on the world together with whatever else (\<open>g\<close>) an observer keeps.
\<close>

definition OnRecvPacket_with ::
    "((nat \<Rightarrow> uint64) \<Rightarrow> byte list \<Rightarrow> int32 \<Rightarrow> world \<times> 'g \<Rightarrow> (bool \<times> world \<times> 'g) res) \<Rightarrow>
     (nat \<Rightarrow> uint64) \<Rightarrow> string \<Rightarrow> session_ref \<Rightarrow> byte list \<Rightarrow> int32 \<Rightarrow> world \<times> 'g \<Rightarrow> (world \<times> 'g) res" where
  "OnRecvPacket_with HandlePacket clock timeStr s buffer len = (\<lambda>(w, g).
     let w = w\<lparr>w_stats := OnPacketReceived len (w_stats w)\<rparr>;
         (ok, w) = rate_limit (clock 0) s w in
     if \<not> ok then
       let reported = cs_isAbuseReported (w_clients w s);
           w = upd_client s (\<lambda>c. c\<lparr>cs_isAbuseReported := True\<rparr>) w;
           w = (if \<not> reported then report (clock 1) timeStr s ''Packet Flooding Detected'' w else w)
       in Ok (Disconnect (wide ''Packet Flooding Detected'') s w, g)
     else
       let w = UpdateHeartbeat (clock 1) s w in
       res_bind (HandlePacket (\<lambda>n. clock (n + 2)) buffer len (w, g)) (\<lambda>(handled, w, g).
         if \<not> handled then
           Ok (Disconnect (wide ''Invalid Packet Format'') s
             (report (clock 2) timeStr s ''Invalid Packet Framing / Malformed Data'' w), g)
         else Ok (w, g)))"

text \<open>The dispatcher with the handlers of the server, and the same with a record of its calls.\<close>

definition server_dispatch ::
    "nat \<Rightarrow> session_ref \<Rightarrow> (nat \<Rightarrow> uint64) \<Rightarrow> byte list \<Rightarrow> int32 \<Rightarrow> world \<Rightarrow> (bool \<times> world) res" where
  "server_dispatch t s clock = ServerPacketHandler_HandlePacket (handle_packet t clock (Some s))"

definition plain_dispatch ::
    "nat \<Rightarrow> session_ref \<Rightarrow> (nat \<Rightarrow> uint64) \<Rightarrow> byte list \<Rightarrow> int32 \<Rightarrow> world \<times> unit \<Rightarrow> (bool \<times> world \<times> unit) res" where
  "plain_dispatch t s clock buffer len = (\<lambda>(w, g).
     res_bind (server_dispatch t s clock buffer len w) (\<lambda>(handled, w). Ok (handled, w, g)))"

definition logged_dispatch ::
    "nat \<Rightarrow> session_ref \<Rightarrow> (nat \<Rightarrow> uint64) \<Rightarrow> byte list \<Rightarrow> int32 \<Rightarrow> world \<times> byte list list \<Rightarrow>
     (bool \<times> world \<times> byte list list) res" where
  "logged_dispatch t s clock buffer len = (\<lambda>(w, calls).
     res_bind (server_dispatch t s clock buffer len w) (\<lambda>(handled, w). Ok (handled, w, calls @ [buffer])))"

definition OnRecvPacket ::
    "nat \<Rightarrow> (nat \<Rightarrow> uint64) \<Rightarrow> string \<Rightarrow> session_ref \<Rightarrow> byte list \<Rightarrow> int32 \<Rightarrow> world \<Rightarrow> world res" where
  "OnRecvPacket t clock timeStr s buffer len w =
     res_bind (OnRecvPacket_with (plain_dispatch t s) clock timeStr s buffer len (w, ())) (\<lambda>(w, _). Ok w)"

definition OnDisconnected :: "session_ref \<Rightarrow> world \<Rightarrow> world" where
  "OnDisconnected s w =
     (let w = w\<lparr>w_stats := OnSessionDisconnected (w_stats w)\<rparr> in
      case GetRoom s w of
        Some room \<Rightarrow> SetRoom None s (PushJob room (JobLeave (Some s)) w)
      | None \<Rightarrow> w)"

lemma OnRecvPacket_unfold:
  "OnRecvPacket t clock timeStr s buffer len w =
     (let w = w\<lparr>w_stats := OnPacketReceived len (w_stats w)\<rparr>;
          (ok, w) = rate_limit (clock 0) s w in
      if \<not> ok then
        let reported = cs_isAbuseReported (w_clients w s);
            w = upd_client s (\<lambda>c. c\<lparr>cs_isAbuseReported := True\<rparr>) w;
            w = (if \<not> reported then report (clock 1) timeStr s ''Packet Flooding Detected'' w else w)
        in Ok (Disconnect (wide ''Packet Flooding Detected'') s w)
      else
        let w = UpdateHeartbeat (clock 1) s w in
        res_bind (ServerPacketHandler_HandlePacket (handle_packet t (\<lambda>n. clock (n + 2)) (Some s)) buffer len w)
          (\<lambda>(handled, w).
            if \<not> handled then
              Ok (Disconnect (wide ''Invalid Packet Format'') s
                (report (clock 2) timeStr s ''Invalid Packet Framing / Malformed Data'' w))
            else Ok w))"
  by (simp add: OnRecvPacket_def OnRecvPacket_with_def plain_dispatch_def server_dispatch_def Let_def res_bind_def
      split: prod.split sum.split)

section \<open>What handlers leave alone\<close>

text \<open>
  Neither a handler nor a job touches what \<open>OnRecvPacket\<close> checks: the rate limiter, the report flag,
  the abuse log and the connection.
\<close>

definition guard_view :: "world \<Rightarrow> session_ref \<Rightarrow> token_bucket \<times> bool \<times> bool \<times> wstring list" where
  "guard_view w s = (cs_rateLimiter (w_clients w s), cs_isAbuseReported (w_clients w s),
     cs_connected (w_clients w s), cs_disconnects (w_clients w s))"

definition same_guard :: "world \<Rightarrow> world \<Rightarrow> bool" where
  "same_guard w w' \<longleftrightarrow> guard_view w' = guard_view w \<and> w_abuseLogs w' = w_abuseLogs w \<and>
     w_abuseCount w' = w_abuseCount w"

lemma same_guard_refl [simp]: "same_guard w w"
  by (simp add: same_guard_def)

lemma same_guard_quiet: "quiet w2 = quiet w1 \<Longrightarrow> same_guard w w2 = same_guard w w1"
  using quiet_eqD(8,9) [of w2 w1] quiet_clients(3-6) [of w2 w1]
  by (simp add: same_guard_def guard_view_def fun_eq_iff)

lemma make_quiet: "make_buffer t p w = Ok (sb, w') \<Longrightarrow> quiet w' = quiet w"
  by (auto simp: make_buffer_def res_iff quiet_def)

lemma Send_quiet: "quiet (Send sb s w) = quiet w"
  using fold_Send_other(2) [of sb "[s]" w] by simp

lemma same_guard_make [simp]:
  "make_buffer t p w1 = Ok (sb, w2) \<Longrightarrow> same_guard w w2 = same_guard w w1"
  "same_guard w (Send sb s w1) = same_guard w w1"
  "same_guard w (fold (Send sb) ss w1) = same_guard w w1"
  by (rule same_guard_quiet; simp add: make_quiet Send_quiet fold_Send_other)+

lemma same_guard_upds [simp]:
  "same_guard w (PushJob r j w1) = same_guard w w1" "same_guard w (UpdateHeartbeat tick s w1) = same_guard w w1"
  "same_guard w (SetPlayerInfo i n s w1) = same_guard w w1" "same_guard w (SetRoom room s w1) = same_guard w w1"
  "same_guard w (w1\<lparr>w_playerIdGenerator := k\<rparr>) = same_guard w w1"
  "same_guard w (w1\<lparr>w_stats := st\<rparr>) = same_guard w w1"
  by (auto simp: same_guard_def guard_view_def UpdateHeartbeat_def SetPlayerInfo_def SetRoom_def fun_eq_iff)

lemma same_guard_create [simp]:
  assumes "GetOrCreateRoom roomId name w1 = (r, w2)"
  shows "same_guard w w2 = same_guard w w1"
proof -
  have "w_clients w2 = w_clients w1" "w_abuseLogs w2 = w_abuseLogs w1" "w_abuseCount w2 = w_abuseCount w1"
    using assms by (auto simp: GetOrCreateRoom_eq CreateRoom_def make_room_def table_set_def split: option.splits)
  then show ?thesis by (simp add: same_guard_def guard_view_def fun_eq_iff)
qed

lemma handle_packet_guard: "handle_packet t clock session p w = Ok (b, w') \<Longrightarrow> same_guard w w'"
proof (cases p)
  case (Pkt_C_ENTER_ROOM pkt)
  moreover obtain r w1 where "GetOrCreateRoom (C_ENTER_ROOM_roomId pkt) (if C_ENTER_ROOM_roomName pkt = []
      then ''Room_'' @ to_string (sint (C_ENTER_ROOM_roomId pkt)) else C_ENTER_ROOM_roomName pkt) w = (r, w1)"
    by fastforce
  moreover assume "handle_packet t clock session p w = Ok (b, w')"
  ultimately show ?thesis
    by (auto simp: Handle_C_ENTER_ROOM_def Let_def split: option.splits if_splits)
qed (auto simp: Handle_C_LOGIN_def Handle_C_HEARTBEAT_def Handle_C_ROOM_LIST_def Handle_C_LEAVE_ROOM_def
    Handle_C_ROOM_CHAT_def Handle_C_GLOBAL_CHAT_def Service_Broadcast_def Let_def res_iff split: option.splits)

section \<open>Flooding\<close>

abbreviation flood_reason :: wstring where
  "flood_reason \<equiv> wide ''Packet Flooding Detected''"

lemma reasons_differ: "wide ''Invalid Packet Framing / Malformed Data'' \<noteq> flood_reason"
  by (simp add: wide_def)

definition flood_reports :: "abuse_log_entry list \<Rightarrow> nat" where
  "flood_reports logs = length (filter (\<lambda>e. al_reason e = flood_reason) logs)"

lemma flood_reports_append [simp]: "flood_reports (xs @ ys) = flood_reports xs + flood_reports ys"
  by (simp add: flood_reports_def)

lemma guard_view_eqD:
  assumes "same_guard w w'"
  shows "cs_rateLimiter (w_clients w' s) = cs_rateLimiter (w_clients w s)"
    "cs_isAbuseReported (w_clients w' s) = cs_isAbuseReported (w_clients w s)"
    "cs_connected (w_clients w' s) = cs_connected (w_clients w s)" "w_abuseLogs w' = w_abuseLogs w"
  using assms by (auto simp: same_guard_def guard_view_def fun_eq_iff)

text \<open>One call, as far as the rate limiter and the reports go.\<close>

lemma OnRecvPacket_refused:
  assumes "Consume (clock 0) 1 (cs_rateLimiter (w_clients w s)) = (False, tb)"
  shows "\<exists>w'. OnRecvPacket t clock timeStr s b n w = Ok w' \<and> cs_rateLimiter (w_clients w' s) = tb \<and>
    cs_isAbuseReported (w_clients w' s) \<and> \<not> cs_connected (w_clients w' s) \<and>
    flood_reports (w_abuseLogs w') = flood_reports (w_abuseLogs w) + (if cs_isAbuseReported (w_clients w s) then 0 else 1)"
  using assms
  by (auto simp: OnRecvPacket_unfold rate_limit_def Let_def report_def Disconnect_def abuse_entry_def flood_reports_def)

lemma dispatch_not_Ok:
  "\<forall>p. f p s \<noteq> Ok (h, s') \<Longrightarrow> s' \<noteq> s \<Longrightarrow> dispatch rd f r s \<noteq> Ok (h, s')"
  by (auto simp: dispatch_def res_iff split: option.splits)

lemma if_not_eq: "x \<noteq> v \<Longrightarrow> y \<noteq> v \<Longrightarrow> ((if c then x else y) = v) = False"
  by simp

lemma ServerPacketHandler_Ok:
  assumes "ServerPacketHandler_HandlePacket handle b n s = Ok (h, s')"
  shows "s' = s \<or> (\<exists>p. handle p s = Ok (h, s'))"
proof (rule ccontr)
  assume "\<not> ?thesis"
  then have no: "\<forall>p. handle p s \<noteq> Ok (h, s')" "s' \<noteq> s" by auto
  from assms show False
    unfolding ServerPacketHandler_HandlePacket_def Let_def
    by (auto simp: res_iff dispatch_not_Ok no no(2) [symmetric] if_not_eq simp del: PacketId_value.simps split del: if_split split: option.splits)
qed

lemma ServerPacketHandler_guard:
  assumes "ServerPacketHandler_HandlePacket (handle_packet t clock session) b n w = Ok (h, w')"
  shows "same_guard w w'"
  using ServerPacketHandler_Ok [OF assms] handle_packet_guard by auto

text \<open>What the dispatcher starts from, and what follows it.\<close>

definition received :: "(nat \<Rightarrow> uint64) \<Rightarrow> session_ref \<Rightarrow> int32 \<Rightarrow> token_bucket \<Rightarrow> world \<Rightarrow> world" where
  "received clock s n tb w = UpdateHeartbeat (clock 1) s (upd_client s (\<lambda>c. c\<lparr>cs_rateLimiter := tb\<rparr>)
     (w\<lparr>w_stats := OnPacketReceived n (w_stats w)\<rparr>))"

definition after_handler :: "(nat \<Rightarrow> uint64) \<Rightarrow> string \<Rightarrow> session_ref \<Rightarrow> bool \<times> world \<Rightarrow> world res" where
  "after_handler clock timeStr s = (\<lambda>(handled, w).
     if \<not> handled then Ok (Disconnect (wide ''Invalid Packet Format'') s
       (report (clock 2) timeStr s ''Invalid Packet Framing / Malformed Data'' w))
     else Ok w)"

lemma OnRecvPacket_eq:
  assumes "Consume (clock 0) 1 (cs_rateLimiter (w_clients w s)) = (True, tb)"
  shows "OnRecvPacket t clock timeStr s b n w = res_bind (ServerPacketHandler_HandlePacket
     (handle_packet t (\<lambda>n. clock (n + 2)) (Some s)) b n (received clock s n tb w)) (after_handler clock timeStr s)"
  using assms by (simp add: OnRecvPacket_unfold rate_limit_def received_def after_handler_def Let_def)

lemma received_simps [simp]:
  "cs_rateLimiter (w_clients (received clock s n tb w) s) = tb"
  "cs_isAbuseReported (w_clients (received clock s n tb w) u) = cs_isAbuseReported (w_clients w u)"
  "cs_connected (w_clients (received clock s n tb w) u) = cs_connected (w_clients w u)"
  "w_abuseLogs (received clock s n tb w) = w_abuseLogs w" "w_rooms (received clock s n tb w) = w_rooms w"
  "w_service (received clock s n tb w) = w_service w"
  "GetPlayerName u (received clock s n tb w) = GetPlayerName u w"
  "ready (received clock s n tb w) = ready w" "sent (received clock s n tb w) u = sent w u"
  by (auto simp: received_def UpdateHeartbeat_def GetPlayerName_def intro!: ready_cong)

lemma OnRecvPacket_accepted:
  assumes "Consume (clock 0) 1 (cs_rateLimiter (w_clients w s)) = (True, tb)"
    "OnRecvPacket t clock timeStr s b n w = Ok w'"
  shows "cs_rateLimiter (w_clients w' s) = tb"
    "cs_isAbuseReported (w_clients w' s) = cs_isAbuseReported (w_clients w s)"
    "cs_connected (w_clients w' s) \<Longrightarrow> cs_connected (w_clients w s)"
    "flood_reports (w_abuseLogs w') = flood_reports (w_abuseLogs w)"
proof -
  obtain h w2 where h: "ServerPacketHandler_HandlePacket (handle_packet t (\<lambda>n. clock (n + 2)) (Some s)) b n
      (received clock s n tb w) = Ok (h, w2)" "after_handler clock timeStr s (h, w2) = Ok w'"
    using assms(2) unfolding OnRecvPacket_eq [where clock = clock, OF assms(1)] by (auto simp: res_iff)
  note g = guard_view_eqD [OF ServerPacketHandler_guard [OF h(1)]]
  show "cs_rateLimiter (w_clients w' s) = tb" "cs_isAbuseReported (w_clients w' s) = cs_isAbuseReported (w_clients w s)"
    "cs_connected (w_clients w' s) \<Longrightarrow> cs_connected (w_clients w s)"
    "flood_reports (w_abuseLogs w') = flood_reports (w_abuseLogs w)"
    using g h(2) reasons_differ
    by (auto simp: after_handler_def report_def Disconnect_def abuse_entry_def flood_reports_def split: if_splits)
qed

text \<open>The record of the calls has exactly the buffers that pass the rate limit.\<close>

lemma OnRecvPacket_logged:
  "OnRecvPacket_with (logged_dispatch t s) clock timeStr s b n (w, calls) =
     res_bind (OnRecvPacket t clock timeStr s b n w) (\<lambda>w'.
     Ok (w', calls @ (if fst (Consume (clock 0) 1 (cs_rateLimiter (w_clients w s))) then [b] else [])))"
  by (simp add: OnRecvPacket_def OnRecvPacket_with_def plain_dispatch_def logged_dispatch_def rate_limit_def
      Let_def res_bind_def split: prod.split sum.split)

text \<open>
  The packets of a session one after the other, each with the clock during its call, and the calls
  of the dispatcher that \<open>OnRecvPacket\<close> makes.
\<close>

fun recv_run ::
    "nat \<Rightarrow> session_ref \<Rightarrow> ((nat \<Rightarrow> uint64) \<times> string \<times> byte list) list \<Rightarrow> world \<times> byte list list \<Rightarrow>
     (world \<times> byte list list) res" where
  "recv_run t s [] x = Ok x"
| "recv_run t s ((clock, timeStr, b) # ps) x =
     res_bind (OnRecvPacket_with (logged_dispatch t s) clock timeStr s b (int (length b)) x) (recv_run t s ps)"

abbreviation accepted :: "((nat \<Rightarrow> uint64) \<times> string \<times> byte list) list \<Rightarrow> token_bucket \<Rightarrow> nat" where
  "accepted ps tb \<equiv> fst (consume_run (map (\<lambda>p. fst p 0) ps) tb)"

lemma recv_run_spec:
  assumes "recv_run t s ps (w, calls) = Ok (w', calls')"
  shows "\<exists>new. calls' = calls @ new \<and> length new = accepted ps (cs_rateLimiter (w_clients w s)) \<and>
    subseq new (map (snd \<circ> snd) ps) \<and>
    flood_reports (w_abuseLogs w') = flood_reports (w_abuseLogs w) +
      (if length new < length ps \<and> \<not> cs_isAbuseReported (w_clients w s) then 1 else 0) \<and> length new \<le> length ps \<and>
    (length new < length ps \<or> \<not> cs_connected (w_clients w s) \<longrightarrow> \<not> cs_connected (w_clients w' s))"
  using assms
proof (induction ps arbitrary: w calls)
  case (Cons p ps)
  obtain clock timeStr b where p: "p = (clock, timeStr, b)" by (cases p)
  obtain ok tb where c: "Consume (clock 0) 1 (cs_rateLimiter (w_clients w s)) = (ok, tb)" by fastforce
  obtain w1 where r: "OnRecvPacket t clock timeStr s b (int (length b)) w = Ok w1"
    "recv_run t s ps (w1, calls @ (if ok then [b] else [])) = Ok (w', calls')"
    using Cons.prems c by (auto simp: p res_iff OnRecvPacket_logged)
  obtain new where new: "calls' = calls @ (if ok then [b] else []) @ new"
    "length new = accepted ps (cs_rateLimiter (w_clients w1 s))" "subseq new (map (snd \<circ> snd) ps)"
    "flood_reports (w_abuseLogs w') = flood_reports (w_abuseLogs w1) +
      (if length new < length ps \<and> \<not> cs_isAbuseReported (w_clients w1 s) then 1 else 0)" "length new \<le> length ps"
    "length new < length ps \<or> \<not> cs_connected (w_clients w1 s) \<longrightarrow> \<not> cs_connected (w_clients w' s)"
    using Cons.IH [OF r(2)] unfolding append_assoc by (elim exE conjE) (rule that)
  have acc: "accepted (p # ps) (cs_rateLimiter (w_clients w s)) = (if ok then Suc (accepted ps tb) else accepted ps tb)"
    using c by (simp add: p split_beta)
  show ?case
  proof (cases ok)
    case True
    with c have "Consume (clock 0) 1 (cs_rateLimiter (w_clients w s)) = (True, tb)" by simp
    note a = OnRecvPacket_accepted [where clock = clock, OF this r(1)]
    show ?thesis
    proof (intro exI [of _ "b # new"] conjI)
      show "length (b # new) = accepted (p # ps) (cs_rateLimiter (w_clients w s))"
        using True new(2) a(1) unfolding acc by simp
      show "subseq (b # new) (map (snd \<circ> snd) (p # ps))" using new(3) by (simp add: p)
    qed (use True new a in \<open>auto simp: p\<close>)
  next
    case False
    with c have "Consume (clock 0) 1 (cs_rateLimiter (w_clients w s)) = (False, tb)" by simp
    note a = OnRecvPacket_refused [where clock = clock and t = t and timeStr = timeStr and b = b and
        n = "int (length b)", OF this]
    then have a: "cs_rateLimiter (w_clients w1 s) = tb" "cs_isAbuseReported (w_clients w1 s)"
      "\<not> cs_connected (w_clients w1 s)" "flood_reports (w_abuseLogs w1) = flood_reports (w_abuseLogs w) +
        (if cs_isAbuseReported (w_clients w s) then 0 else 1)"
      using r(1) by auto
    show ?thesis
    proof (intro exI [of _ new] conjI)
      show "length new = accepted (p # ps) (cs_rateLimiter (w_clients w s))"
        using False new(2) a(1) unfolding acc by simp
      show "subseq new (map (snd \<circ> snd) (p # ps))" using new(3) by (auto simp: p)
    qed (use False new a in \<open>auto simp: p\<close>)
  qed
qed simp

text \<open>The bound of the token bucket, for the calls of the dispatcher.\<close>

lemma flood_limit:
  assumes "recv_run t s ps (w, []) = Ok (w', calls)" "cs_rateLimiter (w_clients w s) = TokenBucket_new 40 20 start"
    "\<not> cs_isAbuseReported (w_clients w s)" "\<forall>(clock, _) \<in> set ps. clock 0 \<le> T" "start \<le> T"
    "unat (T - start) < 100000000000"
  shows "length calls \<le> 40 + unat (T - start) * 20 div 1000 \<and> subseq calls (map (snd \<circ> snd) ps) \<and>
    flood_reports (w_abuseLogs w') = flood_reports (w_abuseLogs w) + (if length calls < length ps then 1 else 0) \<and>
    (length calls < length ps \<longrightarrow> \<not> cs_connected (w_clients w' s))"
proof -
  let ?tb = "TokenBucket_new 40 20 start"
  have "tb_inv ?tb" "no_wrap 20 (unat (T - start))"
    using assms(6) by (simp_all add: tb_inv_def TokenBucket_new_def in_int32_def no_wrap_def)
  moreover have "\<forall>x \<in> set (map (\<lambda>p. fst p 0) ps). x \<le> T" using assms(4) by auto
  ultimately have "accepted ps ?tb \<le> 40 + unat (T - start) * 20 div 1000"
    using consume_run_bound [of ?tb _ T] assms(5) by (simp add: TokenBucket_new_def earned_def)
  then show ?thesis
    using recv_run_spec [OF assms(1)] assms(2,3) by (auto split: if_splits)
qed

text \<open>
  C16: Flooding. Of the packets a session sends until tick \<open>T\<close>, whatever their bytes and times, at most
  40 plus 20 per second since the last reset are given to the dispatcher: \<open>calls\<close> is the record of
  the calls of \<open>HandlePacket\<close> that \<open>OnRecvPacket\<close> makes, and it is a selection of the packets in their
  order. As soon as one is refused the session is disconnected, and over its whole life it is
  reported for flooding exactly once, however many more are refused.
\<close>

theorem flood_guard:
  assumes "recv_run t s ps (w, []) = Ok (w', calls)" "cs_rateLimiter (w_clients w s) = TokenBucket_new 40 20 start"
    "\<not> cs_isAbuseReported (w_clients w s)" "\<forall>(clock, _) \<in> set ps. clock 0 \<le> T" "start \<le> T"
    "unat (T - start) < 100000000000"
  shows "length calls \<le> 40 + unat (T - start) * 20 div 1000 \<and> subseq calls (map (snd \<circ> snd) ps) \<and>
    flood_reports (w_abuseLogs w') = flood_reports (w_abuseLogs w) + (if length calls < length ps then 1 else 0) \<and>
    (length calls < length ps \<longrightarrow> \<not> cs_connected (w_clients w' s))"
  by (rule flood_limit [OF assms])

section \<open>From bytes to bytes\<close>

lemma OnRecvPacket_dispatch:
  assumes "Consume (clock 0) 1 (cs_rateLimiter (w_clients w s)) = (True, tb)" "dom_packet p" "to_server p"
    "packet_size p \<le> 65535"
  shows "OnRecvPacket t clock timeStr s (packet_bytes p) (int (packet_size p)) w =
    res_bind (handle_packet t (\<lambda>n. clock (n + 2)) (Some s) p (received clock s (int (packet_size p)) tb w))
      (after_handler clock timeStr s)"
proof -
  have "take (packet_size p) (packet_bytes p) = packet_bytes p" by simp
  note d = server_dispatch_read [OF this assms(4,2,3)]
  show ?thesis unfolding OnRecvPacket_eq [where clock = clock, OF assms(1)] d ..
qed

text \<open>
  A global chat message, from bytes to bytes. The bytes of a \<open>C_GLOBAL_CHAT\<close> that the rate limiter
  lets through reach every session of the service exactly once, the sender included, as the bytes of
  the \<open>S_GLOBAL_CHAT\<close> with the sender's name and the same message, whatever rooms they are in, and
  nobody else is sent anything.
\<close>

theorem global_chat_end_to_end:
  assumes "ready w" "w_service w = Some sv" "distinct (sv_sessions sv)"
    "fst (Consume (clock 0) 1 (cs_rateLimiter (w_clients w s)))" "length (GetPlayerName s w) + length m \<le> 4088"
  shows "let b = packet_bytes (Pkt_C_GLOBAL_CHAT \<lparr>C_GLOBAL_CHAT_message = m\<rparr>) in
    \<exists>w'. OnRecvPacket t clock timeStr s b (int (length b)) w = Ok w' \<and> ready w' \<and>
      (\<forall>u. sent w' u = sent w u @ (if u \<in> set (sv_sessions sv) then [packet_bytes (global_chat_packet s m w)] else []))"
proof -
  let ?p = "Pkt_C_GLOBAL_CHAT \<lparr>C_GLOBAL_CHAT_message = m\<rparr>"
  obtain tb where c: "Consume (clock 0) 1 (cs_rateLimiter (w_clients w s)) = (True, tb)"
    using assms(4) by (metis fst_conv surj_pair)
  let ?w1 = "received clock s (int (packet_size ?p)) tb w"
  have g: "global_chat_packet s m ?w1 = global_chat_packet s m w" by (simp add: global_chat_packet_def)
  have "packet_size (global_chat_packet s m ?w1) \<le> 4096"
    using assms(5) unfolding g
    by (simp add: global_chat_packet_def packet_size_def enc_S_GLOBAL_CHAT_def length_enc_string)
  then obtain w' where w': "Handle_C_GLOBAL_CHAT t (Some s) \<lparr>C_GLOBAL_CHAT_message = m\<rparr> ?w1 = Ok (True, w')"
    "tells ?w1 (\<lambda>u. if u \<in> set (sv_sessions sv) then [global_chat_packet s m w] else []) w'"
    using Handle_C_GLOBAL_CHAT_tells [of ?w1 sv s "\<lparr>C_GLOBAL_CHAT_message = m\<rparr>" t] assms(1-3) g
    by (auto cong: if_cong)
  have "dom_packet ?p" "packet_size ?p \<le> 65535"
    using assms(5) by (simp_all add: dom_C_GLOBAL_CHAT_def packet_size_def enc_C_GLOBAL_CHAT_def length_enc_string)
  then have "OnRecvPacket t clock timeStr s (packet_bytes ?p) (int (packet_size ?p)) w = Ok w'"
    using OnRecvPacket_dispatch [where clock = clock, OF c, of ?p] w'(1) by (simp add: after_handler_def)
  then show ?thesis
    using tells_simps(1,2) [OF w'(2)] by (auto simp: Let_def)
qed

definition served_world :: world where
  "served_world = room_world ''al'' []\<lparr>w_service := Some \<lparr>sv_sessions = [1, 2], sv_sessionCount = 2,
     sv_maxSessionCount = 10000\<rparr>\<rparr>"

lemma served_world_simps [simp]:
  "ready served_world" "sent served_world u = []" "GetPlayerName u served_world = (if u = 2 then ''bob'' else ''al'')"
  "w_service served_world = Some \<lparr>sv_sessions = [1, 2], sv_sessionCount = 2, sv_maxSessionCount = 10000\<rparr>"
  "cs_rateLimiter (w_clients served_world u) = TokenBucket_new 40 20 0"
  "\<not> cs_isAbuseReported (w_clients served_world u)" "w_abuseLogs served_world = []"
  using ready_cong [of served_world "room_world ''al'' []"]
  by (simp_all add: served_world_def GetPlayerName_def) (simp_all add: room_world_def world_start_def ClientSession_new_def)

theorem global_chat_end_to_end_witness:
  "\<exists>w'. OnRecvPacket 0 (\<lambda>_. 1000) ''now'' 2 (packet_bytes (Pkt_C_GLOBAL_CHAT \<lparr>C_GLOBAL_CHAT_message = ''hi''\<rparr>))
      (int (length (packet_bytes (Pkt_C_GLOBAL_CHAT \<lparr>C_GLOBAL_CHAT_message = ''hi''\<rparr>)))) served_world = Ok w' \<and>
    sent w' 1 = [packet_bytes (Pkt_S_GLOBAL_CHAT \<lparr>S_GLOBAL_CHAT_senderName = ''bob'', S_GLOBAL_CHAT_message = ''hi''\<rparr>)] \<and>
    sent w' 3 = []"
proof -
  have "fst (Consume 1000 1 (TokenBucket_new 40 20 0))"
    by (simp add: Consume_def Refill_def TokenBucket_new_def add_tokens_def to_int32_def Let_def)
  then show ?thesis
    using global_chat_end_to_end [of served_world _ "\<lambda>_. 1000" 2 "''hi''" 0 "''now''"]
    by (auto simp: Let_def global_chat_packet_def)
qed

text \<open>A hundred empty packets at tick 1000 of a session reset at tick 0.\<close>

lemma recv_run_empty_packets: "\<exists>w' calls'. recv_run t s (replicate n (clock, timeStr, [])) (w, calls) = Ok (w', calls')"
proof (induction n arbitrary: w calls)
  case (Suc n)
  obtain r where "Read_PacketHeader (BufferReader_new [] 0) = Ok (None, r)"
    by (simp add: Read_PacketHeader_def rd_bind_def Read_bytes_def Peek_bytes_def BufferReader_new_def br_FreeSize_def
        to_size_t_def)
  then have "\<exists>w1. OnRecvPacket t clock timeStr s [] 0 w = Ok w1"
    by (cases "Consume (clock 0) 1 (cs_rateLimiter (w_clients w s))")
      (simp add: OnRecvPacket_unfold rate_limit_def Let_def ServerPacketHandler_HandlePacket_def)
  then obtain w1 where "OnRecvPacket t clock timeStr s [] 0 w = Ok w1" ..
  with Suc [of w1] show ?case by (simp add: OnRecvPacket_logged)
qed simp

theorem flood_guard_witness:
  "\<exists>w' calls. recv_run 0 1 (replicate 100 (\<lambda>_. 1000, ''now'', [])) (served_world, []) = Ok (w', calls) \<and>
     length calls \<le> 60 \<and> flood_reports (w_abuseLogs w') = 1 \<and> \<not> cs_connected (w_clients w' 1)"
proof -
  obtain w' calls where r: "recv_run 0 1 (replicate 100 (\<lambda>_. 1000, ''now'', [])) (served_world, []) = Ok (w', calls)"
    using recv_run_empty_packets by blast
  then have "length calls \<le> 60 \<and>
      flood_reports (w_abuseLogs w') = (if length calls < 100 then 1 else 0) \<and>
      (length calls < 100 \<longrightarrow> \<not> cs_connected (w_clients w' 1))"
    using flood_guard [OF r, of 0 1000] by (simp add: flood_reports_def)
  with r show ?thesis by auto
qed

end
