(* ===== verification/Membership.thy ===== *)
theory Membership
  imports Room
begin

text \<open>
  The rooms of the chat server as a state machine of their own: who is a member of which room, which
  room every session believes to be in (\<open>_room\<close>), and the jobs each room has still to run. This is the
  abstract specification that the theory \<open>ChatServer\<close> shows the program to implement.

  The requests of clients and the end of a connection push jobs; a room runs its jobs in order. The
  parameter \<open>may\<close> says when a session may ask to move (\<open>Asks\<close>) and when its connection may end
  (\<open>Ends\<close>): \<open>anytime\<close> is the program as it is; \<open>when_idle\<close> are clients that wait until their last move
  is done before they ask for another, while their connections end at any time; \<open>others s\<close> are runs in
  which \<open>s\<close> itself neither asks nor ends.
\<close>

section \<open>The machine\<close>

datatype client_act = Asks | Ends

record membership =
  mb_members :: "room_ref \<Rightarrow> session_ref set"
  mb_room :: "session_ref \<Rightarrow> room_ref option"
  mb_pending :: "room_ref \<Rightarrow> room_job list"

definition push :: "room_ref \<Rightarrow> room_job \<Rightarrow> membership \<Rightarrow> membership" where
  "push r j m = m\<lparr>mb_pending := (mb_pending m)(r := mb_pending m r @ [j])\<rparr>"

definition popped :: "room_ref \<Rightarrow> room_job list \<Rightarrow> membership \<Rightarrow> membership" where
  "popped r js m = m\<lparr>mb_pending := (mb_pending m)(r := js)\<rparr>"

definition entered :: "room_ref \<Rightarrow> session_ref \<Rightarrow> membership \<Rightarrow> membership" where
  "entered r s m = m\<lparr>mb_members := (mb_members m)(r := insert s (mb_members m r)),
     mb_room := (mb_room m)(s := Some r)\<rparr>"

definition left :: "room_ref \<Rightarrow> session_ref \<Rightarrow> membership \<Rightarrow> membership" where
  "left r s m = m\<lparr>mb_members := (mb_members m)(r := mb_members m r - {s}),
     mb_room := (if mb_room m s = Some r then (mb_room m)(s := None) else mb_room m)\<rparr>"

definition moved :: "room_ref \<Rightarrow> session_ref \<Rightarrow> room_ref option \<Rightarrow> membership \<Rightarrow> membership" where
  "moved r s target m = (case target of None \<Rightarrow> left r s m | Some q \<Rightarrow> push q (JobEnter (Some s)) (left r s m))"

fun job_session :: "room_job \<Rightarrow> session_ref option" where
  "job_session (JobEnter s) = s"
| "job_session (JobLeave s) = s"
| "job_session (JobHandleChat s _) = s"
| "job_session (JobLeaveAndEnter s _) = s"

inductive member_step :: "(client_act \<Rightarrow> session_ref \<Rightarrow> membership \<Rightarrow> bool) \<Rightarrow> membership \<Rightarrow> membership \<Rightarrow> bool" for may where
  ask_enter: "may Asks s m \<Longrightarrow> mb_room m s = None \<Longrightarrow> member_step may m (push r (JobEnter (Some s)) m)"
| ask_move: "may Asks s m \<Longrightarrow> mb_room m s = Some r \<Longrightarrow> q \<noteq> r \<Longrightarrow>
    member_step may m (push r (JobLeaveAndEnter (Some s) (Some q)) m)"
| ask_leave: "may Asks s m \<Longrightarrow> mb_room m s = Some r \<Longrightarrow> member_step may m (push r (JobLeave (Some s)) m)"
| ask_chat: "mb_room m s = Some r \<Longrightarrow> member_step may m (push r (JobHandleChat (Some s) text) m)"
| gone: "may Ends s m \<Longrightarrow> mb_room m s = Some r \<Longrightarrow>
    member_step may m ((push r (JobLeave (Some s)) m)\<lparr>mb_room := (mb_room m)(s := None)\<rparr>)"
| enter: "mb_pending m r = JobEnter (Some s) # js \<Longrightarrow> member_step may m (entered r s (popped r js m))"
| leave: "mb_pending m r = JobLeave (Some s) # js \<Longrightarrow> member_step may m (left r s (popped r js m))"
| move: "mb_pending m r = JobLeaveAndEnter (Some s) target # js \<Longrightarrow>
    member_step may m (moved r s target (popped r js m))"
| chat: "mb_pending m r = JobHandleChat s text # js \<Longrightarrow> member_step may m (popped r js m)"
| skip: "mb_pending m r = j # js \<Longrightarrow> job_session j = None \<Longrightarrow> member_step may m (popped r js m)"

inductive_cases member_stepE: "member_step may m m'"

definition mb_start :: membership where
  "mb_start = \<lparr>mb_members = \<lambda>_. {}, mb_room = \<lambda>_. None, mb_pending = \<lambda>_. []\<rparr>"

abbreviation mb_reach :: "(client_act \<Rightarrow> session_ref \<Rightarrow> membership \<Rightarrow> bool) \<Rightarrow> membership \<Rightarrow> bool" where
  "mb_reach may m \<equiv> (member_step may)\<^sup>*\<^sup>* mb_start m"

lemmas mb_defs = push_def popped_def entered_def left_def moved_def

text \<open>The moves of a session that are still to be made, room by room.\<close>

definition moves :: "session_ref \<Rightarrow> membership \<Rightarrow> room_ref \<Rightarrow> room_job list" where
  "moves s m r = filter (job_moves s) (mb_pending m r)"

definition idle :: "session_ref \<Rightarrow> membership \<Rightarrow> bool" where
  "idle s m \<longleftrightarrow> (\<forall>r. moves s m r = [])"

definition anytime :: "client_act \<Rightarrow> session_ref \<Rightarrow> membership \<Rightarrow> bool" where
  "anytime a s m \<longleftrightarrow> True"

definition when_idle :: "client_act \<Rightarrow> session_ref \<Rightarrow> membership \<Rightarrow> bool" where
  "when_idle a s m \<longleftrightarrow> (a = Asks \<longrightarrow> idle s m)"

definition others :: "session_ref \<Rightarrow> client_act \<Rightarrow> session_ref \<Rightarrow> membership \<Rightarrow> bool" where
  "others s a u m \<longleftrightarrow> u \<noteq> s"

section \<open>A session's room has it\<close>

definition room_has_session :: "membership \<Rightarrow> bool" where
  "room_has_session m \<longleftrightarrow> (\<forall>s r. mb_room m s = Some r \<longrightarrow> s \<in> mb_members m r)"

lemma room_has_session_step:
  "member_step may m m' \<Longrightarrow> room_has_session m \<Longrightarrow> room_has_session m'"
  by (induction rule: member_step.induct)
    (auto simp: room_has_session_def mb_defs split: option.splits if_splits)

lemma room_has_session_reach: "mb_reach may m \<Longrightarrow> room_has_session m"
  by (induction rule: rtranclp_induct)
    (auto simp: room_has_session_step, simp add: room_has_session_def mb_start_def)

section \<open>Clients that wait are in one room\<close>

text \<open>A carrier is a job that makes its session a member of a room, or will push one that does.\<close>

fun carries :: "session_ref \<Rightarrow> room_job \<Rightarrow> bool" where
  "carries s (JobEnter u) \<longleftrightarrow> u = Some s"
| "carries s (JobLeaveAndEnter u _) \<longleftrightarrow> u = Some s"
| "carries s _ \<longleftrightarrow> False"

definition carriers :: "session_ref \<Rightarrow> membership \<Rightarrow> room_ref \<Rightarrow> room_job list" where
  "carriers s m r = filter (carries s) (mb_pending m r)"

definition leaves :: "session_ref \<Rightarrow> membership \<Rightarrow> room_ref \<Rightarrow> bool" where
  "leaves s m r \<longleftrightarrow> JobLeave (Some s) \<in> set (mb_pending m r)"

definition one_move :: "room_ref \<Rightarrow> room_job \<Rightarrow> room_ref \<Rightarrow> room_job list" where
  "one_move r j = (\<lambda>q. if q = r then [j] else [])"

definition in_room :: "room_ref option \<Rightarrow> room_ref \<Rightarrow> bool" where
  "in_room x r \<longleftrightarrow> x = Some r"

text \<open>
  All that concerns one session: its carriers, its leaves, its room and where it is a member. At most
  one carrier is pending; without one, the session is a member of its room only, or has none and is
  about to leave the only room it is a member of.
\<close>

type_synonym session_view =
  "(room_ref \<Rightarrow> room_job list) \<times> (room_ref \<Rightarrow> bool) \<times> room_ref option \<times> (room_ref \<Rightarrow> bool)"

definition view :: "session_ref \<Rightarrow> membership \<Rightarrow> session_view" where
  "view s m = (carriers s m, leaves s m, mb_room m s, \<lambda>r. s \<in> mb_members m r)"

fun client_ok :: "session_ref \<Rightarrow> session_view \<Rightarrow> bool" where
  "client_ok s (cr, lv, room, isin) \<longleftrightarrow>
     cr = (\<lambda>_. []) \<and> (isin = in_room room \<or> room = None \<and> (\<exists>r. isin = in_room (Some r) \<and> lv r)) \<or>
     (\<exists>r. cr = one_move r (JobEnter (Some s))) \<and> room = None \<and> isin = in_room None \<or>
     (\<exists>r t. cr = one_move r (JobLeaveAndEnter (Some s) t) \<and>
        (isin = in_room (Some r) \<and> (room = Some r \<or> room = None) \<or> isin = in_room None \<and> room = None))"

lemma carriers_simps:
  "carriers s (push r j m) = (if carries s j then (carriers s m)(r := carriers s m r @ [j]) else carriers s m)"
  "carriers s (popped r js m) = (carriers s m)(r := filter (carries s) js)"
  "carriers s (entered r u m) = carriers s m" "carriers s (left r u m) = carriers s m"
  "carriers s (m\<lparr>mb_room := f\<rparr>) = carriers s m"
  by (auto simp: carriers_def mb_defs fun_eq_iff)

lemma leaves_simps:
  "leaves s (push r j m) q \<longleftrightarrow> leaves s m q \<or> q = r \<and> j = JobLeave (Some s)"
  "leaves s (popped r js m) q \<longleftrightarrow> (if q = r then JobLeave (Some s) \<in> set js else leaves s m q)"
  "leaves s (entered r u m) q \<longleftrightarrow> leaves s m q" "leaves s (left r u m) q \<longleftrightarrow> leaves s m q"
  "leaves s (m\<lparr>mb_room := f\<rparr>) q \<longleftrightarrow> leaves s m q"
  by (auto simp: leaves_def mb_defs)

lemma moves_simps:
  "moves s (push r j m) = (if job_moves s j then (moves s m)(r := moves s m r @ [j]) else moves s m)"
  "moves s (popped r js m) = (moves s m)(r := filter (job_moves s) js)"
  "moves s (entered r u m) = moves s m" "moves s (left r u m) = moves s m"
  "moves s (m\<lparr>mb_room := f\<rparr>) = moves s m"
  by (auto simp: moves_def mb_defs fun_eq_iff)

lemma job_moves_iff: "job_moves s j \<longleftrightarrow> carries s j \<or> j = JobLeave (Some s)"
  by (cases j) auto

lemma job_moves_session: "job_moves s j \<Longrightarrow> job_session j = Some s"
  by (cases j) auto

lemma carries_cases: "carries s j \<longleftrightarrow> j = JobEnter (Some s) \<or> (\<exists>t. j = JobLeaveAndEnter (Some s) t)"
  by (cases j) auto

lemma idle_view: "idle s m \<Longrightarrow> carriers s m = (\<lambda>_. []) \<and> \<not> leaves s m r"
  by (force simp: idle_def moves_def carriers_def leaves_def filter_empty_conv job_moves_iff fun_eq_iff)

lemma one_move_not_idle: "one_move r j \<noteq> (\<lambda>_. [])" "(\<lambda>_. []) \<noteq> one_move r j"
  using fun_cong [of "one_move r j" "\<lambda>_. []" r] fun_cong [of "\<lambda>_. []" "one_move r j" r]
  by (auto simp: one_move_def)

lemma one_move_inj: "one_move r j = one_move r' j' \<longleftrightarrow> r = r' \<and> j = j'"
proof
  assume "one_move r j = one_move r' j'"
  then have "one_move r j r = one_move r' j' r" by simp
  then show "r = r' \<and> j = j'" by (simp add: one_move_def split: if_splits)
qed simp

lemma in_room_inj: "in_room x = in_room y \<longleftrightarrow> x = y"
proof
  assume "in_room x = in_room y"
  then have "x = Some r \<longleftrightarrow> y = Some r" for r by (metis in_room_def)
  then show "x = y" by (metis not_None_eq)
qed simp

lemma client_ok_none: "client_ok s (\<lambda>_. [], lv, room, isin) \<longleftrightarrow>
    isin = in_room room \<or> room = None \<and> (\<exists>r. isin = in_room (Some r) \<and> lv r)"
  by (simp add: one_move_not_idle)

lemma client_ok_one: "client_ok s (one_move r j, lv, room, isin) \<longleftrightarrow>
    j = JobEnter (Some s) \<and> room = None \<and> isin = in_room None \<or>
    (\<exists>t. j = JobLeaveAndEnter (Some s) t) \<and>
      (isin = in_room (Some r) \<and> (room = Some r \<or> room = None) \<or> isin = in_room None \<and> room = None)"
  by (auto simp: one_move_not_idle one_move_inj)

lemma client_ok_one_room: "client_ok s (cr, lv, room, isin) \<Longrightarrow> \<exists>x. isin = in_room x"
  by auto

text \<open>A step that is no move of the session changes nothing of its view.\<close>

lemma view_other:
  assumes "\<not> job_moves s j"
  shows "view s (push r j m) = view s m" "mb_pending m r = j # js \<Longrightarrow> view s (popped r js m) = view s m"
proof -
  have j: "\<not> carries s j" "j \<noteq> JobLeave (Some s)" using assms by (auto simp: job_moves_iff)
  then show "view s (push r j m) = view s m"
    by (auto simp: view_def carriers_simps leaves_simps fun_eq_iff) (auto simp: push_def)
  assume "mb_pending m r = j # js"
  with j show "view s (popped r js m) = view s m"
    by (auto simp: view_def carriers_def leaves_def popped_def fun_eq_iff)
qed

lemma view_entered_left_other:
  assumes "u \<noteq> s"
  shows "view s (entered r u m) = view s m" "view s (left r u m) = view s m"
  using assms by (auto simp: view_def carriers_simps leaves_simps fun_eq_iff) (auto simp: entered_def left_def split: if_splits)

lemma client_ok_idle:
  assumes "client_ok s (view s m)" "idle s m"
  shows "(\<lambda>q. s \<in> mb_members m q) = in_room (mb_room m s)"
  using assms(1) idle_view [OF assms(2)] by (simp add: view_def client_ok_none del: client_ok.simps)

text \<open>A carrier at the head of a queue is the only one.\<close>

lemma carrier_head:
  assumes "client_ok s (view s m)" "mb_pending m r = j # js" "carries s j"
  shows "carriers s m = one_move r j" "carriers s (popped r js m) = (\<lambda>_. [])"
proof -
  have at: "carriers s m r = j # filter (carries s) js" using assms(2,3) by (simp add: carriers_def)
  then have "carriers s m \<noteq> (\<lambda>_. [])" by auto
  with assms(1) obtain r' j' where one: "carriers s m = one_move r' j'" by (auto simp: view_def)
  with at have eq: "r' = r" "j' = j" "filter (carries s) js = []" by (auto simp: one_move_def split: if_splits)
  with one show "carriers s m = one_move r j" by simp
  then show "carriers s (popped r js m) = (\<lambda>_. [])"
    using eq(3) by (auto simp: carriers_simps one_move_def)
qed

lemma isin_simps:
  "(\<lambda>q. s \<in> mb_members (entered r s m) q) = (\<lambda>q. q = r \<or> s \<in> mb_members m q)"
  "(\<lambda>q. s \<in> mb_members (left r s m) q) = (\<lambda>q. q \<noteq> r \<and> s \<in> mb_members m q)"
  "mb_members (push r j m) = mb_members m" "mb_members (popped r js m) = mb_members m"
  "mb_room (push r j m) = mb_room m" "mb_room (popped r js m) = mb_room m"
  "mb_room (entered r s m) s = Some r" "mb_room (left r s m) s = (if mb_room m s = Some r then None else mb_room m s)"
  by (auto simp: mb_defs fun_eq_iff)

lemma in_room_minus: "(\<lambda>q. q \<noteq> r \<and> in_room x q) = in_room (if x = Some r then None else x)"
  by (auto simp: in_room_def fun_eq_iff)

section \<open>The steps of a waiting client\<close>

lemma client_ok_push:
  assumes "client_ok s (view s m)" "idle s m"
  shows "mb_room m s = None \<Longrightarrow> client_ok s (view s (push r (JobEnter (Some s)) m))"
    "mb_room m s = Some r \<Longrightarrow> client_ok s (view s (push r (JobLeaveAndEnter (Some s) t) m))"
    "mb_room m s = Some r \<Longrightarrow> client_ok s (view s (push r (JobLeave (Some s)) m))"
proof -
  note i = client_ok_idle [OF assms] idle_view [OF assms(2)]
  have one: "carriers s (push r j m) = one_move r j" if "carries s j" for j
    using i(2) that by (auto simp: carriers_simps one_move_def)
  show "mb_room m s = None \<Longrightarrow> client_ok s (view s (push r (JobEnter (Some s)) m))"
    "mb_room m s = Some r \<Longrightarrow> client_ok s (view s (push r (JobLeaveAndEnter (Some s) t) m))"
    using i(1) by (simp_all add: view_def one client_ok_one isin_simps del: client_ok.simps)
  show "mb_room m s = Some r \<Longrightarrow> client_ok s (view s (push r (JobLeave (Some s)) m))"
    using i by (simp add: view_def carriers_simps client_ok_none isin_simps del: client_ok.simps)
qed

lemma client_ok_gone:
  assumes "client_ok s (view s m)" "mb_room m s = Some r"
  shows "client_ok s (view s ((push r (JobLeave (Some s)) m)\<lparr>mb_room := (mb_room m)(s := None)\<rparr>))"
proof -
  have "view s ((push r (JobLeave (Some s)) m)\<lparr>mb_room := (mb_room m)(s := None)\<rparr>) =
      (carriers s m, (\<lambda>q. leaves s m q \<or> q = r), None, \<lambda>q. s \<in> mb_members m q)"
    by (auto simp: view_def carriers_simps leaves_simps isin_simps fun_eq_iff)
  moreover have "client_ok s (carriers s m, leaves s m, Some r, \<lambda>q. s \<in> mb_members m q)"
    using assms by (simp add: view_def del: client_ok.simps)
  ultimately show ?thesis by auto
qed

lemma client_ok_enter:
  assumes "client_ok s (view s m)" "mb_pending m r = JobEnter (Some s) # js"
  shows "client_ok s (view s (entered r s (popped r js m)))"
proof -
  note c = carrier_head [OF assms]
  have "client_ok s (one_move r (JobEnter (Some s)), leaves s m, mb_room m s, \<lambda>q. s \<in> mb_members m q)"
    using assms(1) c(1) by (simp add: view_def del: client_ok.simps)
  then have "(\<lambda>q. s \<in> mb_members m q) = in_room None" unfolding client_ok_one by simp
  then have "(\<lambda>q. q = r \<or> s \<in> mb_members m q) = in_room (Some r)" by (auto simp: in_room_def fun_eq_iff)
  then show ?thesis
    using c(2) by (simp add: view_def carriers_simps(3) isin_simps client_ok_none del: client_ok.simps)
qed

lemma client_ok_leave:
  assumes "client_ok s (view s m)" "mb_pending m r = JobLeave (Some s) # js"
  shows "client_ok s (view s (left r s (popped r js m)))"
proof -
  let ?m = "left r s (popped r js m)"
  have c: "carriers s ?m = carriers s m" using assms(2) by (auto simp: carriers_def mb_defs fun_eq_iff)
  have l: "leaves s m q \<Longrightarrow> q = r \<or> leaves s ?m q" for q by (simp add: leaves_simps)
  have ok: "client_ok s (carriers s m, leaves s m, mb_room m s, \<lambda>q. s \<in> mb_members m q)"
    using assms(1) by (simp add: view_def del: client_ok.simps)
  then obtain x where x: "(\<lambda>q. s \<in> mb_members m q) = in_room x" using client_ok_one_room by blast
  then have "s \<in> mb_members m q \<longleftrightarrow> in_room x q" for q by metis
  then have v: "view s ?m = (carriers s m, leaves s ?m, if mb_room m s = Some r then None else mb_room m s,
      in_room (if x = Some r then None else x))"
    by (simp add: view_def c isin_simps in_room_minus)
  show ?thesis using ok l unfolding v x by (auto simp: in_room_inj)
qed

lemma client_ok_move:
  assumes "client_ok s (view s m)" "mb_pending m r = JobLeaveAndEnter (Some s) target # js"
  shows "client_ok s (view s (moved r s target (popped r js m)))"
proof -
  note c = carrier_head [OF assms]
  let ?m1 = "left r s (popped r js m)"
  have "client_ok s (one_move r (JobLeaveAndEnter (Some s) target), leaves s m, mb_room m s, \<lambda>q. s \<in> mb_members m q)"
    using assms(1) c(1) by (simp add: view_def del: client_ok.simps)
  then have 1: "(\<lambda>q. s \<in> mb_members ?m1 q) = in_room None" "mb_room ?m1 s = None"
    unfolding client_ok_one by (auto simp: isin_simps in_room_def fun_eq_iff)
  have 2: "carriers s ?m1 = (\<lambda>_. [])" using c(2) by (simp add: carriers_simps(4))
  show ?thesis
  proof (cases target)
    case None
    then show ?thesis using 1 2 by (simp add: moved_def view_def client_ok_none del: client_ok.simps)
  next
    case (Some q)
    have "carriers s (push q (JobEnter (Some s)) ?m1) = one_move q (JobEnter (Some s))"
      using 2 by (auto simp: carriers_simps(1) one_move_def)
    then show ?thesis
      using 1 Some by (simp add: moved_def view_def client_ok_one isin_simps(3,5) del: client_ok.simps)
  qed
qed

lemma client_ok_step:
  assumes "member_step when_idle m m'" "client_ok s (view s m)"
  shows "client_ok s (view s m')"
proof -
  have other: "view s (push r j m') = view s m'" if "job_session j \<noteq> Some s" for r j m'
    using that job_moves_session by (blast intro: view_other(1))
  have popped: "view s (popped r js m) = view s m" if "mb_pending m r = j # js" "job_session j \<noteq> Some s" for r j js
    using that job_moves_session view_other(2) by metis
  from assms(1) show ?thesis
  proof cases
    case (ask_enter u r)
    then show ?thesis
      using other client_ok_push(1) [OF assms(2)] assms(2) by (cases "u = s") (simp_all add: when_idle_def)
  next
    case (ask_move u r q)
    then show ?thesis
      using other client_ok_push(2) [OF assms(2)] assms(2) by (cases "u = s") (simp_all add: when_idle_def)
  next
    case (ask_leave u r)
    then show ?thesis
      using other client_ok_push(3) [OF assms(2)] assms(2) by (cases "u = s") (simp_all add: when_idle_def)
  next
    case (ask_chat u r msg)
    then show ?thesis using view_other(1) [of s "JobHandleChat (Some u) msg"] assms(2) by simp
  next
    case (gone u r)
    show ?thesis
    proof (cases "u = s")
      case True
      then show ?thesis using gone client_ok_gone [OF assms(2)] by simp
    next
      case False
      then have "view s m' = view s (push r (JobLeave (Some u)) m)"
        by (auto simp: gone(1) view_def carriers_simps leaves_simps isin_simps fun_eq_iff)
      then show ?thesis using other [of "JobLeave (Some u)"] False assms(2) by simp
    qed
  next
    case (enter r u js)
    then show ?thesis
      using client_ok_enter [OF assms(2)] view_entered_left_other(1) [of u s] popped [OF enter(2)] assms(2)
      by (cases "u = s") simp_all
  next
    case (leave r u js)
    then show ?thesis
      using client_ok_leave [OF assms(2)] view_entered_left_other(2) [of u s] popped [OF leave(2)] assms(2)
      by (cases "u = s") simp_all
  next
    case (move r u target js)
    show ?thesis
    proof (cases "u = s")
      case True
      then show ?thesis using move client_ok_move [OF assms(2)] by simp
    next
      case False
      then have "view s m' = view s m"
        using other [of "JobEnter (Some u)"] view_entered_left_other(2) [OF False] popped [OF move(2)] move(1)
        by (simp add: moved_def split: option.split)
      then show ?thesis using assms(2) by simp
    qed
  next
    case (chat r u msg js)
    then show ?thesis using assms(2) view_other(2) [of s "JobHandleChat u msg" m r js] by simp
  next
    case (skip r j js)
    then show ?thesis using assms(2) popped [OF skip(2)] by simp
  qed
qed

lemma client_ok_reach: "mb_reach when_idle m \<Longrightarrow> client_ok s (view s m)"
proof (induction rule: rtranclp_induct)
  case base
  show ?case by (auto simp: view_def carriers_def leaves_def mb_start_def in_room_def)
next
  case (step m m')
  then show ?case using client_ok_step by blast
qed

section \<open>A session that waits for its rooms\<close>

text \<open>
  The session asked to enter the rooms of \<open>R\<close> and does nothing more: in each of them its \<open>Enter\<close> is its
  only move, or it has been run and the session is a member; its room is the last of those run.
\<close>

definition entering :: "session_ref \<Rightarrow> room_ref set \<Rightarrow> membership \<Rightarrow> bool" where
  "entering s R m \<longleftrightarrow>
     (\<forall>r. if r \<in> R then moves s m r = [JobEnter (Some s)] \<or> moves s m r = [] \<and> s \<in> mb_members m r else moves s m r = []) \<and>
     (case mb_room m s of None \<Rightarrow> \<forall>r \<in> R. moves s m r = [JobEnter (Some s)] | Some r \<Rightarrow> r \<in> R \<and> moves s m r = [])"

lemma moves_popped_other:
  assumes "mb_pending m r = j # js" "\<not> job_moves s j"
  shows "moves s (popped r js m) = moves s m"
  using assms by (auto simp: moves_def popped_def fun_eq_iff)

lemma entering_cong:
  "moves s m' = moves s m \<Longrightarrow> mb_room m' s = mb_room m s \<Longrightarrow> (\<And>r. s \<in> mb_members m' r \<longleftrightarrow> s \<in> mb_members m r) \<Longrightarrow>
   entering s R m' = entering s R m"
  by (simp add: entering_def split: option.split)

lemma entering_step:
  assumes "member_step (others s) m m'" "entering s R m"
  shows "entering s R m'"
proof -
  have push: "entering s R (push r j m)" if "\<not> job_moves s j" for r j
    using assms(2) that by (subst entering_cong [of s _ m]) (simp_all add: moves_simps isin_simps)
  have head: "j = JobEnter (Some s) \<and> filter (job_moves s) js = [] \<and> r \<in> R"
    if "mb_pending m r = j # js" "job_moves s j" for r j js
  proof -
    have "moves s m r = j # filter (job_moves s) js" using that by (simp add: moves_def)
    then show ?thesis using assms(2) unfolding entering_def by (metis list.distinct(1) list.inject)
  qed
  from assms(1) show ?thesis
  proof cases
    case (enter r u js)
    show ?thesis
    proof (cases "u = s")
      case True
      then have "moves s m' = (moves s m)(r := [])" "r \<in> R" "mb_room m' s = Some r"
        using head [OF enter(2)] enter(1) by (simp_all add: moves_simps isin_simps)
      moreover have "s \<in> mb_members m' q \<longleftrightarrow> q = r \<or> s \<in> mb_members m q" for q
        using True enter(1) by (auto simp: entered_def popped_def)
      ultimately show ?thesis using assms(2) by (auto simp: entering_def)
    next
      case False
      then show ?thesis
        using assms(2) moves_popped_other [OF enter(2), of s] unfolding enter(1)
        by (subst entering_cong [of s _ m]) (simp_all add: moves_simps(3), auto simp: entered_def popped_def)
    qed
  next
    case (leave r u js)
    then have "u \<noteq> s" using head [OF leave(2)] by auto
    then show ?thesis
      using assms(2) moves_popped_other [OF leave(2), of s] unfolding leave(1)
      by (subst entering_cong [of s _ m]) (simp_all add: moves_simps(4), auto simp: left_def popped_def)
  next
    case (move r u target js)
    then have u: "u \<noteq> s" using head [OF move(2)] by auto
    then have "entering s R (left r u (popped r js m))"
      using assms(2) moves_popped_other [OF move(2), of s]
      by (subst entering_cong [of s _ m]) (simp_all add: moves_simps(4), auto simp: left_def popped_def)
    then show ?thesis
      using u unfolding move(1) moved_def
      by (auto simp: moves_simps(1) isin_simps entering_cong [of s "push q (JobEnter (Some u)) m1" m1 for q m1]
          split: option.split)
  next
    case (chat r u msg js)
    then show ?thesis
      using assms(2) moves_popped_other [OF chat(2), of s] by (subst entering_cong [of s _ m]) (simp_all add: popped_def)
  next
    case (skip r j js)
    then have "\<not> job_moves s j" using job_moves_session [of s j] by auto
    then show ?thesis
      using assms(2) moves_popped_other [OF skip(2), of s] skip(1)
      by (subst entering_cong [of s _ m]) (simp_all add: popped_def)
  next
    case (gone u r)
    then have "u \<noteq> s" by (simp add: others_def)
    then show ?thesis
      using assms(2) unfolding gone(1)
      by (subst entering_cong [of s _ m]) (simp_all add: moves_simps isin_simps)
  qed (use push in \<open>auto simp: others_def\<close>)
qed

lemma entering_reach:
  assumes "(member_step (others s))\<^sup>*\<^sup>* m m'" "entering s R m"
  shows "entering s R m'"
  using assms by (induction rule: rtranclp_induct) (auto intro: entering_step)

lemma entering_start:
  assumes "idle s m" "mb_room m s = None"
  shows "entering s {r} (push r (JobEnter (Some s)) m)"
  using assms by (auto simp: entering_def idle_def moves_simps(1) isin_simps)

text \<open>A second request before the first is carried out.\<close>

lemma entering_again:
  assumes "entering s R m" "mb_room m s = None" "r \<notin> R"
  shows "entering s (insert r R) (push r (JobEnter (Some s)) m)"
  using assms by (auto simp: entering_def moves_simps(1) isin_simps)

lemma entering_idle:
  assumes "entering s R m" "idle s m" "R \<noteq> {}"
  shows "\<forall>r \<in> R. s \<in> mb_members m r" "\<exists>r \<in> R. mb_room m s = Some r"
  using assms by (auto simp: entering_def idle_def split: option.splits if_splits)

lemma entering_at:
  assumes "entering s R m" "r \<in> R"
  shows "moves s m r = [JobEnter (Some s)] \<or> moves s m r = [] \<and> s \<in> mb_members m r"
  using assms unfolding entering_def by metis

text \<open>A member that has no leave pending stays one while it does nothing.\<close>

definition settled :: "session_ref \<Rightarrow> room_ref \<Rightarrow> membership \<Rightarrow> bool" where
  "settled s r m \<longleftrightarrow> s \<in> mb_members m r \<and>
     (\<forall>j \<in> set (mb_pending m r). j \<noteq> JobLeave (Some s) \<and> (\<forall>t. j \<noteq> JobLeaveAndEnter (Some s) t))"

lemma idle_settled: "idle s m \<Longrightarrow> s \<in> mb_members m r \<Longrightarrow> settled s r m"
  by (force simp: settled_def idle_def moves_def filter_empty_conv)

lemma entering_settled:
  assumes "entering s R m" "r \<in> R" "s \<in> mb_members m r"
  shows "settled s r m"
proof -
  have "j = JobEnter (Some s)" if "j \<in> set (mb_pending m r)" "job_moves s j" for j
  proof -
    have "j \<in> set (moves s m r)" using that by (simp add: moves_def)
    then show ?thesis using entering_at [OF assms(1,2)] by auto
  qed
  then show ?thesis using assms(3) by (force simp: settled_def)
qed

lemma settled_step:
  assumes "member_step (others s) m m'" "settled s r m"
  shows "settled s r m'"
  using assms by cases
    (auto simp: settled_def mb_defs others_def split: option.splits if_splits; fail)+

lemma settled_reach:
  assumes "(member_step (others s))\<^sup>*\<^sup>* m m'" "settled s r m"
  shows "settled s r m'"
  using assms by (induction rule: rtranclp_induct) (auto intro: settled_step)

end
