(* ===== verification/ChatServer.thy ===== *)
theory ChatServer
  imports ClientSession Membership
begin

text \<open>
  The chat server as a whole: packets handled and connections ended on the threads of the IOCP, and
  the jobs of the rooms executed on the workers, interleaved in any order
  (\<^verbatim>\<open>ChatServer/Main.cpp\<close>: every worker dispatches a completion, then pops queues off the global
  queue and executes them). A handler, a job, and each of the three parts of \<open>JobQueue::Execute\<close>
  is one step. That one queue is executed by one worker at a time is the guard of \<open>take_jobs\<close>; the
  theory \<open>JobQueue\<close> proves it of the interleaved atomic accesses.

  The simulation at the end makes this an implementation of the machine of the theory \<open>Membership\<close>.
\<close>

section \<open>The system\<close>

text \<open>\<open>cy_executing\<close>: the jobs a worker still has to run of the list it has taken, and its length.\<close>

record chat_system =
  cy_world :: world
  cy_executing :: "room_ref \<Rightarrow> (room_job list \<times> nat) option"

definition set_room :: "room_ref \<Rightarrow> room \<Rightarrow> world \<Rightarrow> world" where
  "set_room r x w = w\<lparr>w_rooms := (w_rooms w)(r := x)\<rparr>"

definition set_global :: "room_ref list \<Rightarrow> world \<Rightarrow> world" where
  "set_global g w = w\<lparr>w_globalQueue := g\<rparr>"

text \<open>\<open>ProcessConnect\<close> of a session of the server.\<close>

definition ProcessConnect_server :: "(nat \<Rightarrow> uint64) \<Rightarrow> session_ref \<Rightarrow> world \<Rightarrow> world" where
  "ProcessConnect_server clock s w =
     (let w = upd_client s (\<lambda>c. c\<lparr>cs_connected := True\<rparr>) w;
          w = w\<lparr>w_service := map_option (AddSession s) (w_service w)\<rparr>
      in OnConnected clock s w)"

definition ProcessDisconnect_server :: "session_ref \<Rightarrow> world \<Rightarrow> world" where
  "ProcessDisconnect_server s w =
     (let w = OnDisconnected s w in w\<lparr>w_service := map_option (ReleaseSession s) (w_service w)\<rparr>)"

text \<open>What is still to be run of a room, the order included, and the abstraction.\<close>

definition pending :: "chat_system \<Rightarrow> room_ref \<Rightarrow> room_job list" where
  "pending y r = (case cy_executing y r of None \<Rightarrow> [] | Some (js, n) \<Rightarrow> js) @ jq_jobs (w_rooms (cy_world y) r)"

definition abs_members :: "chat_system \<Rightarrow> membership" where
  "abs_members y = \<lparr>mb_members = \<lambda>r. set (rm_members (w_rooms (cy_world y) r)),
     mb_room = \<lambda>s. cs_room (w_clients (cy_world y) s), mb_pending = pending y\<rparr>"

fun asks_to_move :: "packet \<Rightarrow> bool" where
  "asks_to_move (Pkt_C_ENTER_ROOM _) = True"
| "asks_to_move (Pkt_C_LEAVE_ROOM _) = True"
| "asks_to_move _ = False"

inductive chat_step ::
    "(client_act \<Rightarrow> session_ref \<Rightarrow> membership \<Rightarrow> bool) \<Rightarrow> chat_system \<Rightarrow> chat_system \<Rightarrow> bool" for may where
  packet: "asks_to_move p \<Longrightarrow> may Asks s (abs_members y) \<Longrightarrow>
    handle_packet t clock (Some s) p (cy_world y) = Ok (handled, w) \<Longrightarrow> chat_step may y (y\<lparr>cy_world := w\<rparr>)"
| other_packet: "\<not> asks_to_move p \<Longrightarrow>
    handle_packet t clock (Some s) p (cy_world y) = Ok (handled, w) \<Longrightarrow> chat_step may y (y\<lparr>cy_world := w\<rparr>)"
| connected: "chat_step may y (y\<lparr>cy_world := ProcessConnect_server clock s (cy_world y)\<rparr>)"
| disconnect: "chat_step may y (y\<lparr>cy_world := Disconnect cause s (cy_world y)\<rparr>)"
| disconnected: "may Ends s (abs_members y) \<Longrightarrow>
    chat_step may y (y\<lparr>cy_world := ProcessDisconnect_server s (cy_world y)\<rparr>)"
| heartbeats: "chat_step may y (y\<lparr>cy_world :=
    CheckHeartbeatTimeouts now clocks (w_service (cy_world y)) timeoutMs (cy_world y)\<rparr>)"
| take_jobs: "GlobalQueue_Pop (w_globalQueue (cy_world y)) = (Some r, g) \<Longrightarrow> cy_executing y r = None \<Longrightarrow>
    Execute_take (w_rooms (cy_world y) r) = (js, x) \<Longrightarrow>
    chat_step may y (y\<lparr>cy_world := set_room r x (set_global g (cy_world y)),
      cy_executing := (cy_executing y)(r := Some (js, length js))\<rparr>)"
| run: "cy_executing y r = Some (j # js, n) \<Longrightarrow> run_job t r j (cy_world y) = Ok w \<Longrightarrow>
    chat_step may y (y\<lparr>cy_world := w, cy_executing := (cy_executing y)(r := Some (js, n))\<rparr>)"
| finish: "cy_executing y r = Some ([], n) \<Longrightarrow> Execute_done (int n) (w_rooms (cy_world y) r) = (remain, x) \<Longrightarrow>
    chat_step may y (y\<lparr>cy_world := set_room r x (if remain > 0
        then set_global (GlobalQueue_Push r (w_globalQueue (cy_world y))) (cy_world y) else cy_world y),
      cy_executing := (cy_executing y)(r := None)\<rparr>)"

definition chat_start :: "(session_ref \<Rightarrow> client_session) \<Rightarrow> chat_system" where
  "chat_start clients = \<lparr>cy_world = RoomManager_Init (world_start clients), cy_executing = \<lambda>_. None\<rparr>"

section \<open>What changes no room\<close>

definition same_rooms :: "world \<Rightarrow> world \<Rightarrow> bool" where
  "same_rooms w w' \<longleftrightarrow> w_rooms w' = w_rooms w \<and> w_nextRoom w' = w_nextRoom w \<and> w_roomTable w' = w_roomTable w \<and>
     (\<forall>s. cs_room (w_clients w' s) = cs_room (w_clients w s))"

lemma same_rooms_refl [simp]: "same_rooms w w"
  by (simp add: same_rooms_def)

lemma same_rooms_quiet: "quiet w2 = quiet w1 \<Longrightarrow> same_rooms w w2 = same_rooms w w1"
  using quiet_eqD(1-3) [of w2 w1] quiet_clients(1) [of w2 w1] by (simp add: same_rooms_def)

lemma same_rooms_make [simp]:
  "make_buffer t p w1 = Ok (sb, w2) \<Longrightarrow> same_rooms w w2 = same_rooms w w1"
  "same_rooms w (Send sb s w1) = same_rooms w w1"
  "same_rooms w (fold (Send sb) ss w1) = same_rooms w w1"
  by (rule same_rooms_quiet; simp add: make_quiet Send_quiet fold_Send_other)+

lemma same_rooms_upds [simp]:
  "same_rooms w (UpdateHeartbeat tick s w1) = same_rooms w w1"
  "same_rooms w (SetPlayerInfo i n s w1) = same_rooms w w1" "same_rooms w (Disconnect c s w1) = same_rooms w w1"
  "same_rooms w (ReportAbuse tick ts s' n ip p reason w1) = same_rooms w w1"
  "same_rooms w (w1\<lparr>w_playerIdGenerator := k\<rparr>) = same_rooms w w1"
  "same_rooms w (w1\<lparr>w_stats := st\<rparr>) = same_rooms w w1" "same_rooms w (w1\<lparr>w_service := sv\<rparr>) = same_rooms w w1"
  by (auto simp: same_rooms_def UpdateHeartbeat_def SetPlayerInfo_def Disconnect_def)

lemma same_rooms_check: "same_rooms w (fold (\<lambda>s. check_session now timeoutMs (clock s) s) ss w1) = same_rooms w w1"
  by (induction ss arbitrary: w1) (simp_all add: check_session_eq)

lemma handle_other_packet:
  "\<not> asks_to_move p \<Longrightarrow> handle_packet t clock (Some s) p w = Ok (b, w') \<Longrightarrow>
   same_rooms w w' \<or> (\<exists>r msg. cs_room (w_clients w s) = Some r \<and> w' = PushJob r (JobHandleChat (Some s) msg) w)"
  by (cases p) (auto simp: Handle_C_LOGIN_def Handle_C_HEARTBEAT_def Handle_C_ROOM_LIST_def Handle_C_ROOM_CHAT_def
      Handle_C_GLOBAL_CHAT_def Service_Broadcast_def GetRoom_def Let_def res_iff split: option.splits)

section \<open>The simulation\<close>

text \<open>References in use are allocated, rooms that are not are empty.\<close>

fun job_target :: "room_job \<Rightarrow> room_ref option" where
  "job_target (JobLeaveAndEnter s q) = q"
| "job_target _ = None"

definition chat_inv :: "chat_system \<Rightarrow> bool" where
  "chat_inv y \<longleftrightarrow> (let w = cy_world y in
     table_inv w \<and> (\<forall>r. distinct (rm_members (w_rooms w r))) \<and>
     (\<forall>r \<ge> w_nextRoom w. rm_members (w_rooms w r) = [] \<and> pending y r = []) \<and>
     (\<forall>s r. cs_room (w_clients w s) = Some r \<longrightarrow> r < w_nextRoom w) \<and>
     (\<forall>r. \<forall>j \<in> set (pending y r). \<forall>q. job_target j = Some q \<longrightarrow> q < w_nextRoom w))"

lemma pending_same_rooms:
  "same_rooms w w' \<Longrightarrow> pending (y\<lparr>cy_world := w'\<rparr>) = pending (y\<lparr>cy_world := w\<rparr>)"
  by (simp add: pending_def same_rooms_def fun_eq_iff)

lemma same_rooms_abs:
  assumes "same_rooms w w'"
  shows "abs_members (y\<lparr>cy_world := w'\<rparr>) = abs_members (y\<lparr>cy_world := w\<rparr>)"
    "chat_inv (y\<lparr>cy_world := w'\<rparr>) = chat_inv (y\<lparr>cy_world := w\<rparr>)"
  using assms pending_same_rooms [OF assms, of y]
  by (simp_all add: abs_members_def chat_inv_def same_rooms_def table_inv_def Let_def)

lemma pending_push:
  "pending (y\<lparr>cy_world := PushJob r j w\<rparr>) q =
     (if q = r then pending (y\<lparr>cy_world := w\<rparr>) r @ [j] else pending (y\<lparr>cy_world := w\<rparr>) q)"
  by (simp add: pending_def)

lemma push_abs:
  "abs_members (y\<lparr>cy_world := PushJob r j w\<rparr>) = push r j (abs_members (y\<lparr>cy_world := w\<rparr>))"
  by (auto simp: abs_members_def push_def pending_push fun_eq_iff)

lemma push_inv:
  assumes "chat_inv (y\<lparr>cy_world := w\<rparr>)" "r < w_nextRoom w" "\<And>q. job_target j = Some q \<Longrightarrow> q < w_nextRoom w"
  shows "chat_inv (y\<lparr>cy_world := PushJob r j w\<rparr>)"
  using assms unfolding chat_inv_def Let_def by (auto simp: pending_push table_inv_def)

lemma create_abs:
  assumes "chat_inv (y\<lparr>cy_world := w\<rparr>)" "GetOrCreateRoom i name w = (q, w1)"
  shows "abs_members (y\<lparr>cy_world := w1\<rparr>) = abs_members (y\<lparr>cy_world := w\<rparr>)" "chat_inv (y\<lparr>cy_world := w1\<rparr>)"
    "q < w_nextRoom w1" "w_clients w1 = w_clients w" "w_nextRoom w \<le> w_nextRoom w1"
proof -
  have t: "table_inv w" using assms(1) by (simp add: chat_inv_def Let_def)
  have c: "CreateRoom i name w = (q, w1)" using assms(2) by (simp add: GetOrCreateRoom_eq)
  note inv = CreateRoom_inv [OF t c]
  show "q < w_nextRoom w1" "w_clients w1 = w_clients w" "w_nextRoom w \<le> w_nextRoom w1" using inv by simp_all
  have new: "w_rooms w1 r = w_rooms w r \<or> r = w_nextRoom w \<and> w_nextRoom w1 = Suc r \<and> w_rooms w1 r = Room_new i name" for r
    using c by (auto simp: CreateRoom_def make_room_def table_set_def split: option.splits if_splits)
  have mem: "rm_members (w_rooms w1 r) = rm_members (w_rooms w r)" for r
    using new [of r] assms(1) by (auto simp: chat_inv_def Let_def Room_new_def)
  have pend: "pending (y\<lparr>cy_world := w1\<rparr>) r = pending (y\<lparr>cy_world := w\<rparr>) r" for r
    using new [of r] assms(1) by (auto simp: chat_inv_def Let_def Room_new_def pending_def)
  show "abs_members (y\<lparr>cy_world := w1\<rparr>) = abs_members (y\<lparr>cy_world := w\<rparr>)"
    using mem pend inv(7) by (simp add: abs_members_def fun_eq_iff)
  show "chat_inv (y\<lparr>cy_world := w1\<rparr>)"
    using assms(1) inv(1,3,7) mem pend unfolding chat_inv_def Let_def by (auto intro: less_le_trans [OF _ inv(3)])
qed

lemma Room_Enter_same: "Room_Enter t r (Some s) w = Ok w' \<Longrightarrow> same_rooms (joined r s w) w'"
  by (auto simp: Room_Enter_def Let_def res_iff Room_Broadcast_def simp flip: joined_def)

lemma Room_Leave_same: "Room_Leave t r (Some s) w = Ok w' \<Longrightarrow> same_rooms (parted r s w) w'"
  unfolding Room_Leave_def option.case Let_def parted_def [unfolded Let_def, symmetric]
  by (auto simp: res_iff Room_Broadcast_def)

lemma Room_HandleChat_same: "Room_HandleChat t r (Some s) m w = Ok w' \<Longrightarrow> same_rooms w w'"
  by (auto simp: Room_HandleChat_def Let_def res_iff Room_Broadcast_def)

lemma handle_move_packet:
  assumes "asks_to_move p" "handle_packet t clock (Some s) p w = Ok (b, w')"
  shows "(\<exists>i name q w1. GetOrCreateRoom i name w = (q, w1) \<and>
      (case cs_room (w_clients w1 s) of
         Some r \<Rightarrow> if r = q then w' = w1 else w' = PushJob r (JobLeaveAndEnter (Some s) (Some q)) w1
       | None \<Rightarrow> w' = PushJob q (JobEnter (Some s)) w1)) \<or>
    (case cs_room (w_clients w s) of Some r \<Rightarrow> w' = PushJob r (JobLeave (Some s)) w | None \<Rightarrow> w' = w)"
proof (cases p)
  case (Pkt_C_ENTER_ROOM pkt)
  define name where "name = (if C_ENTER_ROOM_roomName pkt = []
      then ''Room_'' @ to_string (sint (C_ENTER_ROOM_roomId pkt)) else C_ENTER_ROOM_roomName pkt)"
  obtain q w1 where g: "GetOrCreateRoom (C_ENTER_ROOM_roomId pkt) name w = (q, w1)" by fastforce
  have "case cs_room (w_clients w1 s) of
         Some r \<Rightarrow> if r = q then w' = w1 else w' = PushJob r (JobLeaveAndEnter (Some s) (Some q)) w1
       | None \<Rightarrow> w' = PushJob q (JobEnter (Some s)) w1"
    using assms(2) g Pkt_C_ENTER_ROOM
    by (auto simp: Handle_C_ENTER_ROOM_def GetRoom_def Let_def simp flip: name_def split: option.splits if_splits)
  with g show ?thesis by blast
qed (use assms in \<open>auto simp: Handle_C_LEAVE_ROOM_def GetRoom_def split: option.splits\<close>)

text \<open>The jobs, on the abstraction.\<close>

lemma joined_abs:
  "abs_members (y\<lparr>cy_world := joined r s w\<rparr>) = entered r s (abs_members (y\<lparr>cy_world := w\<rparr>))"
  by (auto simp: abs_members_def entered_def pending_def fun_eq_iff)

lemma parted_abs:
  "abs_members (y\<lparr>cy_world := parted r s w\<rparr>) = left r s (abs_members (y\<lparr>cy_world := w\<rparr>))"
  by (auto simp: abs_members_def left_def pending_def fun_eq_iff)

lemma joined_parted_world:
  "w_nextRoom (joined r s w) = w_nextRoom w" "w_roomTable (joined r s w) = w_roomTable w"
  "w_nextRoom (parted r s w) = w_nextRoom w" "w_roomTable (parted r s w) = w_roomTable w"
  by (simp_all add: joined_def parted_def SetRoom_def Let_def)

lemma joined_inv:
  assumes "chat_inv (y\<lparr>cy_world := w\<rparr>)" "r < w_nextRoom w"
  shows "chat_inv (y\<lparr>cy_world := joined r s w\<rparr>)"
  using assms unfolding chat_inv_def Let_def
  by (auto simp: joined_parted_world table_inv_def pending_def)

lemma parted_inv:
  assumes "chat_inv (y\<lparr>cy_world := w\<rparr>)"
  shows "chat_inv (y\<lparr>cy_world := parted r s w\<rparr>)"
  using assms unfolding chat_inv_def Let_def
  by (auto simp: joined_parted_world table_inv_def pending_def distinct_removeAll split: if_splits)

lemma run_job_abs:
  assumes "run_job t r j w = Ok w'" "chat_inv (y\<lparr>cy_world := w\<rparr>)" "r < w_nextRoom w"
    "\<And>q. job_target j = Some q \<Longrightarrow> q < w_nextRoom w"
    and ab: "abs_members (y\<lparr>cy_world := w\<rparr>) = popped r js m" "mb_pending m r = j # js"
  shows "chat_inv (y\<lparr>cy_world := w'\<rparr>) \<and> member_step may m (abs_members (y\<lparr>cy_world := w'\<rparr>))"
proof (cases "job_session j")
  case None
  then have "w' = w"
    using assms(1) by (cases j) (simp_all add: Room_Enter_def Room_Leave_def Room_HandleChat_def Room_LeaveAndEnter_def)
  then show ?thesis using assms(2) ab None member_step.skip [of m r j js may] by simp
next
  case (Some s)
  show ?thesis
  proof (cases j)
    case (JobEnter x)
    with Some assms(1) have "same_rooms (joined r s w) w'" by (simp add: Room_Enter_same)
    from same_rooms_abs [OF this, of y] show ?thesis
      using joined_inv [OF assms(2,3), of s] member_step.enter [of m r s js may] ab JobEnter Some
      by (simp add: joined_abs)
  next
    case (JobLeave x)
    with Some assms(1) have "same_rooms (parted r s w) w'" by (simp add: Room_Leave_same)
    from same_rooms_abs [OF this, of y] show ?thesis
      using parted_inv [OF assms(2), of r s] member_step.leave [of m r s js may] ab JobLeave Some
      by (simp add: parted_abs)
  next
    case (JobHandleChat x msg)
    with Some assms(1) have "same_rooms w w'" by (simp add: Room_HandleChat_same)
    from same_rooms_abs [OF this, of y] show ?thesis
      using assms(2) member_step.chat [of m r x msg js may] ab JobHandleChat by simp
  next
    case (JobLeaveAndEnter x target)
    obtain w1 where w1: "Room_Leave t r (Some s) w = Ok w1"
      "w' = (case target of None \<Rightarrow> w1 | Some q \<Rightarrow> PushJob q (JobEnter (Some s)) w1)"
      using assms(1) Some JobLeaveAndEnter by (auto simp: Room_LeaveAndEnter_def res_iff)
    have same: "same_rooms (parted r s w) w1" using w1(1) by (rule Room_Leave_same)
    have inv1: "chat_inv (y\<lparr>cy_world := w1\<rparr>)" "w_nextRoom w1 = w_nextRoom w"
      using same_rooms_abs(2) [OF same, of y] parted_inv [OF assms(2), of r s] same
      by (simp_all add: same_rooms_def joined_parted_world)
    have ab1: "abs_members (y\<lparr>cy_world := w1\<rparr>) = left r s (popped r js m)"
      using same_rooms_abs(1) [OF same, of y] ab(1) by (simp add: parted_abs)
    have "chat_inv (y\<lparr>cy_world := w'\<rparr>)"
      using w1(2) inv1 push_inv [where j = "JobEnter (Some s)", OF inv1(1)] assms(4) JobLeaveAndEnter
      by (auto split: option.split)
    moreover have "abs_members (y\<lparr>cy_world := w'\<rparr>) = moved r s target (popped r js m)"
      using w1(2) ab1 by (auto simp: moved_def push_abs split: option.split)
    ultimately show ?thesis
      using member_step.move [of m r s target js may] ab(2) JobLeaveAndEnter Some by simp
  qed
qed

text \<open>The end of a connection, on the abstraction.\<close>

lemma ProcessDisconnect_abs:
  fixes s :: session_ref
  assumes "chat_inv y"
  defines "y' \<equiv> y\<lparr>cy_world := ProcessDisconnect_server s (cy_world y)\<rparr>"
  shows "chat_inv y'" "abs_members y' = (case GetRoom s (cy_world y) of None \<Rightarrow> abs_members y
    | Some r \<Rightarrow> (push r (JobLeave (Some s)) (abs_members y))\<lparr>mb_room := (mb_room (abs_members y))(s := None)\<rparr>)"
    "w_roomTable (cy_world y') = w_roomTable (cy_world y)"
proof -
  define w where "w = (cy_world y)\<lparr>w_stats := OnSessionDisconnected (w_stats (cy_world y))\<rparr>"
  define w1 where "w1 = (case GetRoom s (cy_world y) of None \<Rightarrow> w | Some r \<Rightarrow> SetRoom None s (PushJob r (JobLeave (Some s)) w))"
  have w: "same_rooms (cy_world y) w" by (simp add: w_def)
  have inv: "chat_inv (y\<lparr>cy_world := w\<rparr>)" "abs_members (y\<lparr>cy_world := w\<rparr>) = abs_members y"
    using same_rooms_abs [OF w, of y] assms(1) by simp_all
  have on: "OnDisconnected s (cy_world y) = w1"
    by (simp add: OnDisconnected_def GetRoom_def w_def w1_def Let_def split: option.split)
  have same: "same_rooms w1 (w1\<lparr>w_service := map_option (ReleaseSession s) (w_service w1)\<rparr>)" by simp
  have y': "y' = y\<lparr>cy_world := w1\<lparr>w_service := map_option (ReleaseSession s) (w_service w1)\<rparr>\<rparr>"
    using on by (simp add: y'_def ProcessDisconnect_server_def Let_def)
  note to_w1 = same_rooms_abs [where y = y, OF same, folded y']
  have "chat_inv (y\<lparr>cy_world := w1\<rparr>) \<and> abs_members (y\<lparr>cy_world := w1\<rparr>) = (case GetRoom s (cy_world y) of
      None \<Rightarrow> abs_members y
    | Some r \<Rightarrow> (push r (JobLeave (Some s)) (abs_members y))\<lparr>mb_room := (mb_room (abs_members y))(s := None)\<rparr>)"
  proof (cases "GetRoom s (cy_world y)")
    case None
    then show ?thesis using inv by (simp add: w1_def)
  next
    case (Some r)
    let ?w1 = "PushJob r (JobLeave (Some s)) w"
    have "r < w_nextRoom w" using assms(1) Some by (auto simp: chat_inv_def Let_def w_def GetRoom_def)
    with inv(1) have inv1: "chat_inv (y\<lparr>cy_world := ?w1\<rparr>)" by (rule push_inv) simp
    have "abs_members (y\<lparr>cy_world := SetRoom None s ?w1\<rparr>) =
        (push r (JobLeave (Some s)) (abs_members y))\<lparr>mb_room := (mb_room (abs_members y))(s := None)\<rparr>"
      unfolding inv(2) [symmetric] push_abs [symmetric]
      by (auto simp: abs_members_def SetRoom_def pending_def fun_eq_iff)
    moreover have "chat_inv (y\<lparr>cy_world := SetRoom None s ?w1\<rparr>)"
      using inv1 by (auto simp: chat_inv_def Let_def SetRoom_def pending_def table_inv_def)
    ultimately show ?thesis using Some by (simp add: w1_def)
  qed
  with to_w1 show "chat_inv y'" "abs_members y' = (case GetRoom s (cy_world y) of None \<Rightarrow> abs_members y
    | Some r \<Rightarrow> (push r (JobLeave (Some s)) (abs_members y))\<lparr>mb_room := (mb_room (abs_members y))(s := None)\<rparr>)"
    by simp_all
  show "w_roomTable (cy_world y') = w_roomTable (cy_world y)"
    by (simp add: y' w1_def w_def SetRoom_def split: option.split)
qed

lemma chat_step_abs:
  assumes "chat_step may y y'" "chat_inv y"
  shows "chat_inv y' \<and> (abs_members y' = abs_members y \<or> member_step may (abs_members y) (abs_members y'))"
proof -
  have still: "?thesis" if "y' = y\<lparr>cy_world := w\<rparr>" "same_rooms (cy_world y) w" for w
    using same_rooms_abs [OF that(2), of y] assms(2) that(1) by simp
  have room: "r < w_nextRoom (cy_world y)" if "cs_room (w_clients (cy_world y) s) = Some r" for s r
    using assms(2) that by (auto simp: chat_inv_def Let_def)
  from assms(1) show ?thesis
  proof cases
    case (packet p s t clock handled w)
    from handle_move_packet [OF packet(2,4)] show ?thesis
    proof (elim disjE exE conjE)
      fix i name q w1
      assume g: "GetOrCreateRoom i name (cy_world y) = (q, w1)" and w: "case cs_room (w_clients w1 s) of
         Some r \<Rightarrow> if r = q then w = w1 else w = PushJob r (JobLeaveAndEnter (Some s) (Some q)) w1
       | None \<Rightarrow> w = PushJob q (JobEnter (Some s)) w1"
      have "chat_inv (y\<lparr>cy_world := cy_world y\<rparr>)" using assms(2) by simp
      note c = create_abs [OF this g]
      show ?thesis
      proof (cases "cs_room (w_clients w1 s)")
        case None
        then show ?thesis
          using w c push_inv [where j = "JobEnter (Some s)", OF c(2,3)] packet(1,3)
            member_step.ask_enter [of may s "abs_members y" q]
          by (simp add: push_abs) (simp add: abs_members_def)
      next
        case (Some r)
        then have "r < w_nextRoom w1" using c(4,5) room [of s r] by simp
        then show ?thesis
          using Some w c push_inv [where r = r and j = "JobLeaveAndEnter (Some s) (Some q)", OF c(2)] packet(1,3)
            member_step.ask_move [of may s "abs_members y" r q]
          by (cases "r = q") (simp_all add: push_abs, simp add: abs_members_def)
      qed
    next
      assume w: "case cs_room (w_clients (cy_world y) s) of
          Some r \<Rightarrow> w = PushJob r (JobLeave (Some s)) (cy_world y) | None \<Rightarrow> w = cy_world y"
      show ?thesis
      proof (cases "cs_room (w_clients (cy_world y) s)")
        case (Some r)
        then show ?thesis
          using w push_inv [where y = y and w = "cy_world y" and r = r and j = "JobLeave (Some s)"] assms(2) room [of s r] packet(1,3)
            member_step.ask_leave [of may s "abs_members y" r]
          by (simp add: push_abs) (simp add: abs_members_def)
      qed (use w assms(2) packet(1) in simp)
    qed
  next
    case (other_packet p t clock s handled w)
    from handle_other_packet [OF other_packet(2,3)] show ?thesis
    proof
      assume "\<exists>r msg. cs_room (w_clients (cy_world y) s) = Some r \<and> w = PushJob r (JobHandleChat (Some s) msg) (cy_world y)"
      then obtain r msg where "cs_room (w_clients (cy_world y) s) = Some r"
        "w = PushJob r (JobHandleChat (Some s) msg) (cy_world y)" by blast
      then show ?thesis
        using push_inv [where y = y and w = "cy_world y" and r = r and j = "JobHandleChat (Some s) msg"] assms(2) room [of s r] other_packet(1)
          member_step.ask_chat [of "abs_members y" s r may msg]
        by (simp add: push_abs) (simp add: abs_members_def)
    qed (rule still [OF other_packet(1)])
  next
    case (connected clock s)
    show ?thesis
      by (rule still [OF connected])
        (simp add: ProcessConnect_server_def OnConnected_def Let_def, simp add: same_rooms_def UpdateHeartbeat_def)
  next
    case (disconnect cause s)
    show ?thesis by (rule still [OF disconnect]) simp
  next
    case (disconnected s)
    note d = ProcessDisconnect_abs [OF assms(2), of s]
    show ?thesis
    proof (cases "GetRoom s (cy_world y)")
      case None
      then show ?thesis using d disconnected(1) by simp
    next
      case (Some r)
      then show ?thesis
        using d disconnected member_step.gone [of may s "abs_members y" r]
        by (simp add: GetRoom_def) (simp add: abs_members_def [of y])
    qed
  next
    case (heartbeats now clocks timeoutMs)
    show ?thesis
      by (rule still [OF heartbeats])
        (simp add: CheckHeartbeatTimeouts_def same_rooms_check split: option.split)
  next
    case (take_jobs r g js x)
    have x: "js @ jq_jobs x = jq_jobs (w_rooms (cy_world y) r)" "rm_members x = rm_members (w_rooms (cy_world y) r)"
      "rm_roomId x = rm_roomId (w_rooms (cy_world y) r)"
      using take_jobs(4) by (auto simp: Execute_take_eq)
    have "pending y' = pending y"
      using x(1) take_jobs(3) by (auto simp: take_jobs(1) pending_def set_room_def set_global_def fun_eq_iff)
    then show ?thesis
      using x(2,3) assms(2)
      by (auto simp: take_jobs(1) abs_members_def chat_inv_def Let_def set_room_def set_global_def table_inv_def fun_eq_iff)
  next
    case (run r j js n t w)
    let ?y = "y\<lparr>cy_executing := (cy_executing y)(r := Some (js, n))\<rparr>"
    have p: "mb_pending (abs_members y) r = j # (js @ jq_jobs (w_rooms (cy_world y) r))"
      using run(2) by (simp add: abs_members_def pending_def)
    then have r: "r < w_nextRoom (cy_world y)"
      using assms(2) by (auto simp: chat_inv_def Let_def abs_members_def not_le [symmetric])
    have t: "q < w_nextRoom (cy_world y)" if "job_target j = Some q" for q
      using assms(2) p that unfolding chat_inv_def Let_def abs_members_def by (metis list.set_intros(1) membership.simps(3))
    have pop: "pending ?y = (pending y)(r := js @ jq_jobs (w_rooms (cy_world y) r))"
      by (auto simp: pending_def fun_eq_iff)
    then have ab: "abs_members (?y\<lparr>cy_world := cy_world y\<rparr>) =
        popped r (js @ jq_jobs (w_rooms (cy_world y) r)) (abs_members y)"
      by (simp add: abs_members_def popped_def)
    have "set (js @ jq_jobs (w_rooms (cy_world y) r)) \<subseteq> set (pending y r)"
      using p by (auto simp: abs_members_def)
    then have "chat_inv (?y\<lparr>cy_world := cy_world y\<rparr>)"
      using assms(2) pop r unfolding chat_inv_def Let_def by auto
    moreover have "y' = ?y\<lparr>cy_world := w\<rparr>" by (simp add: run(1))
    ultimately show ?thesis using run_job_abs [OF run(3) _ r t ab p, of may] by simp
  next
    case (finish r n remain x)
    have x: "jq_jobs x = jq_jobs (w_rooms (cy_world y) r)" "rm_members x = rm_members (w_rooms (cy_world y) r)"
      "rm_roomId x = rm_roomId (w_rooms (cy_world y) r)"
      using finish(3) by (auto simp: Execute_done_def)
    have "pending y' = pending y"
      using x(1) finish(2) by (auto simp: finish(1) pending_def set_room_def set_global_def fun_eq_iff)
    then show ?thesis
      using x(2,3) assms(2)
      by (auto simp: finish(1) abs_members_def chat_inv_def Let_def set_room_def set_global_def table_inv_def fun_eq_iff)
  qed
qed

abbreviation chat_reach ::
    "(client_act \<Rightarrow> session_ref \<Rightarrow> membership \<Rightarrow> bool) \<Rightarrow> (session_ref \<Rightarrow> client_session) \<Rightarrow> chat_system \<Rightarrow> bool" where
  "chat_reach may clients y \<equiv> (chat_step may)\<^sup>*\<^sup>* (chat_start clients) y"

lemma chat_start_abs:
  assumes "\<forall>s. cs_room (clients s) = None"
  shows "abs_members (chat_start clients) = mb_start" "chat_inv (chat_start clients)"
proof -
  note defs = chat_start_def world_start_def RoomManager_Init_def make_room_def table_set_def Room_new_def Let_def
  show "abs_members (chat_start clients) = mb_start"
    using assms by (simp add: defs abs_members_def mb_start_def pending_def fun_eq_iff)
  show "chat_inv (chat_start clients)"
    using assms by (simp add: defs chat_inv_def pending_def table_inv_def)
qed

lemma chat_reach_abs:
  assumes "chat_reach may clients y" "\<forall>s. cs_room (clients s) = None"
  shows "chat_inv y \<and> mb_reach may (abs_members y)"
  using assms(1)
proof (induction rule: rtranclp_induct)
  case base
  then show ?case using chat_start_abs [OF assms(2)] by simp
next
  case (step y y')
  with chat_step_abs [OF step(2)] show ?case by (auto intro: rtranclp.rtrancl_into_rtrancl)
qed

section \<open>Runs in which a session does nothing\<close>

text \<open>The room table only grows.\<close>

lemma run_job_table: "run_job t r j w = Ok w' \<Longrightarrow> w_roomTable w' = w_roomTable w"
proof (cases "job_session j")
  case None
  then show "run_job t r j w = Ok w' \<Longrightarrow> ?thesis"
    by (cases j) (simp_all add: Room_Enter_def Room_Leave_def Room_HandleChat_def Room_LeaveAndEnter_def)
next
  case (Some s)
  have leave: "w_roomTable w1 = w_roomTable w" if "Room_Leave t r (Some s) w = Ok w1" for w1
    using Room_Leave_same [OF that] by (simp add: same_rooms_def joined_parted_world)
  show "run_job t r j w = Ok w' \<Longrightarrow> ?thesis"
    using Some leave Room_Enter_same [of t r s w w'] Room_HandleChat_same [of t r s _ w w']
    by (cases j) (auto simp: same_rooms_def joined_parted_world Room_LeaveAndEnter_def res_iff split: option.split)
qed

lemma same_rooms_table: "same_rooms w w' \<Longrightarrow> FindRoom i w' = FindRoom i w"
  by (simp add: same_rooms_def FindRoom_def)

lemma handle_packet_table:
  assumes "handle_packet t clock (Some s) p w = Ok (b, w')" "table_inv w" "FindRoom i w = Some r"
  shows "FindRoom i w' = Some r"
proof (cases "asks_to_move p")
  case True
  have push: "FindRoom i (PushJob q j w1) = FindRoom i w1" for q j w1 by (simp add: FindRoom_def)
  from handle_move_packet [OF True assms(1)] show ?thesis
    by (elim disjE exE conjE)
      (use assms(2,3) CreateRoom_inv(5) push in \<open>fastforce simp: GetOrCreateRoom_eq split: option.splits if_splits\<close>)+
next
  case False
  from handle_other_packet [OF this assms(1)] show ?thesis
    using assms(3) by (auto simp: same_rooms_table) (simp add: FindRoom_def)
qed

lemma chat_step_table:
  assumes "chat_step may y y'" "chat_inv y" "FindRoom i (cy_world y) = Some r"
  shows "FindRoom i (cy_world y') = Some r"
proof -
  have t: "table_inv (cy_world y)" using assms(2) by (simp add: chat_inv_def Let_def)
  from assms(1) show ?thesis
  proof cases
    case (disconnected s)
    then show ?thesis using ProcessDisconnect_abs(3) [OF assms(2), of s] assms(3) by (simp add: FindRoom_def)
  next
    case (heartbeats now clocks timeoutMs)
    have "same_rooms (cy_world y) (cy_world y')"
      by (simp add: heartbeats CheckHeartbeatTimeouts_def same_rooms_check split: option.split)
    then show ?thesis using assms(3) by (simp add: same_rooms_table)
  next
    case (disconnect cause s)
    then show ?thesis using assms(3) same_rooms_table [of "cy_world y" "cy_world y'" i] by simp
  qed (use assms(3) t handle_packet_table run_job_table in \<open>auto simp: FindRoom_def set_room_def set_global_def
      ProcessConnect_server_def OnConnected_def UpdateHeartbeat_def Let_def\<close>)
qed

lemma chat_others_reach:
  assumes "(chat_step may)\<^sup>*\<^sup>* y z" "chat_inv y"
  shows "chat_inv z" "(member_step may)\<^sup>*\<^sup>* (abs_members y) (abs_members z)"
    "FindRoom i (cy_world y) = Some r \<Longrightarrow> FindRoom i (cy_world z) = Some r"
proof -
  have "chat_inv z \<and> (member_step may)\<^sup>*\<^sup>* (abs_members y) (abs_members z) \<and>
      (FindRoom i (cy_world y) = Some r \<longrightarrow> FindRoom i (cy_world z) = Some r)"
    using assms
  proof (induction rule: rtranclp_induct)
    case (step z z')
    then show ?case
      using chat_step_abs [OF step(2)] chat_step_table [OF step(2)] by (metis rtranclp.rtrancl_into_rtrancl)
  qed simp
  then show "chat_inv z" "(member_step may)\<^sup>*\<^sup>* (abs_members y) (abs_members z)"
    "FindRoom i (cy_world y) = Some r \<Longrightarrow> FindRoom i (cy_world z) = Some r" by blast+
qed

text \<open>A \<open>C_ENTER_ROOM\<close> of a session without a room.\<close>

lemma enter_request:
  assumes "chat_inv y" "GetRoom s (cy_world y) = None"
    "handle_packet t clock (Some s) (Pkt_C_ENTER_ROOM p) (cy_world y) = Ok (ok, w)"
  obtains r where "FindRoom (C_ENTER_ROOM_roomId p) w = Some r" "chat_inv (y\<lparr>cy_world := w\<rparr>)"
    "abs_members (y\<lparr>cy_world := w\<rparr>) = push r (JobEnter (Some s)) (abs_members y)"
proof -
  have inv: "chat_inv (y\<lparr>cy_world := cy_world y\<rparr>)" and t: "table_inv (cy_world y)"
    using assms(1) by (simp_all add: chat_inv_def Let_def)
  obtain name q w1 where g: "GetOrCreateRoom (C_ENTER_ROOM_roomId p) name (cy_world y) = (q, w1)"
    and w: "case GetRoom s w1 of None \<Rightarrow> w = PushJob q (JobEnter (Some s)) w1 | Some r \<Rightarrow> True"
    using assms(3) by (auto simp: Handle_C_ENTER_ROOM_def Let_def split: prod.splits option.splits if_splits)
  note c = create_abs [OF inv g]
  have "FindRoom (C_ENTER_ROOM_roomId p) w1 = Some q"
    using CreateRoom_inv(2) [OF t] g by (simp add: GetOrCreateRoom_eq)
  moreover have w: "w = PushJob q (JobEnter (Some s)) w1"
    using w assms(2) c(4) by (simp add: GetRoom_def)
  moreover have "chat_inv (y\<lparr>cy_world := w\<rparr>)" unfolding w by (rule push_inv [OF c(2,3)]) simp
  moreover have "abs_members (y\<lparr>cy_world := w\<rparr>) = push q (JobEnter (Some s)) (abs_members y)"
    unfolding w push_abs using c(1) by simp
  ultimately show thesis by (intro that [of q]) (simp_all add: FindRoom_def)
qed

lemma abs_room: "mb_room (abs_members y) s = GetRoom s (cy_world y)"
  by (simp add: abs_members_def GetRoom_def)

lemma abs_member: "s \<in> mb_members (abs_members y) r \<longleftrightarrow> s \<in> set (rm_members (w_rooms (cy_world y) r))"
  by (simp add: abs_members_def)

lemma chat_settled:
  assumes "(chat_step (others s))\<^sup>*\<^sup>* y z" "chat_inv y" "settled s r (abs_members y)"
  shows "s \<in> set (rm_members (w_rooms (cy_world z) r))"
proof -
  have "settled s r (abs_members z)" by (rule settled_reach [OF chat_others_reach(2) [OF assms(1,2)] assms(3)])
  then show ?thesis by (simp add: settled_def abs_member)
qed

text \<open>From the request until its job has run, the session doing nothing else.\<close>

lemma enter_request_waits:
  assumes "chat_inv y" "idle s (abs_members y)" "GetRoom s (cy_world y) = None"
    "handle_packet t clock (Some s) (Pkt_C_ENTER_ROOM p) (cy_world y) = Ok (ok, w)"
    "(chat_step (others s))\<^sup>*\<^sup>* (y\<lparr>cy_world := w\<rparr>) z"
  obtains r where "FindRoom (C_ENTER_ROOM_roomId p) (cy_world z) = Some r" "chat_inv z" "entering s {r} (abs_members z)"
proof -
  obtain r where r: "FindRoom (C_ENTER_ROOM_roomId p) w = Some r" "chat_inv (y\<lparr>cy_world := w\<rparr>)"
    "abs_members (y\<lparr>cy_world := w\<rparr>) = push r (JobEnter (Some s)) (abs_members y)"
    by (rule enter_request [OF assms(1,3,4)])
  note o = chat_others_reach [OF assms(5) r(2)]
  have "entering s {r} (abs_members (y\<lparr>cy_world := w\<rparr>))"
    unfolding r(3) by (rule entering_start [OF assms(2)]) (simp add: abs_room assms(3))
  then have "entering s {r} (abs_members z)" by (rule entering_reach [OF o(2)])
  then show thesis using that o(1) o(3) [of "C_ENTER_ROOM_roomId p" r] r(1) by simp
qed

section \<open>Properties\<close>

text \<open>
  C3: The server implements the membership machine. Every state that packets, connections, ends of
  connections, heartbeat checks and the workers can bring the server into, in any interleaving, is,
  seen as members, rooms and pending jobs, a state of that machine; and its room table is intact:
  one room per id, every room reference in a session or a job is an allocated room.
\<close>

theorem chat_refines_membership:
  assumes "chat_reach may clients y" "\<forall>s. cs_room (clients s) = None"
  shows "mb_reach may (abs_members y) \<and> table_inv (cy_world y) \<and>
    (\<forall>r. distinct (rm_members (w_rooms (cy_world y) r))) \<and>
    (\<forall>s r. cs_room (w_clients (cy_world y) s) = Some r \<longrightarrow> r < w_nextRoom (cy_world y)) \<and>
    (\<forall>r. \<forall>j \<in> set (pending y r). \<forall>q. job_target j = Some q \<longrightarrow> q < w_nextRoom (cy_world y))"
  using chat_reach_abs [OF assms] by (simp add: chat_inv_def Let_def)

text \<open>
  The room a session believes to be in has it as a member, in every reachable state and without
  any assumption on the clients: a message it sends is broadcast to a room that has it.
\<close>

theorem session_room_has_it:
  assumes "chat_reach may clients y" "\<forall>s. cs_room (clients s) = None"
    "GetRoom s (cy_world y) = Some r"
  shows "s \<in> set (rm_members (w_rooms (cy_world y) r))"
  using room_has_session_reach [of may "abs_members y"] chat_reach_abs [OF assms(1,2)] assms(3)
  by (auto simp: room_has_session_def abs_members_def GetRoom_def)


section \<open>Runs\<close>

text \<open>Nobody logged in; session 7 acts.\<close>

definition anonymous :: "session_ref \<Rightarrow> client_session" where
  "anonymous s = ClientSession_new 0 [] 0"

definition first_world :: world where
  "first_world = cy_world (chat_start anonymous)"

definition enter_packet :: "uint32 \<Rightarrow> packet" where
  "enter_packet i = Pkt_C_ENTER_ROOM \<lparr>C_ENTER_ROOM_roomId = i, C_ENTER_ROOM_roomName = []\<rparr>"

lemmas first_world_defs = first_world_def chat_start_def world_start_def RoomManager_Init_def make_room_def
  table_set_def Room_new_def Let_def anonymous_def ClientSession_new_def

lemma first_world_simps [simp]:
  "map_of (w_roomTable first_world) 1 = Some 0" "map_of (w_roomTable first_world) 2 = Some 1"
  "cs_room (w_clients first_world s) = None" "w_globalQueue first_world = []" "w_nextRoom first_world = 3"
  "jq_jobs (w_rooms first_world r) = []" "jq_jobCount (w_rooms first_world r) = 0"
  "rm_members (w_rooms first_world r) = []" "length (rm_roomName (w_rooms first_world r)) \<le> 256"
  "GetPlayerName s first_world = []" "ready first_world" "sent first_world s = []"
  by (simp_all add: first_world_defs GetPlayerName_def ready_def all_closed_def sb_inv_start sb_idle_start sent_def)

lemma chat_start_first: "chat_start anonymous = \<lparr>cy_world = first_world, cy_executing = \<lambda>_. None\<rparr>"
  by (simp add: first_world_def chat_start_def)

lemma handle_enter:
  assumes "map_of (w_roomTable w) i = Some r" "cs_room (w_clients w s) = None"
  shows "handle_packet t clock (Some s) (enter_packet i) w = Ok (True, PushJob r (JobEnter (Some s)) w)"
  using assms by (simp add: enter_packet_def Handle_C_ENTER_ROOM_def GetOrCreateRoom_def GetRoom_def Let_def)

text \<open>A packet asking to enter an existing room, by a session in no room.\<close>

lemma step_ask_enter:
  assumes "map_of (w_roomTable (cy_world y)) i = Some r" "cs_room (w_clients (cy_world y) s) = None"
    "may Asks s (abs_members y)"
  shows "chat_step may y (y\<lparr>cy_world := PushJob r (JobEnter (Some s)) (cy_world y)\<rparr>)"
  by (rule chat_step.packet [of "enter_packet i"])
    (use assms(3) handle_enter [OF assms(1,2)] in \<open>simp_all add: enter_packet_def\<close>)

text \<open>A worker takes the only job of a room, an \<open>Enter\<close>, and runs it.\<close>

lemma steps_take_and_enter:
  fixes y :: chat_system
  assumes "w_globalQueue (cy_world y) = r # g" "cy_executing y r = None"
    "jq_jobs (w_rooms (cy_world y) r) = [JobEnter (Some s)]" "room_ok r 1 (cy_world y)"
  shows "\<exists>y'. (chat_step may)\<^sup>*\<^sup>* y y' \<and> w_globalQueue (cy_world y') = g \<and>
    cy_executing y' = (cy_executing y)(r := Some ([], 1)) \<and>
    (\<forall>q. jq_jobs (w_rooms (cy_world y') q) = (if q = r then [] else jq_jobs (w_rooms (cy_world y) q))) \<and>
    (\<forall>q. rm_members (w_rooms (cy_world y') q) =
       (if q = r then members_insert s (rm_members (w_rooms (cy_world y) r)) else rm_members (w_rooms (cy_world y) q))) \<and>
    (\<forall>q. rm_roomName (w_rooms (cy_world y') q) = rm_roomName (w_rooms (cy_world y) q)) \<and>
    (\<forall>u. GetPlayerName u (cy_world y') = GetPlayerName u (cy_world y)) \<and> ready (cy_world y') \<and>
    (\<forall>u. cs_room (w_clients (cy_world y') u) = (if u = s then Some r else cs_room (w_clients (cy_world y) u))) \<and>
    w_service (cy_world y') = w_service (cy_world y)"
proof -
  let ?w = "cy_world y"
  define x where "x = (w_rooms ?w r)\<lparr>jq_jobs := []\<rparr>"
  define w1 where "w1 = set_room r x (set_global g ?w)"
  let ?y1 = "y\<lparr>cy_world := w1, cy_executing := (cy_executing y)(r := Some ([JobEnter (Some s)], 1))\<rparr>"
  have "chat_step may y ?y1"
    using chat_step.take_jobs [of y r g "[JobEnter (Some s)]" x may] assms(1-3)
    by (simp add: w1_def x_def Execute_take_eq GlobalQueue_Pop_def maxExecuteCount_def)
  moreover have w1: "ready w1" "GetPlayerName u w1 = GetPlayerName u ?w" "w_rooms w1 = (w_rooms ?w)(r := x)"
    "w_globalQueue w1 = g" "cs_room (w_clients w1 u) = cs_room (w_clients ?w u)" "w_service w1 = w_service ?w" for u
    using assms(4) ready_cong [of w1 ?w]
    by (simp_all add: w1_def set_room_def set_global_def GetPlayerName_def room_ok_def)
  then have ok: "room_ok r (Suc 0) w1" using assms(4) by (simp add: room_ok_def x_def)
  obtain w' where w': "Room_Enter 0 r (Some s) w1 = Ok w'"
    "tells (joined r s w1) (\<lambda>u. (if u = s then [enter_response r (members_insert s (rm_members (w_rooms w1 r))) w1] else []) @
      (if u = s \<or> u \<in> set (rm_members (w_rooms w1 r)) then [joined_notice (GetPlayerName s w1)] else [])) w'"
    using Room_Enter_tells [OF room_okD(1,2) [OF ok] room_okD(6,7) [OF ok], of 0 s] by blast
  moreover have "chat_step may ?y1 (?y1\<lparr>cy_world := w', cy_executing := (cy_executing ?y1)(r := Some ([], 1))\<rparr>)"
    by (rule chat_step.run [where t = 0 and j = "JobEnter (Some s)"]) (use w'(1) in simp_all)
  ultimately have steps: "(chat_step may)\<^sup>*\<^sup>* y (?y1\<lparr>cy_world := w', cy_executing := (cy_executing ?y1)(r := Some ([], 1))\<rparr>)"
    by (meson converse_rtranclp_into_rtranclp r_into_rtranclp)
  have j: "w_globalQueue (joined r s w1) = g" "w_service (joined r s w1) = w_service ?w"
    using w1(4,6) by (simp_all add: joined_def SetRoom_def)
  have q: "w_globalQueue w' = g" "w_service w' = w_service ?w"
    using w'(2) quiet_eqD(4,5) [of w' "joined r s w1"] j by (simp_all add: tells_def)
  show ?thesis
    by (rule exI, rule conjI [OF steps]) (use tells_simps [OF w'(2)] w1 q in \<open>auto simp: x_def\<close>)
qed

text \<open>
  C34: An impatient client ends up in two rooms. Whenever a session that is in no room and has no move
  pending sends two \<open>C_ENTER_ROOM\<close> packets with different ids, and \<open>GetRoom\<close> is still null when the
  second is handled (whatever the other sessions and the workers do in between), then from the moment
  both jobs have run it is a member of both rooms, which are different, while \<open>GetRoom\<close> is one of
  them; and when its connection ends it is removed from that one only: it stays a member of the other,
  whatever happens later.
\<close>

theorem impatient_client_two_rooms:
  assumes "chat_reach may clients y0" "\<forall>s. cs_room (clients s) = None"
    and "idle s (abs_members y0)" "GetRoom s (cy_world y0) = None"
    and "handle_packet t1 clock1 (Some s) (Pkt_C_ENTER_ROOM p) (cy_world y0) = Ok (ok1, w1)"
    and "(chat_step (others s))\<^sup>*\<^sup>* (y0\<lparr>cy_world := w1\<rparr>) y1" "GetRoom s (cy_world y1) = None"
    and "handle_packet t2 clock2 (Some s) (Pkt_C_ENTER_ROOM q) (cy_world y1) = Ok (ok2, w2)"
    and "C_ENTER_ROOM_roomId p \<noteq> C_ENTER_ROOM_roomId q"
    and "(chat_step (others s))\<^sup>*\<^sup>* (y1\<lparr>cy_world := w2\<rparr>) z" "idle s (abs_members z)"
  shows "\<exists>r1 r2. FindRoom (C_ENTER_ROOM_roomId p) (cy_world z) = Some r1 \<and>
    FindRoom (C_ENTER_ROOM_roomId q) (cy_world z) = Some r2 \<and> r1 \<noteq> r2 \<and>
    s \<in> set (rm_members (w_rooms (cy_world z) r1)) \<and> s \<in> set (rm_members (w_rooms (cy_world z) r2)) \<and>
    (\<exists>a b. {a, b} = {r1, r2} \<and> GetRoom s (cy_world z) = Some a \<and>
      (\<forall>z'. (chat_step (others s))\<^sup>*\<^sup>* (z\<lparr>cy_world := ProcessDisconnect_server s (cy_world z)\<rparr>) z' \<longrightarrow>
         s \<in> set (rm_members (w_rooms (cy_world z') b))))"
proof -
  have "chat_inv y0" using chat_reach_abs [OF assms(1,2)] by simp
  from enter_request_waits [OF this assms(3-6)] obtain r1 where
    r1: "FindRoom (C_ENTER_ROOM_roomId p) (cy_world y1) = Some r1" "chat_inv y1" "entering s {r1} (abs_members y1)" .
  obtain r2 where r2: "FindRoom (C_ENTER_ROOM_roomId q) w2 = Some r2" "chat_inv (y1\<lparr>cy_world := w2\<rparr>)"
    "abs_members (y1\<lparr>cy_world := w2\<rparr>) = push r2 (JobEnter (Some s)) (abs_members y1)"
    by (rule enter_request [OF r1(2) assms(7,8)])
  have t: "table_inv (cy_world y1)" "table_inv w2" using r1(2) r2(2) by (simp_all add: chat_inv_def Let_def)
  have f1: "FindRoom (C_ENTER_ROOM_roomId p) w2 = Some r1" by (rule handle_packet_table [OF assms(8) t(1) r1(1)])
  have neq: "r1 \<noteq> r2"
  proof
    assume "r1 = r2"
    with f1 r2(1) table_invD(2) [OF t(2)] assms(9) show False by (metis FindRoom_def)
  qed
  note o = chat_others_reach [OF assms(10) r2(2)]
  have "entering s {r2, r1} (abs_members (y1\<lparr>cy_world := w2\<rparr>))"
    unfolding r2(3) by (rule entering_again [OF r1(3)]) (use assms(7) neq in \<open>simp_all add: abs_room\<close>)
  then have e: "entering s {r2, r1} (abs_members z)" by (rule entering_reach [OF o(2)])
  have mem: "\<forall>r \<in> {r2, r1}. s \<in> set (rm_members (w_rooms (cy_world z) r))"
    using entering_idle(1) [OF e assms(11)] by (simp add: abs_member)
  obtain a where a: "a \<in> {r2, r1}" "GetRoom s (cy_world z) = Some a"
    using entering_idle(2) [OF e assms(11)] by (auto simp: abs_room)
  define b where "b = (if a = r1 then r2 else r1)"
  have ab: "{a, b} = {r1, r2}" "b \<noteq> a" "b \<in> {r2, r1}" using a(1) neq by (auto simp: b_def)
  let ?g = "z\<lparr>cy_world := ProcessDisconnect_server s (cy_world z)\<rparr>"
  note d = ProcessDisconnect_abs [OF o(1), of s]
  have "settled s b (abs_members z)"
    by (rule idle_settled [OF assms(11)]) (use mem ab(3) in \<open>auto simp: abs_member\<close>)
  then have "settled s b (abs_members ?g)"
    using d(2) a(2) ab(2) by (simp add: settled_def push_def)
  then have "s \<in> set (rm_members (w_rooms (cy_world z') b))" if "(chat_step (others s))\<^sup>*\<^sup>* ?g z'" for z'
    by (rule chat_settled [OF that d(1)])
  then show ?thesis
    using o(3) [of "C_ENTER_ROOM_roomId p" r1] f1 o(3) [of "C_ENTER_ROOM_roomId q" r2] r2(1) neq mem a(2) ab(1) by auto
qed

text \<open>
  C35: A client that goes away while its request to enter waits stays in the room for good. Whenever a
  session that is in no room and has no move pending sends \<open>C_ENTER_ROOM\<close>, and its connection ends while
  \<open>GetRoom\<close> is still null, then \<open>OnDisconnected\<close> pushes no \<open>Leave\<close>: the service has released the session,
  the room has its \<open>Enter\<close> still pending or has it as a member already, it is a member as soon as its
  moves are done, and once it is, it is one ever after.
\<close>

theorem gone_client_stays_member:
  assumes "chat_reach may clients y0" "\<forall>s. cs_room (clients s) = None"
    and "idle s (abs_members y0)" "GetRoom s (cy_world y0) = None"
    and "handle_packet t clock (Some s) (Pkt_C_ENTER_ROOM p) (cy_world y0) = Ok (ok, w1)"
    and "(chat_step (others s))\<^sup>*\<^sup>* (y0\<lparr>cy_world := w1\<rparr>) y1" "GetRoom s (cy_world y1) = None"
    and y2: "y2 = y1\<lparr>cy_world := ProcessDisconnect_server s (cy_world y1)\<rparr>"
    and "(chat_step (others s))\<^sup>*\<^sup>* y2 z"
  shows "(\<forall>sv. w_service (cy_world y2) = Some sv \<longrightarrow> s \<notin> set (GetSessionsSnapshot sv)) \<and>
    (\<exists>r. FindRoom (C_ENTER_ROOM_roomId p) (cy_world z) = Some r \<and>
      (JobEnter (Some s) \<in> set (pending z r) \<or> s \<in> set (rm_members (w_rooms (cy_world z) r))) \<and>
      (idle s (abs_members z) \<longrightarrow> s \<in> set (rm_members (w_rooms (cy_world z) r)) \<and> GetRoom s (cy_world z) = Some r) \<and>
      (s \<in> set (rm_members (w_rooms (cy_world z) r)) \<longrightarrow>
        (\<forall>z'. (chat_step (others s))\<^sup>*\<^sup>* z z' \<longrightarrow> s \<in> set (rm_members (w_rooms (cy_world z') r)))))"
proof -
  have "chat_inv y0" using chat_reach_abs [OF assms(1,2)] by simp
  from enter_request_waits [OF this assms(3-6)] obtain r where
    r: "FindRoom (C_ENTER_ROOM_roomId p) (cy_world y1) = Some r" "chat_inv y1" "entering s {r} (abs_members y1)" .
  note d = ProcessDisconnect_abs [OF r(2), of s, folded y2]
  note o = chat_others_reach [OF assms(9) d(1)]
  have "entering s {r} (abs_members y2)" using r(3) d(2) assms(7) by simp
  then have e: "entering s {r} (abs_members z)" by (rule entering_reach [OF o(2)])
  have mv: "moves s (abs_members z) r = [JobEnter (Some s)] \<or>
      moves s (abs_members z) r = [] \<and> s \<in> set (rm_members (w_rooms (cy_world z) r))"
    using entering_at [OF e, of r] by (simp add: abs_member)
  have "settled s r (abs_members z)" if "s \<in> set (rm_members (w_rooms (cy_world z) r))"
    by (rule entering_settled [OF e]) (use that in \<open>simp_all add: abs_member\<close>)
  then have stay: "s \<in> set (rm_members (w_rooms (cy_world z') r))"
    if "s \<in> set (rm_members (w_rooms (cy_world z) r))" "(chat_step (others s))\<^sup>*\<^sup>* z z'" for z'
    using that(1) chat_settled [OF that(2) o(1)] by blast
  have "JobEnter (Some s) \<in> set (pending z r)" if "JobEnter (Some s) \<in> set (moves s (abs_members z) r)"
    using that by (simp add: moves_def abs_members_def)
  then have "JobEnter (Some s) \<in> set (pending z r) \<or> s \<in> set (rm_members (w_rooms (cy_world z) r))"
    using mv by auto
  moreover have "s \<in> set (rm_members (w_rooms (cy_world z) r)) \<and> GetRoom s (cy_world z) = Some r"
    if "idle s (abs_members z)"
    using entering_idle [OF e that] by (simp add: abs_member abs_room)
  moreover have "FindRoom (C_ENTER_ROOM_roomId p) (cy_world z) = Some r"
    using o(3) r(1) d(3) by (simp add: FindRoom_def)
  moreover have "s \<notin> set (GetSessionsSnapshot sv)" if "w_service (cy_world y2) = Some sv" for sv
    using that by (auto simp: y2 ProcessDisconnect_server_def Let_def GetSessionsSnapshot_def ReleaseSession_def)
  ultimately show ?thesis using stay by blast
qed

text \<open>One session asks to enter room 1 and a worker carries it out.\<close>

lemma one_member_run:
  "\<exists>y. chat_reach when_idle anonymous y \<and> rm_members (w_rooms (cy_world y) 0) = [7] \<and>
     GetRoom 7 (cy_world y) = Some 0 \<and> (\<forall>r. pending y r = [])"
proof -
  let ?y0 = "\<lparr>cy_world = first_world, cy_executing = \<lambda>_. None\<rparr>"
  define w1 where "w1 = PushJob 0 (JobEnter (Some 7)) first_world"
  have idle: "when_idle Asks 7 (abs_members ?y0)"
    by (simp add: when_idle_def idle_def moves_def abs_members_def pending_def)
  have r1: "chat_reach when_idle anonymous \<lparr>cy_world = w1, cy_executing = \<lambda>_. None\<rparr>"
    using step_ask_enter [of ?y0 1 0 7 when_idle] idle by (simp add: chat_start_first w1_def r_into_rtranclp)
  have g: "w_globalQueue w1 = [0]"
    by (simp add: w1_def PushJob_def JobQueue_Push_def jobCount_fetch_add_def jobs_push_def GlobalQueue_Push_def Let_def)
  obtain y2 where y2: "(chat_step when_idle)\<^sup>*\<^sup>* \<lparr>cy_world = w1, cy_executing = \<lambda>_. None\<rparr> y2"
    "cy_executing y2 = (\<lambda>_. None)(0 := Some ([], 1))"
    "\<And>q. jq_jobs (w_rooms (cy_world y2) q) = (if q = 0 then [] else jq_jobs (w_rooms w1 q))"
    "\<And>q. rm_members (w_rooms (cy_world y2) q) = (if q = 0 then [7] else [])"
    "cs_room (w_clients (cy_world y2) 7) = Some 0"
    using steps_take_and_enter [of "\<lparr>cy_world = w1, cy_executing = \<lambda>_. None\<rparr>" 0 "[]" 7 when_idle] g
    by (auto simp: w1_def room_ok_def members_insert_def)
  have "pending y2 r = []" for r using y2(2,3) by (auto simp: pending_def w1_def)
  moreover have "chat_reach when_idle anonymous y2" using r1 y2(1) by (rule rtranclp_trans)
  ultimately show ?thesis using y2(4,5) by (intro exI [of _ y2]) (simp add: GetRoom_def)
qed

theorem chat_refines_membership_witness:
  "\<exists>y :: chat_system. chat_reach when_idle anonymous y \<and> rm_members (w_rooms (cy_world y) 0) = [7] \<and>
    mb_reach when_idle (abs_members y) \<and> table_inv (cy_world y)"
proof -
  obtain y where y: "chat_reach when_idle anonymous y" "rm_members (w_rooms (cy_world y) 0) = [7]"
    using one_member_run by blast
  have "\<forall>s. cs_room (anonymous s) = None" by (simp add: anonymous_def ClientSession_new_def)
  from chat_refines_membership [OF y(1) this] y show ?thesis by blast
qed

theorem session_room_has_it_witness:
  "\<exists>y :: chat_system. GetRoom 7 (cy_world y) = Some 0 \<and> 7 \<in> set (rm_members (w_rooms (cy_world y) 0))"
proof -
  obtain y where y: "chat_reach when_idle anonymous y" "GetRoom 7 (cy_world y) = Some 0"
    using one_member_run by blast
  have "\<forall>s. cs_room (anonymous s) = None" by (simp add: anonymous_def ClientSession_new_def)
  from session_room_has_it [OF y(1) this y(2)] y(2) show ?thesis by blast
qed


text \<open>Session 7 asks for room 1, then for room 2, before a worker runs a job.\<close>

lemma enter_handled:
  assumes "map_of (w_roomTable w) i = Some r" "GetRoom s w = None"
  shows "handle_packet 0 clock (Some s) (Pkt_C_ENTER_ROOM \<lparr>C_ENTER_ROOM_roomId = i, C_ENTER_ROOM_roomName = []\<rparr>) w =
    Ok (True, PushJob r (JobEnter (Some s)) w)"
  using handle_enter [OF assms(1)] assms(2) by (simp add: enter_packet_def GetRoom_def)

abbreviation enter_room :: "uint32 \<Rightarrow> C_ENTER_ROOM" where
  "enter_room i \<equiv> \<lparr>C_ENTER_ROOM_roomId = i, C_ENTER_ROOM_roomName = []\<rparr>"

abbreviation quiet_system :: "world \<Rightarrow> chat_system" where
  "quiet_system w \<equiv> \<lparr>cy_world = w, cy_executing = \<lambda>_. None\<rparr>"

lemma anonymous_roomless: "\<forall>s. cs_room (anonymous s) = None"
  by (simp add: anonymous_def ClientSession_new_def)

lemma first_idle: "idle 7 (abs_members (quiet_system first_world))" "GetRoom 7 first_world = None"
  by (simp_all add: idle_def moves_def abs_members_def pending_def GetRoom_def)

theorem impatient_client_two_rooms_witness:
  "\<exists>z :: chat_system. 7 \<in> set (rm_members (w_rooms (cy_world z) 0)) \<and> 7 \<in> set (rm_members (w_rooms (cy_world z) 1)) \<and>
     idle 7 (abs_members z) \<and> (\<exists>b. GetRoom 7 (cy_world z) \<noteq> Some b \<and>
     (\<forall>z'. (chat_step (others 7))\<^sup>*\<^sup>* (z\<lparr>cy_world := ProcessDisconnect_server 7 (cy_world z)\<rparr>) z' \<longrightarrow>
        7 \<in> set (rm_members (w_rooms (cy_world z') b))))"
proof -
  define w1 where "w1 = PushJob 0 (JobEnter (Some 7)) first_world"
  define w2 where "w2 = PushJob 1 (JobEnter (Some 7)) w1"
  have g: "w_globalQueue w2 = [0, 1]"
    by (simp add: w2_def w1_def PushJob_def JobQueue_Push_def jobCount_fetch_add_def jobs_push_def
        GlobalQueue_Push_def Let_def)
  obtain y3 where y3: "(chat_step (others 7))\<^sup>*\<^sup>* (quiet_system w2) y3"
    "w_globalQueue (cy_world y3) = [1]" "cy_executing y3 = (\<lambda>_. None)(0 := Some ([], 1))"
    "\<And>q. jq_jobs (w_rooms (cy_world y3) q) = (if q = 0 then [] else jq_jobs (w_rooms w2 q))"
    "\<And>q. rm_members (w_rooms (cy_world y3) q) = (if q = 0 then [7] else [])"
    "\<And>q. rm_roomName (w_rooms (cy_world y3) q) = rm_roomName (w_rooms w2 q)"
    "\<And>u. GetPlayerName u (cy_world y3) = []" "ready (cy_world y3)"
    using steps_take_and_enter [of "quiet_system w2" 0 "[1]" 7 "others 7"] g
    by (auto simp: w2_def w1_def room_ok_def members_insert_def)
  obtain z where z: "(chat_step (others 7))\<^sup>*\<^sup>* y3 z" "cy_executing z = (cy_executing y3)(1 := Some ([], 1))"
    "\<And>q. jq_jobs (w_rooms (cy_world z) q) = (if q = 1 then [] else jq_jobs (w_rooms (cy_world y3) q))"
    "\<And>q. rm_members (w_rooms (cy_world z) q) = (if q = 1 then [7] else rm_members (w_rooms (cy_world y3) q))"
    "cs_room (w_clients (cy_world z) 7) = Some 1"
    using steps_take_and_enter [of y3 1 "[]" 7 "others 7"] y3
    by (auto simp: w2_def w1_def room_ok_def members_insert_def)
  have "pending z r = []" for r using y3(3,4) z(2,3) by (auto simp: pending_def w2_def w1_def)
  then have idle: "idle 7 (abs_members z)" by (simp add: idle_def moves_def abs_members_def)
  have h: "handle_packet 0 (\<lambda>_. 0) (Some 7) (Pkt_C_ENTER_ROOM (enter_room 1)) (cy_world (quiet_system first_world)) = Ok (True, w1)"
    "handle_packet 0 (\<lambda>_. 0) (Some 7) (Pkt_C_ENTER_ROOM (enter_room 2)) (cy_world (quiet_system w1)) = Ok (True, w2)"
    using enter_handled [of first_world 1 0 7] enter_handled [of w1 2 1 7] first_idle(2)
    by (simp_all add: w1_def w2_def GetRoom_def del: handle_packet.simps)
  have start: "chat_reach anytime anonymous (quiet_system first_world)" by (simp add: chat_start_first)
  have room: "GetRoom 7 (cy_world (quiet_system first_world)) = None" "GetRoom 7 (cy_world (quiet_system w1)) = None"
    using first_idle(2) by (simp_all add: w1_def GetRoom_def)
  have between: "(chat_step (others 7))\<^sup>*\<^sup>* ((quiet_system first_world)\<lparr>cy_world := w1\<rparr>) (quiet_system w1)"
    "(chat_step (others 7))\<^sup>*\<^sup>* ((quiet_system w1)\<lparr>cy_world := w2\<rparr>) z"
    using y3(1) z(1) by simp_all
  have "C_ENTER_ROOM_roomId (enter_room 1) \<noteq> C_ENTER_ROOM_roomId (enter_room 2)" by simp
  from impatient_client_two_rooms [OF start anonymous_roomless first_idle(1) room(1) h(1) between(1) room(2) h(2) this between(2) idle]
  obtain r1 r2 a b where "r1 \<noteq> r2" "{a, b} = {r1, r2}" "GetRoom 7 (cy_world z) = Some a"
    "\<forall>z'. (chat_step (others 7))\<^sup>*\<^sup>* (z\<lparr>cy_world := ProcessDisconnect_server 7 (cy_world z)\<rparr>) z' \<longrightarrow>
        7 \<in> set (rm_members (w_rooms (cy_world z') b))"
    by blast
  then obtain a b where "a \<noteq> b" "GetRoom 7 (cy_world z) = Some a"
    "\<forall>z'. (chat_step (others 7))\<^sup>*\<^sup>* (z\<lparr>cy_world := ProcessDisconnect_server 7 (cy_world z)\<rparr>) z' \<longrightarrow>
        7 \<in> set (rm_members (w_rooms (cy_world z') b))"
    by (metis doubleton_eq_iff)
  then show ?thesis using y3(5) z(4) idle by (intro exI [of _ z]) auto
qed

text \<open>The connection of session 7 ends before a worker runs its \<open>Enter\<close>.\<close>

theorem gone_client_stays_member_witness:
  "\<exists>y2 z. y2 = quiet_system (ProcessDisconnect_server 7 (PushJob 0 (JobEnter (Some 7)) first_world)) \<and>
     (chat_step (others 7))\<^sup>*\<^sup>* y2 z \<and> idle 7 (abs_members z) \<and> 7 \<in> set (rm_members (w_rooms (cy_world z) 0)) \<and>
     (\<forall>z'. (chat_step (others 7))\<^sup>*\<^sup>* z z' \<longrightarrow> 7 \<in> set (rm_members (w_rooms (cy_world z') 0)))"
proof -
  define w1 where "w1 = PushJob 0 (JobEnter (Some 7)) first_world"
  define w2 where "w2 = ProcessDisconnect_server 7 w1"
  have g: "w_globalQueue w1 = [0]"
    by (simp add: w1_def PushJob_def JobQueue_Push_def jobCount_fetch_add_def jobs_push_def GlobalQueue_Push_def Let_def)
  have room: "GetRoom 7 w1 = None" by (simp add: w1_def GetRoom_def)
  have w2: "w_globalQueue w2 = [0]" "w_rooms w2 = w_rooms w1" "w_clients w2 = w_clients w1"
    "w_sendBuffers w2 = w_sendBuffers w1" "w_roomTable w2 = w_roomTable w1"
    using room g by (simp_all add: w2_def ProcessDisconnect_server_def OnDisconnected_def GetRoom_def Let_def)
  have "GetPlayerName u w2 = GetPlayerName u first_world" for u
    using w2(3) by (simp add: GetPlayerName_def w1_def)
  then have ok: "room_ok 0 1 w2"
    using w2 ready_cong [of w2 w1] by (simp add: room_ok_def w1_def)
  obtain z where z: "(chat_step (others 7))\<^sup>*\<^sup>* (quiet_system w2) z"
    "cy_executing z = (\<lambda>_. None)(0 := Some ([], 1))"
    "\<And>q. jq_jobs (w_rooms (cy_world z) q) = (if q = 0 then [] else jq_jobs (w_rooms w2 q))"
    "\<And>q. rm_members (w_rooms (cy_world z) q) = (if q = 0 then [7] else [])"
    using steps_take_and_enter [of "quiet_system w2" 0 "[]" 7 "others 7"] ok w2
    by (auto simp: w1_def members_insert_def)
  have "pending z r = []" for r using z(2,3) w2(2) by (auto simp: pending_def w1_def)
  then have idle: "idle 7 (abs_members z)" by (simp add: idle_def moves_def abs_members_def)
  have h: "handle_packet 0 (\<lambda>_. 0) (Some 7) (Pkt_C_ENTER_ROOM (enter_room 1)) (cy_world (quiet_system first_world)) = Ok (True, w1)"
    using enter_handled [of first_world 1 0 7] first_idle(2) by (simp add: w1_def del: handle_packet.simps)
  have start: "chat_reach anytime anonymous (quiet_system first_world)" by (simp add: chat_start_first)
  have none: "GetRoom 7 (cy_world (quiet_system first_world)) = None" "GetRoom 7 (cy_world (quiet_system w1)) = None"
    using first_idle(2) room by simp_all
  have between: "(chat_step (others 7))\<^sup>*\<^sup>* ((quiet_system first_world)\<lparr>cy_world := w1\<rparr>) (quiet_system w1)" by simp
  have y2: "quiet_system w2 = (quiet_system w1)\<lparr>cy_world := ProcessDisconnect_server 7 (cy_world (quiet_system w1))\<rparr>"
    by (simp add: w2_def)
  from gone_client_stays_member [OF start anonymous_roomless first_idle(1) none(1) h between none(2) y2 z(1)] idle
  have "\<exists>r. 7 \<in> set (rm_members (w_rooms (cy_world z) r)) \<and>
      (\<forall>z'. (chat_step (others 7))\<^sup>*\<^sup>* z z' \<longrightarrow> 7 \<in> set (rm_members (w_rooms (cy_world z') r)))"
    by blast
  then obtain r where r: "7 \<in> set (rm_members (w_rooms (cy_world z) r))"
    "\<forall>z'. (chat_step (others 7))\<^sup>*\<^sup>* z z' \<longrightarrow> 7 \<in> set (rm_members (w_rooms (cy_world z') r))" by blast
  then have "r = 0" using z(4) [of r] by (auto split: if_splits)
  with r z(1) idle show ?thesis unfolding w2_def w1_def by blast
qed

end
