(* ===== verification/MemoryPool.thy ===== *)
theory MemoryPool
  imports Prelude
begin

text \<open>
  \<^verbatim>\<open>ServerEngine/Memory/MemoryHeader.h\<close>, \<^verbatim>\<open>MemoryPool.h\<close> and \<^verbatim>\<open>MemoryPool.cpp\<close>: blocks of memory with
  their headers, and the free list of one size.

  A block is named by a number; so is the pointer behind its header, \<open>header + 1\<close>, that the program
  is given. The heap says which blocks are live, how many bytes follow the header, and what the
  header holds; a block that is not live must not be touched. \<open>_aligned_malloc\<close> returns a block that
  is not live, or null: \<open>oom\<close> says which. The interlocked list is a list, top first: each of its
  operations is one atomic access.
\<close>

section \<open>Blocks\<close>

type_synonym block = nat

record memory_header =
  mh_allocSize :: uint32
  mh_magic :: uint32

record mem_block =
  bk_size :: int32
  bk_header :: memory_header

record heap =
  hp_block :: "block \<Rightarrow> mem_block option"
  hp_next :: block

definition heap_start :: heap where
  "heap_start = \<lparr>hp_block = \<lambda>_. None, hp_next = 0\<rparr>"

definition sizeof_MemoryHeader :: int32 where
  "sizeof_MemoryHeader = 32"

definition MemoryHeader_new :: "uint32 \<Rightarrow> memory_header" where
  "MemoryHeader_new sz = \<lparr>mh_allocSize = sz, mh_magic = 0xABCD1234\<rparr>"

text \<open>\<open>header->magic\<close> and \<open>header->allocSize\<close>, and placement new on a header.\<close>

definition read_header :: "heap \<Rightarrow> block \<Rightarrow> memory_header res" where
  "read_header h b = (case hp_block h b of None \<Rightarrow> Crash UseAfterFree | Some bk \<Rightarrow> Ok (bk_header bk))"

definition AttachHeader :: "block \<Rightarrow> int32 \<Rightarrow> heap \<Rightarrow> (block \<times> heap) res" where
  "AttachHeader header sz h =
     (case hp_block h header of None \<Rightarrow> Crash UseAfterFree
      | Some bk \<Rightarrow> Ok (header, h\<lparr>hp_block := (hp_block h)(header \<mapsto>
          bk\<lparr>bk_header := MemoryHeader_new (word_of_int sz)\<rparr>)\<rparr>))"

definition DetachHeader :: "block \<Rightarrow> block" where
  "DetachHeader ptr = ptr"

text \<open>The contents of a fresh header are arbitrary; here they are zero.\<close>

definition aligned_malloc :: "bool \<Rightarrow> int32 \<Rightarrow> heap \<Rightarrow> block option \<times> heap" where
  "aligned_malloc oom totalSize h =
     (if oom then (None, h)
      else (Some (hp_next h), h\<lparr>hp_block := (hp_block h)(hp_next h \<mapsto>
          \<lparr>bk_size = totalSize - sizeof_MemoryHeader, bk_header = \<lparr>mh_allocSize = 0, mh_magic = 0\<rparr>\<rparr>),
        hp_next := Suc (hp_next h)\<rparr>))"

definition aligned_free :: "block \<Rightarrow> heap \<Rightarrow> heap res" where
  "aligned_free b h =
     (if hp_block h b = None then Crash UseAfterFree else Ok (h\<lparr>hp_block := (hp_block h)(b := None)\<rparr>))"

section \<open>The pool\<close>

record memory_pool =
  mp_header :: "block list"
  mp_allocSize :: int32
  mp_allocCount :: int32
  mp_useCount :: int32

definition MemoryPool_new :: "int32 \<Rightarrow> memory_pool" where
  "MemoryPool_new allocSize =
     \<lparr>mp_header = [], mp_allocSize = allocSize, mp_allocCount = 0, mp_useCount = 0\<rparr>"

text \<open>The destructor, on the list that is left.\<close>

fun MemoryPool_delete :: "block list \<Rightarrow> heap \<Rightarrow> heap res" where
  "MemoryPool_delete [] h = Ok h"
| "MemoryPool_delete (entry # entries) h = res_bind (aligned_free entry h) (MemoryPool_delete entries)"

definition MemoryPool_Push :: "block option \<Rightarrow> heap \<Rightarrow> memory_pool \<Rightarrow> memory_pool res" where
  "MemoryPool_Push ptr h pool =
     (case ptr of None \<Rightarrow> Crash AssertCrash
      | Some b \<Rightarrow>
        res_bind (read_header h b) (\<lambda>header.
        assert_crash (mh_magic header = 0xABCD1234)
          (Ok (pool\<lparr>mp_useCount := mp_useCount pool - 1, mp_header := b # mp_header pool\<rparr>))))"

definition MemoryPool_Pop :: "bool \<Rightarrow> heap \<Rightarrow> memory_pool \<Rightarrow> (block \<times> heap \<times> memory_pool) res" where
  "MemoryPool_Pop oom h pool =
     (case mp_header pool of
        b # entries \<Rightarrow>
          Ok (b, h, pool\<lparr>mp_header := entries, mp_useCount := mp_useCount pool + 1\<rparr>)
      | [] \<Rightarrow>
          let totalSize = to_int32 (sizeof_MemoryHeader + mp_allocSize pool);
              (header, h1) = aligned_malloc oom totalSize h in
          case header of None \<Rightarrow> Crash AssertCrash
          | Some b \<Rightarrow>
            res_bind (AttachHeader b (mp_allocSize pool) h1) (\<lambda>(_, h2).
            Ok (b, h2, pool\<lparr>mp_allocCount := mp_allocCount pool + 1, mp_useCount := mp_useCount pool + 1\<rparr>)))"

section \<open>Blocks of a pool\<close>

text \<open>A live block of \<open>size\<close> bytes whose header says so.\<close>

definition block_ok :: "heap \<Rightarrow> int32 \<Rightarrow> block \<Rightarrow> bool" where
  "block_ok h sz b \<longleftrightarrow> hp_block h b = Some \<lparr>bk_size = sz, bk_header = MemoryHeader_new (word_of_int sz)\<rparr>"

definition heap_ok :: "heap \<Rightarrow> bool" where
  "heap_ok h \<longleftrightarrow> (\<forall>b. hp_block h b \<noteq> None \<longrightarrow> b < hp_next h)"

lemma heap_ok_start [simp]: "heap_ok heap_start"
  by (simp add: heap_ok_def heap_start_def)

lemma block_ok_live: "heap_ok h \<Longrightarrow> block_ok h n b \<Longrightarrow> b < hp_next h"
  by (simp add: heap_ok_def block_ok_def)

lemma read_header_ok: "block_ok h n b \<Longrightarrow> read_header h b = Ok (MemoryHeader_new (word_of_int n))"
  by (simp add: read_header_def block_ok_def)

text \<open>Writing the header of such a block again changes nothing.\<close>

lemma AttachHeader_ok: "block_ok h n b \<Longrightarrow> AttachHeader b n h = Ok (b, h)"
  by (simp add: AttachHeader_def block_ok_def fun_upd_idem)

lemma malloc_attach:
  assumes "heap_ok h" "in_int32 (sizeof_MemoryHeader + n)"
  shows "\<exists>h'. res_bind (Ok (aligned_malloc False (to_int32 (sizeof_MemoryHeader + n)) h))
      (\<lambda>(b, h1). AttachHeader (the b) n h1) = Ok (hp_next h, h') \<and> heap_ok h' \<and> block_ok h' n (hp_next h) \<and>
    (\<forall>b. b \<noteq> hp_next h \<longrightarrow> hp_block h' b = hp_block h b)"
  using assms
  by (auto simp: aligned_malloc_def AttachHeader_def heap_ok_def block_ok_def to_int32_id less_Suc_eq)

lemma MemoryPool_Push_ok:
  "block_ok h n b \<Longrightarrow> MemoryPool_Push (Some b) h pool =
     Ok (pool\<lparr>mp_useCount := mp_useCount pool - 1, mp_header := b # mp_header pool\<rparr>)"
  by (simp add: MemoryPool_Push_def read_header_ok) (simp add: MemoryHeader_new_def)

end
