(* ===== verification/PoolAllocator.thy ===== *)
theory PoolAllocator
  imports MemoryPool
begin

text \<open>
  \<^verbatim>\<open>ServerEngine/Memory/Memory.h\<close> and \<^verbatim>\<open>Memory.cpp\<close>: the allocator over the pools of 48 block sizes,
  with a cache of blocks per thread and size.

  A \<open>MemoryPool\<close> is the number of its allocation; a deleted pool is absent from \<open>pa_pool\<close>. A cache
  is a list whose head is the back of the vector. \<open>t\<close> is the thread that calls. A call is one step
  of the runs at the end: the caches are thread local, and the list of a pool is used through atomic
  operations only, so that calls of different threads can be put in sequence.
\<close>

type_synonym pool_ref = nat

record pool_allocator =
  pa_pools :: "pool_ref list"
  pa_poolTable :: "pool_ref option list"
  pa_initialized :: bool
  pa_pool :: "pool_ref \<Rightarrow> memory_pool option"
  pa_nextPool :: pool_ref
  pa_cache :: "nat \<Rightarrow> nat \<Rightarrow> block list"
  pa_heap :: heap

definition MAX_ALLOC_SIZE :: int32 where
  "MAX_ALLOC_SIZE = 4096"

definition BATCH_SIZE :: nat where
  "BATCH_SIZE = 16"

definition MAX_LOCAL_CACHE :: int32 where
  "MAX_LOCAL_CACHE = 48"

definition pa_start :: pool_allocator where
  "pa_start = \<lparr>pa_pools = [], pa_poolTable = replicate 4097 None, pa_initialized = False,
     pa_pool = \<lambda>_. None, pa_nextPool = 0, pa_cache = \<lambda>_ _. [], pa_heap = heap_start\<rparr>"

section \<open>Operations\<close>

text \<open>\<open>while (currentPoolIdx <= size)\<close>\<close>

function fill_table :: "int32 \<Rightarrow> pool_ref \<Rightarrow> int32 \<Rightarrow> pool_ref option list \<Rightarrow> (int32 \<times> pool_ref option list) res" where
  "fill_table sz pool currentPoolIdx table =
     (if currentPoolIdx \<le> sz then
        res_bind (mem_write table currentPoolIdx [Some pool]) (\<lambda>table'.
        fill_table sz pool (currentPoolIdx + 1) table')
      else Ok (currentPoolIdx, table))"
  by pat_completeness auto
termination by (relation "measure (\<lambda>(sz, pool, idx, table). nat (sz + 1 - idx))") auto

declare fill_table.simps [simp del]

text \<open>\<open>for (int32 size = ...; size <= limit; size += step)\<close>; the three steps are positive.\<close>

function make_pools :: "int32 \<Rightarrow> int32 \<Rightarrow> int32 \<Rightarrow> int32 \<times> pool_allocator \<Rightarrow> (int32 \<times> pool_allocator) res" where
  "make_pools step limit sz (currentPoolIdx, pa) =
     (if sz \<le> limit \<and> 0 < step then
        let pool = pa_nextPool pa;
            pa = pa\<lparr>pa_pool := (pa_pool pa)(pool \<mapsto> MemoryPool_new sz), pa_nextPool := Suc pool,
                    pa_pools := pa_pools pa @ [pool]\<rparr> in
        res_bind (fill_table sz pool currentPoolIdx (pa_poolTable pa)) (\<lambda>(idx, table).
        make_pools step limit (sz + step) (idx, pa\<lparr>pa_poolTable := table\<rparr>))
      else Ok (currentPoolIdx, pa))"
  by pat_completeness auto
termination by (relation "measure (\<lambda>(step, limit, sz, x). nat (limit + 1 - sz))") auto

declare make_pools.simps [simp del]

definition PoolAllocator_Init :: "pool_allocator \<Rightarrow> pool_allocator res" where
  "PoolAllocator_Init pa =
     (if pa_initialized pa then Ok pa
      else
        res_bind (make_pools 32 1024 32 (0, pa)) (\<lambda>x.
        res_bind (make_pools 128 2048 (1024 + 128) x) (\<lambda>x.
        res_bind (make_pools 256 4096 (2048 + 256) x) (\<lambda>(_, pa').
        Ok (pa'\<lparr>pa_initialized := True\<rparr>)))))"

fun delete_pools :: "pool_ref list \<Rightarrow> pool_allocator \<Rightarrow> pool_allocator res" where
  "delete_pools [] pa = Ok pa"
| "delete_pools (p # ps) pa =
     (case pa_pool pa p of None \<Rightarrow> Crash UseAfterFree
      | Some pool \<Rightarrow>
        res_bind (MemoryPool_delete (mp_header pool) (pa_heap pa)) (\<lambda>h.
        delete_pools ps (pa\<lparr>pa_heap := h, pa_pool := (pa_pool pa)(p := None)\<rparr>)))"

definition PoolAllocator_Clear :: "pool_allocator \<Rightarrow> pool_allocator res" where
  "PoolAllocator_Clear pa =
     res_bind (delete_pools (pa_pools pa) pa) (\<lambda>pa'. Ok (pa'\<lparr>pa_pools := [], pa_initialized := False\<rparr>))"

definition pool_index :: "int32 \<Rightarrow> int32" where
  "pool_index allocSize =
     (if allocSize \<le> 1024 then (allocSize div 32) - 1
      else if allocSize \<le> 2048 then 32 + ((allocSize - 1024) div 128) - 1
      else 40 + ((allocSize - 2048) div 256) - 1)"

text \<open>\<open>_poolTable[size]\<close>, \<open>pool->...\<close> and \<open>LMemoryCache.cache[poolIdx]\<close>\<close>

definition table_at :: "int32 \<Rightarrow> pool_allocator \<Rightarrow> pool_ref res" where
  "table_at sz pa =
     res_bind (mem_read (pa_poolTable pa) sz 1) (\<lambda>e.
     case hd e of None \<Rightarrow> Crash AssertCrash | Some pool \<Rightarrow> Ok pool)"

definition pool_at :: "pool_ref \<Rightarrow> pool_allocator \<Rightarrow> memory_pool res" where
  "pool_at p pa = (case pa_pool pa p of None \<Rightarrow> Crash UseAfterFree | Some pool \<Rightarrow> Ok pool)"

definition cache_index :: "int32 \<Rightarrow> nat res" where
  "cache_index i = (if 0 \<le> i \<and> i < 64 then Ok (nat i) else Crash OutOfBounds)"

definition set_cache :: "nat \<Rightarrow> nat \<Rightarrow> block list \<Rightarrow> pool_allocator \<Rightarrow> pool_allocator" where
  "set_cache t i bs pa = pa\<lparr>pa_cache := (pa_cache pa)(t := (pa_cache pa t)(i := bs))\<rparr>"

definition set_heap :: "heap \<Rightarrow> pool_allocator \<Rightarrow> pool_allocator" where
  "set_heap h pa = pa\<lparr>pa_heap := h\<rparr>"

definition set_pool :: "pool_ref \<Rightarrow> memory_pool \<Rightarrow> pool_allocator \<Rightarrow> pool_allocator" where
  "set_pool p pool pa = pa\<lparr>pa_pool := (pa_pool pa)(p \<mapsto> pool)\<rparr>"

definition PoolAllocator_Alloc ::
    "bool \<Rightarrow> nat \<Rightarrow> int32 \<Rightarrow> pool_allocator \<Rightarrow> (block option \<times> pool_allocator) res" where
  "PoolAllocator_Alloc oom t sz pa =
     res_bind (if \<not> pa_initialized pa then PoolAllocator_Init pa else Ok pa) (\<lambda>pa.
     if sz \<le> 0 then Ok (None, pa)
     else if sz > MAX_ALLOC_SIZE then
       let totalSize = to_int32 (sizeof_MemoryHeader + sz);
           (header, h) = aligned_malloc oom totalSize (pa_heap pa) in
       (case header of None \<Rightarrow> Crash AssertCrash
        | Some b \<Rightarrow> res_bind (AttachHeader b sz h) (\<lambda>(ptr, h). Ok (Some ptr, set_heap h pa)))
     else
       res_bind (table_at sz pa) (\<lambda>p.
       res_bind (pool_at p pa) (\<lambda>pool.
       let allocSize = mp_allocSize pool in
       res_bind (cache_index (pool_index allocSize)) (\<lambda>i.
       case pa_cache pa t i of
         header # localList \<Rightarrow>
           let pa = set_cache t i localList pa in
           res_bind (AttachHeader header allocSize (pa_heap pa)) (\<lambda>(ptr, h). Ok (Some ptr, set_heap h pa))
       | [] \<Rightarrow>
           res_bind (MemoryPool_Pop oom (pa_heap pa) pool) (\<lambda>(header, h, pool).
           let pa = set_pool p pool (set_heap h pa) in
           res_bind (AttachHeader header allocSize (pa_heap pa)) (\<lambda>(ptr, h). Ok (Some ptr, set_heap h pa)))))))"

text \<open>The loop that gives \<open>n\<close> blocks of the cache back to the pool.\<close>

fun flush_loop :: "nat \<Rightarrow> heap \<Rightarrow> block list \<times> memory_pool \<Rightarrow> (block list \<times> memory_pool) res" where
  "flush_loop 0 h x = Ok x"
| "flush_loop (Suc n) h (localList, pool) =
     (case localList of [] \<Rightarrow> Crash EmptyContainer
      | flushHeader # rest \<Rightarrow>
        res_bind (MemoryPool_Push (Some flushHeader) h pool) (\<lambda>pool. flush_loop n h (rest, pool)))"

definition PoolAllocator_Release :: "nat \<Rightarrow> block option \<Rightarrow> pool_allocator \<Rightarrow> pool_allocator res" where
  "PoolAllocator_Release t ptr pa =
     (case ptr of None \<Rightarrow> Ok pa
      | Some ptr \<Rightarrow>
        let header = DetachHeader ptr in
        res_bind (read_header (pa_heap pa) header) (\<lambda>head.
        assert_crash (mh_magic head = 0xABCD1234)
          (let allocSize = sint (mh_allocSize head) in
           if allocSize > MAX_ALLOC_SIZE then
             res_bind (aligned_free header (pa_heap pa)) (\<lambda>h. Ok (set_heap h pa))
           else
             res_bind (table_at allocSize pa) (\<lambda>p.
             res_bind (cache_index (pool_index allocSize)) (\<lambda>i.
             let localList = pa_cache pa t i in
             if int (length localList) < MAX_LOCAL_CACHE then Ok (set_cache t i (header # localList) pa)
             else
               res_bind (pool_at p pa) (\<lambda>pool.
               res_bind (flush_loop BATCH_SIZE (pa_heap pa) (localList, pool)) (\<lambda>(localList, pool).
               Ok (set_cache t i (header # localList) (set_pool p pool pa)))))))))"

definition GetTotalAllocCount :: "pool_allocator \<Rightarrow> int32 res" where
  "GetTotalAllocCount pa = fold (\<lambda>p r. res_bind r (\<lambda>count.
     res_bind (pool_at p pa) (\<lambda>pool. Ok (count + mp_allocCount pool)))) (pa_pools pa) (Ok 0)"

definition GetTotalUseCount :: "pool_allocator \<Rightarrow> int32 res" where
  "GetTotalUseCount pa = fold (\<lambda>p r. res_bind r (\<lambda>count.
     res_bind (pool_at p pa) (\<lambda>pool. Ok (count + mp_useCount pool)))) (pa_pools pa) (Ok 0)"

section \<open>The size classes\<close>

text \<open>The size of the blocks that serve a request of \<open>n\<close> bytes, and the class of a cache.\<close>

definition class_size :: "int32 \<Rightarrow> int32" where
  "class_size n =
     (if n \<le> 32 then 32
      else if n \<le> 1024 then (n + 31) div 32 * 32
      else if n \<le> 2048 then 1024 + (n - 1024 + 127) div 128 * 128
      else 2048 + (n - 2048 + 255) div 256 * 256)"

definition class_of_index :: "nat \<Rightarrow> int32" where
  "class_of_index i =
     (if i < 32 then 32 * (int i + 1) else if i < 40 then 1024 + 128 * (int i - 31) else 2048 + 256 * (int i - 39))"

lemma round_up:
  assumes "0 < (k::int)" "c + m * k < i" "i \<le> c + (m + 1) * k"
  shows "(i - c + (k - 1)) div k * k = (m + 1) * k"
proof -
  have "(i - c + (k - 1)) div k = m + 1"
    using assms by (intro int_div_pos_eq [where r = "i - c - m * k - 1"]) (auto simp: algebra_simps)
  then show ?thesis by simp
qed

lemma round_up_bounds:
  assumes "0 < (k::int)"
  shows "n \<le> (n + (k - 1)) div k * k" "(n + (k - 1)) div k * k < n + k"
  using div_mult_mod_eq [of "n + (k - 1)" k] pos_mod_bound [OF assms, of "n + (k - 1)"]
    pos_mod_sign [OF assms, of "n + (k - 1)"]
  by linarith+

lemma class_size_round:
  "0 \<le> k \<Longrightarrow> k < 32 \<Longrightarrow> 32 * k < i \<Longrightarrow> i \<le> 32 * (k + 1) \<Longrightarrow> class_size i = 32 * (k + 1)"
  "0 \<le> k \<Longrightarrow> k < 8 \<Longrightarrow> 1024 + 128 * k < i \<Longrightarrow> i \<le> 1024 + 128 * (k + 1) \<Longrightarrow> class_size i = 1024 + 128 * (k + 1)"
  "0 \<le> k \<Longrightarrow> k < 8 \<Longrightarrow> 2048 + 256 * k < i \<Longrightarrow> i \<le> 2048 + 256 * (k + 1) \<Longrightarrow> class_size i = 2048 + 256 * (k + 1)"
  using round_up [of 32 0 k i] round_up [of 128 1024 k i] round_up [of 256 2048 k i]
  by (auto simp: class_size_def algebra_simps)

lemma class_size_cases:
  assumes "1 \<le> n" "n \<le> 4096"
  shows "(\<exists>k. 0 \<le> k \<and> k < 32 \<and> class_size n = 32 * (k + 1)) \<or>
    (\<exists>k. 0 \<le> k \<and> k < 8 \<and> (class_size n = 1024 + 128 * (k + 1) \<or> class_size n = 2048 + 256 * (k + 1)))"
proof -
  have split: "\<exists>k. 0 \<le> k \<and> k < m \<and> d * k < x \<and> x \<le> d * (k + 1)" if "0 < d" "0 < x" "x \<le> d * m" for d m x :: int
  proof (intro exI conjI)
    have r: "x - 1 = d * ((x - 1) div d) + (x - 1) mod d" "0 \<le> (x - 1) mod d" "(x - 1) mod d < d"
      using that by simp_all
    show "0 \<le> (x - 1) div d" using that by (simp add: pos_imp_zdiv_nonneg_iff)
    show "d * ((x - 1) div d) < x" using r by linarith
    show "x \<le> d * ((x - 1) div d + 1)" using r distrib_left [of d "(x - 1) div d" 1] by linarith
    have "d * ((x - 1) div d) < d * m" using r that by linarith
    then show "(x - 1) div d < m" using that(1) by simp
  qed
  consider "n \<le> 1024" | "1024 < n" "n \<le> 2048" | "2048 < n" by linarith
  then show ?thesis
  proof cases
    case 1
    then obtain k where k: "0 \<le> k" "k < 32" "32 * k < n" "n \<le> 32 * (k + 1)"
      using split [of 32 n 32] assms by auto
    from class_size_round(1) [OF k] k(1,2) show ?thesis by blast
  next
    case 2
    then obtain k where k0: "0 \<le> k" "k < 8" "128 * k < n - 1024" "n - 1024 \<le> 128 * (k + 1)"
      using split [of 128 "n - 1024" 8] by auto
    then have k: "0 \<le> k" "k < 8" "1024 + 128 * k < n" "n \<le> 1024 + 128 * (k + 1)" by linarith+
    from class_size_round(2) [OF k] k(1,2) show ?thesis by blast
  next
    case 3
    then obtain k where k0: "0 \<le> k" "k < 8" "256 * k < n - 2048" "n - 2048 \<le> 256 * (k + 1)"
      using split [of 256 "n - 2048" 8] assms by auto
    then have k: "0 \<le> k" "k < 8" "2048 + 256 * k < n" "n \<le> 2048 + 256 * (k + 1)" by linarith+
    from class_size_round(3) [OF k] k(1,2) show ?thesis by blast
  qed
qed

lemma pool_index_class:
  assumes "0 \<le> k"
  shows "k < 32 \<Longrightarrow> pool_index (32 * (k + 1)) = k" "k < 8 \<Longrightarrow> pool_index (1024 + 128 * (k + 1)) = 32 + k"
    "k < 8 \<Longrightarrow> pool_index (2048 + 256 * (k + 1)) = 40 + k"
proof -
  have cancel: "d * (k + 1) div d = k + 1" if "d \<noteq> 0" for d :: int
    using that by (rule nonzero_mult_div_cancel_left)
  show "pool_index (32 * (k + 1)) = k" if "k < 32"
  proof -
    have c: "32 * (k + 1) \<le> 1024" using that by simp
    show ?thesis
      unfolding pool_index_def if_P [OF c] cancel [of 32, OF numeral_neq_zero] by simp
  qed
  show "pool_index (1024 + 128 * (k + 1)) = 32 + k" if "k < 8"
  proof -
    have c: "\<not> 1024 + 128 * (k + 1) \<le> 1024" "1024 + 128 * (k + 1) \<le> 2048" using that assms by simp_all
    show ?thesis
      unfolding pool_index_def if_not_P [OF c(1)] if_P [OF c(2)] add_diff_cancel_left'
      cancel [of 128, OF numeral_neq_zero] by simp
  qed
  show "pool_index (2048 + 256 * (k + 1)) = 40 + k" if "k < 8"
  proof -
    have c: "\<not> 2048 + 256 * (k + 1) \<le> 1024" "\<not> 2048 + 256 * (k + 1) \<le> 2048" using assms by simp_all
    show ?thesis
      unfolding pool_index_def if_not_P [OF c(1)] if_not_P [OF c(2)] add_diff_cancel_left'
      cancel [of 256, OF numeral_neq_zero] by simp
  qed
qed

lemma class_of_index_class:
  assumes "0 \<le> k"
  shows "k < 32 \<Longrightarrow> class_of_index (nat k) = 32 * (k + 1)" "k < 8 \<Longrightarrow> class_of_index (nat (32 + k)) = 1024 + 128 * (k + 1)"
    "k < 8 \<Longrightarrow> class_of_index (nat (40 + k)) = 2048 + 256 * (k + 1)"
  using assms by (simp_all add: class_of_index_def nat_less_iff)

lemma class_size_index:
  assumes "1 \<le> n" "n \<le> 4096"
  shows "0 \<le> pool_index (class_size n) \<and> pool_index (class_size n) < 48 \<and>
    class_of_index (nat (pool_index (class_size n))) = class_size n \<and> class_size (class_size n) = class_size n"
  using class_size_cases [OF assms]
proof (elim disjE exE conjE)
  fix k :: int assume k: "0 \<le> k" "k < 32" and n: "class_size n = 32 * (k + 1)"
  have "class_size (32 * (k + 1)) = 32 * (k + 1)" using k by (intro class_size_round(1)) simp_all
  then show ?thesis unfolding n pool_index_class(1) [OF k] class_of_index_class(1) [OF k] using k by simp
next
  fix k :: int assume k: "0 \<le> k" "k < 8" and n: "class_size n = 1024 + 128 * (k + 1)"
  have "class_size (1024 + 128 * (k + 1)) = 1024 + 128 * (k + 1)" using k by (intro class_size_round(2)) simp_all
  then show ?thesis unfolding n pool_index_class(2) [OF k] class_of_index_class(2) [OF k] using k by simp
next
  fix k :: int assume k: "0 \<le> k" "k < 8" and n: "class_size n = 2048 + 256 * (k + 1)"
  have "class_size (2048 + 256 * (k + 1)) = 2048 + 256 * (k + 1)" using k by (intro class_size_round(3)) simp_all
  then show ?thesis unfolding n pool_index_class(3) [OF k] class_of_index_class(3) [OF k] using k by simp
qed

lemma class_size_bounds:
  assumes "1 \<le> n" "n \<le> 4096"
  shows "n \<le> class_size n" "class_size n - n < (if n \<le> 1024 then 32 else if n \<le> 2048 then 128 else 256)"
    "32 \<le> class_size n" "class_size n \<le> 4096"
proof -
  note b = round_up_bounds [of 32 n] round_up_bounds [of 128 "n - 1024"] round_up_bounds [of 256 "n - 2048"]
  consider "n \<le> 32" | "32 < n" "n \<le> 1024" | "1024 < n" "n \<le> 2048" | "2048 < n" by linarith
  then have "n \<le> class_size n \<and> class_size n - n < (if n \<le> 1024 then 32 else if n \<le> 2048 then 128 else 256)"
  proof cases
    case 2
    then have "class_size n = (n + (32 - 1)) div 32 * 32" by (simp add: class_size_def)
    then show ?thesis using b(1,2) 2 by simp
  next
    case 3
    then have "class_size n = 1024 + (n - 1024 + (128 - 1)) div 128 * 128" by (simp add: class_size_def)
    then show ?thesis using b(3,4) 3 by simp
  next
    case 4
    then have "class_size n = 2048 + (n - 2048 + (256 - 1)) div 256 * 256" by (simp add: class_size_def)
    then show ?thesis using b(5,6) 4 by simp
  qed (use assms in \<open>simp add: class_size_def\<close>)
  then show "n \<le> class_size n" "class_size n - n < (if n \<le> 1024 then 32 else if n \<le> 2048 then 128 else 256)"
    by blast+
  have "32 \<le> class_size n \<and> class_size n \<le> 4096" 
    using class_size_cases [OF assms] by (elim disjE exE conjE; simp)
  then show "32 \<le> class_size n" "class_size n \<le> 4096" by blast+
qed

section \<open>Initialisation\<close>

lemma fill_table_spec:
  "0 \<le> idx \<Longrightarrow> idx \<le> sz + 1 \<Longrightarrow> sz < int (length table) \<Longrightarrow>
   \<exists>table'. fill_table sz p idx table = Ok (sz + 1, table') \<and> length table' = length table \<and>
     (\<forall>i < length table. table' ! i = (if idx \<le> int i \<and> int i \<le> sz then Some p else table ! i))"
proof (induction sz p idx table rule: fill_table.induct)
  case (1 sz p idx table)
  show ?case
  proof (cases "idx \<le> sz")
    case True
    define t1 where "t1 = patch table (nat idx) [Some p]"
    have w: "mem_write table idx [Some p] = Ok t1"
      using 1(2,4) True by (simp add: t1_def mem_write_patch)
    have len: "length t1 = length table" using 1(2,4) True by (simp add: t1_def)
    have nth: "t1 ! i = (if i = nat idx then Some p else table ! i)" if "i < length table" for i
      using that 1(2,4) True by (auto simp: t1_def nth_patch)
    obtain t2 where "fill_table sz p (idx + 1) t1 = Ok (sz + 1, t2)" "length t2 = length table"
      "\<forall>i < length table. t2 ! i = (if idx + 1 \<le> int i \<and> int i \<le> sz then Some p else t1 ! i)"
      using 1(1) [OF True w] 1(2,4) True len by auto
    with w nth 1(2) True show ?thesis
      by (subst fill_table.simps) (auto simp: nat_eq_iff2)
  next
    case False
    then show ?thesis using 1(2,3) by (subst fill_table.simps) auto
  qed
qed

text \<open>The table serves every size up to \<open>S\<close>.\<close>

definition table_ok :: "int32 \<Rightarrow> pool_allocator \<Rightarrow> bool" where
  "table_ok S pa \<longleftrightarrow> length (pa_poolTable pa) = 4097 \<and>
     (\<forall>i. 0 \<le> i \<and> i \<le> S \<longrightarrow> (\<exists>p pool. pa_poolTable pa ! nat i = Some p \<and> pa_pool pa p = Some pool \<and>
        mp_allocSize pool = class_size i))"

text \<open>Nothing has been allocated from the pools.\<close>

definition fresh_pools :: "pool_allocator \<Rightarrow> bool" where
  "fresh_pools pa \<longleftrightarrow> (\<forall>p pool. pa_pool pa p = Some pool \<longrightarrow> p \<in> set (pa_pools pa) \<and> pool = MemoryPool_new (mp_allocSize pool)) \<and>
     (\<forall>p \<in> set (pa_pools pa). p < pa_nextPool pa \<and> pa_pool pa p \<noteq> None) \<and> distinct (pa_pools pa)"

definition same_rest :: "pool_allocator \<Rightarrow> pool_allocator \<Rightarrow> bool" where
  "same_rest pa pa' \<longleftrightarrow> pa_initialized pa' = pa_initialized pa \<and> pa_cache pa' = pa_cache pa \<and> pa_heap pa' = pa_heap pa"

lemma make_one_pool:
  assumes "table_ok S pa" "fresh_pools pa" "-1 \<le> S" "S < sz" "sz \<le> 4096" "\<forall>i. S < i \<and> i \<le> sz \<longrightarrow> class_size i = sz"
    "pa1 = pa\<lparr>pa_pool := (pa_pool pa)(pa_nextPool pa \<mapsto> MemoryPool_new sz), pa_nextPool := Suc (pa_nextPool pa),
       pa_pools := pa_pools pa @ [pa_nextPool pa]\<rparr>"
  shows "\<exists>table. fill_table sz (pa_nextPool pa) (S + 1) (pa_poolTable pa) = Ok (sz + 1, table) \<and>
    table_ok sz (pa1\<lparr>pa_poolTable := table\<rparr>) \<and> fresh_pools (pa1\<lparr>pa_poolTable := table\<rparr>) \<and>
    same_rest pa (pa1\<lparr>pa_poolTable := table\<rparr>) \<and>
    length (pa_pools (pa1\<lparr>pa_poolTable := table\<rparr>)) = Suc (length (pa_pools pa))"
proof -
  have len: "length (pa_poolTable pa) = 4097" using assms(1) by (simp add: table_ok_def)
  obtain table where t: "fill_table sz (pa_nextPool pa) (S + 1) (pa_poolTable pa) = Ok (sz + 1, table)"
    "length table = 4097"
    "\<forall>i < 4097. table ! i = (if S + 1 \<le> int i \<and> int i \<le> sz then Some (pa_nextPool pa) else pa_poolTable pa ! i)"
    using fill_table_spec [of "S + 1" sz "pa_poolTable pa" "pa_nextPool pa"] assms(3-5) len by auto
  have new: "pa_nextPool pa \<notin> set (pa_pools pa)" "pa_pool pa (pa_nextPool pa) = None"
    using assms(2) unfolding fresh_pools_def by (auto, metis less_irrefl not_None_eq)
  have "table_ok sz (pa1\<lparr>pa_poolTable := table\<rparr>)"
    unfolding table_ok_def
  proof (intro conjI allI impI)
    fix i assume i: "0 \<le> i \<and> i \<le> sz"
    then have lt: "nat i < 4097" using assms(5) by linarith
    show "\<exists>p pool. pa_poolTable (pa1\<lparr>pa_poolTable := table\<rparr>) ! nat i = Some p \<and>
        pa_pool (pa1\<lparr>pa_poolTable := table\<rparr>) p = Some pool \<and> mp_allocSize pool = class_size i"
    proof (cases "S < i")
      case True
      then show ?thesis using i lt t(3) assms(6,7) by (simp add: MemoryPool_new_def)
    next
      case False
      then obtain p pool where "pa_poolTable pa ! nat i = Some p" "pa_pool pa p = Some pool" "mp_allocSize pool = class_size i"
        using assms(1) i by (auto simp: table_ok_def)
      moreover from this new(2) have "p \<noteq> pa_nextPool pa" by auto
      ultimately show ?thesis using i lt t(3) False assms(7) by auto
    qed
  qed (use t(2) in simp)
  moreover have "fresh_pools (pa1\<lparr>pa_poolTable := table\<rparr>)"
    using assms(2,7) new unfolding fresh_pools_def by (auto simp: MemoryPool_new_def less_Suc_eq)
  ultimately show ?thesis using t(1) assms(7) by (auto simp: same_rest_def)
qed

lemma make_pools_spec:
  assumes "table_ok S pa" "fresh_pools pa" "-1 \<le> S" "S < sz" "0 < step" "sz + int n * step \<le> 4096"
    "\<forall>i. S < i \<and> i \<le> sz \<longrightarrow> class_size i = sz"
    "\<forall>k < n. \<forall>i. sz + int k * step < i \<and> i \<le> sz + (int k + 1) * step \<longrightarrow> class_size i = sz + (int k + 1) * step"
  shows "\<exists>pa'. make_pools step (sz + int n * step) sz (S + 1, pa) = Ok (sz + int n * step + 1, pa') \<and>
    table_ok (sz + int n * step) pa' \<and> fresh_pools pa' \<and> same_rest pa pa' \<and>
    length (pa_pools pa') = length (pa_pools pa) + Suc n"
  using assms
proof (induction n arbitrary: S sz pa)
  case (0 S sz pa)
  define pa1 where "pa1 = pa\<lparr>pa_pool := (pa_pool pa)(pa_nextPool pa \<mapsto> MemoryPool_new sz), pa_nextPool := Suc (pa_nextPool pa),
       pa_pools := pa_pools pa @ [pa_nextPool pa]\<rparr>"
  from make_one_pool [OF 0(1-4) _ 0(7) pa1_def] 0(5,6) show ?case
    by (subst make_pools.simps) (auto simp: pa1_def make_pools.simps Let_def)
next
  case (Suc n S sz pa)
  define pa1 where "pa1 = pa\<lparr>pa_pool := (pa_pool pa)(pa_nextPool pa \<mapsto> MemoryPool_new sz), pa_nextPool := Suc (pa_nextPool pa),
       pa_pools := pa_pools pa @ [pa_nextPool pa]\<rparr>"
  have le: "sz \<le> sz + int (Suc n) * step" using Suc.prems(5) by simp
  then have "sz \<le> 4096" using Suc.prems(6) by linarith
  from make_one_pool [OF Suc.prems(1-4) this Suc.prems(7) pa1_def]
  obtain table where t: "fill_table sz (pa_nextPool pa) (S + 1) (pa_poolTable pa) = Ok (sz + 1, table)"
    "table_ok sz (pa1\<lparr>pa_poolTable := table\<rparr>)" "fresh_pools (pa1\<lparr>pa_poolTable := table\<rparr>)"
    "same_rest pa (pa1\<lparr>pa_poolTable := table\<rparr>)"
    "length (pa_pools (pa1\<lparr>pa_poolTable := table\<rparr>)) = Suc (length (pa_pools pa))" by blast
  have arith: "sz + step + int n * step = sz + int (Suc n) * step" by (simp add: algebra_simps)
  have first: "\<forall>i. sz < i \<and> i \<le> sz + step \<longrightarrow> class_size i = sz + step"
    using Suc.prems(8) [rule_format, of 0] by simp
  have later: "\<forall>k < n. \<forall>i. sz + step + int k * step < i \<and> i \<le> sz + step + (int k + 1) * step \<longrightarrow>
      class_size i = sz + step + (int k + 1) * step"
  proof (intro allI impI)
    fix k i assume "k < n" "sz + step + int k * step < i \<and> i \<le> sz + step + (int k + 1) * step"
    then show "class_size i = sz + step + (int k + 1) * step"
      using Suc.prems(8) [rule_format, of "Suc k" i] by (simp add: algebra_simps)
  qed
  have "\<exists>pa'. make_pools step (sz + step + int n * step) (sz + step) (sz + 1, pa1\<lparr>pa_poolTable := table\<rparr>) =
        Ok (sz + step + int n * step + 1, pa') \<and> table_ok (sz + step + int n * step) pa' \<and> fresh_pools pa' \<and>
      same_rest (pa1\<lparr>pa_poolTable := table\<rparr>) pa' \<and>
      length (pa_pools pa') = length (pa_pools (pa1\<lparr>pa_poolTable := table\<rparr>)) + Suc n"
    using Suc.prems(3-6) arith by (intro Suc.IH [OF t(2,3) _ _ _ _ first later]) simp_all
  then obtain pa' where pa': "make_pools step (sz + int (Suc n) * step) (sz + step) (sz + 1, pa1\<lparr>pa_poolTable := table\<rparr>) =
        Ok (sz + int (Suc n) * step + 1, pa')" "table_ok (sz + int (Suc n) * step) pa'" "fresh_pools pa'"
      "same_rest (pa1\<lparr>pa_poolTable := table\<rparr>) pa'"
      "length (pa_pools pa') = length (pa_pools pa) + Suc (Suc n)"
    unfolding arith using t(5) by auto
  have "make_pools step (sz + int (Suc n) * step) sz (S + 1, pa) = Ok (sz + int (Suc n) * step + 1, pa')"
    using pa'(1) t(1) le Suc.prems(5) by (subst make_pools.simps) (simp add: pa1_def Let_def)
  with pa' t(4) show ?case by (auto simp: same_rest_def)
qed

lemma PoolAllocator_Init_spec:
  "\<exists>pa. PoolAllocator_Init pa_start = Ok pa \<and> pa_initialized pa \<and> table_ok 4096 pa \<and> fresh_pools pa \<and>
     pa_cache pa = (\<lambda>_ _. []) \<and> pa_heap pa = heap_start \<and> length (pa_pools pa) = 48"
proof -
  have start: "table_ok (-1) pa_start" "fresh_pools pa_start"
    by (simp_all add: table_ok_def fresh_pools_def pa_start_def)
  have one: "class_size i = 32" if "i \<le> 32" for i using that by (simp add: class_size_def)
  have r1: "class_size i = 32 + (int k + 1) * 32" if "k < 31" "32 + int k * 32 < i \<and> i \<le> 32 + (int k + 1) * 32" for k i
    using class_size_round(1) [of "int k + 1" i] that by (simp add: algebra_simps)
  have r2: "class_size i = 1152 + (int k + 1) * 128" if "k < 7" "1152 + int k * 128 < i \<and> i \<le> 1152 + (int k + 1) * 128" for k i
    using class_size_round(2) [of "int k + 1" i] that by (simp add: algebra_simps)
  have r3: "class_size i = 2304 + (int k + 1) * 256" if "k < 7" "2304 + int k * 256 < i \<and> i \<le> 2304 + (int k + 1) * 256" for k i
    using class_size_round(3) [of "int k + 1" i] that by (simp add: algebra_simps)
  obtain pa1 where p1: "make_pools 32 1024 32 (0, pa_start) = Ok (1025, pa1)" "table_ok 1024 pa1" "fresh_pools pa1"
      "same_rest pa_start pa1" "length (pa_pools pa1) = 32"
    using make_pools_spec [OF start, of 32 32 31] one r1 by (auto simp: pa_start_def)
  obtain pa2 where p2: "make_pools 128 2048 1152 (1025, pa1) = Ok (2049, pa2)" "table_ok 2048 pa2" "fresh_pools pa2"
      "same_rest pa1 pa2" "length (pa_pools pa2) = 40"
    using make_pools_spec [OF p1(2,3), of 1152 128 7] class_size_round(2) [of 0] r2 p1(5) by auto
  obtain pa3 where p3: "make_pools 256 4096 2304 (2049, pa2) = Ok (4097, pa3)" "table_ok 4096 pa3" "fresh_pools pa3"
      "same_rest pa2 pa3" "length (pa_pools pa3) = 48"
    using make_pools_spec [OF p2(2,3), of 2304 256 7] class_size_round(3) [of 0] r3 p2(5) by auto
  have "table_ok 4096 (pa3\<lparr>pa_initialized := True\<rparr>)" "fresh_pools (pa3\<lparr>pa_initialized := True\<rparr>)"
    using p3(2,3) by (simp_all add: table_ok_def fresh_pools_def)
  moreover have "PoolAllocator_Init pa_start = Ok (pa3\<lparr>pa_initialized := True\<rparr>)"
    using p1(1) p2(1) p3(1) by (simp add: PoolAllocator_Init_def pa_start_def)
  ultimately show ?thesis
    using p1(4) p2(4) p3(4,5) by (auto simp: same_rest_def pa_start_def)
qed

section \<open>Where the blocks are\<close>

datatype place = InPool pool_ref | InCache nat nat | InUse

text \<open>A block is in one place, once.\<close>

definition placed :: "(place \<Rightarrow> block list) \<Rightarrow> bool" where
  "placed f \<longleftrightarrow> (\<forall>x. distinct (f x)) \<and> (\<forall>x y b. b \<in> set (f x) \<longrightarrow> b \<in> set (f y) \<longrightarrow> x = y)"

lemma placed_take:
  assumes "placed f" "b \<in> set (f x)"
  shows "placed (f(x := remove1 b (f x)))" "b \<notin> set ((f(x := remove1 b (f x))) y)"
  using assms set_remove1_subset [of b "f x"] unfolding placed_def
  by (auto simp: set_remove1_eq)

lemma placed_put:
  "placed f \<Longrightarrow> \<forall>y. b \<notin> set (f y) \<Longrightarrow> placed (f(x := b # f x))"
  unfolding placed_def by auto

lemma placed_shift:
  assumes "placed f" "f x = bs @ cs" "x \<noteq> y"
  shows "placed (f(x := cs, y := rev bs @ f y))"
proof -
  have d: "distinct (f z)" "b \<in> set (f z) \<Longrightarrow> b \<in> set (f z') \<Longrightarrow> z = z'" for z z' b
    using assms(1) unfolding placed_def by blast+
  have bs: "distinct (bs @ cs)" "b \<in> set bs \<Longrightarrow> b \<in> set (f x)" "b \<in> set cs \<Longrightarrow> b \<in> set (f x)" for b
    using d(1) [of x] assms(2) by auto
  have apart: "set bs \<inter> set (f y) = {}" using bs(2) d(2) assms(3) by blast
  have "distinct ((f(x := cs, y := rev bs @ f y)) z)" for z
    using bs(1) d(1) apart by auto
  moreover have "z = z'" if "b \<in> set ((f(x := cs, y := rev bs @ f y)) z)" "b \<in> set ((f(x := cs, y := rev bs @ f y)) z')"
    for z z' b
    using that bs d(2) [of b] by (auto split: if_splits)
  ultimately show ?thesis unfolding placed_def by blast
qed

definition pool_size :: "pool_allocator \<Rightarrow> pool_ref \<Rightarrow> int32" where
  "pool_size pa p = (case pa_pool pa p of None \<Rightarrow> 0 | Some pool \<Rightarrow> mp_allocSize pool)"

definition is_class :: "int32 \<Rightarrow> bool" where
  "is_class n \<longleftrightarrow> (\<exists>k. 1 \<le> k \<and> k \<le> 4096 \<and> n = class_size k)"

text \<open>\<open>held\<close>: the blocks the program has been given and has not released.\<close>

fun blocks_at :: "pool_allocator \<Rightarrow> block list \<Rightarrow> place \<Rightarrow> block list" where
  "blocks_at pa held (InPool p) = (case pa_pool pa p of None \<Rightarrow> [] | Some pool \<Rightarrow> mp_header pool)"
| "blocks_at pa held (InCache t i) = pa_cache pa t i"
| "blocks_at pa held InUse = held"

fun block_fits :: "pool_allocator \<Rightarrow> place \<Rightarrow> int32 \<Rightarrow> bool" where
  "block_fits pa (InPool p) n \<longleftrightarrow> n = pool_size pa p"
| "block_fits pa (InCache t i) n \<longleftrightarrow> n = class_of_index i"
| "block_fits pa InUse n \<longleftrightarrow> 0 < n \<and> in_int32 n \<and> (n \<le> 4096 \<longrightarrow> is_class n)"

definition blocks_ok :: "pool_allocator \<Rightarrow> block list \<Rightarrow> bool" where
  "blocks_ok pa held \<longleftrightarrow> (\<forall>x b. b \<in> set (blocks_at pa held x) \<longrightarrow> (\<exists>n. block_fits pa x n \<and> block_ok (pa_heap pa) n b))"

text \<open>The live pools are those of \<open>_pools\<close>.\<close>

definition pools_ok :: "pool_allocator \<Rightarrow> bool" where
  "pools_ok pa \<longleftrightarrow> distinct (pa_pools pa) \<and> (\<forall>p. pa_pool pa p \<noteq> None \<longleftrightarrow> p \<in> set (pa_pools pa))"

definition alloc_inv :: "pool_allocator \<Rightarrow> block list \<Rightarrow> bool" where
  "alloc_inv pa held \<longleftrightarrow> pa_initialized pa \<and> table_ok 4096 pa \<and> pools_ok pa \<and> heap_ok (pa_heap pa) \<and>
     (\<forall>t i. length (pa_cache pa t i) \<le> 48) \<and> placed (blocks_at pa held) \<and> blocks_ok pa held"

lemmas set_defs = set_cache_def set_heap_def set_pool_def

lemma set_simps [simp]:
  "pa_heap (set_cache t i bs pa) = pa_heap pa" "pa_heap (set_heap h pa) = h" "pa_heap (set_pool p pool pa) = pa_heap pa"
  "pa_pool (set_cache t i bs pa) = pa_pool pa" "pa_pool (set_heap h pa) = pa_pool pa"
  "pa_pool (set_pool p pool pa) = (pa_pool pa)(p \<mapsto> pool)"
  "pa_cache (set_cache t i bs pa) = (pa_cache pa)(t := (pa_cache pa t)(i := bs))"
  "pa_cache (set_heap h pa) = pa_cache pa" "pa_cache (set_pool p pool pa) = pa_cache pa"
  "pa_initialized (set_cache t i bs pa) = pa_initialized pa" "pa_initialized (set_heap h pa) = pa_initialized pa"
  "pa_initialized (set_pool p pool pa) = pa_initialized pa" "set_heap (pa_heap pa) pa = pa"
  "table_ok S (set_cache t i bs pa) = table_ok S pa" "table_ok S (set_heap h pa) = table_ok S pa"
  "pools_ok (set_cache t i bs pa) = pools_ok pa" "pools_ok (set_heap h pa) = pools_ok pa"
  "pool_size (set_cache t i bs pa) = pool_size pa" "pool_size (set_heap h pa) = pool_size pa"
  by (simp_all add: set_defs table_ok_def pools_ok_def pool_size_def fun_eq_iff)

lemma table_ok_set_pool:
  "table_ok S pa \<Longrightarrow> pa_pool pa p = Some pool \<Longrightarrow> mp_allocSize pool' = mp_allocSize pool \<Longrightarrow>
   table_ok S (set_pool p pool' pa)"
  unfolding table_ok_def set_pool_def by (simp, metis option.inject)

lemma pools_ok_set_pool: "pools_ok pa \<Longrightarrow> pa_pool pa p = Some pool \<Longrightarrow> pools_ok (set_pool p pool' pa)"
  by (auto simp: pools_ok_def set_pool_def)

lemma pool_size_set_pool:
  "pa_pool pa p = Some pool \<Longrightarrow> mp_allocSize pool' = mp_allocSize pool \<Longrightarrow> pool_size (set_pool p pool' pa) = pool_size pa"
  by (auto simp: pool_size_def fun_eq_iff)

lemma blocks_at_set:
  "blocks_at (set_cache t i bs pa) held = (blocks_at pa held)(InCache t i := bs)"
  "blocks_at (set_heap h pa) held = blocks_at pa held"
  "blocks_at (set_pool p pool pa) held = (blocks_at pa held)(InPool p := mp_header pool)"
  "blocks_at pa held' = (blocks_at pa held)(InUse := held')"
proof -
  show "blocks_at (set_cache t i bs pa) held = (blocks_at pa held)(InCache t i := bs)"
  proof
    fix x show "blocks_at (set_cache t i bs pa) held x = ((blocks_at pa held)(InCache t i := bs)) x" by (cases x) auto
  qed
  show "blocks_at (set_heap h pa) held = blocks_at pa held"
  proof
    fix x show "blocks_at (set_heap h pa) held x = blocks_at pa held x" by (cases x) auto
  qed
  show "blocks_at (set_pool p pool pa) held = (blocks_at pa held)(InPool p := mp_header pool)"
  proof
    fix x show "blocks_at (set_pool p pool pa) held x = ((blocks_at pa held)(InPool p := mp_header pool)) x" by (cases x) auto
  qed
  show "blocks_at pa held' = (blocks_at pa held)(InUse := held')"
  proof
    fix x show "blocks_at pa held' x = ((blocks_at pa held)(InUse := held')) x" by (cases x) auto
  qed
qed

lemma block_fits_size: "pool_size pa' = pool_size pa \<Longrightarrow> block_fits pa' x n = block_fits pa x n"
  by (cases x) simp_all

text \<open>The invariant after a change, from what has moved.\<close>

lemma alloc_invI:
  assumes inv: "alloc_inv pa held"
    and pa': "pa_initialized pa'" "table_ok 4096 pa' \<and> pools_ok pa'" "heap_ok (pa_heap pa')" "\<forall>t i. length (pa_cache pa' t i) \<le> 48"
      "placed (blocks_at pa' held')" "pool_size pa' = pool_size pa"
    and moved: "\<And>x b. b \<in> set (blocks_at pa' held' x) \<Longrightarrow>
      b \<in> set (blocks_at pa held x) \<and> hp_block (pa_heap pa') b = hp_block (pa_heap pa) b \<or>
      (\<exists>n. block_fits pa x n \<and> block_ok (pa_heap pa') n b)"
  shows "alloc_inv pa' held'"
proof -
  have "\<exists>n. block_fits pa' x n \<and> block_ok (pa_heap pa') n b" if "b \<in> set (blocks_at pa' held' x)" for x b
    using moved [OF that] inv block_fits_size [OF pa'(6)]
    unfolding alloc_inv_def blocks_ok_def block_ok_def by metis
  with pa' show ?thesis by (simp add: alloc_inv_def blocks_ok_def)
qed

lemma is_class_facts:
  assumes "is_class n"
  shows "32 \<le> n" "n \<le> 4096" "class_size n = n" "in_int32 n" "cache_index (pool_index n) = Ok (nat (pool_index n))"
    "class_of_index (nat (pool_index n)) = n"
proof -
  obtain k where k: "1 \<le> k" "k \<le> 4096" "n = class_size k" using assms by (auto simp: is_class_def)
  show "32 \<le> n" "n \<le> 4096" "class_size n = n" "cache_index (pool_index n) = Ok (nat (pool_index n))"
    "class_of_index (nat (pool_index n)) = n"
    using class_size_bounds [OF k(1,2)] class_size_index [OF k(1,2)] k(3) by (auto simp: cache_index_def)
  then show "in_int32 n" by (simp add: in_int32_def)
qed

lemma table_at_ok:
  assumes "table_ok 4096 pa" "1 \<le> n" "n \<le> 4096"
  shows "\<exists>p pool. table_at n pa = Ok p \<and> pool_at p pa = Ok pool \<and> pa_pool pa p = Some pool \<and>
    mp_allocSize pool = class_size n \<and> is_class (class_size n)"
proof -
  have "0 \<le> n \<and> n \<le> 4096" using assms(2,3) by simp
  then obtain p pool where p: "pa_poolTable pa ! nat n = Some p" "pa_pool pa p = Some pool" "mp_allocSize pool = class_size n"
    using assms(1) unfolding table_ok_def by blast
  have len: "length (pa_poolTable pa) = 4097" using assms(1) by (simp add: table_ok_def)
  have "table_at n pa = Ok p"
    using assms(2,3) len p(1) by (simp add: table_at_def mem_read_def hd_drop_conv_nth)
  moreover have "is_class (class_size n)" using assms(2,3) by (auto simp: is_class_def)
  ultimately show ?thesis using p by (simp add: pool_at_def)
qed

section \<open>Alloc and Release keep the invariant\<close>

lemma alloc_invD:
  assumes "alloc_inv pa held"
  shows "pa_initialized pa" "table_ok 4096 pa \<and> pools_ok pa" "heap_ok (pa_heap pa)" "length (pa_cache pa t i) \<le> 48"
    "placed (blocks_at pa held)"
    "b \<in> set (blocks_at pa held x) \<Longrightarrow> \<exists>n. block_fits pa x n \<and> block_ok (pa_heap pa) n b"
  using assms by (simp_all add: alloc_inv_def blocks_ok_def)

text \<open>A new block of the heap is in no place yet.\<close>

lemma fresh_block:
  assumes "alloc_inv pa held"
  shows "hp_next (pa_heap pa) \<notin> set (blocks_at pa held x)"
  using alloc_invD(3,6) [OF assms] block_ok_live [of "pa_heap pa"] by fastforce

lemma alloc_inv_malloc:
  assumes inv: "alloc_inv pa held" and pa': "pa_initialized pa'" "table_ok 4096 pa' \<and> pools_ok pa'" "pool_size pa' = pool_size pa"
      "pa_cache pa' = pa_cache pa" "blocks_at pa' (b # held) = (blocks_at pa held)(InUse := b # held)"
    and heap: "heap_ok (pa_heap pa')" "block_ok (pa_heap pa') n b" "b = hp_next (pa_heap pa)"
      "\<forall>c. c \<noteq> b \<longrightarrow> hp_block (pa_heap pa') c = hp_block (pa_heap pa) c" "block_fits pa InUse n"
  shows "alloc_inv pa' (b # held)"
proof (rule alloc_invI [OF inv pa'(1,2) heap(1) _ _ pa'(3)])
  show "placed (blocks_at pa' (b # held))"
    unfolding pa'(5) using placed_put [of "blocks_at pa held" b InUse] fresh_block [OF inv] alloc_invD(5) [OF inv] heap(3)
    by simp
next
  fix x c assume "c \<in> set (blocks_at pa' (b # held) x)"
  then show "c \<in> set (blocks_at pa held x) \<and> hp_block (pa_heap pa') c = hp_block (pa_heap pa) c \<or>
      (\<exists>n. block_fits pa x n \<and> block_ok (pa_heap pa') n c)"
    using fresh_block [OF inv] heap unfolding pa'(5) by (cases "x = InUse"; cases "c = b") auto
qed (use pa'(4) alloc_invD(4) [OF inv] in simp)

text \<open>A block taken from the front of another place.\<close>

lemma alloc_inv_reuse:
  assumes inv: "alloc_inv pa held" and b: "blocks_at pa held y = b # bs" "y \<noteq> InUse"
      "block_fits pa y n" "block_fits pa InUse n"
    and pa': "pa_initialized pa'" "table_ok 4096 pa' \<and> pools_ok pa'" "pool_size pa' = pool_size pa" "pa_heap pa' = pa_heap pa"
      "\<forall>t i. length (pa_cache pa' t i) \<le> 48" "blocks_at pa' (b # held) = (blocks_at pa held)(y := bs, InUse := b # held)"
  shows "alloc_inv pa' (b # held)" "block_ok (pa_heap pa) n b" "b \<notin> set held"
proof -
  note pl = alloc_invD(5) [OF inv]
  have uniq: "n' = n" if "block_fits pa y n'" for n' using that b(2,3) by (cases y) auto
  then show ok: "block_ok (pa_heap pa) n b"
    using alloc_invD(6) [OF inv, of b y] b(1) by auto
  show "b \<notin> set held" using pl b(1,2) unfolding placed_def by (metis blocks_at.simps(3) list.set_intros(1))
  have "placed ((blocks_at pa held)(y := bs))" "\<forall>x. b \<notin> set (((blocks_at pa held)(y := bs)) x)"
    using placed_take [OF pl, of b y] b(1) by auto
  from placed_put [OF this, of InUse] have pl': "placed (blocks_at pa' (b # held))"
    unfolding pa'(6) using b(2) by (simp add: fun_upd_other del: fun_upd_apply)
  have "heap_ok (pa_heap pa')" using pa'(4) alloc_invD(3) [OF inv] by simp
  then show "alloc_inv pa' (b # held)"
  proof (rule alloc_invI [OF inv pa'(1,2) _ pa'(5) pl' pa'(3)])
    fix x c assume "c \<in> set (blocks_at pa' (b # held) x)"
    then show "c \<in> set (blocks_at pa held x) \<and> hp_block (pa_heap pa') c = hp_block (pa_heap pa) c \<or>
        (\<exists>n. block_fits pa x n \<and> block_ok (pa_heap pa') n c)"
      using ok b pa'(4) unfolding pa'(6) by (auto split: if_splits)
  qed
qed

lemma is_class_InUse: "is_class n \<Longrightarrow> block_fits pa InUse n"
  using is_class_facts [of n] by simp

lemma MemoryPool_Pop_fresh:
  assumes "heap_ok h" "in_int32 (sizeof_MemoryHeader + mp_allocSize pool)" "mp_header pool = []"
  shows "\<exists>h'. MemoryPool_Pop False h pool = Ok (hp_next h, h',
      pool\<lparr>mp_allocCount := mp_allocCount pool + 1, mp_useCount := mp_useCount pool + 1\<rparr>) \<and>
    heap_ok h' \<and> block_ok h' (mp_allocSize pool) (hp_next h) \<and> (\<forall>b. b \<noteq> hp_next h \<longrightarrow> hp_block h' b = hp_block h b)"
  using malloc_attach [OF assms(1,2)] assms(3)
  by (auto simp: MemoryPool_Pop_def aligned_malloc_def Let_def res_iff)

text \<open>
  An initialised allocator: what \<open>Alloc\<close> returns is not in use, has the bytes asked for, and the
  invariant holds with it in use. If the system has memory, it returns.
\<close>

lemma Alloc_inv:
  assumes inv: "alloc_inv pa held" and sz: "0 < sz" "sz \<le> 2147483615"
  shows "PoolAllocator_Alloc oom t sz pa = Crash AssertCrash \<and> oom \<or>
    (\<exists>b pa' n. PoolAllocator_Alloc oom t sz pa = Ok (Some b, pa') \<and> alloc_inv pa' (b # held) \<and> b \<notin> set held \<and>
       sz \<le> n \<and> block_ok (pa_heap pa') n b)"
proof (cases "sz > 4096")
  case large: True
  show ?thesis
  proof (cases oom)
    case True
    then show ?thesis
      using large sz alloc_invD(1) [OF inv] by (simp add: PoolAllocator_Alloc_def MAX_ALLOC_SIZE_def aligned_malloc_def)
  next
    case False
    let ?b = "hp_next (pa_heap pa)"
    have rng: "in_int32 (sizeof_MemoryHeader + sz)" "in_int32 sz"
      using sz by (simp_all add: in_int32_def sizeof_MemoryHeader_def)
    obtain h where h: "res_bind (Ok (aligned_malloc False (to_int32 (sizeof_MemoryHeader + sz)) (pa_heap pa)))
        (\<lambda>(b, h1). AttachHeader (the b) sz h1) = Ok (?b, h)" "heap_ok h" "block_ok h sz ?b"
      "\<forall>c. c \<noteq> ?b \<longrightarrow> hp_block h c = hp_block (pa_heap pa) c"
      using malloc_attach [OF alloc_invD(3) [OF inv] rng(1)] by blast
    have "PoolAllocator_Alloc oom t sz pa = Ok (Some ?b, set_heap h pa)"
      using False large sz alloc_invD(1) [OF inv] h(1)
      by (auto simp: PoolAllocator_Alloc_def MAX_ALLOC_SIZE_def aligned_malloc_def Let_def)
    moreover have "alloc_inv (set_heap h pa) (?b # held)"
      using alloc_invD(1,2) [OF inv] h sz large rng(2)
      by (intro alloc_inv_malloc [OF inv, where n = sz]) (simp_all add: blocks_at_set(2) blocks_at_set(4) [of _ "?b # held" held])
    ultimately show ?thesis using h(3) fresh_block [OF inv, of InUse] by auto
  qed
next
  case False
  then obtain p pool where p: "table_at sz pa = Ok p" "pool_at p pa = Ok pool" "pa_pool pa p = Some pool"
      "mp_allocSize pool = class_size sz" "is_class (class_size sz)"
    using table_at_ok [OF conjunct1 [OF alloc_invD(2) [OF inv]], of sz] sz by auto
  let ?n = "class_size sz" let ?i = "nat (pool_index (class_size sz))"
  note n = is_class_facts [OF p(5)]
  have fits: "sz \<le> ?n" using class_size_bounds(1) [of sz] sz False by simp
  show ?thesis
  proof (cases "pa_cache pa t ?i")
    case (Cons b bs)
    let ?pa = "set_cache t ?i bs pa"
    note len = alloc_invD(4) [OF inv]
    have "length bs \<le> 48" using len [of t ?i] Cons by simp
    then have ru: "alloc_inv ?pa (b # held)" "block_ok (pa_heap pa) ?n b" "b \<notin> set held"
      using alloc_inv_reuse [OF inv, of "InCache t ?i" b bs ?n ?pa] Cons n(6) p(5) is_class_InUse alloc_invD(1,2) [OF inv] len
      by (simp_all add: blocks_at_set(1) blocks_at_set(4) [of _ "b # held" held])
    have "PoolAllocator_Alloc oom t sz pa = Ok (Some b, ?pa)"
      using False sz alloc_invD(1) [OF inv] p(1,2,4) n(5) Cons AttachHeader_ok [OF ru(2)]
      by (simp add: PoolAllocator_Alloc_def MAX_ALLOC_SIZE_def Let_def) (simp add: set_defs)
    with ru fits show ?thesis by auto
  next
    case Nil
    show ?thesis
    proof (cases "mp_header pool")
      case (Cons b bs)
      let ?pool = "pool\<lparr>mp_header := bs, mp_useCount := mp_useCount pool + 1\<rparr>"
      let ?pa = "set_pool p ?pool pa"
      have ru: "alloc_inv ?pa (b # held)" "block_ok (pa_heap pa) ?n b" "b \<notin> set held"
        using alloc_inv_reuse [OF inv, of "InPool p" b bs ?n ?pa] Cons p(3-5) is_class_InUse alloc_invD(1,2,4) [OF inv]
          table_ok_set_pool [OF conjunct1 [OF alloc_invD(2) [OF inv]] p(3), of ?pool] pools_ok_set_pool [OF conjunct2 [OF alloc_invD(2) [OF inv]] p(3)] pool_size_set_pool [OF p(3), of ?pool]
        by (simp_all add: blocks_at_set(3) blocks_at_set(4) [of _ "b # held" held]) (simp_all add: pool_size_def)
      have "PoolAllocator_Alloc oom t sz pa = Ok (Some b, ?pa)"
        using False sz alloc_invD(1) [OF inv] p(1,2,4) n(5) Nil Cons AttachHeader_ok [OF ru(2)]
        by (simp add: PoolAllocator_Alloc_def MAX_ALLOC_SIZE_def MemoryPool_Pop_def Let_def) (simp add: set_defs)
      with ru fits show ?thesis by auto
    next
      case empty: Nil
      show ?thesis
      proof (cases oom)
        case True
        then show ?thesis
          using False sz alloc_invD(1) [OF inv] p(1,2,4) n(5) Nil empty
          by (simp add: PoolAllocator_Alloc_def MAX_ALLOC_SIZE_def MemoryPool_Pop_def aligned_malloc_def Let_def)
      next
        case mem: False
        let ?b = "hp_next (pa_heap pa)"
        let ?pool = "pool\<lparr>mp_allocCount := mp_allocCount pool + 1, mp_useCount := mp_useCount pool + 1\<rparr>"
        have "in_int32 (sizeof_MemoryHeader + mp_allocSize pool)"
          using n(1,2) p(4) by (simp add: in_int32_def sizeof_MemoryHeader_def)
        from MemoryPool_Pop_fresh [OF alloc_invD(3) [OF inv] this empty]
        obtain h where h: "MemoryPool_Pop False (pa_heap pa) pool = Ok (?b, h, ?pool)" "heap_ok h" "block_ok h ?n ?b"
            "\<forall>c. c \<noteq> ?b \<longrightarrow> hp_block h c = hp_block (pa_heap pa) c"
          using p(4) by auto
        let ?pa = "set_pool p ?pool (set_heap h pa)"
        have "PoolAllocator_Alloc oom t sz pa = Ok (Some ?b, ?pa)"
          using False mem sz alloc_invD(1) [OF inv] p(1,2,4) n(5) Nil h(1) AttachHeader_ok [OF h(3)]
          by (simp add: PoolAllocator_Alloc_def MAX_ALLOC_SIZE_def Let_def) (simp add: set_defs)
        moreover have "alloc_inv ?pa (?b # held)"
          using alloc_invD(1,2) [OF inv] h p(3) empty is_class_InUse [OF p(5), of pa]
            table_ok_set_pool [of 4096 "set_heap h pa" p pool ?pool] pools_ok_set_pool [of "set_heap h pa" p pool ?pool] pool_size_set_pool [of "set_heap h pa" p pool ?pool]
          by (intro alloc_inv_malloc [OF inv, where n = ?n])
            (simp_all add: blocks_at_set(2,3) blocks_at_set(4) [of _ "?b # held" held] fun_upd_idem)
        ultimately show ?thesis using h(3) fits fresh_block [OF inv, of InUse] by auto
      qed
    qed
  qed
qed

lemma flush_loop_ok:
  "n \<le> length l \<Longrightarrow> \<forall>b \<in> set l. block_ok h m b \<Longrightarrow>
   flush_loop n h (l, pool) = Ok (drop n l, pool\<lparr>mp_header := rev (take n l) @ mp_header pool,
     mp_useCount := mp_useCount pool - int n\<rparr>)"
proof (induction n arbitrary: l pool)
  case (Suc n)
  then obtain b bs where l: "l = b # bs" by (cases l) auto
  have "MemoryPool_Push (Some b) h pool =
      Ok (pool\<lparr>mp_useCount := mp_useCount pool - 1, mp_header := b # mp_header pool\<rparr>)"
    using Suc.prems(2) l by (intro MemoryPool_Push_ok [of h m]) simp
  then show ?case using Suc.IH [of bs] Suc.prems l by simp
qed simp

text \<open>Releasing a block that is in use always returns.\<close>

lemma Release_inv:
  assumes inv: "alloc_inv pa held" and b: "b \<in> set held"
  shows "\<exists>pa'. PoolAllocator_Release t (Some b) pa = Ok pa' \<and> alloc_inv pa' (remove1 b held)"
proof -
  let ?f = "blocks_at pa held" let ?f1 = "?f(InUse := remove1 b held)"
  note init = alloc_invD(1,2,3) [OF inv]
  obtain n where n: "block_fits pa InUse n" "block_ok (pa_heap pa) n b"
    using alloc_invD(6) [OF inv, of b InUse] b by auto
  have head: "read_header (pa_heap pa) b = Ok (MemoryHeader_new (word_of_int n))" using n(2) by (rule read_header_ok)
  have sint: "sint (word_of_int n :: uint32) = n" using n(1) by (simp add: sint_int32)
  have take: "placed ?f1" "b \<notin> set (?f1 x)" for x
    using placed_take [OF alloc_invD(5) [OF inv], of b InUse] b by simp_all
  have f1_sub: "set (?f1 x) \<subseteq> set (?f x)" for x by (cases "x = InUse") (auto dest: set_remove1_subset [THEN subsetD])
  show ?thesis
  proof (cases "n > 4096")
    case True
    let ?h = "(pa_heap pa)\<lparr>hp_block := (hp_block (pa_heap pa))(b := None)\<rparr>"
    have "PoolAllocator_Release t (Some b) pa = Ok (set_heap ?h pa)"
      using head sint True n(2) by (simp add: PoolAllocator_Release_def DetachHeader_def MemoryHeader_new_def
          MAX_ALLOC_SIZE_def aligned_free_def block_ok_def Let_def)
    moreover have "alloc_inv (set_heap ?h pa) (remove1 b held)"
    proof (rule alloc_invI [OF inv])
      fix x c assume "c \<in> set (blocks_at (set_heap ?h pa) (remove1 b held) x)"
      then have c: "c \<in> set (?f1 x)" by (simp add: blocks_at_set(2) blocks_at_set(4) [of _ "remove1 b held" held])
      with take(2) have "c \<noteq> b" by blast
      then show "c \<in> set (?f x) \<and> hp_block (pa_heap (set_heap ?h pa)) c = hp_block (pa_heap pa) c \<or>
          (\<exists>n. block_fits pa x n \<and> block_ok (pa_heap (set_heap ?h pa)) n c)"
        using c f1_sub by auto
    qed (use init alloc_invD(4) [OF inv] take(1) in
        \<open>simp_all add: blocks_at_set(2) blocks_at_set(4) [of _ "remove1 b held" held] heap_ok_def\<close>)
    ultimately show ?thesis by blast
  next
    case False
    then have cls: "is_class n" using n(1) by simp
    note c = is_class_facts [OF cls]
    let ?i = "nat (pool_index n)"
    obtain p pool where p: "table_at n pa = Ok p" "pool_at p pa = Ok pool" "pa_pool pa p = Some pool" "mp_allocSize pool = n"
      using table_at_ok [OF conjunct1 [OF init(2)], of n] c(1-3) by auto
    let ?l = "pa_cache pa t ?i"
    have fits: "block_fits pa (InCache t ?i) n" "block_fits pa (InPool p) n"
      using c(6) p(3,4) by (simp_all add: pool_size_def)
    have l_ok: "\<forall>c \<in> set ?l. block_ok (pa_heap pa) n c"
      using alloc_invD(6) [OF inv, of _ "InCache t ?i"] c(6) by auto
    show ?thesis
    proof (cases "length ?l < 48")
      case True
      let ?pa = "set_cache t ?i (b # ?l) pa"
      have f': "blocks_at ?pa (remove1 b held) = ?f1(InCache t ?i := b # ?f1 (InCache t ?i))"
        by (auto simp: blocks_at_set(1) blocks_at_set(4) [of _ "remove1 b held" held] fun_eq_iff)
      have "PoolAllocator_Release t (Some b) pa = Ok ?pa"
        using head sint c(5) p(1) True False
        by (simp add: PoolAllocator_Release_def DetachHeader_def MemoryHeader_new_def MAX_ALLOC_SIZE_def
            MAX_LOCAL_CACHE_def Let_def)
      moreover have "alloc_inv ?pa (remove1 b held)"
      proof (rule alloc_invI [OF inv])
        show "placed (blocks_at ?pa (remove1 b held))" unfolding f' using take by (intro placed_put) auto
        fix x d assume "d \<in> set (blocks_at ?pa (remove1 b held) x)"
        then have "d \<in> set (?f1 x) \<or> d = b \<and> x = InCache t ?i" unfolding f' by (auto split: if_splits)
        then show "d \<in> set (?f x) \<and> hp_block (pa_heap ?pa) d = hp_block (pa_heap pa) d \<or>
            (\<exists>n. block_fits pa x n \<and> block_ok (pa_heap ?pa) n d)"
          using f1_sub n(2) fits(1) by auto
      qed (use init alloc_invD(4) [OF inv] True in simp_all)
      ultimately show ?thesis by blast
    next
      case full: False
      then have len: "length ?l = 48" using alloc_invD(4) [OF inv, of t ?i] by simp
      let ?pool = "pool\<lparr>mp_header := rev (take 16 ?l) @ mp_header pool, mp_useCount := mp_useCount pool - 16\<rparr>"
      let ?pa = "set_cache t ?i (b # drop 16 ?l) (set_pool p ?pool pa)"
      let ?f2 = "?f1(InCache t ?i := drop 16 ?l, InPool p := rev (take 16 ?l) @ ?f1 (InPool p))"
      have "flush_loop BATCH_SIZE (pa_heap pa) (?l, pool) = Ok (drop 16 ?l, ?pool)"
        using flush_loop_ok [of 16 ?l, OF _ l_ok] len by (simp add: BATCH_SIZE_def)
      then have "PoolAllocator_Release t (Some b) pa = Ok ?pa"
        using head sint c(5) p(1,2) len False
        by (simp add: PoolAllocator_Release_def DetachHeader_def MemoryHeader_new_def MAX_ALLOC_SIZE_def
            MAX_LOCAL_CACHE_def Let_def)
      moreover have "alloc_inv ?pa (remove1 b held)"
      proof (rule alloc_invI [OF inv])
        have f': "blocks_at ?pa (remove1 b held) = ?f2(InCache t ?i := b # ?f2 (InCache t ?i))"
          using p(3) by (auto simp: blocks_at_set(1,3) blocks_at_set(4) [of _ "remove1 b held" held] fun_eq_iff)
        have split: "?f1 (InCache t ?i) = take 16 ?l @ drop 16 ?l" by simp
        have l_f1: "set ?l \<subseteq> set (?f1 (InCache t ?i))" by simp
        have sub2: "set (?f2 x) \<subseteq> set (?f1 x) \<or> x = InPool p \<and> set (?f2 x) \<subseteq> set (?f1 x) \<union> set ?l" for x
          by (auto dest: in_set_takeD in_set_dropD)
        have "placed ?f2" by (rule placed_shift [OF take(1) split]) simp
        moreover have "\<forall>x. b \<notin> set (?f2 x)" using sub2 take(2) l_f1 by blast
        ultimately show "placed (blocks_at ?pa (remove1 b held))" unfolding f' by (rule placed_put)
        fix x d assume "d \<in> set (blocks_at ?pa (remove1 b held) x)"
        then have "d \<in> set (?f2 x) \<or> d = b \<and> x = InCache t ?i" unfolding f' by (auto split: if_splits)
        then have "d \<in> set (?f x) \<or> x = InPool p \<and> d \<in> set ?l \<or> d = b \<and> x = InCache t ?i"
          using sub2 [of x] f1_sub [of x] by blast
        then show "d \<in> set (?f x) \<and> hp_block (pa_heap ?pa) d = hp_block (pa_heap pa) d \<or>
            (\<exists>n. block_fits pa x n \<and> block_ok (pa_heap ?pa) n d)"
          using n(2) fits l_ok by auto
      qed (use init alloc_invD(4) [OF inv] len table_ok_set_pool [OF conjunct1 [OF init(2)] p(3), of ?pool] pools_ok_set_pool [OF conjunct2 [OF init(2)] p(3)]
            pool_size_set_pool [OF p(3), of ?pool] in simp_all)
      ultimately show ?thesis by blast
    qed
  qed
qed

section \<open>Runs\<close>

text \<open>Calls of any threads, in the order in which they take effect, with the blocks in use.\<close>

inductive alloc_step :: "pool_allocator \<times> block list \<Rightarrow> pool_allocator \<times> block list \<Rightarrow> bool" where
  init: "PoolAllocator_Init pa = Ok pa' \<Longrightarrow> alloc_step (pa, held) (pa', held)"
| alloc: "PoolAllocator_Alloc oom t sz pa = Ok (x, pa') \<Longrightarrow> sz \<le> 2147483615 \<Longrightarrow>
    alloc_step (pa, held) (pa', case x of None \<Rightarrow> held | Some b \<Rightarrow> b # held)"
| release: "b \<in> set held \<Longrightarrow> PoolAllocator_Release t (Some b) pa = Ok pa' \<Longrightarrow>
    alloc_step (pa, held) (pa', remove1 b held)"

abbreviation alloc_reach :: "pool_allocator \<Rightarrow> block list \<Rightarrow> bool" where
  "alloc_reach pa held \<equiv> alloc_step\<^sup>*\<^sup>* (pa_start, []) (pa, held)"

inductive_cases alloc_stepE: "alloc_step (pa, held) y"

lemma fresh_pools_facts:
  assumes "fresh_pools pa" "pa_cache pa = (\<lambda>_ _. [])"
  shows "blocks_at pa [] x = []" "pools_ok pa"
proof -
  show "blocks_at pa [] x = []"
    using assms by (cases x) (auto simp: fresh_pools_def MemoryPool_new_def split: option.split,
      metis memory_pool.ext_inject memory_pool.surjective)
  show "pools_ok pa" using assms(1) by (auto simp: pools_ok_def fresh_pools_def)
qed

lemma alloc_inv_Init:
  assumes "PoolAllocator_Init pa_start = Ok pa"
  shows "alloc_inv pa []"
proof -
  obtain pa' where p: "PoolAllocator_Init pa_start = Ok pa'" "pa_initialized pa'" "table_ok 4096 pa'" "fresh_pools pa'"
     "pa_cache pa' = (\<lambda>_ _. [])" "pa_heap pa' = heap_start"
    using PoolAllocator_Init_spec by blast
  note fresh_pools_facts [OF p(4,5)]
  with p have "alloc_inv pa' []" by (simp add: alloc_inv_def placed_def blocks_ok_def)
  with p(1) assms show ?thesis by simp
qed

lemma start_or_inv:
  assumes "pa = pa_start \<and> held = [] \<or> alloc_inv pa held"
  obtains pa0 where "alloc_inv pa0 held" "PoolAllocator_Init pa = Ok pa0"
    "PoolAllocator_Alloc oom t sz pa = PoolAllocator_Alloc oom t sz pa0"
proof (cases "alloc_inv pa held")
  case True
  then show ?thesis using that [of pa] alloc_invD(1) [OF True] by (simp add: PoolAllocator_Init_def)
next
  case False
  with assms have st: "pa = pa_start" "held = []" by auto
  obtain pa0 where p: "PoolAllocator_Init pa_start = Ok pa0" "pa_initialized pa0" using PoolAllocator_Init_spec by blast
  have "\<not> pa_initialized pa_start" by (simp add: pa_start_def)
  with p have "PoolAllocator_Alloc oom t sz pa_start = PoolAllocator_Alloc oom t sz pa0"
    by (simp add: PoolAllocator_Alloc_def)
  with that [of pa0] alloc_inv_Init [OF p(1)] p(1) st show ?thesis by simp
qed

lemma Alloc_nothing: "pa_initialized pa \<Longrightarrow> sz \<le> 0 \<Longrightarrow> PoolAllocator_Alloc oom t sz pa = Ok (None, pa)"
  by (simp add: PoolAllocator_Alloc_def)

lemma alloc_reach_inv:
  assumes "alloc_reach pa held"
  shows "pa = pa_start \<and> held = [] \<or> alloc_inv pa held"
  using assms
proof (induction "(pa, held)" arbitrary: pa held rule: rtranclp_induct)
  case (step y)
  obtain pa1 held1 where y: "y = (pa1, held1)" by fastforce
  have inv: "pa1 = pa_start \<and> held1 = [] \<or> alloc_inv pa1 held1" using step(3) y by simp
  from step(2) [unfolded y] show ?case
  proof (cases rule: alloc_step.cases)
    case init
    then show ?thesis using start_or_inv [OF inv] by (metis Pair_inject sum.inject(2))
  next
    case (alloc oom t sz x)
    obtain pa0 where pa0: "alloc_inv pa0 held1" "PoolAllocator_Alloc oom t sz pa1 = PoolAllocator_Alloc oom t sz pa0"
      using start_or_inv [OF inv, of oom t sz] by metis
    show ?thesis
    proof (cases "0 < sz")
      case True
      then show ?thesis using Alloc_inv [OF pa0(1), of sz oom t] alloc pa0(2) by auto
    next
      case False
      then show ?thesis using Alloc_nothing [OF alloc_invD(1) [OF pa0(1)], of sz] alloc pa0 by auto
    qed
  next
    case (release b t)
    then have "alloc_inv pa1 held1" using inv by auto
    then show ?thesis using Release_inv [of pa1 held1 b t] release by auto
  qed
qed simp

section \<open>Properties\<close>

text \<open>
  C30: The size classes. After \<open>Init\<close> every request of 1 to 4096 bytes is served by one of 48 pools whose
  blocks are large enough and waste less than 32, 128 or 256 bytes, and the index of its cache is
  within the array of caches; \<open>Init\<close> stays within the table.
\<close>

theorem pool_size_classes:
  assumes "1 \<le> n" "n \<le> 4096"
  shows "\<exists>pa p pool i. PoolAllocator_Init pa_start = Ok pa \<and> length (pa_pools pa) = 48 \<and> table_at n pa = Ok p \<and>
    pool_at p pa = Ok pool \<and> n \<le> mp_allocSize pool \<and>
    mp_allocSize pool < n + (if n \<le> 1024 then 32 else if n \<le> 2048 then 128 else 256) \<and>
    cache_index (pool_index (mp_allocSize pool)) = Ok i \<and> i < 48"
proof -
  obtain pa where pa: "PoolAllocator_Init pa_start = Ok pa" "length (pa_pools pa) = 48" "table_ok 4096 pa"
    using PoolAllocator_Init_spec by blast
  obtain p pool where p: "table_at n pa = Ok p" "pool_at p pa = Ok pool" "mp_allocSize pool = class_size n"
      "is_class (class_size n)"
    using table_at_ok [OF pa(3) assms] by blast
  have "nat (pool_index (class_size n)) < 48" using class_size_index [OF assms] by linarith
  moreover have "mp_allocSize pool < n + (if n \<le> 1024 then 32 else if n \<le> 2048 then 128 else 256)"
    using class_size_bounds(2) [OF assms] p(3) by linarith
  ultimately show ?thesis
    using pa p class_size_bounds(1) [OF assms] is_class_facts(5) [OF p(4)] by auto
qed

theorem pool_size_classes_witness:
  "\<exists>pa p pool. PoolAllocator_Init pa_start = Ok pa \<and> table_at 100 pa = Ok p \<and> pool_at p pa = Ok pool \<and>
     100 \<le> mp_allocSize pool \<and> mp_allocSize pool < 132"
  using pool_size_classes [of 100] by auto

lemma alloc_reach_facts:
  assumes "alloc_reach pa held"
  shows "distinct held \<and> (\<forall>b \<in> set held. \<exists>bk. hp_block (pa_heap pa) b = Some bk) \<and>
    (\<forall>b \<in> set held. \<forall>t. returns (PoolAllocator_Release t (Some b) pa)) \<and>
    (\<forall>t sz. 0 < sz \<and> sz \<le> 2147483615 \<longrightarrow> (\<exists>b pa' bk. PoolAllocator_Alloc False t sz pa = Ok (Some b, pa') \<and>
       b \<notin> set held \<and> hp_block (pa_heap pa') b = Some bk \<and> sz \<le> bk_size bk)) \<and>
    (\<forall>t i. length (pa_cache pa t i) \<le> 48)"
proof -
  note inv = alloc_reach_inv [OF assms]
  have rel: "returns (PoolAllocator_Release t (Some b) pa)" if "b \<in> set held" for b t
    using inv that Release_inv [of pa held b t] by (auto simp: returns_iff)
  have live: "distinct held \<and> (\<forall>b \<in> set held. \<exists>bk. hp_block (pa_heap pa) b = Some bk) \<and>
      (\<forall>t i. length (pa_cache pa t i) \<le> 48)"
  proof (cases "alloc_inv pa held")
    case True
    then have "distinct (blocks_at pa held InUse)" using alloc_invD(5) unfolding placed_def by blast
    then show ?thesis 
      using alloc_invD(4) [OF True] alloc_invD(6) [OF True, of _ InUse]
      by (simp add: block_ok_def) blast
  qed (use inv in \<open>simp add: pa_start_def\<close>)
  have "\<exists>b pa' bk. PoolAllocator_Alloc False t sz pa = Ok (Some b, pa') \<and> b \<notin> set held \<and>
      hp_block (pa_heap pa') b = Some bk \<and> sz \<le> bk_size bk" if "0 < sz \<and> sz \<le> 2147483615" for t sz
  proof -
    obtain pa0 where "alloc_inv pa0 held" "PoolAllocator_Alloc False t sz pa = PoolAllocator_Alloc False t sz pa0"
      using start_or_inv [OF inv, of False t sz] by metis
    then show ?thesis using Alloc_inv [of pa0 held sz False t] that by (auto simp: block_ok_def)
  qed
  with live rel show ?thesis by blast
qed

text \<open>
  C19: The allocator hands out every block once. After any calls of \<open>Alloc\<close> and \<open>Release\<close> by any threads,
  where only blocks in use are released: no block is in use twice and all are live; releasing any of
  them, on any thread, neither asserts nor touches freed memory; while the system has memory,
  allocating returns a live block that is not in use and has the bytes asked for; and the
  caches never exceed 48 blocks.
\<close>

theorem pool_allocator_exclusive:
  assumes "alloc_reach pa held"
  shows "distinct held \<and> (\<forall>b \<in> set held. \<exists>bk. hp_block (pa_heap pa) b = Some bk) \<and>
    (\<forall>b \<in> set held. \<forall>t. returns (PoolAllocator_Release t (Some b) pa)) \<and>
    (\<forall>t sz. 0 < sz \<and> sz \<le> 2147483615 \<longrightarrow> (\<exists>b pa' bk. PoolAllocator_Alloc False t sz pa = Ok (Some b, pa') \<and>
       b \<notin> set held \<and> hp_block (pa_heap pa') b = Some bk \<and> sz \<le> bk_size bk)) \<and>
    (\<forall>t i. length (pa_cache pa t i) \<le> 48)"
  by (rule alloc_reach_facts [OF assms])

theorem pool_allocator_exclusive_witness:
  "\<exists>b pa c pa'. PoolAllocator_Alloc False 0 100 pa_start = Ok (Some b, pa) \<and>
     PoolAllocator_Alloc False 1 100 pa = Ok (Some c, pa') \<and> c \<noteq> b \<and> returns (PoolAllocator_Release 1 (Some b) pa)"
proof -
  have big: "0 < (100 :: int) \<and> 100 \<le> (2147483615 :: int)" by simp
  obtain b pa where b: "PoolAllocator_Alloc False 0 100 pa_start = Ok (Some b, pa)"
    using pool_allocator_exclusive [of pa_start "[]", OF rtranclp.rtrancl_refl] big by blast
  then have "alloc_step (pa_start, []) (pa, [b])" using alloc_step.alloc [OF b, of "[]"] by simp
  then have "alloc_reach pa [b]" by (rule r_into_rtranclp)
  note ex = pool_allocator_exclusive [OF this]
  obtain c pa' where "PoolAllocator_Alloc False 1 100 pa = Ok (Some c, pa')" "c \<notin> set [b]" using ex big by blast
  moreover have "returns (PoolAllocator_Release 1 (Some b) pa)" using ex by simp
  ultimately show ?thesis using b by auto
qed

text \<open>Clear: the destructors free what the lists hold; the table and the caches are left.\<close>

lemma MemoryPool_delete_ok:
  "distinct bs \<Longrightarrow> \<forall>b \<in> set bs. hp_block h b \<noteq> None \<Longrightarrow>
   \<exists>h'. MemoryPool_delete bs h = Ok h' \<and> (\<forall>c. hp_block h' c = (if c \<in> set bs then None else hp_block h c))"
proof (induction bs arbitrary: h)
  case (Cons b bs)
  let ?h = "h\<lparr>hp_block := (hp_block h)(b := None)\<rparr>"
  have live: "\<forall>c \<in> set bs. hp_block ?h c \<noteq> None" using Cons.prems by auto
  have "distinct bs" using Cons.prems(1) by simp
  from Cons.IH [OF this live] obtain h' where "MemoryPool_delete bs ?h = Ok h'"
      "\<forall>c. hp_block h' c = (if c \<in> set bs then None else hp_block ?h c)" by blast
  then show ?case using Cons.prems(2) by (auto simp: aligned_free_def)
qed simp

lemma delete_pools_ok:
  assumes "distinct ps" "\<forall>p \<in> set ps. pa_pool pa p \<noteq> None" "placed (blocks_at pa held)"
    "\<forall>p. \<forall>b \<in> set (blocks_at pa held (InPool p)). hp_block (pa_heap pa) b \<noteq> None"
  shows "\<exists>pa'. delete_pools ps pa = Ok pa' \<and> (\<forall>p. pa_pool pa' p = (if p \<in> set ps then None else pa_pool pa p)) \<and>
    pa_poolTable pa' = pa_poolTable pa \<and> pa_cache pa' = pa_cache pa \<and>
    (\<forall>b. (\<forall>p. b \<notin> set (blocks_at pa held (InPool p))) \<longrightarrow> hp_block (pa_heap pa') b = hp_block (pa_heap pa) b)"
  using assms
proof (induction ps arbitrary: pa)
  case (Cons p ps)
  obtain pool where pool: "pa_pool pa p = Some pool" using Cons.prems(2) by auto
  have at_p: "mp_header pool = blocks_at pa held (InPool p)" using pool by simp
  have d: "distinct (mp_header pool)" "\<forall>b \<in> set (mp_header pool). hp_block (pa_heap pa) b \<noteq> None"
    using Cons.prems(3,4) unfolding at_p placed_def by blast+
  obtain h where h: "MemoryPool_delete (mp_header pool) (pa_heap pa) = Ok h"
      "\<forall>c. hp_block h c = (if c \<in> set (mp_header pool) then None else hp_block (pa_heap pa) c)"
    using MemoryPool_delete_ok [OF d] by blast
  let ?pa = "pa\<lparr>pa_heap := h, pa_pool := (pa_pool pa)(p := None)\<rparr>"
  have at: "blocks_at ?pa held = (blocks_at pa held)(InPool p := [])"
  proof
    fix x show "blocks_at ?pa held x = ((blocks_at pa held)(InPool p := [])) x" by (cases x) auto
  qed
  have other: "c \<notin> set (mp_header pool)" if "c \<in> set (blocks_at pa held (InPool q))" "q \<noteq> p" for c q
    using Cons.prems(3) that unfolding placed_def at_p by blast
  have pl: "placed (blocks_at ?pa held)" using Cons.prems(3) unfolding at placed_def by auto
  have live: "\<forall>q. \<forall>b \<in> set (blocks_at ?pa held (InPool q)). hp_block (pa_heap ?pa) b \<noteq> None"
    using Cons.prems(4) other h(2) unfolding at by auto
  have "distinct ps" "\<forall>q \<in> set ps. pa_pool ?pa q \<noteq> None" using Cons.prems(1,2) by auto
  from Cons.IH [OF this pl live] obtain pa' where pa': "delete_pools ps ?pa = Ok pa'"
      "\<forall>q. pa_pool pa' q = (if q \<in> set ps then None else pa_pool ?pa q)"
      "pa_poolTable pa' = pa_poolTable ?pa" "pa_cache pa' = pa_cache ?pa"
      "\<forall>b. (\<forall>q. b \<notin> set (blocks_at ?pa held (InPool q))) \<longrightarrow> hp_block (pa_heap pa') b = hp_block (pa_heap ?pa) b"
    by blast
  have "hp_block (pa_heap pa') b = hp_block (pa_heap pa) b" if "\<forall>q. b \<notin> set (blocks_at pa held (InPool q))" for b
  proof -
    have "b \<notin> set (mp_header pool)" using that at_p by metis
    moreover have "\<forall>q. b \<notin> set (blocks_at ?pa held (InPool q))" using that unfolding at by simp
    ultimately show ?thesis using pa'(5) h(2) by simp
  qed
  with pa' h(1) pool show ?case by auto
qed auto

text \<open>
  Releasing after \<open>Clear\<close>. \<open>Clear\<close> deletes the pools but leaves the table of pools and the caches of
  the threads: a block in use that is released afterwards by a thread whose cache for its size is
  full makes \<open>Release\<close> use a deleted pool.
\<close>

theorem release_after_clear_crashes:
  assumes "alloc_inv pa held" "b \<in> set held" "hp_block (pa_heap pa) b = Some bk" "bk_size bk \<le> 4096"
    "length (pa_cache pa t (nat (pool_index (bk_size bk)))) = 48"
  shows "\<exists>pa'. PoolAllocator_Clear pa = Ok pa' \<and> PoolAllocator_Release t (Some b) pa' = Crash UseAfterFree"
proof -
  let ?n = "bk_size bk"
  obtain n where n: "block_fits pa InUse n" "block_ok (pa_heap pa) n b"
    using alloc_invD(6) [OF assms(1), of b InUse] assms(2) by auto
  then have eq: "?n = n" using assms(3) by (auto simp: block_ok_def)
  with n(1) assms(4) have cls: "is_class ?n" "0 < ?n" "in_int32 ?n" by simp_all
  note c = is_class_facts [OF cls(1)]
  note pools = conjunct2 [OF alloc_invD(2) [OF assms(1)]]
  obtain p pool where p: "table_at ?n pa = Ok p" "pa_pool pa p = Some pool"
    using table_at_ok [OF conjunct1 [OF alloc_invD(2) [OF assms(1)]], of ?n] c(1,2) by auto
  have "\<forall>p. \<forall>b \<in> set (blocks_at pa held (InPool p)). hp_block (pa_heap pa) b \<noteq> None"
    using alloc_invD(6) [OF assms(1), of _ "InPool _"] by (fastforce simp: block_ok_def)
  then obtain pa1 where pa1: "delete_pools (pa_pools pa) pa = Ok pa1"
      "\<forall>p. pa_pool pa1 p = (if p \<in> set (pa_pools pa) then None else pa_pool pa p)"
      "pa_poolTable pa1 = pa_poolTable pa" "pa_cache pa1 = pa_cache pa"
      "\<forall>b. (\<forall>p. b \<notin> set (blocks_at pa held (InPool p))) \<longrightarrow> hp_block (pa_heap pa1) b = hp_block (pa_heap pa) b"
    using delete_pools_ok [of "pa_pools pa" pa held] pools alloc_invD(5) [OF assms(1)] by (auto simp: pools_ok_def)
  let ?pa = "pa1\<lparr>pa_pools := [], pa_initialized := False\<rparr>"
  have "\<forall>p. b \<notin> set (blocks_at pa held (InPool p))"
    using alloc_invD(5) [OF assms(1)] assms(2) unfolding placed_def by (metis blocks_at.simps(3) place.distinct(3))
  then have "block_ok (pa_heap ?pa) ?n b" using pa1(5) n(2) eq by (simp add: block_ok_def)
  then have "read_header (pa_heap ?pa) b = Ok (MemoryHeader_new (word_of_int ?n))" by (rule read_header_ok)
  moreover have "table_at ?n ?pa = Ok p" using p(1) pa1(3) by (simp add: table_at_def)
  moreover have "pool_at p ?pa = Crash UseAfterFree" using p(2) pools pa1(2) by (auto simp: pool_at_def pools_ok_def)
  ultimately have "PoolAllocator_Release t (Some b) ?pa = Crash UseAfterFree"
    using sint_int32 [OF cls(3)] c(2,5) assms(5) pa1(4)
    by (simp add: PoolAllocator_Release_def DetachHeader_def MemoryHeader_new_def MAX_ALLOC_SIZE_def
        MAX_LOCAL_CACHE_def Let_def)
  with pa1(1) show ?thesis by (simp add: PoolAllocator_Clear_def)
qed

text \<open>49 blocks of 4096 bytes, 48 of them in the cache of thread 0.\<close>

theorem release_after_clear_crashes_witness:
  "\<exists>pa pa'. alloc_inv pa [48] \<and> PoolAllocator_Clear pa = Ok pa' \<and>
     PoolAllocator_Release 0 (Some 48) pa' = Crash UseAfterFree"
proof -
  define h where "h = \<lparr>hp_block = \<lambda>b. if b < 49 then Some \<lparr>bk_size = 4096, bk_header = MemoryHeader_new 4096\<rparr> else None,
    hp_next = 49\<rparr>"
  obtain pa1 where pa1: "PoolAllocator_Init pa_start = Ok pa1" "pa_initialized pa1" "table_ok 4096 pa1" "fresh_pools pa1"
     "pa_cache pa1 = (\<lambda>_ _. [])"
    using PoolAllocator_Init_spec by blast
  have h: "hp_block h b = (if b < 49 then Some \<lparr>bk_size = 4096, bk_header = MemoryHeader_new 4096\<rparr> else None)"
    "heap_ok h" for b
    by (simp_all add: h_def heap_ok_def)
  let ?pa = "set_cache 0 47 [0..<48] (set_heap h pa1)"
  note fresh = fresh_pools_facts [OF pa1(4,5)]
  have at: "blocks_at ?pa [48] x = (if x = InUse then [48] else if x = InCache 0 47 then [0..<48] else [])" for x
    using fresh(1) [of x] by (cases x) (auto simp: pa1(5))
  have cls: "is_class 4096" unfolding is_class_def by (rule exI [of _ 4096]) (simp add: class_size_def)
  have "placed (blocks_at ?pa [48])" by (auto simp: placed_def at split: if_splits)
  moreover have "blocks_ok ?pa [48]"
    using cls by (auto simp: blocks_ok_def at h block_ok_def in_int32_def class_of_index_def split: if_splits)
  ultimately have "alloc_inv ?pa [48]"
    using pa1(2,3,5) fresh(2) h(2) by (simp add: alloc_inv_def)
  then show ?thesis
    using release_after_clear_crashes [of ?pa "[48]" 48 "\<lparr>bk_size = 4096, bk_header = MemoryHeader_new 4096\<rparr>" 0]
    by (auto simp: h pool_index_def)
qed

end
