(* ===== verification/ObjectPool.thy ===== *)
theory ObjectPool
  imports PoolAllocator
begin

text \<open>
  \<^verbatim>\<open>ServerEngine/Memory/ObjectPool.h\<close>, \<^verbatim>\<open>Allocator.h\<close> and the templates of \<^verbatim>\<open>ServerEngine/Common/Macros.h\<close>:
  objects in the memory of the pool allocator. What a constructor makes is an argument, and the objects that
  are alive are a map from the blocks that hold them; ending the life of an object that has none is a fault. The
  deleter of the shared pointers of \<open>MakeShared\<close> and \<open>MakeSharedPool\<close> is \<open>Push\<close> and \<open>xdelete\<close>.
\<close>

section \<open>The operations\<close>

record 'o object_pool =
  op_memory :: pool_allocator
  op_objects :: "block \<Rightarrow> 'o option"

definition construct :: "bool \<Rightarrow> nat \<Rightarrow> int32 \<Rightarrow> 'o \<Rightarrow> 'o object_pool \<Rightarrow> (block \<times> 'o object_pool) res" where
  "construct oom t sizeof_Type new s =
     res_bind (PoolAllocator_Alloc oom t sizeof_Type (op_memory s)) (\<lambda>(memory, pa).
     case memory of None \<Rightarrow> Crash NullDeref
     | Some b \<Rightarrow> Ok (b, s\<lparr>op_memory := pa, op_objects := (op_objects s)(b \<mapsto> new)\<rparr>))"

definition destruct :: "nat \<Rightarrow> block option \<Rightarrow> 'o object_pool \<Rightarrow> 'o object_pool res" where
  "destruct t obj s =
     (case obj of None \<Rightarrow> Ok s
      | Some b \<Rightarrow>
        (case op_objects s b of None \<Rightarrow> Crash UseAfterFree
         | Some _ \<Rightarrow>
           res_bind (PoolAllocator_Release t (Some b) (op_memory s)) (\<lambda>pa.
           Ok (s\<lparr>op_memory := pa, op_objects := (op_objects s)(b := None)\<rparr>))))"

text \<open>\<open>ObjectPool<Type>\<close>, and \<open>xnew\<close> and \<open>xdelete\<close>, which do the same.\<close>

definition ObjectPool_Pop :: "bool \<Rightarrow> nat \<Rightarrow> int32 \<Rightarrow> 'o \<Rightarrow> 'o object_pool \<Rightarrow> (block \<times> 'o object_pool) res" where
  "ObjectPool_Pop = construct"

definition ObjectPool_Push :: "nat \<Rightarrow> block option \<Rightarrow> 'o object_pool \<Rightarrow> 'o object_pool res" where
  "ObjectPool_Push = destruct"

definition xnew :: "bool \<Rightarrow> nat \<Rightarrow> int32 \<Rightarrow> 'o \<Rightarrow> 'o object_pool \<Rightarrow> (block \<times> 'o object_pool) res" where
  "xnew = construct"

definition xdelete :: "nat \<Rightarrow> block option \<Rightarrow> 'o object_pool \<Rightarrow> 'o object_pool res" where
  "xdelete = destruct"


text \<open>\<open>StlAllocator<T>\<close>: the product is taken in 64 bits and converted to 32.\<close>

definition StlAllocator_allocate ::
    "bool \<Rightarrow> nat \<Rightarrow> int \<Rightarrow> int \<Rightarrow> pool_allocator \<Rightarrow> (block option \<times> pool_allocator) res" where
  "StlAllocator_allocate oom t sizeof_T count = PoolAllocator_Alloc oom t (to_int32 (to_size_t (count * sizeof_T)))"

definition StlAllocator_deallocate :: "nat \<Rightarrow> block option \<Rightarrow> pool_allocator \<Rightarrow> pool_allocator res" where
  "StlAllocator_deallocate t ptr = PoolAllocator_Release t ptr"

section \<open>Objects among other blocks\<close>

text \<open>\<open>others\<close> are the blocks that are not objects of this type.\<close>

inductive op_step :: "'o object_pool \<times> block list \<Rightarrow> 'o object_pool \<times> block list \<Rightarrow> bool" where
  construct: "sz \<le> 2147483615 \<Longrightarrow> construct False t sz new s = Ok (b, s') \<Longrightarrow> op_step (s, others) (s', others)"
| destruct: "op_objects s b \<noteq> None \<Longrightarrow> destruct t (Some b) s = Ok s' \<Longrightarrow> op_step (s, others) (s', others)"
| alloc: "sz \<le> 2147483615 \<Longrightarrow> PoolAllocator_Alloc False t sz (op_memory s) = Ok (Some b, pa) \<Longrightarrow>
    op_step (s, others) (s\<lparr>op_memory := pa\<rparr>, b # others)"
| release: "b \<in> set others \<Longrightarrow> PoolAllocator_Release t (Some b) (op_memory s) = Ok pa \<Longrightarrow>
    op_step (s, others) (s\<lparr>op_memory := pa\<rparr>, remove1 b others)"

abbreviation op_reach :: "'o object_pool \<Rightarrow> block list \<Rightarrow> bool" where
  "op_reach s others \<equiv> op_step\<^sup>*\<^sup>* (\<lparr>op_memory = pa_start, op_objects = \<lambda>_. None\<rparr>, []) (s, others)"

definition op_inv :: "'o object_pool \<Rightarrow> block list \<Rightarrow> bool" where
  "op_inv s others \<longleftrightarrow> (\<exists>held. alloc_reach (op_memory s) held \<and> distinct others \<and>
     dom (op_objects s) \<inter> set others = {} \<and> set held = dom (op_objects s) \<union> set others)"

text \<open>One call of the allocator.\<close>

lemma alloc_more:
  assumes "alloc_reach pa held" "PoolAllocator_Alloc False t sz pa = Ok (Some b, pa')" "sz \<le> 2147483615"
  shows "alloc_reach pa' (b # held)" "b \<notin> set held"
proof -
  have "alloc_step (pa, held) (pa', b # held)" using alloc_step.alloc [OF assms(2,3), of held] by simp
  with assms(1) show r: "alloc_reach pa' (b # held)" by (rule rtranclp.rtrancl_into_rtrancl)
  show "b \<notin> set held" using alloc_reach_facts [OF r] by simp
qed

lemma release_one:
  assumes "alloc_reach pa held" "b \<in> set held" "PoolAllocator_Release t (Some b) pa = Ok pa'"
  shows "alloc_reach pa' (remove1 b held)" "set (remove1 b held) = set held - {b}"
proof -
  have "alloc_step (pa, held) (pa', remove1 b held)" by (rule alloc_step.release [OF assms(2,3)])
  with assms(1) show "alloc_reach pa' (remove1 b held)" by (rule rtranclp.rtrancl_into_rtrancl)
  show "set (remove1 b held) = set held - {b}" using alloc_reach_facts [OF assms(1)] by simp
qed

lemma op_reach_inv: "op_reach s others \<Longrightarrow> op_inv s others"
proof (induction "(s, others)" arbitrary: s others rule: rtranclp_induct)
  case base
  show ?case unfolding op_inv_def by (intro exI [of _ "[]"]) simp
next
  case (step y)
  obtain s1 others1 where y: "y = (s1, others1)" by fastforce
  then obtain held where h: "alloc_reach (op_memory s1) held" "distinct others1"
      "dom (op_objects s1) \<inter> set others1 = {}" "set held = dom (op_objects s1) \<union> set others1"
    using step(3) unfolding op_inv_def by blast
  from step(2) [unfolded y] show ?case
  proof (cases rule: op_step.cases)
    case (construct sz t new b)
    then obtain pa where a: "PoolAllocator_Alloc False t sz (op_memory s1) = Ok (Some b, pa)"
        "s = s1\<lparr>op_memory := pa, op_objects := (op_objects s1)(b \<mapsto> new)\<rparr>" "others = others1" "sz \<le> 2147483615"
      by (auto simp: construct_def res_iff split: option.splits)
    show ?thesis
      unfolding op_inv_def using alloc_more [OF h(1) a(1,4)] h(2-4) a(2,3) by (intro exI [of _ "b # held"]) auto
  next
    case (destruct b t)
    then obtain pa where a: "PoolAllocator_Release t (Some b) (op_memory s1) = Ok pa"
        "s = s1\<lparr>op_memory := pa, op_objects := (op_objects s1)(b := None)\<rparr>" "others = others1" "b \<in> dom (op_objects s1)"
      by (auto simp: destruct_def res_iff split: option.splits)
    then have "b \<in> set held" using h(4) by blast
    from release_one [OF h(1) this a(1)] show ?thesis
      unfolding op_inv_def using h(2-4) a(2-4) by (intro exI [of _ "remove1 b held"]) auto
  next
    case (alloc sz t b pa)
    show ?thesis
      unfolding op_inv_def using alloc_more [OF h(1) alloc(4,3)] h(2-4) alloc(1,2) by (intro exI [of _ "b # held"]) auto
  next
    case (release b t pa)
    then have "b \<in> set held" using h(4) by blast
    from release_one [OF h(1) this release(4)] show ?thesis
      unfolding op_inv_def using h(2-4) release(1,2,3) by (intro exI [of _ "remove1 b held"]) auto
  qed
qed

section \<open>Property\<close>

text \<open>
  Objects have their memory to themselves. Whatever objects are constructed and destroyed by whatever threads,
  between other allocations and releases: a new object gets a live block of at least its size that holds
  no object and is in no other use, and the other objects keep their values; and every object that is alive
  can be destroyed by any thread, which ends its life and no other's.
\<close>

theorem object_pool_exclusive:
  assumes "op_reach s others"
  shows "(\<forall>t sz new. 0 < sz \<and> sz \<le> 2147483615 \<longrightarrow> (\<exists>b s' bk. ObjectPool_Pop False t sz new s = Ok (b, s') \<and>
      op_objects s b = None \<and> b \<notin> set others \<and> op_objects s' = (op_objects s)(b \<mapsto> new) \<and>
      hp_block (pa_heap (op_memory s')) b = Some bk \<and> sz \<le> bk_size bk)) \<and>
    (\<forall>t b. op_objects s b \<noteq> None \<longrightarrow> (\<exists>s'. ObjectPool_Push t (Some b) s = Ok s' \<and>
      op_objects s' = (op_objects s)(b := None)))"
proof -
  obtain held where h: "alloc_reach (op_memory s) held" "set held = dom (op_objects s) \<union> set others"
    using op_reach_inv [OF assms] unfolding op_inv_def by blast
  note f = alloc_reach_facts [OF h(1)]
  have "\<exists>b s' bk. ObjectPool_Pop False t sz new s = Ok (b, s') \<and> op_objects s b = None \<and> b \<notin> set others \<and>
      op_objects s' = (op_objects s)(b \<mapsto> new) \<and> hp_block (pa_heap (op_memory s')) b = Some bk \<and> sz \<le> bk_size bk"
    if sz: "0 < sz \<and> sz \<le> 2147483615" for t sz new
  proof -
    obtain b pa bk where a: "PoolAllocator_Alloc False t sz (op_memory s) = Ok (Some b, pa)" "b \<notin> set held"
      "hp_block (pa_heap pa) b = Some bk" "sz \<le> bk_size bk"
      using f sz by blast
    then have "op_objects s b = None" "b \<notin> set others" using h(2) by auto
    then show ?thesis
      using a by (intro exI [of _ b] exI [of _ "s\<lparr>op_memory := pa, op_objects := (op_objects s)(b \<mapsto> new)\<rparr>"] exI [of _ bk])
        (simp add: ObjectPool_Pop_def construct_def)
  qed
  moreover have "\<exists>s'. ObjectPool_Push t (Some b) s = Ok s' \<and> op_objects s' = (op_objects s)(b := None)"
    if "op_objects s b \<noteq> None" for t b
  proof -
    have "b \<in> set held" using that h(2) by auto
    then have "returns (PoolAllocator_Release t (Some b) (op_memory s))" using f by blast
    then obtain pa where "PoolAllocator_Release t (Some b) (op_memory s) = Ok pa" unfolding returns_iff by blast
    then show ?thesis using that by (auto simp: ObjectPool_Push_def destruct_def split: option.split)
  qed
  ultimately show ?thesis by blast
qed

theorem object_pool_exclusive_witness:
  "\<exists>b s. ObjectPool_Pop False 0 44 (101 :: int) \<lparr>op_memory = pa_start, op_objects = \<lambda>_. None\<rparr> = Ok (b, s) \<and>
     op_objects s b = Some 101 \<and> (\<exists>s'. ObjectPool_Push 1 (Some b) s = Ok s' \<and> op_objects s' b = None)"
proof -
  let ?s = "\<lparr>op_memory = pa_start, op_objects = \<lambda>_. None\<rparr> :: int object_pool"
  have sz: "(0 :: int) < 44 \<and> (44 :: int) \<le> 2147483615" by simp
  obtain b s where p: "ObjectPool_Pop False 0 44 101 ?s = Ok (b, s)" "op_objects s = (op_objects ?s)(b \<mapsto> 101)"
    using object_pool_exclusive [of ?s "[]", OF rtranclp.rtrancl_refl] sz by metis
  then have "op_step (?s, []) (s, [])" using op_step.construct [of 44 0 101 ?s b s "[]"] by (simp add: ObjectPool_Pop_def)
  then have "op_reach s []" by (rule r_into_rtranclp)
  then obtain s' where "ObjectPool_Push 1 (Some b) s = Ok s'" "op_objects s' = (op_objects s)(b := None)"
    using conjunct2 [OF object_pool_exclusive, THEN spec, THEN spec, of s "[]" b 1] p(2) by auto
  with p show ?thesis by auto
qed

end
