(* ===== verification/SpinLock.thy ===== *)
theory SpinLock
  imports Prelude
begin

text \<open>
  \<^verbatim>\<open>ServerEngine/Lock/SpinLock.h\<close>: the spin lock, one atomic access to \<open>_locked\<close> at a time, and the
  sections that \<open>SpinLockGuard\<close> makes of it.

  \<open>Lock_step\<close> is the code of \<open>Lock\<close> from one access to the next; its position is the access that
  comes next, with \<open>spinCount\<close>. A section is a list of accesses \<open>'d \<Rightarrow> 'd\<close> to what the lock protects,
  one step each. That a section acts as one step, as the models of the other theories take it to,
  is proved here. \<open>ReadWriteLock\<close> only wraps the system's lock.
\<close>

section \<open>The lock\<close>

datatype lock_pc = LOut | LFirst | LTest uint32 | LExchange uint32 | LHeld

definition exchange_locked :: "bool \<Rightarrow> bool \<Rightarrow> bool \<times> bool" where
  "exchange_locked new locked = (locked, new)"

fun Lock_step :: "lock_pc \<times> bool \<Rightarrow> lock_pc \<times> bool" where
  "Lock_step (LFirst, locked) =
     (let (old, locked) = exchange_locked True locked in if \<not> old then (LHeld, locked) else (LTest 0, locked))"
| "Lock_step (LTest spinCount, locked) =
     (if locked then
        let spinCount = spinCount + 1 in
        if spinCount > 2048 then (LTest 0, locked) else (LTest spinCount, locked)
      else (LExchange spinCount, locked))"
| "Lock_step (LExchange spinCount, locked) =
     (let (old, locked) = exchange_locked True locked in if \<not> old then (LHeld, locked) else (LTest spinCount, locked))"
| "Lock_step (pc, locked) = (pc, locked)"

definition TryLock :: "bool \<Rightarrow> bool \<times> bool" where
  "TryLock locked = (let (old, locked) = exchange_locked True locked in (\<not> old, locked))"

definition Unlock :: "bool \<Rightarrow> bool" where
  "Unlock locked = False"

fun in_Lock :: "lock_pc \<Rightarrow> bool" where
  "in_Lock LFirst = True"
| "in_Lock (LTest _) = True"
| "in_Lock (LExchange _) = True"
| "in_Lock _ = False"

section \<open>Threads and their sections\<close>

text \<open>
  \<open>gd_body\<close>: the section a thread has asked for, \<open>gd_todo\<close> what is left of it; \<open>gd_done\<close>: the sections
  that have ended, in the order in which they ended, \<open>gd_ran\<close> what has run of the one inside.
\<close>

record 'd guarded =
  gd_locked :: bool
  gd_pc :: "nat \<Rightarrow> lock_pc"
  gd_body :: "nat \<Rightarrow> ('d \<Rightarrow> 'd) list"
  gd_todo :: "nat \<Rightarrow> ('d \<Rightarrow> 'd) list"
  gd_data :: 'd
  gd_done :: "('d \<Rightarrow> 'd) list list"
  gd_ran :: "('d \<Rightarrow> 'd) list"

definition guarded_start :: "'d \<Rightarrow> 'd guarded" where
  "guarded_start d = \<lparr>gd_locked = False, gd_pc = \<lambda>_. LOut, gd_body = \<lambda>_. [], gd_todo = \<lambda>_. [], gd_data = d,
     gd_done = [], gd_ran = []\<rparr>"

inductive guarded_step :: "'d guarded \<Rightarrow> 'd guarded \<Rightarrow> bool" where
  guard: "gd_pc g t = LOut \<Longrightarrow>
    guarded_step g (g\<lparr>gd_pc := (gd_pc g)(t := LFirst), gd_body := (gd_body g)(t := body),
      gd_todo := (gd_todo g)(t := body)\<rparr>)"
| try_lock: "gd_pc g t = LOut \<Longrightarrow> TryLock (gd_locked g) = (ok, l) \<Longrightarrow>
    guarded_step g (g\<lparr>gd_locked := l, gd_pc := (gd_pc g)(t := if ok then LHeld else LOut),
      gd_body := (gd_body g)(t := body), gd_todo := (gd_todo g)(t := body)\<rparr>)"
| lock: "in_Lock (gd_pc g t) \<Longrightarrow> Lock_step (gd_pc g t, gd_locked g) = (pc, l) \<Longrightarrow>
    guarded_step g (g\<lparr>gd_locked := l, gd_pc := (gd_pc g)(t := pc)\<rparr>)"
| access: "gd_pc g t = LHeld \<Longrightarrow> gd_todo g t = f # fs \<Longrightarrow>
    guarded_step g (g\<lparr>gd_data := f (gd_data g), gd_todo := (gd_todo g)(t := fs), gd_ran := gd_ran g @ [f]\<rparr>)"
| unlock: "gd_pc g t = LHeld \<Longrightarrow> gd_todo g t = [] \<Longrightarrow>
    guarded_step g (g\<lparr>gd_locked := Unlock (gd_locked g), gd_pc := (gd_pc g)(t := LOut),
      gd_done := gd_done g @ [gd_body g t], gd_ran := []\<rparr>)"

abbreviation guarded_reach :: "'d \<Rightarrow> 'd guarded \<Rightarrow> bool" where
  "guarded_reach d g \<equiv> guarded_step\<^sup>*\<^sup>* (guarded_start d) g"

definition run_section :: "('d \<Rightarrow> 'd) list \<Rightarrow> 'd \<Rightarrow> 'd" where
  "run_section body d = fold (\<lambda>f. f) body d"

section \<open>Invariant\<close>

fun spin_count :: "lock_pc \<Rightarrow> uint32" where
  "spin_count (LTest n) = n"
| "spin_count (LExchange n) = n"
| "spin_count _ = 0"

text \<open>\<open>h\<close> is the thread inside.\<close>

definition guarded_by :: "nat option \<Rightarrow> 'd \<Rightarrow> 'd guarded \<Rightarrow> bool" where
  "guarded_by h d g \<longleftrightarrow>
     (\<forall>t. gd_pc g t = LHeld \<longleftrightarrow> h = Some t) \<and> (gd_locked g \<longleftrightarrow> h \<noteq> None) \<and>
     (\<forall>t. in_Lock (gd_pc g t) \<longrightarrow> gd_todo g t = gd_body g t) \<and>
     (case h of None \<Rightarrow> gd_ran g = [] | Some t \<Rightarrow> gd_body g t = gd_ran g @ gd_todo g t) \<and>
     gd_data g = run_section (gd_ran g) (fold run_section (gd_done g) d) \<and>
     (\<forall>t. spin_count (gd_pc g t) \<le> 2048)"

lemma run_section_simps [simp]: "run_section [] d = d" "run_section (bs @ [f]) d = f (run_section bs d)"
  by (simp_all add: run_section_def)

text \<open>One step of \<open>Lock\<close>: it takes the lock if it was free, and only then.\<close>

lemma Lock_step_cases:
  assumes "in_Lock pc" "Lock_step (pc, l) = (pc', l')"
  shows "pc' = LHeld \<and> \<not> l \<and> l' \<or> in_Lock pc' \<and> l' = l"
    "spin_count pc \<le> 2048 \<Longrightarrow> spin_count pc' \<le> 2048"
proof -
  show "pc' = LHeld \<and> \<not> l \<and> l' \<or> in_Lock pc' \<and> l' = l"
    using assms by (cases pc) (auto simp: exchange_locked_def Let_def split: if_splits)
  show "spin_count pc' \<le> 2048" if "spin_count pc \<le> 2048"
    using assms that by (cases pc) (auto simp: exchange_locked_def Let_def not_less split: if_splits)
qed

lemma guarded_by_step:
  assumes "guarded_step g g'" "guarded_by h d g"
  shows "\<exists>h'. guarded_by h' d g'"
proof -
  have held: "gd_pc g t = LHeld \<longleftrightarrow> h = Some t" for t using assms(2) unfolding guarded_by_def by blast
  from assms(1) show ?thesis
proof cases
  case (guard t body)
  then have "h \<noteq> Some t" using held [of t] by auto
  with guard show ?thesis using assms(2)
    by (intro exI [of _ h]) (auto simp: guarded_by_def split: option.split)
next
  case (try_lock t ok l body)
  then have "h \<noteq> Some t" "ok = (h = None)" "l"
    using held [of t] assms(2) by (auto simp: guarded_by_def TryLock_def exchange_locked_def)
  with try_lock(1,2) show ?thesis using assms(2)
    by (intro exI [of _ "if ok then Some t else h"]) (auto simp: guarded_by_def split: option.splits)
next
  case (lock t pc l)
  then have "h \<noteq> Some t" using held [of t] by auto
  moreover have "spin_count pc \<le> 2048"
    using Lock_step_cases(2) [OF lock(2,3)] assms(2) by (simp add: guarded_by_def)
  ultimately show ?thesis using Lock_step_cases(1) [OF lock(2,3)] assms(2) lock(1,2)
    by (intro exI [of _ "if pc = LHeld then Some t else h"]) (auto simp: guarded_by_def split: option.splits)
next
  case (access t f fs)
  then have "h = Some t" "\<not> in_Lock (gd_pc g t)" using held [of t] by auto
  with access(1,3) show ?thesis using assms(2) by (intro exI [of _ h]) (auto simp: guarded_by_def)
next
  case (unlock t)
  then have "h = Some t" using assms(2) by (simp add: guarded_by_def)
  with unlock show ?thesis using assms(2) by (intro exI [of _ None]) (auto simp: guarded_by_def Unlock_def)
qed
qed

lemma guarded_by_reach: "guarded_reach d g \<Longrightarrow> \<exists>h. guarded_by h d g"
proof (induction rule: rtranclp_induct)
  case base
  show ?case by (intro exI [of _ None]) (simp add: guarded_by_def guarded_start_def)
next
  case (step g g')
  then obtain h where "guarded_by h d g" by blast
  from guarded_by_step [OF step(2) this] show ?case .
qed

section \<open>Properties\<close>

text \<open>
  C22: Sections under the lock are atomic. Whatever way threads interleave their accesses, at most one
  is inside; what the lock protects is what the sections that have ended make of it, each run as a
  whole, one after the other, followed by what has run of the section inside, if there is one. The
  counter of the backoff stays within its limit.
\<close>

theorem spin_lock_sections_atomic:
  assumes "guarded_reach d g"
  shows "(\<forall>t u. gd_pc g t = LHeld \<longrightarrow> gd_pc g u = LHeld \<longrightarrow> t = u) \<and>
    (\<not> gd_locked g \<longrightarrow> gd_data g = fold run_section (gd_done g) d) \<and>
    (\<forall>t. gd_pc g t = LHeld \<longrightarrow> gd_locked g \<and> (\<exists>ran. gd_body g t = ran @ gd_todo g t \<and>
       gd_data g = run_section ran (fold run_section (gd_done g) d))) \<and>
    (\<forall>t. spin_count (gd_pc g t) \<le> 2048)"
proof -
  obtain h where "guarded_by h d g" using guarded_by_reach [OF assms] by blast
  then show ?thesis by (cases h) (auto simp: guarded_by_def)
qed

text \<open>
  A thread in \<open>Lock\<close> takes a free lock with its next two accesses, and as long as the lock is held
  by another it stays in \<open>Lock\<close>.
\<close>

theorem spin_lock_progress:
  assumes "in_Lock pc"
  shows "(Lock_step ^^ 2) (pc, False) = (LHeld, True) \<and>
    (\<exists>pc'. (Lock_step ^^ n) (pc, True) = (pc', True) \<and> in_Lock pc')"
proof
  show "(Lock_step ^^ 2) (pc, False) = (LHeld, True)"
    using assms by (cases pc) (simp_all add: numeral_2_eq_2 exchange_locked_def)
  show "\<exists>pc'. (Lock_step ^^ n) (pc, True) = (pc', True) \<and> in_Lock pc'"
  proof (induction n)
    case (Suc n)
    then obtain p where "(Lock_step ^^ n) (pc, True) = (p, True)" "in_Lock p" by blast
    then show ?case by (cases p) (auto simp: exchange_locked_def Let_def)
  qed (use assms in simp)
qed

theorem spin_lock_progress_witness:
  "(Lock_step ^^ 2) (LFirst, False) = (LHeld, True) \<and> (\<exists>pc'. (Lock_step ^^ 5000) (LFirst, True) = (pc', True) \<and> in_Lock pc')"
  using spin_lock_progress [of LFirst 5000] by simp

text \<open>Two threads add 1 and 2; the second waits while the first is inside.\<close>

theorem spin_lock_sections_atomic_witness:
  "\<exists>g :: nat guarded. guarded_reach 0 g \<and> gd_done g = [[\<lambda>n. n + (1 :: nat)], [\<lambda>n. n + 2]] \<and> gd_data g = fold run_section (gd_done g) 0 \<and> gd_data g = 3"
proof -
  define f1 f2 :: "nat \<Rightarrow> nat" where "f1 = (\<lambda>n. n + 1)" and "f2 = (\<lambda>n. n + 2)"
  let ?g = "\<lambda>l p0 p1 b1 t0 t1 x dn r. \<lparr>gd_locked = l, gd_pc = (\<lambda>t. if t = 0 then p0 else if t = 1 then p1 else LOut),
     gd_body = (\<lambda>t. if t = 0 then [f1] else if t = 1 then b1 else []), gd_todo = (\<lambda>t. if t = 0 then t0 else if t = 1 then t1 else []), gd_data = x, gd_done = dn, gd_ran = r\<rparr>"
  have upd: "(\<lambda>t. if t = 0 then a else if t = 1 then b else c)(0 := a') = (\<lambda>t. if t = (0::nat) then a' else if t = 1 then b else c)"
    "(\<lambda>t. if t = 0 then a else if t = 1 then b else c)(Suc 0 := b') = (\<lambda>t. if t = (0::nat) then a else if t = 1 then b' else c)" for a b c a' b' :: 'x
    by auto
  have from_start: "(\<lambda>_. c)(0 := a) = (\<lambda>t. if t = (0 :: nat) then a else if t = 1 then c else c)" for a c :: 'x
    by auto
  note I = guarded_step.intros
  have "guarded_step (guarded_start 0) (?g False LFirst LOut [] [f1] [] 0 [] [])"
    using I(1) [of "guarded_start (0 :: nat)" 0 "[f1]"] by (simp add: guarded_start_def from_start)
  moreover have "guarded_step (?g False LFirst LOut [] [f1] [] 0 [] []) (?g True LHeld LOut [] [f1] [] 0 [] [])"
    using I(3) [of "?g False LFirst LOut [] [f1] [] 0 [] []" 0 LHeld True] by (simp add: exchange_locked_def upd)
  moreover have "guarded_step (?g True LHeld LOut [] [f1] [] 0 [] []) (?g True LHeld LFirst [f2] [f1] [f2] 0 [] [])"
    using I(1) [of "?g True LHeld LOut [] [f1] [] 0 [] []" 1 "[f2]"] by (simp add: upd)
  moreover have "guarded_step (?g True LHeld LFirst [f2] [f1] [f2] 0 [] []) (?g True LHeld (LTest 0) [f2] [f1] [f2] 0 [] [])"
    using I(3) [of "?g True LHeld LFirst [f2] [f1] [f2] 0 [] []" 1 "LTest 0" True] by (simp add: exchange_locked_def upd)
  moreover have "guarded_step (?g True LHeld (LTest 0) [f2] [f1] [f2] 0 [] []) (?g True LHeld (LTest 0) [f2] [] [f2] 1 [] [f1])"
    using I(4) [of "?g True LHeld (LTest 0) [f2] [f1] [f2] 0 [] []" 0 f1 "[]"] by (simp add: upd f1_def)
  moreover have "guarded_step (?g True LHeld (LTest 0) [f2] [] [f2] 1 [] [f1]) (?g False LOut (LTest 0) [f2] [] [f2] 1 [[f1]] [])"
    using I(5) [of "?g True LHeld (LTest 0) [f2] [] [f2] 1 [] [f1]" 0] by (simp add: Unlock_def upd)
  moreover have "guarded_step (?g False LOut (LTest 0) [f2] [] [f2] 1 [[f1]] []) (?g False LOut (LExchange 0) [f2] [] [f2] 1 [[f1]] [])"
    using I(3) [of "?g False LOut (LTest 0) [f2] [] [f2] 1 [[f1]] []" 1 "LExchange 0" False] by (simp add: upd)
  moreover have "guarded_step (?g False LOut (LExchange 0) [f2] [] [f2] 1 [[f1]] []) (?g True LOut LHeld [f2] [] [f2] 1 [[f1]] [])"
    using I(3) [of "?g False LOut (LExchange 0) [f2] [] [f2] 1 [[f1]] []" 1 LHeld True] by (simp add: exchange_locked_def upd)
  moreover have "guarded_step (?g True LOut LHeld [f2] [] [f2] 1 [[f1]] []) (?g True LOut LHeld [f2] [] [] 3 [[f1]] [f2])"
    using I(4) [of "?g True LOut LHeld [f2] [] [f2] 1 [[f1]] []" 1 f2 "[]"] by (simp add: upd f2_def eval_nat_numeral)
  moreover have "guarded_step (?g True LOut LHeld [f2] [] [] 3 [[f1]] [f2]) (?g False LOut LOut [f2] [] [] 3 [[f1], [f2]] [])"
    using I(5) [of "?g True LOut LHeld [f2] [] [] 3 [[f1]] [f2]" 1] by (simp add: Unlock_def upd)
  ultimately have run: "guarded_reach 0 (?g False LOut LOut [f2] [] [] 3 [[f1], [f2]] [])"
    by (meson converse_rtranclp_into_rtranclp rtranclp.rtrancl_refl)
  have "gd_data (?g False LOut LOut [f2] [] [] 3 [[f1], [f2]] []) = fold run_section [[f1], [f2]] 0"
    using spin_lock_sections_atomic [OF run] by simp
  then show ?thesis
    by (intro exI [of _ "?g False LOut LOut [f2] [] [] 3 [[f1], [f2]] []"] conjI run) (simp_all add: f1_def f2_def)
qed

end
