(* ===== verification/ThreadPool.thy ===== *)
theory ThreadPool
  imports Prelude "HOL-Library.Multiset"
begin

text \<open>
  \<^verbatim>\<open>ServerEngine/Thread/ThreadPool.h\<close> and \<^verbatim>\<open>ThreadPool.cpp\<close>: tasks, workers and a condition variable.

  Every section under \<open>_queueLock\<close> is one step. A worker that finds the predicate of \<open>wait\<close> false
  blocks and lets the lock go in the same step; a notification, or a spurious wake-up, makes it try
  again. The notifications follow the sections of \<open>Enqueue\<close> and \<open>Stop\<close>, outside the lock: those that
  are still to be made are \<open>tp_notifyOne\<close> and \<open>tp_notifyAll\<close>. A task is a value of \<open>'j\<close>.
\<close>

section \<open>State and operations\<close>

text \<open>\<open>WReady\<close>: about to take the lock, in \<open>WorkerLoop\<close> or woken in \<open>wait\<close>.\<close>

datatype 'j pool_worker = WReady | WBlocked | WTask 'j | WReturned

record 'j thread_pool =
  tp_tasks :: "'j list"
  tp_stop :: bool
  tp_workers :: "'j pool_worker list"
  tp_threadCount :: uint32
  tp_busyThreads :: uint32

definition ThreadPool_new :: "'j thread_pool" where
  "ThreadPool_new = \<lparr>tp_tasks = [], tp_stop = False, tp_workers = [], tp_threadCount = 0, tp_busyThreads = 0\<rparr>"

text \<open>\<open>processors\<close> is \<open>sysInfo.dwNumberOfProcessors\<close>.\<close>

definition ThreadPool_Start :: "uint32 \<Rightarrow> uint32 \<Rightarrow> 'j thread_pool \<Rightarrow> 'j thread_pool" where
  "ThreadPool_Start processors threadCount tp =
     (if tp_workers tp \<noteq> [] then tp
      else
        let n = (if threadCount = 0 then (if processors = 0 then 4 else processors) else threadCount) in
        tp\<lparr>tp_stop := False, tp_threadCount := n, tp_workers := replicate (unat n) WReady\<rparr>)"

text \<open>The section of \<open>Enqueue\<close>: whether the task is accepted.\<close>

definition Enqueue :: "'j \<Rightarrow> 'j thread_pool \<Rightarrow> bool \<times> 'j thread_pool" where
  "Enqueue task tp = (if tp_stop tp then (False, tp) else (True, tp\<lparr>tp_tasks := tp_tasks tp @ [task]\<rparr>))"

text \<open>The section of \<open>Stop\<close>: whether it goes on to notify and to join.\<close>

definition Stop_section :: "'j thread_pool \<Rightarrow> bool \<times> 'j thread_pool" where
  "Stop_section tp = (if tp_stop tp then (False, tp) else (True, tp\<lparr>tp_stop := True\<rparr>))"

text \<open>\<open>join\<close> on every worker returns once all have, then \<open>_workers.clear()\<close>.\<close>

definition Stop_joined :: "'j thread_pool \<Rightarrow> 'j thread_pool option" where
  "Stop_joined tp = (if \<forall>w \<in> set (tp_workers tp). w = WReturned then Some (tp\<lparr>tp_workers := []\<rparr>) else None)"

definition GetPendingTaskCount :: "'j thread_pool \<Rightarrow> nat" where
  "GetPendingTaskCount tp = length (tp_tasks tp)"

text \<open>The section of \<open>WorkerLoop\<close>: what becomes of the worker.\<close>

definition worker_section :: "'j thread_pool \<Rightarrow> 'j pool_worker \<times> 'j thread_pool" where
  "worker_section tp =
     (if \<not> (tp_stop tp \<or> tp_tasks tp \<noteq> []) then (WBlocked, tp)
      else case tp_tasks tp of
        [] \<Rightarrow> (WReturned, tp)
      | task # tasks \<Rightarrow> (WTask task, tp\<lparr>tp_tasks := tasks, tp_busyThreads := tp_busyThreads tp + 1\<rparr>))"

section \<open>Interleavings\<close>

text \<open>\<open>tr_accepted\<close>, \<open>tr_taken\<close>, \<open>tr_done\<close>: the tasks accepted, taken by a worker and completed, in order.\<close>

record 'j pool_run =
  tr_pool :: "'j thread_pool"
  tr_notifyOne :: nat
  tr_notifyAll :: bool
  tr_accepted :: "'j list"
  tr_taken :: "'j list"
  tr_done :: "'j list"

definition pool_started :: "uint32 \<Rightarrow> 'j pool_run" where
  "pool_started n = \<lparr>tr_pool = ThreadPool_Start 0 n ThreadPool_new, tr_notifyOne = 0, tr_notifyAll = False,
     tr_accepted = [], tr_taken = [], tr_done = []\<rparr>"

definition set_workers :: "'j pool_worker list \<Rightarrow> 'j thread_pool \<Rightarrow> 'j thread_pool" where
  "set_workers ws tp = tp\<lparr>tp_workers := ws\<rparr>"

inductive pool_step :: "'j pool_run \<Rightarrow> 'j pool_run \<Rightarrow> bool" where
  enqueue: "Enqueue j (tr_pool r) = (ok, tp) \<Longrightarrow>
    pool_step r (r\<lparr>tr_pool := tp, tr_notifyOne := (if ok then Suc (tr_notifyOne r) else tr_notifyOne r),
      tr_accepted := (if ok then tr_accepted r @ [j] else tr_accepted r)\<rparr>)"
| stop: "Stop_section (tr_pool r) = (ok, tp) \<Longrightarrow>
    pool_step r (r\<lparr>tr_pool := tp, tr_notifyAll := tr_notifyAll r \<or> ok\<rparr>)"
| notify_one: "tr_notifyOne r = Suc n \<Longrightarrow> tp_workers (tr_pool r) = as @ WBlocked # bs \<Longrightarrow>
    pool_step r (r\<lparr>tr_pool := set_workers (as @ WReady # bs) (tr_pool r), tr_notifyOne := n\<rparr>)"
| notify_nobody: "tr_notifyOne r = Suc n \<Longrightarrow> WBlocked \<notin> set (tp_workers (tr_pool r)) \<Longrightarrow>
    pool_step r (r\<lparr>tr_notifyOne := n\<rparr>)"
| notify_all: "tr_notifyAll r \<Longrightarrow>
    pool_step r (r\<lparr>tr_pool := set_workers (map (\<lambda>w. if w = WBlocked then WReady else w) (tp_workers (tr_pool r)))
      (tr_pool r), tr_notifyAll := False\<rparr>)"
| spurious: "tp_workers (tr_pool r) = as @ WBlocked # bs \<Longrightarrow>
    pool_step r (r\<lparr>tr_pool := set_workers (as @ WReady # bs) (tr_pool r)\<rparr>)"
| worker: "tp_workers (tr_pool r) = as @ WReady # bs \<Longrightarrow> worker_section (tr_pool r) = (w, tp) \<Longrightarrow>
    pool_step r (r\<lparr>tr_pool := set_workers (as @ w # bs) tp,
      tr_taken := (case w of WTask j \<Rightarrow> tr_taken r @ [j] | _ \<Rightarrow> tr_taken r)\<rparr>)"
| task_done: "tp_workers (tr_pool r) = as @ WTask j # bs \<Longrightarrow>
    pool_step r (r\<lparr>tr_pool := set_workers (as @ WReady # bs)
      ((tr_pool r)\<lparr>tp_busyThreads := tp_busyThreads (tr_pool r) - 1\<rparr>), tr_done := tr_done r @ [j]\<rparr>)"

abbreviation pool_reach :: "uint32 \<Rightarrow> 'j pool_run \<Rightarrow> bool" where
  "pool_reach n r \<equiv> pool_step\<^sup>*\<^sup>* (pool_started n) r"

section \<open>Invariant\<close>

fun task_of :: "'j pool_worker \<Rightarrow> 'j multiset" where
  "task_of (WTask j) = {#j#}"
| "task_of _ = {#}"

definition running :: "'j pool_worker list \<Rightarrow> 'j multiset" where
  "running ws = sum_list (map task_of ws)"

definition ready_count :: "'j pool_worker list \<Rightarrow> nat" where
  "ready_count ws = length (filter (\<lambda>w. w = WReady) ws)"

lemma worker_list_simps [simp]:
  "running [] = {#}" "running (w # ws) = task_of w + running ws" "running (vs @ ws) = running vs + running ws"
  "ready_count [] = 0" "ready_count (w # ws) = (if w = WReady then Suc (ready_count ws) else ready_count ws)"
  "ready_count (vs @ ws) = ready_count vs + ready_count ws"
  by (simp_all add: running_def ready_count_def)

text \<open>
  While a worker is blocked there are notifications to come or workers about to look for every task
  that waits; a worker returns, and none blocks any more, only after \<open>Stop\<close>.
\<close>

definition pool_inv :: "nat \<Rightarrow> 'j pool_run \<Rightarrow> bool" where
  "pool_inv n r \<longleftrightarrow> (let tp = tr_pool r; ws = tp_workers tp in
     length ws = n \<and> tr_taken r @ tp_tasks tp = tr_accepted r \<and>
     mset (tr_done r) + running ws = mset (tr_taken r) \<and>
     (WBlocked \<in> set ws \<longrightarrow> length (tp_tasks tp) \<le> tr_notifyOne r + ready_count ws) \<and>
     (WReturned \<in> set ws \<longrightarrow> tp_stop tp \<and> tp_tasks tp = []) \<and>
     (tp_stop tp \<and> \<not> tr_notifyAll r \<longrightarrow> WBlocked \<notin> set ws))"

lemma notified_workers:
  fixes ws :: "'j pool_worker list"
  defines "f \<equiv> \<lambda>w. if w = WBlocked then WReady else w"
  shows "running (map f ws) = running ws" "WBlocked \<notin> set (map f ws)" "WReturned \<in> set (map f ws) \<longleftrightarrow> WReturned \<in> set ws"
  by (induction ws) (auto simp: f_def)

lemma set_workers_simps [simp]:
  "tp_workers (set_workers ws tp) = ws" "tp_tasks (set_workers ws tp) = tp_tasks tp" "tp_stop (set_workers ws tp) = tp_stop tp"
  by (simp_all add: set_workers_def)

lemma pool_inv_step: "pool_step r r' \<Longrightarrow> pool_inv n r \<Longrightarrow> pool_inv n r'"
proof (induction rule: pool_step.induct)
  case (enqueue j r ok tp)
  then show ?case by (auto simp: pool_inv_def Let_def Enqueue_def split: if_splits)
next
  case (stop r ok tp)
  then show ?case by (auto simp: pool_inv_def Let_def Stop_section_def split: if_splits)
next
  case (notify_one r m as bs)
  then show ?case by (auto simp: pool_inv_def Let_def)
next
  case (notify_nobody r m)
  then show ?case by (auto simp: pool_inv_def Let_def)
next
  case (notify_all r)
  then show ?case using notified_workers [of "tp_workers (tr_pool r)"] by (auto simp: pool_inv_def Let_def)
next
  case (spurious r as bs)
  then show ?case by (auto simp: pool_inv_def Let_def)
next
  case (worker r as bs w tp)
  then show ?case
    by (auto simp: pool_inv_def Let_def worker_section_def split: if_splits list.splits)
next
  case (task_done r as j bs)
  then show ?case by (auto simp: pool_inv_def Let_def)
qed

lemma pool_inv_reach:
  assumes "pool_reach n r" "n \<noteq> 0"
  shows "pool_inv (unat n) r"
  using assms(1)
proof (induction rule: rtranclp_induct)
  case base
  have "running (replicate k WReady) = {#}" "WReturned \<notin> set (replicate k WReady)" "WBlocked \<notin> set (replicate k WReady)" for k
    by (induction k) auto
  then show ?case using assms(2)
    by (auto simp: pool_inv_def pool_started_def ThreadPool_Start_def ThreadPool_new_def Let_def)
next
  case (step r r')
  then show ?case by (simp add: pool_inv_step)
qed

section \<open>Properties\<close>

text \<open>
  C24: The pool drains. When \<open>Stop\<close> has joined the workers, every task that was ever accepted has been
  taken, in the order of acceptance, and completed, exactly once; nothing is left in the queue.
\<close>

theorem thread_pool_drains:
  assumes "pool_reach n r" "n \<noteq> 0" "Stop_joined (tr_pool r) = Some tp"
  shows "tp_tasks tp = [] \<and> tr_taken r = tr_accepted r \<and> mset (tr_done r) = mset (tr_accepted r)"
proof -
  have inv: "pool_inv (unat n) r" using assms(1,2) by (rule pool_inv_reach)
  have all: "\<forall>w \<in> set (tp_workers (tr_pool r)). w = WReturned" "tp = (tr_pool r)\<lparr>tp_workers := []\<rparr>"
    using assms(3) by (auto simp: Stop_joined_def split: if_splits)
  have run: "running ws = {#}" if "\<forall>w \<in> set ws. w = WReturned" for ws :: "'a pool_worker list"
    using that by (induction ws) auto
  have "tp_workers (tr_pool r) \<noteq> []" using inv assms(2) by (auto simp: pool_inv_def Let_def unat_eq_0)
  then have "WReturned \<in> set (tp_workers (tr_pool r))" using all(1) by (cases "tp_workers (tr_pool r)") auto
  then show ?thesis using inv run [OF all(1)] all(2) by (auto simp: pool_inv_def Let_def)
qed

text \<open>
  No task is forgotten. While tasks wait, a worker is about to look for one or is busy and will
  look next, or a notification is still to be made; and once \<open>Stop\<close> has notified, no worker
  is blocked, so that \<open>join\<close> waits for tasks only.
\<close>

theorem thread_pool_no_lost_task:
  assumes "pool_reach n r" "n \<noteq> 0"
  shows "(tp_tasks (tr_pool r) = [] \<or> tr_notifyOne r > 0 \<or>
      (\<exists>w \<in> set (tp_workers (tr_pool r)). w = WReady \<or> (\<exists>j. w = WTask j))) \<and>
    (tp_stop (tr_pool r) \<and> \<not> tr_notifyAll r \<longrightarrow> WBlocked \<notin> set (tp_workers (tr_pool r)))"
proof -
  have inv: "pool_inv (unat n) r" using assms by (rule pool_inv_reach)
  have "tp_tasks (tr_pool r) = []"
    if none: "tr_notifyOne r = 0" "\<forall>w \<in> set (tp_workers (tr_pool r)). w \<noteq> WReady \<and> (\<forall>j. w \<noteq> WTask j)"
  proof -
    have "tp_workers (tr_pool r) \<noteq> []" using inv assms(2) by (auto simp: pool_inv_def Let_def unat_eq_0)
    then obtain w where w: "w \<in> set (tp_workers (tr_pool r))" by (cases "tp_workers (tr_pool r)") auto
    have "ready_count (tp_workers (tr_pool r)) = 0" using none(2) by (auto simp: ready_count_def filter_empty_conv)
    then show ?thesis using w none inv by (cases w) (auto simp: pool_inv_def Let_def)
  qed
  then show ?thesis using inv by (auto simp: pool_inv_def Let_def)
qed

text \<open>One worker, one task, then \<open>Stop\<close>.\<close>

lemma pool_example:
  "\<exists>r tp. pool_reach 1 r \<and> Stop_joined (tr_pool r) = Some tp \<and> tr_accepted r = [''task''] \<and> tr_notifyOne r = 1"
proof -
  let ?p = "\<lambda>ts st w b. \<lparr>tp_tasks = ts, tp_stop = st, tp_workers = [w], tp_threadCount = 1, tp_busyThreads = b\<rparr>"
  let ?r = "\<lambda>p na tk dn. \<lparr>tr_pool = p, tr_notifyOne = 1, tr_notifyAll = na, tr_accepted = [''task''], tr_taken = tk, tr_done = dn\<rparr>"
  note I = pool_step.intros
  have "pool_step (pool_started 1) (?r (?p [''task''] False WReady 0) False [] [])"
    using I(1) [of "''task''" "pool_started 1" True "?p [''task''] False WReady 0"]
    by (simp add: pool_started_def ThreadPool_Start_def ThreadPool_new_def Enqueue_def)
  moreover have "pool_step (?r (?p [''task''] False WReady 0) False [] []) (?r (?p [] False (WTask ''task'') 1) False [''task''] [])"
    using I(7) [of "?r (?p [''task''] False WReady 0) False [] []" "[]" "[]" "WTask ''task''" "?p [] False WReady 1"]
    by (simp add: worker_section_def set_workers_def)
  moreover have "pool_step (?r (?p [] False (WTask ''task'') 1) False [''task''] []) (?r (?p [] False WReady 0) False [''task''] [''task''])"
    using I(8) [of "?r (?p [] False (WTask ''task'') 1) False [''task''] []" "[]" "''task''" "[]"] by (simp add: set_workers_def)
  moreover have "pool_step (?r (?p [] False WReady 0) False [''task''] [''task'']) (?r (?p [] True WReady 0) True [''task''] [''task''])"
    using I(2) [of "?r (?p [] False WReady 0) False [''task''] [''task'']" True "?p [] True WReady 0"] by (simp add: Stop_section_def)
  moreover have "pool_step (?r (?p [] True WReady 0) True [''task''] [''task'']) (?r (?p [] True WReturned 0) True [''task''] [''task''])"
    using I(7) [of "?r (?p [] True WReady 0) True [''task''] [''task'']" "[]" "[]" WReturned "?p [] True WReady 0"]
    by (simp add: worker_section_def set_workers_def)
  ultimately have "pool_reach 1 (?r (?p [] True WReturned 0) True [''task''] [''task''])"
    by (meson converse_rtranclp_into_rtranclp rtranclp.rtrancl_refl)
  then show ?thesis
    by (intro exI [of _ "?r (?p [] True WReturned 0) True [''task''] [''task'']"] exI conjI) (simp_all add: Stop_joined_def)
qed

theorem thread_pool_drains_witness:
  "\<exists>(r :: string pool_run) tp. pool_reach 1 r \<and> Stop_joined (tr_pool r) = Some tp \<and> tp_tasks tp = [] \<and> tr_accepted r = [''task''] \<and> mset (tr_done r) = {#''task''#}"
proof -
  obtain r :: "string pool_run" and tp where r: "pool_reach 1 r" "Stop_joined (tr_pool r) = Some tp" "tr_accepted r = [''task'']"
    using pool_example by blast
  have "tp_tasks tp = [] \<and> tr_taken r = tr_accepted r \<and> mset (tr_done r) = mset (tr_accepted r)"
    using thread_pool_drains [OF r(1) _ r(2)] by simp
  with r show ?thesis by (intro exI [of _ r] exI [of _ tp]) simp
qed

theorem thread_pool_no_lost_task_witness:
  "\<exists>r :: string pool_run. tp_tasks (tr_pool r) = [''task''] \<and> (tr_notifyOne r > 0 \<or>
      (\<exists>w \<in> set (tp_workers (tr_pool r)). w = WReady \<or> (\<exists>j. w = WTask j)))"
proof -
  have "pool_step (pool_started 1) ((pool_started 1)\<lparr>tr_pool := (tr_pool (pool_started 1))\<lparr>tp_tasks := [''task'']\<rparr>,
      tr_notifyOne := 1, tr_accepted := [''task'']\<rparr>)" (is "pool_step _ ?r")
    using pool_step.enqueue [of "''task''" "pool_started 1" True "(tr_pool (pool_started 1))\<lparr>tp_tasks := [''task'']\<rparr>"]
    by (simp add: pool_started_def ThreadPool_Start_def ThreadPool_new_def Enqueue_def)
  then have "pool_reach 1 ?r" by (rule r_into_rtranclp)
  from thread_pool_no_lost_task [OF this] show ?thesis by (intro exI [of _ ?r]) simp
qed

end
