(* ===== verification/Listener.thy ===== *)
theory Listener
  imports Session
begin

text \<open>
  \<^verbatim>\<open>ServerEngine/Network/Listener.cpp\<close>, \<^verbatim>\<open>IocpCore.cpp\<close> and the start of the services in \<^verbatim>\<open>Service.cpp\<close>:
  how connections come to be.

  A session is the number of the call of the factory that made it. What the \<open>n\<close>-th call of \<open>AcceptEx\<close>
  returns is \<open>acceptEx n\<close>; the results of the other system calls are arguments. \<open>ae_posted\<close> says that
  the system has the event of an \<open>AcceptEx\<close> and will complete it. \<open>li_connected\<close> are the sessions on
  which \<open>ProcessConnect\<close> has been called.
\<close>

section \<open>State\<close>

record accept_event =
  ae_session :: "nat option"
  ae_owner :: bool
  ae_posted :: bool

record listener =
  li_listenSocket :: bool
  li_service :: bool
  li_acceptEvents :: "accept_event list"
  li_nextSession :: nat
  li_calls :: nat
  li_connected :: "nat list"

definition Listener_new :: listener where
  "Listener_new = \<lparr>li_listenSocket = False, li_service = False, li_acceptEvents = [], li_nextSession = 0,
     li_calls = 0, li_connected = []\<rparr>"

definition AcceptEvent_new :: accept_event where
  "AcceptEvent_new = \<lparr>ae_session = None, ae_owner = False, ae_posted = False\<rparr>"

definition WSAEINTR :: int32 where "WSAEINTR = 10004"
definition WSAENOTSOCK :: int32 where "WSAENOTSOCK = 10038"
definition ERROR_OPERATION_ABORTED :: int32 where "ERROR_OPERATION_ABORTED = 995"

fun os_code :: "os_result \<Rightarrow> int32" where
  "os_code OsDone = 0"
| "os_code (OsError e) = e"

definition upd_event :: "nat \<Rightarrow> (accept_event \<Rightarrow> accept_event) \<Rightarrow> listener \<Rightarrow> listener" where
  "upd_event e f li = li\<lparr>li_acceptEvents := (li_acceptEvents li)[e := f (li_acceptEvents li ! e)]\<rparr>"

section \<open>Operations\<close>

text \<open>\<open>Service::CreateSession\<close>\<close>

definition CreateSession :: "listener \<Rightarrow> nat \<times> listener" where
  "CreateSession li = (li_nextSession li, li\<lparr>li_nextSession := Suc (li_nextSession li)\<rparr>)"

definition call_AcceptEx :: "(nat \<Rightarrow> os_result) \<Rightarrow> nat \<Rightarrow> listener \<Rightarrow> os_result \<times> listener" where
  "call_AcceptEx acceptEx e li =
     (let r = acceptEx (li_calls li); li = li\<lparr>li_calls := Suc (li_calls li)\<rparr> in
      (r, if os_posted r then upd_event e (\<lambda>ev. ev\<lparr>ae_posted := True\<rparr>) li else li))"

partial_function (option) RegisterAccept :: "(nat \<Rightarrow> os_result) \<Rightarrow> nat \<Rightarrow> listener \<Rightarrow> listener option" where
  "RegisterAccept acceptEx e li =
     (if \<not> li_listenSocket li \<or> \<not> li_service li then Some li
      else
        let (session, li1) = CreateSession li;
            li2 = upd_event e (\<lambda>ev. ev\<lparr>ae_owner := True, ae_session := Some session\<rparr>) li1;
            (r, li3) = call_AcceptEx acceptEx e li2 in
        if r \<noteq> OsDone then
          let errorCode = os_code r in
          if errorCode \<noteq> WSA_IO_PENDING then
            if errorCode \<noteq> WSAEINTR \<and> errorCode \<noteq> WSAENOTSOCK \<and> errorCode \<noteq> ERROR_OPERATION_ABORTED \<and>
              li_listenSocket li3
            then RegisterAccept acceptEx e li3
            else Some li3
          else Some li3
        else Some li3)"

text \<open>The last three arguments: \<open>SetUpdateAcceptSocket\<close>, \<open>getpeername\<close> and \<open>Register\<close> succeed.\<close>

definition ProcessAccept ::
    "(nat \<Rightarrow> os_result) \<Rightarrow> bool \<Rightarrow> bool \<Rightarrow> bool \<Rightarrow> nat \<Rightarrow> listener \<Rightarrow> listener option" where
  "ProcessAccept acceptEx updated peer registered e li =
     (if \<not> li_listenSocket li \<or> \<not> li_service li then Some li
      else
        let session = the (ae_session (li_acceptEvents li ! e)) in
        if \<not> updated then RegisterAccept acceptEx e li
        else if \<not> peer then RegisterAccept acceptEx e li
        else if \<not> registered then RegisterAccept acceptEx e li
        else RegisterAccept acceptEx e (li\<lparr>li_connected := li_connected li @ [session]\<rparr>))"

definition Listener_Dispatch ::
    "(nat \<Rightarrow> os_result) \<Rightarrow> bool \<Rightarrow> bool \<Rightarrow> bool \<Rightarrow> EventType \<Rightarrow> nat \<Rightarrow> listener \<Rightarrow> listener option res" where
  "Listener_Dispatch acceptEx updated peer registered eventType e li =
     assert_crash (eventType = EvAccept) (Ok (ProcessAccept acceptEx updated peer registered e li))"

definition Listener_CloseSocket :: "listener \<Rightarrow> listener" where
  "Listener_CloseSocket li = li\<lparr>li_listenSocket := False\<rparr>"

text \<open>The loop over the accept events, \<open>n\<close> of them still to be made.\<close>

fun accept_loop :: "(nat \<Rightarrow> os_result) \<Rightarrow> nat \<Rightarrow> listener \<Rightarrow> listener option" where
  "accept_loop acceptEx 0 li = Some li"
| "accept_loop acceptEx (Suc n) li =
     (let acceptEvent = length (li_acceptEvents li);
          li = li\<lparr>li_acceptEvents := li_acceptEvents li @ [AcceptEvent_new\<lparr>ae_owner := True\<rparr>]\<rparr> in
      Option.bind (RegisterAccept acceptEx acceptEvent li) (accept_loop acceptEx n))"

text \<open>
  \<open>service\<close>: it is not null; then the results of \<open>CreateSocket\<close>, \<open>SetReuseAddress\<close>, \<open>SetLinger\<close>, \<open>Bind\<close>,
  \<open>Listen\<close> and \<open>Register\<close>.
\<close>

definition StartAccept ::
    "(nat \<Rightarrow> os_result) \<Rightarrow> bool \<Rightarrow> bool \<Rightarrow> bool \<Rightarrow> bool \<Rightarrow> bool \<Rightarrow> bool \<Rightarrow> bool \<Rightarrow> listener \<Rightarrow>
     (bool \<times> listener) option" where
  "StartAccept acceptEx service created reuse linger bound listening registered li =
     (let li = li\<lparr>li_service := service\<rparr> in
      if \<not> service then Some (False, li)
      else let li = li\<lparr>li_listenSocket := created\<rparr> in
        if \<not> created then Some (False, li)
        else if \<not> reuse then Some (False, li)
        else if \<not> linger then Some (False, li)
        else if \<not> bound then Some (False, li)
        else if \<not> listening then Some (False, li)
        else if \<not> registered then Some (False, li)
        else Option.bind (accept_loop acceptEx 16 li) (\<lambda>li. Some (True, li)))"

text \<open>
  \<open>IocpCore::Dispatch\<close>: \<open>ok\<close>, \<open>numOfBytes\<close>, \<open>iocpEvent\<close> and \<open>errCode\<close> are what \<open>GetQueuedCompletionStatus\<close>
  gives; \<open>owner\<close> and \<open>clear_owner\<close> are the member of the event, \<open>dispatch_object\<close> the virtual function of the
  object.
\<close>

definition WAIT_TIMEOUT :: int32 where "WAIT_TIMEOUT = 258"

definition IocpCore_Dispatch ::
    "('e \<Rightarrow> 'w \<Rightarrow> 'o option) \<Rightarrow> ('e \<Rightarrow> 'w \<Rightarrow> 'w) \<Rightarrow> ('o \<Rightarrow> 'e \<Rightarrow> int32 \<Rightarrow> 'w \<Rightarrow> 'w) \<Rightarrow>
     bool \<Rightarrow> int32 \<Rightarrow> 'e option \<Rightarrow> int32 \<Rightarrow> 'w \<Rightarrow> bool \<times> 'w" where
  "IocpCore_Dispatch owner clear_owner dispatch_object ok numOfBytes iocpEvent errCode w =
     (let dispatched = (case iocpEvent of None \<Rightarrow> w
        | Some e \<Rightarrow>
          let iocpObject = owner e w; w = clear_owner e w in
          case iocpObject of None \<Rightarrow> w | Some obj \<Rightarrow> dispatch_object obj e numOfBytes w) in
      if ok then (True, dispatched)
      else if errCode = WAIT_TIMEOUT then (False, w)
      else (False, dispatched))"

text \<open>\<open>ClientService::Start\<close>: \<open>connect i\<close> is the result of the \<open>i\<close>-th \<open>Connect\<close>; the sessions made so far.\<close>

fun connect_loop :: "(nat \<Rightarrow> bool) \<Rightarrow> nat \<Rightarrow> nat \<Rightarrow> bool \<times> nat" where
  "connect_loop connect i 0 = (True, i)"
| "connect_loop connect i (Suc n) = (if \<not> connect i then (False, Suc i) else connect_loop connect (Suc i) n)"

definition ClientService_Start :: "bool \<Rightarrow> (nat \<Rightarrow> bool) \<Rightarrow> int32 \<Rightarrow> bool \<times> nat" where
  "ClientService_Start factory connect maxSessionCount =
     (if \<not> factory then (False, 0) else connect_loop connect 0 (nat maxSessionCount))"

definition ServerService_Start ::
    "bool \<Rightarrow> (listener \<Rightarrow> (bool \<times> listener) option) \<Rightarrow> (bool \<times> listener option) option" where
  "ServerService_Start factory startAccept =
     (if \<not> factory then Some (False, None)
      else Option.bind (startAccept Listener_new) (\<lambda>(ok, li). Some (ok, Some li)))"

section \<open>Registering an accept\<close>

text \<open>The results after which \<open>RegisterAccept\<close> calls itself.\<close>

definition retried :: "os_result \<Rightarrow> bool" where
  "retried r \<longleftrightarrow> \<not> os_posted r \<and> os_code r \<notin> {WSAEINTR, WSAENOTSOCK, ERROR_OPERATION_ABORTED}"

definition listening :: "listener \<Rightarrow> bool" where
  "listening li \<longleftrightarrow> li_listenSocket li \<and> li_service li"

text \<open>The state after \<open>n\<close> calls of \<open>AcceptEx\<close> for event \<open>e\<close>, the last of which is posted or not.\<close>

definition after_calls :: "nat \<Rightarrow> nat \<Rightarrow> bool \<Rightarrow> listener \<Rightarrow> listener" where
  "after_calls n e posted li = li\<lparr>li_nextSession := li_nextSession li + n, li_calls := li_calls li + n,
     li_acceptEvents := (li_acceptEvents li)[e := \<lparr>ae_session = Some (li_nextSession li + n - 1), ae_owner = True,
       ae_posted = posted \<or> ae_posted (li_acceptEvents li ! e)\<rparr>]\<rparr>"

lemma RegisterAccept_step:
  assumes "listening li" "e < length (li_acceptEvents li)"
  shows "RegisterAccept acceptEx e li =
    (if retried (acceptEx (li_calls li)) then RegisterAccept acceptEx e (after_calls 1 e False li)
     else Some (after_calls 1 e (os_posted (acceptEx (li_calls li))) li))"
proof -
  let ?r = "acceptEx (li_calls li)"
  let ?li = "upd_event e (\<lambda>ev. ev\<lparr>ae_owner := True, ae_session := Some (li_nextSession li)\<rparr>)
    (li\<lparr>li_nextSession := Suc (li_nextSession li)\<rparr>)"
  have call: "call_AcceptEx acceptEx e ?li = (?r, after_calls 1 e (os_posted ?r) li)"
    using assms(2) by (cases "li_acceptEvents li ! e"; cases li)
      (simp add: call_AcceptEx_def upd_event_def after_calls_def Let_def)
  have open_: "\<not> (\<not> li_listenSocket li \<or> \<not> li_service li)" "li_listenSocket (after_calls 1 e b li)" for b
    using assms(1) by (simp_all add: listening_def after_calls_def)
  show ?thesis
    unfolding RegisterAccept.simps [of acceptEx e li] if_not_P [OF open_(1)] CreateSession_def Let_def split call
    using open_(2) by (cases ?r) (simp_all add: retried_def)
qed

lemma after_calls_simps [simp]:
  "listening (after_calls n e b li) = listening li"
  "length (li_acceptEvents (after_calls n e b li)) = length (li_acceptEvents li)"
  "li_calls (after_calls n e b li) = li_calls li + n" "li_nextSession (after_calls n e b li) = li_nextSession li + n"
  "li_connected (after_calls n e b li) = li_connected li"
  "e' \<noteq> e \<Longrightarrow> li_acceptEvents (after_calls n e b li) ! e' = li_acceptEvents li ! e'"
  "e < length (li_acceptEvents li) \<Longrightarrow> li_acceptEvents (after_calls n e b li) ! e = \<lparr>ae_session = Some (li_nextSession li + n - 1),
     ae_owner = True, ae_posted = b \<or> ae_posted (li_acceptEvents li ! e)\<rparr>"
  by (simp_all add: after_calls_def listening_def)

lemma after_calls_twice:
  "e < length (li_acceptEvents li) \<Longrightarrow> 0 < n \<Longrightarrow> after_calls n e b (after_calls 1 e False li) = after_calls (Suc n) e b li"
  by (simp add: after_calls_def)

lemma RegisterAccept_retries:
  assumes "listening li" "e < length (li_acceptEvents li)" "\<forall>j < k. retried (acceptEx (li_calls li + j))"
    "\<not> retried (acceptEx (li_calls li + k))"
  shows "RegisterAccept acceptEx e li = Some (after_calls (Suc k) e (os_posted (acceptEx (li_calls li + k))) li)"
  using assms
proof (induction k arbitrary: li)
  case 0
  then show ?case using RegisterAccept_step [of li e acceptEx] by simp
next
  case (Suc k)
  let ?li = "after_calls 1 e False li"
  have "retried (acceptEx (li_calls li))" using Suc.prems(3) by (metis add_0_right zero_less_Suc)
  moreover have "\<forall>j < k. retried (acceptEx (li_calls ?li + j))" "\<not> retried (acceptEx (li_calls ?li + k))"
    using Suc.prems(3,4) by auto
  ultimately show ?case
    using RegisterAccept_step [OF Suc.prems(1,2), of acceptEx] Suc.IH [of ?li] Suc.prems(1,2)
      after_calls_twice [OF Suc.prems(2), of "Suc k"] by simp
qed

text \<open>It is never undone that the system posts an accept in the end.\<close>

definition accepts_in_the_end :: "(nat \<Rightarrow> os_result) \<Rightarrow> bool" where
  "accepts_in_the_end acceptEx \<longleftrightarrow> (\<forall>n. retried (acceptEx n) \<or> os_posted (acceptEx n)) \<and> (\<forall>n. \<exists>k \<ge> n. os_posted (acceptEx k))"

lemma RegisterAccept_posts:
  assumes "accepts_in_the_end acceptEx" "listening li" "e < length (li_acceptEvents li)"
  obtains n where "RegisterAccept acceptEx e li = Some (after_calls (Suc n) e True li)"
proof -
  have ex: "\<exists>k. \<not> retried (acceptEx (li_calls li + k))"
    using assms(1) unfolding accepts_in_the_end_def retried_def by (metis le_Suc_ex)
  define k where "k = (LEAST k. \<not> retried (acceptEx (li_calls li + k)))"
  have k: "\<not> retried (acceptEx (li_calls li + k))" "\<forall>j < k. retried (acceptEx (li_calls li + j))"
    using LeastI_ex [OF ex] not_less_Least [of _ "\<lambda>k. \<not> retried (acceptEx (li_calls li + k))"] by (auto simp: k_def)
  moreover have "os_posted (acceptEx (li_calls li + k))" using k(1) assms(1) by (auto simp: accepts_in_the_end_def)
  ultimately show ?thesis using that RegisterAccept_retries [OF assms(2,3) k(2,1)] by simp
qed

text \<open>
  Every accept event is with the system, with a session of its own that is not connected yet.
\<close>

definition all_armed :: "listener \<Rightarrow> bool" where
  "all_armed li \<longleftrightarrow> listening li \<and> (\<forall>ev \<in> set (li_acceptEvents li). ae_posted ev \<and> ae_owner ev) \<and>
     (\<exists>ss. map ae_session (li_acceptEvents li) = map Some ss \<and> distinct (li_connected li @ ss) \<and>
       (\<forall>s \<in> set (li_connected li @ ss). s < li_nextSession li))"

lemma all_armed_add:
  assumes "all_armed li" "e = length (li_acceptEvents li)" "li1 = li\<lparr>li_acceptEvents := li_acceptEvents li @ [ev]\<rparr>"
  shows "all_armed (after_calls (Suc n) e True li1)"
proof -
  obtain ss where ss: "map ae_session (li_acceptEvents li) = map Some ss" "distinct (li_connected li @ ss)"
      "\<forall>s \<in> set (li_connected li @ ss). s < li_nextSession li"
    using assms(1) by (auto simp: all_armed_def)
  let ?s = "li_nextSession li + n"
  have "map ae_session (li_acceptEvents (after_calls (Suc n) e True li1)) = map Some (ss @ [?s])"
    using ss(1) assms(2,3) by (simp add: after_calls_def)
  moreover have "distinct (li_connected li @ ss @ [?s])" using ss(2,3) by fastforce
  moreover have "s < Suc (li_nextSession li + n)" if "s \<in> set (li_connected li @ ss)" for s
    using ss(3) that by fastforce
  ultimately show ?thesis
    using assms ss(3) unfolding all_armed_def
    by (auto simp: after_calls_def listening_def intro!: exI [of _ "ss @ [?s]"])
qed

lemma accept_loop_armed:
  assumes "accepts_in_the_end acceptEx" "all_armed li"
  shows "\<exists>li'. accept_loop acceptEx n li = Some li' \<and> all_armed li' \<and>
    length (li_acceptEvents li') = length (li_acceptEvents li) + n \<and> li_connected li' = li_connected li"
  using assms(2)
proof (induction n arbitrary: li)
  case (Suc n)
  let ?e = "length (li_acceptEvents li)"
  let ?li = "li\<lparr>li_acceptEvents := li_acceptEvents li @ [AcceptEvent_new\<lparr>ae_owner := True\<rparr>]\<rparr>"
  have "listening ?li" "?e < length (li_acceptEvents ?li)"
    using Suc.prems by (simp_all add: all_armed_def listening_def)
  then obtain k where k: "RegisterAccept acceptEx ?e ?li = Some (after_calls (Suc k) ?e True ?li)"
    using RegisterAccept_posts [OF assms(1)] by blast
  have "all_armed (after_calls (Suc k) ?e True ?li)" by (rule all_armed_add [OF Suc.prems refl refl])
  from Suc.IH [OF this] k show ?case by (auto simp: Let_def)
qed simp

text \<open>The completion of the event \<open>e\<close>: \<open>IocpCore::Dispatch\<close> takes its owner.\<close>

definition completed :: "nat \<Rightarrow> listener \<Rightarrow> listener" where
  "completed e li = upd_event e (\<lambda>ev. ev\<lparr>ae_owner := False, ae_posted := False\<rparr>) li"

lemma all_armed_rearm:
  assumes "all_armed li" "e < length (li_acceptEvents li)" "ae_session (li_acceptEvents li ! e) = Some s"
    "conn = li_connected li \<or> conn = li_connected li @ [s]"
  shows "all_armed (after_calls (Suc n) e True ((completed e li)\<lparr>li_connected := conn\<rparr>))"
proof -
  obtain ss where ss: "map ae_session (li_acceptEvents li) = map Some ss" "distinct (li_connected li @ ss)"
      "\<forall>s \<in> set (li_connected li @ ss). s < li_nextSession li"
    using assms(1) by (auto simp: all_armed_def)
  have len: "length ss = length (li_acceptEvents li)" using ss(1) by (metis length_map)
  have "Some (ss ! e) = Some s" using ss(1) assms(2,3) len by (metis nth_map)
  then have s: "ss ! e = s" "s \<in> set ss" using assms(2) len by auto
  let ?x = "li_nextSession li + n" let ?ss = "ss[e := ?x]"
  let ?li = "after_calls (Suc n) e True ((completed e li)\<lparr>li_connected := conn\<rparr>)"
  have set_ss: "set ?ss = insert ?x (set ss - {s})"
    using ss(2) len assms(2) s(1) by (simp add: set_update_distinct)
  have new: "?x \<notin> set ss" "?x \<notin> set (li_connected li)" using ss(3) by fastforce+
  have "distinct ?ss" using ss(2) new by (intro distinct_list_update) auto
  then have "distinct (conn @ ?ss)" using assms(4) ss(2) set_ss s(2) new by auto
  moreover have "map ae_session (li_acceptEvents ?li) = map Some ?ss"
    using ss(1) by (simp add: after_calls_def completed_def upd_event_def map_update)
  moreover have "y < Suc (li_nextSession li + n)" if "y \<in> set (conn @ ?ss)" for y
  proof -
    have "set conn \<subseteq> insert s (set (li_connected li))" using assms(4) by (elim disjE) auto
    then have "y \<in> set (li_connected li @ ss) \<or> y = ?x" using that set_ss s(2) unfolding set_append by blast
    then have "y < li_nextSession li \<or> y = ?x" using ss(3) by blast
    then show ?thesis by auto
  qed
  moreover have "\<forall>ev \<in> set (li_acceptEvents ?li). ae_posted ev \<and> ae_owner ev"
    using assms(1,2) by (auto simp: all_armed_def after_calls_def completed_def upd_event_def dest!: set_update_subset_insert [THEN subsetD])
  ultimately show ?thesis
    using assms(1) unfolding all_armed_def
    by (auto simp: after_calls_def completed_def upd_event_def listening_def intro!: exI [of _ ?ss])
qed

lemma all_armed_accept:
  assumes "accepts_in_the_end acceptEx" "all_armed li" "e < length (li_acceptEvents li)"
  shows "\<exists>li' s. ProcessAccept acceptEx updated peer registered e (completed e li) = Some li' \<and> all_armed li' \<and>
    length (li_acceptEvents li') = length (li_acceptEvents li) \<and>
    li_connected li' = li_connected li @ (if updated \<and> peer \<and> registered then [s] else [])"
proof -
  obtain ss where ss: "map ae_session (li_acceptEvents li) = map Some ss" using assms(2) by (auto simp: all_armed_def)
  then obtain s where s: "ae_session (li_acceptEvents li ! e) = Some s"
    using assms(3) by (metis length_map nth_map)
  let ?conn = "li_connected li @ (if updated \<and> peer \<and> registered then [s] else [])"
  let ?li = "(completed e li)\<lparr>li_connected := ?conn\<rparr>"
  have c: "listening ?li" "e < length (li_acceptEvents ?li)" "listening (completed e li)"
    "ae_session (li_acceptEvents (completed e li) ! e) = Some s" "li_connected (completed e li) = li_connected li"
    using assms(2,3) s by (simp_all add: all_armed_def listening_def completed_def upd_event_def)
  obtain n where n: "RegisterAccept acceptEx e ?li = Some (after_calls (Suc n) e True ?li)"
    using RegisterAccept_posts [OF assms(1) c(1,2)] by blast
  have same: "?li = completed e li" if "\<not> (updated \<and> peer \<and> registered)" using that c(5) by auto
  have "ProcessAccept acceptEx updated peer registered e (completed e li) = RegisterAccept acceptEx e ?li"
  proof (cases "updated \<and> peer \<and> registered")
    case True
    then show ?thesis using c(3,4,5) by (simp add: ProcessAccept_def listening_def)
  next
    case False
    show ?thesis unfolding same [OF False] using c(3) False by (auto simp: ProcessAccept_def listening_def)
  qed
  moreover have "all_armed (after_calls (Suc n) e True ?li)" by (rule all_armed_rearm [OF assms(2,3) s]) simp
  moreover have "length (li_acceptEvents (completed e li)) = length (li_acceptEvents li)"
    by (simp add: completed_def upd_event_def)
  ultimately show ?thesis using n by auto
qed

text \<open>Connections accepted one after the other: the event, and whether the three checks succeed.\<close>

fun accept_run :: "(nat \<Rightarrow> os_result) \<Rightarrow> (nat \<times> bool \<times> bool \<times> bool) list \<Rightarrow> listener \<Rightarrow> listener option" where
  "accept_run acceptEx [] li = Some li"
| "accept_run acceptEx ((e, u, p, r) # cs) li =
     Option.bind (ProcessAccept acceptEx u p r e (completed e li)) (accept_run acceptEx cs)"

lemma accept_run_armed:
  assumes "accepts_in_the_end acceptEx" "all_armed li" "\<forall>(e, x) \<in> set cs. e < length (li_acceptEvents li)"
  shows "\<exists>li' ss. accept_run acceptEx cs li = Some li' \<and> all_armed li' \<and>
    length (li_acceptEvents li') = length (li_acceptEvents li) \<and> li_connected li' = li_connected li @ ss \<and>
    length ss = length (filter (\<lambda>(e, u, p, r). u \<and> p \<and> r) cs)"
  using assms(2,3)
proof (induction cs arbitrary: li)
  case (Cons c cs)
  obtain e u p r where c: "c = (e, u, p, r)" by (cases c) auto
  obtain li1 s where li1: "ProcessAccept acceptEx u p r e (completed e li) = Some li1" "all_armed li1"
      "length (li_acceptEvents li1) = length (li_acceptEvents li)"
      "li_connected li1 = li_connected li @ (if u \<and> p \<and> r then [s] else [])"
    using all_armed_accept [OF assms(1) Cons.prems(1), of e u p r] Cons.prems(2) c by auto
  obtain li' ss where "accept_run acceptEx cs li1 = Some li'" "all_armed li'"
      "length (li_acceptEvents li') = length (li_acceptEvents li1)" "li_connected li' = li_connected li1 @ ss"
      "length ss = length (filter (\<lambda>(e, u, p, r). u \<and> p \<and> r) cs)"
    using Cons.IH [OF li1(2)] Cons.prems(2) li1(3) by auto
  with li1 c show ?case by auto
qed simp

section \<open>Properties\<close>

text \<open>Accepting starts, with sixteen events under way.\<close>

lemma listener_start:
  assumes "accepts_in_the_end acceptEx"
  shows "\<exists>li. StartAccept acceptEx True True True True True True True Listener_new = Some (True, li) \<and>
    all_armed li \<and> length (li_acceptEvents li) = 16 \<and> li_connected li = []"
proof -
  let ?li = "Listener_new\<lparr>li_service := True, li_listenSocket := True\<rparr>"
  have start: "all_armed ?li" by (simp add: all_armed_def listening_def Listener_new_def)
  obtain li where "accept_loop acceptEx 16 ?li = Some li" "all_armed li" "length (li_acceptEvents li) = 16"
      "li_connected li = []"
    using accept_loop_armed [OF assms start, of 16] by (auto simp: Listener_new_def)
  then show ?thesis by (auto simp: StartAccept_def Let_def)
qed

text \<open>
  C27: The listener keeps sixteen accepts open. If \<open>AcceptEx\<close> fails only for a while, \<open>StartAccept\<close> and
  every \<open>ProcessAccept\<close> return; after any sequence of completions all sixteen events are with the
  system again, each with a session that has not been connected, and \<open>ProcessConnect\<close> has been called
  once for every completion that passed its checks, each time on another session.
\<close>

theorem listener_keeps_accepting:
  assumes "accepts_in_the_end acceptEx" "\<forall>(e, x) \<in> set cs. e < 16"
  shows "\<exists>li li'. StartAccept acceptEx True True True True True True True Listener_new = Some (True, li) \<and>
    accept_run acceptEx cs li = Some li' \<and> all_armed li' \<and> length (li_acceptEvents li') = 16 \<and>
    distinct (li_connected li') \<and> length (li_connected li') = length (filter (\<lambda>(e, u, p, r). u \<and> p \<and> r) cs)"
proof -
  obtain li where li: "StartAccept acceptEx True True True True True True True Listener_new = Some (True, li)"
      "all_armed li" "length (li_acceptEvents li) = 16" "li_connected li = []"
    using listener_start [OF assms(1)] by blast
  obtain li' ss where li': "accept_run acceptEx cs li = Some li'" "all_armed li'" "length (li_acceptEvents li') = 16"
      "li_connected li' = ss" "length ss = length (filter (\<lambda>(e, u, p, r). u \<and> p \<and> r) cs)"
    using accept_run_armed [OF assms(1) li(2), of cs] assms(2) li(3,4) by auto
  have "distinct (li_connected li')" using li'(2) by (auto simp: all_armed_def)
  with li li' show ?thesis by blast
qed

theorem listener_keeps_accepting_witness:
  "\<exists>li li'. StartAccept (\<lambda>n. if n = 3 then OsError 10055 else OsError WSA_IO_PENDING) True True True True True True True
       Listener_new = Some (True, li) \<and>
     accept_run (\<lambda>n. if n = 3 then OsError 10055 else OsError WSA_IO_PENDING) [(0, True, True, True), (5, True, False, True)] li =
       Some li' \<and> length (li_connected li') = 1"
proof -
  have "accepts_in_the_end (\<lambda>n. if n = 3 then OsError 10055 else OsError WSA_IO_PENDING)"
    unfolding accepts_in_the_end_def
    by (auto simp: retried_def WSA_IO_PENDING_def WSAEINTR_def WSAENOTSOCK_def ERROR_OPERATION_ABORTED_def)
      (metis Suc_n_not_le_n lessI less_or_eq_imp_le)
  from listener_keeps_accepting [OF this, of "[(0, True, True, True), (5, True, False, True)]"] show ?thesis by auto
qed

text \<open>
  An error of \<open>AcceptEx\<close> that stays makes \<open>RegisterAccept\<close> call itself without end, with a new
  session, and so a new socket, each time.
\<close>

theorem accept_error_recurses_forever:
  assumes "li_listenSocket li" "li_service li" "e < length (li_acceptEvents li)" "\<forall>n \<ge> li_calls li. retried (acceptEx n)"
  shows "RegisterAccept acceptEx e li = None"
proof -
  define P where "P \<equiv> \<lambda>acceptEx e li (_ :: listener). \<not> (listening li \<and> e < length (li_acceptEvents li) \<and>
    (\<forall>n \<ge> li_calls li. retried (acceptEx n)))"
  have "P acceptEx e li li'" if "RegisterAccept acceptEx e li = Some li'" for li'
  proof (rule RegisterAccept.raw_induct [where P = P, OF _ that])
    fix f :: "(nat \<Rightarrow> os_result) \<Rightarrow> nat \<Rightarrow> listener \<Rightarrow> listener option" and acceptEx e li li'
    assume ih: "\<And>acceptEx e li li'. f acceptEx e li = Some li' \<Longrightarrow> P acceptEx e li li'"
    assume body: "(if \<not> li_listenSocket li \<or> \<not> li_service li then Some li
      else let (session, li1) = CreateSession li;
             li2 = upd_event e (\<lambda>ev. ev\<lparr>ae_owner := True, ae_session := Some session\<rparr>) li1;
             (r, li3) = call_AcceptEx acceptEx e li2
           in if r \<noteq> OsDone
              then let errorCode = os_code r
                in if errorCode \<noteq> WSA_IO_PENDING
                   then if errorCode \<noteq> WSAEINTR \<and> errorCode \<noteq> WSAENOTSOCK \<and>
                       errorCode \<noteq> ERROR_OPERATION_ABORTED \<and> li_listenSocket li3
                     then f acceptEx e li3 else Some li3
                   else Some li3
              else Some li3) = Some li'"
    show "P acceptEx e li li'"
      unfolding P_def
    proof
      assume a: "listening li \<and> e < length (li_acceptEvents li) \<and> (\<forall>n \<ge> li_calls li. retried (acceptEx n))"
      let ?r = "acceptEx (li_calls li)"
      let ?li = "upd_event e (\<lambda>ev. ev\<lparr>ae_owner := True, ae_session := Some (li_nextSession li)\<rparr>)
        (li\<lparr>li_nextSession := Suc (li_nextSession li)\<rparr>)"
      have r: "retried ?r" using a by simp
      then have code: "?r \<noteq> OsDone" "os_code ?r \<noteq> WSA_IO_PENDING" "\<not> os_posted ?r"
        "os_code ?r \<noteq> WSAEINTR \<and> os_code ?r \<noteq> WSAENOTSOCK \<and> os_code ?r \<noteq> ERROR_OPERATION_ABORTED"
        by (cases ?r; auto simp: retried_def)+
      have call: "call_AcceptEx acceptEx e ?li = (?r, ?li\<lparr>li_calls := Suc (li_calls li)\<rparr>)"
        using code(3) by (simp add: call_AcceptEx_def upd_event_def Let_def)
      have "f acceptEx e (?li\<lparr>li_calls := Suc (li_calls li)\<rparr>) = Some li'"
        using body a code call by (simp add: listening_def CreateSession_def upd_event_def)
      from ih [OF this] show False using a by (auto simp: P_def listening_def upd_event_def dest: Suc_leD)
    qed
  qed
  then show ?thesis using assms by (cases "RegisterAccept acceptEx e li") (auto simp: P_def listening_def)
qed

text \<open>\<open>WSAENOBUFS\<close>\<close>

theorem accept_error_recurses_forever_witness:
  "RegisterAccept (\<lambda>_. OsError 10055) 0 (Listener_new\<lparr>li_service := True, li_listenSocket := True,
     li_acceptEvents := [AcceptEvent_new]\<rparr>) = None"
  by (rule accept_error_recurses_forever)
    (simp_all add: Listener_new_def retried_def WSA_IO_PENDING_def WSAEINTR_def WSAENOTSOCK_def ERROR_OPERATION_ABORTED_def)

end
