(* ===== verification/LatencyMonitor.thy ===== *)
theory LatencyMonitor
  imports Prelude Complex_Main "HOL-Library.Multiset"
begin

text \<open>
  \<^verbatim>\<open>DummyClient/Monitoring/LatencyMonitor.h\<close>: a histogram of round-trip times that any number of
  threads record into without a lock.

  \<open>sample_step\<close> is \<open>RecordSample\<close> from one atomic access to the next; \<open>spurious\<close> says that
  \<open>compare_exchange_weak\<close> fails although it need not. \<open>RecordSample\<close> itself is the call that nothing
  interferes with. Doubles are reals; \<open>fl\<close> is the rounding of the processor, applied to the result of
  every operation and of every conversion that may be inexact.
\<close>

section \<open>State and operations\<close>

record latency =
  lm_buckets :: "uint32 list"
  lm_totalCount :: uint64
  lm_totalLatencyUs :: uint64
  lm_minLatencyUs :: uint32
  lm_maxLatencyUs :: uint32

definition BUCKET_RESOLUTION_US :: int32 where "BUCKET_RESOLUTION_US = 100"
definition MAX_TRACKED_US :: int32 where "MAX_TRACKED_US = 1000000"
definition NUM_BUCKETS :: int32 where "NUM_BUCKETS = MAX_TRACKED_US div BUCKET_RESOLUTION_US + 1"

definition UINT32_MAX :: uint32 where "UINT32_MAX = 4294967295"

definition latency_start :: latency where
  "latency_start = \<lparr>lm_buckets = replicate (nat NUM_BUCKETS) 0, lm_totalCount = 0, lm_totalLatencyUs = 0,
     lm_minLatencyUs = UINT32_MAX, lm_maxLatencyUs = 0\<rparr>"

definition LatencyMonitor_Reset :: "latency \<Rightarrow> latency" where
  "LatencyMonitor_Reset m = m\<lparr>lm_buckets := map (\<lambda>_. 0) (lm_buckets m), lm_totalCount := 0,
     lm_totalLatencyUs := 0, lm_minLatencyUs := UINT32_MAX, lm_maxLatencyUs := 0\<rparr>"

definition bucket_index :: "uint64 \<Rightarrow> int32" where
  "bucket_index rttUs =
     (let bucketIdx = to_int32 (uint rttUs div BUCKET_RESOLUTION_US) in
      if bucketIdx \<ge> NUM_BUCKETS then NUM_BUCKETS - 1 else bucketIdx)"

definition bucket_add :: "int32 \<Rightarrow> latency \<Rightarrow> latency res" where
  "bucket_add i m =
     (if 0 \<le> i \<and> nat i < length (lm_buckets m)
      then Ok (m\<lparr>lm_buckets := (lm_buckets m)[nat i := lm_buckets m ! nat i + 1]\<rparr>) else Crash OutOfBounds)"

datatype sample_pc = STotal | SSum | SLoadMin | SCasMin uint32 | SLoadMax | SCasMax uint32 | SBucket | SDone

fun sample_step :: "bool \<Rightarrow> uint64 \<Rightarrow> sample_pc \<times> latency \<Rightarrow> (sample_pc \<times> latency) res" where
  "sample_step spurious rttUs (STotal, m) = Ok (SSum, m\<lparr>lm_totalCount := lm_totalCount m + 1\<rparr>)"
| "sample_step spurious rttUs (SSum, m) = Ok (SLoadMin, m\<lparr>lm_totalLatencyUs := lm_totalLatencyUs m + rttUs\<rparr>)"
| "sample_step spurious rttUs (SLoadMin, m) = Ok (SCasMin (lm_minLatencyUs m), m)"
| "sample_step spurious rttUs (SCasMin currentMin, m) =
     (if \<not> uint rttUs < uint currentMin then Ok (SLoadMax, m)
      else if lm_minLatencyUs m = currentMin \<and> \<not> spurious then Ok (SLoadMax, m\<lparr>lm_minLatencyUs := ucast rttUs\<rparr>)
      else Ok (SCasMin (lm_minLatencyUs m), m))"
| "sample_step spurious rttUs (SLoadMax, m) = Ok (SCasMax (lm_maxLatencyUs m), m)"
| "sample_step spurious rttUs (SCasMax currentMax, m) =
     (if \<not> uint rttUs > uint currentMax then Ok (SBucket, m)
      else if lm_maxLatencyUs m = currentMax \<and> \<not> spurious then Ok (SBucket, m\<lparr>lm_maxLatencyUs := ucast rttUs\<rparr>)
      else Ok (SCasMax (lm_maxLatencyUs m), m))"
| "sample_step spurious rttUs (SBucket, m) = res_bind (bucket_add (bucket_index rttUs) m) (\<lambda>m. Ok (SDone, m))"
| "sample_step spurious rttUs (SDone, m) = Ok (SDone, m)"

definition RecordSample :: "uint64 \<Rightarrow> latency \<Rightarrow> latency res" where
  "RecordSample rttUs m =
     (let m = m\<lparr>lm_totalCount := lm_totalCount m + 1\<rparr>;
          m = m\<lparr>lm_totalLatencyUs := lm_totalLatencyUs m + rttUs\<rparr>;
          m = (if uint rttUs < uint (lm_minLatencyUs m) then m\<lparr>lm_minLatencyUs := ucast rttUs\<rparr> else m);
          m = (if uint rttUs > uint (lm_maxLatencyUs m) then m\<lparr>lm_maxLatencyUs := ucast rttUs\<rparr> else m) in
      bucket_add (bucket_index rttUs) m)"

definition GetAverageMs :: "(real \<Rightarrow> real) \<Rightarrow> latency \<Rightarrow> real" where
  "GetAverageMs fl m =
     (let n = lm_totalCount m in
      if n = 0 then 0
      else fl (fl (real (unat (lm_totalLatencyUs m))) / fl (fl (real (unat n)) * 1000)))"

definition GetMinMs :: "(real \<Rightarrow> real) \<Rightarrow> latency \<Rightarrow> real" where
  "GetMinMs fl m =
     (let minUs = lm_minLatencyUs m in if minUs = UINT32_MAX then 0 else fl (real (unat minUs) / 1000))"

definition GetMaxMs :: "(real \<Rightarrow> real) \<Rightarrow> latency \<Rightarrow> real" where
  "GetMaxMs fl m = fl (real (unat (lm_maxLatencyUs m)) / 1000)"

text \<open>The loop over the buckets from the \<open>i\<close>-th on: the bucket at which it returns.\<close>

fun percentile_loop :: "uint64 \<Rightarrow> nat \<Rightarrow> uint64 \<Rightarrow> uint32 list \<Rightarrow> nat option" where
  "percentile_loop targetRank i accumulated [] = None"
| "percentile_loop targetRank i accumulated (b # bs) =
     (let accumulated = accumulated + ucast b in
      if accumulated \<ge> targetRank then Some i else percentile_loop targetRank (Suc i) accumulated bs)"

definition percentile_rank :: "(real \<Rightarrow> real) \<Rightarrow> real \<Rightarrow> uint64 \<Rightarrow> uint64" where
  "percentile_rank fl percentile n =
     (let targetRank = of_int \<lfloor>fl (fl (real (unat n)) * fl (percentile / 100))\<rfloor> in
      if targetRank = 0 then 1 else targetRank)"

definition bucket_middle :: "(real \<Rightarrow> real) \<Rightarrow> nat \<Rightarrow> real" where
  "bucket_middle fl i = fl (fl (real i * 100 + 50) / 1000)"

definition GetPercentileMs :: "(real \<Rightarrow> real) \<Rightarrow> real \<Rightarrow> latency \<Rightarrow> real" where
  "GetPercentileMs fl percentile m =
     (let totalCount = lm_totalCount m in
      if totalCount = 0 then 0
      else case percentile_loop (percentile_rank fl percentile totalCount) 0 0 (lm_buckets m) of
          Some i \<Rightarrow> bucket_middle fl i
        | None \<Rightarrow> GetMaxMs fl m)"

section \<open>Recording from many threads\<close>

text \<open>The calls of \<open>RecordSample\<close> made so far, each with its argument and its position.\<close>

type_synonym calls = "(uint64 \<times> sample_pc) multiset"

inductive lat_step :: "calls \<times> latency \<Rightarrow> calls \<times> latency \<Rightarrow> bool" where
  call: "lat_step (M, m) (add_mset (rttUs, STotal) M, m)"
| access: "sample_step spurious rttUs (pc, m) = Ok (pc', m') \<Longrightarrow>
    lat_step (add_mset (rttUs, pc) M, m) (add_mset (rttUs, pc') M, m')"

abbreviation lat_reach :: "calls \<Rightarrow> latency \<Rightarrow> bool" where
  "lat_reach M m \<equiv> lat_step\<^sup>*\<^sup>* ({#}, latency_start) (M, m)"

lemma RecordSample_alone:
  "((\<lambda>s. res_bind s (sample_step False rttUs)) ^^ 7) (Ok (STotal, m)) = res_bind (RecordSample rttUs m) (\<lambda>m. Ok (SDone, m))"
  by (simp add: numeral_eq_Suc RecordSample_def Let_def)

text \<open>The arguments of the calls that have come past the access \<open>k\<close>.\<close>

fun pc_rank :: "sample_pc \<Rightarrow> nat" where
  "pc_rank STotal = 0"
| "pc_rank SSum = 1"
| "pc_rank SLoadMin = 2"
| "pc_rank (SCasMin _) = 3"
| "pc_rank SLoadMax = 4"
| "pc_rank (SCasMax _) = 5"
| "pc_rank SBucket = 6"
| "pc_rank SDone = 7"

definition passed :: "nat \<Rightarrow> calls \<Rightarrow> uint64 multiset" where
  "passed k M = image_mset fst (filter_mset (\<lambda>c. k \<le> pc_rank (snd c)) M)"

lemma passed_simps [simp]:
  "passed k {#} = {#}"
  "passed k (add_mset c M) = (if k \<le> pc_rank (snd c) then add_mset (fst c) (passed k M) else passed k M)"
  by (simp_all add: passed_def)

lemma passed_subset: "x \<in># passed k M \<Longrightarrow> x \<in># image_mset fst M"
  by (auto simp: passed_def)

definition in_bucket :: "nat \<Rightarrow> uint64 multiset \<Rightarrow> nat" where
  "in_bucket i xs = size (filter_mset (\<lambda>x. bucket_index x = int i) xs)"

lemma in_bucket_simps [simp]:
  "in_bucket i {#} = 0"
  "in_bucket i (add_mset x xs) = (if bucket_index x = int i then Suc (in_bucket i xs) else in_bucket i xs)"
  by (simp_all add: in_bucket_def)

definition is_min :: "uint32 \<Rightarrow> uint64 multiset \<Rightarrow> bool" where
  "is_min l xs \<longleftrightarrow> (\<forall>x \<in># xs. uint l \<le> uint x) \<and> (l = UINT32_MAX \<or> ucast l \<in># xs)"

definition is_max :: "uint32 \<Rightarrow> uint64 multiset \<Rightarrow> bool" where
  "is_max u xs \<longleftrightarrow> (\<forall>x \<in># xs. uint x \<le> uint u) \<and> (u = 0 \<or> ucast u \<in># xs)"

definition small :: "uint64 \<Rightarrow> bool" where
  "small x \<longleftrightarrow> uint x < 4294967296"

fun call_ok :: "latency \<Rightarrow> uint64 \<times> sample_pc \<Rightarrow> bool" where
  "call_ok m (x, SCasMin l) = (uint (lm_minLatencyUs m) \<le> uint l)"
| "call_ok m (x, SCasMax u) = (uint u \<le> uint (lm_maxLatencyUs m))"
| "call_ok m _ = True"

definition lat_inv :: "calls \<Rightarrow> latency \<Rightarrow> bool" where
  "lat_inv M m \<longleftrightarrow> length (lm_buckets m) = nat NUM_BUCKETS \<and>
     lm_totalCount m = of_nat (size (passed 1 M)) \<and> lm_totalLatencyUs m = sum_mset (passed 2 M) \<and>
     (\<forall>i < nat NUM_BUCKETS. lm_buckets m ! i = of_nat (in_bucket i (passed 7 M))) \<and>
     is_min (lm_minLatencyUs m) (passed 4 M) \<and> is_max (lm_maxLatencyUs m) (passed 6 M) \<and>
     (\<forall>c \<in># M. call_ok m c)"

lemma small_ucast:
  assumes "small x"
  shows "uint (ucast x :: uint32) = uint x" "ucast (ucast x :: uint32) = x"
proof -
  have "uint x mod 2 ^ LENGTH(32) = uint x"
    using assms unfolding small_def by (intro mod_pos_pos_trivial) simp_all
  then show u: "uint (ucast x :: uint32) = uint x" unfolding ucast_eq uint_word_of_int .
  show "ucast (ucast x :: uint32) = x" unfolding ucast_eq [of "ucast x :: uint32"] u by simp
qed

lemma lat_inv_step:
  assumes "lat_step (M, m) (M', m')" "lat_inv M m" "\<forall>c \<in># M'. small (fst c)"
  shows "lat_inv M' m'"
  using assms(1)
proof cases
  case (call rttUs)
  then show ?thesis using assms(2) by (auto simp: lat_inv_def)
next
  case (access spurious rttUs pc pc' K)
  have inv: "lat_inv (add_mset (rttUs, pc) K) m" using assms(2) access by simp
  have s: "small rttUs" using assms(3) access by simp
  note u = small_ucast [OF s]
  note defs = lat_inv_def is_min_def is_max_def
  have others: "\<forall>c \<in># K. call_ok m' c"
    if "uint (lm_minLatencyUs m') \<le> uint (lm_minLatencyUs m)" "uint (lm_maxLatencyUs m) \<le> uint (lm_maxLatencyUs m')"
  proof
    fix c assume "c \<in># K"
    then have "call_ok m c" using inv by (simp add: lat_inv_def)
    then show "call_ok m' c" using that by (cases "(m, c)" rule: call_ok.cases) auto
  qed
  show ?thesis
  proof (cases pc)
    case (SCasMin l)
    then consider "m' = m" "pc' = SLoadMax" "uint l \<le> uint rttUs" | "m' = m" "pc' = SCasMin (lm_minLatencyUs m)"
      | "m' = m\<lparr>lm_minLatencyUs := ucast rttUs\<rparr>" "pc' = SLoadMax" "uint rttUs < uint (lm_minLatencyUs m)"
      using access(3) by (auto split: if_splits)
    then show ?thesis
    proof cases
      case 1
      then show ?thesis using inv access(1,2) SCasMin by (fastforce simp: defs)
    next
      case 2
      then show ?thesis using inv access(1,2) SCasMin by (simp add: defs)
    next
      case 3
      then have "is_min (ucast rttUs) (add_mset rttUs (passed 4 K))"
        using inv u SCasMin by (fastforce simp: defs)
      with 3 show ?thesis using inv others access(1,2) SCasMin u by (simp add: lat_inv_def)
    qed
  next
    case (SCasMax l)
    then consider "m' = m" "pc' = SBucket" "uint rttUs \<le> uint l" | "m' = m" "pc' = SCasMax (lm_maxLatencyUs m)"
      | "m' = m\<lparr>lm_maxLatencyUs := ucast rttUs\<rparr>" "pc' = SBucket" "uint (lm_maxLatencyUs m) < uint rttUs"
      using access(3) by (auto split: if_splits)
    then show ?thesis
    proof cases
      case 1
      then show ?thesis using inv access(1,2) SCasMax by (fastforce simp: defs)
    next
      case 2
      then show ?thesis using inv access(1,2) SCasMax by (simp add: defs)
    next
      case 3
      then have "is_max (ucast rttUs) (add_mset rttUs (passed 6 K))"
        using inv u SCasMax by (fastforce simp: defs)
      with 3 show ?thesis using inv others access(1,2) SCasMax u by (simp add: lat_inv_def)
    qed
  next
    case SBucket
    then show ?thesis
      using inv access others by (auto simp: lat_inv_def bucket_add_def res_iff nth_list_update split: if_splits)
  qed (use inv access others in \<open>auto simp: lat_inv_def\<close>)
qed

lemma lat_step_calls: "lat_step (M, m) (M', m') \<Longrightarrow> \<forall>c \<in># M'. small (fst c) \<Longrightarrow> \<forall>c \<in># M. small (fst c)"
  by (erule lat_step.cases) auto

lemma lat_inv_reach: "lat_reach M m \<Longrightarrow> \<forall>c \<in># M. small (fst c) \<Longrightarrow> lat_inv M m"
proof (induction "({#} :: calls, latency_start)" "(M, m)" arbitrary: M m rule: rtranclp.induct)
  case rtrancl_refl
  have "in_bucket i {#} = 0" for i by simp
  then show ?case by (simp add: lat_inv_def latency_start_def is_min_def is_max_def)
next
  case (rtrancl_into_rtrancl b)
  obtain K k where "b = (K, k)" by (cases b)
  then show ?case
    using rtrancl_into_rtrancl lat_step_calls [of K k M m] lat_inv_step [of K k M m] by blast
qed

text \<open>The calls have all returned: what they were given.\<close>

definition samples :: "calls \<Rightarrow> uint64 multiset" where
  "samples M = image_mset fst M"

lemma passed_done: "\<forall>c \<in># M. snd c = SDone \<Longrightarrow> k \<le> 7 \<Longrightarrow> passed k M = samples M"
  by (induction M) (auto simp: samples_def)

lemma bucket_index_small:
  assumes "small x"
  shows "bucket_index x = min (uint x div 100) 10000"
proof -
  have "uint x div 100 \<le> 4294967295 div 100"
    using assms by (intro zdiv_mono1) (simp_all add: small_def)
  moreover have "0 \<le> uint x div 100" by (simp add: pos_imp_zdiv_nonneg_iff)
  ultimately have "to_int32 (uint x div 100) = uint x div 100" by (intro to_int32_id) (simp add: in_int32_def)
  then show ?thesis
    by (simp add: bucket_index_def BUCKET_RESOLUTION_US_def NUM_BUCKETS_def MAX_TRACKED_US_def Let_def min_def)
qed

lemma bucket_index_range: "small x \<Longrightarrow> 0 \<le> bucket_index x \<and> nat (bucket_index x) < nat NUM_BUCKETS"
  by (simp add: bucket_index_small pos_imp_zdiv_nonneg_iff nat_less_iff NUM_BUCKETS_def MAX_TRACKED_US_def
      BUCKET_RESOLUTION_US_def)

lemma bucket_add_small:
  "small x \<Longrightarrow> length (lm_buckets m) = nat NUM_BUCKETS \<Longrightarrow> \<exists>m'. bucket_add (bucket_index x) m = Ok m'"
  using bucket_index_range [of x] by (simp add: bucket_add_def)

lemma RecordSample_returns:
  assumes "small x" "length (lm_buckets m) = nat NUM_BUCKETS"
  shows "returns (sample_step spurious x (pc, m))"
  using bucket_add_small [OF assms] by (cases pc) auto

section \<open>The rank of a percentile\<close>

text \<open>What the loop has accumulated after \<open>k\<close> buckets.\<close>

definition first_buckets :: "nat \<Rightarrow> uint32 list \<Rightarrow> nat" where
  "first_buckets k bs = sum_list (map unat (take k bs))"

lemma first_buckets_simps [simp]:
  "first_buckets 0 bs = 0"
  "first_buckets (Suc k) (b # bs) = unat b + first_buckets k bs"
  by (simp_all add: first_buckets_def)

lemma first_buckets_mono: "j \<le> k \<Longrightarrow> first_buckets j bs \<le> first_buckets k bs"
proof (induction bs arbitrary: j k)
  case (Cons b bs)
  then show ?case by (cases j; cases k) auto
qed (simp add: first_buckets_def)

lemma unat_ucast_32_64 [simp]: "unat (ucast (b :: uint32) :: uint64) = unat b"
  by (simp only: unsigned_ucast_eq) (simp add: take_bit_nat_eq_self_iff order_less_trans [OF unsigned_less])

lemma percentile_loop_rank:
  assumes "unat acc + first_buckets (length bs) bs < 2 ^ 64" "k < length bs"
    "unat acc + first_buckets k bs < unat r" "unat r \<le> unat acc + first_buckets (Suc k) bs"
  shows "percentile_loop r i acc bs = Some (i + k)"
  using assms
proof (induction bs arbitrary: acc i k)
  case (Cons b bs)
  have acc: "unat (acc + ucast b) = unat acc + unat b"
    using Cons.prems(1) by (subst unat_add_lem [THEN iffD1]) simp_all
  show ?case
  proof (cases k)
    case 0
    then show ?thesis using Cons.prems(4) acc by (simp add: word_le_nat_alt)
  next
    case (Suc k')
    have "\<not> unat r \<le> unat acc + unat b" using Cons.prems(3) Suc by simp
    moreover have "percentile_loop r (Suc i) (acc + ucast b) bs = Some (Suc i + k')"
      using Cons.prems Suc acc by (intro Cons.IH) simp_all
    ultimately show ?thesis using acc Suc by (simp add: word_le_nat_alt)
  qed
qed simp

lemma in_bucket_upto: "size (filter_mset (\<lambda>x. bucket_index x < int (Suc k)) xs) =
    size (filter_mset (\<lambda>x. bucket_index x < int k) xs) + in_bucket k xs"
  by (induction xs) auto

lemma first_buckets_count:
  assumes "\<forall>i < n. bs ! i = of_nat (in_bucket i xs)" "n \<le> length bs" "size xs < 2 ^ 32" "\<forall>x \<in># xs. 0 \<le> bucket_index x"
    "k \<le> n"
  shows "first_buckets k bs = size (filter_mset (\<lambda>x. bucket_index x < int k) xs)"
  using assms(5)
proof (induction k)
  case 0
  have "filter_mset (\<lambda>x. bucket_index x < 0) xs = {#}" using assms(4) by (auto simp: filter_mset_eq_conv)
  then show ?case by simp
next
  case (Suc k)
  have "in_bucket k xs \<le> size xs" unfolding in_bucket_def by (intro size_mset_mono) simp
  then have "unat (bs ! k) = in_bucket k xs" using assms(1,3) Suc.prems by (simp add: unat_of_nat)
  moreover have "first_buckets (Suc k) bs = first_buckets k bs + unat (bs ! k)"
    using Suc.prems assms(2) by (simp add: first_buckets_def take_Suc_conv_app_nth)
  ultimately show ?case using Suc in_bucket_upto [of k xs] by simp
qed

text \<open>The \<open>r\<close>-th smallest of the sorted samples is in the first bucket up to which there are \<open>r\<close>.\<close>

lemma rank_in_sorted:
  fixes f :: "'a \<Rightarrow> int"
  assumes "sorted (map f ys)" "0 < r" "r \<le> length ys" "i = f (ys ! (r - 1))"
  shows "length (filter (\<lambda>y. f y < i) ys) < r" "r \<le> length (filter (\<lambda>y. f y \<le> i) ys)"
proof -
  have ys: "ys = take (r - 1) ys @ drop (r - 1) ys" "ys = take r ys @ drop r ys" by simp_all
  have le: "f (ys ! a) \<le> f (ys ! b)" if "a \<le> b" "b < length ys" for a b
    using assms(1) that by (simp add: sorted_iff_nth_mono)
  have "filter (\<lambda>y. f y < i) (drop (r - 1) ys) = []"
    using le [of "r - 1"] assms(2-4) by (auto simp: filter_empty_conv in_set_conv_nth not_less)
  then have "filter (\<lambda>y. f y < i) ys = filter (\<lambda>y. f y < i) (take (r - 1) ys)"
    by (metis append_Nil2 filter_append ys(1))
  then show "length (filter (\<lambda>y. f y < i) ys) < r"
    using length_filter_le [of "\<lambda>y. f y < i" "take (r - 1) ys"] assms(2,3) by simp
  have "filter (\<lambda>y. f y \<le> i) (take r ys) = take r ys"
    using le assms(2-4) by (auto simp: filter_id_conv in_set_conv_nth)
  moreover have "filter (\<lambda>y. f y \<le> i) ys = filter (\<lambda>y. f y \<le> i) (take r ys) @ filter (\<lambda>y. f y \<le> i) (drop r ys)"
    by (metis filter_append ys(2))
  ultimately show "r \<le> length (filter (\<lambda>y. f y \<le> i) ys)" using assms(3) by simp
qed

lemma sorted_bucket_index:
  assumes "sorted ys" "\<forall>x \<in> set ys. small x"
  shows "sorted (map bucket_index ys)"
  unfolding sorted_map
proof (rule sorted_wrt_mono_rel [OF _ assms(1)])
  fix x y assume xy: "x \<in> set ys" "y \<in> set ys" "x \<le> y"
  then have "uint x div 100 \<le> uint y div 100" by (intro zdiv_mono1) (simp_all add: word_le_def)
  with xy assms(2) show "bucket_index x \<le> bucket_index y" by (simp add: bucket_index_small)
qed

lemma percentile_loop_samples:
  assumes "length bs = nat NUM_BUCKETS" "\<forall>i < nat NUM_BUCKETS. bs ! i = of_nat (in_bucket i xs)"
    "\<forall>x \<in># xs. small x" "size xs < 2 ^ 32" "0 < unat r" "unat r \<le> size xs"
  shows "percentile_loop r 0 0 bs = Some (nat (bucket_index (sorted_list_of_multiset xs ! (unat r - 1))))"
proof -
  let ?ys = "sorted_list_of_multiset xs"
  let ?i = "bucket_index (?ys ! (unat r - 1))"
  have ys: "mset ?ys = xs" "length ?ys = size xs" by (simp, metis mset_sorted_list_of_multiset size_mset)
  then have small: "\<forall>x \<in> set ?ys. small x" using assms(3) by simp
  have range: "0 \<le> bucket_index x \<and> bucket_index x < int (nat NUM_BUCKETS)" if "small x" for x
    using bucket_index_range [OF that] by linarith
  have "?ys ! (unat r - 1) \<in> set ?ys" using assms(5,6) ys(2) by (intro nth_mem) simp
  then have "0 \<le> ?i \<and> ?i < int (nat NUM_BUCKETS)" using range small by blast
  then have i: "0 \<le> ?i" "nat ?i < nat NUM_BUCKETS" by linarith+
  have count: "first_buckets k bs = length (filter (\<lambda>x. bucket_index x < int k) ?ys)" if "k \<le> nat NUM_BUCKETS" for k
  proof -
    have "first_buckets k bs = size (filter_mset (\<lambda>x. bucket_index x < int k) (mset ?ys))"
      unfolding ys(1) using assms(1,3,4) that range by (intro first_buckets_count [OF assms(2)]) auto
    then show ?thesis by (simp only: mset_filter [symmetric] size_mset)
  qed
  have rank: "length (filter (\<lambda>y. bucket_index y < ?i) ?ys) < unat r"
    "unat r \<le> length (filter (\<lambda>y. bucket_index y \<le> ?i) ?ys)"
    using rank_in_sorted [OF sorted_bucket_index [OF sorted_sorted_list_of_multiset small], of "unat r" ?i] assms(5,6) ys(2)
    by simp_all
  have all: "first_buckets (length bs) bs \<le> size xs"
    using count [of "nat NUM_BUCKETS"] assms(1) ys(2) length_filter_le [of _ ?ys] by simp
  have "percentile_loop r 0 0 bs = Some (0 + nat ?i)"
  proof (rule percentile_loop_rank)
    show "unat (0 :: uint64) + first_buckets (length bs) bs < 2 ^ 64" using all assms(4) by simp
    show "nat ?i < length bs" using i assms(1) by simp
    show "unat (0 :: uint64) + first_buckets (nat ?i) bs < unat r" using count [OF less_imp_le [OF i(2)]] rank(1) i(1) by simp
    have "(\<lambda>x. bucket_index x < int (Suc (nat ?i))) = (\<lambda>x. bucket_index x \<le> ?i)" using i(1) by (auto simp: fun_eq_iff)
    then show "unat r \<le> unat (0 :: uint64) + first_buckets (Suc (nat ?i)) bs"
      using count [OF Suc_leI [OF i(2)]] rank(2) by simp
  qed
  then show ?thesis by simp
qed

lemma percentile_rank_bounds:
  assumes "mono fl" "\<forall>n \<le> 2 ^ 53. fl (real n) = real n" "0 \<le> p" "p \<le> 100" "0 < n" "n < 2 ^ 32"
  shows "unat (percentile_rank fl p (of_nat n)) = max 1 (nat \<lfloor>fl (real n * fl (p / 100))\<rfloor>)"
    "max 1 (nat \<lfloor>fl (real n * fl (p / 100))\<rfloor>) \<le> n"
proof -
  let ?q = "fl (p / 100)" let ?f = "\<lfloor>fl (real n * ?q)\<rfloor>"
  have exact: "fl (real k) = real k" if "k \<le> n" for k using assms(2,6) that by simp
  have "fl 0 \<le> ?q" "?q \<le> fl 1" using assms(1,3,4) by (auto intro: monoD)
  then have q: "0 \<le> ?q" "?q \<le> 1" using exact [of 0] exact [of 1] assms(5) by simp_all
  have "fl (real 0) \<le> fl (real n * ?q)" "fl (real n * ?q) \<le> fl (real n)"
    using assms(1) q by (auto intro!: monoD [of fl] simp: mult_left_le)
  then have f: "0 \<le> ?f" "?f \<le> int n" using exact [of 0] exact [of n] assms(5) by (simp_all add: floor_le_iff)
  have fn: "fl (real (unat (of_nat n :: uint64))) = real n" using exact [of n] assms(6) by (simp add: unat_of_nat)
  have u: "unat (of_int ?f :: uint64) = nat ?f"
  proof -
    have "int n < 4294967296" using assms(6) by simp
    then have "?f < 18446744073709551616" using f(2) by linarith
    then have "?f mod 18446744073709551616 = ?f" using f(1) by (intro mod_pos_pos_trivial)
    then show ?thesis by (simp add: unat_eq_nat_uint uint_word_of_int)
  qed
  have "(of_int ?f :: uint64) = 0 \<longleftrightarrow> nat ?f = 0" using u by (metis unat_eq_zero)
  then show "unat (percentile_rank fl p (of_nat n)) = max 1 (nat ?f)"
    unfolding percentile_rank_def Let_def fn using u by (simp split: if_split) linarith
  show "max 1 (nat ?f) \<le> n" using f assms(5) by simp
qed

section \<open>Properties\<close>

lemma is_min_Min:
  assumes "is_min l xs" "xs \<noteq> {#}" "\<forall>x \<in># xs. small x"
  shows "uint l = Min (uint ` set_mset xs)"
proof -
  have "uint l \<in> uint ` set_mset xs"
  proof (cases "ucast l \<in># xs")
    case True
    moreover have "uint (ucast l :: uint64) = uint l" by (simp add: uint_up_ucast is_up)
    ultimately show ?thesis by (metis imageI)
  next
    case False
    then have l: "uint l = 4294967295" using assms(1) by (auto simp: is_min_def UINT32_MAX_def)
    obtain x where "x \<in># xs" using assms(2) by auto
    then have "uint x = uint l" using assms(1,3) l by (fastforce simp: is_min_def small_def)
    with \<open>x \<in># xs\<close> show ?thesis by (metis imageI)
  qed
  then show ?thesis using assms(1) by (intro Min_eqI [symmetric]) (auto simp: is_min_def)
qed

lemma is_max_Max:
  assumes "is_max u xs" "xs \<noteq> {#}"
  shows "uint u = Max (uint ` set_mset xs)"
proof -
  have "uint u \<in> uint ` set_mset xs"
  proof (cases "ucast u \<in># xs")
    case True
    moreover have "uint (ucast u :: uint64) = uint u" by (simp add: uint_up_ucast is_up)
    ultimately show ?thesis by (metis imageI)
  next
    case False
    then have u: "uint u = 0" using assms(1) by (auto simp: is_max_def)
    obtain x where "x \<in># xs" using assms(2) by auto
    then have "uint x \<le> uint u" using assms(1) by (auto simp: is_max_def)
    moreover have "0 \<le> uint x" by simp
    ultimately have "uint x = uint u" using u by linarith
    with \<open>x \<in># xs\<close> show ?thesis by (metis imageI)
  qed
  then show ?thesis using assms(1) by (intro Max_eqI [symmetric]) (auto simp: is_max_def)
qed

lemma samples_small: "\<forall>c \<in># M. small (fst c) \<Longrightarrow> \<forall>x \<in># samples M. small x"
  by (auto simp: samples_def)

text \<open>
  Recording is exact. However many threads record samples below \<open>2^32\<close> microseconds at once, no
  access leaves the array of buckets, and when all calls have returned the count, the sum, the
  minimum, the maximum and every bucket are those of the samples.
\<close>

theorem latency_recording_exact:
  assumes "lat_reach M m" "\<forall>c \<in># M. small (fst c)"
  shows "(\<forall>(x, pc) \<in># M. \<forall>spurious. returns (sample_step spurious x (pc, m))) \<and>
    ((\<forall>c \<in># M. snd c = SDone) \<longrightarrow>
       lm_totalCount m = of_nat (size (samples M)) \<and> lm_totalLatencyUs m = sum_mset (samples M) \<and>
       (\<forall>i < nat NUM_BUCKETS. lm_buckets m ! i = of_nat (in_bucket i (samples M))) \<and>
       (M \<noteq> {#} \<longrightarrow> uint (lm_minLatencyUs m) = Min (uint ` set_mset (samples M)) \<and>
         uint (lm_maxLatencyUs m) = Max (uint ` set_mset (samples M))))"
proof -
  have inv: "lat_inv M m" by (rule lat_inv_reach [OF assms])
  have "returns (sample_step spurious x (pc, m))" if "(x, pc) \<in># M" for x pc spurious
    using assms(2) that inv by (intro RecordSample_returns) (auto simp: lat_inv_def)
  moreover have "samples M \<noteq> {#}" if "M \<noteq> {#}" using that by (simp add: samples_def)
  ultimately show ?thesis
    using inv is_min_Min [of _ "samples M"] is_max_Max [of _ "samples M"] samples_small [OF assms(2)]
    by (auto simp: lat_inv_def passed_done)
qed

text \<open>
  A percentile is that of the samples. With the rounding of IEEE arithmetic, monotone and exact on
  small integers, the value returned is the middle of the bucket of the sample whose rank the
  percentage asks for, once all calls have returned.
\<close>

theorem latency_percentile_rank:
  assumes "lat_reach M m" "\<forall>c \<in># M. small (fst c) \<and> snd c = SDone" "M \<noteq> {#}" "size M < 2 ^ 32"
    "mono fl" "\<forall>n \<le> 2 ^ 53. fl (real n) = real n" "0 \<le> p" "p \<le> 100"
  shows "\<exists>r. r = max 1 (nat \<lfloor>fl (real (size M) * fl (p / 100))\<rfloor>) \<and> r \<le> size M \<and>
    GetPercentileMs fl p m =
      bucket_middle fl (nat (min (uint (sorted_list_of_multiset (samples M) ! (r - 1)) div 100) 10000))"
proof -
  let ?xs = "samples M" let ?ys = "sorted_list_of_multiset ?xs" let ?b = "lm_buckets m"
  have inv: "lat_inv M m" using assms(1,2) by (intro lat_inv_reach) auto
  have sz: "size ?xs = size M" "length ?ys = size M"
    by (simp_all add: samples_def size_mset [symmetric] del: size_mset)
  have small: "\<forall>x \<in># ?xs. small x" using assms(2) by (intro samples_small) simp
  define r where "r = max 1 (nat \<lfloor>fl (real (size M) * fl (p / 100))\<rfloor>)"
  have tot: "lm_totalCount m = of_nat (size M)" "lm_totalCount m \<noteq> 0"
  proof -
    show t: "lm_totalCount m = of_nat (size M)" using inv passed_done [of M 1] assms(2) sz by (simp add: lat_inv_def)
    have "unat (lm_totalCount m) = size M" using assms(4) by (simp add: t unat_of_nat)
    then show "lm_totalCount m \<noteq> 0" using assms(3) by (metis size_eq_0_iff_empty unat_0)
  qed
  have r: "unat (percentile_rank fl p (lm_totalCount m)) = r" "r \<le> size M" "0 < r"
    using percentile_rank_bounds [OF assms(5-8), of "size M"] assms(3,4) tot(1) by (auto simp: r_def nonempty_has_size)
  have "percentile_loop (percentile_rank fl p (lm_totalCount m)) 0 0 ?b = Some (nat (bucket_index (?ys ! (r - 1))))"
    using percentile_loop_samples [of ?b ?xs "percentile_rank fl p (lm_totalCount m)"] inv small sz(1) assms(2,4) r
      passed_done [of M 7] by (simp add: lat_inv_def)
  moreover have "?ys ! (r - 1) \<in> set ?ys" using r sz(2) by (intro nth_mem) simp
  ultimately show ?thesis
    using r(2) tot(2) small by (auto simp: GetPercentileMs_def Let_def bucket_index_small r_def)
qed

text \<open>Calls one after the other.\<close>

lemma lat_call_alone:
  assumes "lat_reach M m" "RecordSample x m = Ok m'"
  shows "lat_reach (add_mset (x, SDone) M) m'"
proof -
  have "lat_reach (add_mset (x, STotal) M) m" by (rule rtranclp.rtrancl_into_rtrancl [OF assms(1) lat_step.call])
  moreover have "lat_step\<^sup>*\<^sup>* (add_mset (x, pc) M, k) (add_mset (x, pc') M, k')"
    if "((\<lambda>s. res_bind s (sample_step False x)) ^^ n) (Ok (pc, k)) = Ok (pc', k')" for n pc k pc' k'
    using that
  proof (induction n arbitrary: pc' k')
    case (Suc n)
    let ?s = "((\<lambda>s. res_bind s (sample_step False x)) ^^ n) (Ok (pc, k))"
    have "res_bind ?s (sample_step False x) = Ok (pc', k')" using Suc.prems by simp
    then obtain pc1 k1 where s: "?s = Ok (pc1, k1)" "sample_step False x (pc1, k1) = Ok (pc', k')"
      unfolding res_bind_Ok_iff by (metis surj_pair)
    show ?case by (rule rtranclp.rtrancl_into_rtrancl [OF Suc.IH [OF s(1)] lat_step.access [OF s(2)]])
  qed simp
  from this [of 7 STotal m SDone m'] have "lat_step\<^sup>*\<^sup>* (add_mset (x, STotal) M, m) (add_mset (x, SDone) M, m')"
    using assms(2) by (simp only: RecordSample_alone) simp
  ultimately show ?thesis by (rule rtranclp_trans)
qed

lemma RecordSample_bucket: "\<exists>m1. lm_buckets m1 = lm_buckets m \<and> RecordSample x m = bucket_add (bucket_index x) m1"
  unfolding RecordSample_def Let_def by (rule exI, rule conjI [rotated], rule refl) simp

lemma lat_calls_alone: "\<forall>x \<in> set xs. small x \<Longrightarrow> \<exists>m. lat_reach (mset (map (\<lambda>x. (x, SDone)) xs)) m"
proof (induction xs)
  case Nil
  then show ?case by auto
next
  case (Cons x xs)
  then obtain m where m: "lat_reach (mset (map (\<lambda>x. (x, SDone)) xs)) m" by auto
  have "length (lm_buckets m) = nat NUM_BUCKETS" using lat_inv_reach [OF m] Cons.prems by (auto simp: lat_inv_def)
  then obtain m' where "RecordSample x m = Ok m'"
    using RecordSample_bucket [of m x] bucket_add_small [of x] Cons.prems by (metis list.set_intros(1))
  from lat_call_alone [OF m this] show ?case by auto
qed

theorem latency_recording_exact_witness:
  "\<exists>m. lat_reach {#(250, SDone), (700, SDone)#} m \<and> lm_totalCount m = 2 \<and> lm_totalLatencyUs m = 950 \<and>
     uint (lm_minLatencyUs m) = 250 \<and> uint (lm_maxLatencyUs m) = 700 \<and> lm_buckets m ! 7 = 1"
proof -
  obtain m where m: "lat_reach {#(250, SDone), (700, SDone)#} m"
    using lat_calls_alone [of "[250, 700]"] by (auto simp: small_def)
  have "bucket_index 250 = 2" "bucket_index 700 = 7" by (simp_all add: bucket_index_small small_def)
  then show ?thesis
    using latency_recording_exact [OF m] m
    by (auto simp: samples_def small_def NUM_BUCKETS_def MAX_TRACKED_US_def BUCKET_RESOLUTION_US_def intro!: exI [of _ m])
qed

theorem latency_percentile_rank_witness:
  "\<exists>m. lat_reach {#(250, SDone), (700, SDone)#} m \<and> GetPercentileMs (\<lambda>x. x) 50 m = 0.25"
proof -
  obtain m where m: "lat_reach {#(250, SDone), (700, SDone)#} m"
    using lat_calls_alone [of "[250, 700]"] by (auto simp: small_def)
  have "GetPercentileMs (\<lambda>x. x) 50 m = bucket_middle (\<lambda>x. x) 2"
    using latency_percentile_rank [OF m, of "\<lambda>x. x" 50] by (simp add: samples_def small_def mono_def)
  with m show ?thesis by (auto simp: bucket_middle_def)
qed

end
