(* ===== verification/Streams.thy ===== *)
theory Streams
  imports Prelude Complex_Main
begin

text \<open>
  The text functions of the C++ library that the clients use: \<open>std::stoull\<close> and \<open>std::stoi\<close>, extraction from a
  \<open>std::stringstream\<close>, and the manipulators of an output stream.
\<close>

section \<open>Characters\<close>

definition is_space :: "char \<Rightarrow> bool" where
  "is_space c \<longleftrightarrow> of_char c = (32 :: nat) \<or> 9 \<le> (of_char c :: nat) \<and> of_char c \<le> (13 :: nat)"

definition is_digit :: "char \<Rightarrow> bool" where
  "is_digit c \<longleftrightarrow> 48 \<le> (of_char c :: nat) \<and> of_char c \<le> (57 :: nat)"

definition take_sign :: "string \<Rightarrow> bool \<times> string" where
  "take_sign s = (case s of [] \<Rightarrow> (False, [])
     | c # cs \<Rightarrow> if c = CHR ''-'' then (True, cs) else if c = CHR ''+'' then (False, cs) else (False, s))"

lemma decimal_is_digit: "\<forall>c \<in> set (decimal n). is_digit c"
proof (induction n rule: decimal.induct)
  case (1 n)
  have "is_digit (digit_char k)" if "k < 10" for k using that by (simp add: is_digit_def digit_char_def)
  with 1 show ?case by (subst decimal.simps) auto
qed

lemma length_decimal: "n < 10 ^ k \<Longrightarrow> length (decimal n) \<le> max 1 k"
proof (induction k arbitrary: n)
  case 0
  then show ?case by (subst decimal.simps) simp
next
  case (Suc k)
  show ?case
  proof (cases "n < 10")
    case False
    then have "n div 10 < 10 ^ k" "0 < k" using Suc.prems by (auto intro: gr0I simp: less_mult_imp_div_less)
    then show ?thesis using Suc.IH [of "n div 10"] False by (subst decimal.simps) simp
  qed (subst decimal.simps, simp)
qed

lemma length_to_string: "0 \<le> n \<Longrightarrow> nat n < 10 ^ k \<Longrightarrow> length (to_string n) \<le> max 1 k"
  using length_decimal [of "nat n" k] by (simp add: to_string_def)

section \<open>\<open>std::stoull\<close>\<close>

text \<open>\<open>None\<close> where it throws.\<close>

definition stoull :: "string \<Rightarrow> uint64 option" where
  "stoull s =
     (let (neg, s) = take_sign (dropWhile is_space s); digits = takeWhile is_digit s; v = decimal_value digits in
      if digits = [] then None
      else if v > 18446744073709551615 then None
      else Some (if neg then - of_nat v else of_nat v))"

lemma stoull_to_string:
  assumes "0 \<le> n" "n < 2 ^ 64"
  shows "stoull (to_string n) = Some (of_int n)"
proof -
  obtain c cs where d: "decimal (nat n) = c # cs" using hd_decimal(2) [of "nat n"] by (cases "decimal (nat n)") auto
  then have c: "is_digit c" "\<forall>x \<in> set (c # cs). is_digit x" using decimal_is_digit [of "nat n"] by auto
  have "\<not> is_space c" "c \<noteq> CHR ''-''" "c \<noteq> CHR ''+''" using c(1) by (auto simp: is_digit_def is_space_def)
  moreover have "takeWhile is_digit (c # cs) = c # cs" using c(2) by (simp add: takeWhile_eq_all_conv)
  moreover have "decimal_value (c # cs) = nat n" using d by (metis decimal_value_decimal)
  ultimately show ?thesis
    using assms d by (simp add: stoull_def to_string_def take_sign_def Let_def)
qed

text \<open>\<open>std::stoi\<close>; \<open>None\<close> where it throws.\<close>

definition stoi :: "string \<Rightarrow> int32 option" where
  "stoi s =
     (let (neg, s) = take_sign (dropWhile is_space s); digits = takeWhile is_digit s;
          v = (if neg then - int (decimal_value digits) else int (decimal_value digits)) in
      if digits = [] then None
      else if \<not> in_int32 v then None
      else Some v)"

lemma stoi_to_string:
  assumes "0 \<le> n"
  shows "stoi (to_string n) = (if n \<le> 2147483647 then Some n else None)"
proof -
  obtain c cs where d: "decimal (nat n) = c # cs" using hd_decimal(2) [of "nat n"] by (cases "decimal (nat n)") auto
  then have c: "is_digit c" "\<forall>x \<in> set (c # cs). is_digit x" using decimal_is_digit [of "nat n"] by auto
  have "\<not> is_space c" "c \<noteq> CHR ''-''" "c \<noteq> CHR ''+''" using c(1) by (auto simp: is_digit_def is_space_def)
  moreover have "takeWhile is_digit (c # cs) = c # cs" using c(2) by (simp add: takeWhile_eq_all_conv)
  moreover have "decimal_value (c # cs) = nat n" using d by (metis decimal_value_decimal)
  ultimately show ?thesis
    using assms d by (simp add: stoi_def to_string_def take_sign_def in_int32_def Let_def)
qed

section \<open>Extraction from a string stream\<close>

text \<open>
  A stream is what is left to be read and its \<open>failbit\<close>. An extraction from a stream that has failed,
  or that has only white space left, fails and leaves its variable alone; so \<open>x\<close> is the variable's
  old value in each operation.
\<close>

type_synonym istream = "string \<times> bool"

definition skip_ws :: "string \<Rightarrow> string" where
  "skip_ws s = dropWhile is_space s"

definition read_string :: "string \<Rightarrow> istream \<Rightarrow> string \<times> istream" where
  "read_string x = (\<lambda>(s, failed).
     if failed \<or> skip_ws s = [] then (x, s, True)
     else (takeWhile (\<lambda>c. \<not> is_space c) (skip_ws s), dropWhile (\<lambda>c. \<not> is_space c) (skip_ws s), False))"

text \<open>
  The number: no digits give 0, a value out of range gives the nearest limit, and both fail.
\<close>

definition read_int32 :: "int32 \<Rightarrow> istream \<Rightarrow> int32 \<times> istream" where
  "read_int32 x = (\<lambda>(s, failed).
     if failed \<or> skip_ws s = [] then (x, s, True)
     else
       let (neg, s) = take_sign (skip_ws s); digits = takeWhile is_digit s; rest = dropWhile is_digit s;
           v = (if neg then - int (decimal_value digits) else int (decimal_value digits)) in
       if digits = [] then (0, rest, True)
       else if v > 2147483647 then (2147483647, rest, True)
       else if v < - 2147483648 then (- 2147483648, rest, True)
       else (v, rest, False))"

text \<open>\<open>std::getline(ss >> std::ws, x)\<close>\<close>

definition nl :: string where
  "nl = [CHR 0x0A]"

definition read_line_ws :: "string \<Rightarrow> istream \<Rightarrow> string \<times> istream" where
  "read_line_ws x = (\<lambda>(s, failed).
     if failed \<or> skip_ws s = [] then (x, [], True)
     else (takeWhile (\<lambda>c. c \<noteq> CHR 0x0A) (skip_ws s), drop 1 (dropWhile (\<lambda>c. c \<noteq> CHR 0x0A) (skip_ws s)), False))"

section \<open>Output\<close>

text \<open>\<open>"\033..."\<close>, \<open>std::left << std::setw(n)\<close>, \<open>std::right << std::setw(n)\<close>\<close>

definition esc :: "string \<Rightarrow> string" where
  "esc s = CHR 0x1B # s"

definition setw_left :: "nat \<Rightarrow> string \<Rightarrow> string" where
  "setw_left n s = s @ replicate (n - length s) CHR '' ''"

definition setw_right :: "nat \<Rightarrow> string \<Rightarrow> string" where
  "setw_right n s = replicate (n - length s) CHR '' '' @ s"

text \<open>\<open>std::fixed << std::setprecision(p)\<close>: the nearest decimal with \<open>p\<close> places, the even one of two.\<close>

definition round_even :: "real \<Rightarrow> int" where
  "round_even x =
     (let f = \<lfloor>x\<rfloor>; d = x - of_int f in
      if d < 1 / 2 then f else if d > 1 / 2 then f + 1 else if even f then f else f + 1)"

definition fixed :: "nat \<Rightarrow> real \<Rightarrow> string" where
  "fixed p x =
     (let d = decimal (nat (round_even (\<bar>x\<bar> * 10 ^ p)));
          d = replicate (Suc p - length d) CHR ''0'' @ d; k = length d - p in
      (if x < 0 then ''-'' else []) @ take k d @ (if p = 0 then [] else CHR ''.'' # drop k d))"

section \<open>Reading what was written\<close>

definition no_space :: "string \<Rightarrow> bool" where
  "no_space s \<longleftrightarrow> (\<forall>c \<in> set s. \<not> is_space c)"

lemma no_space_simps [simp]:
  "no_space []" "no_space (c # s) \<longleftrightarrow> \<not> is_space c \<and> no_space s" "no_space (s @ t) \<longleftrightarrow> no_space s \<and> no_space t"
  by (auto simp: no_space_def)

lemma is_space_simps [simp]: "is_space CHR '' ''" "is_digit c \<Longrightarrow> \<not> is_space c"
  by (auto simp: is_space_def is_digit_def)

lemma skip_ws_simps [simp]:
  "skip_ws [] = []" "skip_ws (c # s) = (if is_space c then skip_ws s else c # s)"
  by (simp_all add: skip_ws_def)

lemma skip_ws_word: "no_space w \<Longrightarrow> w \<noteq> [] \<Longrightarrow> skip_ws (w @ s) = w @ s"
  by (cases w) auto

lemma read_string_word:
  assumes "no_space w" "w \<noteq> []" "s = [] \<or> is_space (hd s)"
  shows "read_string x (w @ s, False) = (w, s, False)"
proof -
  have "takeWhile (\<lambda>c. \<not> is_space c) (w @ s) = w" "dropWhile (\<lambda>c. \<not> is_space c) (w @ s) = s"
    using assms(1,3) by (cases s; auto simp: no_space_def takeWhile_append dropWhile_append takeWhile_eq_all_conv)+
  then show ?thesis using skip_ws_word [OF assms(1,2)] assms(2) by (simp add: read_string_def)
qed

lemma read_string_space: "read_string x (CHR '' '' # s, False) = read_string x (s, False)" if "skip_ws s \<noteq> []"
  using that by (simp add: read_string_def)

text \<open>A number that was printed: it is read back if it fits, else the limit is stored.\<close>

lemma read_int32_to_string:
  assumes "0 \<le> n" "s = [] \<or> \<not> is_digit (hd s)"
  shows "read_int32 x (CHR '' '' # to_string n @ s, False) =
    (if n \<le> 2147483647 then (n, s, False) else (2147483647, s, True))"
proof -
  obtain c cs where d: "decimal (nat n) = c # cs" using hd_decimal(2) [of "nat n"] by (cases "decimal (nat n)") auto
  then have c: "is_digit c" "\<forall>x \<in> set (c # cs). is_digit x" using decimal_is_digit [of "nat n"] by auto
  have "c \<noteq> CHR ''-''" "c \<noteq> CHR ''+''" using c(1) by (auto simp: is_digit_def)
  moreover have "takeWhile is_digit (c # cs @ s) = c # cs" "dropWhile is_digit (c # cs @ s) = s"
    using c assms(2) by (cases s; auto simp: takeWhile_append dropWhile_append takeWhile_eq_all_conv)+
  moreover have "decimal_value (c # cs) = nat n" using d by (metis decimal_value_decimal)
  ultimately show ?thesis
    using assms(1) d c(1) by (simp add: read_int32_def to_string_def take_sign_def Let_def)
qed

end
