(* ===== verification/DummyClient.thy ===== *)
theory DummyClient
  imports ClientSession LatencyMonitor Streams
begin

text \<open>
  \<^verbatim>\<open>DummyClient/Session/DummySession.cpp\<close> and \<^verbatim>\<open>DummyClient/Protocol/DummyPacketHandlerImpl.cpp\<close>: the bots
  of the stress test, what they send to the server and what they do with its answers.

  A session is the number of a bot. As in \<open>ChatWorld\<close>, a call of \<open>Send\<close> appends the buffer to
  \<open>ds_sends\<close> and \<open>t\<close> is the thread that runs the operation. \<open>tick\<close> is what \<open>GetTickCount64\<close> returns,
  \<open>nowUs\<close> the 64-bit count of \<open>high_resolution_clock\<close>, \<open>r\<close> what \<open>rand\<close> returns.
\<close>

section \<open>State\<close>

datatype BotScenario = Normal | Slowloris | ConnectSpam | PacketFlood

record stress_stats =
  st_activeSessions :: int32
  st_totalConnected :: int32
  st_totalDisconnected :: int32
  st_abuseDisconnected :: int32
  st_totalSentPackets :: uint64
  st_totalRecvPackets :: uint64

definition StressStats_Reset :: "stress_stats \<Rightarrow> stress_stats" where
  "StressStats_Reset st = st\<lparr>st_activeSessions := 0, st_totalConnected := 0, st_totalDisconnected := 0,
     st_abuseDisconnected := 0, st_totalSentPackets := 0, st_totalRecvPackets := 0\<rparr>"

record dummy_session =
  ds_scenario :: BotScenario
  ds_botIndex :: int32
  ds_botName :: string
  ds_isLoggedIn :: bool
  ds_isInRoom :: bool
  ds_chatSeq :: uint32
  ds_connectedTick :: uint64
  ds_connected :: bool
  ds_disconnects :: "wstring list"
  ds_sends :: "send_buffer list"

definition DummySession_new :: "BotScenario \<Rightarrow> int32 \<Rightarrow> dummy_session" where
  "DummySession_new scenario botIndex = \<lparr>ds_scenario = scenario, ds_botIndex = botIndex,
     ds_botName = ''Bot_'' @ to_string botIndex, ds_isLoggedIn = False, ds_isInRoom = False, ds_chatSeq = 0,
     ds_connectedTick = 0, ds_connected = False, ds_disconnects = [], ds_sends = []\<rparr>"

record dummy_world =
  dw_bots :: "nat \<Rightarrow> dummy_session"
  dw_stats :: stress_stats
  dw_latency :: latency
  dw_sendBuffers :: sb_state

definition upd_bot :: "nat \<Rightarrow> (dummy_session \<Rightarrow> dummy_session) \<Rightarrow> dummy_world \<Rightarrow> dummy_world" where
  "upd_bot i f w = w\<lparr>dw_bots := (dw_bots w)(i := f (dw_bots w i))\<rparr>"

definition upd_stats :: "(stress_stats \<Rightarrow> stress_stats) \<Rightarrow> dummy_world \<Rightarrow> dummy_world" where
  "upd_stats f w = w\<lparr>dw_stats := f (dw_stats w)\<rparr>"

section \<open>The session\<close>

text \<open>\<open>Send(pkt.MakeSendBuffer())\<close>, and the count of packets that follows it everywhere.\<close>

fun Bot_Send :: "send_buffer option \<Rightarrow> nat \<Rightarrow> dummy_world \<Rightarrow> dummy_world" where
  "Bot_Send None i w = w"
| "Bot_Send (Some sb) i w = upd_bot i (\<lambda>d. d\<lparr>ds_sends := ds_sends d @ [sb]\<rparr>) w"

definition send_packet :: "nat \<Rightarrow> packet \<Rightarrow> nat \<Rightarrow> dummy_world \<Rightarrow> dummy_world res" where
  "send_packet t pkt i w = res_bind (MakeSendBuffer_packet t pkt (dw_sendBuffers w)) (\<lambda>(sb, s).
     Ok (upd_stats (\<lambda>st. st\<lparr>st_totalSentPackets := st_totalSentPackets st + 1\<rparr>)
       (Bot_Send sb i (w\<lparr>dw_sendBuffers := s\<rparr>))))"

definition Bot_Disconnect :: "wstring \<Rightarrow> nat \<Rightarrow> dummy_world \<Rightarrow> dummy_world" where
  "Bot_Disconnect cause i w =
     (if \<not> ds_connected (dw_bots w i) then w
      else upd_bot i (\<lambda>d. d\<lparr>ds_connected := False, ds_disconnects := ds_disconnects d @ [cause]\<rparr>) w)"

text \<open>The loop of \<open>ExecuteFloodAttack\<close> from \<open>k\<close> on, \<open>n\<close> packets still to be sent.\<close>

definition flood_packet :: "int32 \<Rightarrow> packet" where
  "flood_packet k = Pkt_C_ROOM_CHAT \<lparr>C_ROOM_CHAT_message = ''Flooding attack packet #'' @ to_string (k + 1)\<rparr>"

fun flood_loop :: "nat \<Rightarrow> nat \<Rightarrow> int32 \<Rightarrow> nat \<Rightarrow> dummy_world \<Rightarrow> dummy_world res" where
  "flood_loop t 0 k i w = Ok w"
| "flood_loop t (Suc n) k i w = res_bind (send_packet t (flood_packet k) i w) (flood_loop t n (k + 1) i)"

definition ExecuteFloodAttack :: "nat \<Rightarrow> int32 \<Rightarrow> nat \<Rightarrow> dummy_world \<Rightarrow> dummy_world res" where
  "ExecuteFloodAttack t n i w = flood_loop t (nat n) 0 i w"

definition login_packet :: "nat \<Rightarrow> dummy_world \<Rightarrow> packet" where
  "login_packet i w = Pkt_C_LOGIN \<lparr>C_LOGIN_name = ds_botName (dw_bots w i)\<rparr>"

definition Bot_OnConnected :: "nat \<Rightarrow> uint64 \<Rightarrow> nat \<Rightarrow> dummy_world \<Rightarrow> dummy_world res" where
  "Bot_OnConnected t tick i w =
     (let w = upd_stats (\<lambda>st. st\<lparr>st_activeSessions := to_int32 (st_activeSessions st + 1)\<rparr>) w;
          w = upd_stats (\<lambda>st. st\<lparr>st_totalConnected := to_int32 (st_totalConnected st + 1)\<rparr>) w;
          w = upd_bot i (\<lambda>d. d\<lparr>ds_connectedTick := tick\<rparr>) w in
      case ds_scenario (dw_bots w i) of
        Normal \<Rightarrow> send_packet t (login_packet i w) i w
      | Slowloris \<Rightarrow> Ok w
      | ConnectSpam \<Rightarrow> Ok (Bot_Disconnect (wide ''Spam Disconnect'') i w)
      | PacketFlood \<Rightarrow> res_bind (send_packet t (login_packet i w) i w) (ExecuteFloodAttack t 80 i))"

definition Bot_OnDisconnected :: "nat \<Rightarrow> dummy_world \<Rightarrow> dummy_world" where
  "Bot_OnDisconnected i w =
     (let w = upd_stats (\<lambda>st. st\<lparr>st_activeSessions := to_int32 (st_activeSessions st - 1)\<rparr>) w;
          w = upd_stats (\<lambda>st. st\<lparr>st_totalDisconnected := to_int32 (st_totalDisconnected st + 1)\<rparr>) w in
      if ds_scenario (dw_bots w i) = Slowloris \<or> ds_scenario (dw_bots w i) = PacketFlood
      then upd_stats (\<lambda>st. st\<lparr>st_abuseDisconnected := to_int32 (st_abuseDisconnected st + 1)\<rparr>) w
      else w)"

definition SendChat :: "nat \<Rightarrow> string \<Rightarrow> nat \<Rightarrow> dummy_world \<Rightarrow> dummy_world res" where
  "SendChat t msg i w =
     (if \<not> ds_connected (dw_bots w i) \<or> \<not> ds_isInRoom (dw_bots w i) then Ok w
      else send_packet t (Pkt_C_ROOM_CHAT \<lparr>C_ROOM_CHAT_message = msg\<rparr>) i w)"

definition ping_message :: "uint32 \<Rightarrow> int \<Rightarrow> string" where
  "ping_message seq nowUs = ''LAT:'' @ to_string (uint seq) @ '':'' @ to_string nowUs"

definition SendLatencyPingChat :: "nat \<Rightarrow> int \<Rightarrow> nat \<Rightarrow> dummy_world \<Rightarrow> dummy_world res" where
  "SendLatencyPingChat t nowUs i w =
     (if \<not> ds_connected (dw_bots w i) \<or> \<not> ds_isInRoom (dw_bots w i) then Ok w
      else
        let seq = ds_chatSeq (dw_bots w i);
            w = upd_bot i (\<lambda>d. d\<lparr>ds_chatSeq := seq + 1\<rparr>) w in
        send_packet t (Pkt_C_ROOM_CHAT \<lparr>C_ROOM_CHAT_message = ping_message seq nowUs\<rparr>) i w)"

definition SendEnterRoom :: "nat \<Rightarrow> string \<Rightarrow> int32 \<Rightarrow> nat \<Rightarrow> dummy_world \<Rightarrow> dummy_world res" where
  "SendEnterRoom t msg roomId i w =
     (if \<not> ds_connected (dw_bots w i) then Ok w
      else send_packet t (Pkt_C_ENTER_ROOM \<lparr>C_ENTER_ROOM_roomId = of_int roomId, C_ENTER_ROOM_roomName = msg\<rparr>) i w)"

definition SendHeartbeat :: "nat \<Rightarrow> uint64 \<Rightarrow> nat \<Rightarrow> dummy_world \<Rightarrow> dummy_world res" where
  "SendHeartbeat t tick i w =
     (if \<not> ds_connected (dw_bots w i) then Ok w
      else send_packet t (Pkt_C_HEARTBEAT \<lparr>C_HEARTBEAT_clientTick = tick\<rparr>) i w)"

section \<open>The handlers\<close>

definition Bot_S_LOGIN :: "nat \<Rightarrow> int32 \<Rightarrow> nat option \<Rightarrow> S_LOGIN \<Rightarrow> dummy_world \<Rightarrow> (bool \<times> dummy_world) res" where
  "Bot_S_LOGIN t r session pkt w =
     (case session of None \<Rightarrow> Ok (True, w)
      | Some dummy \<Rightarrow>
        if S_LOGIN_success pkt then
          let w = upd_bot dummy (\<lambda>d. d\<lparr>ds_isLoggedIn := True\<rparr>) w in
          if ds_scenario (dw_bots w dummy) = Normal then
            res_bind (send_packet t (Pkt_C_ENTER_ROOM \<lparr>C_ENTER_ROOM_roomId = of_int (r mod 50 + 1),
              C_ENTER_ROOM_roomName = []\<rparr>) dummy w) (\<lambda>w. Ok (True, w))
          else Ok (True, w)
        else Ok (True, w))"

definition Bot_S_ENTER_ROOM :: "nat option \<Rightarrow> S_ENTER_ROOM \<Rightarrow> dummy_world \<Rightarrow> (bool \<times> dummy_world) res" where
  "Bot_S_ENTER_ROOM session pkt w =
     (case session of None \<Rightarrow> Ok (True, w)
      | Some dummy \<Rightarrow> Ok (True, if S_ENTER_ROOM_success pkt then upd_bot dummy (\<lambda>d. d\<lparr>ds_isInRoom := True\<rparr>) w else w))"

definition Bot_S_LEAVE_ROOM :: "nat option \<Rightarrow> dummy_world \<Rightarrow> (bool \<times> dummy_world) res" where
  "Bot_S_LEAVE_ROOM session w =
     (case session of None \<Rightarrow> Ok (True, w)
      | Some dummy \<Rightarrow> Ok (True, upd_bot dummy (\<lambda>d. d\<lparr>ds_isInRoom := False\<rparr>) w))"

text \<open>The substring after the first colon behind \<open>LAT:\<close>; \<open>catch\<close> swallows what \<open>stoull\<close> throws.\<close>

definition Bot_S_ROOM_CHAT :: "int \<Rightarrow> nat option \<Rightarrow> S_ROOM_CHAT \<Rightarrow> dummy_world \<Rightarrow> (bool \<times> dummy_world) res" where
  "Bot_S_ROOM_CHAT nowUs session pkt w =
     (case session of None \<Rightarrow> Ok (True, w)
      | Some dummy \<Rightarrow>
        if S_ROOM_CHAT_senderName pkt \<noteq> ds_botName (dw_bots w dummy) then Ok (True, w)
        else if take 4 (S_ROOM_CHAT_message pkt) \<noteq> ''LAT:'' then Ok (True, w)
        else
          let fromColon = dropWhile (\<lambda>c. c \<noteq> CHR '':'') (drop 4 (S_ROOM_CHAT_message pkt)) in
          if fromColon = [] then Ok (True, w)
          else (case stoull (tl fromColon) of
              None \<Rightarrow> Ok (True, w)
            | Some sentUs \<Rightarrow>
              if (of_int nowUs :: uint64) \<ge> sentUs then
                let rttUs = of_int nowUs - sentUs in
                res_bind (RecordSample rttUs (dw_latency w)) (\<lambda>m. Ok (True, w\<lparr>dw_latency := m\<rparr>))
              else Ok (True, w)))"

fun handle_bot :: "nat \<Rightarrow> int32 \<Rightarrow> int \<Rightarrow> nat option \<Rightarrow> packet \<Rightarrow> dummy_world \<Rightarrow> (bool \<times> dummy_world) res" where
  "handle_bot t r nowUs session (Pkt_S_LOGIN pkt) = Bot_S_LOGIN t r session pkt"
| "handle_bot t r nowUs session (Pkt_S_ENTER_ROOM pkt) = Bot_S_ENTER_ROOM session pkt"
| "handle_bot t r nowUs session (Pkt_S_LEAVE_ROOM _) = Bot_S_LEAVE_ROOM session"
| "handle_bot t r nowUs session (Pkt_S_ROOM_CHAT pkt) = Bot_S_ROOM_CHAT nowUs session pkt"
| "handle_bot t r nowUs session _ = (\<lambda>w. Ok (True, w))"

definition Bot_OnRecvPacket ::
    "nat \<Rightarrow> int32 \<Rightarrow> int \<Rightarrow> nat \<Rightarrow> byte list \<Rightarrow> int32 \<Rightarrow> dummy_world \<Rightarrow> dummy_world res" where
  "Bot_OnRecvPacket t r nowUs i buffer len w =
     (let w = upd_stats (\<lambda>st. st\<lparr>st_totalRecvPackets := st_totalRecvPackets st + 1\<rparr>) w in
      res_bind (ClientPacketHandler_HandlePacket (handle_bot t r nowUs (Some i)) buffer len w) (\<lambda>(_, w). Ok w))"

section \<open>What bots send\<close>

interpretation bots: outbox dw_sendBuffers "\<lambda>b w. w\<lparr>dw_sendBuffers := b\<rparr>" "\<lambda>w i. ds_sends (dw_bots w i)"
    "\<lambda>sb. Bot_Send (Some sb)"
  by unfold_locales (simp_all add: upd_bot_def)

definition bot_sent :: "dummy_world \<Rightarrow> nat \<Rightarrow> byte list list" where
  "bot_sent = out_sent dw_sendBuffers (\<lambda>w i. ds_sends (dw_bots w i))"

definition bots_ready :: "dummy_world \<Rightarrow> bool" where
  "bots_ready = out_ready dw_sendBuffers (\<lambda>w i. ds_sends (dw_bots w i))"

text \<open>The packets \<open>ps\<close> have been sent by bot \<open>i\<close>, and nothing else of the bots has changed.\<close>

definition bot_sends :: "nat \<Rightarrow> packet list \<Rightarrow> dummy_world \<Rightarrow> dummy_world \<Rightarrow> bool" where
  "bot_sends i ps w w' \<longleftrightarrow> bots_ready w' \<and> dw_latency w' = dw_latency w \<and>
     (\<forall>j. bot_sent w' j = bot_sent w j @ (if j = i then map packet_bytes ps else [])) \<and>
     (\<forall>j. (dw_bots w' j)\<lparr>ds_sends := []\<rparr> = (dw_bots w j)\<lparr>ds_sends := []\<rparr>)"

lemma bot_sends_trans: "bot_sends i ps w w1 \<Longrightarrow> bot_sends i qs w1 w2 \<Longrightarrow> bot_sends i (ps @ qs) w w2"
  by (simp add: bot_sends_def)

lemma bot_sends_name:
  assumes "bot_sends i ps w w'"
  shows "ds_botName (dw_bots w' j) = ds_botName (dw_bots w j)" "bots_ready w'"
proof -
  have "(dw_bots w' j)\<lparr>ds_sends := []\<rparr> = (dw_bots w j)\<lparr>ds_sends := []\<rparr>" using assms by (simp add: bot_sends_def)
  from arg_cong [OF this, of ds_botName] show "ds_botName (dw_bots w' j) = ds_botName (dw_bots w j)" by simp
qed (use assms in \<open>simp add: bot_sends_def\<close>)

lemma bots_ready_upd [simp]:
  "bots_ready (upd_stats f w) = bots_ready w" "bot_sent (upd_stats f w) = bot_sent w"
  "dw_bots (upd_stats f w) = dw_bots w" "dw_latency (upd_stats f w) = dw_latency w"
  using bots.out_cong [of "upd_stats f w" w] by (simp_all add: upd_stats_def bots_ready_def bot_sent_def fun_eq_iff)

text \<open>An update of a bot that leaves its buffers alone.\<close>

lemma bots_ready_upd_bot:
  assumes "\<And>d. ds_sends (f d) = ds_sends d"
  shows "bots_ready (upd_bot i f w) = bots_ready w" "bot_sent (upd_bot i f w) j = bot_sent w j"
  using assms bots.out_cong [of "upd_bot i f w" w] by (simp_all add: upd_bot_def bots_ready_def bot_sent_def)

lemma send_packet_ok:
  assumes "bots_ready w" "packet_size p \<le> 4096"
  obtains w' where "send_packet t p i w = Ok w'" "bot_sends i [p] w w'"
proof (rule bots.send_ok [OF assms(1) [unfolded bots_ready_def] assms(2), where t = t and i = i],
    fold bots_ready_def bot_sent_def)
  fix sb b
  let ?w = "Bot_Send (Some sb) i (w\<lparr>dw_sendBuffers := b\<rparr>)"
  assume m: "MakeSendBuffer_packet t p (dw_sendBuffers w) = Ok (Some sb, b)" "bots_ready ?w"
    "\<And>j. bot_sent ?w j = bot_sent w j @ (if j = i then [packet_bytes p] else [])"
  have "(dw_bots ?w j)\<lparr>ds_sends := []\<rparr> = (dw_bots w j)\<lparr>ds_sends := []\<rparr>" "dw_latency ?w = dw_latency w" for j
    by (simp_all add: upd_bot_def)
  with m show thesis
    by (intro that [of "upd_stats (\<lambda>st. st\<lparr>st_totalSentPackets := st_totalSentPackets st + 1\<rparr>) ?w"])
      (simp_all add: send_packet_def bot_sends_def del: Bot_Send.simps)
qed

section \<open>Pings in text\<close>

lemma find_colon:
  assumes "0 \<le> n"
  shows "dropWhile (\<lambda>c. c \<noteq> CHR '':'') (to_string n @ CHR '':'' # s) = CHR '':'' # s"
proof -
  have "c \<noteq> CHR '':''" if "c \<in> set (decimal (nat n))" for c
    using decimal_is_digit [of "nat n"] that by (auto simp: is_digit_def)
  then show ?thesis using assms by (simp add: to_string_def dropWhile_append2)
qed

section \<open>The flood\<close>

text \<open>The packets of a flooding bot: the login and the chat messages.\<close>

definition flood_packets :: "string \<Rightarrow> nat \<Rightarrow> packet list" where
  "flood_packets name n = Pkt_C_LOGIN \<lparr>C_LOGIN_name = name\<rparr> # map (\<lambda>k. flood_packet (int k)) [0..<n]"

lemma length_flood_message:
  "int k < 1000000000 \<Longrightarrow> length (''Flooding attack packet #'' @ to_string (int k + 1)) \<le> 34"
  using length_to_string [of "int k + 1" 10] by simp

lemma flood_packet_size: "int k < 1000000000 \<Longrightarrow> packet_size (flood_packet (int k)) \<le> 4096"
  using length_flood_message [of k]
  by (simp add: flood_packet_def packet_size_def enc_C_ROOM_CHAT_def length_enc_string)

lemma flood_loop_ok:
  assumes "bots_ready w" "int k + int n \<le> 1000000000"
  shows "\<exists>w'. flood_loop t n (int k) i w = Ok w' \<and> bot_sends i (map (\<lambda>k. flood_packet (int k)) [k..<k + n]) w w'"
  using assms
proof (induction n arbitrary: k w)
  case 0
  then show ?case by (simp add: bot_sends_def)
next
  case (Suc n)
  have "int k < 1000000000" using Suc.prems(2) by simp
  then obtain w1 where w1: "send_packet t (flood_packet (int k)) i w = Ok w1" "bot_sends i [flood_packet (int k)] w w1"
    by (rule send_packet_ok [OF Suc.prems(1) flood_packet_size])
  obtain w' where w': "flood_loop t n (int (Suc k)) i w1 = Ok w'"
      "bot_sends i (map (\<lambda>k. flood_packet (int k)) [Suc k..<Suc k + n]) w1 w'"
    using Suc.IH [OF bot_sends_name(2) [OF w1(2)], of "Suc k"] Suc.prems(2) by auto
  have "[k..<k + Suc n] = k # [Suc k..<Suc k + n]" by (simp add: upt_rec)
  with bot_sends_trans [OF w1(2) w'(2)] w1(1) w'(1) show ?case by (simp add: add.commute)
qed

lemma flood_bot_sends:
  assumes "bots_ready w" "ds_scenario (dw_bots w i) = PacketFlood" "length (ds_botName (dw_bots w i)) \<le> 4000"
  shows "\<exists>w'. Bot_OnConnected t tick i w = Ok w' \<and>
    bot_sent w' i = bot_sent w i @ map packet_bytes (flood_packets (ds_botName (dw_bots w i)) 80)"
proof -
  let ?f = "\<lambda>d. d\<lparr>ds_connectedTick := tick\<rparr>"
  let ?w = "upd_bot i ?f (upd_stats (\<lambda>st. st\<lparr>st_totalConnected := to_int32 (st_totalConnected st + 1)\<rparr>)
    (upd_stats (\<lambda>st. st\<lparr>st_activeSessions := to_int32 (st_activeSessions st + 1)\<rparr>) w))"
  have w: "bots_ready ?w" "bot_sent ?w j = bot_sent w j" "ds_botName (dw_bots ?w i) = ds_botName (dw_bots w i)"
    "ds_scenario (dw_bots ?w i) = PacketFlood" for j
    using assms(1,2) by (simp_all add: bots_ready_upd_bot) (simp_all add: upd_bot_def)
  have "packet_size (login_packet i ?w) \<le> 4096"
    using assms(3) w(3) by (simp add: login_packet_def packet_size_def enc_C_LOGIN_def length_enc_string)
  then obtain w1 where w1: "send_packet t (login_packet i ?w) i ?w = Ok w1" "bot_sends i [login_packet i ?w] ?w w1"
    using send_packet_ok [OF w(1)] by blast
  obtain w2 where w2: "flood_loop t 80 0 i w1 = Ok w2" "bot_sends i (map (\<lambda>k. flood_packet (int k)) [0..<80]) w1 w2"
    using flood_loop_ok [OF bot_sends_name(2) [OF w1(2)], of 0 80] by auto
  have "Bot_OnConnected t tick i w = Ok w2"
    using w(4) w1(1) w2(1) by (simp add: Bot_OnConnected_def ExecuteFloodAttack_def Let_def)
  moreover have "bot_sent w2 i = bot_sent w i @ map packet_bytes (flood_packets (ds_botName (dw_bots w i)) 80)"
    using bot_sends_trans [OF w1(2) w2(2)] w(2,3)
    by (simp add: bot_sends_def login_packet_def flood_packets_def del: upt_Suc)
  ultimately show ?thesis by blast
qed

text \<open>The server takes every packet of the flood, let through or not.\<close>

definition serves :: "packet \<Rightarrow> bool" where
  "serves p \<longleftrightarrow> dom_packet p \<and> to_server p \<and> packet_size p \<le> 65535 \<and>
     (\<forall>t clock s w. ready w \<longrightarrow> (\<exists>w'. handle_packet t clock (Some s) p w = Ok (True, w') \<and> ready w'))"

lemma serves_login: "length name \<le> 4000 \<Longrightarrow> serves (Pkt_C_LOGIN \<lparr>C_LOGIN_name = name\<rparr>)"
  unfolding serves_def
proof (intro conjI allI impI)
  fix t clock s w assume name: "length name \<le> 4000" and w: "ready w"
  let ?w = "SetPlayerInfo (w_playerIdGenerator w) name s (w\<lparr>w_playerIdGenerator := w_playerIdGenerator w + 1\<rparr>)"
  let ?p = "Pkt_S_LOGIN \<lparr>S_LOGIN_success = True, S_LOGIN_playerId = w_playerIdGenerator w, S_LOGIN_name = name,
    S_LOGIN_message = ''Welcome to High-Performance IOCP Chat Server!''\<rparr>"
  have "ready ?w" using w ready_cong(1) [of ?w w] by (simp add: SetPlayerInfo_def)
  moreover have "packet_size ?p \<le> 4096"
    using name by (simp add: packet_size_def enc_S_LOGIN_def length_enc_string enc_bool_def)
  ultimately obtain sb w1 where m: "make_buffer t ?p ?w = Ok (Some sb, w1)"
      "\<And>ss. distinct ss \<Longrightarrow> tells ?w (\<lambda>u. if u \<in> set ss then [?p] else []) (fold (Send (Some sb)) ss w1)"
    by (rule make_ok) blast
  then have "ready (Send (Some sb) s w1)" using m(2) [of "[s]"] by (simp add: tells_def)
  with m(1) show "\<exists>w'. handle_packet t clock (Some s) (Pkt_C_LOGIN \<lparr>C_LOGIN_name = name\<rparr>) w = Ok (True, w') \<and> ready w'"
    by (simp add: Handle_C_LOGIN_def Let_def)
qed (simp_all add: dom_C_LOGIN_def packet_size_def enc_C_LOGIN_def length_enc_string)

lemma serves_flood: "int k < 1000000000 \<Longrightarrow> serves (flood_packet (int k))"
  unfolding serves_def
proof (intro conjI allI impI)
  assume k: "int k < 1000000000"
  show "dom_packet (flood_packet (int k))"
    using length_flood_message [OF k] by (simp add: flood_packet_def dom_C_ROOM_CHAT_def)
  show "packet_size (flood_packet (int k)) \<le> 65535" using flood_packet_size [OF k] by simp
  show "to_server (flood_packet (int k))" by (simp add: flood_packet_def)
  fix t clock s w assume "ready w"
  then show "\<exists>w'. handle_packet t clock (Some s) (flood_packet (int k)) w = Ok (True, w') \<and> ready w'"
    using ready_cong(1) [of "PushJob r j w" w for r j]
    by (auto simp: flood_packet_def Handle_C_ROOM_CHAT_def split: option.split)
qed

lemma OnRecvPacket_serves:
  assumes "ready w" "serves p"
  shows "\<exists>w'. OnRecvPacket t clock timeStr s (packet_bytes p) (int (length (packet_bytes p))) w = Ok w' \<and> ready w'"
proof -
  obtain ok tb where c: "Consume (clock 0) 1 (cs_rateLimiter (w_clients w s)) = (ok, tb)" by fastforce
  show ?thesis
  proof (cases ok)
    case True
    with c have c: "Consume (clock 0) 1 (cs_rateLimiter (w_clients w s)) = (True, tb)" by simp
    let ?w = "received clock s (int (packet_size p)) tb w"
    obtain w' where "handle_packet t (\<lambda>n. clock (n + 2)) (Some s) p ?w = Ok (True, w')" "ready w'"
      using assms unfolding serves_def by (metis received_simps(8))
    then show ?thesis
      using OnRecvPacket_dispatch [where clock = clock, OF c, of p] assms(2) by (simp add: serves_def after_handler_def)
  next
    case False
    let ?w = "upd_client s (\<lambda>c. c\<lparr>cs_isAbuseReported := True\<rparr>) (upd_client s (\<lambda>c. c\<lparr>cs_rateLimiter := tb\<rparr>)
      (w\<lparr>w_stats := OnPacketReceived (int (length (packet_bytes p))) (w_stats w)\<rparr>))"
    let ?w1 = "if \<not> cs_isAbuseReported (w_clients w s) then report (clock 1) timeStr s ''Packet Flooding Detected'' ?w else ?w"
    have "OnRecvPacket t clock timeStr s (packet_bytes p) (int (length (packet_bytes p))) w =
        Ok (Disconnect (wide ''Packet Flooding Detected'') s ?w1)"
      using c False by (simp add: OnRecvPacket_unfold rate_limit_def Let_def)
    moreover have "ready (Disconnect (wide ''Packet Flooding Detected'') s ?w1)"
      using assms(1) by (subst ready_cong(1) [of _ w]) (auto simp: Disconnect_def report_def ReportAbuse_def Let_def)
    ultimately show ?thesis by blast
  qed
qed

lemma recv_run_serves:
  assumes "ready w" "\<forall>p \<in> set ps. serves p"
  shows "\<exists>w' calls'. recv_run t s (map2 (\<lambda>(clock, timeStr) p. (clock, timeStr, packet_bytes p)) cs ps) (w, calls) =
    Ok (w', calls')"
  using assms
proof (induction ps arbitrary: cs w calls)
  case (Cons p ps)
  note IH = Cons.IH and prems = Cons.prems
  show ?case
  proof (cases cs)
    case (Cons c cs')
    obtain clock timeStr where c: "c = (clock, timeStr)" by (cases c)
    obtain w1 where "OnRecvPacket t clock timeStr s (packet_bytes p) (int (length (packet_bytes p))) w = Ok w1" "ready w1"
      using OnRecvPacket_serves [of w p t clock timeStr s] prems by auto
    then show ?thesis using IH [where cs = cs' and w = w1] prems Cons c by (simp add: OnRecvPacket_logged)
  qed simp
qed simp

section \<open>Pings\<close>

lemma ping_message_parts:
  assumes "0 \<le> sentUs"
  shows "take 4 (ping_message seq sentUs) = ''LAT:''"
    "dropWhile (\<lambda>c. c \<noteq> CHR '':'') (drop 4 (ping_message seq sentUs)) = CHR '':'' # to_string sentUs"
  using find_colon [of "uint seq" "to_string sentUs"] by (simp_all add: ping_message_def)

lemma length_ping_message:
  assumes "0 \<le> sentUs" "sentUs < 2 ^ 63"
  shows "length (ping_message seq sentUs) \<le> 34"
proof -
  have "unat seq < 10 ^ 10" using unsigned_less [of seq, where 'a = nat] by simp
  then have "length (to_string (uint seq)) \<le> 10" using length_to_string [of "uint seq" 10] by simp
  moreover have "length (to_string sentUs) \<le> 19" using length_to_string [of sentUs 19] assms by simp
  ultimately show ?thesis by (simp add: ping_message_def)
qed

lemma Bot_OnRecvPacket_handles:
  assumes "dom_packet p" "\<not> to_server p" "packet_size p \<le> 65535"
  shows "Bot_OnRecvPacket t r nowUs i (packet_bytes p) (int (length (packet_bytes p))) w =
    res_bind (handle_bot t r nowUs (Some i) p (upd_stats (\<lambda>st. st\<lparr>st_totalRecvPackets := st_totalRecvPackets st + 1\<rparr>) w))
      (\<lambda>(_, w). Ok w)"
proof -
  have "take (packet_size p) (packet_bytes p) = packet_bytes p" by simp
  note read = client_dispatch_read [OF this assms(3,1,2)]
  show ?thesis by (simp only: Bot_OnRecvPacket_def Let_def length_packet_bytes read)
qed

abbreviation room_chat :: "string \<Rightarrow> string \<Rightarrow> packet" where
  "room_chat name m \<equiv> Pkt_S_ROOM_CHAT \<lparr>S_ROOM_CHAT_senderName = name, S_ROOM_CHAT_message = m\<rparr>"

lemma room_chat_small:
  assumes "length name + length m \<le> 4088"
  shows "dom_packet (room_chat name m)" "\<not> to_server (room_chat name m)" "packet_size (room_chat name m) \<le> 65535"
  using assms by (simp_all add: dom_S_ROOM_CHAT_def packet_size_def enc_S_ROOM_CHAT_def length_enc_string)

section \<open>Properties\<close>

text \<open>
  C18: A flooding bot is thrown out. The bot and the server put together: a bot of the flood scenario
  sends, when it is connected, its login and 80 chat messages; when the server takes these 81
  packets within 2049 milliseconds of the reset of the session's token bucket, \<open>OnRecvPacket\<close> calls
  the dispatcher for at most 80 of them (\<open>calls\<close> is the record of these calls, a selection of the
  bot's packets in their order), the session is disconnected and it is reported for flooding once,
  wherever the pauses between the packets are.
\<close>

theorem flood_bot_disconnected:
  assumes "bots_ready w" "ds_scenario (dw_bots w i) = PacketFlood" "length (ds_botName (dw_bots w i)) \<le> 4000"
    and "ready v" "cs_rateLimiter (w_clients v s) = TokenBucket_new 40 20 start" "\<not> cs_isAbuseReported (w_clients v s)"
    and "length cs = 81" "\<forall>(clock, _) \<in> set cs. clock 0 \<le> T" "start \<le> T" "unat (T - start) < 2050"
  shows "\<exists>w' bs v' calls. Bot_OnConnected t tick i w = Ok w' \<and> bot_sent w' i = bot_sent w i @ bs \<and> length bs = 81 \<and>
    recv_run u s (map2 (\<lambda>(clock, timeStr) b. (clock, timeStr, b)) cs bs) (v, []) = Ok (v', calls) \<and>
    length calls \<le> 80 \<and> subseq calls bs \<and> \<not> cs_connected (w_clients v' s) \<and>
    flood_reports (w_abuseLogs v') = Suc (flood_reports (w_abuseLogs v))"
proof -
  let ?ps = "flood_packets (ds_botName (dw_bots w i)) 80"
  let ?rs = "map2 (\<lambda>(clock, timeStr) b. (clock, timeStr, b)) cs (map packet_bytes ?ps)"
  have rs: "?rs = map2 (\<lambda>(clock, timeStr) p. (clock, timeStr, packet_bytes p)) cs ?ps"
    by (simp add: zip_map2 split_beta comp_def)
  have "\<forall>p \<in> set ?ps. serves p"
    using serves_login [OF assms(3)] serves_flood by (auto simp: flood_packets_def)
  then obtain v' calls where run: "recv_run u s ?rs (v, []) = Ok (v', calls)"
    using recv_run_serves [OF assms(4)] unfolding rs by blast
  have len: "length ?ps = 81" "length ?rs = 81" using assms(7) by (simp_all add: flood_packets_def)
  have clocks: "\<forall>(clock, _) \<in> set ?rs. clock 0 \<le> T" using assms(8) by (auto dest!: set_zip_leftD)
  have "map (snd \<circ> snd) (map2 (\<lambda>(clock, timeStr) b. (clock, timeStr, b)) xs ys) = ys"
    if "length xs = length ys" for xs :: "((nat \<Rightarrow> uint64) \<times> string) list" and ys :: "byte list list"
    using that by (induction xs ys rule: list_induct2) auto
  then have bytes: "map (snd \<circ> snd) ?rs = map packet_bytes ?ps" using len(1) assms(7) by simp
  have "unat (T - start) * 20 div 1000 \<le> 40" using assms(10) by simp
  moreover have "unat (T - start) < 100000000000" using assms(10) by simp
  ultimately have "length calls \<le> 80 \<and> subseq calls (map packet_bytes ?ps) \<and> \<not> cs_connected (w_clients v' s) \<and>
      flood_reports (w_abuseLogs v') = Suc (flood_reports (w_abuseLogs v))"
    using flood_limit [OF run assms(5,6) clocks assms(9)] len(2) unfolding bytes by (auto split: if_splits)
  with run len(1) flood_bot_sends [OF assms(1-3), of t tick] show ?thesis by (metis length_map)
qed

text \<open>
  C26: A ping is measured. A connected bot in a room sends, as a chat message, a ping with its time; when
  the room's message comes back under the bot's name at a later time, as bytes, the bot records
  exactly the time in between, and does nothing else.
\<close>

theorem ping_measured:
  assumes "bots_ready w" "ds_connected (dw_bots w i)" "ds_isInRoom (dw_bots w i)" "length (ds_botName (dw_bots w i)) \<le> 4000"
    and "0 \<le> sentUs" "sentUs \<le> nowUs" "nowUs < 2 ^ 63" "ds_botName (dw_bots w1 i) = ds_botName (dw_bots w i)"
  shows "\<exists>w' m. SendLatencyPingChat t sentUs i w = Ok w' \<and>
    bot_sent w' i = bot_sent w i @ [packet_bytes (Pkt_C_ROOM_CHAT \<lparr>C_ROOM_CHAT_message = m\<rparr>)] \<and>
    (let b = packet_bytes (room_chat (ds_botName (dw_bots w i)) m);
         w2 = upd_stats (\<lambda>st. st\<lparr>st_totalRecvPackets := st_totalRecvPackets st + 1\<rparr>) w1 in
     Bot_OnRecvPacket t' r nowUs i b (int (length b)) w1 =
       res_bind (RecordSample (of_int (nowUs - sentUs)) (dw_latency w1)) (\<lambda>l. Ok (w2\<lparr>dw_latency := l\<rparr>)))"
proof -
  let ?m = "ping_message (ds_chatSeq (dw_bots w i)) sentUs" and ?name = "ds_botName (dw_bots w i)"
  let ?w = "upd_bot i (\<lambda>d. d\<lparr>ds_chatSeq := ds_chatSeq (dw_bots w i) + 1\<rparr>) w"
  have len: "length ?m \<le> 34" using assms(5-7) by (intro length_ping_message) simp_all
  have w: "bots_ready ?w" "bot_sent ?w j = bot_sent w j" for j using assms(1) by (simp_all add: bots_ready_upd_bot)
  have "packet_size (Pkt_C_ROOM_CHAT \<lparr>C_ROOM_CHAT_message = ?m\<rparr>) \<le> 4096"
    using len by (simp add: packet_size_def enc_C_ROOM_CHAT_def length_enc_string)
  then obtain w' where w': "send_packet t (Pkt_C_ROOM_CHAT \<lparr>C_ROOM_CHAT_message = ?m\<rparr>) i ?w = Ok w'"
      "bot_sends i [Pkt_C_ROOM_CHAT \<lparr>C_ROOM_CHAT_message = ?m\<rparr>] ?w w'"
    using send_packet_ok [OF w(1)] by blast
  have send: "SendLatencyPingChat t sentUs i w = Ok w'"
    using w'(1) assms(2,3) by (simp add: SendLatencyPingChat_def Let_def)
  have order: "(of_int sentUs :: uint64) \<le> of_int nowUs"
    using assms(5-7) by (simp add: word_le_def uint_word_of_int)
  have rec: "Bot_S_ROOM_CHAT nowUs (Some i) \<lparr>S_ROOM_CHAT_senderName = ?name, S_ROOM_CHAT_message = ?m\<rparr> x =
      res_bind (RecordSample (of_int (nowUs - sentUs)) (dw_latency x)) (\<lambda>l. Ok (True, x\<lparr>dw_latency := l\<rparr>))"
    if "ds_botName (dw_bots x i) = ?name" for x
    using that order assms(5-7) ping_message_parts [OF assms(5)] stoull_to_string [of sentUs]
    by (simp add: Bot_S_ROOM_CHAT_def Let_def)
  have "length ?name + length ?m \<le> 4088" using len assms(4) by simp
  note handles = Bot_OnRecvPacket_handles [OF room_chat_small [OF this], of t' r nowUs i w1]
  have "Bot_OnRecvPacket t' r nowUs i (packet_bytes (room_chat ?name ?m)) (int (length (packet_bytes (room_chat ?name ?m)))) w1 =
      res_bind (RecordSample (of_int (nowUs - sentUs)) (dw_latency w1)) (\<lambda>l.
        Ok ((upd_stats (\<lambda>st. st\<lparr>st_totalRecvPackets := st_totalRecvPackets st + 1\<rparr>) w1)\<lparr>dw_latency := l\<rparr>))"
    using handles rec assms(8) by (cases "RecordSample (of_int (nowUs - sentUs)) (dw_latency w1)") simp_all
  then show ?thesis
    using send w'(2) w(2) by (intro exI [of _ w'] exI [of _ ?m]) (simp add: bot_sends_def Let_def)
qed

text \<open>
  A message from a namesake brings the stress test down. The server lets two sessions have one name;
  a chat message \<open>LAT:0:0\<close> under a bot's name makes the bot record the whole time of its clock, and
  from 214,748 seconds on its bucket index is negative.
\<close>

theorem namesake_message_crashes:
  assumes "214748364800 \<le> nowUs" "nowUs < 429496729600" "length (ds_botName (dw_bots w i)) \<le> 4000"
  shows "Bot_OnRecvPacket t r nowUs i (packet_bytes (room_chat (ds_botName (dw_bots w i)) ''LAT:0:0''))
    (int (length (packet_bytes (room_chat (ds_botName (dw_bots w i)) ''LAT:0:0'')))) w = Crash OutOfBounds"
proof -
  let ?name = "ds_botName (dw_bots w i)"
  have u: "uint (of_int nowUs :: uint64) = nowUs" using assms(1,2) by (simp add: uint_word_of_int)
  have "2147483648 \<le> nowUs div 100" "nowUs div 100 < 4294967296" using assms(1,2) by linarith+
  then have "(nowUs div 100 + 2147483648) mod 4294967296 = nowUs div 100 - 2147483648"
    using int_mod_once [of "nowUs div 100 + 2147483648" 4294967296] by simp
  then have "bucket_index (of_int nowUs) < 0"
    using \<open>nowUs div 100 < 4294967296\<close> by (simp add: bucket_index_def u BUCKET_RESOLUTION_US_def to_int32_def NUM_BUCKETS_def MAX_TRACKED_US_def Let_def)
  then have crash: "RecordSample (of_int nowUs) m = Crash OutOfBounds" for m
    using RecordSample_bucket [of m "of_int nowUs"] by (auto simp: bucket_add_def)
  have "stoull ''0'' = Some 0"
    by (simp add: stoull_def take_sign_def is_space_def is_digit_def decimal_value_def char_digit_def Let_def)
  then have "Bot_S_ROOM_CHAT nowUs (Some i) \<lparr>S_ROOM_CHAT_senderName = ?name, S_ROOM_CHAT_message = ''LAT:0:0''\<rparr> x =
      Crash OutOfBounds" if "dw_bots x = dw_bots w" for x
    using that crash by (simp add: Bot_S_ROOM_CHAT_def Let_def)
  moreover have "length ?name + length ''LAT:0:0'' \<le> 4088" using assms(3) by simp
  note Bot_OnRecvPacket_handles [OF room_chat_small [OF this], of t r nowUs i w]
  ultimately show ?thesis by simp
qed

section \<open>Examples\<close>

definition bot_world :: "dummy_session \<Rightarrow> dummy_world" where
  "bot_world d = \<lparr>dw_bots = (\<lambda>_. d), dw_stats = \<lparr>st_activeSessions = 0, st_totalConnected = 0,
     st_totalDisconnected = 0, st_abuseDisconnected = 0, st_totalSentPackets = 0, st_totalRecvPackets = 0\<rparr>,
     dw_latency = latency_start, dw_sendBuffers = sb_start\<rparr>"

lemma bot_world_simps [simp]:
  "dw_bots (bot_world d) i = d" "dw_latency (bot_world d) = latency_start"
  "ds_sends d = [] \<Longrightarrow> bots_ready (bot_world d)" "ds_sends d = [] \<Longrightarrow> bot_sent (bot_world d) i = []"
  by (simp_all add: bot_world_def bots_ready_def out_ready_def sb_inv_start sb_idle_start bot_sent_def out_sent_def)

lemma to_string_1: "to_string 1 = ''1''"
  by code_simp

lemma DummySession_new_simps [simp]:
  "ds_sends (DummySession_new sc 1) = []" "ds_botName (DummySession_new sc 1) = ''Bot_1''"
  "ds_scenario (DummySession_new sc 1) = sc"
  by (simp_all add: DummySession_new_def to_string_1)

theorem flood_bot_disconnected_witness:
  "\<exists>w' bs v' calls. Bot_OnConnected 0 5 7 (bot_world (DummySession_new PacketFlood 1)) = Ok w' \<and> bot_sent w' 7 = bs \<and>
     length bs = 81 \<and>
     recv_run 0 1 (map2 (\<lambda>(clock, timeStr) b. (clock, timeStr, b)) (replicate 81 (\<lambda>_. 1000, ''now'')) bs)
       (served_world, []) = Ok (v', calls) \<and> length calls \<le> 80 \<and> flood_reports (w_abuseLogs v') = 1"
  using flood_bot_disconnected [of "bot_world (DummySession_new PacketFlood 1)" 7 served_world 1 0
      "replicate 81 (\<lambda>_. 1000, ''now'')" 1000 0 5 0]
  by (auto simp: flood_reports_def)

abbreviation room_bot :: dummy_session where
  "room_bot \<equiv> (DummySession_new Normal 1)\<lparr>ds_connected := True, ds_isInRoom := True\<rparr>"

theorem ping_measured_witness:
  "\<exists>w' m w2. SendLatencyPingChat 0 1000 7 (bot_world room_bot) = Ok w' \<and>
     bot_sent w' 7 = [packet_bytes (Pkt_C_ROOM_CHAT \<lparr>C_ROOM_CHAT_message = m\<rparr>)] \<and>
     Bot_OnRecvPacket 0 0 1250 7 (packet_bytes (room_chat ''Bot_1'' m)) (int (length (packet_bytes (room_chat ''Bot_1'' m))))
       (bot_world room_bot) = Ok w2 \<and> lm_totalLatencyUs (dw_latency w2) = 250"
proof -
  obtain m1 where m1: "lm_buckets m1 = lm_buckets latency_start"
      "RecordSample 250 latency_start = bucket_add (bucket_index 250) m1"
    using RecordSample_bucket by blast
  then have "length (lm_buckets m1) = nat NUM_BUCKETS" by (simp add: latency_start_def)
  then obtain l where l: "RecordSample 250 latency_start = Ok l"
    using bucket_add_small [of 250 m1] m1(2) by (auto simp: small_def)
  then have "lm_totalLatencyUs l = 250"
    by (auto simp: RecordSample_def bucket_add_def latency_start_def Let_def split: if_splits)
  moreover obtain w' m where "SendLatencyPingChat 0 1000 7 (bot_world room_bot) = Ok w'"
      "bot_sent w' 7 = [packet_bytes (Pkt_C_ROOM_CHAT \<lparr>C_ROOM_CHAT_message = m\<rparr>)]"
      "\<exists>w2. Bot_OnRecvPacket 0 0 1250 7 (packet_bytes (room_chat ''Bot_1'' m))
         (int (length (packet_bytes (room_chat ''Bot_1'' m)))) (bot_world room_bot) = Ok w2 \<and> dw_latency w2 = l"
    using ping_measured [of "bot_world room_bot" 7 1000 1250 "bot_world room_bot" 0 0 0] l by (auto simp: Let_def)
  ultimately show ?thesis by blast
qed

theorem namesake_message_crashes_witness:
  "Bot_OnRecvPacket 0 0 300000000000 7 (packet_bytes (room_chat ''Bot_1'' ''LAT:0:0''))
     (int (length (packet_bytes (room_chat ''Bot_1'' ''LAT:0:0'')))) (bot_world (DummySession_new Normal 1)) = Crash OutOfBounds"
  using namesake_message_crashes [of 300000000000 "bot_world (DummySession_new Normal 1)" 7 0 0] by simp

end
