(* ===== verification/ChatClient.thy ===== *)
theory ChatClient
  imports ClientSession Streams
begin

text \<open>
  \<^verbatim>\<open>ChatClient/\<close>: the interactive client. The session (\<^verbatim>\<open>Session/ServerSession.cpp\<close>), its packet handlers
  (\<^verbatim>\<open>Protocol/ClientPacketHandlerImpl.cpp\<close>) and the commands of the console (\<^verbatim>\<open>Main.cpp\<close>).

  A session is a number; a null pointer is \<open>None\<close>, and using it is a fault. What is printed to
  \<open>std::cout\<close> is appended to \<open>cl_cout\<close>, character by character, and \<open>std::cerr\<close> to \<open>cl_cerr\<close>. A call
  of \<open>Send\<close> appends the buffer to \<open>se_sends\<close>; \<open>t\<close> is the thread that runs the operation.
\<close>

section \<open>State\<close>

record server_session =
  se_playerName :: string
  se_isLoggedIn :: bool
  se_currentRoomId :: int32
  se_connected :: bool
  se_sends :: "send_buffer list"

definition ServerSession_new :: server_session where
  "ServerSession_new = \<lparr>se_playerName = [], se_isLoggedIn = False, se_currentRoomId = 0, se_connected = False,
     se_sends = []\<rparr>"

record client_world =
  cl_sessions :: "nat \<Rightarrow> server_session"
  cl_sendBuffers :: sb_state
  cl_cout :: string
  cl_cerr :: string
  cl_isRunning :: bool

definition upd_session :: "nat \<Rightarrow> (server_session \<Rightarrow> server_session) \<Rightarrow> client_world \<Rightarrow> client_world" where
  "upd_session i f w = w\<lparr>cl_sessions := (cl_sessions w)(i := f (cl_sessions w i))\<rparr>"

definition cout :: "string \<Rightarrow> client_world \<Rightarrow> client_world" where
  "cout s w = w\<lparr>cl_cout := cl_cout w @ s\<rparr>"

definition cerr :: "string \<Rightarrow> client_world \<Rightarrow> client_world" where
  "cerr s w = w\<lparr>cl_cerr := cl_cerr w @ s\<rparr>"

text \<open>\<open>serverSession->Send(pkt.MakeSendBuffer())\<close>\<close>

fun Client_Send :: "send_buffer option \<Rightarrow> nat \<Rightarrow> client_world \<Rightarrow> client_world" where
  "Client_Send None i w = w"
| "Client_Send (Some sb) i w = upd_session i (\<lambda>c. c\<lparr>se_sends := se_sends c @ [sb]\<rparr>) w"

definition client_packet :: "nat \<Rightarrow> packet \<Rightarrow> nat \<Rightarrow> client_world \<Rightarrow> client_world res" where
  "client_packet t pkt i w = res_bind (MakeSendBuffer_packet t pkt (cl_sendBuffers w)) (\<lambda>(sb, s).
     Ok (Client_Send sb i (w\<lparr>cl_sendBuffers := s\<rparr>)))"

section \<open>The handlers\<close>

definition deref :: "nat option \<Rightarrow> (nat \<Rightarrow> 'a res) \<Rightarrow> 'a res" where
  "deref p f = (case p of None \<Rightarrow> Crash NullDeref | Some i \<Rightarrow> f i)"

definition Client_S_LOGIN :: "nat option \<Rightarrow> S_LOGIN \<Rightarrow> client_world \<Rightarrow> (bool \<times> client_world) res" where
  "Client_S_LOGIN session pkt w =
     (if S_LOGIN_success pkt then
        deref session (\<lambda>i.
          let w = upd_session i (\<lambda>c. c\<lparr>se_isLoggedIn := True\<rparr>) w;
              w = upd_session i (\<lambda>c. c\<lparr>se_playerName := S_LOGIN_name pkt\<rparr>) w;
              w = cout (esc ''[1;32m[LOGIN SUCCESS] Logged in as '' @ [CHR 0x27] @ S_LOGIN_name pkt @ [CHR 0x27] @
                '' (Player ID: '' @ to_string (uint (S_LOGIN_playerId pkt)) @ '')'' @ esc ''[0m'' @ nl @
                esc ''[1;36m  * '' @ S_LOGIN_message pkt @ esc ''[0m'' @ nl) w;
              w = cout (esc ''[1;33m[INFO] Type '' @ [CHR 0x27] @ ''/list'' @ [CHR 0x27] @ '' to view rooms, '' @
                [CHR 0x27] @ ''/join <id>'' @ [CHR 0x27] @ '' to enter a room, '' @ [CHR 0x27] @ ''/help'' @
                [CHR 0x27] @ '' for commands.'' @ esc ''[0m'' @ nl) w
          in Ok (True, w))
      else Ok (True, cout (esc ''[1;31m[LOGIN FAILED] '' @ S_LOGIN_message pkt @ esc ''[0m'' @ nl) w))"

definition room_line :: "RoomsInfo \<Rightarrow> string" where
  "room_line room = ''  '' @ setw_left 10 (to_string (sint (RoomsInfo_roomId room))) @
     setw_left 30 (RoomsInfo_roomName room) @ to_string (sint (RoomsInfo_userCount room)) @ '' users'' @ nl"

text \<open>The loop over the rooms: the lines and the sum, which wraps.\<close>

fun room_lines :: "RoomsInfo list \<Rightarrow> int32 \<Rightarrow> string \<times> int32" where
  "room_lines [] totalUserCount = ([], totalUserCount)"
| "room_lines (room # rooms) totalUserCount =
     (let (s, n) = room_lines rooms (to_int32 (totalUserCount + sint (RoomsInfo_userCount room))) in
      (room_line room @ s, n))"

definition Client_S_ROOM_LIST :: "S_ROOM_LIST \<Rightarrow> client_world \<Rightarrow> (bool \<times> client_world) res" where
  "Client_S_ROOM_LIST pkt w =
     (let w = cout (nl @ esc ''[1;36m====================== AVAILABLE CHAT ROOMS ======================'' @ esc ''[0m'' @ nl) w;
          w = cout (setw_left 12 '' [Room ID]'' @ setw_left 30 ''[Room Name]'' @ ''[Active Users]'' @ nl) w;
          w = cout (''------------------------------------------------------------------'' @ nl) w;
          w = (if S_ROOM_LIST_rooms pkt = [] then
                 cout (''  (No rooms available. Create one with /join <id> <name>)'' @ nl) w
               else
                 let (s, n) = room_lines (S_ROOM_LIST_rooms pkt) 0 in
                 cout (s @ ''  '' @ setw_left 10 [] @ setw_left 30 [] @ to_string n @ nl) w);
          w = cout (esc ''[1;36m=================================================================='' @ esc ''[0m'' @ nl) w
      in Ok (True, w))"

fun member_list :: "MembersInfo list \<Rightarrow> string" where
  "member_list [] = []"
| "member_list [m] = MembersInfo_name m"
| "member_list (m # ms) = MembersInfo_name m @ '', '' @ member_list ms"

definition Client_S_ENTER_ROOM :: "nat option \<Rightarrow> S_ENTER_ROOM \<Rightarrow> client_world \<Rightarrow> (bool \<times> client_world) res" where
  "Client_S_ENTER_ROOM session pkt w =
     (if S_ENTER_ROOM_success pkt then
        deref session (\<lambda>i.
          let w = upd_session i (\<lambda>c. c\<lparr>se_currentRoomId := sint (S_ENTER_ROOM_roomId pkt)\<rparr>) w;
              w = cout (nl @ esc ''[1;32m[ROOM JOINED] Successfully entered Room #'' @
                to_string (sint (S_ENTER_ROOM_roomId pkt)) @ '' ('' @ [CHR 0x27] @ S_ENTER_ROOM_roomName pkt @
                [CHR 0x27] @ '')'' @ esc ''[0m'' @ nl) w;
              w = cout (esc ''[1;37m  * Current Members ('' @ to_string (int (length (S_ENTER_ROOM_members pkt))) @
                ''): '' @ esc ''[0m'') w;
              w = cout (member_list (S_ENTER_ROOM_members pkt)) w;
              w = cout (nl @ esc ''[1;33m  (Messages typed now will be sent to this room. Use '' @ [CHR 0x27] @
                ''/leave'' @ [CHR 0x27] @ '' to exit.)'' @ esc ''[0m'' @ nl) w
          in Ok (True, w))
      else Ok (True, cout (esc ''[1;31m[ROOM ERROR] Failed to enter room #'' @
             to_string (sint (S_ENTER_ROOM_roomId pkt)) @ esc ''[0m'' @ nl) w))"

definition Client_S_LEAVE_ROOM :: "nat option \<Rightarrow> S_LEAVE_ROOM \<Rightarrow> client_world \<Rightarrow> (bool \<times> client_world) res" where
  "Client_S_LEAVE_ROOM session pkt w =
     (if S_LEAVE_ROOM_success pkt then
        deref session (\<lambda>i.
          let prevRoomId = se_currentRoomId (cl_sessions w i);
              w = upd_session i (\<lambda>c. c\<lparr>se_currentRoomId := 0\<rparr>) w
          in Ok (True, cout (esc ''[1;33m[ROOM LEFT] Left Room #'' @ to_string prevRoomId @ ''.'' @ esc ''[0m'' @ nl) w))
      else Ok (True, w))"

text \<open>The line of a chat message; \<open>isMe\<close> when it is under the client's own name.\<close>

definition is_me :: "nat option \<Rightarrow> string \<Rightarrow> client_world \<Rightarrow> bool" where
  "is_me session senderName w =
     (case session of None \<Rightarrow> False | Some i \<Rightarrow> se_playerName (cl_sessions w i) = senderName)"

definition room_chat_line :: "bool \<Rightarrow> int32 \<Rightarrow> string \<Rightarrow> string \<Rightarrow> string" where
  "room_chat_line isMe roomId senderName message =
     (if isMe then esc ''[1;32m[Room '' @ to_string roomId @ ''] <'' @ senderName @ ''> : '' @ message @ esc ''[0m'' @ nl
      else esc ''[1;37m[Room '' @ to_string roomId @ ''] <'' @ esc ''[1;36m'' @ senderName @ esc ''[1;37m> : '' @ message @
        esc ''[0m'' @ nl)"

definition Client_S_ROOM_CHAT :: "nat option \<Rightarrow> S_ROOM_CHAT \<Rightarrow> client_world \<Rightarrow> (bool \<times> client_world) res" where
  "Client_S_ROOM_CHAT session pkt w =
     (let roomId = (case session of None \<Rightarrow> 0 | Some i \<Rightarrow> se_currentRoomId (cl_sessions w i)) in
      Ok (True, cout (room_chat_line (is_me session (S_ROOM_CHAT_senderName pkt) w) roomId (S_ROOM_CHAT_senderName pkt)
        (S_ROOM_CHAT_message pkt)) w))"

definition global_chat_line :: "bool \<Rightarrow> string \<Rightarrow> string \<Rightarrow> string" where
  "global_chat_line isMe senderName message =
     (if isMe then esc ''[1;35m[GLOBAL] <'' @ senderName @ ''> : '' @ message @ esc ''[0m'' @ nl
      else esc ''[1;35m[GLOBAL] <'' @ esc ''[1;33m'' @ senderName @ esc ''[1;35m> : '' @ message @ esc ''[0m'' @ nl)"

definition Client_S_GLOBAL_CHAT :: "nat option \<Rightarrow> S_GLOBAL_CHAT \<Rightarrow> client_world \<Rightarrow> (bool \<times> client_world) res" where
  "Client_S_GLOBAL_CHAT session pkt w =
     Ok (True, cout (global_chat_line (is_me session (S_GLOBAL_CHAT_senderName pkt) w) (S_GLOBAL_CHAT_senderName pkt)
       (S_GLOBAL_CHAT_message pkt)) w)"

definition Client_S_NOTICE :: "S_NOTICE \<Rightarrow> client_world \<Rightarrow> (bool \<times> client_world) res" where
  "Client_S_NOTICE pkt w = Ok (True, cout (esc ''[1;33m[NOTICE] '' @ S_NOTICE_message pkt @ esc ''[0m'' @ nl) w)"

fun handle_client :: "nat option \<Rightarrow> packet \<Rightarrow> client_world \<Rightarrow> (bool \<times> client_world) res" where
  "handle_client session (Pkt_S_LOGIN pkt) = Client_S_LOGIN session pkt"
| "handle_client session (Pkt_S_ROOM_LIST pkt) = Client_S_ROOM_LIST pkt"
| "handle_client session (Pkt_S_ENTER_ROOM pkt) = Client_S_ENTER_ROOM session pkt"
| "handle_client session (Pkt_S_LEAVE_ROOM pkt) = Client_S_LEAVE_ROOM session pkt"
| "handle_client session (Pkt_S_ROOM_CHAT pkt) = Client_S_ROOM_CHAT session pkt"
| "handle_client session (Pkt_S_GLOBAL_CHAT pkt) = Client_S_GLOBAL_CHAT session pkt"
| "handle_client session (Pkt_S_NOTICE pkt) = Client_S_NOTICE pkt"
| "handle_client session _ = (\<lambda>w. Ok (True, w))"

section \<open>The session\<close>

definition Client_OnConnected :: "client_world \<Rightarrow> client_world" where
  "Client_OnConnected w =
     (let w = cout (esc ''[1;32m[SYSTEM] Successfully connected to Chat Server!'' @ esc ''[0m'' @ nl) w in
      cout (esc ''[1;33m[SYSTEM] Please login with: /login <nickname>'' @ esc ''[0m'' @ nl) w)"

definition Client_OnRecvPacket :: "nat \<Rightarrow> byte list \<Rightarrow> int32 \<Rightarrow> client_world \<Rightarrow> client_world res" where
  "Client_OnRecvPacket i buffer len w =
     res_bind (ClientPacketHandler_HandlePacket (handle_client (Some i)) buffer len w) (\<lambda>(handled, w).
       if \<not> handled then Ok (cerr (esc ''[1;31m[ERROR] Failed to parse received server packet.'' @ esc ''[0m'' @ nl) w)
       else Ok w)"

definition Client_OnDisconnected :: "nat \<Rightarrow> client_world \<Rightarrow> client_world" where
  "Client_OnDisconnected i w =
     (let w = upd_session i (\<lambda>c. c\<lparr>se_isLoggedIn := False\<rparr>) w;
          w = upd_session i (\<lambda>c. c\<lparr>se_currentRoomId := 0\<rparr>) w in
      cout (nl @ esc ''[1;31m[SYSTEM] Disconnected from Chat Server.'' @ esc ''[0m'' @ nl) w)"

section \<open>The console\<close>

definition PrintHelp :: "client_world \<Rightarrow> client_world" where
  "PrintHelp w = cout (nl @ esc ''[1;36m====================== CLIENT COMMAND GUIDE ======================'' @ esc ''[0m'' @ nl @
     ''  '' @ esc ''[1;33m/login <nickname>'' @ esc ''[0m         : Log into the server with nickname'' @ nl @
     ''  '' @ esc ''[1;33m/list'' @ esc ''[0m                     : Request available chat room list'' @ nl @
     ''  '' @ esc ''[1;33m/join <roomId> [name]'' @ esc ''[0m     : Join or create a chat room'' @ nl @
     ''  '' @ esc ''[1;33m/leave'' @ esc ''[0m                    : Leave current chat room'' @ nl @
     ''  '' @ esc ''[1;33m/global <message>'' @ esc ''[0m         : Send message to all users on server'' @ nl @
     ''  '' @ esc ''[1;33m/flood <count>'' @ esc ''[0m            : Send rapid packet burst (Flooding test)'' @ nl @
     ''  '' @ esc ''[1;33m/help'' @ esc ''[0m                     : Display this help guide'' @ nl @
     ''  '' @ esc ''[1;33m/quit'' @ esc ''[0m                     : Disconnect and exit client'' @ nl @
     ''  '' @ esc ''[1;37m<text message>'' @ esc ''[0m            : Send message to currently joined room'' @ nl @
     esc ''[1;36m=================================================================='' @ esc ''[0m'' @ nl) w"

fun client_flood :: "nat \<Rightarrow> nat \<Rightarrow> int32 \<Rightarrow> nat \<Rightarrow> client_world \<Rightarrow> client_world res" where
  "client_flood t 0 k i w = Ok w"
| "client_flood t (Suc n) k i w =
     res_bind (client_packet t (Pkt_C_ROOM_CHAT \<lparr>C_ROOM_CHAT_message = ''Flooding packet #'' @ to_string (k + 1)\<rparr>) i w)
       (client_flood t n (k + 1) i)"

text \<open>A line that begins with a slash.\<close>

definition run_command :: "nat \<Rightarrow> string \<Rightarrow> nat \<Rightarrow> client_world \<Rightarrow> client_world res" where
  "run_command t line i w =
     (let (cmd, ss) = read_string [] (line, False) in
      if cmd = ''/help'' then Ok (PrintHelp w)
      else if cmd = ''/login'' then
        let (name, ss) = read_string [] ss in
        if name = [] then Ok (cout (esc ''[1;31m[USAGE] /login <nickname>'' @ esc ''[0m'' @ nl) w)
        else client_packet t (Pkt_C_LOGIN \<lparr>C_LOGIN_name = name\<rparr>) i w
      else if cmd = ''/list'' then client_packet t (Pkt_C_ROOM_LIST ()) i w
      else if cmd = ''/join'' then
        let (roomId, ss) = read_int32 0 ss; (roomName, ss) = read_string [] ss in
        if roomId \<le> 0 then Ok (cout (esc ''[1;31m[USAGE] /join <roomId> [roomName]'' @ esc ''[0m'' @ nl) w)
        else client_packet t (Pkt_C_ENTER_ROOM \<lparr>C_ENTER_ROOM_roomId = of_int roomId, C_ENTER_ROOM_roomName = roomName\<rparr>) i w
      else if cmd = ''/leave'' then client_packet t (Pkt_C_LEAVE_ROOM ()) i w
      else if cmd = ''/global'' then
        let (msg, ss) = read_line_ws [] ss in
        if msg = [] then Ok (cout (esc ''[1;31m[USAGE] /global <message>'' @ esc ''[0m'' @ nl) w)
        else client_packet t (Pkt_C_GLOBAL_CHAT \<lparr>C_GLOBAL_CHAT_message = msg\<rparr>) i w
      else if cmd = ''/flood'' then
        let (n, ss) = read_int32 50 ss;
            w = cout (esc ''[1;31m[FLOOD TEST] Sending '' @ to_string n @ '' rapid chat packets...'' @ esc ''[0m'' @ nl) w in
        client_flood t (nat n) 0 i w
      else if cmd = ''/quit'' then
        Ok ((cout (esc ''[1;33m[SYSTEM] Exiting client...'' @ esc ''[0m'' @ nl) w)\<lparr>cl_isRunning := False\<rparr>)
      else Ok (cout (esc ''[1;31m[UNKNOWN COMMAND] Type '' @ [CHR 0x27] @ ''/help'' @ [CHR 0x27] @
        '' for available commands.'' @ esc ''[0m'' @ nl) w))"

text \<open>One turn of the console loop; \<open>session\<close> is the pointer that the session factory sets.\<close>

definition run_line :: "nat \<Rightarrow> string \<Rightarrow> nat option \<Rightarrow> client_world \<Rightarrow> client_world res" where
  "run_line t line session w =
     (if line = [] then Ok w
      else case session of
        None \<Rightarrow> Ok (cout (esc ''[1;31m[ERROR] Not connected to server.'' @ esc ''[0m'' @ nl) w)
      | Some i \<Rightarrow>
        if \<not> se_connected (cl_sessions w i) then
          Ok (cout (esc ''[1;31m[ERROR] Not connected to server.'' @ esc ''[0m'' @ nl) w)
        else if hd line = CHR ''/'' then run_command t line i w
        else if se_currentRoomId (cl_sessions w i) > 0 then
          client_packet t (Pkt_C_ROOM_CHAT \<lparr>C_ROOM_CHAT_message = line\<rparr>) i w
        else Ok (cout (esc ''[1;33m[INFO] You are not in any room. Use '' @ [CHR 0x27] @ ''/join <id>'' @ [CHR 0x27] @
          '' to enter a room or '' @ [CHR 0x27] @ ''/global <msg>'' @ [CHR 0x27] @ '' to broadcast.'' @ esc ''[0m'' @ nl) w))"

fun console_loop :: "nat \<Rightarrow> string list \<Rightarrow> nat option \<Rightarrow> client_world \<Rightarrow> client_world res" where
  "console_loop t [] session w = Ok w"
| "console_loop t (line # lines) session w =
     (if \<not> cl_isRunning w then Ok w else res_bind (run_line t line session w) (console_loop t lines session))"

text \<open>One turn of the heartbeat thread.\<close>

definition client_heartbeat :: "nat \<Rightarrow> uint64 \<Rightarrow> nat option \<Rightarrow> client_world \<Rightarrow> client_world res" where
  "client_heartbeat t tick session w =
     (case session of None \<Rightarrow> Ok w
      | Some i \<Rightarrow>
        if se_connected (cl_sessions w i) then client_packet t (Pkt_C_HEARTBEAT \<lparr>C_HEARTBEAT_clientTick = tick\<rparr>) i w
        else Ok w)"

section \<open>What the client sends\<close>

interpretation client: outbox cl_sendBuffers "\<lambda>b w. w\<lparr>cl_sendBuffers := b\<rparr>" "\<lambda>w i. se_sends (cl_sessions w i)"
    "\<lambda>sb. Client_Send (Some sb)"
  by unfold_locales (simp_all add: upd_session_def)

definition client_sent :: "client_world \<Rightarrow> nat \<Rightarrow> byte list list" where
  "client_sent = out_sent cl_sendBuffers (\<lambda>w i. se_sends (cl_sessions w i))"

definition client_ready :: "client_world \<Rightarrow> bool" where
  "client_ready = out_ready cl_sendBuffers (\<lambda>w i. se_sends (cl_sessions w i))"

text \<open>The packet \<open>p\<close> has been sent by session \<open>i\<close>, and nothing else has changed or been printed.\<close>

definition client_sends :: "nat \<Rightarrow> packet \<Rightarrow> client_world \<Rightarrow> client_world \<Rightarrow> bool" where
  "client_sends i p w w' \<longleftrightarrow> client_ready w' \<and>
     (\<forall>j. client_sent w' j = client_sent w j @ (if j = i then [packet_bytes p] else [])) \<and>
     (\<forall>j. (cl_sessions w' j)\<lparr>se_sends := []\<rparr> = (cl_sessions w j)\<lparr>se_sends := []\<rparr>) \<and>
     w'\<lparr>cl_sendBuffers := cl_sendBuffers w, cl_sessions := cl_sessions w\<rparr> = w"

lemma client_packet_ok:
  assumes "client_ready w" "packet_size p \<le> 4096"
  obtains w' where "client_packet t p i w = Ok w'" "client_sends i p w w'"
proof (rule client.send_ok [OF assms(1) [unfolded client_ready_def] assms(2), where t = t and i = i],
    fold client_ready_def client_sent_def)
  fix sb b
  let ?w = "Client_Send (Some sb) i (w\<lparr>cl_sendBuffers := b\<rparr>)"
  assume m: "MakeSendBuffer_packet t p (cl_sendBuffers w) = Ok (Some sb, b)" "client_ready ?w"
    "\<And>j. client_sent ?w j = client_sent w j @ (if j = i then [packet_bytes p] else [])"
  have "(cl_sessions ?w j)\<lparr>se_sends := []\<rparr> = (cl_sessions w j)\<lparr>se_sends := []\<rparr>"
    "?w\<lparr>cl_sendBuffers := cl_sendBuffers w, cl_sessions := cl_sessions w\<rparr> = w" for j
    by (simp_all add: upd_session_def)
  with m show thesis
    by (intro that [of ?w]) (simp_all add: client_packet_def client_sends_def del: Client_Send.simps)
qed

lemma client_sends_simps:
  assumes "client_sends i p w w'"
  shows "se_currentRoomId (cl_sessions w' j) = se_currentRoomId (cl_sessions w j)"
    "se_playerName (cl_sessions w' j) = se_playerName (cl_sessions w j)"
    "se_connected (cl_sessions w' j) = se_connected (cl_sessions w j)"
    "client_ready w'" "client_sent w' i = client_sent w i @ [packet_bytes p]"
    "cl_cout w' = cl_cout w" "cl_isRunning w' = cl_isRunning w"
proof -
  have e: "(cl_sessions w' j)\<lparr>se_sends := []\<rparr> = (cl_sessions w j)\<lparr>se_sends := []\<rparr>"
    "w'\<lparr>cl_sendBuffers := cl_sendBuffers w, cl_sessions := cl_sessions w\<rparr> = w"
    using assms by (simp_all add: client_sends_def)
  show "se_currentRoomId (cl_sessions w' j) = se_currentRoomId (cl_sessions w j)"
    "se_playerName (cl_sessions w' j) = se_playerName (cl_sessions w j)"
    "se_connected (cl_sessions w' j) = se_connected (cl_sessions w j)"
    using arg_cong [OF e(1), of se_currentRoomId] arg_cong [OF e(1), of se_playerName]
      arg_cong [OF e(1), of se_connected] by simp_all
  show "cl_cout w' = cl_cout w" "cl_isRunning w' = cl_isRunning w"
    using arg_cong [OF e(2), of cl_cout] arg_cong [OF e(2), of cl_isRunning] by simp_all
qed (use assms in \<open>simp_all add: client_sends_def\<close>)

text \<open>Printing, and the updates that leave the buffers alone.\<close>

lemma client_ready_cout [simp]:
  "client_ready (cout s w) = client_ready w" "client_sent (cout s w) = client_sent w"
  "cl_sessions (cout s w) = cl_sessions w"
  using client.out_cong [of "cout s w" w] by (simp_all add: cout_def client_ready_def client_sent_def fun_eq_iff)

lemma client_ready_upd_session:
  assumes "\<And>c. se_sends (f c) = se_sends c"
  shows "client_ready (upd_session i f w) = client_ready w" "client_sent (upd_session i f w) j = client_sent w j"
  using assms client.out_cong [of "upd_session i f w" w]
  by (simp_all add: upd_session_def client_ready_def client_sent_def)

section \<open>Commands\<close>

lemma no_space_commands [simp]: "no_space ''/global''" "no_space ''/join''" "no_space ''/login''"
  by (simp_all add: is_space_def)

lemma read_command: "no_space w \<Longrightarrow> w \<noteq> [] \<Longrightarrow> read_string x (w @ CHR '' '' # s, False) = (w, CHR '' '' # s, False)"
  by (rule read_string_word) simp_all

lemma read_line_ws_line:
  assumes "m \<noteq> []" "\<not> is_space (hd m)" "CHR 0x0A \<notin> set m"
  shows "read_line_ws x (CHR '' '' # m, False) = (m, [], False)"
proof -
  have "skip_ws m = m" using assms(1,2) by (cases m) auto
  moreover have "takeWhile (\<lambda>c. c \<noteq> CHR 0x0A) m = m" "length (dropWhile (\<lambda>c. c \<noteq> CHR 0x0A) m) = 0"
    using assms(3) by (auto simp: takeWhile_eq_all_conv)
  ultimately show ?thesis using assms(1) by (simp del: dropWhile_eq_Nil_conv length_0_conv add: read_line_ws_def)
qed

lemma run_line_command:
  "se_connected (cl_sessions w i) \<Longrightarrow> run_line t (CHR ''/'' # s) (Some i) w = run_command t (CHR ''/'' # s) i w"
  by (simp add: run_line_def)

lemma run_global:
  assumes "m \<noteq> []" "\<not> is_space (hd m)" "CHR 0x0A \<notin> set m"
  shows "run_command t (''/global '' @ m) i w = client_packet t (Pkt_C_GLOBAL_CHAT \<lparr>C_GLOBAL_CHAT_message = m\<rparr>) i w"
  using read_command [OF no_space_commands(1), of "[]" m] read_line_ws_line [OF assms, of "[]"] assms(1)
  by (simp add: run_command_def Let_def)

lemma run_join:
  assumes "0 < n" "n \<le> 2147483647" "no_space name" "name \<noteq> []"
  shows "run_command t (''/join '' @ to_string n @ '' '' @ name) i w =
    client_packet t (Pkt_C_ENTER_ROOM \<lparr>C_ENTER_ROOM_roomId = of_int n, C_ENTER_ROOM_roomName = name\<rparr>) i w"
proof -
  have "is_digit (CHR '' '') = False" by (simp add: is_digit_def)
  then have "read_int32 0 (CHR '' '' # to_string n @ CHR '' '' # name, False) = (n, CHR '' '' # name, False)"
    using assms(1,2) read_int32_to_string [of n "CHR '' '' # name" 0] by simp
  moreover have "skip_ws name \<noteq> []" using assms(3,4) skip_ws_word [of name "[]"] by simp
  then have "read_string [] (CHR '' '' # name, False) = (name, [], False)"
    using read_string_space [of name "[]"] read_string_word [OF assms(3,4), of "[]" "[]"] by simp
  ultimately show ?thesis
    using read_command [OF no_space_commands(2), of "[]" "to_string n @ CHR '' '' # name"] assms(1)
    by (simp add: run_command_def Let_def)
qed

section \<open>Properties\<close>

lemma Client_OnRecvPacket_packet:
  assumes "dom_packet p" "\<not> to_server p" "packet_size p \<le> 65535" "handle_client (Some i) p w = Ok (True, w')"
  shows "Client_OnRecvPacket i (packet_bytes p) (int (length (packet_bytes p))) w = Ok w'"
  using client_dispatch_read [of p "packet_bytes p" "handle_client (Some i)" w] assms
  by (simp add: Client_OnRecvPacket_def)

text \<open>
  C12: From the keyboard to the screens. When a connected user types \<open>/global\<close> and a message, the client
  sends one packet; the bytes of this packet, received by the server within the rate limit of the user's
  session, make it send one packet to every connected session and nothing to others; and the bytes of
  that packet make each of these clients, whatever its state, print exactly one line with the user's name
  and the message as it was typed, in the colours for its own message if the name is the one it logged in
  under.
\<close>

theorem keyboard_to_screen:
  assumes "client_ready cw" "se_connected (cl_sessions cw i)"
    and "m \<noteq> []" "\<not> is_space (hd m)" "CHR 0x0A \<notin> set m"
    and "ready w" "w_service w = Some sv" "distinct (sv_sessions sv)"
    and "fst (Consume (clock 0) 1 (cs_rateLimiter (w_clients w s)))" "length (GetPlayerName s w) + length m \<le> 4088"
  shows "\<exists>cw' b w' c. run_line t (''/global '' @ m) (Some i) cw = Ok cw' \<and> client_sent cw' i = client_sent cw i @ [b] \<and>
    OnRecvPacket u clock timeStr s b (int (length b)) w = Ok w' \<and>
    (\<forall>j. sent w' j = sent w j @ (if j \<in> set (sv_sessions sv) then [c] else [])) \<and>
    (\<forall>j v. Client_OnRecvPacket j c (int (length c)) v =
       Ok (cout (global_chat_line (se_playerName (cl_sessions v j) = GetPlayerName s w) (GetPlayerName s w) m) v))"
proof -
  let ?p = "Pkt_C_GLOBAL_CHAT \<lparr>C_GLOBAL_CHAT_message = m\<rparr>" and ?q = "global_chat_packet s m w"
  have "packet_size ?p \<le> 4096"
    using assms(10) by (simp add: packet_size_def enc_C_GLOBAL_CHAT_def length_enc_string)
  then obtain cw' where c: "client_packet t ?p i cw = Ok cw'" "client_sends i ?p cw cw'"
    by (rule client_packet_ok [OF assms(1)])
  have "run_line t (''/global '' @ m) (Some i) cw = Ok cw'"
    using run_line_command [OF assms(2)] run_global [OF assms(3-5)] c(1) by simp
  moreover obtain w' where "OnRecvPacket u clock timeStr s (packet_bytes ?p) (int (length (packet_bytes ?p))) w = Ok w'"
      "\<forall>j. sent w' j = sent w j @ (if j \<in> set (sv_sessions sv) then [packet_bytes ?q] else [])"
    using global_chat_end_to_end [where clock = clock and t = u and timeStr = timeStr, OF assms(6-10)] by (auto simp: Let_def)
  moreover have "Client_OnRecvPacket j (packet_bytes ?q) (int (length (packet_bytes ?q))) v =
      Ok (cout (global_chat_line (se_playerName (cl_sessions v j) = GetPlayerName s w) (GetPlayerName s w) m) v)" for j v
    using assms(10)
    by (intro Client_OnRecvPacket_packet)
      (simp_all add: global_chat_packet_def packet_size_def enc_S_GLOBAL_CHAT_def dom_S_GLOBAL_CHAT_def length_enc_string
        Client_S_GLOBAL_CHAT_def is_me_def)
  ultimately show ?thesis using client_sends_simps(5) [OF c(2)] by blast
qed

definition client_start :: client_world where
  "client_start = \<lparr>cl_sessions = (\<lambda>_. ServerSession_new\<lparr>se_connected := True\<rparr>), cl_sendBuffers = sb_start, cl_cout = [],
     cl_cerr = [], cl_isRunning = True\<rparr>"

lemma client_start_simps [simp]:
  "client_ready client_start" "client_sent client_start i = []"
  "cl_sessions client_start i = ServerSession_new\<lparr>se_connected := True\<rparr>"
  by (simp_all add: client_start_def client_ready_def client_sent_def out_ready_def out_sent_def sb_inv_start sb_idle_start
      ServerSession_new_def)

theorem keyboard_to_screen_witness:
  "\<exists>cw' b w' c. run_line 0 ''/global hi all'' (Some 0) client_start = Ok cw' \<and> client_sent cw' 0 = [b] \<and>
     OnRecvPacket 0 (\<lambda>_. 1000) ''now'' 2 b (int (length b)) served_world = Ok w' \<and> sent w' 1 = [c] \<and>
     Client_OnRecvPacket 0 c (int (length c)) client_start =
       Ok (cout (global_chat_line False ''bob'' ''hi all'') client_start)"
proof -
  have "fst (Consume 1000 1 (TokenBucket_new 40 20 0))"
    by (simp add: Consume_def Refill_def TokenBucket_new_def add_tokens_def to_int32_def Let_def)
  moreover have "\<not> is_space CHR ''h''" by (simp add: is_space_def)
  ultimately show ?thesis
    using keyboard_to_screen [of client_start 0 "''hi all''" served_world _ "\<lambda>_. 1000" 2 0 0 "''now''"]
    by (auto simp: ServerSession_new_def)
qed

text \<open>The replies of the server about rooms.\<close>

definition joined_packet :: "int32 \<Rightarrow> string \<Rightarrow> MembersInfo list \<Rightarrow> packet" where
  "joined_packet n name ms = Pkt_S_ENTER_ROOM \<lparr>S_ENTER_ROOM_success = True, S_ENTER_ROOM_roomId = of_int n,
     S_ENTER_ROOM_roomName = name, S_ENTER_ROOM_members = ms\<rparr>"

lemma recv_joined:
  assumes "0 < n" "n \<le> 2147483647" "dom_packet (joined_packet n name ms)" "packet_size (joined_packet n name ms) \<le> 65535"
  obtains w' where "Client_OnRecvPacket i (packet_bytes (joined_packet n name ms))
      (int (length (packet_bytes (joined_packet n name ms)))) w = Ok w'"
    "se_currentRoomId (cl_sessions w' i) = n" "se_connected (cl_sessions w' i) = se_connected (cl_sessions w i)"
    "client_ready w' = client_ready w" "client_sent w' i = client_sent w i"
proof -
  have n: "sint (of_int n :: uint32) = n"
    using assms(1,2) by (intro sint_int32) (simp add: in_int32_def)
  let ?w = "upd_session i (\<lambda>c. c\<lparr>se_currentRoomId := n\<rparr>) w"
  obtain s where "handle_client (Some i) (joined_packet n name ms) w = Ok (True, cout s ?w)"
    by (auto simp: joined_packet_def Client_S_ENTER_ROOM_def deref_def n Let_def) (auto simp: cout_def)
  then show thesis
    using that [of "cout s ?w"] Client_OnRecvPacket_packet [OF assms(3) _ assms(4)] client_ready_upd_session
    by (simp add: joined_packet_def) (simp add: upd_session_def)
qed

text \<open>A line that is no command, in a room and outside one.\<close>

lemma run_line_text:
  assumes "se_connected (cl_sessions w i)" "line \<noteq> []" "hd line \<noteq> CHR ''/''"
  shows "se_currentRoomId (cl_sessions w i) > 0 \<Longrightarrow>
      run_line t line (Some i) w = client_packet t (Pkt_C_ROOM_CHAT \<lparr>C_ROOM_CHAT_message = line\<rparr>) i w"
    and "se_currentRoomId (cl_sessions w i) \<le> 0 \<Longrightarrow> \<exists>s. run_line t line (Some i) w = Ok (cout s w)"
  using assms by (auto simp: run_line_def)

text \<open>
  C17: Joining a room. The line \<open>/join\<close> with the number of a room and a name without spaces makes the client
  send exactly the request for this room under this name; before the server has confirmed it, a line of
  text is not sent to anybody. Once the bytes of the server's confirmation have been received, the next line
  of text is sent, exactly as typed, as a message to the room; and after the server has confirmed that the
  room was left, lines of text are not sent any more.
\<close>

theorem join_then_talk:
  assumes "client_ready w" "se_connected (cl_sessions w i)" "se_currentRoomId (cl_sessions w i) = 0"
    and "0 < n" "n \<le> 2147483647" "no_space name" "name \<noteq> []" "length name \<le> 4000"
    and "dom_packet (joined_packet n name ms)" "packet_size (joined_packet n name ms) \<le> 65535"
    and "line \<noteq> []" "hd line \<noteq> CHR ''/''" "length line \<le> 4000"
  defines "join \<equiv> Pkt_C_ENTER_ROOM \<lparr>C_ENTER_ROOM_roomId = of_int n, C_ENTER_ROOM_roomName = name\<rparr>"
    and "say \<equiv> Pkt_C_ROOM_CHAT \<lparr>C_ROOM_CHAT_message = line\<rparr>"
    and "yes \<equiv> packet_bytes (joined_packet n name ms)"
    and "bye \<equiv> packet_bytes (Pkt_S_LEAVE_ROOM \<lparr>S_LEAVE_ROOM_success = True\<rparr>)"
  shows "\<exists>w1 w2 w3 w4 w5 w6. run_line t (''/join '' @ to_string n @ '' '' @ name) (Some i) w = Ok w1 \<and>
    client_sent w1 i = client_sent w i @ [packet_bytes join] \<and>
    run_line t line (Some i) w1 = Ok w2 \<and> client_sent w2 = client_sent w1 \<and>
    Client_OnRecvPacket i yes (int (length yes)) w2 = Ok w3 \<and>
    run_line t line (Some i) w3 = Ok w4 \<and> client_sent w4 i = client_sent w i @ [packet_bytes join, packet_bytes say] \<and>
    Client_OnRecvPacket i bye (int (length bye)) w4 = Ok w5 \<and>
    run_line t line (Some i) w5 = Ok w6 \<and> client_sent w6 = client_sent w5 \<and> client_sent w5 i = client_sent w4 i"
proof -
  have "packet_size join \<le> 4096" "packet_size say \<le> 4096"
    using assms(8,13) by (simp_all add: join_def say_def packet_size_def enc_C_ENTER_ROOM_def enc_C_ROOM_CHAT_def length_enc_string)
  note size = this
  obtain w1 where w1: "client_packet t join i w = Ok w1" "client_sends i join w w1"
    by (rule client_packet_ok [OF assms(1) size(1)])
  note s1 = client_sends_simps [OF w1(2)]
  obtain s where w2: "run_line t line (Some i) w1 = Ok (cout s w1)"
    using run_line_text(2) [OF _ assms(11,12), of w1 i t] assms(2,3) s1 by auto
  obtain w3 where e: "Client_OnRecvPacket i yes (int (length yes)) (cout s w1) = Ok w3"
    "se_currentRoomId (cl_sessions w3 i) = n" "se_connected (cl_sessions w3 i) = se_connected (cl_sessions (cout s w1) i)"
    "client_ready w3 = client_ready (cout s w1)" "client_sent w3 i = client_sent (cout s w1) i"
    unfolding yes_def by (rule recv_joined [OF assms(4,5,9,10)])
  then have w3: "Client_OnRecvPacket i yes (int (length yes)) (cout s w1) = Ok w3"
    "se_currentRoomId (cl_sessions w3 i) = n" "se_connected (cl_sessions w3 i)" "client_ready w3"
    "client_sent w3 i = client_sent w1 i"
    using assms(2) s1(3,4) by simp_all
  obtain w4 where w4: "client_packet t say i w3 = Ok w4" "client_sends i say w3 w4"
    by (rule client_packet_ok [OF w3(4) size(2)])
  note s4 = client_sends_simps [OF w4(2)]
  have w4': "run_line t line (Some i) w3 = Ok w4"
    using run_line_text(1) [OF w3(3) assms(11,12)] w3(2) assms(4) w4(1) by (simp add: say_def)
  let ?w5 = "upd_session i (\<lambda>c. c\<lparr>se_currentRoomId := 0\<rparr>) w4"
  obtain s' where "handle_client (Some i) (Pkt_S_LEAVE_ROOM \<lparr>S_LEAVE_ROOM_success = True\<rparr>) w4 = Ok (True, cout s' ?w5)"
    by (auto simp: Client_S_LEAVE_ROOM_def deref_def Let_def)
  then have w5: "Client_OnRecvPacket i bye (int (length bye)) w4 = Ok (cout s' ?w5)"
    unfolding bye_def
    by (intro Client_OnRecvPacket_packet)
      (simp_all add: dom_S_LEAVE_ROOM_def packet_size_def enc_S_LEAVE_ROOM_def)
  have "se_connected (cl_sessions (cout s' ?w5) i)" "se_currentRoomId (cl_sessions (cout s' ?w5) i) \<le> 0"
    using s4 w3(3) by (simp_all add: upd_session_def)
  from run_line_text(2) [OF this(1) assms(11,12) this(2)]
  obtain s6 where w6: "run_line t line (Some i) (cout s' ?w5) = Ok (cout s6 (cout s' ?w5))" by blast
  have "run_line t (''/join '' @ to_string n @ '' '' @ name) (Some i) w = Ok w1"
    using run_line_command [OF assms(2)] run_join [OF assms(4-7)] w1(1) by (simp add: join_def)
  then show ?thesis
    using w2 w3(1,5) w4' w5 w6 s1(5) s4(5) client_ready_upd_session(2) [where f = "\<lambda>c. c\<lparr>se_currentRoomId := 0\<rparr>"]
    by (intro exI conjI) (assumption | simp)+
qed

theorem join_then_talk_witness:
  "\<exists>w1 w2 w3 w4. run_line 0 ''/join 7 lobby'' (Some 0) client_start = Ok w1 \<and> run_line 0 ''hello'' (Some 0) w1 = Ok w2 \<and>
     Client_OnRecvPacket 0 (packet_bytes (joined_packet 7 ''lobby'' []))
       (int (length (packet_bytes (joined_packet 7 ''lobby'' [])))) w2 = Ok w3 \<and>
     run_line 0 ''hello'' (Some 0) w3 = Ok w4 \<and>
     client_sent w4 0 = [packet_bytes (Pkt_C_ENTER_ROOM \<lparr>C_ENTER_ROOM_roomId = 7, C_ENTER_ROOM_roomName = ''lobby''\<rparr>),
       packet_bytes (Pkt_C_ROOM_CHAT \<lparr>C_ROOM_CHAT_message = ''hello''\<rparr>)]"
proof -
  have "to_string 7 = ''7''" "no_space ''lobby''" by (simp_all add: to_string_def digit_char_def is_space_def) code_simp
  moreover have "dom_packet (joined_packet 7 ''lobby'' [])" "packet_size (joined_packet 7 ''lobby'' []) \<le> 65535"
    by (simp_all add: joined_packet_def dom_S_ENTER_ROOM_def packet_size_def enc_S_ENTER_ROOM_def length_enc_string enc_counted_def)
  ultimately obtain w1 w2 w3 w4 where w: "run_line 0 ''/join 7 lobby'' (Some 0) client_start = Ok w1"
    "client_sent w1 0 = [packet_bytes (Pkt_C_ENTER_ROOM \<lparr>C_ENTER_ROOM_roomId = 7, C_ENTER_ROOM_roomName = ''lobby''\<rparr>)]"
    "run_line 0 ''hello'' (Some 0) w1 = Ok w2"
    "Client_OnRecvPacket 0 (packet_bytes (joined_packet 7 ''lobby'' []))
      (int (length (packet_bytes (joined_packet 7 ''lobby'' [])))) w2 = Ok w3"
    "run_line 0 ''hello'' (Some 0) w3 = Ok w4"
    "client_sent w4 0 = [packet_bytes (Pkt_C_ENTER_ROOM \<lparr>C_ENTER_ROOM_roomId = 7, C_ENTER_ROOM_roomName = ''lobby''\<rparr>),
       packet_bytes (Pkt_C_ROOM_CHAT \<lparr>C_ROOM_CHAT_message = ''hello''\<rparr>)]"
    using join_then_talk [of client_start 0 7 "''lobby''" "[]" "''hello''" 0]
    by (auto simp: ServerSession_new_def)
  show ?thesis by (intro exI conjI) (fact w(1,3-6))+
qed

text \<open>
  A room number beyond the range is not refused. For \<open>/join\<close> with a number above 2147483647 the extraction
  stores 2147483647 and fails, and the command tests the stored number instead of the stream: it asks for
  room 2147483647, under the empty name, whatever name was typed.
\<close>

theorem join_number_saturates:
  assumes "client_ready w" "se_connected (cl_sessions w i)" "n > 2147483647"
  shows "\<exists>w'. run_line t (''/join '' @ to_string n @ '' '' @ name) (Some i) w = Ok w' \<and>
    client_sent w' i = client_sent w i @
      [packet_bytes (Pkt_C_ENTER_ROOM \<lparr>C_ENTER_ROOM_roomId = 2147483647, C_ENTER_ROOM_roomName = []\<rparr>)]"
proof -
  let ?p = "Pkt_C_ENTER_ROOM \<lparr>C_ENTER_ROOM_roomId = 2147483647, C_ENTER_ROOM_roomName = []\<rparr>"
  have "packet_size ?p \<le> 4096" by (simp add: packet_size_def enc_C_ENTER_ROOM_def length_enc_string)
  then obtain w' where w': "client_packet t ?p i w = Ok w'" "client_sends i ?p w w'"
    by (rule client_packet_ok [OF assms(1)])
  have "\<not> is_digit (CHR '' '')" by (simp add: is_digit_def)
  then have "read_int32 0 (CHR '' '' # to_string n @ CHR '' '' # name, False) = (2147483647, CHR '' '' # name, True)"
    using assms(3) read_int32_to_string [of n "CHR '' '' # name" 0] by simp
  moreover have "read_string [] (CHR '' '' # name, True) = ([], CHR '' '' # name, True)" by (simp add: read_string_def)
  ultimately have "run_command t (''/join '' @ to_string n @ '' '' @ name) i w = Ok w'"
    using read_command [OF no_space_commands(2), of "[]" "to_string n @ CHR '' '' # name"] w'(1)
    by (simp add: run_command_def Let_def)
  then show ?thesis using run_line_command [OF assms(2)] client_sends_simps(5) [OF w'(2)] by simp
qed

theorem join_number_saturates_witness:
  "\<exists>w'. run_line 0 ''/join 99999999999 lobby'' (Some 0) client_start = Ok w' \<and>
     client_sent w' 0 = [packet_bytes (Pkt_C_ENTER_ROOM \<lparr>C_ENTER_ROOM_roomId = 2147483647, C_ENTER_ROOM_roomName = []\<rparr>)]"
proof -
  have "digit_char 9 = CHR ''9''" by code_simp
  then have "to_string 99999999999 = ''99999999999''" by (simp add: to_string_def decimal.simps)
  then show ?thesis
    using join_number_saturates [of client_start 0 99999999999 0 "''lobby''"] by (simp add: ServerSession_new_def)
qed

end
