(* ===== verification/PacketTypes.thy ===== *)
theory PacketTypes
  imports PacketHandler
begin

text \<open>
  What a parser that succeeds has seen: the laws of \<open>codec\<close> say that it reads back what was written,
  the ones here that it reads nothing else. The parsers of the packets that the server takes are exact,
  so that its handlers are only called with packets some client could have serialised.
\<close>

section \<open>What a parser consumes\<close>

definition yields :: "'a rd \<Rightarrow> ('a \<Rightarrow> byte list \<Rightarrow> bool) \<Rightarrow> bool" where
  "yields m P \<longleftrightarrow> (\<forall>r x r'. br_inv r \<longrightarrow> m r = Ok (Some x, r') \<longrightarrow>
     br_inv r' \<and> (\<exists>bs. br_rest r = bs @ br_rest r' \<and> P x bs))"

lemma yieldsI:
  assumes "\<And>r x r'. br_inv r \<Longrightarrow> m r = Ok (Some x, r') \<Longrightarrow> br_inv r' \<and> (\<exists>bs. br_rest r = bs @ br_rest r' \<and> P x bs)"
  shows "yields m P"
  using assms unfolding yields_def by blast

lemma yieldsD:
  assumes "yields m P" "br_inv r" "m r = Ok (Some x, r')"
  obtains bs where "br_rest r = bs @ br_rest r'" "P x bs" "br_inv r'"
  using assms unfolding yields_def by blast

lemma yields_mono: "yields m P \<Longrightarrow> (\<And>x bs. P x bs \<Longrightarrow> Q x bs) \<Longrightarrow> yields m Q"
  unfolding yields_def by blast

lemma yields_bind:
  assumes "yields m P" "\<And>a bs. P a bs \<Longrightarrow> yields (f a) (\<lambda>x cs. Q x (bs @ cs))"
  shows "yields (rd_bind m f) Q"
proof (rule yieldsI)
  fix r x r' assume r: "br_inv r" "rd_bind m f r = Ok (Some x, r')"
  obtain y r1 where y: "m r = Ok (y, r1)" using r(2) by (cases "m r") (auto simp: rd_bind_def)
  then obtain a where a: "m r = Ok (Some a, r1)" "f a r1 = Ok (Some x, r')"
    using r(2) by (cases y) (auto simp: rd_bind_def)
  obtain bs where bs: "br_rest r = bs @ br_rest r1" "P a bs" "br_inv r1"
    by (rule yieldsD [OF assms(1) r(1) a(1)])
  obtain cs where "br_rest r1 = cs @ br_rest r'" "Q x (bs @ cs)" "br_inv r'"
    by (rule yieldsD [OF assms(2) [OF bs(2)] bs(3) a(2)])
  with bs(1) show "br_inv r' \<and> (\<exists>bs. br_rest r = bs @ br_rest r' \<and> Q x bs)"
    by (intro conjI exI [of _ "bs @ cs"]) simp_all
qed

lemma yields_end: "Q x [] \<Longrightarrow> yields (rd_return x) Q" "Q x [] \<Longrightarrow> yields (rd_valid x) Q"
  by (auto simp: yields_def rd_return_def rd_valid_def split: if_splits)

lemma yields_Read_bytes: "yields (Read_bytes n) (\<lambda>x bs. x = bs \<and> length bs = n)"
proof (rule yieldsI)
  fix r x r' assume r: "br_inv r" "Read_bytes n r = Ok (Some x, r')"
  then have n: "n \<le> length (br_rest r)" "x = take n (br_rest r)" "r' = br_adv n r"
    by (auto simp: Read_bytes_eq split: if_splits)
  with r(1) show "br_inv r' \<and> (\<exists>bs. br_rest r = bs @ br_rest r' \<and> x = bs \<and> length bs = n)"
    by (auto simp: br_inv_adv br_rest_adv intro!: exI [of _ "take n (br_rest r)"])
qed

section \<open>Exact codecs\<close>

text \<open>A parser that succeeds has consumed the encoding of its value, which is in the domain.\<close>

locale exact_codec = codec rd wr enc dom
  for rd :: "'a rd" and wr :: "'a \<Rightarrow> wr" and enc :: "'a \<Rightarrow> byte list" and dom :: "'a \<Rightarrow> bool" +
  assumes exact: "yields rd (\<lambda>x bs. dom x \<and> bs = enc x)"
begin

lemma consumed:
  assumes "br_inv r" "rd r = Ok (Some x, r')"
  shows "br_rest r = enc x @ br_rest r'" "dom x"
  using yieldsD [OF exact assms] by auto

text \<open>One case of a dispatcher: it gives up, or it calls the handler with such a value.\<close>

lemma dispatched:
  assumes "br_inv r" "P (Ok (False, s))" "\<And>x xs. dom x \<Longrightarrow> br_rest r = enc x @ xs \<Longrightarrow> P (handle x s)"
  shows "P (dispatch rd handle r s)"
proof -
  obtain y r' where y: "rd r = Ok (y, r')" using read_total [OF assms(1)] by blast
  show ?thesis
    using y assms(2,3) consumed [OF assms(1)] by (cases y) (simp_all add: dispatch_def)
qed

text \<open>So its value is the only one of the domain that these bytes encode.\<close>

lemma parsed_unique:
  assumes "br_inv r" "rd r = Ok (Some x, r')" "dom y" "br_rest r = enc y @ ys"
  shows "x = y"
proof -
  have len: "length (enc x @ br_rest r') \<le> 2147483647"
    unfolding consumed(1) [OF assms(1,2), symmetric] length_br_rest [OF assms(1)]
    using br_FreeSize_range [OF assms(1)] by linarith
  show ?thesis
    using prefix_free [OF consumed(2) [OF assms(1,2)] assms(3) _ len, of ys] consumed(1) [OF assms(1,2)] assms(4)
    by simp
qed

end

text \<open>Little-endian numbers.\<close>

lemma le_bytes_le_nat: "le_bytes (length bs) (le_nat bs) = bs"
proof (induction bs)
  case (Cons b bs)
  have "unat b < 256" using unsigned_less [of b, where 'a = nat] by simp
  then have "(unat b + 256 * le_nat bs) mod 256 = unat b" "(unat b + 256 * le_nat bs) div 256 = le_nat bs" by simp_all
  with Cons show ?case by simp
qed simp

lemma enc_le_nat:
  "length d = 2 \<Longrightarrow> enc_uint16 (of_nat (le_nat d)) = d"
  "length d = 4 \<Longrightarrow> enc_int32 (of_nat (le_nat d)) = d"
  "length d = 8 \<Longrightarrow> enc_uint64 (of_nat (le_nat d)) = d"
  using le_nat_bound [of d] le_bytes_le_nat [of d]
  by (simp_all add: enc_uint16_def enc_int32_def enc_uint64_def unat_of_nat)

lemma yields_bytes_bind:
  assumes "\<And>d. length d = n \<Longrightarrow> Q (g d) d"
  shows "yields (rd_bind (Read_bytes n) (\<lambda>d. rd_return (g d))) Q"
  by (rule yields_bind [OF yields_Read_bytes]) (auto intro!: yields_end assms)

interpretation uint16: exact_codec Read_uint16 Write_uint16 enc_uint16 "\<lambda>_. True"
  by unfold_locales (auto simp: Read_uint16_def enc_le_nat intro!: yields_bytes_bind)

interpretation int32: exact_codec Read_int32 Write_int32 enc_int32 "\<lambda>_. True"
  by unfold_locales (auto simp: Read_int32_def enc_le_nat intro!: yields_bytes_bind)

interpretation uint64: exact_codec Read_uint64 Write_uint64 enc_uint64 "\<lambda>_. True"
  by unfold_locales (auto simp: Read_uint64_def enc_le_nat intro!: yields_bytes_bind)

lemma byte_of_char_of_byte [simp]: "byte_of_char (char_of_byte b) = b"
proof -
  have "unat b < 256" using unsigned_less [of b, where 'a = nat] by simp
  then show ?thesis by (simp add: byte_of_char_def char_of_byte_def)
qed

interpretation str: exact_codec ReadString WriteString enc_string "\<lambda>s. length s < 65536"
proof (unfold_locales, rule yieldsI)
  fix r x r' assume r: "br_inv r" "ReadString r = Ok (Some x, r')"
  define l where "l = (of_nat (le_nat (take 2 (br_rest r))) :: uint16)"
  let ?n = "unat l" and ?d = "take (unat l) (drop 2 (br_rest r))"
  have two: "2 \<le> length (br_rest r)"
    using r ReadString_short [OF r(1)] by (cases "2 \<le> length (br_rest r)") auto
  have e: "?n + 2 \<le> length (br_rest r)" "x = map char_of_byte ?d" "r' = br_adv (?n + 2) r"
    using r(2) ReadString_eq [OF r(1) two] by (auto simp: l_def split: if_splits)
  have n: "length x = ?n" "?n < 65536" using e(1,2) unsigned_less [of l, where 'a = nat] by simp_all
  then have "(of_nat (length x) :: uint16) = l" by simp
  moreover have "enc_uint16 l = take 2 (br_rest r)"
    using two unfolding l_def by (intro enc_le_nat(1)) simp
  ultimately have "enc_string x = take 2 (br_rest r) @ ?d"
    using n e(2) by (simp add: enc_string_def Let_def comp_def)
  moreover have "br_rest r' = drop (?n + 2) (br_rest r)" using e(3) br_rest_adv [OF r(1)] by simp
  ultimately have "br_rest r = enc_string x @ br_rest r'"
    by (simp add: take_take_drop)
  with n br_inv_adv [OF r(1) e(1)] e(3)
  show "br_inv r' \<and> (\<exists>bs. br_rest r = bs @ br_rest r' \<and> length x < 65536 \<and> bs = enc_string x)" by simp
qed

section \<open>The packets that the server takes\<close>

lemmas yields_fields = yields_bind [OF uint16.exact] yields_bind [OF int32.exact] yields_bind [OF uint64.exact]
  yields_bind [OF str.exact] yields_end

interpretation c_login: exact_codec Read_C_LOGIN fields_C_LOGIN enc_C_LOGIN dom_C_LOGIN
  by unfold_locales (auto simp: Read_C_LOGIN_def enc_C_LOGIN_def dom_C_LOGIN_def intro!: yields_fields)

interpretation c_heartbeat: exact_codec Read_C_HEARTBEAT fields_C_HEARTBEAT enc_C_HEARTBEAT dom_C_HEARTBEAT
  by unfold_locales (auto simp: Read_C_HEARTBEAT_def enc_C_HEARTBEAT_def dom_C_HEARTBEAT_def intro!: yields_fields)

interpretation c_room_list: exact_codec Read_C_ROOM_LIST fields_C_ROOM_LIST enc_C_ROOM_LIST dom_C_ROOM_LIST
  by unfold_locales (auto simp: Read_C_ROOM_LIST_def enc_C_ROOM_LIST_def dom_C_ROOM_LIST_def intro!: yields_fields)

interpretation c_enter_room: exact_codec Read_C_ENTER_ROOM fields_C_ENTER_ROOM enc_C_ENTER_ROOM dom_C_ENTER_ROOM
  by unfold_locales (auto simp: Read_C_ENTER_ROOM_def enc_C_ENTER_ROOM_def dom_C_ENTER_ROOM_def intro!: yields_fields)

interpretation c_leave_room: exact_codec Read_C_LEAVE_ROOM fields_C_LEAVE_ROOM enc_C_LEAVE_ROOM dom_C_LEAVE_ROOM
  by unfold_locales (auto simp: Read_C_LEAVE_ROOM_def enc_C_LEAVE_ROOM_def dom_C_LEAVE_ROOM_def intro!: yields_fields)

interpretation c_room_chat: exact_codec Read_C_ROOM_CHAT fields_C_ROOM_CHAT enc_C_ROOM_CHAT dom_C_ROOM_CHAT
  by unfold_locales (auto simp: Read_C_ROOM_CHAT_def enc_C_ROOM_CHAT_def dom_C_ROOM_CHAT_def intro!: yields_fields)

interpretation c_global_chat: exact_codec Read_C_GLOBAL_CHAT fields_C_GLOBAL_CHAT enc_C_GLOBAL_CHAT dom_C_GLOBAL_CHAT
  by unfold_locales (auto simp: Read_C_GLOBAL_CHAT_def enc_C_GLOBAL_CHAT_def dom_C_GLOBAL_CHAT_def intro!: yields_fields)

interpretation header: exact_codec Read_PacketHeader Write_PacketHeader enc_PacketHeader "\<lambda>_. True"
proof unfold_locales
  have "enc_PacketHeader (dec_PacketHeader d) = d" if "length d = 4" for d
    using that enc_le_nat(1) [of "take 2 d"] enc_le_nat(1) [of "take 2 (drop 2 d)"]
    by (simp add: enc_PacketHeader_def dec_PacketHeader_def take_take_drop)
  then show "yields Read_PacketHeader (\<lambda>x bs. True \<and> bs = enc_PacketHeader x)"
    by (auto simp: Read_PacketHeader_def intro!: yields_bytes_bind)
qed

text \<open>What the bytes of a packet look like to the dispatcher that takes it.\<close>

definition holds_packet :: "byte list \<Rightarrow> packet \<Rightarrow> bool" where
  "holds_packet b p \<longleftrightarrow> (\<exists>size xs. b = enc_PacketHeader \<lparr>header_size = size, header_id = PacketId_value (packet_id p)\<rparr> @
     enc_packet p @ xs)"

lemma holds_packet_size: "holds_packet b p \<Longrightarrow> packet_size p \<le> length b"
  by (auto simp: holds_packet_def packet_size_def)

lemma holds_packet_unique:
  assumes p: "holds_packet b p" "to_server p" "dom_packet p" and q: "holds_packet b q" "to_server q" "dom_packet q"
    and b: "length b \<le> 2147483647"
  shows "p = q"
proof -
  obtain m n xs ys where e: "b = enc_PacketHeader \<lparr>header_size = m, header_id = PacketId_value (packet_id p)\<rparr> @ enc_packet p @ xs"
    "b = enc_PacketHeader \<lparr>header_size = n, header_id = PacketId_value (packet_id q)\<rparr> @ enc_packet q @ ys"
    using p(1) q(1) unfolding holds_packet_def by blast
  have "dec_PacketHeader b = \<lparr>header_size = m, header_id = PacketId_value (packet_id p)\<rparr>"
    "dec_PacketHeader b = \<lparr>header_size = n, header_id = PacketId_value (packet_id q)\<rparr>"
    using e dec_enc_PacketHeader by metis+
  then have id: "PacketId_value (packet_id p) = PacketId_value (packet_id q)" by simp
  have eq: "enc_packet p @ xs = enc_packet q @ ys" "length (enc_packet p @ xs) \<le> 2147483647"
    using arg_cong [OF e(1), of "drop 4"] arg_cong [OF e(2), of "drop 4"] arg_cong [OF e(1), of length] b by simp_all
  show ?thesis
    using id p(2,3) q(2,3) eq
    by (cases p; cases q; simp)
      (auto dest: c_login.prefix_free c_heartbeat.prefix_free c_enter_room.prefix_free c_room_chat.prefix_free
        c_global_chat.prefix_free)
qed

lemma server_dispatch_holds:
  assumes "0 \<le> len" "len \<le> int (length b)" "len \<le> 2147483647"
    and no: "P (Ok (False, s))"
    and yes: "\<And>p. to_server p \<Longrightarrow> dom_packet p \<Longrightarrow> holds_packet (take (nat len) b) p \<Longrightarrow> P (handle p s)"
  shows "P (ServerPacketHandler_HandlePacket handle b len s)"
proof (rule Read_PacketHeader_cases [OF br_new(1) [OF assms(1-3)]])
  fix h r assume h: "Read_PacketHeader (BufferReader_new b len) = Ok (Some h, r)" and inv: "br_inv r"
  have b: "take (nat len) b = enc_PacketHeader h @ br_rest r"
    using header.consumed(1) [OF br_new(1) [OF assms(1-3)] h] br_new(3) [OF assms(1-3)] by simp
  have p: "P (handle p s)" if "to_server p" "dom_packet p" "header_id h = PacketId_value (packet_id p)"
    "br_rest r = enc_packet p @ xs" for p xs
    using that b by (cases h, intro yes) (auto simp: holds_packet_def)
  have "P (dispatch Read_C_LOGIN (\<lambda>pkt. handle (Pkt_C_LOGIN pkt)) r s)" if "header_id h = 1001"
    using that by (intro c_login.dispatched [where P = P and s = s, OF inv no] p) auto
  moreover have "P (dispatch Read_C_HEARTBEAT (\<lambda>pkt. handle (Pkt_C_HEARTBEAT pkt)) r s)" if "header_id h = 1003"
    using that by (intro c_heartbeat.dispatched [where P = P and s = s, OF inv no] p) auto
  moreover have "P (dispatch Read_C_ROOM_LIST (\<lambda>pkt. handle (Pkt_C_ROOM_LIST pkt)) r s)" if "header_id h = 1005"
    using that by (intro c_room_list.dispatched [where P = P and s = s, OF inv no] p) auto
  moreover have "P (dispatch Read_C_ENTER_ROOM (\<lambda>pkt. handle (Pkt_C_ENTER_ROOM pkt)) r s)" if "header_id h = 1007"
    using that by (intro c_enter_room.dispatched [where P = P and s = s, OF inv no] p) auto
  moreover have "P (dispatch Read_C_LEAVE_ROOM (\<lambda>pkt. handle (Pkt_C_LEAVE_ROOM pkt)) r s)" if "header_id h = 1009"
    using that by (intro c_leave_room.dispatched [where P = P and s = s, OF inv no] p) auto
  moreover have "P (dispatch Read_C_ROOM_CHAT (\<lambda>pkt. handle (Pkt_C_ROOM_CHAT pkt)) r s)" if "header_id h = 1011"
    using that by (intro c_room_chat.dispatched [where P = P and s = s, OF inv no] p) auto
  moreover have "P (dispatch Read_C_GLOBAL_CHAT (\<lambda>pkt. handle (Pkt_C_GLOBAL_CHAT pkt)) r s)" if "header_id h = 1013"
    using that by (intro c_global_chat.dispatched [where P = P and s = s, OF inv no] p) auto
  ultimately show ?thesis
    using h no by (simp add: ServerPacketHandler_HandlePacket_def Let_def)
qed (use no in \<open>simp add: ServerPacketHandler_HandlePacket_def\<close>)

section \<open>Property\<close>

text \<open>
  C14: The handlers of the server are well-typed, whoever the peer is. For whatever bytes, \<open>HandlePacket\<close>
  returns \<open>false\<close> without calling a handler, or it calls one handler once, with a packet whose strings fit
  their 16-bit lengths and which is what the bytes say: after a header with the id of its struct they
  hold exactly the encoding that \<open>MakeSendBuffer\<close> writes for it, and no other packet of this id has it.
\<close>

theorem server_packets_well_typed:
  assumes "0 \<le> len" "len \<le> int (length b)" "len \<le> 2147483647"
  shows "ServerPacketHandler_HandlePacket handle b len s = Ok (False, s) \<or>
    (\<exists>p. ServerPacketHandler_HandlePacket handle b len s = handle p s \<and> packet_size p \<le> nat len \<and>
       (\<forall>q. to_server q \<and> dom_packet q \<and> holds_packet (take (nat len) b) q \<longleftrightarrow> q = p))"
proof (rule server_dispatch_holds [OF assms])
  fix p assume p: "to_server p" "dom_packet p" "holds_packet (take (nat len) b) p"
  have "packet_size p \<le> nat len" using holds_packet_size [OF p(3)] assms(2) by simp
  moreover have "q = p" if "to_server q" "dom_packet q" "holds_packet (take (nat len) b) q" for q
    using that p assms(3) by (intro holds_packet_unique) auto
  ultimately show "handle p s = Ok (False, s) \<or> (\<exists>p'. handle p s = handle p' s \<and> packet_size p' \<le> nat len \<and>
      (\<forall>q. to_server q \<and> dom_packet q \<and> holds_packet (take (nat len) b) q \<longleftrightarrow> q = p'))"
    using p by blast
qed simp

text \<open>A login with one byte too many: the handler gets the name as counted.\<close>

theorem server_packets_well_typed_witness:
  "ServerPacketHandler_HandlePacket (\<lambda>p seen. Ok (True, seen @ [p])) [9, 0, 233, 3, 2, 0, 65, 66, 67] 9 [] =
     Ok (True, [Pkt_C_LOGIN \<lparr>C_LOGIN_name = ''AB''\<rparr>])"
proof -
  let ?b = "[9, 0, 233, 3, 2, 0, 65, 66, 67] :: byte list" and ?p = "Pkt_C_LOGIN \<lparr>C_LOGIN_name = ''AB''\<rparr>"
  let ?r = "ServerPacketHandler_HandlePacket (\<lambda>p seen. Ok (True, seen @ [p])) ?b 9 []"
  have "enc_PacketHeader \<lparr>header_size = 9, header_id = 1001\<rparr> = [9, 0, 233, 3]"
    "enc_packet ?p = [2, 0, 65, 66]" by code_simp+
  then have p: "to_server ?p \<and> dom_packet ?p \<and> holds_packet (take (nat 9) ?b) ?p"
    by (auto simp: holds_packet_def dom_C_LOGIN_def intro!: exI [of _ 9] exI [of _ "[67]"])
  have "?r \<noteq> Ok (False, [])" by code_simp
  moreover have "?r = Ok (False, []) \<or> (\<exists>p. ?r = Ok (True, [] @ [p]) \<and> packet_size p \<le> nat 9 \<and>
       (\<forall>q. to_server q \<and> dom_packet q \<and> holds_packet (take (nat 9) ?b) q \<longleftrightarrow> q = p))"
    by (rule server_packets_well_typed) simp_all
  ultimately obtain p' where p': "?r = Ok (True, [] @ [p'])"
    "\<forall>q. to_server q \<and> dom_packet q \<and> holds_packet (take (nat 9) ?b) q \<longleftrightarrow> q = p'"
    by blast
  have "?p = p'" using iffD1 [OF spec [OF p'(2), of ?p] p] .
  then show ?thesis using p'(1) by simp
qed

end
