(* ===== verification/StressTester.thy ===== *)
theory StressTester
  imports DummyClient Listener "HOL-Library.Signed_Division"
begin

text \<open>
  \<^verbatim>\<open>DummyClient/StressTester.cpp\<close> and the menu of \<^verbatim>\<open>DummyClient/Main.cpp\<close>: a scenario from the reset of the
  statistics to the verdict, and what is printed on the way.

  What the program gets from elsewhere is in \<open>tester_env\<close>: the results of \<open>Connect\<close>, of \<open>rand\<close> and of the
  clocks, the rounding of doubles, what the network threads do to the bots during a second (all of it at the
  \<open>sleep_for\<close>, also what in truth happens between two sends), and what happens to them until the threads
  have been joined.
\<close>

section \<open>State\<close>

record tester_env =
  te_connect :: "nat \<Rightarrow> bool"
  te_rand :: "nat \<Rightarrow> int32"
  te_clock :: "int32 \<Rightarrow> nat \<Rightarrow> int \<times> uint64"
  te_workers :: "int32 \<Rightarrow> dummy_world \<Rightarrow> dummy_world res"
  te_stop :: "dummy_world \<Rightarrow> dummy_world res"
  te_fl :: "real \<Rightarrow> real"

record tester =
  ts_world :: dummy_world
  ts_sessions :: "nat list"
  ts_rands :: nat
  ts_cout :: string
  ts_cerr :: string

definition ts_print :: "string \<Rightarrow> tester \<Rightarrow> tester" where
  "ts_print s x = x\<lparr>ts_cout := ts_cout x @ s\<rparr>"

definition rand :: "tester_env \<Rightarrow> tester \<Rightarrow> int32 \<times> tester" where
  "rand env x = (te_rand env (ts_rands x), x\<lparr>ts_rands := Suc (ts_rands x)\<rparr>)"

text \<open>An operation on the bots.\<close>

definition on_bots :: "(dummy_world \<Rightarrow> dummy_world res) \<Rightarrow> tester \<Rightarrow> tester res" where
  "on_bots f x = res_bind (f (ts_world x)) (\<lambda>w. Ok (x\<lparr>ts_world := w\<rparr>))"

section \<open>A scenario\<close>

fun GetScenarioName :: "BotScenario \<Rightarrow> string" where
  "GetScenarioName Normal = ''Normal Chatting Load Test''"
| "GetScenarioName Slowloris = ''Slowloris / Idle Keep-Alive Timeout Test''"
| "GetScenarioName ConnectSpam = ''Connect / Disconnect Rapid Spam Stress Test''"
| "GetScenarioName PacketFlood = ''Packet Flooding Attack Defense Test''"

definition RenderProgress :: "(real \<Rightarrow> real) \<Rightarrow> int32 \<Rightarrow> int32 \<Rightarrow> dummy_world \<Rightarrow> string" where
  "RenderProgress fl elapsedSec totalSec w =
     (let st = dw_stats w; m = dw_latency w;
          progressPercent = to_int32 (elapsedSec * 100) sdiv totalSec in
      [CHR 0x0D] @ esc ''[1;33m['' @ setw_right 3 (to_string progressPercent) @ ''%]'' @ esc ''[0m '' @
      ''Active CCU: '' @ esc ''[1;32m'' @ setw_right 4 (to_string (st_activeSessions st)) @ esc ''[0m | '' @
      ''Sent/Recv: '' @ esc ''[1;36m'' @ to_string (uint (st_totalSentPackets st)) @ ''/'' @
      to_string (uint (st_totalRecvPackets st)) @ esc ''[0m | '' @
      (if lm_totalCount m > 0 then
         ''RTT(ms) Avg:'' @ esc ''[1;32m'' @ fixed 1 (GetAverageMs fl m) @ esc ''[0m '' @
         ''P95:'' @ esc ''[1;33m'' @ fixed 1 (GetPercentileMs fl 95 m) @ esc ''[0m '' @
         ''P99:'' @ esc ''[1;31m'' @ fixed 1 (GetPercentileMs fl 99 m) @ esc ''[0m '' @
         ''(N='' @ to_string (uint (lm_totalCount m)) @ '') ''
       else
         ''Disconns:'' @ esc ''[1;37m'' @ to_string (st_totalDisconnected st) @ esc ''[0m | Abuse:'' @ esc ''[1;31m'' @
         to_string (st_abuseDisconnected st) @ esc ''[0m '') @
      ''('' @ to_string elapsedSec @ ''s/'' @ to_string totalSec @ ''s)   '')"

text \<open>The body of the loop over the bots of a Normal scenario; \<open>sec % 1 == 0\<close> always holds.\<close>

definition bot_second :: "tester_env \<Rightarrow> nat \<Rightarrow> int32 \<Rightarrow> nat \<Rightarrow> tester \<Rightarrow> tester res" where
  "bot_second env t sec i x =
     (if \<not> ds_connected (dw_bots (ts_world x) i) then Ok x
      else
        let (nowUs, tick) = te_clock env sec i in
        res_bind (on_bots (SendLatencyPingChat t nowUs i) x) (\<lambda>x.
        let (r, x) = rand env x in
        res_bind (if r mod 3 = 0 then on_bots (SendHeartbeat t tick i) x else Ok x) (\<lambda>x.
        if sec mod 10 = 0 then
          let (r, x) = rand env x in on_bots (SendEnterRoom t [] (r mod 100 + 1) i) x
        else Ok x)))"

fun bots_second :: "tester_env \<Rightarrow> nat \<Rightarrow> int32 \<Rightarrow> nat list \<Rightarrow> tester \<Rightarrow> tester res" where
  "bots_second env t sec [] x = Ok x"
| "bots_second env t sec (i # is) x = res_bind (bot_second env t sec i x) (bots_second env t sec is)"

text \<open>The loop over the seconds, \<open>n\<close> of them left.\<close>

fun run_seconds :: "tester_env \<Rightarrow> nat \<Rightarrow> BotScenario \<Rightarrow> int32 \<Rightarrow> nat \<Rightarrow> int32 \<Rightarrow> tester \<Rightarrow> tester res" where
  "run_seconds env t scenario durationSec 0 sec x = Ok x"
| "run_seconds env t scenario durationSec (Suc n) sec x =
     res_bind (on_bots (te_workers env sec) x) (\<lambda>x.
     res_bind (if scenario = Normal then bots_second env t sec (ts_sessions x) x else Ok x) (\<lambda>x.
     run_seconds env t scenario durationSec n (sec + 1)
       (ts_print (RenderProgress (te_fl env) sec durationSec (ts_world x)) x)))"

fun test_passed :: "BotScenario \<Rightarrow> int32 \<Rightarrow> stress_stats \<Rightarrow> bool" where
  "test_passed Normal botCount st \<longleftrightarrow> st_totalConnected st > 0 \<and> st_totalSentPackets st > 0"
| "test_passed Slowloris botCount st \<longleftrightarrow> st_totalConnected st > 0"
| "test_passed ConnectSpam botCount st \<longleftrightarrow> st_totalConnected st = botCount \<and> st_totalDisconnected st = botCount"
| "test_passed PacketFlood botCount st \<longleftrightarrow> st_abuseDisconnected st > 0 \<or> st_totalDisconnected st > 0"

definition latency_report :: "(real \<Rightarrow> real) \<Rightarrow> latency \<Rightarrow> string" where
  "latency_report fl m =
     replicate 88 CHR ''-'' @ nl @
     esc ''[1;35m  [Latency (RTT) Distribution & Statistics (Total Samples: '' @ to_string (uint (lm_totalCount m)) @
       '')]'' @ esc ''[0m'' @ nl @
     ''   * Average (Mean) RTT     : '' @ esc ''[1;32m'' @ fixed 2 (GetAverageMs fl m) @ '' ms'' @ esc ''[0m'' @ nl @
     ''   * Minimum RTT            : '' @ fixed 2 (GetMinMs fl m) @ '' ms'' @ nl @
     ''   * 50th Percentile (P50)  : '' @ fixed 2 (GetPercentileMs fl 50 m) @ '' ms (Median)'' @ nl @
     ''   * 90th Percentile (P90)  : '' @ fixed 2 (GetPercentileMs fl 90 m) @ '' ms'' @ nl @
     ''   * 95th Percentile (P95)  : '' @ esc ''[1;33m'' @ fixed 2 (GetPercentileMs fl 95 m) @ '' ms'' @ esc ''[0m'' @ nl @
     ''   * 99th Percentile (P99)  : '' @ esc ''[1;31m'' @ fixed 2 (GetPercentileMs fl 99 m) @ '' ms (Tail Latency)'' @
       esc ''[0m'' @ nl @
     ''   * Maximum RTT            : '' @ fixed 2 (GetMaxMs fl m) @ '' ms'' @ nl"

definition verdict :: "bool \<Rightarrow> string" where
  "verdict testPassed =
     (if testPassed then
        ''  * '' @ esc ''[1;32mVERDICT: [PASS] System behaved according to expected security & capacity criteria.'' @
          esc ''[0m'' @ nl
      else ''  * '' @ esc ''[1;31mVERDICT: [FAIL] Scenario expectations were not fully met.'' @ esc ''[0m'' @ nl)"

definition result_report :: "(real \<Rightarrow> real) \<Rightarrow> BotScenario \<Rightarrow> int32 \<Rightarrow> dummy_world \<Rightarrow> string" where
  "result_report fl scenario botCount w =
     (let st = dw_stats w; rule = esc ''[1;36m'' @ replicate 88 CHR ''='' @ esc ''[0m'' @ nl in
      nl @ nl @ rule @
      esc ''[1;37m                               STRESS TEST RESULT SUMMARY                               '' @
        esc ''[0m'' @ nl @ rule @
      ''  * Target Scenario           : '' @ GetScenarioName scenario @ nl @
      ''  * Total Bots Spawned        : '' @ to_string botCount @ nl @
      ''  * Total Connected Sessions  : '' @ to_string (st_totalConnected st) @ nl @
      ''  * Total Disconnected        : '' @ to_string (st_totalDisconnected st) @ nl @
      ''  * Abuse Forced Disconnects  : '' @ to_string (st_abuseDisconnected st) @ nl @
      ''  * Total Packets Sent / Recv : '' @ to_string (uint (st_totalSentPackets st)) @ '' / '' @
        to_string (uint (st_totalRecvPackets st)) @ nl @
      (if scenario = Normal \<and> lm_totalCount (dw_latency w) > 0 then latency_report fl (dw_latency w) else []) @
      replicate 88 CHR ''-'' @ nl @ verdict (test_passed scenario botCount st) @ rule @ nl)"

text \<open>\<open>reserve\<close> of a negative count throws \<open>std::length_error\<close>, which nothing catches.\<close>

definition make_bots :: "BotScenario \<Rightarrow> nat \<Rightarrow> tester \<Rightarrow> tester" where
  "make_bots scenario n x = x\<lparr>ts_sessions := [0..<n],
     ts_world := (ts_world x)\<lparr>dw_bots := (\<lambda>i. if i < n then DummySession_new scenario (int i + 1) else dw_bots (ts_world x) i)\<rparr>\<rparr>"

definition scenario_banner :: "BotScenario \<Rightarrow> string" where
  "scenario_banner scenario = nl @ esc ''[1;36m'' @ replicate 88 CHR ''='' @ esc ''[0m'' @ nl @
     esc ''[1;37m                 STARTING STRESS TEST SCENARIO: '' @ GetScenarioName scenario @ esc ''[0m'' @ nl"

definition scenario_config :: "wstring \<Rightarrow> uint16 \<Rightarrow> int32 \<Rightarrow> int32 \<Rightarrow> string" where
  "scenario_config ip port botCount durationSec = '' [Configuration] Target: '' @ narrow ip @ '':'' @
     to_string (uint port) @ '' | Bot Count: '' @ to_string botCount @ '' | Duration: '' @ to_string durationSec @
     ''s'' @ nl @ nl"

definition reset_stats :: "dummy_world \<Rightarrow> dummy_world" where
  "reset_stats w = w\<lparr>dw_stats := StressStats_Reset (dw_stats w), dw_latency := LatencyMonitor_Reset (dw_latency w)\<rparr>"

definition RunScenario ::
    "tester_env \<Rightarrow> nat \<Rightarrow> BotScenario \<Rightarrow> int32 \<Rightarrow> int32 \<Rightarrow> wstring \<Rightarrow> uint16 \<Rightarrow> tester \<Rightarrow> tester res" where
  "RunScenario env t scenario botCount durationSec ip port x =
     (let x = x\<lparr>ts_world := reset_stats (ts_world x)\<rparr>;
          x = ts_print (scenario_banner scenario) x;
          x = ts_print (scenario_config ip port botCount durationSec) x in
      if botCount < 0 then Crash Uncaught
      else
        let (ok, n) = ClientService_Start True (te_connect env) botCount; x = make_bots scenario n x in
        if \<not> ok then
          Ok (x\<lparr>ts_cerr := ts_cerr x @ esc ''[1;31m[ERROR] Failed to start ClientService for Stress Test!'' @
            esc ''[0m'' @ nl\<rparr>)
        else
          res_bind (run_seconds env t scenario durationSec (nat durationSec) 1 x) (\<lambda>x.
          res_bind (on_bots (te_stop env) x) (\<lambda>x.
          Ok (ts_print (result_report (te_fl env) scenario botCount (ts_world x)) x))))"

section \<open>The menu\<close>

definition menu_text :: string where
  "menu_text =
     nl @ esc ''[1;36m'' @ replicate 65 CHR ''='' @ esc ''[0m'' @ nl @
     esc ''[1;37m       HIGH-PERFORMANCE IOCP CHAT SERVER STRESS TEST SUITE       '' @ esc ''[0m'' @ nl @
     esc ''[1;36m'' @ replicate 65 CHR ''='' @ esc ''[0m'' @ nl @
     ''  '' @ esc ''[1;33m[1]'' @ esc ''[0m Normal Chatting Load Test (500 Bots, 15 sec)'' @ nl @
     ''  '' @ esc ''[1;33m[2]'' @ esc ''[0m Slowloris / Idle Keep-Alive Timeout Test (100 Bots, 20 sec)'' @ nl @
     ''  '' @ esc ''[1;33m[3]'' @ esc ''[0m Connect / Disconnect Rapid Spam Stress Test (200 Bots, 10 sec)'' @ nl @
     ''  '' @ esc ''[1;33m[4]'' @ esc ''[0m Packet Flooding Attack Defense Test (100 Bots, 10 sec)'' @ nl @
     ''  '' @ esc ''[1;33m[5]'' @ esc ''[0m All-in-One Comprehensive Chaos Test (All Scenarios Sequenced)'' @ nl @
     ''  '' @ esc ''[1;31m[0]'' @ esc ''[0m Exit Stress Tester'' @ nl @
     esc ''[1;36m'' @ replicate 65 CHR ''='' @ esc ''[0m'' @ nl @
     ''Select Scenario Number >> ''"

definition chaos :: "tester_env \<Rightarrow> nat \<Rightarrow> wstring \<Rightarrow> uint16 \<Rightarrow> tester \<Rightarrow> tester res" where
  "chaos env t ip port x =
     res_bind (RunScenario env t ConnectSpam 1000 8 ip port
       (ts_print (nl @ esc ''[1;35m>>> RUNNING ALL-IN-ONE CHAOS STRESS SUITE <<<'' @ esc ''[0m'' @ nl) x)) (\<lambda>x.
     res_bind (RunScenario env t PacketFlood 300 8 ip port x) (\<lambda>x.
     res_bind (RunScenario env t Slowloris 1000 30 ip port x) (\<lambda>x.
     res_bind (RunScenario env t Normal 4000 30 ip port x) (\<lambda>x.
     Ok (ts_print (nl @ esc ''[1;32m>>> ALL-IN-ONE CHAOS TEST COMPLETED SUCCESSFULLY! <<<'' @ esc ''[0m'' @ nl) x)))))"

definition run_choice :: "tester_env \<Rightarrow> nat \<Rightarrow> wstring \<Rightarrow> uint16 \<Rightarrow> int32 \<Rightarrow> int32 \<Rightarrow> tester \<Rightarrow> tester res" where
  "run_choice env t ip port choice dummyCount =
     (if choice = 1 then RunScenario env t Normal dummyCount (3600 * 10) ip port
      else if choice = 2 then RunScenario env t Slowloris dummyCount 20 ip port
      else if choice = 3 then RunScenario env t ConnectSpam dummyCount 10 ip port
      else if choice = 4 then RunScenario env t PacketFlood dummyCount 10 ip port
      else if choice = 5 then chaos env t ip port
      else (\<lambda>x. Ok (ts_print (esc ''[1;31m[ERROR] Invalid scenario number.'' @ esc ''[0m'' @ nl) x)))"

text \<open>One turn of the loop on \<open>std::cin\<close>; the first component is false when it ends.\<close>

definition menu_turn ::
    "tester_env \<Rightarrow> nat \<Rightarrow> wstring \<Rightarrow> uint16 \<Rightarrow> istream \<Rightarrow> tester \<Rightarrow> (bool \<times> istream \<times> tester) res" where
  "menu_turn env t ip port cin x =
     (let x = ts_print menu_text x; (choice, cin) = read_int32 (- 1) cin in
      if snd cin then
        let (discard, cin) = read_string [] (fst cin, False) in Ok (True, cin, x)
      else if choice = 0 then Ok (False, cin, x)
      else
        let x = ts_print ''Dummy Count : '' x; (dummyCount, cin) = read_int32 4000 cin in
        res_bind (run_choice env t ip port choice dummyCount x) (\<lambda>x. Ok (True, cin, x)))"

text \<open>The loop, for at most \<open>n\<close> turns: \<open>None\<close> when it has not ended by then.\<close>

fun menu_loop :: "tester_env \<Rightarrow> nat \<Rightarrow> wstring \<Rightarrow> uint16 \<Rightarrow> nat \<Rightarrow> istream \<Rightarrow> tester \<Rightarrow> tester res option" where
  "menu_loop env t ip port 0 cin x = None"
| "menu_loop env t ip port (Suc n) cin x =
     (case menu_turn env t ip port cin x of
        Inl e \<Rightarrow> Some (Crash e)
      | Inr (again, cin, x) \<Rightarrow> if again then menu_loop env t ip port n cin x else Some (Ok x))"

section \<open>Properties\<close>

lemma ts_print_simps [simp]: "ts_print [] x = x" "ts_world (ts_print s x) = ts_world x" "ts_cout (ts_print s x) = ts_cout x @ s"
  by (simp_all add: ts_print_def)

lemma ts_print_twice: "ts_print a (ts_print b x) = ts_print (b @ a) x"
  by (simp add: ts_print_def)

lemma connect_loop_all: "\<forall>i. connect i \<Longrightarrow> connect_loop connect i n = (True, i + n)"
  by (induction n arbitrary: i) simp_all

text \<open>A scenario without traffic from the tester, and network threads that have nothing to do.\<close>

lemma run_seconds_quiet:
  assumes "scenario \<noteq> Normal" "te_workers env = (\<lambda>_. Ok)"
  shows "\<exists>s. run_seconds env t scenario d n sec x = Ok (ts_print s x)"
proof (induction n arbitrary: sec x)
  case 0
  show ?case by (metis run_seconds.simps(1) ts_print_simps(1))
next
  case (Suc n)
  then obtain s where "run_seconds env t scenario d n (sec + 1)
      (ts_print (RenderProgress (te_fl env) sec d (ts_world x)) x) =
      Ok (ts_print s (ts_print (RenderProgress (te_fl env) sec d (ts_world x)) x))" by blast
  then show ?case using assms by (auto simp: on_bots_def ts_print_twice)
qed

lemma Bot_OnDisconnected_flood:
  assumes "ds_scenario (dw_bots w i) = PacketFlood"
  shows "st_abuseDisconnected (dw_stats (Bot_OnDisconnected i w)) = to_int32 (st_abuseDisconnected (dw_stats w) + 1)"
    "dw_bots (Bot_OnDisconnected i w) = dw_bots w"
  using assms by (simp_all add: Bot_OnDisconnected_def upd_stats_def Let_def)

lemma disconnect_all_flood:
  assumes "\<forall>i \<in> set is. ds_scenario (dw_bots w i) = PacketFlood" "0 \<le> st_abuseDisconnected (dw_stats w)"
    "st_abuseDisconnected (dw_stats w) + int (length is) \<le> 2147483647"
  shows "st_abuseDisconnected (dw_stats (fold Bot_OnDisconnected is w)) = st_abuseDisconnected (dw_stats w) + int (length is)"
  using assms
proof (induction "is" arbitrary: w)
  case (Cons i "is")
  have "to_int32 (st_abuseDisconnected (dw_stats w) + 1) = st_abuseDisconnected (dw_stats w) + 1"
    using Cons.prems(2,3) by (intro to_int32_id) (simp add: in_int32_def)
  then show ?case
    using Cons.IH [of "Bot_OnDisconnected i w"] Cons.prems Bot_OnDisconnected_flood [of w i] by simp
qed simp

text \<open>
  The verdict on the flood test says nothing about the server. Let every bot connect, let the server never
  send a byte nor close a connection, so that no bot is ever disconnected by it, and let the stop of the client
  service close the connections: the tester reports every bot whose closing is still completed as disconnected
  for abuse, and if there is one the verdict is PASS.
\<close>

theorem flood_verdict_vacuous:
  assumes "\<forall>i. te_connect env i" "te_workers env = (\<lambda>_. Ok)" "0 \<le> n"
    and "te_stop env = (\<lambda>w. Ok (fold Bot_OnDisconnected gone w))" "gone \<noteq> []" "set gone \<subseteq> {..<nat n}"
    and "length gone \<le> 2147483647"
  shows "\<exists>x' s. RunScenario env t PacketFlood n d ip port x = Ok x' \<and>
    st_abuseDisconnected (dw_stats (ts_world x')) = int (length gone) \<and> test_passed PacketFlood n (dw_stats (ts_world x')) \<and>
    ts_cout x' = s @ result_report (te_fl env) PacketFlood n (ts_world x')"
proof -
  let ?x = "ts_print (scenario_banner PacketFlood @ scenario_config ip port n d) (x\<lparr>ts_world := reset_stats (ts_world x)\<rparr>)"
  let ?y = "make_bots PacketFlood (nat n) ?x"
  let ?w' = "fold Bot_OnDisconnected gone (ts_world ?y)"
  have run: "RunScenario env t PacketFlood n d ip port x =
      res_bind (run_seconds env t PacketFlood d (nat d) 1 ?y) (\<lambda>x. res_bind (on_bots (te_stop env) x) (\<lambda>x.
        Ok (ts_print (result_report (te_fl env) PacketFlood n (ts_world x)) x)))"
    using assms(3) connect_loop_all [OF assms(1), of 0 "nat n"]
    by (simp add: RunScenario_def ClientService_Start_def ts_print_twice)
  obtain s where "run_seconds env t PacketFlood d (nat d) 1 ?y = Ok (ts_print s ?y)"
    using run_seconds_quiet [of PacketFlood env t d "nat d" 1 ?y] assms(2) by auto
  then have z: "RunScenario env t PacketFlood n d ip port x =
      Ok (ts_print (result_report (te_fl env) PacketFlood n ?w') ((ts_print s ?y)\<lparr>ts_world := ?w'\<rparr>))"
    unfolding run using assms(4) by (simp add: on_bots_def)
  have "\<forall>i \<in> set gone. ds_scenario (dw_bots (ts_world ?y) i) = PacketFlood"
    using assms(6) by (auto simp: DummySession_new_def make_bots_def)
  moreover have "st_abuseDisconnected (dw_stats (ts_world ?y)) = 0"
    by (simp add: StressStats_Reset_def reset_stats_def make_bots_def)
  ultimately have "st_abuseDisconnected (dw_stats ?w') = int (length gone)"
    using disconnect_all_flood [of gone "ts_world ?y"] assms(7) by simp
  then show ?thesis using z assms(5) by (auto simp: ts_print_simps)
qed

theorem flood_verdict_vacuous_witness:
  "\<exists>x' s. RunScenario \<lparr>te_connect = (\<lambda>_. True), te_rand = (\<lambda>_. 0), te_clock = (\<lambda>_ _. (0, 0)), te_workers = (\<lambda>_. Ok),
      te_stop = (\<lambda>w. Ok (fold Bot_OnDisconnected [7] w)), te_fl = (\<lambda>x. x)\<rparr> 0 PacketFlood 100 10 [] 7777
      \<lparr>ts_world = bot_world (DummySession_new Normal 1), ts_sessions = [], ts_rands = 0, ts_cout = [], ts_cerr = []\<rparr> = Ok x' \<and>
    ts_cout x' = s @ result_report (\<lambda>x. x) PacketFlood 100 (ts_world x') \<and> test_passed PacketFlood 100 (dw_stats (ts_world x'))"
  using flood_verdict_vacuous [of "\<lparr>te_connect = (\<lambda>_. True), te_rand = (\<lambda>_. 0), te_clock = (\<lambda>_ _. (0, 0)), te_workers = (\<lambda>_. Ok),
      te_stop = (\<lambda>w. Ok (fold Bot_OnDisconnected [7] w)), te_fl = (\<lambda>x. x)\<rparr>" 100 "[7]"]
  by (simp, metis)

text \<open>
  The tester does not survive the end of its input. Once there is nothing but white space left to be
  read, each turn of the menu fails to read a number, clears the error, fails to read the word it wants to
  discard, and starts again: however many turns are made, the loop does not end.
\<close>

theorem menu_hangs_at_end_of_input:
  assumes "skip_ws s = []"
  shows "menu_loop env t ip port n (s, failed) x = None"
proof (induction n arbitrary: failed x)
  case (Suc n)
  have "menu_turn env t ip port (s, failed) x = Ok (True, (s, True), ts_print menu_text x)"
    using assms by (simp add: menu_turn_def read_int32_def read_string_def Let_def)
  with Suc show ?case by simp
qed simp

theorem menu_hangs_at_end_of_input_witness:
  "\<forall>env x. menu_loop env 0 [] 7777 1000 (nl, False) x = None"
proof -
  have "skip_ws nl = []" by (simp add: nl_def is_space_def)
  then show ?thesis using menu_hangs_at_end_of_input by blast
qed


end
