(* ===== verification/Monitoring.thy ===== *)
theory Monitoring
  imports AbuseMonitor RoomManager Streams
begin

text \<open>
  What the operator of the server sees: the dump of the abuse log (\<^verbatim>\<open>DumpLogsToFile\<close> of
  \<^verbatim>\<open>ChatServer/Service/AbuseMonitor.cpp\<close>), the dashboard (\<^verbatim>\<open>ChatServer/Monitoring/ConsoleDashboard.cpp\<close>), and
  the two loops of \<^verbatim>\<open>ChatServer/Main.cpp\<close> that use them, one turn at a time.

  The console is the text written since it was last cleared, and the log file its contents once it was
  written. Clocks, keys and whether the file opens are arguments.
\<close>

section \<open>The dump of the log\<close>

definition rule_line :: "char \<Rightarrow> string" where
  "rule_line c = replicate 88 c"

definition endpoint :: "abuse_log_entry \<Rightarrow> string" where
  "endpoint entry = al_ipAddress entry @ '':'' @ to_string (uint (al_port entry))"

definition dump_header :: "string \<Rightarrow> nat \<Rightarrow> string" where
  "dump_header timeStr n =
     rule_line CHR ''='' @ nl @
     ''                        Chat Server Abuse & Disconnect Log Dump                        '' @ nl @
     ''                          Generated At: '' @ timeStr @ nl @
     rule_line CHR ''='' @ nl @
     ''Total Forced Disconnections: '' @ to_string (int n) @ nl @ nl @
     setw_left 22 ''[Time]'' @ setw_left 14 ''[Session ID]'' @ setw_left 18 ''[Player Name]'' @
       setw_left 24 ''[Client IP:Port]'' @ ''[Reason]'' @ nl @
     rule_line CHR ''-'' @ nl"

definition dump_line :: "abuse_log_entry \<Rightarrow> string" where
  "dump_line entry = setw_left 22 (al_timeStr entry) @ setw_left 14 (to_string (uint (al_sessionId entry))) @
     setw_left 18 (al_playerName entry) @ setw_left 24 (endpoint entry) @ narrow (al_reason entry) @ nl"

text \<open>The file, if it can be opened; \<open>timeStr\<close> is the time the dump is made.\<close>

definition DumpLogsToFile :: "bool \<Rightarrow> string \<Rightarrow> world \<Rightarrow> string option" where
  "DumpLogsToFile is_open timeStr w =
     (let logs = GetLogs w in
      if \<not> is_open then None
      else Some (dump_header timeStr (length logs) @ concat (map dump_line logs) @ rule_line CHR ''='' @ nl))"

section \<open>The dashboard\<close>

definition ANSI_RESET :: string where "ANSI_RESET = esc ''[0m''"
definition ANSI_BOLD :: string where "ANSI_BOLD = esc ''[1m''"
definition ANSI_CYAN :: string where "ANSI_CYAN = esc ''[1;36m''"
definition ANSI_GREEN :: string where "ANSI_GREEN = esc ''[1;32m''"
definition ANSI_YELLOW :: string where "ANSI_YELLOW = esc ''[1;33m''"
definition ANSI_RED :: string where "ANSI_RED = esc ''[1;31m''"
definition ANSI_MAGENTA :: string where "ANSI_MAGENTA = esc ''[1;35m''"
definition ANSI_WHITE :: string where "ANSI_WHITE = esc ''[1;37m''"

definition dashboard_line :: "abuse_log_entry \<Rightarrow> string" where
  "dashboard_line entry = ANSI_RED @ ''  '' @ setw_left 20 (al_timeStr entry) @
     setw_left 12 (to_string (uint (al_sessionId entry))) @ setw_left 16 (al_playerName entry) @
     setw_left 22 (endpoint entry) @ narrow (al_reason entry) @ ANSI_RESET @ nl"

definition dashboard_network :: "(real \<Rightarrow> real) \<Rightarrow> int32 \<Rightarrow> server_stats \<Rightarrow> string" where
  "dashboard_network fl maxSessions st =
     (let rxKb = fl (real (unat (st_currentRecvBps st)) / 1024); txKb = fl (real (unat (st_currentSendBps st)) / 1024) in
      ANSI_BOLD @ '' [1] Network & User Metrics'' @ nl @ ANSI_RESET @
      ''  * Current CCU (Active)     : '' @ ANSI_GREEN @ setw_right 6 (to_string (st_currentCcu st)) @ ANSI_RESET @
        '' / '' @ to_string maxSessions @ nl @
      ''  * Total Accepted Conns     : '' @ ANSI_WHITE @ setw_right 6 (to_string (uint (st_totalAccepted st))) @
        ANSI_RESET @ nl @
      ''  * Throughput (PPS)         : '' @ ANSI_YELLOW @ setw_right 6 (to_string (uint (st_currentPps st))) @
        '' pkts/sec'' @ ANSI_RESET @ nl @
      ''  * Bandwidth (RX / TX)      : '' @ ANSI_CYAN @ fixed 2 rxKb @ '' KB/s'' @ ANSI_RESET @ '' / '' @ ANSI_MAGENTA @
        fixed 2 txKb @ '' KB/s'' @ nl @ ANSI_RESET @
      rule_line CHR ''-'' @ nl)"

definition dashboard_rooms :: "int32 \<Rightarrow> uint32 \<Rightarrow> string" where
  "dashboard_rooms activeRooms totalAbuse =
     ANSI_BOLD @ '' [2] Chat Rooms & Security Defense'' @ nl @ ANSI_RESET @
     ''  * Active Chat Rooms (Actor): '' @ ANSI_CYAN @ setw_right 6 (to_string activeRooms) @ '' Rooms'' @ ANSI_RESET @ nl @
     ''  * Abuse Force Disconnects  : '' @ (if totalAbuse > 0 then ANSI_RED else ANSI_GREEN) @
       setw_right 6 (to_string (uint totalAbuse)) @ '' cases (Flooding/Timeout)'' @ ANSI_RESET @ nl @
     rule_line CHR ''-'' @ nl"

definition dashboard_events :: "abuse_log_entry list \<Rightarrow> string" where
  "dashboard_events recentLogs =
     ANSI_BOLD @ '' [3] Recent Abuse & Forced Disconnect Events (Latest 5)'' @ nl @ ANSI_RESET @
     ANSI_WHITE @ setw_left 22 '' [Timestamp]'' @ setw_left 12 ''[Session]'' @ setw_left 16 ''[Player]'' @
       setw_left 22 ''[Endpoint]'' @ ''[Reason]'' @ nl @ ANSI_RESET @
     '' --------------------------------------------------------------------------------------'' @ nl @
     (if recentLogs = [] then ''  (No abuse or forced disconnections detected. System running cleanly.)'' @ nl
      else concat (map dashboard_line recentLogs)) @
     rule_line CHR ''='' @ nl"

definition dashboard :: "(real \<Rightarrow> real) \<Rightarrow> uint64 \<Rightarrow> uint16 \<Rightarrow> int32 \<Rightarrow> world \<Rightarrow> string" where
  "dashboard fl tick port maxSessions w =
     esc ''[H'' @
     ANSI_CYAN @ rule_line CHR ''='' @ nl @ ANSI_RESET @
     ANSI_BOLD @ ANSI_WHITE @
       ''               HIGH-PERFORMANCE IOCP CHAT SERVER MONITORING DASHBOARD                   '' @ nl @ ANSI_RESET @
     ANSI_CYAN @ rule_line CHR ''='' @ nl @ ANSI_RESET @
     ANSI_BOLD @ '' [Server Status] '' @ ANSI_GREEN @ ''ONLINE'' @ ANSI_RESET @ '' | Port: '' @ ANSI_YELLOW @
       to_string (uint port) @ ANSI_RESET @ '' | Uptime: '' @ ANSI_WHITE @ GetFormattedUptime tick (w_stats w) @
       ANSI_RESET @ '' | Threads: '' @ ANSI_CYAN @ ''Worker + Timer'' @ ANSI_RESET @ nl @
     rule_line CHR ''-'' @ nl @
     dashboard_network fl maxSessions (w_stats w) @
     dashboard_rooms (GetTotalRoomCount w) (st_totalAbuseDisconnects (w_stats w)) @
     dashboard_events (GetRecentLogs 5 w) @
     ANSI_BOLD @ '' [Commands] '' @ ANSI_YELLOW @ ''[S]'' @ ANSI_RESET @ '' Save Log File | '' @ ANSI_CYAN @ ''[C]'' @
       ANSI_RESET @ '' Clear Screen | '' @ ANSI_RED @ ''[Q]'' @ ANSI_RESET @ '' Graceful Shutdown'' @ nl @
     rule_line CHR ''='' @ nl"

text \<open>\<open>rateTick\<close> and \<open>tick\<close> are what the clock says for the rates and for the uptime.\<close>

definition Render ::
    "(real \<Rightarrow> real) \<Rightarrow> uint64 \<Rightarrow> uint64 \<Rightarrow> uint16 \<Rightarrow> session_ref service option \<Rightarrow> world \<Rightarrow> (string \<times> world) res" where
  "Render fl rateTick tick port service w =
     (case service of None \<Rightarrow> Ok ([], w)
      | Some service \<Rightarrow>
        res_bind (UpdateRates fl rateTick (w_stats w)) (\<lambda>st.
        let w = w\<lparr>w_stats := st\<rparr> in Ok (dashboard fl tick port (sv_maxSessionCount service) w, w)))"

section \<open>The main loop\<close>

definition TIME_OUT_MS :: uint64 where "TIME_OUT_MS = 15000"

record server_main =
  sm_world :: world
  sm_screen :: string
  sm_file :: "string option"
  sm_isRunning :: bool
  sm_lastRenderTick :: uint64
  sm_lastCheckTick :: uint64

text \<open>What one turn reads: the clock of the loop, the two clocks of a rendering, a key, whether the file opens.\<close>

record main_input =
  mi_now :: uint64
  mi_render :: "uint64 \<times> uint64"
  mi_key :: "char option"
  mi_render_key :: "uint64 \<times> uint64"
  mi_opens :: bool
  mi_timeStr :: string

definition main_render :: "(real \<Rightarrow> real) \<Rightarrow> uint16 \<Rightarrow> uint64 \<times> uint64 \<Rightarrow> server_main \<Rightarrow> server_main res" where
  "main_render fl port = (\<lambda>(rateTick, tick) s.
     res_bind (Render fl rateTick tick port (w_service (sm_world s)) (sm_world s)) (\<lambda>(out, w).
       Ok (s\<lparr>sm_world := w, sm_screen := sm_screen s @ out\<rparr>)))"

text \<open>The message about a saved log is on the console for 1.5 seconds, then the console is cleared.\<close>

definition main_key :: "(real \<Rightarrow> real) \<Rightarrow> uint16 \<Rightarrow> main_input \<Rightarrow> char \<Rightarrow> server_main \<Rightarrow> server_main res" where
  "main_key fl port inp key s =
     (if key = CHR ''q'' \<or> key = CHR ''Q'' then
        Ok (s\<lparr>sm_screen := sm_screen s @ nl @ esc ''[1;33m[INFO] Graceful Server Shutdown Initiated...'' @ esc ''[0m'' @ nl,
          sm_isRunning := False\<rparr>)
      else if key = CHR ''s'' \<or> key = CHR ''S'' then
        (case DumpLogsToFile (mi_opens inp) (mi_timeStr inp) (sm_world s) of
           None \<Rightarrow> Ok s
         | Some file \<Rightarrow> Ok (s\<lparr>sm_file := Some file, sm_screen := []\<rparr>))
      else if key = CHR ''c'' \<or> key = CHR ''C'' then main_render fl port (mi_render_key inp) (s\<lparr>sm_screen := []\<rparr>)
      else if key = CHR ''x'' \<or> key = CHR ''X'' then Crash AssertCrash
      else Ok s)"

definition main_turn :: "(real \<Rightarrow> real) \<Rightarrow> uint16 \<Rightarrow> main_input \<Rightarrow> server_main \<Rightarrow> server_main res" where
  "main_turn fl port inp s =
     (if \<not> sm_isRunning s then Ok s
      else
        res_bind
          (if mi_now inp - sm_lastRenderTick s \<ge> 1000 then
             res_bind (main_render fl port (mi_render inp) s) (\<lambda>s. Ok (s\<lparr>sm_lastRenderTick := mi_now inp\<rparr>))
           else Ok s)
          (\<lambda>s. case mi_key inp of None \<Rightarrow> Ok s | Some key \<Rightarrow> main_key fl port inp key s))"

text \<open>
  One turn of the timer thread: \<open>distribute\<close> is \<open>JobTimer::Distribute\<close>, \<open>checkTick\<close> and \<open>clock\<close> are the
  readings of the heartbeat check.
\<close>

definition timer_turn ::
    "(uint64 \<Rightarrow> world \<Rightarrow> world) \<Rightarrow> uint64 \<Rightarrow> uint64 \<Rightarrow> (session_ref \<Rightarrow> uint64 \<times> string) \<Rightarrow> server_main \<Rightarrow> server_main" where
  "timer_turn distribute now checkTick clock s =
     (if \<not> sm_isRunning s then s
      else
        let w = distribute now (sm_world s) in
        if now - sm_lastCheckTick s \<ge> 1000 then
          s\<lparr>sm_world := CheckHeartbeatTimeouts checkTick clock (w_service w) TIME_OUT_MS w, sm_lastCheckTick := now\<rparr>
        else s\<lparr>sm_world := w\<rparr>)"

text \<open>After the loop: the service is stopped, and the log is written once more.\<close>

definition main_shutdown :: "bool \<Rightarrow> string \<Rightarrow> server_main \<Rightarrow> server_main" where
  "main_shutdown is_open timeStr s =
     (let w = (case w_service (sm_world s) of None \<Rightarrow> sm_world s
          | Some sv \<Rightarrow> let (sv, w) = Service_Stop (Disconnect (wide ''Service Stop'')) (sv, sm_world s) in
              w\<lparr>w_service := Some sv\<rparr>);
          s = s\<lparr>sm_world := w\<rparr>;
          s = (case DumpLogsToFile is_open timeStr w of None \<Rightarrow> s | Some file \<Rightarrow> s\<lparr>sm_file := Some file\<rparr>) in
      s\<lparr>sm_screen := sm_screen s @ esc ''[1;32m[INFO] Server shutdown completed cleanly.'' @ esc ''[0m'' @ nl\<rparr>)"

section \<open>The lines of the log\<close>

fun split_lines :: "string \<Rightarrow> string list" where
  "split_lines [] = [[]]"
| "split_lines (c # s) = (if c = CHR 0x0A then [] # split_lines s
     else case split_lines s of [] \<Rightarrow> [[c]] | l # ls \<Rightarrow> (c # l) # ls)"

definition one_line :: "string \<Rightarrow> bool" where
  "one_line s \<longleftrightarrow> CHR 0x0A \<notin> set s"

lemma split_lines_line: "one_line s \<Longrightarrow> split_lines (s @ nl @ t) = s # split_lines t"
  by (induction s) (auto simp: one_line_def nl_def)

lemma one_line_simps [simp]:
  "one_line []" "one_line (c # s) \<longleftrightarrow> c \<noteq> CHR 0x0A \<and> one_line s" "one_line (s @ t) \<longleftrightarrow> one_line s \<and> one_line t"
  "one_line (rule_line c) \<longleftrightarrow> c \<noteq> CHR 0x0A" "one_line (setw_left n s) \<longleftrightarrow> one_line s"
  by (auto simp: one_line_def rule_line_def setw_left_def)

lemma one_line_to_string [simp]: "one_line (to_string n)"
proof -
  have "\<not> is_digit CHR 0x0A" by (simp add: is_digit_def)
  then have "one_line (decimal m)" for m using decimal_is_digit [of m] by (auto simp: one_line_def)
  then show ?thesis by (simp add: to_string_def)
qed

definition clean_entry :: "abuse_log_entry \<Rightarrow> bool" where
  "clean_entry entry \<longleftrightarrow> one_line (al_timeStr entry) \<and> one_line (al_playerName entry) \<and> one_line (al_ipAddress entry) \<and>
     one_line (narrow (al_reason entry))"

text \<open>A line without its end.\<close>

definition dump_text :: "abuse_log_entry \<Rightarrow> string" where
  "dump_text entry = setw_left 22 (al_timeStr entry) @ setw_left 14 (to_string (uint (al_sessionId entry))) @
     setw_left 18 (al_playerName entry) @ setw_left 24 (endpoint entry) @ narrow (al_reason entry)"

lemma dump_line_text: "dump_line entry = dump_text entry @ nl"
  by (simp add: dump_line_def dump_text_def)

lemma split_lines_dump:
  "\<forall>entry \<in> set logs. clean_entry entry \<Longrightarrow> split_lines (concat (map dump_line logs) @ t) = map dump_text logs @ split_lines t"
proof (induction logs)
  case (Cons entry logs)
  then have "one_line (dump_text entry)" by (simp add: dump_text_def endpoint_def clean_entry_def)
  with Cons show ?case by (simp add: dump_line_text split_lines_line)
qed simp

text \<open>The lines before the entries.\<close>

definition header_lines :: "string \<Rightarrow> nat \<Rightarrow> string list" where
  "header_lines timeStr n =
     [rule_line CHR ''='',
      ''                        Chat Server Abuse & Disconnect Log Dump                        '',
      ''                          Generated At: '' @ timeStr,
      rule_line CHR ''='',
      ''Total Forced Disconnections: '' @ to_string (int n),
      [],
      setw_left 22 ''[Time]'' @ setw_left 14 ''[Session ID]'' @ setw_left 18 ''[Player Name]'' @
        setw_left 24 ''[Client IP:Port]'' @ ''[Reason]'',
      rule_line CHR ''-'']"

lemma split_lines_header:
  assumes "one_line timeStr"
  shows "split_lines (dump_header timeStr n @ t) = header_lines timeStr n @ split_lines t"
proof -
  have "dump_header timeStr n @ t = concat (map (\<lambda>l. l @ nl) (header_lines timeStr n)) @ t"
    by (simp add: dump_header_def header_lines_def)
  moreover have "\<forall>l \<in> set (header_lines timeStr n). one_line l"
    using assms by (simp add: header_lines_def)
  moreover have "split_lines (concat (map (\<lambda>l. l @ nl) ls) @ t) = ls @ split_lines t" if "\<forall>l \<in> set ls. one_line l" for ls
    using that by (induction ls) (simp_all add: split_lines_line)
  ultimately show ?thesis by simp
qed

section \<open>Properties\<close>

text \<open>
  The saved log. When none of its texts contains a line break, the file that \<open>DumpLogsToFile\<close> writes
  consists, between a header with the time and the number of entries and a last rule, of exactly one line for
  every entry of the log, in the order of the reports.
\<close>

theorem dump_lists_log:
  assumes "\<forall>entry \<in> set (w_abuseLogs w). clean_entry entry" "one_line timeStr"
  shows "\<exists>file. DumpLogsToFile True timeStr w = Some file \<and>
    split_lines file = header_lines timeStr (length (w_abuseLogs w)) @ map dump_text (w_abuseLogs w) @ [rule_line CHR ''='', []]"
proof -
  have "split_lines (rule_line CHR ''='' @ nl) = [rule_line CHR ''='', []]"
    using split_lines_line [of "rule_line CHR ''=''" "[]"] by simp
  then show ?thesis
    using split_lines_header [OF assms(2)] split_lines_dump [OF assms(1)]
    by (simp add: DumpLogsToFile_def GetLogs_def Let_def)
qed

theorem dump_lists_log_witness:
  "\<exists>file. DumpLogsToFile True ''12:00'' (ReportAbuse 7 ''11:59'' 3 ''bob'' ''10.0.0.1'' 5000 [] (world_start (\<lambda>_. ClientSession_new 0 [] 0))) = Some file \<and>
     split_lines file = header_lines ''12:00'' 1 @
       [dump_text (abuse_entry 7 ''11:59'' 3 ''bob'' ''10.0.0.1'' 5000 [])] @ [rule_line CHR ''='', []]"
proof -
  have "clean_entry (abuse_entry 7 ''11:59'' 3 ''bob'' ''10.0.0.1'' 5000 [])"
    by (simp add: clean_entry_def abuse_entry_def narrow_def wide_def)
  then show ?thesis
    using dump_lists_log [of "ReportAbuse 7 ''11:59'' 3 ''bob'' ''10.0.0.1'' 5000 [] (world_start (\<lambda>_. ClientSession_new 0 [] 0))" "''12:00''"]
    by (simp add: world_start_def)
qed

text \<open>
  A player can forge the log. For whatever log, time and session of a report that is made about a player,
  and whatever name, address and reason somebody wants to have in the log, there is a name such that, when the
  player has it, the report adds two lines to the saved log: one with the player's session and time but
  with the wanted name, address and reason, and one of a wanted time, session and name with the player's own
  address. Nothing checks the characters of a name.
\<close>

theorem log_forgeable:
  fixes victim other :: abuse_log_entry
  shows "\<exists>name. map dump_line (w_abuseLogs (ReportAbuse tick timeStr s name ip port reason w)) =
    map dump_line (w_abuseLogs w) @
    [dump_line (victim\<lparr>al_timeStr := timeStr, al_sessionId := s\<rparr>) @
     dump_line (other\<lparr>al_ipAddress := al_ipAddress (abuse_entry tick timeStr s name ip port reason), al_port := port,
       al_reason := reason\<rparr>)]"
proof -
  let ?name = "setw_left 18 (al_playerName victim) @ setw_left 24 (endpoint victim) @ narrow (al_reason victim) @ nl @
    setw_left 22 (al_timeStr other) @ setw_left 14 (to_string (uint (al_sessionId other))) @
    setw_left 18 (al_playerName other)"
  have "?name \<noteq> []" by (simp add: nl_def)
  moreover have "setw_left 18 ?name = ?name" by (simp add: setw_left_def)
  ultimately show ?thesis
    by (intro exI [of _ ?name]) (simp add: abuse_entry_def dump_line_def endpoint_def nl_def)
qed

end
