(* ===== verification/Worker.thy ===== *)
theory Worker
  imports ChatServer
begin

text \<open>
  The inner loop of a worker thread, \<^verbatim>\<open>while (JobQueueRef jobQueue = GlobalQueue::Pop()) jobQueue->Execute();\<close>
  of \<^verbatim>\<open>ChatServer/Main.cpp\<close>, on the world of the server, with nothing in between. \<open>ChatServer\<close> has the same
  parts as interleaved steps.
\<close>

definition Room_Execute :: "nat \<Rightarrow> room_ref \<Rightarrow> world \<Rightarrow> world res" where
  "Room_Execute t r w =
     (let (executeList, x) = Execute_take (w_rooms w r) in
      res_bind (run_jobs (run_job t r) executeList (set_room r x w)) (\<lambda>w.
      let (remain, x) = Execute_done (int (length executeList)) (w_rooms w r); w = set_room r x w in
      Ok (if remain > 0 then set_global (GlobalQueue_Push r (w_globalQueue w)) w else w)))"

text \<open>The loop, for at most \<open>n\<close> turns; \<open>None\<close> when it has not ended by then.\<close>

fun worker_loop :: "nat \<Rightarrow> nat \<Rightarrow> world \<Rightarrow> world res option" where
  "worker_loop t 0 w = None"
| "worker_loop t (Suc n) w =
     (case GlobalQueue_Pop (w_globalQueue w) of
        (None, g) \<Rightarrow> Some (Ok (set_global g w))
      | (Some r, g) \<Rightarrow>
          (case Room_Execute t r (set_global g w) of
             Inl e \<Rightarrow> Some (Crash e)
           | Inr w \<Rightarrow> worker_loop t n w))"

section \<open>The queues of a world\<close>

definition room_jobs :: "world \<Rightarrow> room_ref \<Rightarrow> room_job list" where
  "room_jobs w r = jq_jobs (w_rooms w r)"

definition room_count :: "world \<Rightarrow> room_ref \<Rightarrow> int32" where
  "room_count w r = jq_jobCount (w_rooms w r)"

definition same_queues :: "world \<Rightarrow> world \<Rightarrow> bool" where
  "same_queues w w' \<longleftrightarrow> w_globalQueue w' = w_globalQueue w \<and> room_jobs w' = room_jobs w \<and> room_count w' = room_count w"

lemma same_queues_refl [simp]: "same_queues w w"
  by (simp add: same_queues_def)

lemma same_queues_quiet:
  assumes "quiet w2 = quiet w1"
  shows "same_queues w w2 = same_queues w w1"
proof -
  have "w_globalQueue (quiet v) = w_globalQueue v" "w_rooms (quiet v) = w_rooms v" for v by (simp_all add: quiet_def)
  then have "w_globalQueue w2 = w_globalQueue w1" "w_rooms w2 = w_rooms w1" using assms by metis+
  then show ?thesis by (simp add: same_queues_def room_jobs_def room_count_def fun_eq_iff)
qed

lemma same_queues_make [simp]:
  "make_buffer t p w1 = Ok (sb, w2) \<Longrightarrow> same_queues w w2 = same_queues w w1"
  "same_queues w (Send sb s w1) = same_queues w w1"
  "same_queues w (fold (Send sb) ss w1) = same_queues w w1"
  by (rule same_queues_quiet; simp add: make_quiet Send_quiet fold_Send_other)+

lemma same_queues_members [simp]: "same_queues w (joined r s w)" "same_queues w (parted r s w)"
  by (auto simp: same_queues_def joined_def parted_def SetRoom_def Let_def room_jobs_def room_count_def fun_eq_iff)

text \<open>A job changes no queue, or moves its session on with one push.\<close>

fun job_weight :: "room_job \<Rightarrow> nat" where
  "job_weight (JobLeaveAndEnter _ _) = 2"
| "job_weight _ = 1"

lemma run_job_queues:
  assumes "run_job t r j w = Ok w'"
  shows "same_queues w w' \<or> job_weight j = 2 \<and> (\<exists>w1 q s. same_queues w w1 \<and> w' = PushJob q (JobEnter s) w1)"
proof -
  have leave: "same_queues w w1" if "Room_Leave t r (Some s) w = Ok w1" for s w1
    using that unfolding Room_Leave_def option.case Let_def parted_def [unfolded Let_def, symmetric]
    by (auto simp: res_iff Room_Broadcast_def)
  have enter: "same_queues w w1" if "Room_Enter t r (Some s) w = Ok w1" for s w1
    using that by (auto simp: Room_Enter_def Let_def res_iff Room_Broadcast_def simp flip: joined_def)
  have chat: "same_queues w w1" if "Room_HandleChat t r (Some s) m w = Ok w1" for s m w1
    using that by (auto simp: Room_HandleChat_def Let_def res_iff Room_Broadcast_def)
  show ?thesis
  proof (cases j)
    case (JobLeaveAndEnter x target)
    show ?thesis
    proof (cases x)
      case (Some s)
      then obtain w1 where w1: "Room_Leave t r (Some s) w = Ok w1"
        "w' = (case target of None \<Rightarrow> w1 | Some q \<Rightarrow> PushJob q (JobEnter (Some s)) w1)"
        using assms JobLeaveAndEnter by (auto simp: Room_LeaveAndEnter_def res_iff)
      then show ?thesis using leave [OF w1(1)] JobLeaveAndEnter by (cases target) auto
    qed (use assms JobLeaveAndEnter in \<open>simp add: Room_LeaveAndEnter_def\<close>)
  next
    case (JobEnter x)
    then show ?thesis using assms enter by (cases x) (auto simp: Room_Enter_def)
  next
    case (JobLeave x)
    then show ?thesis using assms leave by (cases x) (auto simp: Room_Leave_def)
  next
    case (JobHandleChat x m)
    then show ?thesis using assms chat by (cases x) (auto simp: Room_HandleChat_def)
  qed
qed


section \<open>The work to be done\<close>

text \<open>
  \<open>busy\<close> is the queue whose jobs a worker is running, with their number: they are still counted, and the
  queue is not in the global queue.
\<close>

definition queues_inv :: "(room_ref \<times> nat) option \<Rightarrow> world \<Rightarrow> bool" where
  "queues_inv busy w \<longleftrightarrow> finite {r. room_jobs w r \<noteq> []} \<and> distinct (w_globalQueue w) \<and>
     (\<forall>r. room_count w r = int (length (room_jobs w r)) + (case busy of Some (q, n) \<Rightarrow> if r = q then int n else 0 | None \<Rightarrow> 0)) \<and>
     (\<forall>r. r \<in> set (w_globalQueue w) \<longleftrightarrow> room_jobs w r \<noteq> [] \<and> map_option fst busy \<noteq> Some r) \<and>
     (\<forall>q n. busy = Some (q, n) \<longrightarrow> 0 < n)"

definition work :: "world \<Rightarrow> nat" where
  "work w = (\<Sum>r | room_jobs w r \<noteq> []. sum_list (map job_weight (room_jobs w r)))"

lemma work_superset:
  assumes "finite A" "{r. room_jobs w r \<noteq> []} \<subseteq> A"
  shows "work w = (\<Sum>r\<in>A. sum_list (map job_weight (room_jobs w r)))"
  unfolding work_def by (rule sum.mono_neutral_left [OF assms]) auto

lemma same_queues_inv:
  assumes "same_queues w w'"
  shows "queues_inv busy w' = queues_inv busy w" "work w' = work w"
  using assms by (simp_all add: same_queues_def queues_inv_def work_def)

text \<open>Replacing the jobs of one queue.\<close>

lemma work_change:
  assumes "finite {r. room_jobs w r \<noteq> []}" "room_jobs w' = (room_jobs w)(r := js)"
  shows "finite {r. room_jobs w' r \<noteq> []}"
    "work w' + sum_list (map job_weight (room_jobs w r)) = work w + sum_list (map job_weight js)"
proof -
  let ?A = "insert r {r. room_jobs w r \<noteq> []}"
  have sub: "{q. room_jobs w' q \<noteq> []} \<subseteq> ?A" using assms(2) by auto
  show fin: "finite {r. room_jobs w' r \<noteq> []}" using finite_subset [OF sub] assms(1) by simp
  have w: "work w = (\<Sum>q\<in>?A. sum_list (map job_weight (room_jobs w q)))"
    using assms(1) by (intro work_superset) auto
  have w': "work w' = (\<Sum>q\<in>?A. sum_list (map job_weight (room_jobs w' q)))"
    using assms(1) sub by (intro work_superset) auto
  have eq: "(\<Sum>q\<in>?A - {r}. sum_list (map job_weight (room_jobs w' q))) = (\<Sum>q\<in>?A - {r}. sum_list (map job_weight (room_jobs w q)))"
    using assms(2) by (intro sum.cong) auto
  show "work w' + sum_list (map job_weight (room_jobs w r)) = work w + sum_list (map job_weight js)"
    unfolding w w'
    using assms eq
      sum.remove [of ?A r "\<lambda>q. sum_list (map job_weight (room_jobs w' q))"]
      sum.remove [of ?A r "\<lambda>q. sum_list (map job_weight (room_jobs w q))"]
    by auto
qed

lemma PushJob_queues:
  "room_jobs (PushJob r j w) = (room_jobs w)(r := room_jobs w r @ [j])"
  "room_count (PushJob r j w) = (room_count w)(r := room_count w r + 1)"
  "w_globalQueue (PushJob r j w) = (if room_count w r = 0 then w_globalQueue w @ [r] else w_globalQueue w)"
  by (auto simp: room_jobs_def room_count_def PushJob_def JobQueue_Push_def jobCount_fetch_add_def jobs_push_def
      GlobalQueue_Push_def Let_def fun_eq_iff)

lemma PushJob_work:
  assumes "queues_inv busy w"
  shows "queues_inv busy (PushJob r j w)" "work (PushJob r j w) = work w + job_weight j"
proof -
  have fin: "finite {r. room_jobs w r \<noteq> []}" using assms by (simp add: queues_inv_def)
  note ch = work_change [OF fin PushJob_queues(1)]
  have zero: "room_count w r = 0 \<longleftrightarrow> room_jobs w r = [] \<and> map_option fst busy \<noteq> Some r"
    using assms by (cases busy) (auto simp: queues_inv_def split: if_splits)
  have "r \<notin> set (w_globalQueue w)" if "room_count w r = 0" using that zero assms by (simp add: queues_inv_def)
  then show "queues_inv busy (PushJob r j w)"
    using assms ch(1) zero unfolding queues_inv_def PushJob_queues by auto
  show "work (PushJob r j w) = work w + job_weight j" using ch(2) [of r j] by simp
qed

lemma run_job_work:
  assumes "run_job t r j w = Ok w'" "queues_inv busy w"
  shows "queues_inv busy w'" "work w' + 1 \<le> work w + job_weight j"
proof -
  have "1 \<le> job_weight j" by (cases j) simp_all
  with run_job_queues [OF assms(1)] assms(2)
  show "queues_inv busy w'" "work w' + 1 \<le> work w + job_weight j"
    by (auto simp: same_queues_inv PushJob_work)
qed

lemma run_jobs_work:
  assumes "run_jobs (run_job t r) js w = Ok w'" "queues_inv busy w"
  shows "queues_inv busy w' \<and> work w' + length js \<le> work w + sum_list (map job_weight js)"
  using assms
proof (induction js arbitrary: w)
  case (Cons j js)
  then obtain w1 where w1: "run_job t r j w = Ok w1" "run_jobs (run_job t r) js w1 = Ok w'" by (auto simp: res_iff)
  show ?case using Cons.IH [OF w1(2)] run_job_work [OF w1(1) Cons.prems(2)] by simp
qed simp

section \<open>One execution\<close>

lemma set_room_queues [simp]:
  "room_jobs (set_room r x w) = (room_jobs w)(r := jq_jobs x)"
  "room_count (set_room r x w) = (room_count w)(r := jq_jobCount x)"
  "w_globalQueue (set_room r x w) = w_globalQueue w"
  by (auto simp: room_jobs_def room_count_def set_room_def fun_eq_iff)

lemma set_global_queues [simp]:
  "room_jobs (set_global g w) = room_jobs w" "room_count (set_global g w) = room_count w"
  "w_globalQueue (set_global g w) = g" "w_rooms (set_global g w) = w_rooms w" "work (set_global g w) = work w"
  by (auto simp: room_jobs_def room_count_def set_global_def fun_eq_iff work_def)

lemma Room_Execute_work:
  assumes inv: "queues_inv None w" "w_globalQueue w = r # g" and run: "Room_Execute t r (set_global g w) = Ok w'"
  shows "queues_inv None w' \<and> work w' < work w \<and> work w' + length (take maxExecuteCount (room_jobs w r)) \<le> work w"
proof -
  let ?js = "take maxExecuteCount (room_jobs w r)" and ?w0 = "set_global g w"
  let ?x = "(w_rooms w r)\<lparr>jq_jobs := drop maxExecuteCount (jq_jobs (w_rooms w r))\<rparr>"
  let ?w1 = "set_room r ?x ?w0"
  have js: "room_jobs w r \<noteq> []" "r \<notin> set g" "distinct g" using inv by (auto simp: queues_inv_def)
  then have pos: "0 < length ?js" by (simp add: maxExecuteCount_def)
  have take: "Execute_take (w_rooms ?w0 r) = (?js, ?x)" by (simp add: Execute_take_eq room_jobs_def)
  then obtain w2 where w2: "run_jobs (run_job t r) ?js ?w1 = Ok w2"
    "w' = (if 0 < jq_jobCount (w_rooms w2 r) - int (length ?js)
       then set_global (w_globalQueue w2 @ [r])
         (set_room r ((w_rooms w2 r)\<lparr>jq_jobCount := jq_jobCount (w_rooms w2 r) - int (length ?js)\<rparr>) w2)
       else set_room r ((w_rooms w2 r)\<lparr>jq_jobCount := jq_jobCount (w_rooms w2 r) - int (length ?js)\<rparr>) w2)"
    using run by (auto simp: Room_Execute_def Let_def res_iff Execute_done_def GlobalQueue_Push_def)
  have jobs1: "room_jobs ?w1 = (room_jobs ?w0)(r := drop maxExecuteCount (room_jobs w r))"
    by (simp add: room_jobs_def fun_eq_iff)
  have fin: "finite {q. room_jobs ?w0 q \<noteq> []}" using inv(1) by (simp add: queues_inv_def)
  note ch = work_change [OF fin jobs1]
  have "sum_list (map job_weight (room_jobs w r)) =
      sum_list (map job_weight ?js) + sum_list (map job_weight (drop maxExecuteCount (room_jobs w r)))"
    by (metis append_take_drop_id map_append sum_list_append)
  then have w1: "work ?w1 + sum_list (map job_weight ?js) = work w" using ch(2) by simp
  have inv1: "queues_inv (Some (r, length ?js)) ?w1"
    using inv js ch(1) pos unfolding queues_inv_def by (auto simp: room_jobs_def room_count_def)
  have inv2: "queues_inv (Some (r, length ?js)) w2" "work w2 + length ?js \<le> work w"
    using run_jobs_work [OF w2(1) inv1] w1 by auto
  let ?y = "(w_rooms w2 r)\<lparr>jq_jobCount := jq_jobCount (w_rooms w2 r) - int (length ?js)\<rparr>"
  have count: "jq_jobCount ?y = int (length (room_jobs w2 r))"
    using inv2(1) by (simp add: queues_inv_def room_count_def)
  have pos_iff: "0 < jq_jobCount (w_rooms w2 r) - int (length ?js) \<longleftrightarrow> room_jobs w2 r \<noteq> []"
    using count by (simp del: length_take)
  have w': "w' = (if room_jobs w2 r \<noteq> [] then set_global (w_globalQueue w2 @ [r]) (set_room r ?y w2) else set_room r ?y w2)"
    using w2(2) unfolding pos_iff .
  have jobs': "room_jobs w' = room_jobs w2" by (simp add: w') (simp add: room_jobs_def fun_eq_iff)
  have "r \<notin> set (w_globalQueue w2)" using inv2(1) by (simp add: queues_inv_def)
  then have "queues_inv None w'"
    using inv2(1) count unfolding queues_inv_def jobs' by (auto simp: w')
  moreover have "work w' = work w2" by (simp add: work_def jobs')
  moreover have "work w2 < work w" using inv2(2) pos by linarith
  ultimately show ?thesis using inv2(2) by (simp del: length_take)
qed

section \<open>Jobs that do not fail\<close>

text \<open>
  Every thread can serialise, names and messages are short, and no room would have more than 100 members
  if it got \<open>k\<close> more.
\<close>

definition calm :: "nat \<Rightarrow> world \<Rightarrow> bool" where
  "calm k w \<longleftrightarrow> ready w \<and> (\<forall>s. length (GetPlayerName s w) \<le> 32) \<and>
     (\<forall>r. distinct (rm_members (w_rooms w r)) \<and> length (rm_members (w_rooms w r)) + k \<le> 100 \<and>
        length (rm_roomName (w_rooms w r)) \<le> 256 \<and> (\<forall>j \<in> set (room_jobs w r). job_ok j))"

lemma calm_mono: "calm k w \<Longrightarrow> l \<le> k \<Longrightarrow> calm l w"
  unfolding calm_def by (meson add_left_mono order_trans)

lemma calm_room_ok: "calm k w \<Longrightarrow> room_ok r k w"
  by (simp add: calm_def room_ok_def)

lemma calm_other [simp]: "calm k (set_global g w) = calm k w"
  by (simp add: calm_def GetPlayerName_def set_global_def room_jobs_def ready_def all_closed_def)

lemma calm_set_room:
  assumes "calm k w" "rm_members x = rm_members (w_rooms w r)" "rm_roomName x = rm_roomName (w_rooms w r)"
    "set (jq_jobs x) \<subseteq> set (room_jobs w r)"
  shows "calm k (set_room r x w)"
  using assms by (auto simp: calm_def GetPlayerName_def set_room_def room_jobs_def ready_def all_closed_def)

lemma same_rooms_out:
  "make_buffer t p w1 = Ok (sb, w2) \<Longrightarrow> w_rooms w2 = w_rooms w1"
  "w_rooms (Send sb s w) = w_rooms w" "w_rooms (Room_Broadcast r sb w) = w_rooms w"
proof -
  show "make_buffer t p w1 = Ok (sb, w2) \<Longrightarrow> w_rooms w2 = w_rooms w1" by (auto simp: make_buffer_def res_iff)
  show "w_rooms (Send sb s w) = w_rooms w" for s w by (cases sb) simp_all
  show "w_rooms (Room_Broadcast r sb w) = w_rooms w"
    using quiet_eqD(1) [OF fold_Send_other(2)] by (simp add: Room_Broadcast_def)
qed

lemma run_job_rooms:
  assumes "run_job t r j w = Ok w'"
  shows "rm_roomName (w_rooms w' q) = rm_roomName (w_rooms w q)"
    "q \<noteq> r \<Longrightarrow> rm_members (w_rooms w' q) = rm_members (w_rooms w q)"
proof -
  have leave: "w_rooms w1 = w_rooms (parted r s w)" if "Room_Leave t r (Some s) w = Ok w1" for s w1
    using that unfolding Room_Leave_def option.case Let_def parted_def [unfolded Let_def, symmetric]
    by (auto simp: res_iff same_rooms_out)
  have enter: "w_rooms w1 = w_rooms (joined r s w)" if "Room_Enter t r (Some s) w = Ok w1" for s w1
    using that by (auto simp: Room_Enter_def Let_def res_iff same_rooms_out simp flip: joined_def)
  have chat: "w_rooms w1 = w_rooms w" if "Room_HandleChat t r (Some s) m w = Ok w1" for s m w1
    using that by (auto simp: Room_HandleChat_def Let_def res_iff same_rooms_out)
  have "rm_roomName (w_rooms w' q) = rm_roomName (w_rooms w q) \<and>
      (q \<noteq> r \<longrightarrow> rm_members (w_rooms w' q) = rm_members (w_rooms w q))"
  proof (cases j)
    case (JobLeaveAndEnter x target)
    show ?thesis
    proof (cases x)
      case (Some s)
      then obtain w1 where w1: "Room_Leave t r (Some s) w = Ok w1"
        "w' = (case target of None \<Rightarrow> w1 | Some q \<Rightarrow> PushJob q (JobEnter (Some s)) w1)"
        using assms JobLeaveAndEnter by (auto simp: Room_LeaveAndEnter_def res_iff)
      then show ?thesis using leave [OF w1(1)] by (cases target) auto
    qed (use assms JobLeaveAndEnter in \<open>simp add: Room_LeaveAndEnter_def\<close>)
  next
    case (JobEnter x)
    then show ?thesis using assms enter [of _ w'] by (cases x) (simp_all add: Room_Enter_def)
  next
    case (JobLeave x)
    then show ?thesis using assms leave [of _ w'] by (cases x) (simp_all add: Room_Leave_def)
  next
    case (JobHandleChat x m)
    then show ?thesis using assms chat [of _ m w'] by (cases x) (simp_all add: Room_HandleChat_def)
  qed
  then show "rm_roomName (w_rooms w' q) = rm_roomName (w_rooms w q)"
    "q \<noteq> r \<Longrightarrow> rm_members (w_rooms w' q) = rm_members (w_rooms w q)" by simp_all
qed

lemma run_job_calm:
  assumes "calm (Suc k) w" "job_ok j"
  obtains w' where "run_job t r j w = Ok w'" "calm k w'"
proof -
  obtain w' where w': "run_job t r j w = Ok w'" "room_ok r k w'" "\<And>s. GetPlayerName s w' = GetPlayerName s w"
    by (rule run_job_spec [OF calm_room_ok [OF assms(1)] assms(2), where t = t]) blast
  have "\<forall>i \<in> set (room_jobs w' q). job_ok i" for q
    using run_job_queues [OF w'(1)] assms(1) by (auto simp: calm_def same_queues_def PushJob_queues(1) split: if_splits)
  moreover have "distinct (rm_members (w_rooms w' q)) \<and> length (rm_members (w_rooms w' q)) + k \<le> 100" for q
    using w'(2) run_job_rooms(2) [OF w'(1), of q] calm_mono [OF assms(1), of k]
    by (cases "q = r") (simp_all add: calm_def room_ok_def)
  ultimately have "calm k w'"
    using assms(1) w'(2,3) run_job_rooms(1) [OF w'(1)] unfolding calm_def room_ok_def by simp
  with w'(1) show thesis by (rule that)
qed

lemma run_jobs_calm:
  assumes "calm (k + length js) w" "\<forall>j \<in> set js. job_ok j"
  shows "\<exists>w'. run_jobs (run_job t r) js w = Ok w' \<and> calm k w'"
  using assms
proof (induction js arbitrary: w)
  case (Cons j js)
  then obtain w1 where "run_job t r j w = Ok w1" "calm (k + length js) w1"
    using run_job_calm [of "k + length js" w j t r] by auto
  then show ?case using Cons.IH [of w1] Cons.prems(2) by auto
qed simp

lemma Room_Execute_calm:
  assumes inv: "queues_inv None w" "w_globalQueue w = r # g" and calm: "calm (work w) w"
  obtains w' where "Room_Execute t r (set_global g w) = Ok w'" "calm (work w') w'"
proof -
  let ?js = "take maxExecuteCount (room_jobs w r)" and ?w0 = "set_global g w"
  let ?x = "(w_rooms w r)\<lparr>jq_jobs := drop maxExecuteCount (jq_jobs (w_rooms w r))\<rparr>"
  have "calm (work w) (set_room r ?x ?w0)"
    using calm by (intro calm_set_room) (auto simp: room_jobs_def dest: in_set_dropD)
  moreover have "\<forall>j \<in> set ?js. job_ok j" using calm by (auto simp: calm_def dest: in_set_takeD)
  moreover have "length ?js \<le> work w"
  proof -
    have "length js \<le> sum_list (map job_weight js)" for js
    proof (induction js)
      case (Cons j js)
      then show ?case by (cases j) simp_all
    qed simp
    then have "length (room_jobs w r) \<le> sum_list (map job_weight (room_jobs w r))" .
    moreover have "room_jobs (set_room r ((w_rooms w r)\<lparr>jq_jobs := []\<rparr>) w) = (room_jobs w)(r := [])" by simp
    then have "sum_list (map job_weight (room_jobs w r)) \<le> work w"
      using work_change(2) [of w _ r "[]"] inv(1) by (fastforce simp: queues_inv_def)
    moreover have "length ?js \<le> length (room_jobs w r)" by simp
    ultimately show ?thesis by linarith
  qed
  ultimately obtain w2 where w2: "run_jobs (run_job t r) ?js (set_room r ?x ?w0) = Ok w2" "calm (work w - length ?js) w2"
    using run_jobs_calm [of "work w - length ?js" ?js "set_room r ?x ?w0" t r] by auto
  let ?y = "(w_rooms w2 r)\<lparr>jq_jobCount := jq_jobCount (w_rooms w2 r) - int (length ?js)\<rparr>"
  have take: "Execute_take (w_rooms ?w0 r) = (?js, ?x)" by (simp add: Execute_take_eq room_jobs_def)
  obtain w' where run: "Room_Execute t r ?w0 = Ok w'"
    "w' = set_room r ?y w2 \<or> w' = set_global (GlobalQueue_Push r (w_globalQueue w2)) (set_room r ?y w2)"
    using take w2(1) by (simp add: Room_Execute_def Let_def Execute_done_def del: length_take) 
  have "calm (work w - length ?js) (set_room r ?y w2)"
    using w2(2) by (intro calm_set_room) (auto simp: room_jobs_def)
  then have "calm (work w - length ?js) w'" using run(2) by auto
  moreover have "work w' \<le> work w - length ?js" using Room_Execute_work [OF inv run(1)] by linarith
  ultimately show thesis using that run(1) calm_mono by blast
qed

section \<open>Property\<close>

text \<open>
  C20: A worker that drains the queues comes to an end, and leaves nothing behind. When every queue that holds jobs
  is in the global queue once and its counter agrees, the inner loop of a worker ends after at most as many turns
  as there are jobs, moves to another room counted twice: it ends in an error of a job, or with the global
  queue and the queues of all rooms empty and all counters at zero, also those to which the jobs themselves pushed.
  And no job fails when the threads can serialise, names have up to 32 bytes, messages up to 4000, and no room
  would have more than 100 members if all the jobs were entries to it.
\<close>

theorem worker_loop_drains:
  assumes "queues_inv None w" "work w < n"
  shows "\<exists>res. worker_loop t n w = Some res \<and>
    (\<forall>w'. res = Ok w' \<longrightarrow> w_globalQueue w' = [] \<and> (\<forall>r. jq_jobs (w_rooms w' r) = [] \<and> jq_jobCount (w_rooms w' r) = 0)) \<and>
    (calm (work w) w \<longrightarrow> returns res)"
  using assms
proof (induction n arbitrary: w)
  case (Suc n)
  show ?case
  proof (cases "w_globalQueue w")
    case Nil
    have "room_jobs w r = [] \<and> room_count w r = 0" for r using Suc.prems(1) Nil by (auto simp: queues_inv_def)
    then show ?thesis using Nil by (simp add: GlobalQueue_Pop_def room_jobs_def room_count_def)
  next
    case (Cons r g)
    have calm: "\<exists>w'. Room_Execute t r (set_global g w) = Ok w' \<and> calm (work w') w'" if "calm (work w) w"
      by (rule Room_Execute_calm [OF Suc.prems(1) Cons that, of t]) blast
    show ?thesis
    proof (cases "Room_Execute t r (set_global g w)")
      case (Inr w1)
      then have "queues_inv None w1" "work w1 < n"
        using Room_Execute_work [OF Suc.prems(1) Cons Inr] Suc.prems(2) by simp_all
      from Suc.IH [OF this] show ?thesis using Cons Inr calm by (auto simp: GlobalQueue_Pop_def)
    qed (use Cons calm in \<open>auto simp: GlobalQueue_Pop_def\<close>)
  qed
qed simp

theorem worker_loop_drains_witness:
  "\<exists>w'. worker_loop 0 3 (PushJob 0 (JobLeaveAndEnter (Some 5) (Some 1)) (world_start (\<lambda>_. ClientSession_new 0 [] 0))) = Some (Ok w') \<and>
    w_globalQueue w' = [] \<and> (\<forall>r. jq_jobs (w_rooms w' r) = [] \<and> jq_jobCount (w_rooms w' r) = 0)"
proof -
  let ?w = "world_start (\<lambda>_. ClientSession_new 0 [] 0)"
  let ?v = "PushJob 0 (JobLeaveAndEnter (Some 5) (Some 1)) ?w"
  have w: "queues_inv None ?w" "work ?w = 0"
    by (simp_all add: queues_inv_def work_def room_jobs_def room_count_def world_start_def Room_new_def)
  have v: "queues_inv None ?v" "work ?v = 2"
    using PushJob_work [OF w(1), of 0 "JobLeaveAndEnter (Some 5) (Some 1)"] w(2) by simp_all
  have "ready ?w"
    using sb_inv_start sb_idle_start by (simp add: ready_def all_closed_def world_start_def ClientSession_new_def)
  then have "calm 2 ?v"
    by (auto simp: calm_def PushJob_queues(1)) (auto simp: world_start_def GetPlayerName_def ClientSession_new_def Room_new_def room_jobs_def)
  then show ?thesis
    using worker_loop_drains [OF v(1), of 3 0] v(2) by (auto simp: returns_iff)
qed

end
