(* ===== verification/EngineTest.thy ===== *)
theory EngineTest
  imports Worker Monitoring DummyClient RingBuffer
begin

text \<open>
  \<^verbatim>\<open>EngineTest/Main.cpp\<close>: the program's own tests that use one thread and no socket, as definitions over the
  model of what they test. A failing \<open>assert\<close> is a fault, so that a test passes if it returns; what a test
  takes from the outside, the contents of fresh memory, the clock and the buffers made before it, is an
  argument.
\<close>

section \<open>Test 2\<close>

definition test_message :: "byte list" where
  "test_message = map byte_of_char ''Hello IOCP Ring Buffer!''"

definition wrap_data :: "byte list" where
  "wrap_data = map (\<lambda>i. byte_of_char CHR ''0'' + of_nat (i mod 10)) [0..<50]"

text \<open>The wrapped write and the spans; \<open>None\<close> is an entry that was not written.\<close>

definition test_spans :: "ring_buffer \<Rightarrow> unit res" where
  "test_spans rb =
     res_bind (RingBuffer_Write wrap_data 50 rb) (\<lambda>(ok, rb).
     assert_crash ok (assert_crash (GetDataSize rb = 50) (
     case GetReadSpan rb 50 of
       (spanCount, Some s0, Some s1) \<Rightarrow>
         assert_crash (spanCount = 2) (assert_crash (wb_len s0 = 28) (assert_crash (wb_len s1 = 22) (
         res_bind (mem_read (rb_buffer rb) (wb_off s0) (wb_len s0)) (\<lambda>d0.
         res_bind (mem_read (rb_buffer rb) (wb_off s1) (wb_len s1)) (\<lambda>d1.
         assert_crash (d0 @ d1 = wrap_data) (
         let (_, rb) = MoveReadPos 50 rb in assert_crash (GetDataSize rb = 0) (Ok ())))))))
     | _ \<Rightarrow> Crash AssertCrash)))"

definition TestRingBuffer :: "byte list \<Rightarrow> unit res" where
  "TestRingBuffer mem =
     res_bind (RingBuffer_new mem 128) (\<lambda>rb.
     assert_crash (rb_capacity rb = 128) (assert_crash (GetDataSize rb = 0) (assert_crash (GetFreeSize rb = 127) (
     let len1 = int (length test_message) in
     res_bind (RingBuffer_Write test_message len1 rb) (\<lambda>(ok, rb).
     assert_crash ok (assert_crash (GetDataSize rb = len1) (
     res_bind (RingBuffer_Peek len1 rb) (\<lambda>d.
     assert_crash (d = Some test_message) (assert_crash (GetDataSize rb = len1) (
     res_bind (RingBuffer_Read len1 rb) (\<lambda>(d, rb).
     assert_crash (d = Some test_message) (assert_crash (GetDataSize rb = 0) (
     let rb = RingBuffer_Clear rb in
     res_bind (RingBuffer_Write (replicate 100 (byte_of_char CHR ''A'')) 100 rb) (\<lambda>(_, rb).
     res_bind (RingBuffer_Read 100 rb) (\<lambda>(_, rb).
     test_spans rb)))))))))))))))"

section \<open>Test 3\<close>

definition packetMsg :: "byte list" where
  "packetMsg = map byte_of_char ''CHAT_MSG: High Performance Game Server Portfolio'' @ [0]"

text \<open>The references to a buffer among those there are.\<close>

definition use_count :: "send_buffer \<Rightarrow> send_buffer option list \<Rightarrow> nat" where
  "use_count sb refs = count_list refs (Some sb)"

definition TestSendBuffer :: "nat \<Rightarrow> sb_state \<Rightarrow> (send_buffer \<times> sb_state) res" where
  "TestSendBuffer t b =
     res_bind (SendBufferManager_Open t 128 b) (\<lambda>(sb, b).
     case sb of None \<Rightarrow> Crash NullDeref
     | Some sb \<Rightarrow>
       res_bind (mem_write (sb_block b sb) 0 packetMsg) (\<lambda>d.
       res_bind (SendBufferManager_Close sb (int (length packetMsg)) (sb_store sb d b)) (\<lambda>(sb, b).
       let sessionQueues = fold (\<lambda>i qs. qs[i := Some sb]) [0..<1000] (replicate 1000 None) in
       assert_crash (use_count sb (Some sb # sessionQueues) = 1001) (
       let sessionQueues = fold (\<lambda>i qs. qs[i := None]) [0..<1000] sessionQueues in
       assert_crash (use_count sb (Some sb # sessionQueues) = 1) (Ok (sb, b))))))"

section \<open>Test 7\<close>

definition test_server_dispatch :: "nat \<Rightarrow> (nat \<Rightarrow> uint64) \<Rightarrow> uint64 \<Rightarrow> session_ref \<Rightarrow> world \<Rightarrow> world res" where
  "test_server_dispatch t clock tick mockSession w =
     res_bind (make_buffer t (Pkt_C_LOGIN \<lparr>C_LOGIN_name = ''GameArchitect''\<rparr>) w) (\<lambda>(sb, w).
     case sb of None \<Rightarrow> Crash AssertCrash
     | Some sb \<Rightarrow>
       let w = upd_client mockSession (\<lambda>_. ClientSession_new tick [] 0) w in
       res_bind (ServerPacketHandler_HandlePacket (handle_packet t clock (Some mockSession))
         (sb_bytes (w_sendBuffers w) sb) (sb_writeSize sb) w) (\<lambda>(dispatched, w).
       assert_crash dispatched (assert_crash (GetPlayerName mockSession w = ''GameArchitect'') (Ok w))))"

text \<open>The handlers are those of the bots, with a null session; \<open>d\<close> is their state.\<close>

definition test_client_dispatch :: "nat \<Rightarrow> packet \<Rightarrow> dummy_world \<Rightarrow> world \<Rightarrow> (dummy_world \<times> world) res" where
  "test_client_dispatch t pkt d w =
     res_bind (make_buffer t pkt w) (\<lambda>(sb, w).
     case sb of None \<Rightarrow> Crash AssertCrash
     | Some sb \<Rightarrow>
       res_bind (ClientPacketHandler_HandlePacket (handle_bot t 0 0 None)
         (sb_bytes (w_sendBuffers w) sb) (sb_writeSize sb) d) (\<lambda>(dispatched, d).
       assert_crash dispatched (Ok (d, w))))"

definition test_enter_room :: packet where
  "test_enter_room = Pkt_S_ENTER_ROOM \<lparr>S_ENTER_ROOM_success = True, S_ENTER_ROOM_roomId = 77,
     S_ENTER_ROOM_roomName = ''Lobby'', S_ENTER_ROOM_members = [\<lparr>MembersInfo_name = ''Alice''\<rparr>,
       \<lparr>MembersInfo_name = ''Bob''\<rparr>, \<lparr>MembersInfo_name = ''Charlie''\<rparr>]\<rparr>"

definition test_room_list :: packet where
  "test_room_list = Pkt_S_ROOM_LIST \<lparr>S_ROOM_LIST_rooms =
     [\<lparr>RoomsInfo_roomId = 1, RoomsInfo_roomName = ''Rookie Channel'', RoomsInfo_userCount = 15\<rparr>,
      \<lparr>RoomsInfo_roomId = 2, RoomsInfo_roomName = ''Pro Channel'', RoomsInfo_userCount = 42\<rparr>]\<rparr>"

definition TestPacketGenerator ::
    "nat \<Rightarrow> (nat \<Rightarrow> uint64) \<Rightarrow> uint64 \<Rightarrow> session_ref \<Rightarrow> dummy_world \<Rightarrow> world \<Rightarrow> (dummy_world \<times> world) res" where
  "TestPacketGenerator t clock tick mockSession d w =
     res_bind (test_server_dispatch t clock tick mockSession w) (\<lambda>w.
     res_bind (test_client_dispatch t test_enter_room d w) (\<lambda>(d, w).
     test_client_dispatch t test_room_list d w))"

section \<open>Test 9\<close>

definition TestMonitoringAndLogging ::
    "(real \<Rightarrow> real) \<Rightarrow> uint64 \<Rightarrow> uint64 \<Rightarrow> uint64 \<Rightarrow> uint64 \<Rightarrow> world \<Rightarrow> (string \<times> world) res" where
  "TestMonitoringAndLogging fl startTick uptimeTick rateTick tick w =
     (let st = OnSessionConnected (OnSessionConnected (ServerStats_Init startTick)) in
      assert_crash (st_currentCcu st = 2) (assert_crash (st_totalAccepted st = 2) (
      let st = OnPacketReceived 256 (OnPacketReceived 128 st) in
      assert_crash (server_stats.st_totalRecvPackets st = 2) (assert_crash (st_totalRecvBytes st = 384) (
      let st = OnPacketSent 512 st in
      assert_crash (st_totalSendBytes st = 512) (
      let st = OnSessionDisconnected st in
      assert_crash (st_currentCcu st = 1) (assert_crash (st_totalAccepted st = 2) (
      assert_crash (length (GetFormattedUptime uptimeTick st) = 8) (
      Render fl rateTick tick 7777 (Some (Service_new 1000)) (w\<lparr>w_stats := st\<rparr>))))))))))"

section \<open>They pass\<close>

lemma ring_buffer_test: "TestRingBuffer (replicate 128 0) = Ok ()"
  by code_simp

text \<open>The buffer is shared by a thousand queues and still holds the message.\<close>

lemma fill_all: "length qs = n \<Longrightarrow> fold (\<lambda>i qs. qs[i := v]) [0..<n] qs = replicate n v"
proof -
  have "fold (\<lambda>i qs. qs[i := v]) [0..<m] qs = replicate m v @ drop m qs" if "m \<le> length qs" for m
    using that
  proof (induction m)
    case (Suc m)
    then have "drop m qs = qs ! m # drop (Suc m) qs" by (simp add: Cons_nth_drop_Suc)
    then show ?case using Suc by (simp add: list_update_append replicate_append_same [symmetric])
  qed simp
  then show "length qs = n \<Longrightarrow> fold (\<lambda>i qs. qs[i := v]) [0..<n] qs = replicate n v" by simp
qed

lemma count_list_replicate: "count_list (replicate n x) y = (if x = y then n else 0)"
  by (induction n) auto

theorem send_buffer_test:
  assumes "sb_inv b" "sb_idle b t"
  shows "\<exists>sb b'. TestSendBuffer t b = Ok (sb, b') \<and> sb_inv b' \<and> sb_frame t b b' \<and> sb_closed b' sb \<and> sb_bytes b' sb = packetMsg"
proof -
  have idle: "\<not> ck_open (sb_chunks b c)" if "LSendBufferChunk b t = Some c" for c
    using assms(2) that by (simp add: sb_idle_def)
  obtain sb b1 where o: "SendBufferManager_Open t 128 b = Ok (Some sb, b1)" "sb_inv b1" "sb_held b1 t sb" "sb_allocSize sb = 128"
      "sb_frame t b b1"
    by (rule SendBufferManager_Open_ok [OF assms(1), of 128 t]) (use idle in \<open>auto simp: CHUNK_SIZE_def\<close>)
  have msg: "length packetMsg = 49" by (simp add: packetMsg_def)
  have d: "length (sb_block b1 sb) = 128" using sb_block_length [OF o(2,3)] o(4) by simp
  then obtain d' where d': "mem_write (sb_block b1 sb) 0 packetMsg = Ok d'" "length d' = 128" "take 49 d' = packetMsg"
    using msg by (simp add: mem_write_def patch_def)
  have "length d' = nat (sb_allocSize sb)" using d'(2) o(4) by simp
  note st = sb_store_ok [OF o(2,3) this]
  obtain b2 where c: "SendBufferManager_Close sb 49 (sb_store sb d' b1) = Ok (sb\<lparr>sb_writeSize := 49\<rparr>, b2)" "sb_inv b2"
      "sb_frame t (sb_store sb d' b1) b2" "sb_closed b2 (sb\<lparr>sb_writeSize := 49\<rparr>)"
      "sb_bytes b2 (sb\<lparr>sb_writeSize := 49\<rparr>) = take (nat 49) (sb_block (sb_store sb d' b1) sb)"
    by (rule SendBufferManager_Close_ok [OF st(1,2), of 49]) (use o(4) in auto)
  have "TestSendBuffer t b = Ok (sb\<lparr>sb_writeSize := 49\<rparr>, b2)"
    using o(1) d'(1) c(1) msg by (simp add: TestSendBuffer_def fill_all use_count_def count_list_replicate Let_def)
  moreover have "sb_frame t b b2" using sb_frame_trans [OF sb_frame_trans [OF o(5) st(3)] c(3)] .
  ultimately show ?thesis using c(2,4,5) st(4) d'(3) by auto
qed

text \<open>A packet made and dispatched.\<close>

lemma made_packet:
  assumes "ready w" "packet_size p \<le> 4096"
  obtains sb w1 where "make_buffer t p w = Ok (Some sb, w1)" "ready w1" "sb_bytes (w_sendBuffers w1) sb = packet_bytes p"
    "sb_writeSize sb = int (packet_size p)"
proof -
  have inv: "sb_inv (w_sendBuffers w)" "sb_idle (w_sendBuffers w) t" using assms(1) by (simp_all add: ready_def)
  obtain sb s where m: "MakeSendBuffer_packet t p (w_sendBuffers w) = Ok (Some sb, s)" "sb_inv s"
      "sb_closed s sb" "sb_bytes s sb = packet_bytes p"
    by (rule MakeSendBuffer_packet_ok [OF inv assms(2)])
  obtain sb' w1 where o: "make_buffer t p w = Ok (Some sb', w1)" "tells w (\<lambda>_. []) w1"
    using make_ok [OF assms] by metis
  then have "sb' = sb" "w_sendBuffers w1 = s" using m(1) by (auto simp: make_buffer_def)
  then show thesis
    using that o m length_sb_bytes [OF m(2,3)] by (simp add: tells_def)
qed

lemma client_test:
  assumes "ready w" "packet_size p \<le> 4096" "dom_packet p" "\<not> to_server p"
  shows "\<exists>w'. test_client_dispatch t p d w = Ok (d, w') \<and> ready w'"
proof -
  obtain sb w1 where m: "make_buffer t p w = Ok (Some sb, w1)" "ready w1"
      "sb_bytes (w_sendBuffers w1) sb = packet_bytes p" "sb_writeSize sb = int (packet_size p)"
    by (rule made_packet [OF assms(1,2)])
  have "handle_bot t 0 0 None p d = Ok (True, d)"
    by (cases p) (simp_all add: Bot_S_LOGIN_def Bot_S_ENTER_ROOM_def Bot_S_LEAVE_ROOM_def Bot_S_ROOM_CHAT_def)
  then show ?thesis
    using m client_dispatch_read [of p "packet_bytes p" "handle_bot t 0 0 None" d] assms
    by (simp add: test_client_dispatch_def)
qed

lemma server_test:
  assumes "ready w" "cs_sends (w_clients w mockSession) = []"
  shows "\<exists>w'. test_server_dispatch t clock tick mockSession w = Ok w' \<and> ready w'"
proof -
  let ?p = "Pkt_C_LOGIN \<lparr>C_LOGIN_name = ''GameArchitect''\<rparr>"
  have p: "packet_size ?p \<le> 4096" "dom_packet ?p" "to_server ?p"
    by (simp_all add: packet_size_def enc_C_LOGIN_def dom_C_LOGIN_def length_enc_string)
  obtain sb w1 where m: "make_buffer t ?p w = Ok (Some sb, w1)" "ready w1"
      "sb_bytes (w_sendBuffers w1) sb = packet_bytes ?p" "sb_writeSize sb = int (packet_size ?p)"
    by (rule made_packet [OF assms(1) p(1)])
  have "w_clients w1 = w_clients w" using m(1) by (auto simp: make_buffer_def res_iff)
  define w2 where "w2 = upd_client mockSession (\<lambda>_. ClientSession_new tick [] 0) w1"
  have "cs_sends (w_clients w2 s) = cs_sends (w_clients w1 s)" for s
    using assms(2) \<open>w_clients w1 = w_clients w\<close> by (simp add: w2_def ClientSession_new_def)
  then have w2: "ready w2" using m(2) ready_cong(1) [of w2 w1] by (simp add: w2_def)
  define w3 where "w3 = SetPlayerInfo (w_playerIdGenerator w2) ''GameArchitect'' mockSession
    (w2\<lparr>w_playerIdGenerator := w_playerIdGenerator w2 + 1\<rparr>)"
  have w3: "ready w3" using w2 ready_cong(1) [of w3 w2] by (simp add: w3_def SetPlayerInfo_def)
  let ?r = "Pkt_S_LOGIN \<lparr>S_LOGIN_success = True, S_LOGIN_playerId = w_playerIdGenerator w2, S_LOGIN_name = ''GameArchitect'',
    S_LOGIN_message = ''Welcome to High-Performance IOCP Chat Server!''\<rparr>"
  have "packet_size ?r \<le> 4096" by (simp add: packet_size_def enc_S_LOGIN_def length_enc_string enc_bool_def)
  then obtain sb' w4 where m4: "make_buffer t ?r w3 = Ok (Some sb', w4)"
      "\<And>ss. distinct ss \<Longrightarrow> tells w3 (\<lambda>u. if u \<in> set ss then [?r] else []) (fold (Send (Some sb')) ss w4)"
    using make_ok [OF w3, of ?r t] by blast
  then have w4: "make_buffer t ?r w3 = Ok (Some sb', w4)"
      "tells w3 (\<lambda>u. if u \<in> {mockSession} then [?r] else []) (Send (Some sb') mockSession w4)"
    using m4(2) [of "[mockSession]"] by simp_all
  have name: "GetPlayerName mockSession (Send (Some sb') mockSession w4) = ''GameArchitect''"
    using GetPlayerName_tells [OF w4(2), of mockSession] by (simp add: w3_def GetPlayerName_def SetPlayerInfo_def)
  have "handle_packet t clock (Some mockSession) ?p w2 = Ok (True, Send (Some sb') mockSession w4)"
    using w4(1) by (simp add: Handle_C_LOGIN_def Let_def w3_def)
  then have "test_server_dispatch t clock tick mockSession w = Ok (Send (Some sb') mockSession w4)"
    using m(1,3,4) name server_dispatch_read [of ?p "packet_bytes ?p" "handle_packet t clock (Some mockSession)" w2] p
    by (simp add: test_server_dispatch_def Let_def w2_def)
  then show ?thesis using w4(2) by (simp add: tells_def)
qed

lemma small_uptime:
  assumes "(uptimeTick :: uint64) - startTick < 500" "st_startTime st = startTick"
  shows "length (GetFormattedUptime uptimeTick st) = 8"
proof -
  have "unat (uptimeTick - startTick) < 500" using assms(1) by (simp add: word_less_nat_alt)
  then have "(uptimeTick - startTick) div 1000 = 0"
    by (simp add: word_unat_eq_iff unat_div_distrib)
  then have "GetUptimeSeconds uptimeTick st = 0" using assms(2) by (simp add: GetUptimeSeconds_def)
  moreover have "length (setw2 0) = 2" by (simp add: setw2_def decimal.simps)
  ultimately show ?thesis by (simp add: GetFormattedUptime_def)
qed

text \<open>
  The program's own tests, on the model. The test of the ring buffer, with its wrapped write and the two
  spans, passes. The test of the generated packets passes in every state in which the threads can serialise,
  with the handlers of the server and of the bots. The test of the counters and the dashboard passes when less
  than half a second goes by between its calls.
\<close>

theorem engine_tests_pass:
  assumes "ready w" "cs_sends (w_clients w mockSession) = []" "uptimeTick - startTick < 500" "rateTick - startTick < 500"
  shows "TestRingBuffer (replicate 128 0) = Ok () \<and> returns (TestPacketGenerator t clock tick mockSession d w) \<and>
    returns (TestMonitoringAndLogging fl startTick uptimeTick rateTick tick w)"
proof (intro conjI)
  show "TestRingBuffer (replicate 128 0) = Ok ()" by (rule ring_buffer_test)
  obtain w1 where w1: "test_server_dispatch t clock tick mockSession w = Ok w1" "ready w1"
    using server_test [OF assms(1,2)] by blast
  have p: "packet_size p \<le> 4096" "dom_packet p" "\<not> to_server p" if "p \<in> {test_enter_room, test_room_list}" for p
    using that by (auto simp: test_enter_room_def test_room_list_def packet_size_def enc_S_ENTER_ROOM_def enc_S_ROOM_LIST_def
        enc_counted_def enc_MembersInfo_def enc_RoomsInfo_def length_enc_string dom_S_ENTER_ROOM_def dom_MembersInfo_def
        dom_S_ROOM_LIST_def dom_RoomsInfo_def)
  obtain w2 where w2: "test_client_dispatch t test_enter_room d w1 = Ok (d, w2)" "ready w2"
    using client_test [OF w1(2) p] by blast
  obtain w3 where "test_client_dispatch t test_room_list d w2 = Ok (d, w3)"
    using client_test [OF w2(2) p] by blast
  then show "returns (TestPacketGenerator t clock tick mockSession d w)"
    using w1(1) w2(1) by (simp add: TestPacketGenerator_def)
  show "returns (TestMonitoringAndLogging fl startTick uptimeTick rateTick tick w)"
    using assms(3,4) small_uptime
    by (simp add: TestMonitoringAndLogging_def OnSessionConnected_def OnPacketReceived_def OnPacketSent_def
        OnSessionDisconnected_def to_int32_def ServerStats_Init_def Render_def UpdateRates_def Let_def)
qed

theorem engine_tests_pass_witness:
  "returns (TestPacketGenerator 0 (\<lambda>_. 5000) 5000 1 (bot_world (DummySession_new Normal 1)) served_world) \<and>
   returns (TestMonitoringAndLogging (\<lambda>x. x) 5000 5010 5020 5000 served_world)"
proof -
  have "cs_sends (w_clients served_world 1) = []"
    by (simp add: served_world_def room_world_def world_start_def ClientSession_new_def)
  then show ?thesis
    using engine_tests_pass [of served_world 1 5010 5000 5020 0 "\<lambda>_. 5000" 5000 "bot_world (DummySession_new Normal 1)" "\<lambda>x. x"]
    by simp
qed

end
