(* ===== verification/Connection.thy ===== *)
theory Connection
  imports SessionSend SessionRecv ClientSession
begin

text \<open>
  A whole connection: the send side of one session (\<open>SessionSend\<close>), the bytes on their way, and the receive
  side of the session at the other end (\<open>SessionRecv\<close>). The buffers that are sent hold packets, as
  \<open>MakeSendBuffer\<close> makes them: \<open>pkt sb\<close> is the packet in \<open>sb\<close>. The system delivers what was transmitted, in order,
  in pieces of its choice. The receiver is of any class derived from \<open>PacketSession\<close>: \<open>hook\<close> is its
  \<open>OnRecvPacket\<close>, and what is shown is the bytes it is called with; what it does with them (the server's rate limit,
  its dispatcher) is the matter of \<open>ClientSession\<close>. The section at the end puts the server's in place.
\<close>

section \<open>The steps\<close>

text \<open>\<open>cn_seen\<close>: the calls of the receiver's \<open>OnRecvPacket\<close> so far.\<close>

record 'c connection =
  cn_sender :: send_run
  cn_taken :: nat
  cn_receiver :: session
  cn_seen :: "byte list list"
  cn_state :: 'c

text \<open>The \<open>OnRecvPacket\<close> of the receiver, and a record of what it is called with.\<close>

definition recorded :: "'c recv_hook \<Rightarrow> (byte list list \<times> 'c) recv_hook" where
  "recorded hook b n = (\<lambda>(s, seen, c). res_bind (hook b n (s, c)) (\<lambda>(s', c'). Ok (s', seen @ [b], c')))"

text \<open>What is delivered, and the completion of the receive that takes it; \<open>b\<close> is the ring's array after it.\<close>

definition delivery :: "'c connection \<Rightarrow> byte list \<Rightarrow> byte list \<Rightarrow> bool" where
  "delivery x d b \<longleftrightarrow> ss_recvOwner (cn_receiver x) \<and> recv_filled (ss_recvBuffer (cn_receiver x)) d b \<and>
     prefix d (drop (cn_taken x) (sr_wire (cn_sender x)))"

definition delivered ::
    "'c recv_hook \<Rightarrow> os_result \<Rightarrow> os_result \<Rightarrow> 'c connection \<Rightarrow> byte list \<Rightarrow> byte list \<Rightarrow>
     (session \<times> byte list list \<times> 'c) res" where
  "delivered hook r dd x d b =
     ProcessRecv (OnRecv (recorded hook)) (int (length d)) r dd
       ((cn_receiver x)\<lparr>ss_recvBuffer := (ss_recvBuffer (cn_receiver x))\<lparr>rb_buffer := b\<rparr>\<rparr>, cn_seen x, cn_state x)"

text \<open>\<open>other\<close> is what the rest of the receiving program does: its own sends on the session, a disconnect.\<close>

inductive conn_step ::
    "(send_buffer \<Rightarrow> packet) \<Rightarrow> 'c recv_hook \<Rightarrow> 'c connection \<Rightarrow> 'c connection \<Rightarrow> bool" for pkt hook where
  send: "ss_step (\<lambda>sb. packet_bytes (pkt sb)) (cn_sender x) r \<Longrightarrow> conn_step pkt hook x (x\<lparr>cn_sender := r\<rparr>)"
| deliver: "delivery x d b \<Longrightarrow> delivered hook r dd x d b = Ok (s', seen', c') \<Longrightarrow>
    conn_step pkt hook x
      (x\<lparr>cn_taken := cn_taken x + length d, cn_receiver := s', cn_seen := seen', cn_state := c'\<rparr>)"
| other: "ss_recvBuffer s' = ss_recvBuffer (cn_receiver x) \<Longrightarrow> ss_recvOwner s' = ss_recvOwner (cn_receiver x) \<Longrightarrow>
    conn_step pkt hook x (x\<lparr>cn_receiver := s', cn_state := c'\<rparr>)"

text \<open>Two sessions that have just been connected; the receiver's ring is empty.\<close>

definition conn_start :: "'c connection \<Rightarrow> bool" where
  "conn_start x \<longleftrightarrow> (\<exists>s0. send_start s0 \<and> cn_sender x = run_start s0) \<and> cn_taken x = 0 \<and> cn_seen x = [] \<and>
     rb_inv (ss_recvBuffer (cn_receiver x)) \<and> rb_contents (ss_recvBuffer (cn_receiver x)) = [] \<and>
     rb_capacity (ss_recvBuffer (cn_receiver x)) \<le> 2147483647"

abbreviation conn_reach ::
    "(send_buffer \<Rightarrow> packet) \<Rightarrow> 'c recv_hook \<Rightarrow> 'c connection \<Rightarrow> 'c connection \<Rightarrow> bool" where
  "conn_reach pkt hook \<equiv> (conn_step pkt hook)\<^sup>*\<^sup>*"

section \<open>Streams of packets\<close>

abbreviation stream :: "packet list \<Rightarrow> byte list" where
  "stream ps \<equiv> concat (map packet_bytes ps)"

text \<open>\<open>part\<close> is the beginning of what comes next, and no packet of it is complete.\<close>

fun incomplete :: "byte list \<Rightarrow> packet list \<Rightarrow> bool" where
  "incomplete part [] \<longleftrightarrow> part = []"
| "incomplete part (p # ps) \<longleftrightarrow> length part < packet_size p \<and> prefix part (packet_bytes p)"

lemma incomplete_append: "incomplete part ps \<Longrightarrow> incomplete part (ps @ qs)"
  by (cases ps; cases qs) (auto simp: packet_size_def)

lemma incomplete_frames:
  assumes "incomplete part ps" "\<forall>p \<in> set ps. packet_size p \<le> 65535"
  shows "frames part = ([], Some part)"
proof (cases ps)
  case Nil
  then show ?thesis using assms(1) by (simp add: frames_short)
next
  case (Cons p qs)
  then have "part = take (length part) (packet_bytes p)" using assms(1) by (auto simp: prefix_def)
  then show ?thesis using frames_prefix_packet [of "length part" p] assms Cons by simp
qed

lemma prefix_stream:
  assumes "prefix x (stream todo)"
  shows "\<exists>ps rest part. todo = ps @ rest \<and> x = stream ps @ part \<and> incomplete part rest"
  using assms
proof (induction todo arbitrary: x)
  case (Cons p todo)
  show ?case
  proof (cases "length x < packet_size p")
    case True
    then have "prefix x (packet_bytes p)" using Cons.prems by (auto intro: prefix_length_prefix)
    with True show ?thesis by (intro exI [of _ "[]"] exI [of _ "p # todo"] exI [of _ x]) simp
  next
    case False
    have "prefix x (packet_bytes p @ stream todo)" using Cons.prems by simp
    then have "prefix (packet_bytes p) x"
      by (rule prefix_length_prefix [rotated]) (use False in simp_all)
    then obtain y where y: "x = packet_bytes p @ y" by (auto simp: prefix_def)
    then have "prefix y (stream todo)" using Cons.prems by simp
    then obtain ps rest part where "todo = ps @ rest" "y = stream ps @ part" "incomplete part rest"
      using Cons.IH by blast
    then show ?thesis using y by (intro exI [of _ "p # ps"] exI [of _ rest] exI [of _ part]) simp
  qed
qed simp

lemma frames_condition:
  "frames part = ([], Some part) \<Longrightarrow> length part < 4 \<or> 4 \<le> frame_size part \<and> length part < frame_size part"
  by (subst (asm) frames.simps) (auto split: if_splits prod.splits)

section \<open>The invariant\<close>

text \<open>\<open>ps\<close>: the packets whose bytes \<open>OnRecvPacket\<close> has been called with; \<open>todo\<close>: those to come.\<close>

definition conn_split :: "(send_buffer \<Rightarrow> packet) \<Rightarrow> 'c connection \<Rightarrow> packet list \<Rightarrow> packet list \<Rightarrow> bool" where
  "conn_split pkt x ps todo \<longleftrightarrow> (let ring = ss_recvBuffer (cn_receiver x) in
     map pkt (sr_accepted (cn_sender x)) = ps @ todo \<and> cn_seen x = map packet_bytes ps \<and>
     take (cn_taken x) (sr_wire (cn_sender x)) = stream ps @ rb_contents ring \<and> incomplete (rb_contents ring) todo)"

definition conn_inv :: "(send_buffer \<Rightarrow> packet) \<Rightarrow> 'c connection \<Rightarrow> bool" where
  "conn_inv pkt x \<longleftrightarrow> rb_inv (ss_recvBuffer (cn_receiver x)) \<and>
     rb_capacity (ss_recvBuffer (cn_receiver x)) \<le> 2147483647 \<and> cn_taken x \<le> length (sr_wire (cn_sender x)) \<and>
     (\<exists>ps todo. conn_split pkt x ps todo)"

text \<open>A packet fits the 16 bits of its size.\<close>

definition good_packets :: "(send_buffer \<Rightarrow> packet) \<Rightarrow> bool" where
  "good_packets pkt \<longleftrightarrow> (\<forall>sb. packet_size (pkt sb) \<le> 65535)"

lemma ss_step_grows:
  assumes "ss_step mem r r'"
  shows "\<exists>sbs. sr_accepted r' = sr_accepted r @ sbs" "prefix (sr_wire r) (sr_wire r')"
  using assms by (auto elim!: ss_stepE)

lemma recorded_all:
  "feed (recorded hook) bs (s, seen, c) = Ok (s', seen', c') \<Longrightarrow> seen' = seen @ bs"
  by (induction bs arbitrary: s seen c) (fastforce simp: recorded_def res_iff)+

lemma recorded_returns:
  assumes "\<forall>b n y. returns (hook b n y)"
  shows "returns (feed (recorded hook) bs y)"
proof (induction bs arbitrary: y)
  case (Cons b bs)
  obtain s seen c where y: "y = (s, seen, c)" by (cases y)
  obtain z where "hook b (int (length b)) (s, c) = Ok z" using assms unfolding returns_iff by blast
  then show ?case using Cons y by (auto simp: recorded_def split: prod.split)
qed simp

lemma recorded_keeps: "hook_keeps_ring hook \<Longrightarrow> hook_keeps_ring (recorded hook)"
  unfolding hook_keeps_ring_def by (fastforce simp: recorded_def res_iff)

lemma RegisterRecv_ring: "ss_recvBuffer (RegisterRecv r d s) = ss_recvBuffer s"
  by (simp add: RegisterRecv_def post_def HandleError_def Let_def split: os_result.split)

text \<open>One receive: \<open>OnRecvPacket\<close> is called for the complete packets, the rest is in the ring.\<close>

lemma delivered_packets:
  assumes inv: "conn_inv pkt x" and split: "conn_split pkt x seen todo"
    and wire: "prefix (sr_wire (cn_sender x)) (stream (map pkt (sr_accepted (cn_sender x))))"
    and good: "good_packets pkt" and h: "hook_keeps_ring hook" and d: "delivery x d b"
  shows "\<exists>ps rest ring s3 after. todo = ps @ rest \<and>
    rb_inv ring \<and> rb_capacity ring \<le> 2147483647 \<and> incomplete (rb_contents ring) rest \<and>
    take (cn_taken x + length d) (sr_wire (cn_sender x)) = stream (seen @ ps) @ rb_contents ring \<and>
    delivered hook r dd x d b = res_bind (feed (recorded hook) (map packet_bytes ps) (s3, cn_seen x, cn_state x))
      (\<lambda>(s', y). Ok (after s', y)) \<and> (\<forall>s'. ss_recvBuffer (after s') = ring)"
proof -
  let ?s = "cn_receiver x" and ?w = "sr_wire (cn_sender x)"
  let ?ring = "ss_recvBuffer ?s"
  have ring: "rb_inv ?ring" "rb_capacity ?ring \<le> 2147483647"
    and taken: "cn_taken x \<le> length ?w" "take (cn_taken x) ?w = stream seen @ rb_contents ?ring"
    and todo: "map pkt (sr_accepted (cn_sender x)) = seen @ todo"
    using inv split by (simp_all add: conn_inv_def conn_split_def Let_def)
  have fill: "recv_filled ?ring d b" and pre: "prefix d (drop (cn_taken x) ?w)" using d by (simp_all add: delivery_def)
  have now: "take (cn_taken x + length d) ?w = stream seen @ rb_contents ?ring @ d"
    using pre taken(2) by (auto simp: take_add prefix_def)
  then have "prefix (stream seen @ rb_contents ?ring @ d) (stream (seen @ todo))"
    using wire unfolding todo by (metis prefix_order.trans take_is_prefix)
  then have "prefix (rb_contents ?ring @ d) (stream todo)" by simp
  then obtain ps rest part where ps: "todo = ps @ rest" "rb_contents ?ring @ d = stream ps @ part" "incomplete part rest"
    using prefix_stream by blast
  have sizes: "\<forall>p \<in> set (ps @ rest). packet_size p \<le> 65535"
  proof
    fix p assume "p \<in> set (ps @ rest)"
    then have "p \<in> set (map pkt (sr_accepted (cn_sender x)))" unfolding todo ps(1) by simp
    then show "packet_size p \<le> 65535" using good unfolding good_packets_def by auto
  qed
  have fr: "frames part = ([], Some part)" using incomplete_frames [OF ps(3)] sizes by simp
  have now': "take (cn_taken x + length d) ?w = stream (seen @ ps) @ part" using now ps(2) by simp
  note keeps = recorded_keeps [OF h]
  show ?thesis
  proof (cases "ps = []")
    case True
    then have "frames (rb_contents ?ring @ d) = ([], Some (rb_contents ?ring @ d))" using ps(2) fr by simp
    from recv_partial [OF ring fill keeps this, of r dd "(cn_seen x, cn_state x)"]
    obtain rb where rb: "rb_inv rb" "rb_contents rb = part" "rb_capacity rb = rb_capacity ?ring"
      "delivered hook r dd x d b = Ok (Session_Disconnect dd (?s\<lparr>ss_recvOwner := False, ss_recvBuffer := rb\<rparr>), cn_seen x, cn_state x)"
      using True ps(2) unfolding delivered_def by auto
    show ?thesis
      using ps(1) now' rb ring(2) ps(3) True
      by (intro exI [of _ ps] exI [of _ rest] exI [of _ rb] exI [of _ ?s]
          exI [of _ "\<lambda>_. Session_Disconnect dd (?s\<lparr>ss_recvOwner := False, ss_recvBuffer := rb\<rparr>)"]) simp
  next
    case False
    have "\<forall>p \<in> set ps. packet_size p \<le> 65535" using sizes by simp
    from recv_delivers [OF ring fill keeps ps(2) False this frames_condition [OF fr], of r dd "(cn_seen x, cn_state x)"]
    obtain rb rb' where rb: "rb_inv rb'" "rb_contents rb' = part" "rb_capacity rb' = rb_capacity ?ring"
      "delivered hook r dd x d b = res_bind (feed (recorded hook) (map packet_bytes ps)
         (?s\<lparr>ss_recvOwner := False, ss_recvBuffer := rb\<rparr>, cn_seen x, cn_state x))
         (\<lambda>(s', y). Ok (RegisterRecv r dd (s'\<lparr>ss_recvBuffer := rb'\<rparr>), y))"
      unfolding delivered_def by blast
    show ?thesis
      using ps(1) now' rb ring(2) ps(3)
      by (intro exI [of _ ps] exI [of _ rest] exI [of _ rb'] exI [of _ "?s\<lparr>ss_recvOwner := False, ss_recvBuffer := rb\<rparr>"]
          exI [of _ "\<lambda>s'. RegisterRecv r dd (s'\<lparr>ss_recvBuffer := rb'\<rparr>)"]) (simp add: RegisterRecv_ring)
  qed
qed

lemma conn_inv_step:
  assumes "conn_step pkt hook x y" "conn_inv pkt x" "good_packets pkt" "hook_keeps_ring hook"
    and "prefix (sr_wire (cn_sender x)) (stream (map pkt (sr_accepted (cn_sender x))))"
  shows "conn_inv pkt y"
  using assms(1)
proof cases
  case (send r)
  obtain ps todo where split: "conn_split pkt x ps todo" using assms(2) by (auto simp: conn_inv_def)
  obtain sbs where grows: "sr_accepted r = sr_accepted (cn_sender x) @ sbs" "prefix (sr_wire (cn_sender x)) (sr_wire r)"
    using ss_step_grows [OF send(2)] by blast
  then have "conn_split pkt y ps (todo @ map pkt sbs)"
    using split assms(2) unfolding send(1) conn_inv_def conn_split_def Let_def by (auto simp: prefix_def incomplete_append)
  then show ?thesis using assms(2) grows(2) unfolding send(1) conn_inv_def by (auto simp: prefix_def)
next
  case (deliver d b r dd s' seen' c')
  obtain seen todo where split: "conn_split pkt x seen todo" using assms(2) by (auto simp: conn_inv_def)
  from delivered_packets [OF assms(2) split assms(5,3,4) deliver(2), of r dd]
  obtain ps rest ring s3 after where f: "todo = ps @ rest"
    "rb_inv ring" "rb_capacity ring \<le> 2147483647" "incomplete (rb_contents ring) rest"
    "take (cn_taken x + length d) (sr_wire (cn_sender x)) = stream (seen @ ps) @ rb_contents ring"
    "delivered hook r dd x d b = res_bind (feed (recorded hook) (map packet_bytes ps) (s3, cn_seen x, cn_state x))
      (\<lambda>(s', y). Ok (after s', y))" "\<forall>s'. ss_recvBuffer (after s') = ring"
    by blast
  obtain s4 where "feed (recorded hook) (map packet_bytes ps) (s3, cn_seen x, cn_state x) = Ok (s4, seen', c')"
    "s' = after s4"
    using deliver(3) unfolding f(6) by (auto simp: res_iff)
  then have new: "seen' = cn_seen x @ map packet_bytes ps" "ss_recvBuffer s' = ring" using recorded_all f(7) by auto
  then have "conn_split pkt y (seen @ ps) rest"
    using split f(1,4,5) unfolding deliver(1) conn_split_def Let_def by simp
  moreover have "cn_taken x + length d \<le> length (sr_wire (cn_sender x))"
    using deliver(2) assms(2) prefix_length_le [of d] by (fastforce simp: delivery_def conn_inv_def)
  ultimately show ?thesis using f(2,3) new(2) unfolding deliver(1) conn_inv_def by auto
next
  case (other s' c')
  then show ?thesis using assms(2) by (simp add: conn_inv_def conn_split_def)
qed

lemma conn_reach_sender:
  assumes "conn_reach pkt hook x y"
  shows "(ss_step (\<lambda>sb. packet_bytes (pkt sb)))\<^sup>*\<^sup>* (cn_sender x) (cn_sender y)"
  using assms
proof (induction rule: rtranclp_induct)
  case (step y z)
  from step(2) show ?case by cases (use step(3) in \<open>auto intro: rtranclp.rtrancl_into_rtrancl\<close>)
qed simp

lemma conn_reach_wire:
  assumes "conn_reach pkt hook x0 x" "conn_start x0"
  shows "prefix (sr_wire (cn_sender x)) (stream (map pkt (sr_accepted (cn_sender x))))"
proof -
  obtain s0 where s0: "send_start s0" "cn_sender x0 = run_start s0" using assms(2) by (auto simp: conn_start_def)
  have "send_stream (\<lambda>sb. packet_bytes (pkt sb)) (cn_sender x)"
    using send_inv_reach [of "\<lambda>sb. packet_bytes (pkt sb)" s0 "cn_sender x"] conn_reach_sender [OF assms(1)] s0 by simp
  then show ?thesis
    by (auto simp: send_stream_def Let_def bytes_of_def comp_def split: if_splits intro: prefixI [OF sym])
qed

lemma conn_reach_inv:
  assumes "conn_reach pkt hook x0 x" "conn_start x0" "good_packets pkt" "hook_keeps_ring hook"
  shows "conn_inv pkt x"
  using assms(1)
proof (induction rule: rtranclp_induct)
  case base
  then show ?case
    using assms(2)
    by (auto simp: conn_inv_def conn_split_def conn_start_def run_start_def Let_def intro!: exI [of _ "[]"])
next
  case (step y z)
  show ?case by (rule conn_inv_step [OF step(2,3) assms(3,4) conn_reach_wire [OF step(1) assms(2)]])
qed

section \<open>Property\<close>

text \<open>
  C2: What is sent over a connection arrives. Let the threads of the sender, its completions (partial ones
  included) and the deliveries of the system interleave in any way, and let the receiver's class be any whose
  \<open>OnRecvPacket\<close> leaves the ring alone: at every moment the receiver's \<open>OnRecvPacket\<close> has been called with exactly
  the bytes of the first of the packets whose sending was accepted, one call per packet, in this order; the bytes
  delivered are those of these packets followed by what is in the receiver's ring, which is no complete packet; so
  that once all bytes have been delivered, it has been called for every packet. And if the calls of \<open>OnRecvPacket\<close>
  return, whatever is delivered next is received without a fault.
\<close>

theorem connection_delivers:
  assumes "conn_reach pkt hook x0 x" "conn_start x0" "good_packets pkt" "hook_keeps_ring hook"
  shows "(\<exists>ps todo. map pkt (sr_accepted (cn_sender x)) = ps @ todo \<and> cn_seen x = map packet_bytes ps \<and>
      take (cn_taken x) (sr_wire (cn_sender x)) = stream ps @ rb_contents (ss_recvBuffer (cn_receiver x)) \<and>
      incomplete (rb_contents (ss_recvBuffer (cn_receiver x))) todo \<and>
      (cn_taken x = length (stream (map pkt (sr_accepted (cn_sender x)))) \<longrightarrow> todo = [])) \<and>
    ((\<forall>b n y. returns (hook b n y)) \<longrightarrow> (\<forall>d b r dd. delivery x d b \<longrightarrow> returns (delivered hook r dd x d b)))"
proof
  note inv = conn_reach_inv [OF assms] and wire = conn_reach_wire [OF assms(1,2)]
  obtain ps todo where split: "conn_split pkt x ps todo" using inv by (auto simp: conn_inv_def)
  have "cn_taken x \<le> length (sr_wire (cn_sender x))" using inv by (simp add: conn_inv_def)
  with split have t: "map pkt (sr_accepted (cn_sender x)) = ps @ todo" "cn_seen x = map packet_bytes ps"
      "take (cn_taken x) (sr_wire (cn_sender x)) = stream ps @ rb_contents (ss_recvBuffer (cn_receiver x))"
      "incomplete (rb_contents (ss_recvBuffer (cn_receiver x))) todo" "cn_taken x \<le> length (sr_wire (cn_sender x))"
    by (simp_all add: conn_split_def Let_def)
  have "todo = []" if "cn_taken x = length (stream (map pkt (sr_accepted (cn_sender x))))"
  proof -
    have "length (take (cn_taken x) (sr_wire (cn_sender x))) = length (stream ps) + length (stream todo)"
      using that t(1,5) by simp
    then have "length (rb_contents (ss_recvBuffer (cn_receiver x))) = length (stream todo)"
      unfolding t(3) by (simp del: length_rb_contents)
    then show ?thesis using t(4) by (cases todo) (simp_all del: length_rb_contents)
  qed
  with t show "\<exists>ps todo. map pkt (sr_accepted (cn_sender x)) = ps @ todo \<and> cn_seen x = map packet_bytes ps \<and>
      take (cn_taken x) (sr_wire (cn_sender x)) = stream ps @ rb_contents (ss_recvBuffer (cn_receiver x)) \<and>
      incomplete (rb_contents (ss_recvBuffer (cn_receiver x))) todo \<and>
      (cn_taken x = length (stream (map pkt (sr_accepted (cn_sender x)))) \<longrightarrow> todo = [])"
    by blast
  show "(\<forall>b n y. returns (hook b n y)) \<longrightarrow> (\<forall>d b r dd. delivery x d b \<longrightarrow> returns (delivered hook r dd x d b))"
  proof (intro impI allI)
    fix d b r dd assume h: "\<forall>b n y. returns (hook b n y)" and d: "delivery x d b"
    from delivered_packets [OF inv split wire assms(3,4) d, of r dd]
    obtain new s3 after where r: "delivered hook r dd x d b =
        res_bind (feed (recorded hook) (map packet_bytes new) (s3, cn_seen x, cn_state x)) (\<lambda>(s', y). Ok (after s', y))"
      by blast
    obtain z where "feed (recorded hook) (map packet_bytes new) (s3, cn_seen x, cn_state x) = Ok z"
      using recorded_returns [OF h] unfolding returns_iff by blast
    then show "returns (delivered hook r dd x d b)" unfolding r by (simp split: prod.split)
  qed
qed

section \<open>The server as the receiver\<close>

text \<open>
  The server's \<open>OnRecvPacket\<close> as the receiver's, for the session \<open>s\<close>: the program's state is the world and
  the number of calls so far, on which the clock, the time string and the results of the operating system depend.
  What the handlers \<open>Send\<close> to the session itself and the \<open>Disconnect\<close> of the guard act on the engine's session.
\<close>

fun Session_Sends :: "(nat \<Rightarrow> os_result \<times> os_result) \<Rightarrow> send_buffer list \<Rightarrow> session \<Rightarrow> session" where
  "Session_Sends os [] ss = ss"
| "Session_Sends os (sb # sbs) ss = Session_Sends (os \<circ> Suc) sbs (Session_Send (Some sb) (fst (os 0)) (snd (os 0)) ss)"

definition server_hook ::
    "nat \<Rightarrow> (nat \<Rightarrow> nat \<Rightarrow> uint64) \<Rightarrow> (nat \<Rightarrow> string) \<Rightarrow> (nat \<Rightarrow> nat \<Rightarrow> os_result \<times> os_result) \<Rightarrow> (nat \<Rightarrow> os_result) \<Rightarrow>
     session_ref \<Rightarrow> (nat \<times> world) recv_hook" where
  "server_hook t clock timeStr os dd s buffer len = (\<lambda>(ss, n, w).
     res_bind (OnRecvPacket t (clock n) (timeStr n) s buffer len w) (\<lambda>w'.
     let sends = drop (length (cs_sends (w_clients w s))) (cs_sends (w_clients w' s));
         ss1 = Session_Sends (os n) sends ss;
         ss2 = (if length (cs_disconnects (w_clients w s)) < length (cs_disconnects (w_clients w' s))
           then Session_Disconnect (dd n) ss1 else ss1)
     in Ok (ss2, Suc n, w')))"

lemma Session_Disconnect_ring: "ss_recvBuffer (Session_Disconnect d s) = ss_recvBuffer s"
  by (simp add: Session_Disconnect_def RegisterDisconnect_def post_def Let_def split: os_result.split)

lemma Session_Send_ring: "ss_recvBuffer (Session_Send sb w d s) = ss_recvBuffer s"
proof -
  have "ss_recvBuffer (fst (RegisterSend w d s)) = ss_recvBuffer s" for s
    by (simp add: RegisterSend_def post_def HandleError_def Let_def Session_Disconnect_ring
        split: os_result.split prod.split)
  then show ?thesis
    by (auto simp: Session_Send_def Send_push_def Session_Disconnect_ring split: option.split)
qed

lemma Session_Sends_ring: "ss_recvBuffer (Session_Sends os sbs ss) = ss_recvBuffer ss"
  by (induction sbs arbitrary: os ss) (simp_all add: Session_Send_ring)

lemma server_hook_keeps_ring: "hook_keeps_ring (server_hook t clock timeStr os dd s)"
  unfolding hook_keeps_ring_def
  by (auto simp: server_hook_def res_iff Let_def Session_Sends_ring Session_Disconnect_ring split: if_splits)

section \<open>A run\<close>

text \<open>One packet of four bytes is accepted, posted, transmitted and delivered.\<close>

definition small_pkt :: "send_buffer \<Rightarrow> packet" where
  "small_pkt sb = Pkt_C_LEAVE_ROOM ()"

definition small_buf :: send_buffer where
  "small_buf = \<lparr>sb_owner = 0, sb_buffer = 0, sb_allocSize = 4, sb_writeSize = 4\<rparr>"

text \<open>The server's hook at tick 1000, for session 2.\<close>

definition small_hook :: "(nat \<times> world) recv_hook" where
  "small_hook = server_hook 0 (\<lambda>_ _. 1000) (\<lambda>_. ''now'') (\<lambda>_ _. (OsDone, OsDone)) (\<lambda>_. OsDone) 2"

definition small_start :: "(nat \<times> world) connection" where
  "small_start = \<lparr>cn_sender = run_start ex_session, cn_taken = 0,
     cn_receiver = ex_connected\<lparr>ss_recvOwner := True\<rparr>, cn_seen = [], cn_state = (0, served_world)\<rparr>"

lemma small_hook_returns: "\<exists>z. small_hook (packet_bytes (Pkt_C_LEAVE_ROOM ())) 4 (ss, 0, served_world) = Ok z"
proof -
  let ?p = "Pkt_C_LEAVE_ROOM ()"
  have size: "packet_size ?p = 4" by (simp add: packet_size_def enc_C_LEAVE_ROOM_def)
  obtain tb where c: "Consume 1000 1 (cs_rateLimiter (w_clients served_world 2)) = (True, tb)"
    by (simp add: Consume_def Refill_def TokenBucket_new_def add_tokens_def to_int32_def Let_def)
  have "GetRoom 2 (received (\<lambda>_. 1000) 2 4 tb served_world) = None"
    by (simp add: GetRoom_def received_def UpdateHeartbeat_def served_world_def room_world_def world_start_def
        ClientSession_new_def)
  then have "\<exists>w'. OnRecvPacket 0 (\<lambda>_. 1000) ''now'' 2 (packet_bytes ?p) 4 served_world = Ok w'"
    using OnRecvPacket_dispatch [where clock = "\<lambda>_. 1000" and p = ?p, OF c] size
    by (simp add: dom_C_LEAVE_ROOM_def Handle_C_LEAVE_ROOM_def after_handler_def)
  then show ?thesis by (auto simp: small_hook_def server_hook_def Let_def)
qed

lemma small_sent:
  obtains r where "(ss_step (\<lambda>sb. packet_bytes (small_pkt sb)))\<^sup>*\<^sup>* (run_start ex_session) r"
    "sr_wire r = [4, 0, 241, 3]" "sr_accepted r = [small_buf]"
proof -
  let ?mem = "\<lambda>sb. packet_bytes (small_pkt sb)"
  let ?r0 = "run_start ex_session"
  let ?s1 = "ex_session\<lparr>ss_sendQueue := [small_buf], ss_isSending := True\<rparr>"
  let ?r1 = "?r0\<lparr>sr_session := ?s1, sr_registering := 1, sr_accepted := [small_buf]\<rparr>"
  let ?g = "[(small_buf, 0, 4)]"
  let ?s2 = "?s1\<lparr>ss_sendOwner := True, ss_sendQueue := [], ss_sendEvent := [small_buf], ss_posts := [PostSend ?g]\<rparr>"
  let ?r2 = "?r1\<lparr>sr_session := ?s2, sr_registering := 0, sr_inflight := [?g]\<rparr>"
  obtain s3 reg where u: "ProcessSend_update 4 ?s2 = (s3, reg)" by fastforce
  note defs = ex_session_def Session_new_def run_start_def small_pkt_def ex_packet small_buf_def
  have "ss_step ?mem ?r0 ?r1"
    using ss_step.push [of ?mem small_buf ?r0 ?s1 True False]
    by (simp add: defs buf_ok_def Send_push_def MAX_SEND_QUEUE_SIZE_def)
  moreover have "ss_step ?mem ?r1 ?r2"
    using ss_step.register_post [of ?r1 OsDone OsDone ?s2 ?g]
    by (simp add: defs RegisterSend_def MAX_GATHER_def post_def)
  moreover have "ss_step ?mem ?r2 (?r2\<lparr>sr_session := s3, sr_registering := 0 + (if reg then 1 else 0),
      sr_inflight := [], sr_wire := [4, 0, 241, 3]\<rparr>)"
    using ss_step.complete [of ?r2 "[]" ?g "[]" 4 ?mem s3 reg] u
    by (simp add: defs gather_bytes_def)
  ultimately have "(ss_step ?mem)\<^sup>*\<^sup>* ?r0 (?r2\<lparr>sr_session := s3, sr_registering := 0 + (if reg then 1 else 0),
      sr_inflight := [], sr_wire := [4, 0, 241, 3]\<rparr>)"
    by (meson rtranclp.rtrancl_refl rtranclp.rtrancl_into_rtrancl)
  then show thesis by (rule that) (simp_all add: defs)
qed

lemma conn_send_steps:
  assumes "(ss_step (\<lambda>sb. packet_bytes (pkt sb)))\<^sup>*\<^sup>* (cn_sender x) r"
  shows "conn_reach pkt hook x (x\<lparr>cn_sender := r\<rparr>)"
  using assms
proof (induction rule: rtranclp_induct)
  case (step r r')
  from conn_step.send [of pkt "x\<lparr>cn_sender := r\<rparr>" r' hook] step show ?case
    by (simp add: rtranclp.rtrancl_into_rtrancl)
qed simp

lemma small_setting: "conn_start small_start" "good_packets small_pkt" "hook_keeps_ring small_hook"
  using ex_session_facts ex_start server_hook_keeps_ring
  by (auto simp: conn_start_def small_start_def good_packets_def small_pkt_def packet_size_def enc_C_LEAVE_ROOM_def
      small_hook_def)

lemma small_delivered:
  assumes x: "conn_reach small_pkt small_hook small_start x" "cn_seen x = []" "cn_state x = (0, served_world)"
    and r: "sr_accepted (cn_sender x) = [small_buf]" and d: "delivery x d b"
  shows "\<exists>s' seen' c'. delivered small_hook OsDone OsDone x d b = Ok (s', seen', c')"
proof -
  note inv = conn_reach_inv [OF x(1) small_setting]
  obtain ps todo where split: "conn_split small_pkt x ps todo" using inv by (auto simp: conn_inv_def)
  then have "ps = []" "todo = [Pkt_C_LEAVE_ROOM ()]"
    using x(2) r by (auto simp: conn_split_def Let_def small_pkt_def)
  moreover obtain new rest s3 after where "todo = new @ rest"
    "delivered small_hook OsDone OsDone x d b =
      res_bind (feed (recorded small_hook) (map packet_bytes new) (s3, cn_seen x, cn_state x)) (\<lambda>(s', y). Ok (after s', y))"
    using delivered_packets [OF inv split conn_reach_wire [OF x(1) small_setting(1)] small_setting(2,3) d, of OsDone OsDone]
    by blast
  moreover obtain z where "small_hook (packet_bytes (Pkt_C_LEAVE_ROOM ())) 4 (s3, 0, served_world) = Ok z"
    using small_hook_returns by blast
  ultimately show ?thesis
    using x(2,3) by (cases new; cases z) (auto simp: recorded_def ex_packet)
qed

theorem connection_delivers_witness:
  "\<exists>x. conn_reach small_pkt small_hook small_start x \<and> cn_seen x = [packet_bytes (Pkt_C_LEAVE_ROOM ())]"
proof -
  obtain r where r: "(ss_step (\<lambda>sb. packet_bytes (small_pkt sb)))\<^sup>*\<^sup>* (run_start ex_session) r"
    "sr_wire r = [4, 0, 241, 3]" "sr_accepted r = [small_buf]"
    by (rule small_sent)
  let ?x = "small_start\<lparr>cn_sender := r\<rparr>"
  have x: "conn_reach small_pkt small_hook small_start ?x"
    using conn_send_steps [of small_pkt small_start r small_hook] r(1) by (simp add: small_start_def)
  have d: "delivery ?x [4, 0, 241, 3] [4, 0, 241, 3, 0, 0, 0, 0]"
    using r(2) by (auto simp: delivery_def small_start_def recv_filled_def ex_connected_def Session_new_def ex_ring_def
        GetFreeSize_def GetDataSize_def GetWriteSpan_def span_addrs_def slot_addrs_def less_Suc_eq numeral_eq_Suc)
  then obtain s' seen' c' where s': "delivered small_hook OsDone OsDone ?x [4, 0, 241, 3] [4, 0, 241, 3, 0, 0, 0, 0] =
      Ok (s', seen', c')"
    using small_delivered [OF x _ _ _ d] r(3) by (auto simp: small_start_def)
  let ?y = "?x\<lparr>cn_taken := cn_taken ?x + length [4, 0, 241, 3 :: byte], cn_receiver := s', cn_seen := seen', cn_state := c'\<rparr>"
  have y: "conn_reach small_pkt small_hook small_start ?y"
    by (rule rtranclp.rtrancl_into_rtrancl [OF x conn_step.deliver [OF d s']])
  from connection_delivers [OF y small_setting] have "seen' = [packet_bytes (Pkt_C_LEAVE_ROOM ())]"
    using r(3) by (auto simp: small_pkt_def small_start_def ex_packet)
  with y show ?thesis by (intro exI [of _ ?y]) simp
qed

end
