(* ===== verification/JobSystem.thy ===== *)
theory JobSystem
  imports JobQueue
begin

text \<open>
  \<open>TestJobSystem\<close> of \<^verbatim>\<open>EngineTest/Main.cpp\<close>, up to the test of the timer: producers push jobs to one queue, workers
  run them until they are told to stop. The steps are those of \<open>JobQueue\<close>, for one queue; \<open>jt_todo\<close> is how many
  jobs each producer has still to push. A producer may begin a push before its last one has been stored
  here, which only adds interleavings.
\<close>

section \<open>The test\<close>

definition PRODUCER_THREADS :: nat where "PRODUCER_THREADS = 4"
definition JOBS_PER_THREAD :: nat where "JOBS_PER_THREAD = 1000"

definition AddScore :: "int32 \<Rightarrow> int32 \<Rightarrow> int32" where
  "AddScore delta score = to_int32 (score + delta)"

text \<open>A job is the argument of its \<open>AddScore\<close>.\<close>

record job_test =
  jt_sys :: "(unit, int32) jq_sys"
  jt_todo :: "nat list"
  jt_stop :: bool

definition GetScore :: "job_test \<Rightarrow> int32" where
  "GetScore x = fold AddScore (js_executed (jt_sys x) ()) 0"

text \<open>
  \<open>push\<close> is a producer beginning to push, \<open>run\<close> every other step of the job system, \<open>stop\<close> the main thread after it has
  joined the producers and seen the score, \<open>leave\<close> a worker whose loop ends.
\<close>

inductive jt_step :: "nat \<Rightarrow> job_test \<Rightarrow> job_test \<Rightarrow> bool" for target where
  push: "jt_todo x = as @ Suc n # bs \<Longrightarrow> jq_step (jt_sys x) s \<Longrightarrow>
    js_pushers s = add_mset (PAdded () 1 c) (js_pushers (jt_sys x)) \<Longrightarrow>
    jt_step target x (x\<lparr>jt_sys := s, jt_todo := as @ n # bs\<rparr>)"
| run: "jq_step (jt_sys x) s \<Longrightarrow> size (js_pushers s) \<le> size (js_pushers (jt_sys x)) \<Longrightarrow>
    jt_step target x (x\<lparr>jt_sys := s\<rparr>)"
| stop: "sum_list (jt_todo x) = 0 \<Longrightarrow> js_pushers (jt_sys x) = {#} \<Longrightarrow> int target \<le> GetScore x \<Longrightarrow>
    jt_step target x (x\<lparr>jt_stop := True\<rparr>)"
| leave: "jt_stop x \<Longrightarrow> GlobalQueue_GetCount (js_global (jt_sys x)) = 0 \<Longrightarrow> js_workers (jt_sys x) = add_mset WIdle ws \<Longrightarrow>
    jt_step target x (x\<lparr>jt_sys := (jt_sys x)\<lparr>js_workers := ws\<rparr>\<rparr>)"

definition jt_start :: "nat list \<Rightarrow> nat \<Rightarrow> job_test" where
  "jt_start todos workers = \<lparr>jt_sys = jq_start workers, jt_todo = todos, jt_stop = False\<rparr>"

abbreviation jt_reach :: "nat list \<Rightarrow> nat \<Rightarrow> job_test \<Rightarrow> bool" where
  "jt_reach todos workers \<equiv> (jt_step (sum_list todos))\<^sup>*\<^sup>* (jt_start todos workers)"

section \<open>The invariant\<close>

definition jt_inv :: "nat \<Rightarrow> job_test \<Rightarrow> bool" where
  "jt_inv target x \<longleftrightarrow> (let s = jt_sys x in jq_inv s \<and>
     sum_list (jt_todo x) + size (filter_mset (pusher_counted ()) (js_pushers s)) + length (js_stored s ()) = target \<and>
     (\<forall>j c. PAdded () j c \<in># js_pushers s \<longrightarrow> j = 1) \<and> set (js_stored s ()) \<subseteq> {1} \<and>
     (if jt_stop x then sum_list (jt_todo x) = 0 \<and> js_pushers s = {#} \<and> length (js_executed s ()) = target
      else js_workers s \<noteq> {#}))"

lemma executed_prefix:
  assumes "jq_inv s"
  shows "\<exists>rest. js_stored s q = js_executed s q @ rest"
  using q_inv_running [of q s] assms by (auto simp: jq_inv_def)

lemma score_of_ones:
  "set js \<subseteq> {1} \<Longrightarrow> length js \<le> 2147483647 \<Longrightarrow> fold AddScore js 0 = int (length js)"
proof (induction js rule: rev_induct)
  case (snoc j js)
  have "in_int32 (int (length js) + 1)" using snoc.prems(2) by (simp add: in_int32_def)
  then have "AddScore 1 (int (length js)) = int (length js) + 1" by (simp add: AddScore_def to_int32_id)
  moreover have "j = 1" "fold AddScore js 0 = int (length js)" using snoc by simp_all
  ultimately show ?case by simp
qed simp

lemma jt_score:
  assumes "jt_inv target x" "target \<le> 2147483647"
  shows "GetScore x = int (length (js_executed (jt_sys x) ()))" "length (js_executed (jt_sys x) ()) \<le> target"
proof -
  obtain rest where r: "js_stored (jt_sys x) () = js_executed (jt_sys x) () @ rest"
    using executed_prefix [of "jt_sys x" "()"] assms(1) unfolding jt_inv_def Let_def by blast
  then show le: "length (js_executed (jt_sys x) ()) \<le> target" using assms(1) by (auto simp: jt_inv_def Let_def)
  have "set (js_executed (jt_sys x) ()) \<subseteq> {1}" using r assms(1) by (auto simp: jt_inv_def Let_def)
  then show "GetScore x = int (length (js_executed (jt_sys x) ()))"
    using le assms(2) by (simp add: GetScore_def score_of_ones)
qed

text \<open>What a step of the job system changes.\<close>

lemma jq_step_facts:
  fixes s :: "(unit, int32) jq_sys"
  assumes "jq_step s s'"
  shows "size (js_workers s') = size (js_workers s)"
    "\<exists>js. js_executed s' () = js_executed s () @ js"
    "js_pushers s' = add_mset (PAdded () j c) (js_pushers s) \<Longrightarrow> js_stored s' = js_stored s"
    "size (js_pushers s') \<le> size (js_pushers s) \<Longrightarrow>
       (js_stored s' = js_stored s \<and> filter_mset (pusher_counted ()) (js_pushers s') = filter_mset (pusher_counted ()) (js_pushers s) \<and>
         js_pushers s' \<subseteq># js_pushers s) \<or>
       (\<exists>j c ps. js_pushers s = add_mset (PAdded () j c) ps \<and> js_stored s' () = js_stored s () @ [j] \<and>
         (js_pushers s' = ps \<or> js_pushers s' = add_mset (PRegister ()) ps))"
proof -
  show "size (js_workers s') = size (js_workers s)" using assms by cases auto
  show "\<exists>js. js_executed s' () = js_executed s () @ js" using assms by cases auto
  show "js_stored s' = js_stored s" if "js_pushers s' = add_mset (PAdded () j c) (js_pushers s)"
    using assms
  proof cases
    case (push_store q i prev ps)
    then have "size (js_pushers s') \<le> size (js_pushers s)" by simp
    then show ?thesis using that by simp
  qed (simp_all)
  assume le: "size (js_pushers s') \<le> size (js_pushers s)"
  show "(js_stored s' = js_stored s \<and> filter_mset (pusher_counted ()) (js_pushers s') = filter_mset (pusher_counted ()) (js_pushers s) \<and>
         js_pushers s' \<subseteq># js_pushers s) \<or>
       (\<exists>j c ps. js_pushers s = add_mset (PAdded () j c) ps \<and> js_stored s' () = js_stored s () @ [j] \<and>
         (js_pushers s' = ps \<or> js_pushers s' = add_mset (PRegister ()) ps))"
    using assms
  proof cases
    case (push_store q i prev ps)
    then show ?thesis by (intro disjI2 exI [of _ i] exI [of _ prev] exI [of _ ps]) simp
  qed (use le in simp_all)
qed

lemma jt_inv_step:
  assumes "jt_step target x y" "jt_inv target x" "target \<le> 2147483647"
  shows "jt_inv target y"
  using assms(1)
proof cases
  case (push as n bs s c)
  have "\<not> jt_stop x" using assms(2) push(2) by (auto simp: jt_inv_def Let_def)
  moreover have "js_workers s \<noteq> {#}"
    using calculation assms(2) jq_step_facts(1) [OF push(3)] by (auto simp: jt_inv_def Let_def)
  moreover have "jq_inv s" using jq_inv_step [OF push(3)] assms(2) by (simp add: jt_inv_def Let_def)
  ultimately show ?thesis
    using assms(2) push(2,4) jq_step_facts(3) [OF push(3,4)] unfolding push(1) jt_inv_def Let_def by auto
next
  case (run s)
  have inv: "jq_inv s" using jq_inv_step [OF run(2)] assms(2) by (simp add: jt_inv_def Let_def)
  obtain js where js: "js_executed s () = js_executed (jt_sys x) () @ js" using jq_step_facts(2) [OF run(2)] by blast
  obtain rest where rest: "js_stored s () = js_executed s () @ rest" using executed_prefix [OF inv, of "()"] by blast
  consider (none) "js_stored s = js_stored (jt_sys x)"
      "filter_mset (pusher_counted ()) (js_pushers s) = filter_mset (pusher_counted ()) (js_pushers (jt_sys x))"
      "js_pushers s \<subseteq># js_pushers (jt_sys x)"
    | (stored) j c ps where "js_pushers (jt_sys x) = add_mset (PAdded () j c) ps"
      "js_stored s () = js_stored (jt_sys x) () @ [j]" "js_pushers s = ps \<or> js_pushers s = add_mset (PRegister ()) ps"
    using jq_step_facts(4) [OF run(2,3)] by blast
  then show ?thesis
  proof cases
    case f: none
    have "length (js_executed s ()) = target" if "jt_stop x"
      using assms(2) that js rest f(1) by (auto simp: jt_inv_def Let_def)
    then show ?thesis
      using assms(2) inv f jq_step_facts(1) [OF run(2)] unfolding run(1) jt_inv_def Let_def
      by (auto dest: mset_subset_eqD)
  next
    case f: (stored j c ps)
    have "\<not> jt_stop x" using assms(2) f(1) by (auto simp: jt_inv_def Let_def)
    then show ?thesis
      using assms(2) inv f jq_step_facts(1) [OF run(2)] unfolding run(1) jt_inv_def Let_def by auto
  qed
next
  case stop
  have "length (js_executed (jt_sys x) ()) = target" using stop(4) jt_score [OF assms(2,3)] by simp
  then show ?thesis using assms(2) stop(2,3) unfolding stop(1) jt_inv_def Let_def by auto
next
  case (leave ws)
  have "q_inv q ((jt_sys x)\<lparr>js_workers := ws\<rparr>)" if "q_inv q (jt_sys x)" for q
    using that leave(4) by (simp add: q_inv_def tokens_def outstanding_def)
  then show ?thesis
    using assms(2) leave(2) unfolding leave(1) jt_inv_def Let_def jq_inv_def by auto
qed

lemma jt_inv_start: "0 < workers \<Longrightarrow> jt_inv (sum_list todos) (jt_start todos workers)"
  using jq_inv_start [of workers] by (cases workers) (simp_all add: jt_inv_def jt_start_def jq_start_def)

lemma jt_reach_inv:
  assumes "jt_reach todos workers x" "0 < workers" "sum_list todos \<le> 2147483647"
  shows "jt_inv (sum_list todos) x"
  using assms(1)
proof (induction rule: rtranclp_induct)
  case base
  show ?case by (rule jt_inv_start [OF assms(2)])
next
  case (step y z)
  then show ?case using jt_inv_step assms(3) by blast
qed

section \<open>Getting to the end\<close>

text \<open>What is still to be done; every round through the global queue is paid for by a job.\<close>

fun pusher_cost :: "(unit, int32) pusher \<Rightarrow> nat" where
  "pusher_cost (PAdded q j c) = 9"
| "pusher_cost (PRegister q) = 3"

fun worker_cost :: "(unit, int32) worker \<Rightarrow> nat" where
  "worker_cost WIdle = 1"
| "worker_cost (WPopped q) = 2"
| "worker_cost (WRunning q js n) = 5 + length js"
| "worker_cost (WRegister q) = 4"

definition sys_cost :: "(unit, int32) jq_sys \<Rightarrow> nat" where
  "sys_cost s = sum_mset (image_mset pusher_cost (js_pushers s)) + 5 * length (jq_jobs (js_queue s ())) +
     2 * length (js_global s) + sum_mset (image_mset worker_cost (js_workers s))"

definition jt_cost :: "job_test \<Rightarrow> nat" where
  "jt_cost x = 10 * sum_list (jt_todo x) + sys_cost (jt_sys x) + (if jt_stop x then 0 else 1)"

lemma not_on_queue: "\<not> worker_on () w \<longleftrightarrow> w = WIdle"
  by (cases w) simp_all

text \<open>A push that is under way goes on.\<close>

lemma pusher_goes_on:
  assumes "js_pushers s = add_mset p ps"
  shows "\<exists>s'. jq_step s s' \<and> size (js_pushers s') \<le> size (js_pushers s) \<and> sys_cost s' < sys_cost s"
proof (cases p)
  case (PAdded q j c)
  with jq_step.push_store [of s q j c ps] assms show ?thesis
    by (intro exI [of _ "s\<lparr>js_queue := (js_queue s)(q := jobs_push j (js_queue s q)),
        js_pushers := (if c = 0 then add_mset (PRegister q) ps else ps),
        js_stored := (js_stored s)(q := js_stored s q @ [j])\<rparr>"]) (simp add: sys_cost_def jobs_push_def)
next
  case (PRegister q)
  with jq_step.push_register [of s q ps] assms show ?thesis
    by (intro exI [of _ "s\<lparr>js_global := GlobalQueue_Push q (js_global s), js_pushers := ps\<rparr>"])
      (simp add: sys_cost_def GlobalQueue_Push_def)
qed

text \<open>With no push under way, a worker that has the queue goes on: it has jobs to take.\<close>

lemma worker_goes_on:
  assumes "q_inv () s" "js_pushers s = {#}" "js_workers s = add_mset w ws" "w \<noteq> WIdle"
  shows "\<exists>s'. jq_step s s' \<and> size (js_pushers s') \<le> size (js_pushers s) \<and> sys_cost s' < sys_cost s"
proof -
  have on: "worker_on () w" using assms(4) not_on_queue by blast
  note held = q_inv_held [OF assms(1,3) on]
  show ?thesis
  proof (cases w)
    case (WPopped q)
    have "worker_taken () v = 0" if "v \<in># ws" for v
      using held(2) that not_on_queue [of v] by auto
    then have "sum_mset (image_mset (worker_taken ()) ws) = 0" by (induction ws) auto
    moreover have "outstanding () s = length (jq_jobs (js_queue s ())) + sum_mset (image_mset (worker_taken ()) ws)"
      using assms(2,3) WPopped by (simp add: outstanding_def)
    ultimately have "0 < length (jq_jobs (js_queue s ()))" using held(4) by linarith
    moreover obtain js jq where take: "Execute_take (js_queue s ()) = (js, jq)" by fastforce
    ultimately have len: "0 < length js" "length (jq_jobs (js_queue s ())) = length js + length (jq_jobs jq)"
      by (auto simp: Execute_take_eq maxExecuteCount_def)
    have "jq_step s (s\<lparr>js_queue := (js_queue s)(() := jq), js_workers := add_mset (WRunning () js (length js)) ws\<rparr>)"
      using assms(3) WPopped take by (intro jq_step.take_jobs) simp_all
    then show ?thesis
      using len assms(3) WPopped by (intro exI conjI) (assumption, simp_all add: sys_cost_def del: length_greater_0_conv)
  next
    case (WRunning q js n)
    show ?thesis
    proof (cases js)
      case (Cons j js')
      with jq_step.execute [of s q j js' n ws] assms(3) WRunning show ?thesis
        by (intro exI [of _ "s\<lparr>js_workers := add_mset (WRunning q js' n) ws,
            js_executed := (js_executed s)(q := js_executed s q @ [j])\<rparr>"]) (simp add: sys_cost_def)
    next
      case Nil
      obtain r jq where r: "Execute_done (int n) (js_queue s q) = (r, jq)" by fastforce
      with jq_step.finish [of s q n ws r jq] assms(3) WRunning Nil show ?thesis
        by (intro exI [of _ "s\<lparr>js_queue := (js_queue s)(q := jq),
            js_workers := add_mset (if r > 0 then WRegister q else WIdle) ws\<rparr>"])
          (auto simp: sys_cost_def Execute_done_def)
    qed
  next
    case (WRegister q)
    with jq_step.worker_register [of s q ws] assms(3) show ?thesis
      by (intro exI [of _ "s\<lparr>js_global := GlobalQueue_Push q (js_global s), js_workers := add_mset WIdle ws\<rparr>"])
        (simp add: sys_cost_def GlobalQueue_Push_def)
  qed (use assms(4) in simp)
qed

lemma idle_worker_pops:
  assumes "js_workers s = add_mset WIdle ws" "js_global s \<noteq> []"
  shows "\<exists>s'. jq_step s s' \<and> size (js_pushers s') \<le> size (js_pushers s) \<and> sys_cost s' < sys_cost s"
proof -
  obtain q g where g: "js_global s = q # g" using assms(2) by (cases "js_global s") auto
  with jq_step.pop [of s ws q g] assms(1) show ?thesis
    by (intro exI [of _ "s\<lparr>js_global := g, js_workers := add_mset (WPopped q) ws\<rparr>"])
      (simp add: sys_cost_def GlobalQueue_Pop_def)
qed

text \<open>When nothing is left to be done but by the producers and the main thread.\<close>

lemma quiet_sys:
  assumes "q_inv () s" "js_pushers s = {#}" "\<forall>w \<in># js_workers s. w = WIdle" "js_global s = []"
  shows "js_executed s () = js_stored s ()" "jq_jobCount (js_queue s ()) = 0"
proof -
  have none: "filter_mset (worker_on ()) (js_workers s) = {#}" using assms(3) by (auto simp: filter_mset_eq_conv)
  then have "tokens () s = 0" using assms(2,4) by (simp add: tokens_def)
  then have o: "outstanding () s = 0" using assms(1) by (simp add: q_inv_def split: if_splits)
  then show "jq_jobCount (js_queue s ()) = 0" using assms(1) by (simp add: q_inv_def)
  show "js_executed s () = js_stored s ()" using o none assms(1) by (simp add: q_inv_def outstanding_def)
qed

lemma jt_progress:
  assumes inv: "jt_inv target x" and "target \<le> 2147483647" and not_done: "\<not> (jt_stop x \<and> js_workers (jt_sys x) = {#})"
  shows "\<exists>y. jt_step target x y \<and> jt_cost y < jt_cost x"
proof -
  let ?s = "jt_sys x"
  have q: "q_inv () ?s" using inv by (simp add: jt_inv_def jq_inv_def Let_def)
  have sys: ?thesis
    if "\<exists>s'. jq_step ?s s' \<and> size (js_pushers s') \<le> size (js_pushers ?s) \<and> sys_cost s' < sys_cost ?s"
    using that jt_step.run [of x _ target] by (auto simp: jt_cost_def intro!: exI [of _ "x\<lparr>jt_sys := _\<rparr>"])
  have workers: "js_workers ?s \<noteq> {#}" using inv not_done by (auto simp: jt_inv_def Let_def)
  show ?thesis
  proof (cases "js_pushers ?s = {#}")
    case False
    then show ?thesis using pusher_goes_on sys by (metis multiset_cases)
  next
    case push: True
    show ?thesis
    proof (cases "\<exists>w \<in># js_workers ?s. w \<noteq> WIdle")
      case True
      then obtain w ws where "js_workers ?s = add_mset w ws" "w \<noteq> WIdle" by (metis mset_add)
      then show ?thesis using worker_goes_on [OF q push] sys by blast
    next
      case False
      then obtain ws where ws: "js_workers ?s = add_mset WIdle ws" using workers by (metis multiset_cases union_single_eq_member)
      show ?thesis
      proof (cases "js_global ?s = []")
        case global: True
        have idle: "\<forall>w \<in># js_workers ?s. w = WIdle" using False by blast
        note quiet = quiet_sys [OF q push idle global]
        show ?thesis
        proof (cases "sum_list (jt_todo x) = 0")
          case todo: True
          have "int target \<le> GetScore x"
            using inv push todo quiet(1) jt_score [OF inv assms(2)] by (simp add: jt_inv_def Let_def)
          then have "jt_step target x (x\<lparr>jt_stop := True\<rparr>)" by (rule jt_step.stop [OF todo push])
          moreover have "jt_step target x (x\<lparr>jt_sys := ?s\<lparr>js_workers := ws\<rparr>\<rparr>)" if "jt_stop x"
            using that global by (intro jt_step.leave [OF _ _ ws]) (simp_all add: GlobalQueue_GetCount_def)
          moreover have "sys_cost (?s\<lparr>js_workers := ws\<rparr>) < sys_cost ?s" using ws by (simp add: sys_cost_def)
          ultimately show ?thesis
            by (intro exI [of _ "if jt_stop x then x\<lparr>jt_sys := ?s\<lparr>js_workers := ws\<rparr>\<rparr> else x\<lparr>jt_stop := True\<rparr>"])
              (simp add: jt_cost_def)
        next
          case False
          then obtain as n bs where todo: "jt_todo x = as @ Suc n # bs"
            by (metis not0_implies_Suc split_list sum_list_eq_0_iff)
          obtain c jq where c: "jobCount_fetch_add (js_queue ?s ()) = (c, jq)" by fastforce
          let ?s' = "?s\<lparr>js_queue := (js_queue ?s)(() := jq), js_pushers := add_mset (PAdded () 1 c) (js_pushers ?s)\<rparr>"
          have "jq_step ?s ?s'" using quiet(2) by (intro jq_step.push_add [OF _ c]) simp
          then have "jt_step target x (x\<lparr>jt_sys := ?s', jt_todo := as @ n # bs\<rparr>)"
            by (rule jt_step.push [OF todo]) simp
          moreover have "sys_cost ?s' = 9 + sys_cost ?s" using c by (auto simp: sys_cost_def jobCount_fetch_add_def)
          ultimately show ?thesis
            using todo by (intro exI [of _ "x\<lparr>jt_sys := ?s', jt_todo := as @ n # bs\<rparr>"]) (simp add: jt_cost_def)
        qed
      qed (use idle_worker_pops [OF ws] sys in blast)
    qed
  qed
qed

lemma jt_can_end:
  assumes "jt_inv target x" "target \<le> 2147483647"
  shows "\<exists>y. (jt_step target)\<^sup>*\<^sup>* x y \<and> jt_stop y \<and> js_workers (jt_sys y) = {#}"
  using assms(1)
proof (induction "jt_cost x" arbitrary: x rule: less_induct)
  case less
  show ?case
  proof (cases "jt_stop x \<and> js_workers (jt_sys x) = {#}")
    case False
    then obtain y where y: "jt_step target x y" "jt_cost y < jt_cost x" using jt_progress [OF less.prems assms(2)] by blast
    then show ?thesis
      using less.hyps [OF y(2) jt_inv_step [OF y(1) less.prems assms(2)]] by (meson converse_rtranclp_into_rtranclp)
  qed auto
qed

section \<open>Property\<close>

text \<open>
  C23: The test of the job system passes. With any producers and workers, however they interleave: the score never
  exceeds the number of jobs; when the workers are told to stop it is this number; and from wherever the
  test has got to, it can get to its end, where all workers have left, so that neither a deadlock nor a lost job can
  keep it from passing.
\<close>

theorem job_system_test:
  assumes "jt_reach todos workers x" "0 < workers" "sum_list todos \<le> 2147483647"
  shows "0 \<le> GetScore x \<and> GetScore x \<le> int (sum_list todos) \<and> (jt_stop x \<longrightarrow> GetScore x = int (sum_list todos)) \<and>
    (\<exists>y. (jt_step (sum_list todos))\<^sup>*\<^sup>* x y \<and> jt_stop y \<and> js_workers (jt_sys y) = {#} \<and>
      GetScore y = int (sum_list todos))"
proof -
  have stopped: "GetScore y = int (sum_list todos)" if "jt_inv (sum_list todos) y" "jt_stop y" for y
    using jt_score [OF that(1) assms(3)] that by (simp add: jt_inv_def Let_def)
  note inv = jt_reach_inv [OF assms]
  obtain y where y: "(jt_step (sum_list todos))\<^sup>*\<^sup>* x y" "jt_stop y" "js_workers (jt_sys y) = {#}"
    using jt_can_end [OF inv assms(3)] by blast
  then have "jt_inv (sum_list todos) y"
    using jt_reach_inv [OF _ assms(2,3)] assms(1) by (meson rtranclp_trans)
  then show ?thesis using y stopped inv jt_score [OF inv assms(3)] by auto
qed

theorem job_system_test_witness:
  "\<exists>y. jt_reach (replicate PRODUCER_THREADS JOBS_PER_THREAD) 2 y \<and> jt_stop y \<and> js_workers (jt_sys y) = {#} \<and>
    GetScore y = 4000"
  using job_system_test [of "replicate PRODUCER_THREADS JOBS_PER_THREAD" 2, OF rtranclp.rtrancl_refl]
  by (simp add: PRODUCER_THREADS_def JOBS_PER_THREAD_def sum_list_replicate)

end
