(* ===== verification/Lifecycle.thy ===== *)
theory Lifecycle
  imports Listener Service
begin

text \<open>
  The life of one session, from the request of its connection to its release: the completions that
  \<^verbatim>\<open>IocpCore.cpp\<close> hands to \<open>Session::Dispatch\<close>, the calls of the program on the session, and the set of
  sessions of the service, which \<open>ProcessConnect\<close> enters and \<open>ProcessDisconnect\<close> leaves. \<open>Session\<close> has the
  operations; here they come in any order, as often as the events of the session allow.

  The threads interleave inside the operations that make and end a connection: \<open>ProcessConnect\<close> is four steps
  (\<open>_connected\<close> is set, \<open>AddSession\<close>, \<open>OnConnected\<close>, \<open>RegisterRecv\<close>), \<open>ProcessDisconnect\<close> two (\<open>OnDisconnected\<close>,
  \<open>ReleaseSession\<close>), the \<open>Disconnect\<close> of a thread two (the exchange of \<open>_connected\<close>, \<open>RegisterDisconnect\<close>), and the
  completion of a request is taken off the port in a step of its own. A call of \<open>Send\<close> and the processing of a
  completed receive or send are one step here, the disconnect they may end in included; \<open>SessionSend\<close> has the sends
  in finer steps.
\<close>

section \<open>What the program may do with a session\<close>

datatype call =
    CallSend "send_buffer option" os_result os_result
  | CallSendMany "send_buffer list" os_result os_result
  | CallDisconnect os_result

fun run_call :: "call \<Rightarrow> session \<Rightarrow> session" where
  "run_call (CallSend sb w d) s = Session_Send sb w d s"
| "run_call (CallSendMany sbs w d) s = Session_Send_many sbs w d s"
| "run_call (CallDisconnect d) s = Session_Disconnect d s"

text \<open>The result of \<open>DisconnectEx\<close>, should the call come to that.\<close>

fun call_dex :: "call \<Rightarrow> os_result" where
  "call_dex (CallSend sb w d) = d"
| "call_dex (CallSendMany sbs w d) = d"
| "call_dex (CallDisconnect d) = d"

section \<open>The session and its service\<close>

text \<open>What a thread inside \<open>ProcessConnect\<close>, or inside \<open>ProcessDisconnect\<close>, does next.\<close>

datatype connect_pos = AtFlag | AtAdd | AtOnConnected | AtRecv
datatype leave_pos = AtOnDisconnected | AtRelease

text \<open>
  The session is number 0 of the service. \<open>lr_accepting\<close>: an accept is under way that will connect it; \<open>lr_shared\<close>:
  the program has a reference to the session before the service does (its factory kept one); \<open>lr_connects\<close> and
  \<open>lr_leaves\<close>: the threads inside \<open>ProcessConnect\<close> and \<open>ProcessDisconnect\<close>; \<open>lr_posting\<close>: the threads that have
  exchanged \<open>_connected\<close> and not yet called \<open>RegisterDisconnect\<close>. \<open>lr_added\<close>, \<open>lr_entered\<close>, \<open>lr_left\<close> and
  \<open>lr_released\<close> count the calls of \<open>AddSession\<close>, \<open>OnConnected\<close>, \<open>OnDisconnected\<close> and \<open>ReleaseSession\<close>; \<open>lr_stopped\<close>:
  \<open>Service::Stop\<close> has cleared the set.
\<close>

record life_run =
  lr_session :: session
  lr_service :: "nat service"
  lr_accepting :: bool
  lr_shared :: bool
  lr_connects :: "connect_pos list"
  lr_leaves :: "leave_pos list"
  lr_posting :: nat
  lr_added :: nat
  lr_entered :: nat
  lr_left :: nat
  lr_released :: nat
  lr_stopped :: bool

text \<open>The owner of an event is this session or nobody; \<open>IocpCore::Dispatch\<close> takes it away.\<close>

fun event_owner :: "EventType \<Rightarrow> session \<Rightarrow> bool" where
  "event_owner EvConnect s = ss_connectOwner s"
| "event_owner EvDisconnect s = ss_disconnectOwner s"
| "event_owner EvRecv s = ss_recvOwner s"
| "event_owner EvSend s = ss_sendOwner s"
| "event_owner EvAccept s = False"

fun clear_event :: "EventType \<Rightarrow> session \<Rightarrow> session" where
  "clear_event EvConnect s = s\<lparr>ss_connectOwner := False\<rparr>"
| "clear_event EvDisconnect s = s\<lparr>ss_disconnectOwner := False\<rparr>"
| "clear_event EvRecv s = s\<lparr>ss_recvOwner := False\<rparr>"
| "clear_event EvSend s = s\<lparr>ss_sendOwner := False\<rparr>"
| "clear_event EvAccept s = s"

definition life_owner :: "EventType \<Rightarrow> life_run res \<Rightarrow> unit option" where
  "life_owner e w = (case w of Inl _ \<Rightarrow> None | Inr x \<Rightarrow> if event_owner e (lr_session x) then Some () else None)"

definition life_clear :: "EventType \<Rightarrow> life_run res \<Rightarrow> life_run res" where
  "life_clear e w = map_sum (\<lambda>f. f) (\<lambda>x. x\<lparr>lr_session := clear_event e (lr_session x)\<rparr>) w"

text \<open>
  A completion processed without another thread in between: \<open>AddSession\<close> with \<open>OnConnected\<close>, \<open>OnDisconnected\<close> with
  \<open>ReleaseSession\<close>. The hooks may use the session.
\<close>

definition life_entered :: "call list \<Rightarrow> session \<times> life_run \<Rightarrow> session \<times> life_run" where
  "life_entered calls = (\<lambda>(s, x).
     (fold run_call calls s, x\<lparr>lr_service := AddSession 0 (lr_service x), lr_added := Suc (lr_added x), lr_entered := Suc (lr_entered x)\<rparr>))"

definition life_left :: "call list \<Rightarrow> session \<times> life_run \<Rightarrow> session \<times> life_run" where
  "life_left calls = (\<lambda>(s, x).
     (fold run_call calls s, x\<lparr>lr_service := ReleaseSession 0 (lr_service x), lr_left := Suc (lr_left x), lr_released := Suc (lr_released x)\<rparr>))"

text \<open>The hook a completion comes to makes the calls, and \<open>OnRecv\<close> says it took \<open>processed\<close> bytes.\<close>

definition life_object ::
    "call list \<Rightarrow> int32 \<Rightarrow> os_result \<Rightarrow> os_result \<Rightarrow> unit \<Rightarrow> EventType \<Rightarrow> int32 \<Rightarrow> life_run res \<Rightarrow> life_run res" where
  "life_object calls processed io d obj e numOfBytes w =
     res_bind w (\<lambda>x.
     res_bind (Session_Dispatch (\<lambda>_ _ (s, c). Ok (processed, fold run_call calls s, c))
        (life_entered calls) (life_left calls) e numOfBytes io d (lr_session x, x)) (\<lambda>(s, x).
     Ok (x\<lparr>lr_session := s\<rparr>)))"

definition life_dispatch ::
    "call list \<Rightarrow> int32 \<Rightarrow> os_result \<Rightarrow> os_result \<Rightarrow> bool \<Rightarrow> int32 \<Rightarrow> EventType option \<Rightarrow> int32 \<Rightarrow>
     life_run \<Rightarrow> bool \<times> life_run res" where
  "life_dispatch calls processed io d ok numOfBytes e errCode x =
     IocpCore_Dispatch life_owner life_clear (life_object calls processed io d) ok numOfBytes e errCode (Ok x)"

section \<open>The steps\<close>

text \<open>\<open>Disconnect\<close> in its two parts: the exchange, and \<open>RegisterDisconnect\<close> if it returned true.\<close>

definition Disconnect_exchange :: "session \<Rightarrow> bool \<times> session" where
  "Disconnect_exchange s = (ss_connected s, s\<lparr>ss_connected := False\<rparr>)"

lemma Session_Disconnect_parts:
  "Session_Disconnect d s =
     (let (was, s1) = Disconnect_exchange s in if \<not> was then s1 else snd (RegisterDisconnect d s1))"
  by (simp add: Session_Disconnect_def Disconnect_exchange_def)

text \<open>Who can call an operation of the session: it is shared, or has been in the service.\<close>

definition known :: "life_run \<Rightarrow> bool" where
  "known x \<longleftrightarrow> lr_shared x \<or> lr_added x > 0"

text \<open>
  \<open>dex\<close> are the results that \<open>DisconnectEx\<close> may give. \<open>connect_completes\<close> and \<open>disconnect_completes\<close> are
  \<open>IocpCore::Dispatch\<close> up to the call of \<open>Session::Dispatch\<close>, with whatever status; \<open>accept\<close> is the call of
  \<open>ProcessConnect\<close> by \<open>Listener::ProcessAccept\<close>. The steps \<open>connect_...\<close> and \<open>leave_...\<close> are the two operations;
  what the hooks do with the session are steps \<open>call\<close>, as is what any other thread does. \<open>completion\<close> is a completed
  receive or send. \<open>clear\<close> is the end of \<open>Service::Stop\<close>, whose calls of \<open>Disconnect\<close> are steps \<open>exchange\<close> and \<open>post\<close>
  (that it holds the lock of the service meanwhile is not used). \<open>others\<close> are the other sessions of the service.
\<close>

inductive life_step :: "(os_result \<Rightarrow> bool) \<Rightarrow> life_run \<Rightarrow> life_run \<Rightarrow> bool" for dex where
  connect_completes: "event_owner EvConnect (lr_session x) \<Longrightarrow>
    life_step dex x (x\<lparr>lr_session := clear_event EvConnect (lr_session x), lr_connects := AtFlag # lr_connects x\<rparr>)"
| accept: "lr_accepting x \<Longrightarrow> life_step dex x (x\<lparr>lr_accepting := False, lr_connects := AtFlag # lr_connects x\<rparr>)"
| connect_flag: "lr_connects x = as @ AtFlag # bs \<Longrightarrow>
    life_step dex x (x\<lparr>lr_session := (lr_session x)\<lparr>ss_connectOwner := False, ss_connected := True\<rparr>,
      lr_connects := as @ AtAdd # bs\<rparr>)"
| connect_add: "lr_connects x = as @ AtAdd # bs \<Longrightarrow>
    life_step dex x (x\<lparr>lr_service := AddSession 0 (lr_service x), lr_added := Suc (lr_added x),
      lr_connects := as @ AtOnConnected # bs\<rparr>)"
| connect_notify: "lr_connects x = as @ AtOnConnected # bs \<Longrightarrow>
    life_step dex x (x\<lparr>lr_entered := Suc (lr_entered x), lr_connects := as @ AtRecv # bs\<rparr>)"
| connect_recv: "lr_connects x = as @ AtRecv # bs \<Longrightarrow> dex d \<Longrightarrow>
    life_step dex x (x\<lparr>lr_session := RegisterRecv io d (lr_session x), lr_connects := as @ bs\<rparr>)"
| disconnect_completes: "event_owner EvDisconnect (lr_session x) \<Longrightarrow>
    life_step dex x (x\<lparr>lr_session := clear_event EvDisconnect (lr_session x), lr_leaves := AtOnDisconnected # lr_leaves x\<rparr>)"
| leave_notify: "lr_leaves x = as @ AtOnDisconnected # bs \<Longrightarrow>
    life_step dex x (x\<lparr>lr_session := (lr_session x)\<lparr>ss_disconnectOwner := False\<rparr>, lr_left := Suc (lr_left x),
      lr_leaves := as @ AtRelease # bs\<rparr>)"
| leave_release: "lr_leaves x = as @ AtRelease # bs \<Longrightarrow>
    life_step dex x (x\<lparr>lr_service := ReleaseSession 0 (lr_service x), lr_released := Suc (lr_released x),
      lr_leaves := as @ bs\<rparr>)"
| exchange: "known x \<Longrightarrow> Disconnect_exchange (lr_session x) = (was, s') \<Longrightarrow>
    life_step dex x (x\<lparr>lr_session := s', lr_posting := lr_posting x + (if was then 1 else 0)\<rparr>)"
| post: "lr_posting x > 0 \<Longrightarrow> dex d \<Longrightarrow> RegisterDisconnect d (lr_session x) = (posted, s') \<Longrightarrow>
    life_step dex x (x\<lparr>lr_session := s', lr_posting := lr_posting x - 1\<rparr>)"
| call: "known x \<Longrightarrow> dex (call_dex c) \<Longrightarrow> life_step dex x (x\<lparr>lr_session := run_call c (lr_session x)\<rparr>)"
| completion: "e \<noteq> Some EvConnect \<Longrightarrow> e \<noteq> Some EvDisconnect \<Longrightarrow> dex d \<Longrightarrow> \<forall>c \<in> set calls. dex (call_dex c) \<Longrightarrow>
    life_dispatch calls processed io d ok numOfBytes e errCode x = (handled, Ok y) \<Longrightarrow> life_step dex x y"
| clear: "life_step dex x (x\<lparr>lr_service := (lr_service x)\<lparr>sv_sessions := []\<rparr>, lr_stopped := True\<rparr>)"
| others: "0 \<in> set (sv_sessions sv') \<longleftrightarrow> 0 \<in> set (sv_sessions (lr_service x)) \<Longrightarrow>
    life_step dex x (x\<lparr>lr_service := sv'\<rparr>)"

abbreviation life_reach :: "(os_result \<Rightarrow> bool) \<Rightarrow> life_run \<Rightarrow> life_run \<Rightarrow> bool" where
  "life_reach dex \<equiv> (life_step dex)\<^sup>*\<^sup>*"

text \<open>A session made by the service, that is being accepted, or on which \<open>Connect\<close> has been called.\<close>

definition life_start :: "life_run \<Rightarrow> bool" where
  "life_start x \<longleftrightarrow> lr_connects x = [] \<and> lr_leaves x = [] \<and> lr_posting x = 0 \<and> lr_added x = 0 \<and> lr_entered x = 0 \<and>
     lr_left x = 0 \<and> lr_released x = 0 \<and> \<not> lr_stopped x \<and> 0 \<notin> set (sv_sessions (lr_service x)) \<and>
     (\<exists>rb. lr_accepting x \<and> lr_session x = Session_new rb \<or>
        \<not> lr_accepting x \<and> (\<exists>bound registered c d. lr_session x = snd (Session_Connect bound registered c d (Session_new rb))))"

text \<open>\<open>ProcessConnect\<close> and \<open>ProcessDisconnect\<close> as \<open>Session\<close> has them are runs of these steps.\<close>

lemma calls_reach:
  assumes "known x" "\<forall>c \<in> set calls. dex (call_dex c)"
  shows "life_reach dex x (x\<lparr>lr_session := fold run_call calls (lr_session x)\<rparr>)"
  using assms
proof (induction calls arbitrary: x)
  case (Cons c calls)
  have "life_step dex x (x\<lparr>lr_session := run_call c (lr_session x)\<rparr>)" using Cons.prems by (intro life_step.call) simp_all
  moreover have "known (x\<lparr>lr_session := run_call c (lr_session x)\<rparr>)" using Cons.prems(1) by (simp add: known_def)
  note Cons.IH [OF this]
  ultimately show ?case using Cons.prems(2) by (simp add: converse_rtranclp_into_rtranclp)
qed simp

lemma dispatch_connect_steps:
  assumes "life_dispatch calls processed io d ok numOfBytes (Some EvConnect) errCode x = (handled, Ok y)"
    and "event_owner EvConnect (lr_session x)" "ok \<or> errCode \<noteq> WAIT_TIMEOUT" "dex d" "\<forall>c \<in> set calls. dex (call_dex c)"
  shows "life_reach dex x y"
proof -
  let ?s1 = "clear_event EvConnect (lr_session x)"
  let ?s2 = "?s1\<lparr>ss_connectOwner := False, ss_connected := True\<rparr>"
  let ?s3 = "fold run_call calls ?s2"
  define x1 where "x1 = x\<lparr>lr_session := ?s1, lr_connects := AtFlag # lr_connects x\<rparr>"
  define x2 where "x2 = x1\<lparr>lr_session := ?s2, lr_connects := AtAdd # lr_connects x\<rparr>"
  define x3 where "x3 = x2\<lparr>lr_service := AddSession 0 (lr_service x), lr_added := Suc (lr_added x),
      lr_connects := AtOnConnected # lr_connects x\<rparr>"
  define x4 where "x4 = x3\<lparr>lr_entered := Suc (lr_entered x), lr_connects := AtRecv # lr_connects x\<rparr>"
  define x5 where "x5 = x4\<lparr>lr_session := ?s3\<rparr>"
  have "life_step dex x x1" unfolding x1_def by (rule life_step.connect_completes [OF assms(2)])
  moreover have "life_step dex x1 x2"
    using life_step.connect_flag [of x1 "[]" "lr_connects x" dex] by (simp add: x2_def x1_def)
  moreover have "life_step dex x2 x3"
    using life_step.connect_add [of x2 "[]" "lr_connects x" dex] by (simp add: x3_def x2_def x1_def)
  moreover have "life_step dex x3 x4"
    using life_step.connect_notify [of x3 "[]" "lr_connects x" dex] by (simp add: x4_def x3_def x2_def x1_def)
  moreover have "life_reach dex x4 x5"
    using calls_reach [of x4 calls dex] assms(5) by (simp add: x5_def x4_def x3_def x2_def x1_def known_def)
  moreover have "life_step dex x5 (x5\<lparr>lr_session := RegisterRecv io d ?s3, lr_connects := lr_connects x\<rparr>)"
    using life_step.connect_recv [of x5 "[]" "lr_connects x" dex d io] assms(4) by (simp add: x5_def x4_def)
  moreover have "y = x5\<lparr>lr_session := RegisterRecv io d ?s3, lr_connects := lr_connects x\<rparr>"
    using assms(1-3)
    by (auto simp: life_dispatch_def IocpCore_Dispatch_def life_owner_def life_clear_def life_object_def Session_Dispatch_def
        ProcessConnect_def life_entered_def x5_def x4_def x3_def x2_def x1_def Let_def split: if_splits)
  ultimately show ?thesis by (meson converse_rtranclp_into_rtranclp rtranclp_trans r_into_rtranclp)
qed

lemma dispatch_disconnect_steps:
  assumes "life_dispatch calls processed io d ok numOfBytes (Some EvDisconnect) errCode x = (handled, Ok y)"
    and "event_owner EvDisconnect (lr_session x)" "ok \<or> errCode \<noteq> WAIT_TIMEOUT" "known x" "\<forall>c \<in> set calls. dex (call_dex c)"
  shows "life_reach dex x y"
proof -
  let ?s1 = "clear_event EvDisconnect (lr_session x)"
  let ?s2 = "fold run_call calls ?s1"
  define x1 where "x1 = x\<lparr>lr_session := ?s1, lr_leaves := AtOnDisconnected # lr_leaves x\<rparr>"
  define x2 where "x2 = x1\<lparr>lr_left := Suc (lr_left x), lr_leaves := AtRelease # lr_leaves x\<rparr>"
  define x3 where "x3 = x2\<lparr>lr_session := ?s2\<rparr>"
  have "life_step dex x x1" unfolding x1_def by (rule life_step.disconnect_completes [OF assms(2)])
  moreover have "life_step dex x1 x2"
    using life_step.leave_notify [of x1 "[]" "lr_leaves x" dex] by (simp add: x2_def x1_def)
  moreover have "life_reach dex x2 x3"
    using calls_reach [of x2 calls dex] assms(4,5) by (simp add: x3_def x2_def x1_def known_def)
  moreover have "life_step dex x3 (x3\<lparr>lr_service := ReleaseSession 0 (lr_service x), lr_released := Suc (lr_released x),
      lr_leaves := lr_leaves x\<rparr>)"
    using life_step.leave_release [of x3 "[]" "lr_leaves x" dex] by (simp add: x3_def x2_def x1_def)
  moreover have "y = x3\<lparr>lr_service := ReleaseSession 0 (lr_service x), lr_released := Suc (lr_released x), lr_leaves := lr_leaves x\<rparr>"
    using assms(1-3)
    by (auto simp: life_dispatch_def IocpCore_Dispatch_def life_owner_def life_clear_def life_object_def Session_Dispatch_def
        ProcessDisconnect_def life_left_def x3_def x2_def x1_def Let_def split: if_splits)
  ultimately show ?thesis by (meson converse_rtranclp_into_rtranclp rtranclp_trans r_into_rtranclp)
qed

section \<open>How an operation may change the connection\<close>

text \<open>
  Not at all; or it disconnects, and posts the one request; or it disconnects, and \<open>DisconnectEx\<close> refuses.
\<close>

definition never_refused :: "(os_result \<Rightarrow> bool) \<Rightarrow> bool" where
  "never_refused dex \<longleftrightarrow> (\<forall>d. dex d \<longrightarrow> os_posted d)"

definition always_refused :: "(os_result \<Rightarrow> bool) \<Rightarrow> bool" where
  "always_refused dex \<longleftrightarrow> (\<forall>d. dex d \<longrightarrow> \<not> os_posted d)"

definition goes :: "(os_result \<Rightarrow> bool) \<Rightarrow> session \<Rightarrow> session \<Rightarrow> bool" where
  "goes dex s s' \<longleftrightarrow> ss_connectOwner s' = ss_connectOwner s \<and>
     (ss_connected s' = ss_connected s \<and> ss_disconnectOwner s' = ss_disconnectOwner s \<and> disconnects s' = disconnects s \<or>
      ss_connected s \<and> \<not> ss_connected s' \<and> ss_disconnectOwner s' \<and> disconnects s' = Suc (disconnects s) \<and>
        \<not> always_refused dex \<or>
      ss_connected s \<and> \<not> ss_connected s' \<and> \<not> ss_disconnectOwner s' \<and> disconnects s' = disconnects s \<and>
        \<not> never_refused dex)"

lemma goes_same:
  "ss_connectOwner s' = ss_connectOwner s \<Longrightarrow> ss_connected s' = ss_connected s \<Longrightarrow>
   ss_disconnectOwner s' = ss_disconnectOwner s \<Longrightarrow> disconnects s' = disconnects s \<Longrightarrow> goes dex s s'"
  by (simp add: goes_def)

lemma goes_refl [simp]: "goes dex s s"
  by (simp add: goes_same)

lemma goes_trans [trans]: "goes dex s s1 \<Longrightarrow> goes dex s1 s2 \<Longrightarrow> goes dex s s2"
  unfolding goes_def by fastforce

lemma disconnects_post [simp]:
  "disconnects (post q s) = disconnects s + (if q = PostDisconnect then 1 else 0)"
  by (simp add: disconnects_def post_def)

lemma post_simps [simp]:
  "ss_connected (post q s) = ss_connected s" "ss_connectOwner (post q s) = ss_connectOwner s"
  "ss_disconnectOwner (post q s) = ss_disconnectOwner s"
  by (simp_all add: post_def)

lemma disconnects_update [simp]:
  "disconnects (s\<lparr>ss_connected := b\<rparr>) = disconnects s" "disconnects (s\<lparr>ss_recvBuffer := rb\<rparr>) = disconnects s"
  "disconnects (s\<lparr>ss_sendQueue := q\<rparr>) = disconnects s" "disconnects (s\<lparr>ss_isSending := b\<rparr>) = disconnects s"
  "disconnects (s\<lparr>ss_sendOffset := k\<rparr>) = disconnects s" "disconnects (s\<lparr>ss_sendEvent := q\<rparr>) = disconnects s"
  "disconnects (s\<lparr>ss_sendOwner := b\<rparr>) = disconnects s" "disconnects (s\<lparr>ss_recvOwner := b\<rparr>) = disconnects s"
  "disconnects (s\<lparr>ss_connectOwner := b\<rparr>) = disconnects s" "disconnects (s\<lparr>ss_disconnectOwner := b\<rparr>) = disconnects s"
  by (simp_all add: disconnects_def)

lemma Disconnect_goes: "dex d \<Longrightarrow> goes dex s (Session_Disconnect d s)"
  by (auto simp: goes_def never_refused_def always_refused_def Session_Disconnect_def RegisterDisconnect_def Let_def)

lemma HandleError_goes: "dex d \<Longrightarrow> goes dex s (HandleError d e s)"
  by (simp add: HandleError_def Disconnect_goes)

text \<open>The members a wrapper writes besides do not matter.\<close>

lemma goes_wrap:
  assumes "goes dex s1 s2"
    and "ss_connectOwner s1 = ss_connectOwner s" "ss_connected s1 = ss_connected s"
      "ss_disconnectOwner s1 = ss_disconnectOwner s" "disconnects s1 = disconnects s"
    and "ss_connectOwner s' = ss_connectOwner s2" "ss_connected s' = ss_connected s2"
      "ss_disconnectOwner s' = ss_disconnectOwner s2" "disconnects s' = disconnects s2"
  shows "goes dex s s'"
  using assms by (simp add: goes_def)

lemma RegisterRecv_goes:
  assumes "dex d"
  shows "goes dex s (RegisterRecv r d s)"
proof -
  let ?s1 = "s\<lparr>ss_recvOwner := True\<rparr>"
  have posted: "goes dex s (post (PostRecv b) ?s1)" for b
    by (rule goes_same) simp_all
  have error: "goes dex s ((HandleError d e ?s1)\<lparr>ss_recvOwner := False\<rparr>)" for e
    by (rule goes_wrap [OF HandleError_goes [where dex = dex, OF assms, of ?s1 e]]) simp_all
  have full: "goes dex s (Session_Disconnect d ?s1)"
    by (rule goes_wrap [OF Disconnect_goes [where dex = dex, OF assms, of ?s1]]) simp_all
  show ?thesis using posted error full by (auto simp: RegisterRecv_def Let_def split: os_result.split)
qed

lemma RegisterSend_goes:
  assumes "dex d"
  shows "goes dex s (fst (RegisterSend w d s))"
proof -
  obtain popped bufs rest where g: "gather_loop (ss_sendOffset s) 0 (ss_sendQueue s) = (popped, bufs, rest)"
    by (metis prod_cases3)
  let ?s2 = "s\<lparr>ss_sendOwner := True, ss_sendQueue := rest, ss_sendEvent := ss_sendEvent s @ popped\<rparr>"
  have same: "goes dex s ?s2" "goes dex s (?s2\<lparr>ss_isSending := False, ss_sendOwner := False\<rparr>)"
      "goes dex s (post (PostSend b) ?s2)" for b
    by (rule goes_same; simp)+
  have error: "goes dex s ((HandleError d e ?s2)\<lparr>ss_sendOwner := False, ss_sendEvent := [], ss_isSending := False\<rparr>)" for e
    by (rule goes_wrap [OF HandleError_goes [where dex = dex, OF assms, of ?s2 e]]) simp_all
  show ?thesis using same error g by (auto simp: RegisterSend_def Let_def split: os_result.split)
qed

lemma Send_push_goes:
  "Send_push sb s = (s1, b) \<Longrightarrow> goes dex s s1" "Send_push_many sbs s = (s2, c) \<Longrightarrow> goes dex s s2"
  by (rule goes_same; auto simp: Send_push_def Send_push_many_def split: if_splits)+

lemma run_call_goes:
  assumes "dex (call_dex c)"
  shows "goes dex s (run_call c s)"
proof (cases c)
  case (CallSend sbo w d)
  show ?thesis
  proof (cases sbo)
    case (Some sb)
    obtain s1 a b where p: "Send_push sb s = (s1, a, b)" by (metis prod_cases3)
    show ?thesis
      using Send_push_goes(1) [OF p, of dex] Disconnect_goes [of dex d s1] RegisterSend_goes [of dex d s1 w] assms CallSend Some p
      by (auto simp: Session_Send_def intro: goes_trans)
  qed (simp add: CallSend Session_Send_def)
next
  case (CallSendMany sbs w d)
  obtain s1 a b where p: "Send_push_many sbs s = (s1, a, b)" by (metis prod_cases3)
  show ?thesis
    using Send_push_goes(2) [OF p, of dex] Disconnect_goes [of dex d s1] RegisterSend_goes [of dex d s1 w] assms CallSendMany p
    by (auto simp: Session_Send_many_def intro: goes_trans)
qed (use assms Disconnect_goes in simp)

lemma run_calls_goes: "\<forall>c \<in> set calls. dex (call_dex c) \<Longrightarrow> goes dex s (fold run_call calls s)"
proof (induction calls arbitrary: s)
  case (Cons c calls)
  then show ?case using run_call_goes [of dex c s] goes_trans by fastforce
qed simp

lemma ProcessSend_goes:
  assumes "dex d"
  shows "goes dex s (ProcessSend n w d s)"
proof -
  let ?s1 = "s\<lparr>ss_sendOwner := False\<rparr>"
  obtain s2 b where u: "ProcessSend_update n ?s1 = (s2, b)" by fastforce
  have "goes dex s s2"
    using u by (intro goes_same) (auto simp: ProcessSend_update_def Let_def split: prod.splits if_splits)
  moreover have "goes dex s (Session_Disconnect d (?s1\<lparr>ss_sendEvent := []\<rparr>))"
    by (rule goes_wrap [OF Disconnect_goes [where dex = dex, OF assms, of "?s1\<lparr>ss_sendEvent := []\<rparr>"]]) simp_all
  ultimately show ?thesis
    using u RegisterSend_goes [where dex = dex, OF assms, of s2 w] by (auto simp: ProcessSend_def Let_def intro: goes_trans)
qed

lemma ProcessRecv_goes:
  assumes "dex d" "\<forall>c \<in> set calls. dex (call_dex c)"
    and "ProcessRecv (\<lambda>_ _ (s, c). Ok (processed, fold run_call calls s, c)) n r d (s, c) = Ok (s', c')"
  shows "goes dex s s'" "c' = c"
proof -
  let ?s1 = "s\<lparr>ss_recvOwner := False\<rparr>"
  have move: "goes dex s (?s1\<lparr>ss_recvBuffer := rb\<rparr>)" for rb by (rule goes_same) simp_all
  have run: "goes dex s (fold run_call calls (?s1\<lparr>ss_recvBuffer := rb\<rparr>))" for rb
    using goes_trans [OF move run_calls_goes [OF assms(2)]] .
  have ring: "goes dex s (s2\<lparr>ss_recvBuffer := rb\<rparr>)" if "goes dex s s2" for s2 rb
    by (rule goes_wrap [OF that]) simp_all
  have quit: "goes dex s (Session_Disconnect d s2)" "goes dex s (RegisterRecv r d s2)" if "goes dex s s2" for s2
    using goes_trans [OF that] Disconnect_goes [where dex = dex, OF assms(1)] RegisterRecv_goes [where dex = dex, OF assms(1)]
    by blast+
  have "goes dex s ?s1" by (rule goes_same) simp_all
  then show "goes dex s s'" "c' = c"
    using assms(3) quit ring run move
    by (auto simp: ProcessRecv_def Let_def res_iff split: if_splits prod.splits)
qed

section \<open>The stages of a session\<close>

text \<open>How far its connection is made, and how far it is ended.\<close>

datatype con_stage = CWaits | CDequeued | CFlagged | CAdded | CEntered | CDone
datatype dis_stage = DNone | DUp | DPosting | DWaits | DCompleted | DNotified | DGone | DRefused

definition in_service :: "life_run \<Rightarrow> bool" where
  "in_service x \<longleftrightarrow> 0 \<in> set (sv_sessions (lr_service x))"

definition requested :: "life_run \<Rightarrow> bool" where
  "requested x \<longleftrightarrow> lr_accepting x \<or> ss_connectOwner (lr_session x)"

definition con_is :: "connect_pos list \<Rightarrow> nat \<Rightarrow> nat \<Rightarrow> life_run \<Rightarrow> bool" where
  "con_is threads added entered x \<longleftrightarrow> lr_connects x = threads \<and> lr_added x = added \<and> lr_entered x = entered"

fun con_at :: "con_stage \<Rightarrow> life_run \<Rightarrow> bool" where
  "con_at CWaits x \<longleftrightarrow> con_is [] 0 0 x \<and> \<not> (lr_accepting x \<and> ss_connectOwner (lr_session x))"
| "con_at CDequeued x \<longleftrightarrow> con_is [AtFlag] 0 0 x \<and> \<not> requested x"
| "con_at CFlagged x \<longleftrightarrow> con_is [AtAdd] 0 0 x \<and> \<not> requested x"
| "con_at CAdded x \<longleftrightarrow> con_is [AtOnConnected] 1 0 x \<and> \<not> requested x"
| "con_at CEntered x \<longleftrightarrow> con_is [AtRecv] 1 1 x \<and> \<not> requested x"
| "con_at CDone x \<longleftrightarrow> con_is [] 1 1 x \<and> \<not> requested x"

definition dis_is :: "bool \<Rightarrow> nat \<Rightarrow> bool \<Rightarrow> leave_pos list \<Rightarrow> nat \<Rightarrow> nat \<Rightarrow> nat \<Rightarrow> life_run \<Rightarrow> bool" where
  "dis_is connected posting owner threads parted released requests x \<longleftrightarrow>
     ss_connected (lr_session x) = connected \<and> lr_posting x = posting \<and> ss_disconnectOwner (lr_session x) = owner \<and>
     lr_leaves x = threads \<and> lr_left x = parted \<and> lr_released x = released \<and> disconnects (lr_session x) = requests"

fun dis_at :: "dis_stage \<Rightarrow> life_run \<Rightarrow> bool" where
  "dis_at DNone x \<longleftrightarrow> dis_is False 0 False [] 0 0 0 x"
| "dis_at DUp x \<longleftrightarrow> dis_is True 0 False [] 0 0 0 x"
| "dis_at DPosting x \<longleftrightarrow> dis_is False 1 False [] 0 0 0 x"
| "dis_at DWaits x \<longleftrightarrow> dis_is False 0 True [] 0 0 1 x"
| "dis_at DCompleted x \<longleftrightarrow> dis_is False 0 False [AtOnDisconnected] 0 0 1 x"
| "dis_at DNotified x \<longleftrightarrow> dis_is False 0 False [AtRelease] 1 0 1 x"
| "dis_at DGone x \<longleftrightarrow> dis_is False 0 False [] 1 1 1 x"
| "dis_at DRefused x \<longleftrightarrow> dis_is False 0 False [] 0 0 0 x"

lemmas stage_defs = con_is_def dis_is_def requested_def

text \<open>Before the connection is flagged there is nothing to end; unless the session is shared, nor before \<open>AddSession\<close>.\<close>

definition early :: "con_stage \<Rightarrow> bool" where
  "early k \<longleftrightarrow> k = CWaits \<or> k = CDequeued"

definition fresh :: "session \<Rightarrow> bool" where
  "fresh s \<longleftrightarrow> \<not> ss_recvOwner s \<and> \<not> ss_sendOwner s"

definition service_ok :: "life_run \<Rightarrow> bool" where
  "service_ok x \<longleftrightarrow> (lr_added x = 1 \<and> lr_released x = 0 \<longrightarrow> in_service x \<or> lr_stopped x) \<and>
     (in_service x \<longrightarrow> lr_added x = 1) \<and> (\<not> lr_shared x \<and> in_service x \<longrightarrow> lr_released x = 0)"

definition stage :: "con_stage \<Rightarrow> dis_stage \<Rightarrow> life_run \<Rightarrow> bool" where
  "stage k q x \<longleftrightarrow> con_at k x \<and> dis_at q x \<and> (q = DNone \<longleftrightarrow> early k) \<and> service_ok x \<and>
     (\<not> lr_shared x \<longrightarrow> (early k \<or> k = CFlagged \<longrightarrow> fresh (lr_session x)) \<and> (k = CFlagged \<longrightarrow> q = DUp))"

text \<open>How the end may go on.\<close>

definition dis_next :: "(os_result \<Rightarrow> bool) \<Rightarrow> dis_stage \<Rightarrow> dis_stage \<Rightarrow> bool" where
  "dis_next dex q q' \<longleftrightarrow> q' = q \<or>
     (q, q') \<in> {(DNone, DUp), (DUp, DPosting), (DUp, DWaits), (DPosting, DWaits), (DWaits, DCompleted),
       (DCompleted, DNotified), (DNotified, DGone)} \<or>
     q' = DRefused \<and> (q = DUp \<or> q = DPosting) \<and> \<not> never_refused dex"

definition staged :: "(os_result \<Rightarrow> bool) \<Rightarrow> dis_stage \<Rightarrow> life_run \<Rightarrow> bool" where
  "staged dex q y \<longleftrightarrow> (\<exists>k' q'. stage k' q' y \<and> dis_next dex q q')"

lemma stagedI: "stage k q' y \<Longrightarrow> dis_next dex q q' \<Longrightarrow> staged dex q y"
  by (auto simp: staged_def)

lemma known_added: "\<not> lr_shared x \<Longrightarrow> known x \<Longrightarrow> con_at k x \<Longrightarrow> \<not> early k \<and> k \<noteq> CFlagged"
  by (cases k) (auto simp: known_def early_def con_is_def)

text \<open>What changes only the connection of the session.\<close>

lemma con_at_session:
  "ss_connectOwner s' = ss_connectOwner (lr_session x) \<Longrightarrow> con_at k (x\<lparr>lr_session := s'\<rparr>) = con_at k x"
  by (cases k) (simp_all add: stage_defs)

lemma service_ok_session [simp]: "service_ok (x\<lparr>lr_session := s'\<rparr>) = service_ok x"
  by (simp add: service_ok_def in_service_def)

lemma stage_goes:
  assumes "stage k q x" "goes dex (lr_session x) s'" "known x \<or> fresh s' \<and> ss_connected s' = ss_connected (lr_session x)"
  shows "staged dex q (x\<lparr>lr_session := s'\<rparr>)"
proof -
  let ?y = "x\<lparr>lr_session := s'\<rparr>"
  have st: "con_at k x" "dis_at q x" "q = DNone \<longleftrightarrow> early k" "service_ok x"
    "\<not> lr_shared x \<longrightarrow> (early k \<or> k = CFlagged \<longrightarrow> fresh (lr_session x)) \<and> (k = CFlagged \<longrightarrow> q = DUp)"
    using assms(1) by (auto simp: stage_def)
  have g: "ss_connectOwner s' = ss_connectOwner (lr_session x)" using assms(2) by (simp add: goes_def)
  have stay: "stage k q' ?y" if "dis_at q' ?y" "q' = DNone \<longleftrightarrow> q = DNone" "q' = DUp \<or> known x \<or> q \<noteq> DUp" for q'
    using st that assms(3) known_added [OF _ _ st(1)] con_at_session [OF g]
    by (auto simp: stage_def)
  have up: "ss_connected (lr_session x) \<longleftrightarrow> q = DUp" using st(2) by (cases q) (simp_all add: dis_is_def)
  have other: "known x" if "ss_connected (lr_session x)" "\<not> ss_connected s'" using assms(3) that by auto
  from assms(2) show ?thesis
  proof (unfold goes_def, elim conjE disjE)
    assume "ss_connected s' = ss_connected (lr_session x)" "ss_disconnectOwner s' = ss_disconnectOwner (lr_session x)"
      "disconnects s' = disconnects (lr_session x)"
    then have "dis_at q ?y" using st(2) by (cases q) (simp_all add: dis_is_def)
    then have "stage k q ?y" by (rule stay) auto
    then show ?thesis by (rule stagedI) (simp add: dis_next_def)
  next
    assume a: "ss_connected (lr_session x)" "\<not> ss_connected s'" "ss_disconnectOwner s'"
      "disconnects s' = Suc (disconnects (lr_session x))"
    then have "dis_at DWaits ?y" using st(2) up by (simp add: dis_is_def)
    then have "stage k DWaits ?y" by (rule stay) (use other a up in simp_all)
    then show ?thesis by (rule stagedI) (use a up in \<open>simp add: dis_next_def\<close>)
  next
    assume a: "ss_connected (lr_session x)" "\<not> ss_connected s'" "\<not> ss_disconnectOwner s'"
      "disconnects s' = disconnects (lr_session x)" "\<not> never_refused dex"
    then have "dis_at DRefused ?y" using st(2) up by (simp add: dis_is_def)
    then have "stage k DRefused ?y" by (rule stay) (use other a up in simp_all)
    then show ?thesis by (rule stagedI) (use a up in \<open>simp add: dis_next_def\<close>)
  qed
qed

text \<open>A completion that finds no owner changes nothing; else the operation of its event runs.\<close>

lemma life_dispatch_cases:
  assumes "life_dispatch calls processed io d ok numOfBytes e errCode x = (handled, Ok y)"
  obtains "y = x" | "\<exists>ev. y = x\<lparr>lr_session := clear_event ev (lr_session x)\<rparr> \<and> \<not> event_owner ev (lr_session x)"
  | ev where "e = Some ev" "event_owner ev (lr_session x)"
    "life_object calls processed io d () ev numOfBytes (Ok (x\<lparr>lr_session := clear_event ev (lr_session x)\<rparr>)) = Ok y"
proof (cases e)
  case None
  then show ?thesis using assms that(1) by (auto simp: life_dispatch_def IocpCore_Dispatch_def Let_def split: if_splits)
next
  case (Some ev)
  then show ?thesis
    using assms that
    by (cases "event_owner ev (lr_session x)")
      (auto simp: life_dispatch_def IocpCore_Dispatch_def life_owner_def life_clear_def Let_def split: if_splits)
qed

lemma clear_event_same: "\<not> event_owner ev s \<Longrightarrow> goes dex s (clear_event ev s)"
  by (cases ev) (simp_all add: goes_def)

lemma life_object_recv_send:
  assumes "dex d" "\<forall>c \<in> set calls. dex (call_dex c)" "ev = EvRecv \<or> ev = EvSend"
    and "life_object calls processed io d () ev n (Ok (x\<lparr>lr_session := clear_event ev (lr_session x)\<rparr>)) = Ok y"
  shows "\<exists>s'. y = x\<lparr>lr_session := s'\<rparr> \<and> goes dex (lr_session x) s'"
  using assms(3)
proof
  assume ev: "ev = EvRecv"
  let ?s1 = "(lr_session x)\<lparr>ss_recvOwner := False\<rparr>"
  obtain s' x' where r: "y = x'\<lparr>lr_session := s'\<rparr>"
    "ProcessRecv (\<lambda>_ _ (s, c). Ok (processed, fold run_call calls s, c)) n io d (?s1, x\<lparr>lr_session := ?s1\<rparr>) = Ok (s', x')"
    using assms(4) ev by (auto simp: life_object_def Session_Dispatch_def res_iff)
  then have s': "y = x\<lparr>lr_session := s'\<rparr>" "goes dex ?s1 s'"
    using ProcessRecv_goes [where dex = dex, OF assms(1,2) r(2)] by simp_all
  have "goes dex (lr_session x) s'" by (rule goes_wrap [OF s'(2)]) simp_all
  then show ?thesis using s'(1) by blast
next
  assume ev: "ev = EvSend"
  let ?s1 = "(lr_session x)\<lparr>ss_sendOwner := False\<rparr>"
  have "goes dex ?s1 (ProcessSend n io d ?s1)" using assms(1) by (rule ProcessSend_goes)
  then have "goes dex (lr_session x) (ProcessSend n io d ?s1)" by (rule goes_wrap) simp_all
  moreover have "y = x\<lparr>lr_session := ProcessSend n io d ?s1\<rparr>"
    using assms(4) ev by (simp add: life_object_def Session_Dispatch_def)
  ultimately show ?thesis by blast
qed

section \<open>Every step keeps to the stages\<close>

lemma service_ok_add:
  "service_ok x \<Longrightarrow> lr_added x = 0 \<Longrightarrow> \<not> lr_shared x \<longrightarrow> lr_released x = 0 \<Longrightarrow>
   service_ok (x\<lparr>lr_service := AddSession 0 (lr_service x), lr_added := 1, lr_connects := l\<rparr>)"
  by (simp add: service_ok_def in_service_def AddSession_def)

lemma connects_one:
  assumes "con_at k x" "lr_connects x = as @ p # bs"
  shows "as = []" "bs = []" "p = AtFlag \<Longrightarrow> k = CDequeued" "p = AtAdd \<Longrightarrow> k = CFlagged"
    "p = AtOnConnected \<Longrightarrow> k = CAdded" "p = AtRecv \<Longrightarrow> k = CEntered"
  using assms by (cases k; auto simp: con_is_def append_eq_Cons_conv Cons_eq_append_conv)+

lemma leaves_one:
  assumes "dis_at q x" "lr_leaves x = as @ p # bs"
  shows "as = []" "bs = []" "p = AtOnDisconnected \<Longrightarrow> q = DCompleted" "p = AtRelease \<Longrightarrow> q = DNotified"
  using assms by (cases q; auto simp: dis_is_def append_eq_Cons_conv Cons_eq_append_conv)+

lemma stage_requested:
  assumes "stage k q x" "requested x"
  shows "k = CWaits" "q = DNone"
  using assms by (cases k; simp add: stage_def early_def con_is_def)+

lemma stage_known:
  "stage k q x \<Longrightarrow> known x \<or> fresh (lr_session x)"
  by (cases k) (auto simp: stage_def known_def con_is_def early_def)

text \<open>The steps of \<open>ProcessConnect\<close>, then those that end the connection.\<close>

lemma connect_stage:
  assumes "stage k q x" "con_at k' y" "lr_shared y = lr_shared x" "service_ok y"
    and "dis_at q' y" "q' = DNone \<longleftrightarrow> early k'" "dis_next dex q q'"
    and "\<not> lr_shared x \<Longrightarrow> (early k' \<or> k' = CFlagged \<longrightarrow> fresh (lr_session y)) \<and> (k' = CFlagged \<longrightarrow> q' = DUp)"
  shows "staged dex q y"
  using assms by (intro stagedI [of k' q']) (simp_all add: stage_def)

lemma dis_at_same:
  "lr_session y = lr_session x \<or> ss_connected (lr_session y) = ss_connected (lr_session x) \<and>
     ss_disconnectOwner (lr_session y) = ss_disconnectOwner (lr_session x) \<and> disconnects (lr_session y) = disconnects (lr_session x) \<Longrightarrow>
   lr_posting y = lr_posting x \<Longrightarrow> lr_leaves y = lr_leaves x \<Longrightarrow> lr_left y = lr_left x \<Longrightarrow> lr_released y = lr_released x \<Longrightarrow>
   dis_at q y = dis_at q x"
  by (cases q) (auto simp: dis_is_def)

lemma con_at_same:
  "ss_connectOwner (lr_session y) = ss_connectOwner (lr_session x) \<Longrightarrow> lr_accepting y = lr_accepting x \<Longrightarrow>
   lr_connects y = lr_connects x \<Longrightarrow> lr_added y = lr_added x \<Longrightarrow> lr_entered y = lr_entered x \<Longrightarrow> con_at k y = con_at k x"
  by (cases k) (simp_all add: stage_defs)

lemma service_ok_same:
  "lr_service y = lr_service x \<Longrightarrow> lr_added y = lr_added x \<Longrightarrow> lr_released y = lr_released x \<Longrightarrow> lr_stopped y = lr_stopped x \<Longrightarrow>
   lr_shared y = lr_shared x \<Longrightarrow> service_ok y = service_ok x"
  by (simp add: service_ok_def in_service_def)

lemma fresh_update [simp]:
  "fresh (s\<lparr>ss_connected := b\<rparr>) = fresh s" "fresh (s\<lparr>ss_connectOwner := b\<rparr>) = fresh s" "fresh (s\<lparr>ss_disconnectOwner := b\<rparr>) = fresh s"
  by (simp_all add: fresh_def)

text \<open>A completed receive or send, on the session alone.\<close>

lemma completion_session:
  assumes "e \<noteq> Some EvConnect" "e \<noteq> Some EvDisconnect" "dex d" "\<forall>c \<in> set calls. dex (call_dex c)"
    and "life_dispatch calls processed io d ok numOfBytes e errCode x = (handled, Ok y)"
  shows "\<exists>s'. y = x\<lparr>lr_session := s'\<rparr> \<and> goes dex (lr_session x) s' \<and>
    (fresh (lr_session x) \<longrightarrow> fresh s' \<and> ss_connected s' = ss_connected (lr_session x))"
proof (rule life_dispatch_cases [OF assms(5)])
  assume "y = x"
  then show ?thesis by (intro exI [of _ "lr_session x"]) simp
next
  assume "\<exists>ev. y = x\<lparr>lr_session := clear_event ev (lr_session x)\<rparr> \<and> \<not> event_owner ev (lr_session x)"
  then obtain ev where ev: "y = x\<lparr>lr_session := clear_event ev (lr_session x)\<rparr>" "\<not> event_owner ev (lr_session x)" by blast
  have "fresh (lr_session x) \<longrightarrow> fresh (clear_event ev (lr_session x)) \<and>
      ss_connected (clear_event ev (lr_session x)) = ss_connected (lr_session x)"
    by (cases ev) (auto simp: fresh_def)
  then show ?thesis using clear_event_same [OF ev(2)] ev(1) by blast
next
  fix ev
  assume ev: "e = Some ev" "event_owner ev (lr_session x)"
    and run: "life_object calls processed io d () ev numOfBytes (Ok (x\<lparr>lr_session := clear_event ev (lr_session x)\<rparr>)) = Ok y"
  have rs: "ev = EvRecv \<or> ev = EvSend" using assms(1,2) ev by (cases ev) simp_all
  then have "\<not> fresh (lr_session x)" using ev(2) by (auto simp: fresh_def)
  then show ?thesis using life_object_recv_send [where dex = dex, OF assms(3,4) rs run] by blast
qed

lemma life_step_stage:
  assumes "life_step dex x y" "stage k q x"
  shows "staged dex q y"
  using assms
proof (induction rule: life_step.induct)
  case (connect_completes x)
  note k = stage_requested [OF connect_completes(2)]
  have r: "requested x" using connect_completes(1) by (simp add: requested_def)
  show ?case
    by (rule connect_stage [OF connect_completes(2), of CDequeued _ DNone])
      (use connect_completes k [OF r] in \<open>auto simp: stage_def stage_defs early_def dis_next_def fresh_def
         intro: service_ok_same [THEN iffD2]\<close>)
next
  case (accept x)
  note k = stage_requested [OF accept(2)]
  have r: "requested x" using accept(1) by (simp add: requested_def)
  show ?case
    by (rule connect_stage [OF accept(2), of CDequeued _ DNone])
      (use accept k [OF r] in \<open>auto simp: stage_def stage_defs early_def dis_next_def fresh_def
         intro: service_ok_same [THEN iffD2]\<close>)
next
  case (connect_flag x as bs)
  have c: "con_at k x" using connect_flag(2) by (simp add: stage_def)
  note o = connects_one [OF c connect_flag(1)]
  show ?case
    by (rule connect_stage [OF connect_flag(2), of CFlagged _ DUp])
      (use connect_flag o in \<open>auto simp: stage_def stage_defs early_def dis_next_def
         intro: service_ok_same [THEN iffD2]\<close>)
next
  case (connect_add x as bs)
  have c: "con_at k x" using connect_add(2) by (simp add: stage_def)
  note o = connects_one [OF c connect_add(1)]
  have k: "k = CFlagged" using o by simp
  have st: "con_at k x" "dis_at q x" "q \<noteq> DNone" "service_ok x" "\<not> lr_shared x \<longrightarrow> q = DUp"
    using connect_add(2) k by (auto simp: stage_def early_def)
  have a: "lr_added x = 0" using c k by (simp add: con_is_def)
  have nr: "\<not> lr_shared x \<longrightarrow> lr_released x = 0" using st(2,5) by (auto simp: dis_is_def)
  show ?case
    by (rule connect_stage [OF connect_add(2), of CAdded _ q])
      (use st o k a service_ok_add [OF st(4) a nr, of "[AtOnConnected]"] dis_at_same [of "x\<lparr>lr_service := AddSession 0 (lr_service x), lr_added := 1, lr_connects := [AtOnConnected]\<rparr>" x q]
        in \<open>simp_all add: stage_defs early_def dis_next_def\<close>)
next
  case (connect_notify x as bs)
  have c: "con_at k x" using connect_notify(2) by (simp add: stage_def)
  note o = connects_one [OF c connect_notify(1)]
  have k: "k = CAdded" using o by simp
  let ?y = "x\<lparr>lr_entered := Suc (lr_entered x), lr_connects := as @ AtRecv # bs\<rparr>"
  have "dis_at q ?y = dis_at q x" by (rule dis_at_same) simp_all
  moreover have "service_ok ?y = service_ok x" by (rule service_ok_same) simp_all
  ultimately show ?case
    by (intro connect_stage [OF connect_notify(2), of CEntered _ q])
      (use connect_notify o k in \<open>simp_all add: stage_def stage_defs early_def dis_next_def\<close>)
next
  case (connect_recv x as bs d io)
  have c: "con_at k x" using connect_recv(3) by (simp add: stage_def)
  note o = connects_one [OF c connect_recv(1)]
  have k: "k = CEntered" using o by simp
  let ?y = "x\<lparr>lr_connects := as @ bs\<rparr>"
  have "dis_at q ?y = dis_at q x" by (rule dis_at_same) simp_all
  moreover have "service_ok ?y = service_ok x" by (rule service_ok_same) simp_all
  ultimately have "stage CDone q ?y"
    using connect_recv(3) o k by (simp add: stage_def stage_defs early_def)
  moreover have "known ?y" using c k by (simp add: known_def con_is_def)
  ultimately show ?case
    using stage_goes [of CDone q ?y dex "RegisterRecv io d (lr_session x)"] RegisterRecv_goes [where dex = dex, OF connect_recv(2), of "lr_session x" io]
    by (cases x) simp
next
  case (disconnect_completes x)
  have "q = DWaits" using disconnect_completes by (cases q) (auto simp: stage_def dis_is_def)
  moreover have "con_at k (x\<lparr>lr_session := clear_event EvDisconnect (lr_session x), lr_leaves := AtOnDisconnected # lr_leaves x\<rparr>)"
    using disconnect_completes(2) by (subst con_at_same [of _ x]) (simp_all add: stage_def)
  ultimately show ?case
    by (intro connect_stage [OF disconnect_completes(2), of k _ DCompleted])
      (use disconnect_completes(2) in \<open>auto simp: stage_def dis_is_def dis_next_def intro: service_ok_same [THEN iffD2]\<close>)
next
  case (leave_notify x as bs)
  have c: "dis_at q x" using leave_notify(2) by (simp add: stage_def)
  note o = leaves_one [OF c leave_notify(1)]
  have "con_at k (x\<lparr>lr_session := (lr_session x)\<lparr>ss_disconnectOwner := False\<rparr>, lr_left := Suc (lr_left x), lr_leaves := as @ AtRelease # bs\<rparr>)"
    using leave_notify(2) by (subst con_at_same [of _ x]) (simp_all add: stage_def)
  then show ?case
    by (intro connect_stage [OF leave_notify(2), of k _ DNotified])
      (use leave_notify(2) o in \<open>auto simp: stage_def dis_is_def dis_next_def intro: service_ok_same [THEN iffD2]\<close>)
next
  case (leave_release x as bs)
  have c: "dis_at q x" using leave_release(2) by (simp add: stage_def)
  note o = leaves_one [OF c leave_release(1)]
  have "con_at k (x\<lparr>lr_service := ReleaseSession 0 (lr_service x), lr_released := Suc (lr_released x), lr_leaves := as @ bs\<rparr>)"
    using leave_release(2) by (subst con_at_same [of _ x]) (simp_all add: stage_def)
  moreover have "service_ok (x\<lparr>lr_service := ReleaseSession 0 (lr_service x), lr_released := Suc (lr_released x), lr_leaves := as @ bs\<rparr>)"
    by (simp add: service_ok_def in_service_def ReleaseSession_def)
  ultimately show ?case
    by (intro connect_stage [OF leave_release(2), of k _ DGone])
      (use leave_release(2) o in \<open>auto simp: stage_def dis_is_def dis_next_def\<close>)
next
  case (exchange x was s')
  have e: "was = ss_connected (lr_session x)" "s' = (lr_session x)\<lparr>ss_connected := False\<rparr>"
    using exchange(2) by (simp_all add: Disconnect_exchange_def)
  have c: "con_at k x" "dis_at q x" using exchange(3) by (simp_all add: stage_def)
  let ?y = "x\<lparr>lr_session := s', lr_posting := lr_posting x + (if was then 1 else 0)\<rparr>"
  have cy: "con_at k ?y" using c by (subst con_at_same [of _ x]) (simp_all add: e)
  have sy: "service_ok ?y" using exchange(3) by (subst service_ok_same [of _ x]) (simp_all add: stage_def)
  have kn: "\<not> lr_shared x \<longrightarrow> \<not> early k \<and> k \<noteq> CFlagged" using known_added [OF _ exchange(1) c(1)] by blast
  show ?case
  proof (cases was)
    case True
    then have q: "q = DUp" using c(2) e(1) by (cases q) (simp_all add: dis_is_def)
    show ?thesis
      by (rule connect_stage [OF exchange(3) cy, of DPosting])
        (use exchange(3) c sy kn q True e in \<open>auto simp: stage_def dis_is_def dis_next_def\<close>)
  next
    case False
    have dy: "dis_at q ?y" using c(2) False by (subst dis_at_same [of _ x]) (simp_all add: e)
    show ?thesis
      by (rule connect_stage [OF exchange(3) cy _ sy dy])
        (use exchange(3) kn in \<open>auto simp: stage_def dis_next_def\<close>)
  qed
next
  case (post x d posted s')
  have c: "con_at k x" "dis_at q x" using post(4) by (simp_all add: stage_def)
  have q: "q = DPosting" using c(2) post(1) by (cases q) (simp_all add: dis_is_def)
  let ?y = "x\<lparr>lr_session := s', lr_posting := lr_posting x - 1\<rparr>"
  have k: "\<not> early k" "\<not> lr_shared x \<longrightarrow> k \<noteq> CFlagged" using post(4) q by (auto simp: stage_def)
  have cy: "con_at k ?y"
    using c post(3) by (subst con_at_same [of _ x]) (auto simp: RegisterDisconnect_def Let_def split: if_splits)
  have sy: "service_ok ?y" using post(4) by (subst service_ok_same [of _ x]) (simp_all add: stage_def)
  show ?case
  proof (cases "os_posted d")
    case True
    then have dy: "dis_at DWaits ?y" using c(2) q post(3) by (auto simp: dis_is_def RegisterDisconnect_def Let_def)
    show ?thesis by (rule connect_stage [OF post(4) cy _ sy dy]) (use k q in \<open>auto simp: dis_next_def\<close>)
  next
    case False
    then have dy: "dis_at DRefused ?y" using c(2) q post(3) by (auto simp: dis_is_def RegisterDisconnect_def Let_def)
    have "\<not> never_refused dex" using False post(2) by (auto simp: never_refused_def)
    then show ?thesis by (intro connect_stage [OF post(4) cy _ sy dy]) (use k q in \<open>auto simp: dis_next_def\<close>)
  qed
next
  case (call x c)
  then show ?case using stage_goes [OF call(3) run_call_goes [where dex = dex, OF call(2)]] by simp
next
  case (completion e d calls processed io ok numOfBytes errCode x handled y)
  show ?case using stage_known [OF completion(6)] completion_session [where dex = dex, OF completion(1-5)] stage_goes [OF completion(6)] by metis
next
  case (clear x)
  let ?y = "x\<lparr>lr_service := (lr_service x)\<lparr>sv_sessions := []\<rparr>, lr_stopped := True\<rparr>"
  have "con_at k ?y = con_at k x" "dis_at q ?y = dis_at q x" by (rule con_at_same dis_at_same; simp)+
  moreover have "service_ok ?y" by (simp add: service_ok_def in_service_def)
  ultimately show ?case using clear by (intro stagedI [of k q]) (simp_all add: stage_def dis_next_def)
next
  case (others sv' x)
  let ?y = "x\<lparr>lr_service := sv'\<rparr>"
  have "con_at k ?y = con_at k x" "dis_at q ?y = dis_at q x" by (rule con_at_same dis_at_same; simp)+
  moreover have "service_ok ?y = service_ok x" using others(1) by (simp add: service_ok_def in_service_def)
  ultimately show ?case using others(2) by (intro stagedI [of k q]) (simp_all add: stage_def dis_next_def)
qed

text \<open>And so does every run; a refused disconnect is final.\<close>

lemma life_reach_stage:
  assumes "life_reach dex x y" "stage k q x"
  shows "\<exists>k' q'. stage k' q' y \<and> (dis_next dex)\<^sup>*\<^sup>* q q'"
  using assms(1)
proof (induction rule: rtranclp_induct)
  case base
  then show ?case using assms(2) by blast
next
  case (step y z)
  then obtain k' q' where "stage k' q' y" "(dis_next dex)\<^sup>*\<^sup>* q q'" by blast
  then show ?case
    using life_step_stage [OF step.hyps(2)] by (meson staged_def rtranclp.rtrancl_into_rtrancl)
qed

lemma dis_next_refused: "(dis_next dex)\<^sup>*\<^sup>* DRefused q \<Longrightarrow> q = DRefused"
  by (induction rule: rtranclp_induct) (auto simp: dis_next_def)

lemma dis_next_never: "(dis_next dex)\<^sup>*\<^sup>* q q' \<Longrightarrow> never_refused dex \<Longrightarrow> q \<noteq> DRefused \<Longrightarrow> q' \<noteq> DRefused"
  by (induction rule: rtranclp_induct) (auto simp: dis_next_def)

lemma life_step_kept: "life_step dex x y \<Longrightarrow> lr_shared y = lr_shared x \<and> lr_added x \<le> lr_added y"
proof (induction rule: life_step.induct)
  case (completion e d calls processed io ok numOfBytes errCode x handled y)
  show ?case using completion_session [where dex = dex, OF completion] by auto
qed simp_all

lemma life_reach_kept: "life_reach dex x y \<Longrightarrow> lr_shared y = lr_shared x \<and> lr_added x \<le> lr_added y"
  by (induction rule: rtranclp_induct) (use life_step_kept in fastforce)+

lemma life_start_stage:
  assumes "life_start x"
  shows "stage CWaits DNone x"
proof -
  have new: "disconnects (Session_new rb) = 0" "\<not> ss_connected (Session_new rb)" "\<not> ss_connectOwner (Session_new rb)"
    "\<not> ss_disconnectOwner (Session_new rb)" "fresh (Session_new rb)" for rb
    by (simp_all add: Session_new_def disconnects_def fresh_def)
  have fresh_post: "fresh (post q s) = fresh s" for q s by (simp add: fresh_def post_def)
  have connect: "disconnects s = 0 \<and> \<not> ss_connected s \<and> \<not> ss_disconnectOwner s \<and> fresh s"
    if "s = snd (Session_Connect bound registered c d (Session_new rb))" for s bound registered c d rb
    using that new [of rb] unfolding Session_Connect_def RegisterConnect_def Let_def
    by (auto simp: HandleError_def Session_Disconnect_def fresh_post split: os_result.split)
  have "disconnects (lr_session x) = 0 \<and> \<not> ss_connected (lr_session x) \<and> \<not> ss_disconnectOwner (lr_session x) \<and>
      fresh (lr_session x) \<and> \<not> (lr_accepting x \<and> ss_connectOwner (lr_session x))"
    using assms new connect unfolding life_start_def by metis
  then show ?thesis
    using assms by (simp add: life_start_def stage_def con_is_def dis_is_def early_def service_ok_def in_service_def)
qed

text \<open>Once the exchange is done, the end only waits for its own steps.\<close>

definition same_con :: "life_run \<Rightarrow> life_run \<Rightarrow> bool" where
  "same_con x y \<longleftrightarrow> lr_connects y = lr_connects x \<and> lr_added y = lr_added x \<and> lr_entered y = lr_entered x"

lemma end_steps:
  "dis_at DUp x \<Longrightarrow> known x \<Longrightarrow> \<exists>y. life_step dex x y \<and> dis_at DPosting y \<and> same_con x y"
  "dis_at DPosting x \<Longrightarrow> dex d \<Longrightarrow> os_posted d \<Longrightarrow> \<exists>y. life_step dex x y \<and> dis_at DWaits y \<and> same_con x y"
  "dis_at DWaits x \<Longrightarrow> \<exists>y. life_step dex x y \<and> dis_at DCompleted y \<and> same_con x y"
  "dis_at DCompleted x \<Longrightarrow> \<exists>y. life_step dex x y \<and> dis_at DNotified y \<and> same_con x y"
  "dis_at DNotified x \<Longrightarrow> \<exists>y. life_step dex x y \<and> dis_at DGone y \<and> same_con x y"
proof -
  assume a: "dis_at DUp x" "known x"
  obtain was s' where e: "Disconnect_exchange (lr_session x) = (was, s')" by fastforce
  show "\<exists>y. life_step dex x y \<and> dis_at DPosting y \<and> same_con x y"
    by (intro exI conjI, rule life_step.exchange [OF a(2) e]) (use a e in \<open>auto simp: dis_is_def same_con_def Disconnect_exchange_def\<close>)
next
  assume a: "dis_at DPosting x" "dex d" "os_posted d"
  then have p: "lr_posting x > 0" by (simp add: dis_is_def)
  obtain posted s' where e: "RegisterDisconnect d (lr_session x) = (posted, s')" by fastforce
  show "\<exists>y. life_step dex x y \<and> dis_at DWaits y \<and> same_con x y"
    by (intro exI conjI, rule life_step.post [where dex = dex, OF p a(2) e])
      (use a e in \<open>auto simp: dis_is_def same_con_def RegisterDisconnect_def Let_def\<close>)
next
  assume a: "dis_at DWaits x"
  then have p: "event_owner EvDisconnect (lr_session x)" by (simp add: dis_is_def)
  show "\<exists>y. life_step dex x y \<and> dis_at DCompleted y \<and> same_con x y"
    by (intro exI conjI, rule life_step.disconnect_completes [OF p]) (use a in \<open>auto simp: dis_is_def same_con_def\<close>)
next
  assume a: "dis_at DCompleted x"
  then have p: "lr_leaves x = [] @ AtOnDisconnected # []" by (simp add: dis_is_def)
  show "\<exists>y. life_step dex x y \<and> dis_at DNotified y \<and> same_con x y"
    by (intro exI conjI, rule life_step.leave_notify [OF p]) (use a in \<open>auto simp: dis_is_def same_con_def\<close>)
next
  assume a: "dis_at DNotified x"
  then have p: "lr_leaves x = [] @ AtRelease # []" by (simp add: dis_is_def)
  show "\<exists>y. life_step dex x y \<and> dis_at DGone y \<and> same_con x y"
    by (intro exI conjI, rule life_step.leave_release [OF p]) (use a in \<open>auto simp: dis_is_def same_con_def\<close>)
qed

definition ends_from :: "(os_result \<Rightarrow> bool) \<Rightarrow> life_run \<Rightarrow> bool" where
  "ends_from dex x \<longleftrightarrow> (\<exists>z. life_reach dex x z \<and> dis_at DGone z \<and> same_con x z)"

lemma ends_from_step: "\<exists>y. life_step dex x y \<and> dis_at q y \<and> same_con x y \<Longrightarrow> (\<And>y. dis_at q y \<Longrightarrow> ends_from dex y) \<Longrightarrow> ends_from dex x"
  unfolding ends_from_def same_con_def by (metis converse_rtranclp_into_rtranclp)

lemma ends_from_gone: "dis_at DGone x \<Longrightarrow> ends_from dex x"
  unfolding ends_from_def by (intro exI [of _ x]) (simp add: same_con_def)

lemma stage_ends:
  assumes "stage k q x" "q \<noteq> DNone" "q \<noteq> DRefused" "q = DUp \<longrightarrow> known x" "dex d" "os_posted d"
  shows "ends_from dex x"
proof -
  have notified: "ends_from dex y" if "dis_at DNotified y" for y
    using ends_from_step [OF end_steps(5) [OF that] ends_from_gone] .
  have completed: "ends_from dex y" if "dis_at DCompleted y" for y
    using ends_from_step [OF end_steps(4) [OF that] notified] .
  have waits: "ends_from dex y" if "dis_at DWaits y" for y
    using ends_from_step [OF end_steps(3) [OF that] completed] .
  have posting: "ends_from dex y" if "dis_at DPosting y" for y
    using ends_from_step [OF end_steps(2) [where dex = dex, OF that assms(5,6)] waits] .
  have up: "ends_from dex y" if "dis_at DUp y" "known y" for y
    using ends_from_step [OF end_steps(1) [OF that] posting] .
  have "dis_at q x" using assms(1) by (simp add: stage_def)
  then show ?thesis
    using assms(2-4) up posting waits completed notified ends_from_gone by (cases q) auto
qed

lemma stage_facts:
  assumes "stage k q x"
  shows "lr_entered x \<le> lr_added x" "lr_added x \<le> 1" "lr_released x \<le> lr_left x" "lr_left x \<le> 1" "disconnects (lr_session x) \<le> 1"
    "ss_connected (lr_session x) \<Longrightarrow> lr_left x = 0 \<and> disconnects (lr_session x) = 0"
    "lr_left x = 1 \<Longrightarrow> disconnects (lr_session x) = 1"
    "lr_added x = 1 \<Longrightarrow> lr_released x = 0 \<Longrightarrow> in_service x \<or> lr_stopped x" "in_service x \<Longrightarrow> lr_added x = 1"
    "\<not> lr_shared x \<Longrightarrow> lr_left x \<le> lr_added x" "\<not> lr_shared x \<Longrightarrow> in_service x \<Longrightarrow> lr_released x = 0"
proof -
  have c: "con_at k x" and d: "dis_at q x" and st: "q = DNone \<longleftrightarrow> early k" "service_ok x" "\<not> lr_shared x \<longrightarrow> k = CFlagged \<longrightarrow> q = DUp"
    using assms by (auto simp: stage_def)
  show "lr_entered x \<le> lr_added x" "lr_added x \<le> 1" using c by (cases k; simp add: con_is_def)+
  show "lr_released x \<le> lr_left x" "lr_left x \<le> 1" "disconnects (lr_session x) \<le> 1"
    "ss_connected (lr_session x) \<Longrightarrow> lr_left x = 0 \<and> disconnects (lr_session x) = 0"
    "lr_left x = 1 \<Longrightarrow> disconnects (lr_session x) = 1"
    using d by (cases q; simp add: dis_is_def)+
  show "lr_added x = 1 \<Longrightarrow> lr_released x = 0 \<Longrightarrow> in_service x \<or> lr_stopped x" "in_service x \<Longrightarrow> lr_added x = 1"
    "\<not> lr_shared x \<Longrightarrow> in_service x \<Longrightarrow> lr_released x = 0"
    using st(2) by (simp_all add: service_ok_def)
  show "\<not> lr_shared x \<Longrightarrow> lr_left x \<le> lr_added x"
    using c d st(1,3) by (cases k; cases q; simp add: con_is_def dis_is_def early_def)
qed

section \<open>The properties\<close>

text \<open>C4: Over every interleaving, \<open>AddSession\<close>, \<open>OnConnected\<close>, \<open>OnDisconnected\<close> and \<open>ReleaseSession\<close> are called at most
  once each on a session, \<open>OnConnected\<close> only after \<open>AddSession\<close> and \<open>ReleaseSession\<close> only after \<open>OnDisconnected\<close>, and
  one disconnect request is posted at most. While the session is connected \<open>OnDisconnected\<close> has not been called; when
  it has, the request was posted. From \<open>AddSession\<close> to \<open>ReleaseSession\<close> the session is in the service (unless that was
  stopped), and a session that only the service hands out is in the service exactly then, and never left before it
  was added. As long as \<open>DisconnectEx\<close> works, a session that was added and is not connected any more can always still
  be notified and released. What the code does not order is \<open>OnConnected\<close> before \<open>OnDisconnected\<close>: a session disconnected
  between \<open>AddSession\<close> and \<open>OnConnected\<close> can have \<open>OnDisconnected\<close> and \<open>ReleaseSession\<close> run first.\<close>

theorem session_lifecycle:
  assumes "life_start x" "life_reach dex x y"
  shows "lr_entered y \<le> lr_added y \<and> lr_added y \<le> 1 \<and> lr_released y \<le> lr_left y \<and> lr_left y \<le> 1 \<and>
    disconnects (lr_session y) \<le> 1 \<and>
    (ss_connected (lr_session y) \<longrightarrow> lr_left y = 0 \<and> disconnects (lr_session y) = 0) \<and>
    (lr_left y = 1 \<longrightarrow> disconnects (lr_session y) = 1) \<and>
    (lr_added y = 1 \<and> lr_released y = 0 \<longrightarrow> in_service y \<or> lr_stopped y) \<and> (in_service y \<longrightarrow> lr_added y = 1) \<and>
    (\<not> lr_shared y \<longrightarrow> lr_left y \<le> lr_added y \<and> (in_service y \<longrightarrow> lr_released y = 0)) \<and>
    (never_refused dex \<and> dex d \<and> lr_added y = 1 \<and> \<not> ss_connected (lr_session y) \<longrightarrow>
      (\<exists>z. life_reach dex y z \<and> lr_left z = 1 \<and> lr_released z = 1 \<and> (\<not> lr_shared y \<longrightarrow> \<not> in_service z))) \<and>
    (AtOnConnected \<in> set (lr_connects y) \<and> ss_connected (lr_session y) \<and> dex d \<and> os_posted d \<longrightarrow>
      (\<exists>z. life_reach dex y z \<and> lr_left z = 1 \<and> lr_released z = 1 \<and> lr_entered z = 0 \<and> AtOnConnected \<in> set (lr_connects z)))"
proof -
  obtain k q where st: "stage k q y" and next_q: "(dis_next dex)\<^sup>*\<^sup>* DNone q"
    using life_reach_stage [OF assms(2) life_start_stage [OF assms(1)]] by blast
  have c: "con_at k y" and d: "dis_at q y" and none: "q = DNone \<longleftrightarrow> early k" using st by (simp_all add: stage_def)
  have ending: "\<exists>z. life_reach dex y z \<and> lr_left z = 1 \<and> lr_released z = 1 \<and> (\<not> lr_shared y \<longrightarrow> \<not> in_service z)"
    if a: "never_refused dex" "dex d" "lr_added y = 1" "\<not> ss_connected (lr_session y)"
  proof -
    have "q \<noteq> DRefused" "q \<noteq> DUp" using dis_next_never [OF next_q a(1)] d a(4) by (auto simp: dis_is_def)
    moreover have "q \<noteq> DNone" using none c a(3) by (auto simp: early_def con_is_def)
    ultimately have "ends_from dex y"
      using stage_ends [where dex = dex and d = d, OF st] a(1,2) by (simp add: never_refused_def)
    then obtain z where z: "life_reach dex y z" "dis_at DGone z" by (auto simp: ends_from_def)
    obtain k' q' where "stage k' q' z" using life_reach_stage [OF z(1) st] by blast
    note stage_facts(11) [OF this]
    then show ?thesis using z life_reach_kept [OF z(1)] by (intro exI [of _ z]) (auto simp: dis_is_def)
  qed
  have early_end: "\<exists>z. life_reach dex y z \<and> lr_left z = 1 \<and> lr_released z = 1 \<and> lr_entered z = 0 \<and> AtOnConnected \<in> set (lr_connects z)"
    if a: "AtOnConnected \<in> set (lr_connects y)" "ss_connected (lr_session y)" "dex d" "os_posted d"
  proof -
    have "k = CAdded" using c a(1) by (cases k) (auto simp: con_is_def)
    then have k: "lr_entered y = 0" "known y" using c by (auto simp: con_is_def known_def)
    have "q = DUp" using d a(2) by (cases q) (auto simp: dis_is_def)
    then have "ends_from dex y" using stage_ends [where dex = dex and d = d, OF st] k(2) a(3,4) by simp
    then obtain z where "life_reach dex y z" "dis_at DGone z" "same_con y z" by (auto simp: ends_from_def)
    then show ?thesis using k(1) a(1) by (intro exI [of _ z]) (simp add: dis_is_def same_con_def)
  qed
  note facts = stage_facts [OF st]
  show ?thesis
    by (intro conjI impI; (elim conjE)?;
      rule facts(1-5,7-11) facts(6) [THEN conjunct1] facts(6) [THEN conjunct2] ending early_end; assumption)
qed

text \<open>C38: \<open>IocpCore::Dispatch\<close> hands on a failed completion like any other, and \<open>ProcessConnect\<close> does not look at a
  status: when a connection is refused, \<open>OnConnected\<close> is called all the same and the session enters the service.
  The receive it posts fails, \<open>DisconnectEx\<close> fails on a socket that is not connected, and from then on
  \<open>OnDisconnected\<close> is never called and the session stays in the service, whatever comes.\<close>

theorem refused_connection_stays:
  assumes "life_start x0" "life_reach dex x0 x" "ss_connectOwner (lr_session x)" "errCode \<noteq> WAIT_TIMEOUT"
    and "\<not> os_posted io" "\<not> os_posted d" "\<forall>c \<in> set calls. \<not> os_posted (call_dex c)"
  shows "\<exists>y. life_dispatch calls processed io d False numOfBytes (Some EvConnect) errCode x = (False, Ok y) \<and>
    lr_entered y = 1 \<and> \<not> ss_connected (lr_session y) \<and>
    (\<forall>dex' z. life_reach dex' y z \<longrightarrow> lr_left z = 0 \<and> (in_service z \<or> lr_stopped z))"
proof -
  let ?refused = "\<lambda>d. \<not> os_posted d"
  obtain k q where "stage k q x" using life_reach_stage [OF assms(2) life_start_stage [OF assms(1)]] by blast
  moreover have "requested x" using assms(3) by (simp add: requested_def)
  ultimately have x: "stage CWaits DNone x" using stage_requested by metis
  let ?s1 = "(lr_session x)\<lparr>ss_connectOwner := False, ss_connected := True\<rparr>"
  let ?s2 = "fold run_call calls ?s1"
  let ?y = "x\<lparr>lr_session := RegisterRecv io d ?s2, lr_service := AddSession 0 (lr_service x), lr_added := 1, lr_entered := 1\<rparr>"
  have run: "life_dispatch calls processed io d False numOfBytes (Some EvConnect) errCode x = (False, Ok ?y)"
    using assms(3,4) x
    by (cases x) (simp add: life_dispatch_def IocpCore_Dispatch_def life_owner_def life_clear_def life_object_def
        Session_Dispatch_def ProcessConnect_def life_entered_def Let_def stage_def con_is_def)
  have "goes ?refused ?s1 (RegisterRecv io d ?s2)"
    using goes_trans [OF run_calls_goes [of calls ?refused, OF assms(7)] RegisterRecv_goes [of ?refused, OF assms(6)]] .
  moreover have down: "\<not> ss_connected (RegisterRecv io d s)" for s
    using assms(5) by (cases io) (auto simp: RegisterRecv_def Let_def)
  ultimately have "stage CDone DRefused ?y"
    using x assms(3) by (auto simp: goes_def always_refused_def stage_def stage_defs early_def service_ok_def in_service_def AddSession_def)
  moreover have "lr_added ?y = 1" by simp
  ultimately have "lr_left z = 0 \<and> (in_service z \<or> lr_stopped z)" if z: "life_reach dex' ?y z" for dex' z
  proof -
    obtain k' q' where "stage k' q' z" "(dis_next dex')\<^sup>*\<^sup>* DRefused q'"
      using life_reach_stage [OF z \<open>stage CDone DRefused ?y\<close>] by blast
    then have z': "stage k' DRefused z" using dis_next_refused by blast
    moreover have "lr_added z \<ge> 1" using life_reach_kept [OF z] by simp
    ultimately show ?thesis using stage_facts(2,8) [OF z'] by (simp add: stage_def dis_is_def)
  qed
  then show ?thesis using run down by (intro exI [of _ ?y]) simp
qed

section \<open>Witnesses\<close>

definition small_ring :: ring_buffer where
  "small_ring = \<lparr>rb_buffer = replicate 16 0, rb_capacity = 16, rb_readPos = 0, rb_writePos = 0\<rparr>"

definition accepted_run :: life_run where
  "accepted_run = \<lparr>lr_session = Session_new small_ring, lr_service = Service_new 10, lr_accepting = True, lr_shared = False,
     lr_connects = [], lr_leaves = [], lr_posting = 0, lr_added = 0, lr_entered = 0, lr_left = 0, lr_released = 0,
     lr_stopped = False\<rparr>"

definition connecting_run :: life_run where
  "connecting_run = accepted_run\<lparr>lr_accepting := False,
     lr_session := snd (Session_Connect True True (OsError WSA_IO_PENDING) OsDone (Session_new small_ring))\<rparr>"

text \<open>A connection that is accepted and added to the service; one that is notified as well and then disconnected.\<close>

lemma accepted_run_life:
  "\<exists>y. life_reach os_posted accepted_run y \<and> lr_connects y = [AtOnConnected] \<and> ss_connected (lr_session y)"
  "\<exists>y. life_reach os_posted accepted_run y \<and> lr_added y = 1 \<and> lr_entered y = 1 \<and> \<not> lr_shared y \<and> \<not> ss_connected (lr_session y)"
proof -
  define x1 where "x1 = accepted_run\<lparr>lr_accepting := False, lr_connects := [AtFlag]\<rparr>"
  define x2 where "x2 = x1\<lparr>lr_session := (Session_new small_ring)\<lparr>ss_connected := True\<rparr>, lr_connects := [AtAdd]\<rparr>"
  define x3 where "x3 = x2\<lparr>lr_service := AddSession 0 (Service_new 10), lr_added := 1, lr_connects := [AtOnConnected]\<rparr>"
  define x4 where "x4 = x3\<lparr>lr_entered := 1, lr_connects := [AtRecv]\<rparr>"
  note defs = x1_def x2_def x3_def x4_def accepted_run_def Session_new_def
  have s1: "life_step os_posted accepted_run x1"
    using life_step.accept [of accepted_run os_posted] by (simp add: defs)
  have s2: "life_step os_posted x1 x2"
    using life_step.connect_flag [of x1 "[]" "[]" os_posted] by (simp add: defs)
  have s3: "life_step os_posted x2 x3"
    using life_step.connect_add [of x2 "[]" "[]" os_posted] by (simp add: defs)
  have s4: "life_step os_posted x3 x4"
    using life_step.connect_notify [of x3 "[]" "[]" os_posted] by (simp add: defs)
  have s5: "life_step os_posted x4 (x4\<lparr>lr_session := (lr_session x4)\<lparr>ss_connected := False\<rparr>, lr_posting := 1\<rparr>)"
    using life_step.exchange [of x4 True "(lr_session x4)\<lparr>ss_connected := False\<rparr>" os_posted]
    by (simp add: Disconnect_exchange_def known_def defs)
  have r3: "life_reach os_posted accepted_run x3" using s1 s2 s3 by simp
  moreover have "lr_connects x3 = [AtOnConnected]" "ss_connected (lr_session x3)" by (simp_all add: defs)
  ultimately show "\<exists>y. life_reach os_posted accepted_run y \<and> lr_connects y = [AtOnConnected] \<and> ss_connected (lr_session y)"
    by blast
  have "life_reach os_posted accepted_run (x4\<lparr>lr_session := (lr_session x4)\<lparr>ss_connected := False\<rparr>, lr_posting := 1\<rparr>)"
    using r3 s4 s5 by simp
  then show "\<exists>y. life_reach os_posted accepted_run y \<and> lr_added y = 1 \<and> lr_entered y = 1 \<and> \<not> lr_shared y \<and>
      \<not> ss_connected (lr_session y)"
    by (intro exI conjI, assumption) (simp_all add: defs)
qed

theorem session_lifecycle_witness:
  "(\<exists>y z. life_reach os_posted accepted_run y \<and> lr_entered y = 1 \<and> life_reach os_posted y z \<and> lr_released z = 1 \<and> \<not> in_service z) \<and>
   (\<exists>y z. life_reach os_posted accepted_run y \<and> life_reach os_posted y z \<and> lr_left z = 1 \<and> lr_released z = 1 \<and> lr_entered z = 0)"
proof (intro conjI)
  have s: "life_start accepted_run" by (auto simp: life_start_def accepted_run_def Service_new_def)
  obtain y where y: "life_reach os_posted accepted_run y" "lr_added y = 1" "lr_entered y = 1" "\<not> lr_shared y"
    "\<not> ss_connected (lr_session y)"
    using accepted_run_life(2) by blast
  show "\<exists>y z. life_reach os_posted accepted_run y \<and> lr_entered y = 1 \<and> life_reach os_posted y z \<and> lr_released z = 1 \<and> \<not> in_service z"
    using session_lifecycle [OF s y(1), of OsDone] y by (simp add: never_refused_def) blast
  obtain y where y: "life_reach os_posted accepted_run y" "lr_connects y = [AtOnConnected]" "ss_connected (lr_session y)"
    using accepted_run_life(1) by blast
  show "\<exists>y z. life_reach os_posted accepted_run y \<and> life_reach os_posted y z \<and> lr_left z = 1 \<and> lr_released z = 1 \<and> lr_entered z = 0"
    using session_lifecycle [OF s y(1), of OsDone] y by simp blast
qed

theorem refused_connection_stays_witness:
  "\<exists>y. life_dispatch [CallSend None OsDone (OsError 10057)] 0 (OsError 10057) (OsError 10057) False 0 (Some EvConnect) 1225
      connecting_run = (False, Ok y) \<and> in_service y"
proof -
  have s: "life_start connecting_run"
    unfolding life_start_def connecting_run_def by (simp add: accepted_run_def Service_new_def) blast
  have "ss_connectOwner (lr_session connecting_run)"
    by (simp add: connecting_run_def Session_Connect_def RegisterConnect_def Session_new_def post_def Let_def)
  from refused_connection_stays [OF s rtranclp.rtrancl_refl [of "life_step os_posted"] this, of 1225 "OsError 10057" "OsError 10057" "[CallSend None OsDone (OsError 10057)]" 0 0]
  obtain y where y: "life_dispatch [CallSend None OsDone (OsError 10057)] 0 (OsError 10057) (OsError 10057) False 0 (Some EvConnect) 1225
      connecting_run = (False, Ok y)" "\<forall>dex' z. life_reach dex' y z \<longrightarrow> lr_left z = 0 \<and> (in_service z \<or> lr_stopped z)"
    by (auto simp: WAIT_TIMEOUT_def WSA_IO_PENDING_def)
  have "\<not> lr_stopped y"
    using y(1) by (auto simp: life_dispatch_def IocpCore_Dispatch_def life_owner_def life_clear_def life_object_def Session_Dispatch_def
        ProcessConnect_def life_entered_def connecting_run_def accepted_run_def WAIT_TIMEOUT_def split: option.splits if_splits)
  then show ?thesis using y by blast
qed

end
