(* ===== verification/Sockets.thy ===== *)
theory Sockets
  imports Prelude
begin

text \<open>
  \<^verbatim>\<open>ServerEngine/Network/SocketUtils.cpp\<close> and \<^verbatim>\<open>NetAddress.cpp\<close>: the calls of Winsock the engine makes, with
  their arguments. Winsock itself is a parameter, a record of functions from the arguments of a call to what
  it returns; a handle is a number, and \<open>INVALID_SOCKET\<close> is \<open>None\<close>.
\<close>

section \<open>Addresses\<close>

text \<open>\<open>sin_port\<close> and \<open>sin_addr\<close> are in network byte order.\<close>

record SOCKADDR_IN =
  sin_family :: int32
  sin_addr :: uint32
  sin_port :: uint16

definition AF_INET :: int32 where "AF_INET = 2"

definition htons :: "uint16 \<Rightarrow> uint16" where
  "htons x = word_rotr 8 x"

definition ntohs :: "uint16 \<Rightarrow> uint16" where
  "ntohs x = word_rotl 8 x"

text \<open>
  \<open>pton\<close> is \<open>InetPtonW\<close>, which writes the address only if the text is one; \<open>garbage\<close> is what the local variable
  holds before. Nothing looks at the result of the call.
\<close>

definition Ip2Address :: "(16 word list \<Rightarrow> uint32 option) \<Rightarrow> uint32 \<Rightarrow> 16 word list \<Rightarrow> uint32" where
  "Ip2Address pton garbage ip = (case pton ip of Some a \<Rightarrow> a | None \<Rightarrow> garbage)"

definition NetAddress_new :: "(16 word list \<Rightarrow> uint32 option) \<Rightarrow> uint32 \<Rightarrow> 16 word list \<Rightarrow> uint16 \<Rightarrow> SOCKADDR_IN" where
  "NetAddress_new pton garbage ip port =
     \<lparr>sin_family = AF_INET, sin_addr = Ip2Address pton garbage ip, sin_port = htons port\<rparr>"

definition GetPort :: "SOCKADDR_IN \<Rightarrow> uint16" where
  "GetPort a = ntohs (sin_port a)"

text \<open>\<open>ntop\<close> is \<open>InetNtopW\<close>; the buffer of 64 characters is all zeros before, and a string ends at the first one.\<close>

definition GetIpAddress :: "(uint32 \<Rightarrow> 16 word list option) \<Rightarrow> SOCKADDR_IN \<Rightarrow> 16 word list" where
  "GetIpAddress ntop a = (case ntop (sin_addr a) of Some s \<Rightarrow> takeWhile (\<lambda>c. c \<noteq> 0) s | None \<Rightarrow> [])"

text \<open>What goes into an address comes out of it, if the text is one.\<close>

lemma NetAddress_roundtrip:
  assumes "pton ip = Some a" "ntop a = Some ip" "0 \<notin> set ip"
  shows "GetPort (NetAddress_new pton garbage ip port) = port"
    "GetIpAddress ntop (NetAddress_new pton garbage ip port) = ip"
proof -
  show "GetPort (NetAddress_new pton garbage ip port) = port"
    by (simp add: GetPort_def NetAddress_new_def htons_def ntohs_def)
  have "takeWhile (\<lambda>c. c \<noteq> 0) ip = ip" using assms(3) by (auto simp: takeWhile_eq_all_conv)
  then show "GetIpAddress ntop (NetAddress_new pton garbage ip port) = ip"
    using assms(1,2) by (simp add: GetIpAddress_def NetAddress_new_def Ip2Address_def)
qed

section \<open>Winsock\<close>

datatype guid = WSAID_CONNECTEX | WSAID_DISCONNECTEX | WSAID_ACCEPTEX

datatype sock_opt =
    OptInt int32
  | OptLinger uint16 uint16
  | OptSocket "nat option"
  | OptNull

record winsock =
  ws_WSAStartup :: "uint16 \<Rightarrow> int32"
  ws_WSASocketW :: "int32 \<Rightarrow> int32 \<Rightarrow> int32 \<Rightarrow> uint32 \<Rightarrow> nat option"
  ws_WSAIoctl :: "nat option \<Rightarrow> guid \<Rightarrow> int32"
  ws_setsockopt :: "nat option \<Rightarrow> int32 \<Rightarrow> int32 \<Rightarrow> sock_opt \<Rightarrow> int32"
  ws_bind :: "nat option \<Rightarrow> SOCKADDR_IN \<Rightarrow> int32"
  ws_listen :: "nat option \<Rightarrow> int32 \<Rightarrow> int32"

definition SOCKET_ERROR :: int32 where "SOCKET_ERROR = - 1"
definition SOCK_STREAM :: int32 where "SOCK_STREAM = 1"
definition IPPROTO_TCP :: int32 where "IPPROTO_TCP = 6"
definition WSA_FLAG_OVERLAPPED :: uint32 where "WSA_FLAG_OVERLAPPED = 1"
definition INADDR_ANY :: uint32 where "INADDR_ANY = 0"
definition SOL_SOCKET :: int32 where "SOL_SOCKET = 65535"
definition SO_LINGER :: int32 where "SO_LINGER = 128"
definition SO_REUSEADDR :: int32 where "SO_REUSEADDR = 4"
definition SO_RCVBUF :: int32 where "SO_RCVBUF = 4098"
definition SO_SNDBUF :: int32 where "SO_SNDBUF = 4097"
definition TCP_NODELAY :: int32 where "TCP_NODELAY = 1"
definition SO_UPDATE_ACCEPT_CONTEXT :: int32 where "SO_UPDATE_ACCEPT_CONTEXT = 28683"
definition SO_UPDATE_CONNECT_CONTEXT :: int32 where "SO_UPDATE_CONNECT_CONTEXT = 28688"

text \<open>The static pointers, set or null, and the handles that \<open>closesocket\<close> has been called for.\<close>

record socket_utils =
  su_ConnectEx :: bool
  su_DisconnectEx :: bool
  su_AcceptEx :: bool
  su_closed :: "nat list"

definition socket_utils_start :: socket_utils where
  "socket_utils_start = \<lparr>su_ConnectEx = False, su_DisconnectEx = False, su_AcceptEx = False, su_closed = []\<rparr>"

definition CreateSocket :: "winsock \<Rightarrow> nat option" where
  "CreateSocket ws = ws_WSASocketW ws AF_INET SOCK_STREAM IPPROTO_TCP WSA_FLAG_OVERLAPPED"

definition BindWindowsFunction :: "winsock \<Rightarrow> nat option \<Rightarrow> guid \<Rightarrow> bool" where
  "BindWindowsFunction ws socket g \<longleftrightarrow> ws_WSAIoctl ws socket g \<noteq> SOCKET_ERROR"

definition Socket_Close :: "nat option \<Rightarrow> socket_utils \<Rightarrow> nat option \<times> socket_utils" where
  "Socket_Close socket su =
     (case socket of None \<Rightarrow> (None, su) | Some s \<Rightarrow> (None, su\<lparr>su_closed := su_closed su @ [s]\<rparr>))"

text \<open>\<open>MAKEWORD(2, 2)\<close> is 514.\<close>

definition SocketUtils_Init :: "winsock \<Rightarrow> socket_utils \<Rightarrow> socket_utils res" where
  "SocketUtils_Init ws su =
     assert_crash (ws_WSAStartup ws 514 = 0) (
     let dummySocket = CreateSocket ws in
     assert_crash (dummySocket \<noteq> None) (
     assert_crash (BindWindowsFunction ws dummySocket WSAID_CONNECTEX) (
     let su = su\<lparr>su_ConnectEx := True\<rparr> in
     assert_crash (BindWindowsFunction ws dummySocket WSAID_DISCONNECTEX) (
     let su = su\<lparr>su_DisconnectEx := True\<rparr> in
     assert_crash (BindWindowsFunction ws dummySocket WSAID_ACCEPTEX) (
     let su = su\<lparr>su_AcceptEx := True\<rparr>; (dummySocket, su) = Socket_Close dummySocket su in Ok su)))))"

section \<open>The options of a socket\<close>

definition SetLinger :: "winsock \<Rightarrow> nat option \<Rightarrow> uint16 \<Rightarrow> uint16 \<Rightarrow> bool" where
  "SetLinger ws socket onoff linger \<longleftrightarrow> ws_setsockopt ws socket SOL_SOCKET SO_LINGER (OptLinger onoff linger) \<noteq> SOCKET_ERROR"

definition SetReuseAddress :: "winsock \<Rightarrow> nat option \<Rightarrow> bool \<Rightarrow> bool" where
  "SetReuseAddress ws socket flag \<longleftrightarrow>
     ws_setsockopt ws socket SOL_SOCKET SO_REUSEADDR (OptInt (if flag then 1 else 0)) \<noteq> SOCKET_ERROR"

definition SetRecvBufferSize :: "winsock \<Rightarrow> nat option \<Rightarrow> int32 \<Rightarrow> bool" where
  "SetRecvBufferSize ws socket sz \<longleftrightarrow> ws_setsockopt ws socket SOL_SOCKET SO_RCVBUF (OptInt sz) \<noteq> SOCKET_ERROR"

definition SetSendBufferSize :: "winsock \<Rightarrow> nat option \<Rightarrow> int32 \<Rightarrow> bool" where
  "SetSendBufferSize ws socket sz \<longleftrightarrow> ws_setsockopt ws socket SOL_SOCKET SO_SNDBUF (OptInt sz) \<noteq> SOCKET_ERROR"

definition SetTcpNoDelay :: "winsock \<Rightarrow> nat option \<Rightarrow> bool \<Rightarrow> bool" where
  "SetTcpNoDelay ws socket flag \<longleftrightarrow>
     ws_setsockopt ws socket IPPROTO_TCP TCP_NODELAY (OptInt (if flag then 1 else 0)) \<noteq> SOCKET_ERROR"

definition SetUpdateAcceptSocket :: "winsock \<Rightarrow> nat option \<Rightarrow> nat option \<Rightarrow> bool" where
  "SetUpdateAcceptSocket ws socket listenSocket \<longleftrightarrow>
     ws_setsockopt ws socket SOL_SOCKET SO_UPDATE_ACCEPT_CONTEXT (OptSocket listenSocket) \<noteq> SOCKET_ERROR"

definition SetUpdateConnectSocket :: "winsock \<Rightarrow> nat option \<Rightarrow> bool" where
  "SetUpdateConnectSocket ws socket \<longleftrightarrow>
     ws_setsockopt ws socket SOL_SOCKET SO_UPDATE_CONNECT_CONTEXT OptNull \<noteq> SOCKET_ERROR"

definition Socket_Bind :: "winsock \<Rightarrow> nat option \<Rightarrow> SOCKADDR_IN \<Rightarrow> bool" where
  "Socket_Bind ws socket netAddr \<longleftrightarrow> ws_bind ws socket netAddr \<noteq> SOCKET_ERROR"

definition BindAnyAddress :: "winsock \<Rightarrow> nat option \<Rightarrow> uint16 \<Rightarrow> bool" where
  "BindAnyAddress ws socket port \<longleftrightarrow>
     ws_bind ws socket \<lparr>sin_family = AF_INET, sin_addr = INADDR_ANY, sin_port = htons port\<rparr> \<noteq> SOCKET_ERROR"

definition Socket_Listen :: "winsock \<Rightarrow> nat option \<Rightarrow> int32 \<Rightarrow> bool" where
  "Socket_Listen ws socket backlog \<longleftrightarrow> ws_listen ws socket backlog \<noteq> SOCKET_ERROR"

section \<open>Lemmas\<close>

text \<open>\<open>Init\<close> returns with all three pointers, and with the socket it made closed, or it stops the program.\<close>

lemma SocketUtils_Init_iff:
  "SocketUtils_Init ws su = Ok su' \<longleftrightarrow>
     (\<exists>s. ws_WSAStartup ws 514 = 0 \<and> CreateSocket ws = Some s \<and> (\<forall>g. BindWindowsFunction ws (Some s) g) \<and>
        su' = \<lparr>su_ConnectEx = True, su_DisconnectEx = True, su_AcceptEx = True, su_closed = su_closed su @ [s]\<rparr>)"
proof -
  have all: "(\<forall>g. BindWindowsFunction ws s g) \<longleftrightarrow> BindWindowsFunction ws s WSAID_CONNECTEX \<and>
      BindWindowsFunction ws s WSAID_DISCONNECTEX \<and> BindWindowsFunction ws s WSAID_ACCEPTEX" for s
    by (metis guid.exhaust)
  show ?thesis
    unfolding all SocketUtils_Init_def Socket_Close_def assert_crash_def Let_def
    by (cases "CreateSocket ws"; cases su) (simp_all, blast)
qed

text \<open>A handle is closed once: \<open>Close\<close> takes it away.\<close>

lemma Socket_Close_twice:
  "Socket_Close socket su = (socket', su') \<Longrightarrow> Socket_Close socket' su' = (socket', su')"
  by (cases socket) (auto simp: Socket_Close_def)

end
