(* ===== verification/Startup.thy ===== *)
theory Startup
  imports Sockets Monitoring ChatServer StressTester ChatClient PoolAllocator
begin

text \<open>
  What the three programs do from \<open>main\<close> on: \<^verbatim>\<open>ChatServer/Main.cpp\<close> up to the start of its threads,
  \<^verbatim>\<open>ChatClient/Main.cpp\<close> and \<^verbatim>\<open>DummyClient/Main.cpp\<close> from the first line to the exit code. The loops are those of
  \<open>Monitoring\<close>, \<open>ChatClient\<close> and \<open>StressTester\<close>; neither client allocates from the pools; what the other threads of a client do between two lines of
  input is an argument.
\<close>

section \<open>Arguments\<close>

text \<open>\<open>argv\<close> with the name of the program in front; an exception of \<open>std::stoi\<close> is not caught.\<close>

definition port_argument :: "string \<Rightarrow> uint16 res" where
  "port_argument s = (case stoi s of None \<Rightarrow> Crash Uncaught | Some v \<Rightarrow> Ok (word_of_int v))"

definition server_port :: "string list \<Rightarrow> uint16 res" where
  "server_port argv = (if length argv \<ge> 2 then port_argument (argv ! 1) else Ok 7777)"

definition client_address :: "string list \<Rightarrow> (wstring \<times> uint16) res" where
  "client_address argv =
     (let serverIp = wide ''127.0.0.1'';
          serverIp = (if length argv \<ge> 2 then wide (argv ! 1) else serverIp) in
      if length argv \<ge> 3 then res_bind (port_argument (argv ! 2)) (\<lambda>serverPort. Ok (serverIp, serverPort))
      else Ok (serverIp, 7777))"

text \<open>\<open>getMode\<close> is what \<open>GetConsoleMode\<close> gives, \<open>None\<close> on failure; the result is the mode that is set, if any.\<close>

definition ENABLE_VIRTUAL_TERMINAL_PROCESSING :: uint32 where "ENABLE_VIRTUAL_TERMINAL_PROCESSING = 4"

definition EnableAnsiEscapeCodes :: "bool \<Rightarrow> uint32 option \<Rightarrow> uint32 option" where
  "EnableAnsiEscapeCodes invalid_handle getMode =
     (if invalid_handle then None
      else case getMode of None \<Rightarrow> None
      | Some dwMode \<Rightarrow> Some (or dwMode ENABLE_VIRTUAL_TERMINAL_PROCESSING))"

section \<open>The server\<close>

text \<open>
  What the system answers during the start: Winsock, the text of an address, \<open>Register\<close>, \<open>AcceptEx\<close>, the
  clock, and the number of processors, 0 if it is not known.
\<close>

record boot_env =
  be_winsock :: winsock
  be_pton :: "wstring \<Rightarrow> uint32 option"
  be_garbage :: uint32
  be_registered :: bool
  be_acceptEx :: "nat \<Rightarrow> os_result"
  be_tick :: uint64
  be_hardware :: uint32

text \<open>The server before its threads run, or the exit code and what is written to \<open>std::cerr\<close>.\<close>

record server_boot =
  bo_world :: world
  bo_sockets :: socket_utils
  bo_memory :: pool_allocator
  bo_listener :: "listener option"
  bo_address :: SOCKADDR_IN
  bo_threadCount :: uint32

datatype 'a boot = Exit int32 string | Running 'a

text \<open>\<open>StartAccept\<close> with the calls it makes.\<close>

definition StartAccept_on :: "boot_env \<Rightarrow> SOCKADDR_IN \<Rightarrow> listener \<Rightarrow> (bool \<times> listener) option" where
  "StartAccept_on env addr =
     (let ws = be_winsock env; socket = CreateSocket ws in
      StartAccept (be_acceptEx env) True (socket \<noteq> None) (SetReuseAddress ws socket True) (SetLinger ws socket 0 0)
        (Socket_Bind ws socket addr) (Socket_Listen ws socket 2147483647) (be_registered env))"

definition worker_count :: "uint32 \<Rightarrow> uint32" where
  "worker_count hardware_concurrency = (if hardware_concurrency > 0 then hardware_concurrency else 4)"

definition init_world :: "uint64 \<Rightarrow> world \<Rightarrow> world" where
  "init_world tick w =
     (let w = RoomManager_Init w; w = AbuseMonitor_Init w; w = w\<lparr>w_stats := ServerStats_Init tick\<rparr> in
      w\<lparr>w_service := Some (Service_new 10000)\<rparr>)"

definition server_boot :: "boot_env \<Rightarrow> string list \<Rightarrow> world \<Rightarrow> server_boot boot res option" where
  "server_boot env argv w =
     (case res_bind (server_port argv) (\<lambda>port.
        res_bind (SocketUtils_Init (be_winsock env) socket_utils_start) (\<lambda>su.
        res_bind (PoolAllocator_Init pa_start) (\<lambda>pa. Ok (port, su, pa)))) of
        Inl e \<Rightarrow> Some (Crash e)
      | Inr (port, su, pa) \<Rightarrow>
        let w = init_world (be_tick env) w;
            listenAddr = NetAddress_new (be_pton env) (be_garbage env) (wide ''0.0.0.0'') port in
        Option.bind (ServerService_Start True (StartAccept_on env listenAddr)) (\<lambda>(ok, li).
        Some (Ok (if \<not> ok
          then Exit 1 (''[ERROR] Failed to start ServerService on port '' @ to_string (uint port) @ ''!'' @ nl)
          else Running \<lparr>bo_world = w, bo_sockets = su, bo_memory = pa, bo_listener = li, bo_address = listenAddr,
            bo_threadCount = worker_count (be_hardware env)\<rparr>))))"

text \<open>A worker or timer thread that starts: the pools are there already.\<close>

lemma PoolAllocator_Init_again:
  assumes "PoolAllocator_Init pa = Ok pa'"
  shows "PoolAllocator_Init pa' = Ok pa'"
proof -
  have "pa_initialized pa'" using assms by (auto simp: PoolAllocator_Init_def res_iff split: if_splits)
  then show ?thesis by (simp add: PoolAllocator_Init_def)
qed

lemma init_world_start:
  "init_world tick (world_start clients) = (cy_world (chat_start clients))\<lparr>w_stats := ServerStats_Init tick\<rparr>"
  by (simp add: init_world_def chat_start_def world_start_def RoomManager_Init_def AbuseMonitor_Init_def make_room_def
      table_set_def Let_def)

text \<open>The end of \<open>main\<close>, when the threads have been joined; \<open>pa\<close> is the memory as they left it.\<close>

definition server_exit ::
    "bool \<Rightarrow> string \<Rightarrow> server_main \<times> pool_allocator \<Rightarrow> (int32 \<times> server_main \<times> pool_allocator) res" where
  "server_exit is_open timeStr = (\<lambda>(s, pa).
     let s = main_shutdown is_open timeStr s in
     res_bind (PoolAllocator_Clear pa) (\<lambda>pa. Ok (0, s, pa)))"

section \<open>The interactive client\<close>

definition client_banner :: string where
  "client_banner =
     esc ''[1;36m'' @ replicate 65 CHR ''='' @ esc ''[0m'' @ nl @
     esc ''[1;37m        High-Performance IOCP Interactive Chat Client            '' @ esc ''[0m'' @ nl @
     esc ''[1;36m'' @ replicate 65 CHR ''='' @ esc ''[0m'' @ nl"

text \<open>The loop over the input, each line with what the other threads do before it is read.\<close>

fun console_run ::
    "nat \<Rightarrow> ((client_world \<Rightarrow> client_world res) \<times> string) list \<Rightarrow> nat option \<Rightarrow> client_world \<Rightarrow> client_world res" where
  "console_run t [] session w = Ok w"
| "console_run t ((threads, line) # input) session w =
     res_bind (threads w) (\<lambda>w.
     if \<not> cl_isRunning w then Ok w else res_bind (run_line t line session w) (console_run t input session))"

text \<open>\<open>Service::Stop\<close>, on the one session of the service.\<close>

definition client_stop :: "nat service \<times> client_world \<Rightarrow> nat service \<times> client_world" where
  "client_stop = Service_Stop (\<lambda>i. upd_session i (\<lambda>c. c\<lparr>se_connected := False\<rparr>))"

text \<open>\<open>connect\<close> is the result of \<open>Session::Connect\<close>; \<open>sv\<close> is the service when the loop has ended.\<close>

definition client_main ::
    "nat \<Rightarrow> boot_env \<Rightarrow> bool \<Rightarrow> string list \<Rightarrow> ((client_world \<Rightarrow> client_world res) \<times> string) list \<Rightarrow>
     nat service \<Rightarrow> client_world \<Rightarrow> (int32 \<times> client_world) res" where
  "client_main t env connect argv input sv w =
     (let w = cout client_banner w in
      res_bind (SocketUtils_Init (be_winsock env) socket_utils_start) (\<lambda>su.
      res_bind (PoolAllocator_Init pa_start) (\<lambda>pa.
      res_bind (client_address argv) (\<lambda>(serverIp, serverPort).
      let (ok, n) = ClientService_Start True (\<lambda>i. connect) 1;
          w = upd_session 0 (\<lambda>_. ServerSession_new) (w\<lparr>cl_isRunning := True\<rparr>) in
      if \<not> ok then Ok (1, cerr (esc ''[1;31m[ERROR] Failed to start ClientService!'' @ esc ''[0m'' @ nl) w)
      else
        res_bind (console_run t input (Some 0) (PrintHelp w)) (\<lambda>w.
        let (sv, w) = client_stop (sv, w) in
        res_bind (PoolAllocator_Clear pa) (\<lambda>pa. Ok (0, w)))))))"

lemma console_run_loop: "console_run t (map (\<lambda>line. (Ok, line)) lines) session w = console_loop t lines session w"
proof (induction lines arbitrary: w)
  case (Cons line lines)
  have "console_run t (map (\<lambda>line. (Ok, line)) lines) session = console_loop t lines session" using Cons.IH by blast
  then show ?case by simp
qed simp

section \<open>The stress tester\<close>

definition tester_main ::
    "boot_env \<Rightarrow> tester_env \<Rightarrow> nat \<Rightarrow> string list \<Rightarrow> nat \<Rightarrow> istream \<Rightarrow> tester \<Rightarrow> (int32 \<times> tester) res option" where
  "tester_main env te t argv n cin x =
     (case res_bind (SocketUtils_Init (be_winsock env) socket_utils_start) (\<lambda>su.
        res_bind (PoolAllocator_Init pa_start) (\<lambda>pa.
        res_bind (client_address argv) (\<lambda>address. Ok (pa, address)))) of
        Inl e \<Rightarrow> Some (Crash e)
      | Inr (pa, serverIp, serverPort) \<Rightarrow>
        map_option (\<lambda>r. res_bind r (\<lambda>x. res_bind (PoolAllocator_Clear pa) (\<lambda>pa.
          Ok (0, ts_print (esc ''[1;32m[SYSTEM] Stress Tester terminated cleanly.'' @ esc ''[0m'' @ nl) x))))
          (menu_loop te t serverIp serverPort n cin x))"

section \<open>What the arguments do\<close>

text \<open>
  A port argument that is a number is taken modulo 65536, whatever its size up to the largest \<open>int\<close>; a larger
  number, and an argument without digits at its start, ends the program with an exception.
\<close>

lemma port_argument_number:
  "0 \<le> n \<Longrightarrow> port_argument (to_string n) = (if n \<le> 2147483647 then Ok (word_of_int n) else Crash Uncaught)"
  by (simp add: port_argument_def stoi_to_string)

lemma port_argument_letter: "\<not> is_digit c \<Longrightarrow> c \<notin> {CHR ''-'', CHR ''+''} \<Longrightarrow> \<not> is_space c \<Longrightarrow> port_argument (c # s) = Crash Uncaught"
  by (simp add: port_argument_def stoi_def take_sign_def Let_def)

section \<open>Properties\<close>

text \<open>What Winsock must grant for a socket that listens on the address.\<close>

definition grants :: "boot_env \<Rightarrow> SOCKADDR_IN \<Rightarrow> bool" where
  "grants env addr \<longleftrightarrow> (let ws = be_winsock env; socket = CreateSocket ws in
     ws_WSAStartup ws 514 = 0 \<and> socket \<noteq> None \<and> (\<forall>g. BindWindowsFunction ws socket g) \<and> SetReuseAddress ws socket True \<and>
     SetLinger ws socket 0 0 \<and> Socket_Bind ws socket addr \<and> Socket_Listen ws socket 2147483647 \<and> be_registered env)"

text \<open>C28: From a valid port argument, if the system grants the server its sockets and \<open>AcceptEx\<close> does not fail for
  ever, \<open>main\<close> gets as far as its threads: sixteen accepts are under way on an address with that port, the memory
  pools and the three extension functions are there, at least one worker is to be started, and the state of the
  chat is the start state of the model of the server, with the three rooms.\<close>

theorem server_starts:
  assumes "server_port argv = Ok port" "accepts_in_the_end (be_acceptEx env)"
    and "grants env (NetAddress_new (be_pton env) (be_garbage env) (wide ''0.0.0.0'') port)"
  shows "\<exists>b li. server_boot env argv (world_start clients) = Some (Ok (Running b)) \<and>
    bo_world b = (cy_world (chat_start clients))\<lparr>w_stats := ServerStats_Init (be_tick env)\<rparr> \<and>
    bo_listener b = Some li \<and> all_armed li \<and> length (li_acceptEvents li) = 16 \<and> GetPort (bo_address b) = port \<and>
    pa_initialized (bo_memory b) \<and> su_ConnectEx (bo_sockets b) \<and> su_DisconnectEx (bo_sockets b) \<and>
    su_AcceptEx (bo_sockets b) \<and> 0 < bo_threadCount b"
proof -
  let ?ws = "be_winsock env" and ?addr = "NetAddress_new (be_pton env) (be_garbage env) (wide ''0.0.0.0'') port"
  obtain li where li: "StartAccept (be_acceptEx env) True True True True True True True Listener_new = Some (True, li)"
    "all_armed li" "length (li_acceptEvents li) = 16"
    using listener_start [OF assms(2)] by blast
  obtain su where su: "SocketUtils_Init ?ws socket_utils_start = Ok su" "su_ConnectEx su" "su_DisconnectEx su" "su_AcceptEx su"
    using assms(3) by (auto simp: SocketUtils_Init_iff grants_def Let_def)
  obtain pa where pa: "PoolAllocator_Init pa_start = Ok pa" "pa_initialized pa"
    using PoolAllocator_Init_spec by blast
  have "StartAccept_on env ?addr Listener_new = Some (True, li)"
    using assms(3) li(1) by (simp add: StartAccept_on_def grants_def Let_def)
  then have "server_boot env argv (world_start clients) = Some (Ok (Running
      \<lparr>bo_world = init_world (be_tick env) (world_start clients), bo_sockets = su, bo_memory = pa, bo_listener = Some li,
        bo_address = ?addr, bo_threadCount = worker_count (be_hardware env)\<rparr>))"
    using assms(1) su(1) pa(1) by (simp add: server_boot_def ServerService_Start_def Let_def)
  moreover have "0 < worker_count (be_hardware env)" by (simp add: worker_count_def word_gt_0)
  moreover have "GetPort ?addr = port" by (simp add: GetPort_def NetAddress_new_def htons_def ntohs_def)
  ultimately show ?thesis using li(2,3) su(2-4) pa(2) init_world_start by auto
qed

definition kind_system :: boot_env where
  "kind_system = \<lparr>be_winsock = \<lparr>ws_WSAStartup = \<lambda>_. 0, ws_WSASocketW = \<lambda>_ _ _ _. Some 4, ws_WSAIoctl = \<lambda>_ _. 0,
       ws_setsockopt = \<lambda>_ _ _ _. 0, ws_bind = \<lambda>_ _. 0, ws_listen = \<lambda>_ _. 0\<rparr>,
     be_pton = \<lambda>_. Some 0, be_garbage = 7, be_registered = True, be_acceptEx = \<lambda>_. OsError WSA_IO_PENDING,
     be_tick = 5000, be_hardware = 0\<rparr>"

theorem server_starts_witness:
  "\<exists>b. server_boot kind_system [''ChatServer'', ''8888''] (world_start (\<lambda>_. ClientSession_new 0 [] 0)) = Some (Ok (Running b)) \<and>
     GetPort (bo_address b) = 8888"
proof -
  have "server_port [''ChatServer'', ''8888''] = Ok 8888"
    by (simp add: server_port_def port_argument_def stoi_def take_sign_def is_space_def is_digit_def decimal_value_def char_digit_def
        in_int32_def Let_def)
  moreover have "accepts_in_the_end (be_acceptEx kind_system)"
    by (auto simp: accepts_in_the_end_def retried_def kind_system_def)
  moreover have "grants kind_system addr" for addr
    by (simp add: grants_def kind_system_def CreateSocket_def BindWindowsFunction_def SetReuseAddress_def SetLinger_def
        Socket_Bind_def Socket_Listen_def SOCKET_ERROR_def)
  ultimately show ?thesis
    using server_starts [of "[''ChatServer'', ''8888'']" 8888 kind_system "\<lambda>_. ClientSession_new 0 [] 0"] by auto
qed

text \<open>
  The port is not checked: 70000 is taken for 4464, and an argument that is no number ends the program with an
  exception, before anything is started.
\<close>

lemma large_port_wraps: "server_port [''ChatServer'', to_string 70000] = Ok 4464"
  by (simp add: server_port_def port_argument_number)

lemma word_port_crashes: "server_boot env [''ChatServer'', ''http''] w = Some (Crash Uncaught)"
  by (simp add: server_boot_def server_port_def port_argument_def stoi_def take_sign_def is_space_def is_digit_def Let_def)

end
