(* ===== verification/CrashDump.thy ===== *)
theory CrashDump
  imports Streams
begin

text \<open>
  \<^verbatim>\<open>ServerEngine/Common/CrashDump.cpp\<close>: the folder of the dumps, the name of a dump and what is printed about it.
  Whether the file opens, whether \<open>MiniDumpWriteDump\<close> succeeds, the error codes and the formatted local time are
  arguments; texts of wide characters are strings. A file system is a map from names to what is in a file, the
  number of the dump here.
\<close>

record crash_dump =
  cd_initialized :: bool
  cd_dumpFolder :: string
  cd_files :: "string \<rightharpoonup> nat"
  cd_dumps :: nat
  cd_wcout :: string
  cd_wcerr :: string
  cd_filter :: bool

definition crash_dump_start :: crash_dump where
  "crash_dump_start = \<lparr>cd_initialized = False, cd_dumpFolder = ''Dumps'', cd_files = Map.empty, cd_dumps = 0,
     cd_wcout = [], cd_wcerr = [], cd_filter = False\<rparr>"

definition CrashDump_Init :: "string \<Rightarrow> crash_dump \<Rightarrow> crash_dump" where
  "CrashDump_Init dumpFolder s =
     (if cd_initialized s then s
      else s\<lparr>cd_dumpFolder := dumpFolder, cd_filter := True, cd_initialized := True,
        cd_wcout := cd_wcout s @ ''[INFO] CrashDump Initialized. Dump Directory: '' @ dumpFolder @ nl\<rparr>)"

definition dump_name :: "string \<Rightarrow> string \<Rightarrow> string \<Rightarrow> string" where
  "dump_name dumpFolder customTag dateTime =
     (let tag = (if customTag = [] then ''Dump'' else customTag) in dumpFolder @ ''/'' @ tag @ ''_'' @ dateTime @ ''.dmp'')"

definition dump_failed :: "string \<Rightarrow> int32 \<Rightarrow> string" where
  "dump_failed fileName err =
     ''[ERROR] Failed to create crash dump file: '' @ fileName @ '' (Error: '' @ to_string err @ '')'' @ nl"

definition dump_saved :: "string \<Rightarrow> string" where
  "dump_saved fileName =
     '' '' @ esc ''[1;32m[CRASH DUMP SAVED] Successfully generated crash minidump:'' @ esc ''[0m'' @ nl @
     ''  -> '' @ esc ''[1;37m'' @ fileName @ esc ''[0m'' @ nl @
     ''     (Open with Visual Studio or WinDbg to inspect callstack & memory)'' @ nl"

text \<open>
  \<open>opened\<close> and \<open>written\<close> are \<open>Inr ()\<close> or the error code. \<open>CREATE_ALWAYS\<close> replaces a file of the name; the file is
  there also if the dump then cannot be written.
\<close>

definition CreateDump :: "int32 + unit \<Rightarrow> int32 + unit \<Rightarrow> string \<Rightarrow> string \<Rightarrow> crash_dump \<Rightarrow> bool \<times> crash_dump" where
  "CreateDump opened written dateTime customTag s =
     (let fileName = dump_name (cd_dumpFolder s) customTag dateTime in
      case opened of
        Inl err \<Rightarrow> (False, s\<lparr>cd_wcerr := cd_wcerr s @ dump_failed fileName err\<rparr>)
      | Inr _ \<Rightarrow>
        let s = s\<lparr>cd_files := (cd_files s)(fileName \<mapsto> cd_dumps s), cd_dumps := Suc (cd_dumps s)\<rparr> in
        (case written of
           Inr _ \<Rightarrow> (True, s\<lparr>cd_wcerr := cd_wcerr s @ dump_saved fileName\<rparr>)
         | Inl err \<Rightarrow> (False, s\<lparr>cd_wcerr := cd_wcerr s @
             ''[ERROR] MiniDumpWriteDump failed (Error: '' @ to_string err @ '')'' @ nl\<rparr>)))"

text \<open>\<open>std::hex\<close>\<close>

definition hex_digit :: "nat \<Rightarrow> char" where
  "hex_digit k = (if k < 10 then char_of (48 + k) else char_of (87 + k))"

fun hex :: "nat \<Rightarrow> string" where
  "hex n = (if n < 16 then [hex_digit n] else hex (n div 16) @ [hex_digit (n mod 16)])"

declare hex.simps [simp del]

definition EXCEPTION_EXECUTE_HANDLER :: int32 where "EXCEPTION_EXECUTE_HANDLER = 1"

text \<open>The record of the exception, if there is one: its code and its address as it is printed.\<close>

definition ExceptionFilter ::
    "int32 + unit \<Rightarrow> int32 + unit \<Rightarrow> string \<Rightarrow> (uint32 \<times> string) option \<Rightarrow> crash_dump \<Rightarrow> int32 \<times> crash_dump" where
  "ExceptionFilter opened written dateTime exception s =
     (let rule = esc ''[1;31m'' @ replicate 88 CHR ''='' @ esc ''[0m'' @ nl;
          s = s\<lparr>cd_wcerr := cd_wcerr s @ nl @ rule @
            esc ''[1;31m                     FATAL ERROR: UNHANDLED EXCEPTION / ASSERT_CRASH                    '' @
              esc ''[0m'' @ nl @ rule @
            (case exception of None \<Rightarrow> []
             | Some (code, address) \<Rightarrow> '' * Exception Code    : 0x'' @ hex (unat code) @ nl @
                 '' * Exception Address : '' @ address @ nl)\<rparr>;
          (ok, s) = CreateDump opened written dateTime ''Crash'' s in
      (EXCEPTION_EXECUTE_HANDLER, s\<lparr>cd_wcerr := cd_wcerr s @ rule @ nl\<rparr>))"

section \<open>Lemmas\<close>

text \<open>The first call of \<open>Init\<close> decides on the folder.\<close>

lemma CrashDump_Init_once: "CrashDump_Init b (CrashDump_Init a s) = CrashDump_Init a s"
  by (simp add: CrashDump_Init_def)

text \<open>A dump that reports success is in the file system, under its name, also after the filter has run.\<close>

lemma CreateDump_saved:
  assumes "CreateDump opened written dateTime customTag s = (True, s')"
  shows "cd_files s' (dump_name (cd_dumpFolder s) customTag dateTime) = Some (cd_dumps s)"
  using assms by (auto simp: CreateDump_def Let_def split: sum.splits)

text \<open>
  Names have a resolution of a second and carry no process or thread, so that the dumps of two threads that crash
  in one second have one name: the second replaces the first.
\<close>

lemma dumps_of_a_second:
  assumes "ExceptionFilter opened written dateTime e s = (r, s')" "ExceptionFilter (Inr ()) written' dateTime e' s' = (r', s'')"
  shows "cd_files s'' (dump_name (cd_dumpFolder s) ''Crash'' dateTime) = Some (cd_dumps s')"
proof -
  have "cd_dumpFolder s' = cd_dumpFolder s"
    using assms(1) by (auto simp: ExceptionFilter_def CreateDump_def Let_def split: sum.splits option.splits)
  then show ?thesis
    using assms(2) by (auto simp: ExceptionFilter_def CreateDump_def Let_def split: sum.splits option.splits)
qed

end
