(* ===== verification/ThreadManager.thy ===== *)
theory ThreadManager
  imports Prelude
begin

text \<open>
  \<^verbatim>\<open>ServerEngine/Thread/ThreadManager.cpp\<close>: threads with numbers. \<open>Launch\<close> runs under the lock; a thread that
  has been started takes its number, initialises its allocator, counts itself, runs its callback and counts itself
  off, each of these one atomic access or call; \<open>Join\<close> waits for every thread and then forgets them. What the
  callbacks do is not part of this state. The program is one thread here, which calls \<open>Launch\<close> and \<open>Join\<close>:
  \<open>Join\<close> walks \<open>_threads\<close> without the lock.
\<close>

section \<open>State and steps\<close>

datatype tm_pc = TmStart | TmInit | TmReady | TmRunning | TmDone

record tm_thread =
  tm_pc :: tm_pc
  tm_LThreadId :: uint32

record thread_manager =
  tm_threads :: "tm_thread list"
  tm_threadCount :: uint32
  tm_nextThreadId :: uint32

definition thread_manager_start :: thread_manager where
  "thread_manager_start = \<lparr>tm_threads = [], tm_threadCount = 0, tm_nextThreadId = 1\<rparr>"

definition upd_thread :: "nat \<Rightarrow> (tm_thread \<Rightarrow> tm_thread) \<Rightarrow> thread_manager \<Rightarrow> thread_manager" where
  "upd_thread i f m = m\<lparr>tm_threads := (tm_threads m)[i := f (tm_threads m ! i)]\<rparr>"

text \<open>\<open>LThreadId\<close> of a new thread is 0.\<close>

definition Launch :: "thread_manager \<Rightarrow> thread_manager" where
  "Launch m = m\<lparr>tm_threads := tm_threads m @ [\<lparr>tm_pc = TmStart, tm_LThreadId = 0\<rparr>]\<rparr>"

definition Join_done :: "thread_manager \<Rightarrow> bool" where
  "Join_done m \<longleftrightarrow> (\<forall>th \<in> set (tm_threads m). tm_pc th = TmDone)"

definition Join_clear :: "thread_manager \<Rightarrow> thread_manager" where
  "Join_clear m = m\<lparr>tm_threads := []\<rparr>"

definition GetTotalThreadCount :: "thread_manager \<Rightarrow> uint32" where
  "GetTotalThreadCount m = tm_threadCount m"

text \<open>One step of a thread: \<open>InitTLS\<close> is the first two.\<close>

fun thread_step :: "nat \<Rightarrow> thread_manager \<Rightarrow> thread_manager" where
  "thread_step i m = (case tm_pc (tm_threads m ! i) of
      TmStart \<Rightarrow> upd_thread i (\<lambda>th. th\<lparr>tm_LThreadId := tm_nextThreadId m, tm_pc := TmInit\<rparr>)
        (m\<lparr>tm_nextThreadId := tm_nextThreadId m + 1\<rparr>)
    | TmInit \<Rightarrow> upd_thread i (\<lambda>th. th\<lparr>tm_pc := TmReady\<rparr>) m
    | TmReady \<Rightarrow> upd_thread i (\<lambda>th. th\<lparr>tm_pc := TmRunning\<rparr>) (m\<lparr>tm_threadCount := tm_threadCount m + 1\<rparr>)
    | TmRunning \<Rightarrow> upd_thread i (\<lambda>th. th\<lparr>tm_pc := TmDone\<rparr>) (m\<lparr>tm_threadCount := tm_threadCount m - 1\<rparr>)
    | TmDone \<Rightarrow> m)"

text \<open>The second component counts the threads that have been launched.\<close>

inductive tm_step :: "thread_manager \<times> nat \<Rightarrow> thread_manager \<times> nat \<Rightarrow> bool" where
  launch: "tm_step (m, n) (Launch m, Suc n)"
| thread: "i < length (tm_threads m) \<Longrightarrow> tm_step (m, n) (thread_step i m, n)"
| join: "Join_done m \<Longrightarrow> tm_step (m, n) (Join_clear m, n)"

abbreviation tm_reach :: "thread_manager \<Rightarrow> nat \<Rightarrow> bool" where
  "tm_reach m n \<equiv> tm_step\<^sup>*\<^sup>* (thread_manager_start, 0) (m, n)"

section \<open>The invariant\<close>

definition running :: "thread_manager \<Rightarrow> tm_thread list" where
  "running m = filter (\<lambda>th. tm_pc th = TmRunning) (tm_threads m)"

definition waiting :: "thread_manager \<Rightarrow> tm_thread list" where
  "waiting m = filter (\<lambda>th. tm_pc th = TmStart) (tm_threads m)"

definition numbers :: "thread_manager \<Rightarrow> uint32 list" where
  "numbers m = map tm_LThreadId (filter (\<lambda>th. tm_pc th \<noteq> TmStart) (tm_threads m))"

text \<open>\<open>k\<close> numbers have been given out, the first is 1.\<close>

definition tm_inv :: "thread_manager \<Rightarrow> nat \<Rightarrow> bool" where
  "tm_inv m n \<longleftrightarrow> (\<exists>k. k + length (waiting m) \<le> n \<and> tm_nextThreadId m = of_nat (Suc k) \<and>
     distinct (numbers m) \<and> (\<forall>x \<in> set (numbers m). 0 < x \<and> unat x \<le> k)) \<and>
     tm_threadCount m = of_nat (length (running m))"

text \<open>One entry changes: the lists lose the old entry and gain the new one.\<close>

lemma filter_update:
  assumes "i < length xs"
  obtains us vs where "xs = us @ xs ! i # vs" "\<And>y. xs[i := y] = us @ y # vs"
proof
  show "xs = take i xs @ xs ! i # drop (Suc i) xs" using assms by (rule id_take_nth_drop)
  show "xs[i := y] = take i xs @ y # drop (Suc i) xs" for y using assms by (rule upd_conv_take_nth_drop)
qed

lemma tm_step_inv:
  assumes "tm_step (m, n) (m', n')" "tm_inv m n" "n' < 2 ^ 32 - 1"
  shows "tm_inv m' n'"
  using assms(1)
proof cases
  case launch
  then show ?thesis
    using assms(2) by (auto simp: tm_inv_def Launch_def running_def waiting_def numbers_def)
next
  case join
  then show ?thesis
    using assms(2)
    by (fastforce simp: tm_inv_def Join_clear_def Join_done_def running_def waiting_def numbers_def filter_empty_conv)
next
  case (thread i)
  obtain us vs where d: "tm_threads m = us @ tm_threads m ! i # vs" "\<And>y. (tm_threads m)[i := y] = us @ y # vs"
    by (rule filter_update [OF thread(3)]) blast
  define th where "th = tm_threads m ! i"
  note split = d [folded th_def]
  obtain k where k: "k + length (waiting m) \<le> n" "tm_nextThreadId m = of_nat (Suc k)" "distinct (numbers m)"
    "\<forall>x \<in> set (numbers m). 0 < x \<and> unat x \<le> k" "tm_threadCount m = of_nat (length (running m))"
    using assms(2) by (auto simp: tm_inv_def)
  show ?thesis
  proof (cases "tm_pc th")
    case TmStart
    have "Suc k < 2 ^ 32"
      using k(1) assms(3) thread(2) TmStart by (simp add: waiting_def split(1))
    then have u: "unat (of_nat (Suc k) :: uint32) = Suc k" by (simp add: unat_of_nat take_bit_nat_eq_self del: of_nat_Suc)
    then have new: "of_nat (Suc k) \<notin> set (numbers m)" "0 < (of_nat (Suc k) :: uint32)"
      using k(4) by (auto simp: word_less_nat_alt simp del: of_nat_Suc)
    have m': "m' = m\<lparr>tm_threads := us @ th\<lparr>tm_LThreadId := of_nat (Suc k), tm_pc := TmInit\<rparr> # vs,
        tm_nextThreadId := of_nat (Suc (Suc k))\<rparr>"
      using thread(1) TmStart k(2) by (simp add: th_def upd_thread_def d(2))
    have n: "numbers m' = map tm_LThreadId (filter (\<lambda>th. tm_pc th \<noteq> TmStart) us) @ of_nat (Suc k) #
        map tm_LThreadId (filter (\<lambda>th. tm_pc th \<noteq> TmStart) vs)"
      "numbers m = map tm_LThreadId (filter (\<lambda>th. tm_pc th \<noteq> TmStart) us) @
        map tm_LThreadId (filter (\<lambda>th. tm_pc th \<noteq> TmStart) vs)"
      using TmStart by (simp_all add: m' numbers_def split(1))
    have "distinct (numbers m')" using k(3) new(1) unfolding n by auto
    moreover have "\<forall>x \<in> set (numbers m'). 0 < x \<and> unat x \<le> Suc k" using k(4) new(2) u unfolding n by (auto intro: le_SucI)
    moreover have "Suc k + length (waiting m') \<le> n'" "running m' = running m"
      using k(1) TmStart thread(2) by (simp_all add: m' waiting_def running_def split(1))
    ultimately show ?thesis using k(5) unfolding tm_inv_def by (intro conjI exI [of _ "Suc k"]) (simp_all add: m')
  next
    case TmRunning
    have m': "m' = m\<lparr>tm_threads := us @ th\<lparr>tm_pc := TmDone\<rparr> # vs, tm_threadCount := tm_threadCount m - 1\<rparr>"
      using thread(1) TmRunning by (simp add: th_def upd_thread_def d(2))
    have "numbers m' = numbers m" "waiting m' = waiting m" "length (running m) = Suc (length (running m'))"
      using TmRunning by (simp_all add: m' numbers_def waiting_def running_def split(1))
    moreover have "tm_nextThreadId m' = tm_nextThreadId m" "tm_threadCount m' = tm_threadCount m - 1" by (simp_all add: m')
    ultimately show ?thesis using k thread(2) unfolding tm_inv_def by (intro conjI exI [of _ k]) simp_all
  next
    case TmReady
    have m': "m' = m\<lparr>tm_threads := us @ th\<lparr>tm_pc := TmRunning\<rparr> # vs, tm_threadCount := tm_threadCount m + 1\<rparr>"
      using thread(1) TmReady by (simp add: th_def upd_thread_def d(2))
    have "numbers m' = numbers m" "waiting m' = waiting m" "length (running m') = Suc (length (running m))"
      using TmReady by (simp_all add: m' numbers_def waiting_def running_def split(1))
    moreover have "tm_nextThreadId m' = tm_nextThreadId m" "tm_threadCount m' = tm_threadCount m + 1" by (simp_all add: m')
    ultimately show ?thesis using k thread(2) unfolding tm_inv_def by (intro conjI exI [of _ k]) simp_all
  next
    case TmInit
    have m': "m' = m\<lparr>tm_threads := us @ th\<lparr>tm_pc := TmReady\<rparr> # vs\<rparr>"
      using thread(1) TmInit by (simp add: th_def upd_thread_def d(2))
    have "numbers m' = numbers m" "waiting m' = waiting m" "running m' = running m"
      using TmInit by (simp_all add: m' numbers_def waiting_def running_def split(1))
    moreover have "tm_nextThreadId m' = tm_nextThreadId m" "tm_threadCount m' = tm_threadCount m" by (simp_all add: m')
    ultimately show ?thesis using k thread(2) unfolding tm_inv_def by (intro conjI exI [of _ k]) simp_all
  qed (use assms(2) thread in \<open>simp add: th_def\<close>)
qed

section \<open>Properties\<close>

lemma tm_reach_inv:
  assumes "tm_reach m n" "n < 2 ^ 32 - 1"
  shows "tm_inv m n"
proof -
  have "snd x < 2 ^ 32 - 1 \<longrightarrow> tm_inv (fst x) (snd x)" if "tm_step\<^sup>*\<^sup>* (thread_manager_start, 0) x" for x
    using that
  proof (induction rule: rtranclp_induct)
    case base
    show ?case by (auto simp: tm_inv_def thread_manager_start_def running_def waiting_def numbers_def)
  next
    case (step y z)
    have "snd y \<le> snd z" using step(2) by (auto elim: tm_step.cases)
    then show ?case using step tm_step_inv [of "fst y" "snd y" "fst z" "snd z"] by auto
  qed
  from this [OF assms(1)] show ?thesis using assms(2) by simp
qed

text \<open>
  However the threads interleave, and however often they are joined and new ones launched: the threads that have a
  number have different numbers, none of them 0, the value that code outside such a thread sees; the count is the
  number of threads that are in their callback, and 0 when \<open>Join\<close> is done.
\<close>

theorem thread_numbers:
  assumes "tm_reach m n" "n < 2 ^ 32 - 1"
  shows "distinct (numbers m) \<and> 0 \<notin> set (numbers m) \<and> GetTotalThreadCount m = of_nat (length (running m)) \<and>
    (Join_done m \<longrightarrow> GetTotalThreadCount m = 0)"
proof -
  have i: "tm_inv m n" by (rule tm_reach_inv [OF assms])
  have "running m = []" if "Join_done m" using that by (auto simp: Join_done_def running_def filter_empty_conv)
  then show ?thesis using i by (auto simp: tm_inv_def GetTotalThreadCount_def)
qed

theorem thread_numbers_witness:
  "\<exists>m. tm_reach m 2 \<and> length (numbers m) = 2 \<and> distinct (numbers m)"
proof -
  let ?m = "thread_step 1 (thread_step 0 (Launch (Launch thread_manager_start)))"
  have "tm_step\<^sup>*\<^sup>* (thread_manager_start, 0) (Launch (Launch thread_manager_start), 2)"
    using tm_step.launch [of thread_manager_start 0] tm_step.launch [of "Launch thread_manager_start" "Suc 0"]
    by (simp add: numeral_2_eq_2)
  moreover have "tm_step (Launch (Launch thread_manager_start), 2) (thread_step 0 (Launch (Launch thread_manager_start)), 2)"
    by (rule tm_step.thread) (simp add: Launch_def)
  moreover have "tm_step (thread_step 0 (Launch (Launch thread_manager_start)), 2) (?m, 2)"
    by (rule tm_step.thread) (simp add: Launch_def thread_manager_start_def upd_thread_def)
  ultimately have r: "tm_reach ?m 2" by (meson rtranclp.rtrancl_into_rtrancl)
  have "length (numbers ?m) = 2"
    by (simp add: Launch_def thread_manager_start_def upd_thread_def numbers_def)
  then show ?thesis using r thread_numbers [OF r] by auto
qed

end
