(* ===== verification/ServerTest.thy ===== *)
theory ServerTest
  imports Worker Monitoring
begin

text \<open>
  \<open>TestChatServerAndAbuseMonitor\<close> of \<^verbatim>\<open>EngineTest/Main.cpp\<close>: two rooms, two sessions, the jobs of the rooms
  run by the loop of a worker, the rate limiter and the log of forced disconnects. A failing \<open>assert\<close> is a
  fault; \<open>None\<close> is a worker loop that has not ended within its bound. The clock, the time string and whether
  the file opens are arguments.
\<close>

section \<open>The test\<close>

definition and_then :: "'a res option \<Rightarrow> ('a \<Rightarrow> 'b res option) \<Rightarrow> 'b res option" where
  "and_then m f = (case m of None \<Rightarrow> None | Some (Inl e) \<Rightarrow> Some (Crash e) | Some (Inr x) \<Rightarrow> f x)"

definition check :: "bool \<Rightarrow> 'a res option \<Rightarrow> 'a res option" where
  "check b k = (if b then k else Some (Crash AssertCrash))"

lemma and_then_simps [simp]: "and_then (Some (Ok x)) f = f x" "check True k = k"
  by (simp_all add: and_then_def check_def)

text \<open>Sessions 1 and 2 enter, session 1 chats and leaves; \<open>n\<close> bounds each run of the worker loop.\<close>

definition test_rooms ::
    "nat \<Rightarrow> nat \<Rightarrow> session_ref \<Rightarrow> session_ref \<Rightarrow> room_ref \<Rightarrow> room_ref \<Rightarrow> world \<Rightarrow> world res option" where
  "test_rooms t n session1 session2 room1 room2 w =
     and_then (worker_loop t n (PushJob room2 (JobEnter (Some session2)) (PushJob room1 (JobEnter (Some session1)) w))) (\<lambda>w.
     check (GetRoom session1 w = Some room1) (check (GetRoom session2 w = Some room2) (
     check (GetUserCount room1 w = 1) (check (GetUserCount room2 w = 1) (
     and_then (worker_loop t n (PushJob room1 (JobHandleChat (Some session1) ''Hello Room 101'') w)) (\<lambda>w.
     and_then (worker_loop t n (PushJob room1 (JobLeave (Some session1)) w)) (\<lambda>w.
     check (GetRoom session1 w = None) (check (GetUserCount room1 w = 0) (Some (Ok w))))))))))"

text \<open>\<open>n\<close> calls of \<open>Consume(1)\<close> that must succeed, the \<open>i\<close>-th at the tick \<open>ticks i\<close>.\<close>

fun consume_all :: "(nat \<Rightarrow> uint64) \<Rightarrow> nat \<Rightarrow> nat \<Rightarrow> token_bucket \<Rightarrow> token_bucket res" where
  "consume_all ticks i 0 tb = Ok tb"
| "consume_all ticks i (Suc n) tb =
     (let (ok, tb) = Consume (ticks i) 1 tb in assert_crash ok (consume_all ticks (Suc i) n tb))"

definition test_bucket :: "uint64 \<Rightarrow> (nat \<Rightarrow> uint64) \<Rightarrow> unit res" where
  "test_bucket now ticks =
     res_bind (consume_all ticks 0 5 (TokenBucket_new 5 5 now)) (\<lambda>tb.
     assert_crash (\<not> fst (Consume (ticks 5) 1 tb)) (Ok ()))"

definition test_log :: "uint64 \<Rightarrow> string \<Rightarrow> bool \<Rightarrow> world \<Rightarrow> (string \<times> world) res" where
  "test_log tick timeStr is_open w =
     (let w = ReportAbuse tick timeStr 999 ''Attacker_User'' ''192.168.1.100'' 55555 (wide ''Packet Flooding Detected'') w in
      assert_crash (w_abuseCount w = 1) (
      case DumpLogsToFile is_open timeStr w of None \<Rightarrow> Crash AssertCrash | Some file \<Rightarrow> Ok (file, w)))"

definition TestChatServerAndAbuseMonitor ::
    "nat \<Rightarrow> nat \<Rightarrow> uint64 \<Rightarrow> (nat \<Rightarrow> uint64) \<Rightarrow> string \<Rightarrow> bool \<Rightarrow> session_ref \<Rightarrow> session_ref \<Rightarrow> world \<Rightarrow>
     (string \<times> world) res option" where
  "TestChatServerAndAbuseMonitor t n now ticks timeStr is_open session1 session2 w =
     (let w = AbuseMonitor_Init (RoomManager_Init w);
          (room1, w) = GetOrCreateRoom 101 ''TestRoom101'' w;
          (room2, w) = GetOrCreateRoom 102 ''TestRoom102'' w in
      check (GetTotalRoomCount w \<ge> 2) (
      let w = SetPlayerInfo 1 ''Player_Alice'' session1 (upd_client session1 (\<lambda>_. ClientSession_new now [] 0) w);
          w = SetPlayerInfo 2 ''Player_Bob'' session2 (upd_client session2 (\<lambda>_. ClientSession_new now [] 0) w) in
      and_then (test_rooms t n session1 session2 room1 room2 w) (\<lambda>w.
      and_then (Some (test_bucket now ticks)) (\<lambda>_.
      Some (test_log now timeStr is_open w)))))"

section \<open>Runs of single jobs\<close>

text \<open>What the jobs of the test do to the members of their room and to the rooms of the sessions.\<close>

fun job_members :: "room_job \<Rightarrow> session_ref list \<Rightarrow> session_ref list" where
  "job_members (JobEnter (Some s)) ms = members_insert s ms"
| "job_members (JobLeave (Some s)) ms = removeAll s ms"
| "job_members _ ms = ms"

fun job_place :: "room_ref \<Rightarrow> room_job \<Rightarrow> (session_ref \<Rightarrow> room_ref option) \<Rightarrow> session_ref \<Rightarrow> room_ref option" where
  "job_place r (JobEnter (Some s)) place = place(s := Some r)"
| "job_place r (JobLeave (Some s)) place = (if place s = Some r then place(s := None) else place)"
| "job_place r _ place = place"

fun stays_here :: "room_job \<Rightarrow> bool" where
  "stays_here (JobLeaveAndEnter _ _) = False"
| "stays_here _ = True"

text \<open>The world as far as the rooms go: global queue, jobs, members, rooms of the sessions.\<close>

definition lobby ::
    "room_ref list \<Rightarrow> (room_ref \<Rightarrow> room_job list) \<Rightarrow> (room_ref \<Rightarrow> session_ref list) \<Rightarrow>
     (session_ref \<Rightarrow> room_ref option) \<Rightarrow> world \<Rightarrow> bool" where
  "lobby g jobs members place w \<longleftrightarrow> ready w \<and> w_abuseCount w = 0 \<and> w_globalQueue w = g \<and>
     (\<forall>r. room_jobs w r = jobs r \<and> room_count w r = int (length (jobs r)) \<and> rm_members (w_rooms w r) = members r \<and>
       length (rm_roomName (w_rooms w r)) \<le> 256) \<and>
     (\<forall>s. cs_room (w_clients w s) = place s \<and> length (GetPlayerName s w) \<le> 32)"

lemma lobby_push:
  assumes "lobby g jobs members place w"
  shows "lobby (if jobs r = [] then g @ [r] else g) (jobs(r := jobs r @ [j])) members place (PushJob r j w)"
  using assms PushJob_queues [of r j w]
  by (auto simp: lobby_def)

text \<open>A job that stays in its room, run on a room that is in order.\<close>

lemma run_job_effect:
  assumes "room_ok r (Suc k) w" "job_ok j" "stays_here j"
  shows "\<exists>w'. run_job t r j w = Ok w' \<and> ready w' \<and> same_queues w w' \<and> w_abuseCount w' = w_abuseCount w \<and>
    (\<forall>q. rm_members (w_rooms w' q) = (if q = r then job_members j (rm_members (w_rooms w r)) else rm_members (w_rooms w q)) \<and>
      rm_roomName (w_rooms w' q) = rm_roomName (w_rooms w q)) \<and>
    (\<forall>s. cs_room (w_clients w' s) = job_place r j (\<lambda>s. cs_room (w_clients w s)) s \<and> GetPlayerName s w' = GetPlayerName s w)"
proof -
  note ok = room_okD [OF assms(1)]
  have j: "w_abuseCount (joined r s w) = w_abuseCount w" "w_abuseCount (parted r s w) = w_abuseCount w" for s
    by (simp_all add: joined_def parted_def SetRoom_def Let_def)
  have tells: "ready w' \<and> same_queues w w' = same_queues w w1 \<and> w_abuseCount w' = w_abuseCount w1 \<and> w_rooms w' = w_rooms w1 \<and>
      (\<forall>s. cs_room (w_clients w' s) = cs_room (w_clients w1 s) \<and> GetPlayerName s w' = GetPlayerName s w1)"
    if "tells w1 m w'" for w1 m w'
    using that tells_simps [OF that] quiet_eqD(9) [of w' w1] same_queues_quiet [of w' w1 w] by (auto simp: tells_def)
  have idle: ?thesis if "run_job t r j w = Ok w" "job_members j = (\<lambda>ms. ms)" "job_place r j = (\<lambda>p. p)"
    using that ok(1) by simp
  show ?thesis
  proof (cases j)
    case (JobEnter x)
    show ?thesis
    proof (cases x)
      case (Some s)
      obtain w' m where w': "Room_Enter t r (Some s) w = Ok w'" "tells (joined r s w) m w'"
        using Room_Enter_tells [OF ok(1,2,6,7), where t = t] by blast
      show ?thesis
        using w'(1) tells [OF w'(2)] JobEnter Some j by (intro exI [of _ w']) simp
    qed (rule idle, simp_all add: JobEnter Room_Enter_def fun_eq_iff)
  next
    case (JobLeave x)
    show ?thesis
    proof (cases x)
      case (Some s)
      obtain w' m where w': "Room_Leave t r (Some s) w = Ok w'" "tells (parted r s w) m w'"
        using Room_Leave_tells [OF ok(1,2,8), where t = t] by blast
      show ?thesis
        using w'(1) tells [OF w'(2)] JobLeave Some j by (intro exI [of _ w']) simp
    qed (rule idle, simp_all add: JobLeave Room_Leave_def fun_eq_iff)
  next
    case (JobHandleChat x message)
    show ?thesis
    proof (cases x)
      case (Some s)
      have "packet_size (chat_packet s message w) \<le> 4096" using ok(9) assms(2) JobHandleChat by simp
      then obtain w' m where w': "Room_HandleChat t r (Some s) message w = Ok w'" "tells w m w'"
        using Room_HandleChat_tells [OF ok(1,2), where t = t] by blast
      show ?thesis
        using w'(1) tells [OF w'(2)] JobHandleChat Some by (intro exI [of _ w']) simp
    qed (rule idle, simp_all add: JobHandleChat Room_HandleChat_def fun_eq_iff)
  qed (use assms(3) in simp)
qed

lemma lobby_turn:
  assumes "lobby (r # g) jobs members place w" "jobs r = [j]" "job_ok j" "stays_here j"
    "distinct (members r)" "length (members r) < 100"
  shows "\<exists>w'. worker_loop t (Suc n) w = worker_loop t n w' \<and>
    lobby g (jobs(r := [])) (members(r := job_members j (members r))) (job_place r j place) w'"
proof -
  let ?v = "set_room r ((w_rooms w r)\<lparr>jq_jobs := []\<rparr>) (set_global g w)"
  have l: "ready w" "w_abuseCount w = 0" "w_globalQueue w = r # g" "room_jobs w = jobs"
    "\<And>q. room_count w q = int (length (jobs q))" "\<And>q. rm_members (w_rooms w q) = members q"
    "\<And>q. length (rm_roomName (w_rooms w q)) \<le> 256" "(\<lambda>s. cs_room (w_clients w s)) = place"
    "\<And>s. length (GetPlayerName s w) \<le> 32"
    using assms(1) by (auto simp: lobby_def fun_eq_iff)
  have v: "ready ?v" "w_clients ?v = w_clients w" "w_abuseCount ?v = w_abuseCount w" "w_globalQueue ?v = g"
    "rm_members (w_rooms ?v q) = members q" "rm_roomName (w_rooms ?v q) = rm_roomName (w_rooms w q)"
    "GetPlayerName s ?v = GetPlayerName s w" for q s
    using l(1,6) ready_cong(1) [of ?v w] by (simp_all add: set_room_def set_global_def GetPlayerName_def)
  have ok: "room_ok r (Suc 0) ?v" using v l(7,9) assms(5,6) by (simp add: room_ok_def)
  obtain w2 where w2: "run_job t r j ?v = Ok w2" "ready w2" "same_queues ?v w2" "w_abuseCount w2 = w_abuseCount ?v"
    "\<forall>q. rm_members (w_rooms w2 q) = (if q = r then job_members j (rm_members (w_rooms ?v r)) else rm_members (w_rooms ?v q)) \<and>
      rm_roomName (w_rooms w2 q) = rm_roomName (w_rooms ?v q)"
    "\<forall>s. cs_room (w_clients w2 s) = job_place r j (\<lambda>s. cs_room (w_clients ?v s)) s \<and> GetPlayerName s w2 = GetPlayerName s ?v"
    using run_job_effect [OF ok assms(3,4)] by blast
  have q2: "w_globalQueue w2 = g" "room_jobs w2 = jobs(r := [])" "room_count w2 q = (if q = r then 1 else int (length (jobs q)))" for q
    using w2(3) l(4,5) assms(2) by (simp_all add: same_queues_def fun_eq_iff room_count_def)
  let ?w' = "set_room r ((w_rooms w2 r)\<lparr>jq_jobCount := 0\<rparr>) w2"
  have "worker_loop t (Suc n) w = worker_loop t n ?w'"
  proof -
    have "take_loop 0 [j] = ([j], [])" by (simp add: maxExecuteCount_def)
    then have "Execute_take (w_rooms w r) = ([j], (w_rooms w r)\<lparr>jq_jobs := []\<rparr>)"
      using assms(2) fun_cong [OF l(4), of r] by (simp add: Execute_take_def room_jobs_def)
    moreover have "jq_jobCount (w_rooms w2 r) = 1" using q2(3) [of r] by (simp add: room_count_def)
    ultimately show ?thesis
      using l(3) w2(1) by (simp add: GlobalQueue_Pop_def Room_Execute_def Execute_done_def Let_def)
  qed
  moreover have "lobby g (jobs(r := [])) (members(r := job_members j (members r))) (job_place r j place) ?w'"
  proof -
    have "ready ?w'" "w_clients ?w' = w_clients w2" "w_abuseCount ?w' = 0" "w_globalQueue ?w' = g"
      "rm_members (w_rooms ?w' q) = rm_members (w_rooms w2 q)" "rm_roomName (w_rooms ?w' q) = rm_roomName (w_rooms w2 q)"
      "room_jobs ?w' = jobs(r := [])" "room_count ?w' q = int (length ((jobs(r := [])) q))" for q
      using w2(2,4) v(3) l(2) q2 ready_cong(1) [of ?w' w2] fun_cong [OF q2(2), of r]
      by (auto simp: set_room_def room_jobs_def room_count_def fun_eq_iff)
    moreover have "GetPlayerName s ?w' = GetPlayerName s w" for s
      using w2(6) v(7) by (simp add: GetPlayerName_def set_room_def)
    ultimately show ?thesis
      using w2(5,6) v(2,5,6) l(7-9) by (auto simp: lobby_def)
  qed
  ultimately show ?thesis by blast
qed

lemma lobby_end: "lobby [] jobs members place w \<Longrightarrow> worker_loop t (Suc n) w = Some (Ok w)"
  by (simp add: lobby_def GlobalQueue_Pop_def set_global_def)

text \<open>One job pushed to an idle room, and the loop.\<close>

lemma lobby_job:
  assumes "lobby [] (\<lambda>_. []) members place w" "job_ok j" "stays_here j" "distinct (members r)" "length (members r) < 100"
    "2 \<le> n"
  shows "\<exists>w'. worker_loop t n (PushJob r j w) = Some (Ok w') \<and>
    lobby [] (\<lambda>_. []) (members(r := job_members j (members r))) (job_place r j place) w'"
proof -
  obtain m where n: "n = Suc (Suc m)" using assms(6) by (metis Suc_le_D add_2_eq_Suc' numeral_2_eq_2 Suc_le_mono)
  have "lobby [r] ((\<lambda>_. [])(r := [j])) members place (PushJob r j w)"
    using lobby_push [OF assms(1), of r j] by simp
  from lobby_turn [OF this _ assms(2-5), of t "Suc m"] obtain w' where
    "worker_loop t n (PushJob r j w) = worker_loop t (Suc m) w'"
    "lobby [] ((\<lambda>_. [])(r := [j], r := [])) (members(r := job_members j (members r))) (job_place r j place) w'"
    by (auto simp: n)
  moreover have "((\<lambda>_. [])(r := [j], r := [])) = (\<lambda>_. [])" by (simp add: fun_eq_iff)
  ultimately show ?thesis using lobby_end by (intro exI [of _ w']) simp
qed

section \<open>The test passes\<close>

lemma test_rooms_pass:
  assumes "lobby [] (\<lambda>_. []) members place w" "members room1 = []" "members room2 = []" "room1 \<noteq> room2"
    "session1 \<noteq> session2" "3 \<le> n"
  shows "\<exists>w' members' place'. test_rooms t n session1 session2 room1 room2 w = Some (Ok w') \<and>
    lobby [] (\<lambda>_. []) members' place' w'"
proof -
  obtain m where n: "n = Suc (Suc (Suc m))" using assms(6) by (metis Suc_le_D numeral_3_eq_3 Suc_le_mono)
  let ?e1 = "JobEnter (Some session1)" and ?e2 = "JobEnter (Some session2)"
  let ?w = "PushJob room2 ?e2 (PushJob room1 ?e1 w)"
  have "lobby [room1, room2] ((\<lambda>_. [])(room1 := [?e1], room2 := [?e2])) members place ?w"
    using lobby_push [OF lobby_push [OF assms(1), of room1 ?e1], of room2 ?e2] assms(4) by simp
  from lobby_turn [OF this, of ?e1 t "Suc (Suc m)"] obtain w1 where
    w1: "worker_loop t n ?w = worker_loop t (Suc (Suc m)) w1"
      "lobby [room2] ((\<lambda>_. [])(room1 := [?e1], room2 := [?e2], room1 := [])) (members(room1 := [session1]))
        (place(session1 := Some room1)) w1"
    using assms(2,4) by (auto simp: members_insert_def n)
  from lobby_turn [OF w1(2), of ?e2 t "Suc m"] obtain w2 where
    w2: "worker_loop t (Suc (Suc m)) w1 = worker_loop t (Suc m) w2"
      "lobby [] ((\<lambda>_. [])(room1 := [?e1], room2 := [?e2], room1 := [], room2 := []))
        (members(room1 := [session1], room2 := [session2])) (place(session1 := Some room1, session2 := Some room2)) w2"
    using assms(3,4) by (auto simp: members_insert_def)
  have idle: "(\<lambda>_. [])(room1 := [?e1], room2 := [?e2], room1 := [], room2 := []) = (\<lambda>_. [])" by (simp add: fun_eq_iff)
  note w2' = w2(2) [unfolded idle]
  have loop1: "worker_loop t n ?w = Some (Ok w2)" using w1(1) w2(1) lobby_end [OF w2'] by simp
  have n2: "2 \<le> n" by (simp add: n)
  have upd: "members(room2 := ss, room1 := us) = members(room1 := us, room2 := ss)"
    "members(room1 := us, room2 := ss, room1 := []) = members(room1 := [], room2 := ss)"
    "place(session1 := p, session2 := q, session1 := None) = place(session1 := None, session2 := q)" for ss us p q
    using assms(4,5) by (auto simp: fun_eq_iff)
  obtain w3 where w3: "worker_loop t n (PushJob room1 (JobHandleChat (Some session1) ''Hello Room 101'') w2) = Some (Ok w3)"
    "lobby [] (\<lambda>_. []) (members(room1 := [session1], room2 := [session2])) (place(session1 := Some room1, session2 := Some room2)) w3"
    using lobby_job [OF w2', of "JobHandleChat (Some session1) ''Hello Room 101''" room1 n t] assms(4) n2 upd(1) by auto
  obtain w4 where w4: "worker_loop t n (PushJob room1 (JobLeave (Some session1)) w3) = Some (Ok w4)"
    "lobby [] (\<lambda>_. []) (members(room1 := [], room2 := [session2])) (place(session1 := None, session2 := Some room2)) w4"
    using lobby_job [OF w3(2), of "JobLeave (Some session1)" room1 n t] assms(4,5) n2 upd(2,3) by auto
  have "GetRoom session1 w2 = Some room1" "GetRoom session2 w2 = Some room2" "GetUserCount room1 w2 = 1"
    "GetUserCount room2 w2 = 1" "GetRoom session1 w4 = None" "GetUserCount room1 w4 = 0"
    using w2' w4(2) assms(4,5) by (simp_all add: lobby_def GetRoom_def GetUserCount_def)
  then have "test_rooms t n session1 session2 room1 room2 w = Some (Ok w4)"
    using loop1 w3(1) w4(1) by (simp add: test_rooms_def)
  then show ?thesis using w4(2) by blast
qed

text \<open>In less than a fifth of a second no token is earned.\<close>

lemma Refill_early:
  assumes "tb_refillRatePerSec tb = 5" "\<forall>i. now0 \<le> ticks i \<and> ticks i - now0 < (200 :: uint64)"
    "now0 \<le> tb_lastRefillTick tb"
  shows "tb_tokens (Refill (ticks i) tb) = tb_tokens tb" "tb_refillRatePerSec (Refill (ticks i) tb) = 5"
    "now0 \<le> tb_lastRefillTick (Refill (ticks i) tb)"
proof -
  have "add_tokens (ticks i - tb_lastRefillTick tb) 5 = 0" if "tb_lastRefillTick tb < ticks i"
  proof -
    have "unat (ticks i - tb_lastRefillTick tb) \<le> unat (ticks i - now0)"
      using assms(3) that unat_diff [OF less_imp_le [OF that]] unat_diff [OF conjunct1 [OF spec [OF assms(2)]], of i]
      by (simp add: word_le_nat_alt)
    also have "\<dots> < 200" using assms(2) by (simp add: word_less_nat_alt)
    finally have u: "unat (ticks i - tb_lastRefillTick tb) < 200" .
    define d where "d = ticks i - tb_lastRefillTick tb"
    have "unat (d * 5) = unat d * 5" using u unat_mult_lem [of d 5] by (simp add: d_def [symmetric])
    then show ?thesis using u by (simp add: add_tokens_def to_int32_def d_def [symmetric])
  qed
  then show "tb_tokens (Refill (ticks i) tb) = tb_tokens tb" "tb_refillRatePerSec (Refill (ticks i) tb) = 5"
    "now0 \<le> tb_lastRefillTick (Refill (ticks i) tb)"
    using assms by (auto simp: Refill_def Let_def not_le)
qed

lemma test_bucket_passes:
  assumes "\<forall>i. now \<le> ticks i \<and> ticks i - now < 200"
  shows "test_bucket now ticks = Ok ()"
proof -
  have run: "\<exists>tb'. consume_all ticks i n tb = Ok tb' \<and> tb_tokens tb' = tb_tokens tb - int n \<and>
      tb_refillRatePerSec tb' = 5 \<and> now \<le> tb_lastRefillTick tb'"
    if "tb_refillRatePerSec tb = 5" "now \<le> tb_lastRefillTick tb" "int n \<le> tb_tokens tb" for i n tb
    using that
  proof (induction n arbitrary: i tb)
    case (Suc n)
    note r = Refill_early [OF Suc.prems(1) assms Suc.prems(2), of i]
    let ?tb = "(Refill (ticks i) tb)\<lparr>tb_tokens := tb_tokens tb - 1\<rparr>"
    have "Consume (ticks i) 1 tb = (True, ?tb)" using r(1) Suc.prems(3) by (simp add: Consume_def Let_def)
    then show ?case using Suc.IH [of ?tb "Suc i"] r Suc.prems(3) by (simp add: diff_diff_eq)
  qed simp
  obtain tb' where tb': "consume_all ticks 0 5 (TokenBucket_new 5 5 now) = Ok tb'" "tb_tokens tb' = 0"
    "tb_refillRatePerSec tb' = 5" "now \<le> tb_lastRefillTick tb'"
    using run [of "TokenBucket_new 5 5 now" 5 0] by (auto simp: TokenBucket_new_def)
  then have "\<not> fst (Consume (ticks 5) 1 tb')"
    using Refill_early(1) [OF tb'(3) assms tb'(4), of 5] by (simp add: Consume_def Let_def)
  then show ?thesis using tb'(1) by (simp add: test_bucket_def)
qed

text \<open>
  The test passes, from any state before \<open>main\<close> in which threads can serialise and no client has a long name,
  with any two sessions, if the clock moves by less than a fifth of a second during the test and the log file
  opens. A bound of three turns is enough for each run of the loop.
\<close>

theorem chat_server_test_passes:
  assumes "session1 \<noteq> session2" "3 \<le> n" "\<forall>i. now \<le> ticks i \<and> ticks i - now < 200" "is_open"
    and "\<forall>s. cs_sends (clients s) = [] \<and> cs_room (clients s) = None \<and> length (cs_playerName (clients s)) \<le> 32"
  shows "\<exists>file w. TestChatServerAndAbuseMonitor t n now ticks timeStr is_open session1 session2 (world_start clients) =
    Some (Ok (file, w)) \<and> w_abuseCount w = 1"
proof -
  let ?w0 = "AbuseMonitor_Init (RoomManager_Init (world_start clients))"
  note defs = world_start_def RoomManager_Init_def AbuseMonitor_Init_def make_room_def table_set_def Room_new_def Let_def
  have none: "map_of (w_roomTable ?w0) 101 = None" "w_nextRoom ?w0 = 3" by (simp_all add: defs)
  define w1 where "w1 = table_set 101 3 (snd (make_room 101 ''TestRoom101'' ?w0))"
  have g1: "GetOrCreateRoom 101 ''TestRoom101'' ?w0 = (3, w1)"
    using none by (simp add: GetOrCreateRoom_def CreateRoom_def w1_def make_room_def)
  have none1: "map_of (w_roomTable w1) 102 = None" "w_nextRoom w1 = 4" by (simp_all add: w1_def defs)
  define w2 where "w2 = table_set 102 4 (snd (make_room 102 ''TestRoom102'' w1))"
  have g2: "GetOrCreateRoom 102 ''TestRoom102'' w1 = (4, w2)"
    using none1 by (simp add: GetOrCreateRoom_def CreateRoom_def w2_def make_room_def)
  have total: "2 \<le> GetTotalRoomCount w2" by (simp add: GetTotalRoomCount_def w2_def w1_def defs)
  define w3 where "w3 = SetPlayerInfo 2 ''Player_Bob'' session2 (upd_client session2 (\<lambda>_. ClientSession_new now [] 0)
    (SetPlayerInfo 1 ''Player_Alice'' session1 (upd_client session1 (\<lambda>_. ClientSession_new now [] 0) w2)))"
  have ready: "ready (world_start clients)"
    using assms(5) by (simp add: ready_def all_closed_def world_start_def sb_inv_start sb_idle_start)
  have "cs_sends (w_clients w3 s) = []" "cs_room (w_clients w3 s) = None" "length (GetPlayerName s w3) \<le> 32" for s
    using assms(5) by (auto simp: w3_def w2_def w1_def defs SetPlayerInfo_def ClientSession_new_def GetPlayerName_def)
  moreover have "w_sendBuffers w3 = sb_start" "w_abuseCount w3 = 0" "w_globalQueue w3 = []"
    "room_jobs w3 r = []" "room_count w3 r = 0" "rm_members (w_rooms w3 r) = []" "length (rm_roomName (w_rooms w3 r)) \<le> 256" for r
    by (simp_all add: w3_def w2_def w1_def defs SetPlayerInfo_def room_jobs_def room_count_def)
  ultimately have lobby: "lobby [] (\<lambda>_. []) (\<lambda>_. []) (\<lambda>_. None) w3"
    using ready ready_cong(1) [of w3 "world_start clients"] assms(5) by (simp add: lobby_def world_start_def)
  obtain w4 members place where w4: "test_rooms t n session1 session2 3 4 w3 = Some (Ok w4)" "lobby [] (\<lambda>_. []) members place w4"
    using test_rooms_pass [OF lobby, of 3 4 session1 session2 n t] assms(1,2) by auto
  have "w_abuseCount w4 = 0" using w4(2) by (simp add: lobby_def)
  then obtain out w where "test_log now timeStr is_open w4 = Ok (out, w)" "w_abuseCount w = 1"
    using assms(4) by (auto simp: test_log_def ReportAbuse_def DumpLogsToFile_def Let_def)
  then have "TestChatServerAndAbuseMonitor t n now ticks timeStr is_open session1 session2 (world_start clients) = Some (Ok (out, w))"
    using g1 g2 total w4(1) test_bucket_passes [OF assms(3)]
    by (simp add: TestChatServerAndAbuseMonitor_def Let_def flip: w3_def)
  then show ?thesis using \<open>w_abuseCount w = 1\<close> by blast
qed

theorem chat_server_test_passes_witness:
  "\<exists>file w. TestChatServerAndAbuseMonitor 0 3 5000 (\<lambda>i. 5000 + of_nat (min i 10)) ''12:00:00'' True 1 2
     (world_start (\<lambda>_. ClientSession_new 0 [] 0)) = Some (Ok (file, w)) \<and> w_abuseCount w = 1"
proof -
  have "(5000 :: uint64) \<le> 5000 + of_nat (min i 10) \<and> 5000 + of_nat (min i 10) - (5000 :: uint64) < 200" for i
  proof -
    have "min i 10 \<in> set [0..<11]" by simp
    then show ?thesis by (auto simp: upt_rec)
  qed
  then show ?thesis
    by (intro chat_server_test_passes) (simp_all add: ClientSession_new_def)
qed

end
