(* ===== verification/NetworkTest.thy ===== *)
theory NetworkTest
  imports SessionSend Streams
begin

text \<open>
  \<open>TestIocpNetwork\<close> of \<^verbatim>\<open>EngineTest/Main.cpp\<close>: the two sessions of the echo test over \<open>Session\<close> and \<open>SendBuffer\<close>,
  and the burst of \<open>Send\<close> calls its client makes. A failing \<open>assert\<close> is a fault. What \<open>WSASend\<close> and
  \<open>DisconnectEx\<close> return is an argument of every call.
\<close>

section \<open>A burst of sends\<close>

text \<open>Everything accepted and not complete: what the system has and what waits.\<close>

definition accepted :: "session \<Rightarrow> send_buffer list" where
  "accepted s = ss_sendEvent s @ ss_sendQueue s"

text \<open>A session that can send: a send is under way, or there is nothing to be sent.\<close>

definition can_send :: "session \<Rightarrow> bool" where
  "can_send s \<longleftrightarrow> ss_connected s \<and> (ss_isSending s \<or> ss_sendQueue s = [] \<and> ss_sendEvent s = [] \<and> 0 \<le> ss_sendOffset s)"

definition idle_session :: "session \<Rightarrow> bool" where
  "idle_session s \<longleftrightarrow> ss_connected s \<and> \<not> ss_isSending s \<and> ss_sendQueue s = [] \<and> ss_sendEvent s = [] \<and> ss_sendOffset s = 0"

fun send_burst :: "(send_buffer \<times> os_result \<times> os_result) list \<Rightarrow> session \<Rightarrow> session" where
  "send_burst [] s = s"
| "send_burst ((sb, w, d) # calls) s = send_burst calls (Session_Send (Some sb) w d s)"

lemma Send_accepts:
  assumes "can_send s" "length (ss_sendQueue s) < MAX_SEND_QUEUE_SIZE" "os_posted w"
    and "s' = Session_Send (Some sb) w d s"
  shows "can_send s'" "ss_isSending s'" "accepted s' = accepted s @ [sb]"
    "ss_sendQueue s' = (if ss_isSending s then ss_sendQueue s @ [sb] else [])"
    "ss_sendEvent s' = (if ss_isSending s then ss_sendEvent s else [sb])"
proof -
  have "ss_connected s" using assms(1) by (simp add: can_send_def)
  have "s' = (if ss_isSending s then s\<lparr>ss_sendQueue := ss_sendQueue s @ [sb], ss_isSending := True\<rparr>
      else fst (RegisterSend w d (s\<lparr>ss_sendQueue := [sb], ss_isSending := True\<rparr>)))"
    using assms(1,2) by (auto simp: assms(4) Session_Send_def Send_push_def can_send_def)
  moreover have "fst (RegisterSend w d (s\<lparr>ss_sendQueue := [sb], ss_isSending := True\<rparr>)) =
      post (PostSend [(sb, ss_sendOffset s, sb_writeSize sb - ss_sendOffset s)])
        (s\<lparr>ss_sendOwner := True, ss_sendQueue := [], ss_isSending := True, ss_sendEvent := [sb]\<rparr>) \<or>
      fst (RegisterSend w d (s\<lparr>ss_sendQueue := [sb], ss_isSending := True\<rparr>)) =
      post (PostSend [(sb, 0, sb_writeSize sb)])
        (s\<lparr>ss_sendOwner := True, ss_sendQueue := [], ss_isSending := True, ss_sendEvent := [sb]\<rparr>)"
    if "\<not> ss_isSending s"
    using assms(1,3) that \<open>ss_connected s\<close>
    by (cases w) (auto simp: RegisterSend_def can_send_def MAX_GATHER_def post_def Let_def)
  ultimately show "can_send s'" "ss_isSending s'" "accepted s' = accepted s @ [sb]"
    "ss_sendQueue s' = (if ss_isSending s then ss_sendQueue s @ [sb] else [])"
    "ss_sendEvent s' = (if ss_isSending s then ss_sendEvent s else [sb])"
    using assms(1) by (auto simp: can_send_def accepted_def post_def)
qed

lemma send_burst_closed: "\<not> ss_connected s \<Longrightarrow> send_burst calls s = s"
  by (induction calls arbitrary: s) (auto simp: Session_Send_def)

text \<open>With a send under way the queue fills up; the call that finds it full disconnects.\<close>

lemma send_burst_busy:
  assumes "ss_connected s" "ss_isSending s" "length (ss_sendQueue s) \<le> MAX_SEND_QUEUE_SIZE" "\<forall>(sb, w, d) \<in> set calls. os_posted w"
  defines "room \<equiv> MAX_SEND_QUEUE_SIZE - length (ss_sendQueue s)"
  shows "(ss_connected (send_burst calls s) \<longleftrightarrow> length calls \<le> room) \<and>
    accepted (send_burst calls s) = accepted s @ take room (map fst calls)"
  using assms(1-4) unfolding room_def
proof (induction calls arbitrary: s)
  case (Cons call calls)
  obtain sb w d where c: "call = (sb, w, d)" by (cases call)
  show ?case
  proof (cases "length (ss_sendQueue s) < MAX_SEND_QUEUE_SIZE")
    case True
    let ?s = "Session_Send (Some sb) w d s"
    have "can_send s" using Cons.prems by (simp add: can_send_def)
    from Send_accepts [OF this True _ refl, of w sb d] have s: "ss_connected ?s" "ss_isSending ?s" "accepted ?s = accepted s @ [sb]"
      "length (ss_sendQueue ?s) = Suc (length (ss_sendQueue s))"
      using Cons.prems c by (auto simp: can_send_def)
    have "MAX_SEND_QUEUE_SIZE - length (ss_sendQueue s) = Suc (MAX_SEND_QUEUE_SIZE - Suc (length (ss_sendQueue s)))"
      using True by simp
    then show ?thesis using Cons.IH [OF s(1,2)] s(3,4) True Cons.prems(4) c by simp
  next
    case False
    then have "Session_Send (Some sb) w d s = Session_Disconnect d s" "length (ss_sendQueue s) = MAX_SEND_QUEUE_SIZE"
      using Cons.prems by (simp_all add: Session_Send_def Send_push_def)
    then show ?thesis by (simp add: c send_burst_closed accepted_def)
  qed
qed simp

lemma send_burst_event: "ss_isSending s \<Longrightarrow> ss_sendEvent (send_burst calls s) = ss_sendEvent s"
proof (induction calls arbitrary: s)
  case (Cons c cs)
  obtain sb w d where c: "c = (sb, w, d)" by (cases c)
  have "ss_sendEvent (Session_Send (Some sb) w d s) = ss_sendEvent s \<and> ss_isSending (Session_Send (Some sb) w d s)"
    using Cons.prems by (auto simp: Session_Send_def Send_push_def)
  then show ?case using Cons.IH c by simp
qed simp

lemma send_burst_idle:
  assumes "idle_session s" "\<forall>(sb, w, d) \<in> set calls. os_posted w"
  shows "(ss_connected (send_burst calls s) \<longleftrightarrow> length calls \<le> 501) \<and>
    accepted (send_burst calls s) = take 501 (map fst calls) \<and>
    ss_sendEvent (send_burst calls s) = take 1 (map fst calls)"
proof (cases calls)
  case Nil
  then show ?thesis using assms(1) by (simp add: idle_session_def accepted_def)
next
  case (Cons call rest)
  obtain sb w d where c: "call = (sb, w, d)" by (cases call)
  let ?s = "Session_Send (Some sb) w d s"
  have "can_send s" "length (ss_sendQueue s) < MAX_SEND_QUEUE_SIZE" "os_posted w"
    using assms Cons c by (auto simp: can_send_def idle_session_def MAX_SEND_QUEUE_SIZE_def)
  from Send_accepts [OF this refl, of sb d] have s: "ss_connected ?s" "ss_isSending ?s" "ss_sendQueue ?s = []"
    "ss_sendEvent ?s = [sb]" "accepted ?s = [sb]"
    using assms(1) by (auto simp: can_send_def idle_session_def accepted_def)
  have "\<forall>(sb, w, d) \<in> set rest. os_posted w" using assms(2) Cons by simp
  from send_burst_busy [OF s(1,2) _ this] s(3,5) send_burst_event [OF s(2), of rest] s(4) show ?thesis
    by (simp add: Cons c MAX_SEND_QUEUE_SIZE_def)
qed

lemma send_burst_facts:
  assumes "idle_session s" "\<forall>(sb, w, d) \<in> set calls. os_posted w" "501 < length calls"
  shows "\<not> ss_connected (send_burst calls s)" "length (ss_sendEvent (send_burst calls s)) = 1"
    "length (ss_sendQueue (send_burst calls s)) = 500"
proof -
  note b = send_burst_idle [OF assms(1,2)]
  show "\<not> ss_connected (send_burst calls s)" "length (ss_sendEvent (send_burst calls s)) = 1" using b assms(3) by auto
  have "length (accepted (send_burst calls s)) = 501" using b assms(3) by simp
  then show "length (ss_sendQueue (send_burst calls s)) = 500"
    using \<open>length (ss_sendEvent (send_burst calls s)) = 1\<close> by (simp add: accepted_def)
qed

text \<open>C31: How much a session buffers. If buffers are sent on an idle connected session, the system takes the first and
  completes nothing before the last call, then exactly the first 501 are accepted, one of them by the system and
  500 by the queue; up to that number the session stays connected, and the next call disconnects it.\<close>

theorem send_burst_limit:
  assumes "idle_session s" "\<forall>(sb, w, d) \<in> set calls. os_posted w"
  shows "(ss_connected (send_burst calls s) \<longleftrightarrow> length calls \<le> 501) \<and>
    accepted (send_burst calls s) = take 501 (map fst calls) \<and>
    ss_sendEvent (send_burst calls s) = take 1 (map fst calls)"
  by (rule send_burst_idle [OF assms])

definition idle_example :: session where
  "idle_example = (Session_new \<lparr>rb_buffer = [], rb_capacity = 0, rb_readPos = 0, rb_writePos = 0\<rparr>)\<lparr>ss_connected := True\<rparr>"

definition sb_example :: send_buffer where
  "sb_example = \<lparr>sb_owner = 0, sb_buffer = 0, sb_allocSize = 40, sb_writeSize = 40\<rparr>"

theorem send_burst_limit_witness:
  "ss_connected (send_burst (replicate 501 (sb_example, OsError WSA_IO_PENDING, OsDone)) idle_example) \<and>
   \<not> ss_connected (send_burst (replicate 502 (sb_example, OsError WSA_IO_PENDING, OsDone)) idle_example)"
proof -
  have "idle_session idle_example" by (simp add: idle_session_def idle_example_def Session_new_def)
  then show ?thesis
    using send_burst_limit [of idle_example "replicate 501 (sb_example, OsError WSA_IO_PENDING, OsDone)"]
      send_burst_limit [of idle_example "replicate 502 (sb_example, OsError WSA_IO_PENDING, OsDone)"]
    by simp
qed

section \<open>The sessions of the test\<close>

record test_world =
  tw_sendBuffers :: sb_state
  GServerRecvCount :: int32
  GClientRecvCount :: int32

definition test_header :: PacketHeader where
  "test_header = \<lparr>header_size = 40, header_id = 1001\<rparr>"

text \<open>\<open>sprintf_s\<close> into the 32 characters; what follows the text is what the memory held.\<close>

definition message_bytes :: "int32 \<Rightarrow> byte list \<Rightarrow> byte list" where
  "message_bytes i old = (let written = map byte_of_char (''EchoTest_'' @ to_string i) @ [0] in written @ drop (length written) old)"

definition test_packet :: "int32 \<Rightarrow> byte list \<Rightarrow> byte list" where
  "test_packet i old = enc_PacketHeader test_header @ enc_int32 (word_of_int i) @ message_bytes i (drop 8 old)"

text \<open>A buffer of the size of a packet: opened, filled by \<open>f\<close> and closed.\<close>

definition test_buffer :: "nat \<Rightarrow> (byte list \<Rightarrow> byte list) \<Rightarrow> sb_state \<Rightarrow> (send_buffer \<times> sb_state) res" where
  "test_buffer t f b =
     res_bind (SendBufferManager_Open t 40 b) (\<lambda>(sb, b).
     case sb of None \<Rightarrow> Crash NullDeref
     | Some sb \<Rightarrow> SendBufferManager_Close sb 40 (sb_store sb (f (sb_block b sb)) b))"

definition test_check :: "byte list \<Rightarrow> 'a res \<Rightarrow> 'a res" where
  "test_check buffer k = res_bind (mem_read buffer 0 4) (\<lambda>d.
     assert_crash (header_size (dec_PacketHeader d) = 40) (assert_crash (header_id (dec_PacketHeader d) = 1001) k))"

definition TestServerSession_OnRecvPacket ::
    "nat \<Rightarrow> os_result \<Rightarrow> os_result \<Rightarrow> byte list \<Rightarrow> int32 \<Rightarrow> session \<times> test_world \<Rightarrow> (session \<times> test_world) res" where
  "TestServerSession_OnRecvPacket t w d buffer len = (\<lambda>(s, c).
     test_check buffer (
     let c = c\<lparr>GServerRecvCount := to_int32 (GServerRecvCount c + 1)\<rparr> in
     res_bind (mem_read buffer 0 40) (\<lambda>pkt.
     res_bind (test_buffer t (\<lambda>_. pkt) (tw_sendBuffers c)) (\<lambda>(sb, b).
     Ok (Session_Send (Some sb) w d s, c\<lparr>tw_sendBuffers := b\<rparr>)))))"

definition TestClientSession_OnRecvPacket ::
    "byte list \<Rightarrow> int32 \<Rightarrow> session \<times> test_world \<Rightarrow> (session \<times> test_world) res" where
  "TestClientSession_OnRecvPacket buffer len = (\<lambda>(s, c).
     test_check buffer (Ok (s, c\<lparr>GClientRecvCount := to_int32 (GClientRecvCount c + 1)\<rparr>)))"

text \<open>The loop of \<open>OnConnected\<close> from \<open>i\<close> on, \<open>n\<close> packets left; \<open>w i\<close> and \<open>d i\<close> are the results for the \<open>i\<close>-th.\<close>

fun connected_loop ::
    "nat \<Rightarrow> (nat \<Rightarrow> os_result) \<Rightarrow> (nat \<Rightarrow> os_result) \<Rightarrow> nat \<Rightarrow> nat \<Rightarrow> session \<times> test_world \<Rightarrow>
     (session \<times> test_world) res" where
  "connected_loop t w d i 0 x = Ok x"
| "connected_loop t w d i (Suc n) x =
     res_bind (test_buffer t (test_packet (int i + 1)) (tw_sendBuffers (snd x))) (\<lambda>(sb, b).
     connected_loop t w d (Suc i) n (Session_Send (Some sb) (w i) (d i) (fst x), (snd x)\<lparr>tw_sendBuffers := b\<rparr>))"

definition TestClientSession_OnConnected ::
    "nat \<Rightarrow> (nat \<Rightarrow> os_result) \<Rightarrow> (nat \<Rightarrow> os_result) \<Rightarrow> session \<times> test_world \<Rightarrow> (session \<times> test_world) res" where
  "TestClientSession_OnConnected t w d = connected_loop t w d 0 100000"

section \<open>Buffers of the test\<close>

lemma test_buffer_ok:
  assumes "sb_inv b" "sb_idle b t" "\<And>old. length old = 40 \<Longrightarrow> length (f old) = 40"
  obtains sb b' d where "test_buffer t f b = Ok (sb, b')" "sb_inv b'" "sb_idle b' t" "sb_frame t b b'" "sb_closed b' sb"
    "sb_bytes b' sb = f d" "length d = 40"
proof -
  have idle: "\<not> ck_open (sb_chunks b c)" if "LSendBufferChunk b t = Some c" for c
    using assms(2) that by (simp add: sb_idle_def)
  obtain sb b1 where o: "SendBufferManager_Open t 40 b = Ok (Some sb, b1)" "sb_inv b1" "sb_held b1 t sb" "sb_allocSize sb = 40"
      "sb_frame t b b1"
    by (rule SendBufferManager_Open_ok [OF assms(1), of 40 t]) (use idle in \<open>auto simp: CHUNK_SIZE_def\<close>)
  define d where "d = sb_block b1 sb"
  have d: "length d = 40" using sb_block_length [OF o(2,3)] o(4) by (simp add: d_def)
  then have "length (f d) = nat (sb_allocSize sb)" using assms(3) o(4) by simp
  note st = sb_store_ok [OF o(2,3) this]
  obtain b2 where c: "SendBufferManager_Close sb 40 (sb_store sb (f d) b1) = Ok (sb\<lparr>sb_writeSize := 40\<rparr>, b2)" "sb_inv b2"
      "sb_frame t (sb_store sb (f d) b1) b2" "sb_closed b2 (sb\<lparr>sb_writeSize := 40\<rparr>)"
      "sb_bytes b2 (sb\<lparr>sb_writeSize := 40\<rparr>) = take (nat 40) (sb_block (sb_store sb (f d) b1) sb)"
      "LSendBufferChunk b2 = LSendBufferChunk (sb_store sb (f d) b1)" "\<not> ck_open (sb_chunks b2 (sb_owner sb))"
    by (rule SendBufferManager_Close_ok [OF st(1,2), of 40]) (use o(4) in auto)
  have "sb_idle b2 t" using c(6,7) st(2) by (simp add: sb_idle_def sb_held_def)
  moreover have "sb_frame t b b2" using sb_frame_trans [OF sb_frame_trans [OF o(5) st(3)] c(3)] .
  moreover have "sb_bytes b2 (sb\<lparr>sb_writeSize := 40\<rparr>) = f d" using c(5) st(4) assms(3) [OF d] by simp
  ultimately show thesis
    using that o(1) c(1,2,4) d by (simp add: test_buffer_def flip: d_def)
qed

lemma length_test_packet:
  assumes "length old = 40" "0 \<le> i" "i < 1000000"
  shows "length (test_packet i old) = 40"
proof -
  have "length (to_string i) \<le> 6" using length_to_string [of i 6] assms(2,3) by simp
  then show ?thesis using assms(1) by (simp add: test_packet_def message_bytes_def Let_def)
qed

section \<open>The burst of the client\<close>

lemma connected_loop_burst:
  assumes "sb_inv (tw_sendBuffers c)" "sb_idle (tw_sendBuffers c) t" "i + n < 1000000"
  shows "\<exists>sbs c'. connected_loop t w d i n (s, c) = Ok (send_burst (map (\<lambda>k. (sbs ! k, w (i + k), d (i + k))) [0..<n]) s, c') \<and>
    length sbs = n"
  using assms
proof (induction n arbitrary: i s c)
  case (Suc n)
  have "length (test_packet (int i + 1) old) = 40" if "length old = 40" for old
    using length_test_packet [OF that] Suc.prems(3) by simp
  from test_buffer_ok [OF Suc.prems(1,2), of "test_packet (int i + 1)", OF this] obtain sb b where
    b: "test_buffer t (test_packet (int i + 1)) (tw_sendBuffers c) = Ok (sb, b)" "sb_inv b" "sb_idle b t" by metis
  let ?s = "Session_Send (Some sb) (w i) (d i) s" and ?c = "c\<lparr>tw_sendBuffers := b\<rparr>"
  obtain sbs c' where r: "connected_loop t w d (Suc i) n (?s, ?c) =
      Ok (send_burst (map (\<lambda>k. (sbs ! k, w (Suc i + k), d (Suc i + k))) [0..<n]) ?s, c')" "length sbs = n"
    using Suc.IH [of ?c "Suc i" ?s] b(2,3) Suc.prems(3) by auto
  have "map (\<lambda>k. ((sb # sbs) ! k, w (i + k), d (i + k))) [0..<Suc n] =
      (sb, w i, d i) # map (\<lambda>k. (sbs ! k, w (Suc i + k), d (Suc i + k))) [0..<n]"
    by (simp add: upt_conv_Cons map_Suc_upt [symmetric] del: upt_Suc)
  then have "send_burst (map (\<lambda>k. ((sb # sbs) ! k, w (i + k), d (i + k))) [0..<Suc n]) s =
      send_burst (map (\<lambda>k. (sbs ! k, w (Suc i + k), d (Suc i + k))) [0..<n]) ?s" by simp
  then show ?case using b(1) r by (intro exI [of _ "sb # sbs"] exI [of _ c']) simp
qed simp

text \<open>
  The client of the test sends 100000 packets from \<open>OnConnected\<close>, one call after the other. Unless the other worker
  completes sends meanwhile, the session is disconnected before the loop ends: one packet has been handed to the
  system, 500 are in the queue, and \<open>RegisterSend\<close> sends no more of them on a closed session.
\<close>

theorem network_test_overflows:
  assumes "sb_inv (tw_sendBuffers c)" "sb_idle (tw_sendBuffers c) t" "idle_session s" "\<forall>i. os_posted (w i)"
  shows "\<exists>s' c'. TestClientSession_OnConnected t w d (s, c) = Ok (s', c') \<and> \<not> ss_connected s' \<and>
    length (ss_sendEvent s') = 1 \<and> length (ss_sendQueue s') = 500 \<and> RegisterSend w' d' s' = (s', None)"
proof -
  obtain sbs c' where r: "TestClientSession_OnConnected t w d (s, c) =
      Ok (send_burst (map (\<lambda>k. (sbs ! k, w k, d k)) [0..<100000]) s, c')"
    using connected_loop_burst [OF assms(1,2), where i = 0 and n = 100000 and w = w and d = d and s = s]
    by (auto simp: TestClientSession_OnConnected_def)
  define calls where "calls = map (\<lambda>k. (sbs ! k, w k, d k)) [0..<100000]"
  have len: "length calls = 100000" by (simp add: calls_def)
  have "\<forall>(sb, w, d) \<in> set calls. os_posted w" using assms(4) by (auto simp: calls_def)
  from send_burst_facts [OF assms(3) this] len
  have "\<not> ss_connected (send_burst calls s)" "length (ss_sendEvent (send_burst calls s)) = 1"
    "length (ss_sendQueue (send_burst calls s)) = 500"
    by auto
  then show ?thesis using r RegisterSend_closed by (auto simp flip: calls_def)
qed

section \<open>The echo of the server\<close>

text \<open>What the server is sent: packets of the test.\<close>

definition is_test_packet :: "byte list \<Rightarrow> bool" where
  "is_test_packet p \<longleftrightarrow> (\<exists>rest. p = enc_PacketHeader test_header @ rest \<and> length p = 40)"

lemma test_packet_header:
  assumes "is_test_packet p"
  shows "dec_PacketHeader (take 4 (p @ r)) = test_header" "length p = 40" "mem_read p 0 40 = Ok p" "test_check p k = k"
proof -
  obtain rest where p: "p = enc_PacketHeader test_header @ rest" "length p = 40"
    using assms by (auto simp: is_test_packet_def)
  have "take 4 (p @ r) = enc_PacketHeader test_header @ []" for r using p(1) by simp
  then show h: "dec_PacketHeader (take 4 (p @ r)) = test_header" for r by (simp only: dec_enc_PacketHeader)
  show "length p = 40" "mem_read p 0 40 = Ok p" using p(2) by (simp_all add: mem_read_def)
  show "test_check p k = k" using h [of "[]"] p(2) by (simp add: test_check_def mem_read_def test_header_def)
qed

lemma frames_test_packets:
  assumes "\<forall>p \<in> set ps. is_test_packet p" "frames part = ([], Some part)"
  shows "frames (concat ps @ part) = (ps, Some part)"
  using assms(1)
proof (induction ps)
  case (Cons p ps)
  let ?tl = "concat ps @ part"
  have p: "frame_size (p @ ?tl) = 40" "length p = 40"
    using test_packet_header(1) [of p ?tl] test_packet_header(2) [of p] Cons.prems by (simp_all add: frame_size_def test_header_def)
  then have "frames (p @ ?tl) = (let (fs, rest) = frames ?tl in (p # fs, rest))" by (subst frames.simps) simp
  with Cons show ?case by simp
qed (simp add: assms(2))

text \<open>All accepted buffers are closed: their bytes do not change any more.\<close>

definition echo_ready :: "nat \<Rightarrow> session \<times> test_world \<Rightarrow> bool" where
  "echo_ready t x \<longleftrightarrow> can_send (fst x) \<and> sb_inv (tw_sendBuffers (snd x)) \<and> sb_idle (tw_sendBuffers (snd x)) t \<and>
     (\<forall>sb \<in> set (accepted (fst x)). sb_closed (tw_sendBuffers (snd x)) sb)"

definition echoed :: "session \<times> test_world \<Rightarrow> byte list list" where
  "echoed x = map (sb_bytes (tw_sendBuffers (snd x))) (accepted (fst x))"

lemma echo_one:
  assumes "echo_ready t (s, c)" "length (ss_sendQueue s) < MAX_SEND_QUEUE_SIZE" "os_posted w" "is_test_packet p"
  shows "\<exists>s' c'. TestServerSession_OnRecvPacket t w d p n (s, c) = Ok (s', c') \<and> echo_ready t (s', c') \<and>
    length (ss_sendQueue s') \<le> Suc (length (ss_sendQueue s)) \<and> echoed (s', c') = echoed (s, c) @ [p] \<and>
    GServerRecvCount c' = to_int32 (GServerRecvCount c + 1)"
proof -
  let ?b = "tw_sendBuffers c"
  have r: "sb_inv ?b" "sb_idle ?b t" "can_send s" "\<forall>sb \<in> set (accepted s). sb_closed ?b sb"
    using assms(1) by (auto simp: echo_ready_def)
  note p = test_packet_header [OF assms(4)]
  obtain sb b' where b: "test_buffer t (\<lambda>_. p) ?b = Ok (sb, b')" "sb_inv b'" "sb_idle b' t" "sb_frame t ?b b'" "sb_closed b' sb"
    "sb_bytes b' sb = p"
    using test_buffer_ok [OF r(1,2), of "\<lambda>_. p"] p(2) by metis
  let ?s = "Session_Send (Some sb) w d s"
  note snd = Send_accepts [OF r(3) assms(2,3) refl, of sb d]
  have old: "sb_closed b' x" "sb_bytes b' x = sb_bytes ?b x" if "x \<in> set (accepted s)" for x
    using sb_frame_closed [OF b(4)] r(4) that by blast+
  let ?c = "c\<lparr>GServerRecvCount := to_int32 (GServerRecvCount c + 1), tw_sendBuffers := b'\<rparr>"
  have "TestServerSession_OnRecvPacket t w d p n (s, c) = Ok (?s, ?c)"
    using p(3,4) b(1) by (simp add: TestServerSession_OnRecvPacket_def Let_def)
  moreover have "echo_ready t (?s, ?c)" using snd(1,3) b(2,3,5) old by (auto simp: echo_ready_def)
  moreover have "echoed (?s, ?c) = echoed (s, c) @ [p]" using snd(3) b(6) old by (simp add: echoed_def)
  ultimately show ?thesis using snd(4) by (intro exI [of _ ?s] exI [of _ ?c]) simp
qed

lemma echo_all:
  assumes "echo_ready t (s, c)" "length (ss_sendQueue s) + length ps \<le> MAX_SEND_QUEUE_SIZE" "os_posted w"
    "\<forall>p \<in> set ps. is_test_packet p" "0 \<le> GServerRecvCount c" "GServerRecvCount c + int (length ps) \<le> 2147483647"
  shows "\<exists>s' c'. feed (TestServerSession_OnRecvPacket t w d) ps (s, c) = Ok (s', c') \<and> echo_ready t (s', c') \<and>
    echoed (s', c') = echoed (s, c) @ ps \<and> GServerRecvCount c' = GServerRecvCount c + int (length ps)"
  using assms(1,2,4-6)
proof (induction ps arbitrary: s c)
  case (Cons p ps)
  obtain s1 c1 where a: "TestServerSession_OnRecvPacket t w d p (int (length p)) (s, c) = Ok (s1, c1)" "echo_ready t (s1, c1)"
    "length (ss_sendQueue s1) \<le> Suc (length (ss_sendQueue s))" "echoed (s1, c1) = echoed (s, c) @ [p]"
    "GServerRecvCount c1 = to_int32 (GServerRecvCount c + 1)"
    using echo_one [OF Cons.prems(1) _ assms(3), of p d "int (length p)"] Cons.prems(2,3) by auto
  have "GServerRecvCount c1 = GServerRecvCount c + 1"
    using a(5) Cons.prems(4,5) by (simp add: to_int32_id in_int32_def)
  then show ?case using Cons.IH [OF a(2)] a(1,3,4) Cons.prems by fastforce
qed simp

text \<open>
  The server of the test returns what it is sent: however many packets, and whatever beginning of one more, are in
  the receive buffer, \<open>OnRecv\<close> consumes the packets, counts each once, and queues their bytes unchanged and in order
  behind what was to be sent, as long as the queue has room.
\<close>

theorem echo_returns_stream:
  assumes "echo_ready t (s, c)" "length (ss_sendQueue s) + length ps \<le> 500" "os_posted w"
    "\<forall>p \<in> set ps. is_test_packet p" "frames part = ([], Some part)" "length (concat ps @ part) \<le> 2147483647"
    "0 \<le> GServerRecvCount c" "GServerRecvCount c + int (length ps) \<le> 2147483647"
  shows "\<exists>s' c'. OnRecv (TestServerSession_OnRecvPacket t w d) (concat ps @ part) (int (length (concat ps @ part))) (s, c) =
      Ok (int (length (concat ps)), s', c') \<and> echoed (s', c') = echoed (s, c) @ ps \<and>
    GServerRecvCount c' = GServerRecvCount c + int (length ps)"
proof -
  obtain s' c' where e: "feed (TestServerSession_OnRecvPacket t w d) ps (s, c) = Ok (s', c')"
    "echoed (s', c') = echoed (s, c) @ ps" "GServerRecvCount c' = GServerRecvCount c + int (length ps)"
    using echo_all [OF assms(1) _ assms(3,4,7,8), of d] assms(2) by (auto simp: MAX_SEND_QUEUE_SIZE_def)
  then show ?thesis
    using OnRecv_frames [OF assms(6), of "TestServerSession_OnRecvPacket t w d" "(s, c)"]
      frames_test_packets [OF assms(4,5)] by (simp add: Let_def)
qed

end
