(* ===== verification/MemoryTest.thy ===== *)
theory MemoryTest
  imports ObjectPool "HOL-Library.Multiset"
begin

text \<open>
  \<open>TestMemoryPool\<close> of \<^verbatim>\<open>EngineTest/Main.cpp\<close>: single allocations, eight threads that allocate and release, and the
  object pool. A failing \<open>assert\<close> is a fault. \<open>oom\<close> tells whether the system has no memory. The main thread is
  thread 0, the others are 1 to 8; \<open>schedule\<close> is the order in which they make their calls, a call of \<open>Alloc\<close> or
  \<open>Release\<close> at a time.
\<close>

section \<open>The test\<close>

definition THREAD_COUNT :: nat where "THREAD_COUNT = 8"
definition ALLOC_PER_THREAD :: nat where "ALLOC_PER_THREAD = 10000"

fun alloc_all :: "bool \<Rightarrow> nat \<Rightarrow> int32 list \<Rightarrow> pool_allocator \<Rightarrow> (block option list \<times> pool_allocator) res" where
  "alloc_all oom t [] pa = Ok ([], pa)"
| "alloc_all oom t (sz # szs) pa = res_bind (PoolAllocator_Alloc oom t sz pa) (\<lambda>(p, pa).
     res_bind (alloc_all oom t szs pa) (\<lambda>(ps, pa). Ok (p # ps, pa)))"

fun release_all :: "nat \<Rightarrow> block option list \<Rightarrow> pool_allocator \<Rightarrow> pool_allocator res" where
  "release_all t [] pa = Ok pa"
| "release_all t (p # ps) pa = res_bind (PoolAllocator_Release t p pa) (release_all t ps)"

definition test_allocs :: "bool \<Rightarrow> pool_allocator \<Rightarrow> pool_allocator res" where
  "test_allocs oom pa =
     res_bind (PoolAllocator_Init pa) (\<lambda>pa.
     res_bind (alloc_all oom 0 [24, 120, 4000, 8000] pa) (\<lambda>(ps, pa). release_all 0 ps pa))"

text \<open>A thread: the \<open>i\<close> of its loop and the block it has.\<close>

type_synonym alloc_thread = "nat \<times> block option"

record alloc_test =
  at_memory :: pool_allocator
  at_threads :: "alloc_thread list"

definition thread_turn :: "bool \<Rightarrow> nat \<Rightarrow> nat \<Rightarrow> alloc_test \<Rightarrow> alloc_test res" where
  "thread_turn oom n k x = (case at_threads x ! k of
       (i, None) \<Rightarrow>
         if n \<le> i then Ok x
         else res_bind (PoolAllocator_Alloc oom (Suc k) (int (i mod 256) + 16) (at_memory x)) (\<lambda>(p, pa).
           assert_crash (p \<noteq> None) (Ok (x\<lparr>at_memory := pa, at_threads := (at_threads x)[k := (i, p)]\<rparr>)))
     | (i, Some b) \<Rightarrow>
         res_bind (PoolAllocator_Release (Suc k) (Some b) (at_memory x)) (\<lambda>pa.
           Ok (x\<lparr>at_memory := pa, at_threads := (at_threads x)[k := (Suc i, None)]\<rparr>)))"

fun run_threads :: "bool \<Rightarrow> nat \<Rightarrow> nat list \<Rightarrow> alloc_test \<Rightarrow> alloc_test res" where
  "run_threads oom n [] x = Ok x"
| "run_threads oom n (k # ks) x = res_bind (thread_turn oom n k x) (run_threads oom n ks)"

record player =
  player_id :: int32
  player_hp :: int32
  player_mp :: int32
  player_name :: string

text \<open>\<open>strcpy_s\<close> ends the program when the text does not fit.\<close>

definition Player_new :: "int32 \<Rightarrow> int32 \<Rightarrow> int32 \<Rightarrow> string \<Rightarrow> player res" where
  "Player_new i hp mp n = assert_crash (length n < 32)
     (Ok \<lparr>player_id = i, player_hp = hp, player_mp = mp, player_name = n\<rparr>)"

text \<open>The last player is held by a \<open>shared_ptr\<close>, whose deleter is \<open>Push\<close>.\<close>

definition test_objects :: "bool \<Rightarrow> player object_pool \<Rightarrow> player object_pool res" where
  "test_objects oom s =
     res_bind (Player_new 101 1000 500 ''Knight'') (\<lambda>knight.
     res_bind (ObjectPool_Pop oom 0 44 knight s) (\<lambda>(player, s).
     case op_objects s player of None \<Rightarrow> Crash UseAfterFree
     | Some o1 \<Rightarrow> assert_crash (player_id o1 = 101 \<and> player_hp o1 = 1000) (
     res_bind (ObjectPool_Push 0 (Some player) s) (\<lambda>s.
     res_bind (Player_new 102 2000 800 ''Mage'') (\<lambda>mage.
     res_bind (ObjectPool_Pop oom 0 44 mage s) (\<lambda>(spPlayer, s).
     case op_objects s spPlayer of None \<Rightarrow> Crash UseAfterFree
     | Some o2 \<Rightarrow> assert_crash (player_id o2 = 102) (ObjectPool_Push 0 (Some spPlayer) s)))))))"

text \<open>\<open>Ok None\<close>: the schedule ends before the threads do.\<close>

definition TestMemoryPool :: "bool \<Rightarrow> nat list \<Rightarrow> pool_allocator \<Rightarrow> player object_pool option res" where
  "TestMemoryPool oom schedule pa =
     res_bind (test_allocs oom pa) (\<lambda>pa.
     res_bind (run_threads oom ALLOC_PER_THREAD schedule
       \<lparr>at_memory = pa, at_threads = replicate THREAD_COUNT (0, None)\<rparr>) (\<lambda>x.
     if at_threads x = replicate THREAD_COUNT (ALLOC_PER_THREAD, None)
     then res_bind (test_objects oom \<lparr>op_memory = at_memory x, op_objects = \<lambda>_. None\<rparr>) (\<lambda>s. Ok (Some s))
     else Ok None))"

section \<open>Single calls\<close>

lemma alloc_next:
  assumes "alloc_reach pa held" "0 < sz" "sz \<le> 2147483615"
  shows "\<exists>b pa'. PoolAllocator_Alloc False t sz pa = Ok (Some b, pa') \<and> alloc_reach pa' (b # held)"
proof -
  obtain b pa' where "PoolAllocator_Alloc False t sz pa = Ok (Some b, pa')"
    using alloc_reach_facts [OF assms(1)] assms(2,3) by blast
  then show ?thesis using alloc_more(1) [OF assms(1) _ assms(3)] by blast
qed

lemma release_next:
  assumes "alloc_reach pa held" "b \<in> set held"
  shows "\<exists>pa'. PoolAllocator_Release t (Some b) pa = Ok pa' \<and> alloc_reach pa' (remove1 b held)"
proof -
  have "returns (PoolAllocator_Release t (Some b) pa)" using alloc_reach_facts [OF assms(1)] assms(2) by blast
  then show ?thesis using release_one(1) [OF assms] unfolding returns_iff by blast
qed

lemma alloc_all_ok:
  "alloc_reach pa held \<Longrightarrow> \<forall>sz \<in> set szs. 0 < sz \<and> sz \<le> 2147483615 \<Longrightarrow>
   \<exists>bs pa'. alloc_all False t szs pa = Ok (map Some bs, pa') \<and> alloc_reach pa' (rev bs @ held)"
proof (induction szs arbitrary: pa held)
  case (Cons sz szs)
  obtain b pa1 where a: "PoolAllocator_Alloc False t sz pa = Ok (Some b, pa1)" "alloc_reach pa1 (b # held)"
    using alloc_next [OF Cons.prems(1), of sz t] Cons.prems(2) by auto
  obtain bs pa2 where "alloc_all False t szs pa1 = Ok (map Some bs, pa2)" "alloc_reach pa2 (rev bs @ b # held)"
    using Cons.IH [OF a(2)] Cons.prems(2) by auto
  then show ?case using a(1) by (intro exI [of _ "b # bs"] exI [of _ pa2]) simp
qed auto

lemma release_all_ok:
  "alloc_reach pa held \<Longrightarrow> mset held = mset bs + mset rest \<Longrightarrow>
   \<exists>pa' held'. release_all t (map Some bs) pa = Ok pa' \<and> alloc_reach pa' held' \<and> mset held' = mset rest"
proof (induction bs arbitrary: pa held)
  case (Cons b bs)
  have "b \<in> set held" using Cons.prems(2) by (metis mset_eq_setD list.set_intros(1) mset_append set_append UnCI)
  then obtain pa1 where r: "PoolAllocator_Release t (Some b) pa = Ok pa1" "alloc_reach pa1 (remove1 b held)"
    using release_next [OF Cons.prems(1)] by blast
  have "mset (remove1 b held) = mset bs + mset rest" using Cons.prems(2) by simp
  from Cons.IH [OF r(2) this] r(1) show ?case by auto
qed auto

lemma allocs_test: "\<exists>pa. test_allocs False pa_start = Ok pa \<and> alloc_reach pa []"
proof -
  obtain pa0 where i: "PoolAllocator_Init pa_start = Ok pa0" using PoolAllocator_Init_spec by blast
  then have "alloc_reach pa0 []" by (intro r_into_rtranclp alloc_step.init)
  from alloc_all_ok [OF this, of "[24, 120, 4000, 8000]" 0] obtain bs pa1 where
    a: "alloc_all False 0 [24, 120, 4000, 8000] pa0 = Ok (map Some bs, pa1)" "alloc_reach pa1 (rev bs @ [])" by auto
  from release_all_ok [OF a(2), of bs "[]" 0] obtain pa2 held where
    "release_all 0 (map Some bs) pa1 = Ok pa2" "alloc_reach pa2 held" "held = []" by auto
  then show ?thesis using i a(1) by (simp add: test_allocs_def del: alloc_all.simps)
qed

section \<open>The threads\<close>

fun block_of :: "alloc_thread \<Rightarrow> block multiset" where
  "block_of (i, None) = {#}"
| "block_of (i, Some b) = {#b#}"

text \<open>How many of its calls a thread has made.\<close>

fun calls_of :: "alloc_thread \<Rightarrow> nat" where
  "calls_of (i, p) = 2 * i + (if p = None then 0 else 1)"

fun thread_ok :: "nat \<Rightarrow> alloc_thread \<Rightarrow> bool" where
  "thread_ok n (i, p) \<longleftrightarrow> (if p = None then i \<le> n else i < n)"

definition at_inv :: "nat \<Rightarrow> alloc_test \<Rightarrow> bool" where
  "at_inv n x \<longleftrightarrow> (\<forall>th \<in> set (at_threads x). thread_ok n th) \<and>
     (\<exists>held. alloc_reach (at_memory x) held \<and> mset held = sum_list (map block_of (at_threads x)))"

lemma blocks_update:
  assumes "k < length ths"
  shows "\<exists>others. sum_list (map block_of ths) = block_of (ths ! k) + others \<and>
    (\<forall>th. sum_list (map block_of (ths[k := th])) = block_of th + others)"
proof -
  obtain as bs where s: "ths = as @ ths ! k # bs" "length as = k" using id_take_nth_drop [OF assms] assms by fastforce
  then have "ths[k := th] = as @ th # bs" for th by (metis list_update_length)
  moreover have "sum_list (map block_of (as @ th # bs)) = block_of th + sum_list (map block_of (as @ bs))" for th
    by (simp add: ac_simps)
  ultimately show ?thesis using s(1) by metis
qed

lemma thread_turn_ok:
  assumes "at_inv n x" "k < length (at_threads x)"
  shows "\<exists>y. thread_turn False n k x = Ok y \<and> at_inv n y \<and> length (at_threads y) = length (at_threads x) \<and>
    calls_of (at_threads y ! k) = min (2 * n) (Suc (calls_of (at_threads x ! k))) \<and>
    (\<forall>j. j \<noteq> k \<longrightarrow> at_threads y ! j = at_threads x ! j)"
proof -
  obtain held where h: "alloc_reach (at_memory x) held" "mset held = sum_list (map block_of (at_threads x))"
    "\<forall>th \<in> set (at_threads x). thread_ok n th"
    using assms(1) by (auto simp: at_inv_def)
  obtain others where others: "mset held = block_of (at_threads x ! k) + others"
    "\<And>th. sum_list (map block_of ((at_threads x)[k := th])) = block_of th + others"
    using blocks_update [OF assms(2)] h(2) by metis
  obtain i p where th: "at_threads x ! k = (i, p)" by fastforce
  have ok: "thread_ok n (i, p)" using h(3) assms(2) th by (metis nth_mem)
  have set_ok: "\<forall>v \<in> set ((at_threads x)[k := u]). thread_ok n v" if "thread_ok n u" for u
    using that h(3) set_update_subset_insert [of "at_threads x" k u] by blast
  consider (idle) "p = None" "n \<le> i" | (take) "p = None" "i < n" | (give) b where "p = Some b" by (cases p) fastforce+
  then show ?thesis
  proof cases
    case idle
    then show ?thesis using assms(1) th ok by (auto simp: thread_turn_def)
  next
    case take
    have "int (i mod 256) < 256" by simp
    then obtain b pa where a: "PoolAllocator_Alloc False (Suc k) (int (i mod 256) + 16) (at_memory x) = Ok (Some b, pa)"
      "alloc_reach pa (b # held)"
      using alloc_next [OF h(1), of "int (i mod 256) + 16" "Suc k"] by fastforce
    let ?y = "x\<lparr>at_memory := pa, at_threads := (at_threads x)[k := (i, Some b)]\<rparr>"
    have "thread_turn False n k x = Ok ?y" using take a(1) th by (simp add: thread_turn_def)
    moreover have "at_inv n ?y"
      using a(2) others take th set_ok [of "(i, Some b)"] unfolding at_inv_def by (intro conjI exI [of _ "b # held"]) auto
    ultimately show ?thesis using take th assms(2) by (intro exI [of _ ?y]) auto
  next
    case give
    then have "b \<in> set held" using others(1) th by (metis block_of.simps(2) set_mset_mset union_iff multi_member_last)
    then obtain pa where r: "PoolAllocator_Release (Suc k) (Some b) (at_memory x) = Ok pa" "alloc_reach pa (remove1 b held)"
      using release_next [OF h(1)] by blast
    let ?y = "x\<lparr>at_memory := pa, at_threads := (at_threads x)[k := (Suc i, None)]\<rparr>"
    have "thread_turn False n k x = Ok ?y" using give r(1) th by (simp add: thread_turn_def)
    moreover have "at_inv n ?y"
      using r(2) others give th ok set_ok [of "(Suc i, None)"] unfolding at_inv_def
      by (intro conjI exI [of _ "remove1 b held"]) auto
    ultimately show ?thesis using give th ok assms(2) by (intro exI [of _ ?y]) auto
  qed
qed

lemma run_threads_ok:
  assumes "at_inv n x" "\<forall>k \<in> set ks. k < length (at_threads x)" "\<forall>th \<in> set (at_threads x). calls_of th \<le> 2 * n"
  shows "\<exists>y. run_threads False n ks x = Ok y \<and> at_inv n y \<and> length (at_threads y) = length (at_threads x) \<and>
    (\<forall>j < length (at_threads x). calls_of (at_threads y ! j) = min (2 * n) (calls_of (at_threads x ! j) + count_list ks j))"
  using assms
proof (induction ks arbitrary: x)
  case Nil
  then have "calls_of (at_threads x ! j) \<le> 2 * n" if "j < length (at_threads x)" for j using that nth_mem by blast
  then show ?case using Nil.prems(1) by (simp add: min_absorb2)
next
  case (Cons k ks)
  obtain x1 where t: "thread_turn False n k x = Ok x1" "at_inv n x1" "length (at_threads x1) = length (at_threads x)"
    "calls_of (at_threads x1 ! k) = min (2 * n) (Suc (calls_of (at_threads x ! k)))"
    "\<forall>j. j \<noteq> k \<longrightarrow> at_threads x1 ! j = at_threads x ! j"
    using thread_turn_ok [OF Cons.prems(1), of k] Cons.prems(2) by auto
  have "calls_of (at_threads x1 ! j) \<le> 2 * n" if "j < length (at_threads x1)" for j
    using that t(3-5) Cons.prems(3) by (cases "j = k") auto
  then have "\<forall>th \<in> set (at_threads x1). calls_of th \<le> 2 * n" by (metis in_set_conv_nth)
  with Cons.IH [OF t(2)] Cons.prems(2) t(3) obtain y where y: "run_threads False n ks x1 = Ok y" "at_inv n y"
    "length (at_threads y) = length (at_threads x)"
    "\<forall>j < length (at_threads x). calls_of (at_threads y ! j) = min (2 * n) (calls_of (at_threads x1 ! j) + count_list ks j)"
    by auto
  have "calls_of (at_threads y ! j) = min (2 * n) (calls_of (at_threads x ! j) + count_list (k # ks) j)"
    if "j < length (at_threads x)" for j
    using y(4) t(4,5) that by (cases "j = k") auto
  then show ?case using t(1) y by auto
qed

lemma objects_test:
  assumes "alloc_reach pa []"
  shows "\<exists>s. test_objects False \<lparr>op_memory = pa, op_objects = \<lambda>_. None\<rparr> = Ok s \<and> op_objects s = (\<lambda>_. None) \<and>
    alloc_reach (op_memory s) []"
proof -
  have size: "(0 :: int) < 44" "(44 :: int) \<le> 2147483615" by simp_all
  obtain b1 pa1 where a1: "PoolAllocator_Alloc False 0 44 pa = Ok (Some b1, pa1)" "alloc_reach pa1 [b1]"
    using alloc_next [OF assms size] by blast
  obtain pa2 where r1: "PoolAllocator_Release 0 (Some b1) pa1 = Ok pa2" "alloc_reach pa2 []"
    using release_next [OF a1(2), of b1 0] by auto
  obtain b2 pa3 where a2: "PoolAllocator_Alloc False 0 44 pa2 = Ok (Some b2, pa3)" "alloc_reach pa3 [b2]"
    using alloc_next [OF r1(2) size] by blast
  obtain pa4 where r2: "PoolAllocator_Release 0 (Some b2) pa3 = Ok pa4" "alloc_reach pa4 []"
    using release_next [OF a2(2), of b2 0] by auto
  show ?thesis
    using a1(1) r1(1) a2(1) r2
    by (simp add: test_objects_def Player_new_def ObjectPool_Pop_def ObjectPool_Push_def construct_def destruct_def fun_eq_iff)
qed

text \<open>
  The test of the memory passes while the system has memory: however the calls of the eight threads interleave, no
  assertion fails and no block is used after its release; a schedule that lets every thread make its 20000 calls
  brings them all to the end, and then every block has been given back.
\<close>

theorem memory_pool_test:
  assumes "set schedule \<subseteq> {..< THREAD_COUNT}"
  shows "\<exists>r. TestMemoryPool False schedule pa_start = Ok r \<and>
    (\<forall>s. r = Some s \<longrightarrow> alloc_reach (op_memory s) []) \<and>
    ((\<forall>k < THREAD_COUNT. 2 * ALLOC_PER_THREAD \<le> count_list schedule k) \<longrightarrow> r \<noteq> None)"
proof -
  obtain pa where pa: "test_allocs False pa_start = Ok pa" "alloc_reach pa []" using allocs_test by blast
  let ?x = "\<lparr>at_memory = pa, at_threads = replicate THREAD_COUNT (0, None)\<rparr>"
  have "sum_list (map block_of (replicate m (0, None))) = {#}" for m by (induction m) auto
  then have "at_inv ALLOC_PER_THREAD ?x" using pa(2) by (auto simp: at_inv_def intro!: exI [of _ "[]"])
  from run_threads_ok [OF this, of schedule] assms obtain y where
    y: "run_threads False ALLOC_PER_THREAD schedule ?x = Ok y" "at_inv ALLOC_PER_THREAD y" "length (at_threads y) = THREAD_COUNT"
      "\<forall>j < THREAD_COUNT. calls_of (at_threads y ! j) = min (2 * ALLOC_PER_THREAD) (count_list schedule j)"
    by fastforce
  have objects: "\<exists>s. test_objects False \<lparr>op_memory = at_memory y, op_objects = \<lambda>_. None\<rparr> = Ok s \<and> alloc_reach (op_memory s) []"
    if "at_threads y = replicate THREAD_COUNT (ALLOC_PER_THREAD, None)"
  proof -
    have "sum_list (map block_of (replicate m (ALLOC_PER_THREAD, None))) = {#}" for m by (induction m) auto
    then have "alloc_reach (at_memory y) []" using y(2) that by (auto simp: at_inv_def)
    from objects_test [OF this] show ?thesis by blast
  qed
  have all: "at_threads y = replicate THREAD_COUNT (ALLOC_PER_THREAD, None)"
    if "\<forall>k < THREAD_COUNT. 2 * ALLOC_PER_THREAD \<le> count_list schedule k"
  proof (rule nth_equalityI)
    fix j assume j: "j < length (at_threads y)"
    obtain i p where ip: "at_threads y ! j = (i, p)" by fastforce
    have "calls_of (i, p) = 2 * ALLOC_PER_THREAD" using y(3,4) j that ip by auto
    moreover have "thread_ok ALLOC_PER_THREAD (i, p)" using y(2) j ip by (metis at_inv_def nth_mem)
    ultimately have "(i, p) = (ALLOC_PER_THREAD, None)"
      by (cases p) (simp_all, presburger)
    then show "at_threads y ! j = replicate THREAD_COUNT (ALLOC_PER_THREAD, None) ! j" using ip j y(3) by simp
  qed (simp add: y(3))
  show ?thesis
  proof (cases "at_threads y = replicate THREAD_COUNT (ALLOC_PER_THREAD, None)")
    case True
    then show ?thesis using objects pa(1) y(1) by (auto simp: TestMemoryPool_def)
  next
    case False
    then show ?thesis using all pa(1) y(1) by (auto simp: TestMemoryPool_def)
  qed
qed

end
