(* ===== verification/PoolTest.thy ===== *)
theory PoolTest
  imports ThreadPool
begin

text \<open>
  \<open>TestThreadPool\<close> of \<^verbatim>\<open>EngineTest/Main.cpp\<close>: the main thread enqueues tasks that count themselves, waits until it has
  seen the number it wants, and stops the pool. The other steps are those of \<open>ThreadPool\<close>.
\<close>

section \<open>The test\<close>

definition TOTAL_TASKS :: nat where "TOTAL_TASKS = 1000"

record pool_test =
  pt_run :: "unit pool_run"
  pt_todo :: nat

text \<open>Every task that is done has added one.\<close>

definition completedTasks :: "pool_test \<Rightarrow> int32" where
  "completedTasks x = fold (\<lambda>_ c. to_int32 (c + 1)) (tr_done (pt_run x)) 0"

text \<open>\<open>pt_todo\<close> is how many tasks are still to be enqueued.\<close>

inductive pt_step :: "nat \<Rightarrow> pool_test \<Rightarrow> pool_test \<Rightarrow> bool" for total_tasks where
  enqueue: "pt_todo x = Suc n \<Longrightarrow> Enqueue () (tr_pool (pt_run x)) = (ok, tp) \<Longrightarrow>
    pt_step total_tasks x (x\<lparr>pt_todo := n, pt_run := (pt_run x)\<lparr>tr_pool := tp,
      tr_notifyOne := (if ok then Suc (tr_notifyOne (pt_run x)) else tr_notifyOne (pt_run x)),
      tr_accepted := (if ok then tr_accepted (pt_run x) @ [()] else tr_accepted (pt_run x))\<rparr>\<rparr>)"
| run: "pool_step (pt_run x) r \<Longrightarrow> tr_accepted r = tr_accepted (pt_run x) \<Longrightarrow>
    tp_stop (tr_pool r) = tp_stop (tr_pool (pt_run x)) \<Longrightarrow> pt_step total_tasks x (x\<lparr>pt_run := r\<rparr>)"
| stop: "pt_todo x = 0 \<Longrightarrow> int total_tasks \<le> completedTasks x \<Longrightarrow> Stop_section (tr_pool (pt_run x)) = (ok, tp) \<Longrightarrow>
    pt_step total_tasks x (x\<lparr>pt_run := (pt_run x)\<lparr>tr_pool := tp, tr_notifyAll := tr_notifyAll (pt_run x) \<or> ok\<rparr>\<rparr>)"

definition pt_start :: "uint32 \<Rightarrow> nat \<Rightarrow> pool_test" where
  "pt_start threads total_tasks = \<lparr>pt_run = pool_started threads, pt_todo = total_tasks\<rparr>"

abbreviation pt_reach :: "uint32 \<Rightarrow> nat \<Rightarrow> pool_test \<Rightarrow> bool" where
  "pt_reach threads total_tasks \<equiv> (pt_step total_tasks)\<^sup>*\<^sup>* (pt_start threads total_tasks)"

section \<open>The invariant\<close>

definition pt_inv :: "nat \<Rightarrow> nat \<Rightarrow> pool_test \<Rightarrow> bool" where
  "pt_inv n target x \<longleftrightarrow> (let r = pt_run x in pool_inv n r \<and> length (tr_accepted r) + pt_todo x = target \<and>
     (tp_stop (tr_pool r) \<longrightarrow> pt_todo x = 0 \<and> length (tr_done r) = target))"

lemma completed_count:
  "length (js :: unit list) \<le> 2147483647 \<Longrightarrow> fold (\<lambda>_ c. to_int32 (c + 1)) js 0 = int (length js)"
proof (induction js rule: rev_induct)
  case (snoc j js)
  have "in_int32 (int (length js) + 1)" using snoc.prems by (simp add: in_int32_def)
  then show ?case using snoc by (simp add: to_int32_id)
qed simp

lemma done_bounded:
  assumes "pool_inv n r"
  shows "length (tr_done r) \<le> length (tr_accepted r)"
proof -
  have "size (mset (tr_done r)) + size (running (tp_workers (tr_pool r))) = size (mset (tr_taken r))"
    using assms unfolding pool_inv_def Let_def by (metis size_union)
  moreover have "length (tr_taken r) \<le> length (tr_accepted r)"
    using assms unfolding pool_inv_def Let_def by (metis length_append le_add1)
  ultimately show ?thesis by simp
qed

lemma pt_completed:
  assumes "pt_inv n target x" "target \<le> 2147483647"
  shows "completedTasks x = int (length (tr_done (pt_run x)))" "length (tr_done (pt_run x)) \<le> target"
proof -
  show "length (tr_done (pt_run x)) \<le> target"
    using assms(1) done_bounded [of n "pt_run x"] by (auto simp: pt_inv_def Let_def)
  then show "completedTasks x = int (length (tr_done (pt_run x)))"
    using assms(2) by (simp add: completedTasks_def completed_count)
qed

lemma pool_step_done: "pool_step r r' \<Longrightarrow> \<exists>js. tr_done r' = tr_done r @ js"
  by (cases rule: pool_step.cases) auto

lemma pt_inv_step:
  assumes "pt_step target x y" "pt_inv n target x" "target \<le> 2147483647"
  shows "pt_inv n target y"
  using assms(1)
proof cases
  case (enqueue m ok tp)
  have "\<not> tp_stop (tr_pool (pt_run x))" using assms(2) enqueue(2) by (auto simp: pt_inv_def Let_def)
  then have "ok" "\<not> tp_stop tp" using enqueue(3) by (auto simp: Enqueue_def)
  then show ?thesis
    using pool_inv_step [OF pool_step.enqueue [OF enqueue(3)]] assms(2) enqueue(2)
    unfolding enqueue(1) pt_inv_def Let_def by simp
next
  case (run r)
  have inv: "pool_inv n r" using pool_inv_step [OF run(2)] assms(2) by (simp add: pt_inv_def Let_def)
  have "length (tr_done (pt_run x)) \<le> length (tr_done r)" using pool_step_done [OF run(2)] by auto
  then show ?thesis
    using inv done_bounded [OF inv] assms(2) run(3,4) unfolding run(1) pt_inv_def Let_def by auto
next
  case (stop ok tp)
  have "length (tr_done (pt_run x)) = target" using stop(3) pt_completed [OF assms(2,3)] by simp
  then show ?thesis
    using pool_inv_step [OF pool_step.stop [OF stop(4)]] assms(2) stop(2)
    unfolding stop(1) pt_inv_def Let_def by simp
qed

lemma pt_reach_inv:
  assumes "pt_reach threads target x" "threads \<noteq> 0" "target \<le> 2147483647"
  shows "pt_inv (unat threads) target x"
  using assms(1)
proof (induction rule: rtranclp_induct)
  case base
  have "pool_inv (unat threads) (pool_started threads)"
    using pool_inv_reach [OF rtranclp.rtrancl_refl assms(2)] .
  then show ?case
    by (simp add: pt_inv_def pt_start_def pool_started_def ThreadPool_Start_def ThreadPool_new_def Let_def)
next
  case (step y z)
  then show ?case using pt_inv_step assms(3) by blast
qed

section \<open>Getting to the end\<close>

fun pool_worker_cost :: "'j pool_worker \<Rightarrow> nat" where
  "pool_worker_cost (WTask j) = 5"
| "pool_worker_cost WReady = 2"
| "pool_worker_cost WBlocked = 1"
| "pool_worker_cost WReturned = 0"

definition pool_cost :: "'j pool_run \<Rightarrow> nat" where
  "pool_cost r = 8 * length (tp_tasks (tr_pool r)) + 3 * tr_notifyOne r +
     sum_list (map pool_worker_cost (tp_workers (tr_pool r))) +
     (if tr_notifyAll r then length (tp_workers (tr_pool r)) + 1 else 0)"

definition pt_cost :: "nat \<Rightarrow> pool_test \<Rightarrow> nat" where
  "pt_cost n x = 12 * pt_todo x + pool_cost (pt_run x) + (if tp_stop (tr_pool (pt_run x)) then 0 else n + 2)"

definition pool_goes_on :: "'j pool_run \<Rightarrow> bool" where
  "pool_goes_on r \<longleftrightarrow> (\<exists>r'. pool_step r r' \<and> tr_accepted r' = tr_accepted r \<and>
     tp_stop (tr_pool r') = tp_stop (tr_pool r) \<and> pool_cost r' < pool_cost r)"

lemma notification_goes_on:
  assumes "0 < tr_notifyOne r"
  shows "pool_goes_on r"
proof -
  obtain n where n: "tr_notifyOne r = Suc n" using assms by (cases "tr_notifyOne r") auto
  show ?thesis
  proof (cases "WBlocked \<in> set (tp_workers (tr_pool r))")
    case True
    then obtain as bs where "tp_workers (tr_pool r) = as @ WBlocked # bs" by (meson split_list)
    with pool_step.notify_one [OF n this] n show ?thesis
      unfolding pool_goes_on_def by (intro exI conjI) (assumption, auto simp: pool_cost_def)
  next
    case False
    with pool_step.notify_nobody [OF n] n show ?thesis
      unfolding pool_goes_on_def by (intro exI conjI) (blast, auto simp: pool_cost_def)
  qed
qed

lemma ready_goes_on:
  assumes "WReady \<in> set (tp_workers (tr_pool r))"
  shows "pool_goes_on r"
proof -
  obtain as bs where w: "tp_workers (tr_pool r) = as @ WReady # bs" using assms by (meson split_list)
  obtain v tp where s: "worker_section (tr_pool r) = (v, tp)" by fastforce
  from pool_step.worker [OF w s] w s show ?thesis
    unfolding pool_goes_on_def
    by (intro exI conjI) (assumption, auto simp: pool_cost_def worker_section_def split: if_splits list.splits)
qed

lemma task_goes_on:
  assumes "WTask j \<in> set (tp_workers (tr_pool r))"
  shows "pool_goes_on r"
proof -
  obtain as bs where w: "tp_workers (tr_pool r) = as @ WTask j # bs" using assms by (meson split_list)
  from pool_step.task_done [OF w] w show ?thesis
    unfolding pool_goes_on_def by (intro exI conjI) (assumption, auto simp: pool_cost_def)
qed

lemma notified_cost:
  "sum_list (map pool_worker_cost (map (\<lambda>w. if w = WBlocked then WReady else w) ws)) \<le>
   sum_list (map pool_worker_cost ws) + length ws"
  by (induction ws) auto

lemma notify_all_goes_on:
  assumes "tr_notifyAll r"
  shows "pool_goes_on r"
  using pool_step.notify_all [OF assms] notified_cost [of "tp_workers (tr_pool r)"] assms
  unfolding pool_goes_on_def by (intro exI conjI) (assumption, auto simp: pool_cost_def)

text \<open>What a pool in which nothing goes on by itself looks like.\<close>

lemma quiet_pool:
  assumes "pool_inv n r" "\<not> pool_goes_on r" "n \<noteq> 0"
  shows "tp_tasks (tr_pool r) = []" "length (tr_done r) = length (tr_accepted r)"
    "tp_stop (tr_pool r) \<Longrightarrow> \<forall>w \<in> set (tp_workers (tr_pool r)). w = WReturned"
proof -
  let ?ws = "tp_workers (tr_pool r)"
  have q: "tr_notifyOne r = 0" "\<not> tr_notifyAll r" "WReady \<notin> set ?ws" "\<forall>j. WTask j \<notin> set ?ws"
    using assms(2) notification_goes_on [of r] ready_goes_on [of r] task_goes_on [of _ r] notify_all_goes_on [of r]
    by (metis gr0I)+
  then have kinds: "\<forall>w \<in> set ?ws. w = WBlocked \<or> w = WReturned" by (metis pool_worker.exhaust)
  moreover have "running ws = {#} \<and> ready_count ws = 0" if "\<forall>w \<in> set ws. w = WBlocked \<or> w = WReturned" for ws :: "'a pool_worker list"
    using that by (induction ws) auto
  ultimately have none: "running ?ws = {#}" "ready_count ?ws = 0" by blast+
  have "?ws \<noteq> []" using assms(1,3) by (auto simp: pool_inv_def Let_def)
  then have "hd ?ws \<in> set ?ws" by simp
  then have "WBlocked \<in> set ?ws \<or> WReturned \<in> set ?ws" using kinds by metis
  then show tasks: "tp_tasks (tr_pool r) = []" using assms(1) q(1) none(2) by (auto simp: pool_inv_def Let_def)
  have "tr_taken r @ tp_tasks (tr_pool r) = tr_accepted r" "mset (tr_done r) + running ?ws = mset (tr_taken r)"
    using assms(1) unfolding pool_inv_def Let_def by blast+
  then have "mset (tr_done r) = mset (tr_accepted r)" using tasks none(1) by simp
  then show "length (tr_done r) = length (tr_accepted r)" by (rule mset_eq_length)
  have "tp_stop (tr_pool r) \<and> \<not> tr_notifyAll r \<longrightarrow> WBlocked \<notin> set ?ws"
    using assms(1) unfolding pool_inv_def Let_def by (elim conjE)
  then show "\<forall>w \<in> set ?ws. w = WReturned" if "tp_stop (tr_pool r)" using that kinds q(2) by metis
qed

lemma pt_progress:
  assumes inv: "pt_inv n target x" and "target \<le> 2147483647" "n \<noteq> 0"
    and not_done: "\<not> (\<forall>w \<in> set (tp_workers (tr_pool (pt_run x))). w = WReturned)"
  shows "\<exists>y. pt_step target x y \<and> pt_cost n y < pt_cost n x"
proof (cases "pool_goes_on (pt_run x)")
  case True
  then obtain r where "pool_step (pt_run x) r" "tr_accepted r = tr_accepted (pt_run x)"
    "tp_stop (tr_pool r) = tp_stop (tr_pool (pt_run x))" "pool_cost r < pool_cost (pt_run x)"
    unfolding pool_goes_on_def by blast
  then show ?thesis using pt_step.run [of x r target] by (intro exI [of _ "x\<lparr>pt_run := r\<rparr>"]) (simp add: pt_cost_def)
next
  case False
  have pool: "pool_inv n (pt_run x)" using inv by (simp add: pt_inv_def Let_def)
  note quiet = quiet_pool [OF pool False assms(3)]
  have running: "\<not> tp_stop (tr_pool (pt_run x))" using not_done quiet(3) by blast
  show ?thesis
  proof (cases "pt_todo x")
    case (Suc m)
    have "Enqueue () (tr_pool (pt_run x)) = (True, (tr_pool (pt_run x))\<lparr>tp_tasks := tp_tasks (tr_pool (pt_run x)) @ [()]\<rparr>)"
      using running by (simp add: Enqueue_def)
    from pt_step.enqueue [OF Suc this] show ?thesis
      using Suc by (intro exI conjI) (assumption, simp add: pt_cost_def pool_cost_def)
  next
    case 0
    have "int target \<le> completedTasks x"
      using inv 0 quiet(2) pt_completed [OF inv assms(2)] by (simp add: pt_inv_def Let_def)
    moreover have "Stop_section (tr_pool (pt_run x)) = (True, (tr_pool (pt_run x))\<lparr>tp_stop := True\<rparr>)"
      using running by (simp add: Stop_section_def)
    ultimately have step: "pt_step target x (x\<lparr>pt_run := (pt_run x)\<lparr>tr_pool := (tr_pool (pt_run x))\<lparr>tp_stop := True\<rparr>,
        tr_notifyAll := tr_notifyAll (pt_run x) \<or> True\<rparr>\<rparr>)"
      by (rule pt_step.stop [OF 0])
    have "length (tp_workers (tr_pool (pt_run x))) = n" using pool by (simp add: pool_inv_def Let_def)
    with running step show ?thesis by (intro exI conjI) (assumption, simp add: pt_cost_def pool_cost_def)
  qed
qed

lemma pt_can_end:
  assumes "pt_inv n target x" "target \<le> 2147483647" "n \<noteq> 0"
  shows "\<exists>y. (pt_step target)\<^sup>*\<^sup>* x y \<and> (\<forall>w \<in> set (tp_workers (tr_pool (pt_run y))). w = WReturned)"
  using assms(1)
proof (induction "pt_cost n x" arbitrary: x rule: less_induct)
  case less
  show ?case
  proof (cases "\<forall>w \<in> set (tp_workers (tr_pool (pt_run x))). w = WReturned")
    case False
    then obtain y where y: "pt_step target x y" "pt_cost n y < pt_cost n x"
      using pt_progress [OF less.prems assms(2,3)] by blast
    then show ?thesis
      using less.hyps [OF y(2) pt_inv_step [OF y(1) less.prems assms(2)]] by (meson converse_rtranclp_into_rtranclp)
  qed auto
qed

text \<open>
  The test of the pool passes: when \<open>Stop\<close> has joined the workers the count is the number of tasks, and from wherever
  the test has got to it can get there, so that the wait for the count and the join cannot be stuck.
\<close>

theorem thread_pool_test:
  assumes "pt_reach threads total_tasks x" "threads \<noteq> 0" "total_tasks \<le> 2147483647"
  shows "(Stop_joined (tr_pool (pt_run x)) \<noteq> None \<longrightarrow> completedTasks x = int total_tasks) \<and>
    (\<exists>y. (pt_step total_tasks)\<^sup>*\<^sup>* x y \<and> Stop_joined (tr_pool (pt_run y)) \<noteq> None \<and> completedTasks y = int total_tasks)"
proof -
  have n: "unat threads \<noteq> 0" using assms(2) by (simp add: unat_eq_0)
  have ended: "completedTasks y = int total_tasks"
    if y: "pt_reach threads total_tasks y" "Stop_joined (tr_pool (pt_run y)) \<noteq> None" for y
  proof -
    note inv = pt_reach_inv [OF y(1) assms(2,3)]
    have "\<forall>w \<in> set (tp_workers (tr_pool (pt_run y))). w = WReturned" using y(2) by (auto simp: Stop_joined_def split: if_splits)
    moreover have "tp_workers (tr_pool (pt_run y)) \<noteq> []" using inv n by (auto simp: pt_inv_def pool_inv_def Let_def)
    ultimately have "WReturned \<in> set (tp_workers (tr_pool (pt_run y)))" by (cases "tp_workers (tr_pool (pt_run y))") auto
    then show ?thesis using inv pt_completed [OF inv assms(3)] by (auto simp: pt_inv_def pool_inv_def Let_def)
  qed
  obtain y where y: "(pt_step total_tasks)\<^sup>*\<^sup>* x y" "\<forall>w \<in> set (tp_workers (tr_pool (pt_run y))). w = WReturned"
    using pt_can_end [OF pt_reach_inv [OF assms] assms(3) n] by blast
  then have "Stop_joined (tr_pool (pt_run y)) \<noteq> None" by (simp add: Stop_joined_def)
  then show ?thesis using ended assms(1) y(1) by (meson rtranclp_trans)
qed

theorem thread_pool_test_witness:
  "\<exists>y. pt_reach 4 TOTAL_TASKS y \<and> Stop_joined (tr_pool (pt_run y)) \<noteq> None \<and> completedTasks y = 1000"
  using thread_pool_test [OF rtranclp.rtrancl_refl, of 4 TOTAL_TASKS] by (simp add: TOTAL_TASKS_def)

end
