(* ===== verification/TimerTest.thy ===== *)
theory TimerTest
  imports JobTimer
begin

text \<open>
  The second part of \<open>TestJobSystem\<close> of \<^verbatim>\<open>EngineTest/Main.cpp\<close>: a timer of 50 ms on the room, which the main thread
  waits for, alone, distributing and executing itself. The readings of the clock are arguments, \<open>ticks i\<close> that of the
  \<open>i\<close>-th turn; \<open>n\<close> bounds the turns, and \<open>None\<close> is a loop that has not ended within them.
\<close>

section \<open>The test\<close>

text \<open>The room is the only job queue; its only job is the callback.\<close>

record timer_test =
  tt_timer :: "(unit, unit) job_timer"
  tt_room :: "unit job_queue"
  tt_global :: "unit list"
  timerExecuted :: bool

definition timer_callback :: "unit \<Rightarrow> unit job_queue \<times> unit list \<times> bool \<Rightarrow> (unit job_queue \<times> unit list \<times> bool) res" where
  "timer_callback job = (\<lambda>(jq, g, _). Ok (jq, g, True))"

text \<open>\<open>Pop\<close>, and \<open>Execute\<close> if it returns a queue.\<close>

definition pop_and_execute :: "timer_test \<Rightarrow> timer_test res" where
  "pop_and_execute x = (case GlobalQueue_Pop (tt_global x) of
       (None, g) \<Rightarrow> Ok (x\<lparr>tt_global := g\<rparr>)
     | (Some q, g) \<Rightarrow> res_bind (JobQueue_Execute q timer_callback (tt_room x, g, timerExecuted x)) (\<lambda>(jq, g, executed).
         Ok (x\<lparr>tt_room := jq, tt_global := g, timerExecuted := executed\<rparr>)))"

fun timer_wait :: "(nat \<Rightarrow> uint64) \<Rightarrow> uint64 \<Rightarrow> nat \<Rightarrow> nat \<Rightarrow> timer_test \<Rightarrow> timer_test res option" where
  "timer_wait ticks startTick i 0 x = None"
| "timer_wait ticks startTick i (Suc n) x =
     (if timerExecuted x then Some (Ok x)
      else case Distribute (ticks i) (\<lambda>_. True) (tt_timer x, \<lambda>_. tt_room x, tt_global x) of
        None \<Rightarrow> None
      | Some (jt, queues, g) \<Rightarrow>
          case pop_and_execute (x\<lparr>tt_timer := jt, tt_room := queues (), tt_global := g\<rparr>) of
            Inl e \<Rightarrow> Some (Crash e)
          | Inr x \<Rightarrow>
              if ticks i - startTick > 1000 then Some (Ok x) else timer_wait ticks startTick (Suc i) n x)"

definition TestJobTimer :: "uint64 \<Rightarrow> uint64 \<Rightarrow> (nat \<Rightarrow> uint64) \<Rightarrow> nat \<Rightarrow> timer_test \<Rightarrow> timer_test res option" where
  "TestJobTimer tick startTick ticks n x =
     (case timer_wait ticks startTick 0 n (x\<lparr>tt_timer := DoTimer tick () 50 () (tt_timer x), timerExecuted := False\<rparr>) of
       None \<Rightarrow> None
     | Some (Inl e) \<Rightarrow> Some (Crash e)
     | Some (Inr x) \<Rightarrow> Some (assert_crash (timerExecuted x) (Ok x)))"

section \<open>It passes\<close>

text \<open>Waiting for the item.\<close>

definition timer_pending :: "uint64 \<Rightarrow> timer_test \<Rightarrow> bool" where
  "timer_pending due x \<longleftrightarrow> \<not> timerExecuted x \<and> \<not> jt_distributing (tt_timer x) \<and>
     timer_items (tt_timer x) = {#TimerItem due () ()#} \<and> tt_room x = JobQueue_new \<and> tt_global x = []"

lemma single_item:
  assumes "timer_pending due x"
  shows "\<exists>jt queues g. Distribute now (\<lambda>_. True) (tt_timer x, \<lambda>_. tt_room x, tt_global x) = Some (jt, queues, g) \<and>
    (if due \<le> now then queues () = jobs_push () (snd (jobCount_fetch_add JobQueue_new)) \<and> g = [()]
     else \<not> jt_distributing jt \<and> timer_items jt = timer_items (tt_timer x) \<and> queues () = JobQueue_new \<and> g = [])"
proof -
  obtain expired h where e: "expire_loop th_empty th_top th_pop now (jt_items (tt_timer x)) = Some (expired, h)"
    "{#TimerItem due () ()#} = mset expired + th_items h" "\<forall>i \<in> set expired. executeTick i \<le> now"
    "\<forall>i \<in># th_items h. now < executeTick i"
    using timer_heap.expire_loop_total [of now "jt_items (tt_timer x)"] assms unfolding timer_pending_def by metis
  have "expired = [TimerItem due () ()] \<and> th_items h = {#} \<or> expired = [] \<and> th_items h = {#TimerItem due () ()#}"
    using e(2) by (cases expired) (auto simp: add_eq_conv_ex)
  then have "if due \<le> now then expired = [TimerItem due () ()]
      else expired = [] \<and> th_items h = {#TimerItem due () ()#}"
    using e(3,4) by auto
  then show ?thesis
    using e(1) assms
    by (auto simp: Distribute_def timer_pending_def JobQueue_Push_def jobCount_fetch_add_def JobQueue_new_def
        GlobalQueue_Push_def jobs_push_def Let_def split: if_splits)
qed

lemma timer_turn_late:
  assumes "timer_pending due x" "due \<le> ticks i"
  shows "\<exists>y. timer_wait ticks startTick i (Suc (Suc n)) x = Some (Ok y) \<and> timerExecuted y"
proof -
  obtain jt queues g where d: "Distribute (ticks i) (\<lambda>_. True) (tt_timer x, \<lambda>_. tt_room x, tt_global x) = Some (jt, queues, g)"
    "queues () = jobs_push () (snd (jobCount_fetch_add JobQueue_new))" "g = [()]"
    using single_item [OF assms(1), of "ticks i"] assms(2) by auto
  have "\<exists>y. pop_and_execute (x\<lparr>tt_timer := jt, tt_room := queues (), tt_global := g\<rparr>) = Ok y \<and> timerExecuted y"
    by (simp add: d(2,3) pop_and_execute_def GlobalQueue_Pop_def JobQueue_Execute_def Execute_take_eq maxExecuteCount_def
        jobs_push_def jobCount_fetch_add_def JobQueue_new_def timer_callback_def Execute_done_def)
  then obtain y where y: "pop_and_execute (x\<lparr>tt_timer := jt, tt_room := queues (), tt_global := g\<rparr>) = Ok y" "timerExecuted y"
    by blast
  have "\<not> timerExecuted x" using assms(1) by (simp add: timer_pending_def)
  then show ?thesis using d(1) y by simp
qed

lemma timer_turn_early:
  assumes "timer_pending due x" "ticks i < due" "ticks i - startTick \<le> 1000"
  shows "\<exists>y. timer_pending due y \<and> timer_wait ticks startTick i (Suc n) x = timer_wait ticks startTick (Suc i) n y"
proof -
  obtain jt queues g where d: "Distribute (ticks i) (\<lambda>_. True) (tt_timer x, \<lambda>_. tt_room x, tt_global x) = Some (jt, queues, g)"
    "\<not> jt_distributing jt" "timer_items jt = timer_items (tt_timer x)" "queues () = JobQueue_new" "g = []"
    using single_item [OF assms(1), of "ticks i"] assms(2) by (auto simp: not_le [symmetric])
  let ?y = "x\<lparr>tt_timer := jt, tt_room := JobQueue_new, tt_global := []\<rparr>"
  have "timer_pending due ?y" using assms(1) d(2,3) by (simp add: timer_pending_def)
  moreover have "timer_wait ticks startTick i (Suc n) x = timer_wait ticks startTick (Suc i) n ?y"
    using assms(1) leD [OF assms(3)] d(1,4,5)
    by (simp add: timer_pending_def pop_and_execute_def GlobalQueue_Pop_def)
  ultimately show ?thesis by blast
qed

lemma timer_wait_executes:
  assumes "timer_pending due x" "due \<le> ticks (i + m)" "\<And>j. ticks j < due \<Longrightarrow> ticks j - startTick \<le> 1000"
  shows "\<exists>y. timer_wait ticks startTick i (m + 2) x = Some (Ok y) \<and> timerExecuted y"
  using assms(1,2)
proof (induction m arbitrary: i x)
  case 0
  then show ?case using timer_turn_late [of due x ticks i startTick 0] by (simp add: numeral_2_eq_2)
next
  case (Suc m)
  show ?case
  proof (cases "due \<le> ticks i")
    case True
    then show ?thesis using timer_turn_late [OF Suc.prems(1), of ticks i startTick "Suc m"] by simp
  next
    case False
    then have "ticks i < due" by simp
    from timer_turn_early [where ticks = ticks and i = i and n = "m + 2", OF Suc.prems(1) this assms(3) [OF this]] obtain y where
      y: "timer_pending due y" "timer_wait ticks startTick i (Suc (m + 2)) x = timer_wait ticks startTick (Suc i) (m + 2) y"
      by blast
    show ?thesis using Suc.IH [OF y(1), of "Suc i"] Suc.prems(2) y(2) by simp
  qed
qed

text \<open>
  The test of the timer passes, and ends: with a clock that is never before its first reading, if the \<open>m\<close>-th turn is at
  least 50 ms after the reservation, the callback has run after at most \<open>m + 2\<close> turns, and the limit of a second never
  ends the loop before that, however long a turn takes.
\<close>

theorem job_timer_test:
  assumes "\<not> jt_distributing (tt_timer x)" "timer_items (tt_timer x) = {#}" "tt_room x = JobQueue_new" "tt_global x = []"
    and clock: "tick \<le> startTick" "\<forall>i. startTick \<le> ticks i" "unat tick + 50 < 2 ^ 64" "tick + 50 \<le> ticks m"
  shows "\<exists>y. TestJobTimer tick startTick ticks (m + 2) x = Some (Ok y) \<and> timerExecuted y"
proof -
  let ?x = "x\<lparr>tt_timer := DoTimer tick () 50 () (tt_timer x), timerExecuted := False\<rparr>"
  have "timer_pending (tick + 50) ?x"
    using assms(1-4) by (simp add: timer_pending_def DoTimer_def Reserve_def Let_def)
  moreover have "ticks j - startTick \<le> 1000" if "ticks j < tick + 50" for j
  proof -
    have "unat (ticks j) < unat tick + 50"
      using that clock(3) by (simp add: word_less_nat_alt unat_word_ariths)
    moreover have "startTick \<le> ticks j" using clock(2) by simp
    ultimately show ?thesis
      using clock(1) by (simp add: word_le_nat_alt unat_sub)
  qed
  ultimately obtain y where "timer_wait ticks startTick 0 (m + 2) ?x = Some (Ok y)" "timerExecuted y"
    using timer_wait_executes [of "tick + 50" ?x ticks 0 m startTick] clock(4) by auto
  then show ?thesis by (simp add: TestJobTimer_def)
qed

end
