(* ===== verification/IocpCore.thy ===== *)
theory IocpCore
  imports Listener
begin

text \<open>
  \<^verbatim>\<open>ServerEngine/Network/IocpCore.cpp\<close> but for \<open>Dispatch\<close>, which \<open>Listener\<close> has, and \<^verbatim>\<open>IocpEvent.cpp\<close>: the
  completion port and the registration of handles with it. \<open>ccp\<close> is \<open>CreateIoCompletionPort\<close>, from the file
  handle, the existing port and the state of the system; \<open>close\<close> is \<open>CloseHandle\<close>.
\<close>

section \<open>Events\<close>

record overlapped =
  ov_Internal :: nat
  ov_InternalHigh :: nat
  ov_Offset :: uint32
  ov_OffsetHigh :: uint32
  ov_hEvent :: int

record 'o iocp_event = overlapped +
  eventType :: EventType
  ie_owner :: "'o option"

definition IocpEvent_Init :: "'o iocp_event \<Rightarrow> 'o iocp_event" where
  "IocpEvent_Init e = e\<lparr>ov_hEvent := 0, ov_Internal := 0, ov_InternalHigh := 0, ov_Offset := 0, ov_OffsetHigh := 0\<rparr>"

text \<open>\<open>garbage\<close> is what the memory held: only \<open>Init\<close> sets the part of the system.\<close>

definition IocpEvent_new :: "overlapped \<Rightarrow> EventType \<Rightarrow> 'o iocp_event" where
  "IocpEvent_new garbage type =
     IocpEvent_Init (overlapped.extend garbage \<lparr>eventType = type, ie_owner = None\<rparr>)"

lemma IocpEvent_Init_facts:
  "overlapped.truncate (IocpEvent_Init e) = \<lparr>ov_Internal = 0, ov_InternalHigh = 0, ov_Offset = 0, ov_OffsetHigh = 0, ov_hEvent = 0\<rparr>"
  "eventType (IocpEvent_Init e) = eventType e" "ie_owner (IocpEvent_Init e) = ie_owner e"
  by (simp_all add: IocpEvent_Init_def overlapped.defs)

section \<open>The port\<close>

type_synonym handle = int

definition INVALID_HANDLE_VALUE :: handle where "INVALID_HANDLE_VALUE = - 1"
definition NULL_HANDLE :: handle where "NULL_HANDLE = 0"

type_synonym 's create_port = "handle \<Rightarrow> handle \<Rightarrow> 's \<Rightarrow> handle \<times> 's"

definition IocpCore_new :: "'s create_port \<Rightarrow> 's \<Rightarrow> (handle \<times> 's) res" where
  "IocpCore_new ccp s =
     (let (iocpHandle, s) = ccp INVALID_HANDLE_VALUE NULL_HANDLE s in
      assert_crash (iocpHandle \<noteq> INVALID_HANDLE_VALUE) (Ok (iocpHandle, s)))"

definition IocpCore_delete :: "(handle \<Rightarrow> 's \<Rightarrow> 's) \<Rightarrow> handle \<Rightarrow> 's \<Rightarrow> handle \<times> 's" where
  "IocpCore_delete close iocpHandle s =
     (if iocpHandle \<noteq> INVALID_HANDLE_VALUE then (INVALID_HANDLE_VALUE, close iocpHandle s) else (iocpHandle, s))"

text \<open>\<open>object\<close> is what \<open>GetHandle\<close> of the object returns.\<close>

definition Register :: "'s create_port \<Rightarrow> handle \<Rightarrow> handle \<Rightarrow> 's \<Rightarrow> bool \<times> 's" where
  "Register ccp iocpHandle object s = (let (r, s) = ccp object iocpHandle s in (r \<noteq> NULL_HANDLE, s))"

text \<open>
  What the documentation of \<open>CreateIoCompletionPort\<close> says; \<open>port_of\<close> is the port a handle is associated with. A
  call that fails returns \<open>NULL\<close> and changes nothing. A call that succeeds returns the existing port or, if that is
  \<open>NULL\<close>, a new one, and associates the file handle with it unless that is \<open>INVALID_HANDLE_VALUE\<close>.
\<close>

definition documented :: "'s create_port \<Rightarrow> ('s \<Rightarrow> handle \<Rightarrow> handle option) \<Rightarrow> bool" where
  "documented ccp port_of \<longleftrightarrow> (\<forall>f e s. case ccp f e s of (r, s') \<Rightarrow>
     r \<noteq> INVALID_HANDLE_VALUE \<and>
     (r = NULL_HANDLE \<longrightarrow> port_of s' = port_of s) \<and>
     (r \<noteq> NULL_HANDLE \<longrightarrow> (if e = NULL_HANDLE then \<forall>g. port_of s g \<noteq> Some r else r = e) \<and>
       port_of s' = (if f = INVALID_HANDLE_VALUE then port_of s else (port_of s)(f \<mapsto> r))))"

lemma documentedD:
  assumes "documented ccp port_of" "ccp f e s = (r, s')"
  shows "r \<noteq> INVALID_HANDLE_VALUE" "r = NULL_HANDLE \<Longrightarrow> port_of s' = port_of s"
    "r \<noteq> NULL_HANDLE \<Longrightarrow> e \<noteq> NULL_HANDLE \<Longrightarrow> r = e"
    "r \<noteq> NULL_HANDLE \<Longrightarrow> e = NULL_HANDLE \<Longrightarrow> port_of s g \<noteq> Some r"
    "r \<noteq> NULL_HANDLE \<Longrightarrow> f \<noteq> INVALID_HANDLE_VALUE \<Longrightarrow> port_of s' = (port_of s)(f \<mapsto> r)"
proof -
  have "case ccp f e s of (r, s') \<Rightarrow> r \<noteq> INVALID_HANDLE_VALUE \<and>
     (r = NULL_HANDLE \<longrightarrow> port_of s' = port_of s) \<and>
     (r \<noteq> NULL_HANDLE \<longrightarrow> (if e = NULL_HANDLE then \<forall>g. port_of s g \<noteq> Some r else r = e) \<and>
       port_of s' = (if f = INVALID_HANDLE_VALUE then port_of s else (port_of s)(f \<mapsto> r)))"
    using assms(1) unfolding documented_def by (elim allE)
  then show "r \<noteq> INVALID_HANDLE_VALUE" "r = NULL_HANDLE \<Longrightarrow> port_of s' = port_of s"
    "r \<noteq> NULL_HANDLE \<Longrightarrow> e \<noteq> NULL_HANDLE \<Longrightarrow> r = e"
    "r \<noteq> NULL_HANDLE \<Longrightarrow> e = NULL_HANDLE \<Longrightarrow> port_of s g \<noteq> Some r"
    "r \<noteq> NULL_HANDLE \<Longrightarrow> f \<noteq> INVALID_HANDLE_VALUE \<Longrightarrow> port_of s' = (port_of s)(f \<mapsto> r)"
    unfolding assms(2) by (simp_all split: if_splits)
qed

text \<open>A registered object is associated with the port of the core, if the core has one.\<close>

theorem register_associates:
  assumes "documented ccp port_of" "iocpHandle \<noteq> NULL_HANDLE" "object \<noteq> INVALID_HANDLE_VALUE"
    "Register ccp iocpHandle object s = (True, s')"
  shows "port_of s' object = Some iocpHandle \<and> (\<forall>g. g \<noteq> object \<longrightarrow> port_of s' g = port_of s g)"
proof -
  obtain r where r: "ccp object iocpHandle s = (r, s')" "r \<noteq> NULL_HANDLE"
    using assms(4) by (auto simp: Register_def split: prod.splits)
  note d = documentedD [OF assms(1) r(1)]
  show ?thesis using d(3) [OF r(2) assms(2)] d(5) [OF r(2) assms(3)] by simp
qed

text \<open>
  A failure to make the port goes unnoticed: the constructor compares with \<open>INVALID_HANDLE_VALUE\<close>, which is never
  returned, so that it never asserts, and a core without a port still registers. Each registration then makes a port of
  its own, so that two objects that have been registered are at different ports, neither of which the core can read.
\<close>

theorem failed_port_unnoticed:
  assumes "documented ccp port_of"
  shows "\<exists>h s1. IocpCore_new ccp s = Ok (h, s1) \<and> h = fst (ccp INVALID_HANDLE_VALUE NULL_HANDLE s) \<and>
    (h = NULL_HANDLE \<and> a \<noteq> b \<and> a \<noteq> INVALID_HANDLE_VALUE \<and> b \<noteq> INVALID_HANDLE_VALUE \<and>
      Register ccp h a s1 = (True, s2) \<and> Register ccp h b s2 = (True, s3) \<longrightarrow>
      (\<exists>p q. port_of s3 a = Some p \<and> port_of s3 b = Some q \<and> p \<noteq> q \<and> p \<noteq> h \<and> q \<noteq> h))"
proof -
  obtain h s1 where h: "ccp INVALID_HANDLE_VALUE NULL_HANDLE s = (h, s1)" by fastforce
  have new: "IocpCore_new ccp s = Ok (h, s1)"
    using documentedD(1) [OF assms h] h by (simp add: IocpCore_new_def)
  have "\<exists>p q. port_of s3 a = Some p \<and> port_of s3 b = Some q \<and> p \<noteq> q \<and> p \<noteq> h \<and> q \<noteq> h"
    if c: "h = NULL_HANDLE" "a \<noteq> b" "a \<noteq> INVALID_HANDLE_VALUE" "b \<noteq> INVALID_HANDLE_VALUE"
      "Register ccp h a s1 = (True, s2)" "Register ccp h b s2 = (True, s3)"
  proof -
    obtain p q where p: "ccp a h s1 = (p, s2)" "p \<noteq> NULL_HANDLE" and q: "ccp b h s2 = (q, s3)" "q \<noteq> NULL_HANDLE"
      using c(5,6) by (auto simp: Register_def split: prod.splits)
    note dp = documentedD [OF assms p(1)] and dq = documentedD [OF assms q(1)]
    have "port_of s2 a = Some p" using dp(5) [OF p(2) c(3)] by simp
    moreover have "port_of s2 a \<noteq> Some q" by (rule dq(4) [OF q(2) c(1)])
    moreover have "port_of s3 a = port_of s2 a" "port_of s3 b = Some q" using dq(5) [OF q(2) c(4)] c(2) by simp_all
    ultimately show ?thesis using p(2) q(2) c(1) by auto
  qed
  then show ?thesis using new h by auto
qed

text \<open>A system as documented: the handles with their ports; the first \<open>n\<close> calls fail.\<close>

definition example_ports :: "(nat \<times> (handle \<times> handle) list) create_port" where
  "example_ports f e = (\<lambda>(n, ps).
     if n \<noteq> 0 \<or> e = INVALID_HANDLE_VALUE then (NULL_HANDLE, (n - 1, ps))
     else let r = (if e = NULL_HANDLE then 1 + fold max (map snd ps) 0 else e) in
       (r, (n, if f = INVALID_HANDLE_VALUE then ps else (f, r) # ps)))"

lemma example_documented: "documented example_ports (\<lambda>(n, ps). map_of ps)"
proof -
  have le: "0 \<le> fold max xs a \<and> (\<forall>x \<in> set xs. x \<le> fold max xs a)" if "0 \<le> a" for xs and a :: int
  proof -
    have "fold max xs a = Max (insert a (set xs))" by (metis Max.set_eq_fold list.simps(15))
    then show ?thesis using that by (simp add: Max_ge_iff)
  qed
  have "map_of ps g \<noteq> Some (1 + fold max (map snd ps) 0)" for ps :: "(handle \<times> handle) list" and g
  proof
    assume "map_of ps g = Some (1 + fold max (map snd ps) 0)"
    then have "1 + fold max (map snd ps) 0 \<in> set (map snd ps)" by (force dest: map_of_SomeD)
    then show False using le [of 0 "map snd ps"] by fastforce
  qed
  moreover have "1 + fold max (map snd ps) 0 \<noteq> INVALID_HANDLE_VALUE" "1 + fold max (map snd ps) 0 \<noteq> NULL_HANDLE"
    for ps :: "(handle \<times> handle) list"
    using le [of 0 "map snd ps"] by (simp_all add: INVALID_HANDLE_VALUE_def NULL_HANDLE_def)
  ultimately show ?thesis
    by (auto simp: documented_def example_ports_def Let_def NULL_HANDLE_def INVALID_HANDLE_VALUE_def)
qed

lemma failed_port_example:
  "\<exists>s1 s2 s3. IocpCore_new example_ports (1, []) = Ok (NULL_HANDLE, s1) \<and>
    Register example_ports NULL_HANDLE 8 s1 = (True, s2) \<and> Register example_ports NULL_HANDLE 9 s2 = (True, s3) \<and>
    map_of (snd s3) 8 = Some 1 \<and> map_of (snd s3) 9 = Some 2"
  by (simp add: IocpCore_new_def Register_def example_ports_def INVALID_HANDLE_VALUE_def NULL_HANDLE_def)

end
