(* ===== verification/Job.thy ===== *)
theory Job
  imports Room
begin

text \<open>
  \<^verbatim>\<open>ServerEngine/Job/Job.h\<close>: a job is a callback, given as such or made of a member function, its object and its
  arguments. The queues of rooms hold values of \<open>room_job\<close> instead; here they are shown to be what these callbacks do.
\<close>

section \<open>Jobs\<close>

text \<open>A callback changes the program, \<open>'s\<close>; \<open>None\<close> is an empty \<open>std::function\<close>.\<close>

type_synonym 's callback = "'s \<Rightarrow> 's res"

record 's job =
  job_callback :: "'s callback option"

definition Job_new :: "'s callback option \<Rightarrow> 's job" where
  "Job_new callback = \<lparr>job_callback = callback\<rparr>"

text \<open>
  The arguments are moved out of the callback when it runs, so that this is what its first run does; every queue
  runs a job once.
\<close>

definition Job_method :: "'o option \<Rightarrow> ('o \<Rightarrow> 'a \<Rightarrow> 's callback) \<Rightarrow> 'a \<Rightarrow> 's job" where
  "Job_method owner memFunc args =
     \<lparr>job_callback = Some (\<lambda>s. case owner of None \<Rightarrow> Crash NullDeref | Some self \<Rightarrow> memFunc self args s)\<rparr>"

definition Job_Execute :: "'s job \<Rightarrow> 's \<Rightarrow> 's res" where
  "Job_Execute job s = (case job_callback job of None \<Rightarrow> Ok s | Some callback \<Rightarrow> callback s)"

section \<open>The jobs of a room\<close>

text \<open>What \<open>PushJob(room, &Room::f, args)\<close> makes.\<close>

fun job_of :: "nat \<Rightarrow> room_ref \<Rightarrow> room_job \<Rightarrow> world job" where
  "job_of t r (JobEnter s) = Job_method (Some r) (Room_Enter t) s"
| "job_of t r (JobLeave s) = Job_method (Some r) (Room_Leave t) s"
| "job_of t r (JobHandleChat s message) = Job_method (Some r) (\<lambda>self (s, message). Room_HandleChat t self s message) (s, message)"
| "job_of t r (JobLeaveAndEnter s target) =
     Job_method (Some r) (\<lambda>self (s, target). Room_LeaveAndEnter t self s target) (s, target)"

lemma Job_Execute_simps [simp]:
  "Job_Execute (Job_new None) s = Ok s" "Job_Execute (Job_new (Some f)) s = f s"
  "Job_Execute (Job_method (Some self) memFunc args) s = memFunc self args s"
  "Job_Execute (Job_method None memFunc args) s = Crash NullDeref"
  by (simp_all add: Job_Execute_def Job_new_def Job_method_def)

lemma job_of_executes: "Job_Execute (job_of t r j) w = run_job t r j w"
  by (cases j) simp_all

text \<open>So a queue of callbacks and the queue of values do the same.\<close>

theorem jobs_are_callbacks:
  "run_jobs Job_Execute (map (job_of t r) js) w = run_jobs (run_job t r) js w"
proof (induction js arbitrary: w)
  case (Cons j js)
  then show ?case by (cases "run_job t r j w") (simp_all add: job_of_executes)
qed simp

end
