(* ===== verification/ReadWriteLock.thy ===== *)
theory ReadWriteLock
  imports SpinLock
begin

text \<open>
  \<open>ReadWriteLock\<close> of \<^verbatim>\<open>ServerEngine/Lock/SpinLock.h\<close> and its two guards, which the service and the table of rooms
  use. \<open>SRWLOCK\<close> is the system's; of it the model has what its documentation says: it is held by one thread in
  exclusive mode or by any number in shared mode, and whoever cannot have it waits.
\<close>

section \<open>The lock\<close>

record srw_lock =
  srw_exclusive :: "nat option"
  srw_shared :: "nat set"

definition ReadWriteLock_new :: srw_lock where
  "ReadWriteLock_new = \<lparr>srw_exclusive = None, srw_shared = {}\<rparr>"

text \<open>\<open>None\<close>: the thread \<open>t\<close> has to wait.\<close>

definition LockWrite :: "nat \<Rightarrow> srw_lock \<Rightarrow> srw_lock option" where
  "LockWrite t l = (if srw_exclusive l = None \<and> srw_shared l = {} then Some (l\<lparr>srw_exclusive := Some t\<rparr>) else None)"

definition UnlockWrite :: "srw_lock \<Rightarrow> srw_lock" where
  "UnlockWrite l = l\<lparr>srw_exclusive := None\<rparr>"

definition LockRead :: "nat \<Rightarrow> srw_lock \<Rightarrow> srw_lock option" where
  "LockRead t l =
     (if srw_exclusive l = None \<and> t \<notin> srw_shared l then Some (l\<lparr>srw_shared := insert t (srw_shared l)\<rparr>) else None)"

definition UnlockRead :: "nat \<Rightarrow> srw_lock \<Rightarrow> srw_lock" where
  "UnlockRead t l = l\<lparr>srw_shared := srw_shared l - {t}\<rparr>"

section \<open>Guarded sections\<close>

text \<open>
  A write section is a list of changes of the data, made one by one, a read section any number of looks at them.
  \<open>rw_seen t\<close> is what \<open>t\<close> has seen in its section, \<open>rw_done\<close> are the write sections that are complete and \<open>rw_ran\<close> the
  changes the one under way has made.
\<close>

record 'd rw_guarded =
  rw_srw :: srw_lock
  rw_body :: "nat \<Rightarrow> ('d \<Rightarrow> 'd) list"
  rw_todo :: "nat \<Rightarrow> ('d \<Rightarrow> 'd) list"
  rw_seen :: "nat \<Rightarrow> 'd list"
  rw_data :: 'd
  rw_done :: "('d \<Rightarrow> 'd) list list"
  rw_ran :: "('d \<Rightarrow> 'd) list"

definition rw_start :: "'d \<Rightarrow> 'd rw_guarded" where
  "rw_start d = \<lparr>rw_srw = ReadWriteLock_new, rw_body = \<lambda>_. [], rw_todo = \<lambda>_. [], rw_seen = \<lambda>_. [], rw_data = d,
     rw_done = [], rw_ran = []\<rparr>"

inductive rw_step :: "'d rw_guarded \<Rightarrow> 'd rw_guarded \<Rightarrow> bool" where
  read_guard: "LockRead t (rw_srw g) = Some l \<Longrightarrow> rw_step g (g\<lparr>rw_srw := l, rw_seen := (rw_seen g)(t := [])\<rparr>)"
| look: "t \<in> srw_shared (rw_srw g) \<Longrightarrow> rw_step g (g\<lparr>rw_seen := (rw_seen g)(t := rw_seen g t @ [rw_data g])\<rparr>)"
| read_unguard: "t \<in> srw_shared (rw_srw g) \<Longrightarrow> rw_step g (g\<lparr>rw_srw := UnlockRead t (rw_srw g)\<rparr>)"
| write_guard: "LockWrite t (rw_srw g) = Some l \<Longrightarrow>
    rw_step g (g\<lparr>rw_srw := l, rw_body := (rw_body g)(t := body), rw_todo := (rw_todo g)(t := body)\<rparr>)"
| change: "srw_exclusive (rw_srw g) = Some t \<Longrightarrow> rw_todo g t = f # fs \<Longrightarrow>
    rw_step g (g\<lparr>rw_data := f (rw_data g), rw_todo := (rw_todo g)(t := fs), rw_ran := rw_ran g @ [f]\<rparr>)"
| write_unguard: "srw_exclusive (rw_srw g) = Some t \<Longrightarrow> rw_todo g t = [] \<Longrightarrow>
    rw_step g (g\<lparr>rw_srw := UnlockWrite (rw_srw g), rw_done := rw_done g @ [rw_body g t], rw_ran := []\<rparr>)"

abbreviation rw_reach :: "'d \<Rightarrow> 'd rw_guarded \<Rightarrow> bool" where
  "rw_reach d g \<equiv> rw_step\<^sup>*\<^sup>* (rw_start d) g"

text \<open>What complete sections leave.\<close>

definition committed :: "'d \<Rightarrow> 'd rw_guarded \<Rightarrow> 'd" where
  "committed d g = fold run_section (rw_done g) d"

definition rw_inv :: "'d \<Rightarrow> 'd rw_guarded \<Rightarrow> bool" where
  "rw_inv d g \<longleftrightarrow> rw_data g = run_section (rw_ran g) (committed d g) \<and>
     (\<forall>t \<in> srw_shared (rw_srw g). \<forall>v \<in> set (rw_seen g t). v = committed d g) \<and>
     (case srw_exclusive (rw_srw g) of None \<Rightarrow> rw_ran g = []
      | Some t \<Rightarrow> srw_shared (rw_srw g) = {} \<and> rw_body g t = rw_ran g @ rw_todo g t)"

lemmas srw_defs = LockRead_def LockWrite_def UnlockRead_def UnlockWrite_def

lemma committed_simps [simp]:
  "committed d (g\<lparr>rw_srw := l\<rparr>) = committed d g" "committed d (g\<lparr>rw_seen := x\<rparr>) = committed d g"
  "committed d (g\<lparr>rw_body := b\<rparr>) = committed d g" "committed d (g\<lparr>rw_todo := b\<rparr>) = committed d g"
  "committed d (g\<lparr>rw_data := y\<rparr>) = committed d g" "committed d (g\<lparr>rw_ran := r\<rparr>) = committed d g"
  "committed d (g\<lparr>rw_done := rw_done g @ [body]\<rparr>) = run_section body (committed d g)"
  by (simp_all add: committed_def)

lemma rw_inv_step:
  assumes "rw_step g g'" "rw_inv d g"
  shows "rw_inv d g'"
proof -
  have data: "rw_data g = run_section (rw_ran g) (committed d g)"
    and seen: "\<And>t v. t \<in> srw_shared (rw_srw g) \<Longrightarrow> v \<in> set (rw_seen g t) \<Longrightarrow> v = committed d g"
    and free: "srw_exclusive (rw_srw g) = None \<Longrightarrow> rw_ran g = []"
    and taken: "\<And>t. srw_exclusive (rw_srw g) = Some t \<Longrightarrow> srw_shared (rw_srw g) = {} \<and> rw_body g t = rw_ran g @ rw_todo g t"
    using assms(2) by (auto simp: rw_inv_def)
  have quiet: "rw_data g = committed d g" "srw_exclusive (rw_srw g) = None" if "t \<in> srw_shared (rw_srw g)" for t
    using that taken free data by (cases "srw_exclusive (rw_srw g)"; auto)+
  from assms(1) show ?thesis
  proof cases
    case (read_guard t l)
    then show ?thesis using data seen free by (auto simp: rw_inv_def srw_defs split: if_splits)
  next
    case (look t)
    then show ?thesis using seen quiet free by (auto simp: rw_inv_def)
  next
    case (read_unguard t)
    then show ?thesis using data seen quiet(2) [of t] free by (auto simp: rw_inv_def srw_defs)
  next
    case (write_guard t l body)
    then show ?thesis using data free by (auto simp: rw_inv_def srw_defs split: if_splits)
  next
    case (change t f fs)
    then show ?thesis using data taken [of t] by (auto simp: rw_inv_def)
  next
    case (write_unguard t)
    then show ?thesis using data taken [of t] by (auto simp: rw_inv_def srw_defs committed_def)
  qed
qed

lemma rw_reach_inv: "rw_reach d g \<Longrightarrow> rw_inv d g"
proof (induction rule: rtranclp_induct)
  case base
  show ?case by (simp add: rw_inv_def rw_start_def committed_def ReadWriteLock_new_def)
next
  case (step g g')
  show ?case by (rule rw_inv_step [OF step(2,3)])
qed

text \<open>
  Sections under the lock may be taken as single steps. A thread in a read section has seen nothing but what complete
  write sections left, and this does not change while it is there; with no write section under way the data are
  those of the complete ones, run one after the other; and a write section is alone and has made the first of its changes.
\<close>

theorem rw_sections_atomic:
  assumes "rw_reach d g"
  shows "(\<forall>t \<in> srw_shared (rw_srw g). srw_exclusive (rw_srw g) = None \<and> (\<forall>v \<in> set (rw_seen g t). v = rw_data g)) \<and>
    (srw_exclusive (rw_srw g) = None \<longrightarrow> rw_data g = fold run_section (rw_done g) d) \<and>
    (\<forall>t. srw_exclusive (rw_srw g) = Some t \<longrightarrow> srw_shared (rw_srw g) = {} \<and>
      (\<exists>ran. rw_body g t = ran @ rw_todo g t \<and> rw_data g = run_section ran (fold run_section (rw_done g) d)))"
proof -
  have inv: "rw_data g = run_section (rw_ran g) (committed d g)"
    "\<forall>t \<in> srw_shared (rw_srw g). \<forall>v \<in> set (rw_seen g t). v = committed d g"
    "case srw_exclusive (rw_srw g) of None \<Rightarrow> rw_ran g = []
      | Some t \<Rightarrow> srw_shared (rw_srw g) = {} \<and> rw_body g t = rw_ran g @ rw_todo g t"
    using rw_reach_inv [OF assms] unfolding rw_inv_def by blast+
  show ?thesis
  proof (cases "srw_exclusive (rw_srw g)")
    case None
    then have "rw_data g = committed d g" using inv(1,3) by simp
    then show ?thesis using None inv(2) by (metis committed_def option.distinct(1))
  next
    case (Some u)
    then have "srw_shared (rw_srw g) = {}" "rw_body g u = rw_ran g @ rw_todo g u" using inv(3) by simp_all
    then show ?thesis using Some inv(1) by (auto simp: committed_def)
  qed
qed

end
