(* ===== verification/RoomDelivery.thy ===== *)
theory RoomDelivery
  imports Room SessionSend
begin

text \<open>
  From the jobs of a room to the connections of its members. \<open>Room\<close> gives the calls of \<open>Send\<close> that jobs make
  on every member; here they meet \<open>Session::Send\<close>, which ignores a call when the session is not connected and
  disconnects it when 500 buffers wait. The worker that runs the room makes its calls one after the other; all that
  other threads do to the session in the meantime (their sends, completions, disconnects) is a step of \<open>SessionSend\<close>.
\<close>

section \<open>Calls of Send among the other threads\<close>

text \<open>
  Where the worker is in \<open>Session::Send\<close>: \<open>Checked sb\<close> after \<open>IsConnected()\<close> has returned true, \<open>Refused\<close> after the
  queue was found full, before \<open>Disconnect\<close>. \<open>mr_calls\<close> are the calls still to be made, \<open>mr_got\<close> the buffers accepted.
\<close>

datatype call_phase = Between | Checked send_buffer | Refused

record member_run =
  mr_run :: send_run
  mr_calls :: "send_buffer list"
  mr_phase :: call_phase
  mr_got :: "send_buffer list"

inductive call_step :: "(send_buffer \<Rightarrow> byte list) \<Rightarrow> member_run \<Rightarrow> member_run \<Rightarrow> bool" for mem where
  other: "ss_step mem (mr_run x) r \<Longrightarrow> call_step mem x (x\<lparr>mr_run := r\<rparr>)"
| check: "mr_phase x = Between \<Longrightarrow> mr_calls x = sb # sbs \<Longrightarrow>
    call_step mem x (x\<lparr>mr_calls := sbs, mr_phase := (if ss_connected (sr_session (mr_run x)) then Checked sb else Between)\<rparr>)"
| push: "mr_phase x = Checked sb \<Longrightarrow> Send_push sb (sr_session (mr_run x)) = (s', reg, False) \<Longrightarrow>
    call_step mem x (x\<lparr>mr_run := (mr_run x)\<lparr>sr_session := s',
        sr_registering := sr_registering (mr_run x) + (if reg then 1 else 0),
        sr_accepted := sr_accepted (mr_run x) @ [sb]\<rparr>,
      mr_phase := Between, mr_got := mr_got x @ [sb]\<rparr>)"
| overflow: "mr_phase x = Checked sb \<Longrightarrow> Send_push sb (sr_session (mr_run x)) = (s', reg, True) \<Longrightarrow>
    call_step mem x (x\<lparr>mr_phase := Refused\<rparr>)"
| refuse: "mr_phase x = Refused \<Longrightarrow>
    call_step mem x (x\<lparr>mr_run := (mr_run x)\<lparr>sr_session := Session_Disconnect d (sr_session (mr_run x))\<rparr>,
      mr_phase := Between\<rparr>)"

definition calls_start :: "send_run \<Rightarrow> send_buffer list \<Rightarrow> member_run" where
  "calls_start r0 sbs = \<lparr>mr_run = r0, mr_calls = sbs, mr_phase = Between, mr_got = []\<rparr>"

abbreviation call_reach :: "(send_buffer \<Rightarrow> byte list) \<Rightarrow> send_run \<Rightarrow> send_buffer list \<Rightarrow> member_run \<Rightarrow> bool" where
  "call_reach mem r0 sbs x \<equiv> (call_step mem)\<^sup>*\<^sup>* (calls_start r0 sbs) x"

section \<open>The invariant\<close>

lemma RegisterSend_connected:
  "RegisterSend w d s = (s', g) \<Longrightarrow> ss_connected s' \<Longrightarrow> ss_connected s"
  by (cases "ss_connected s") (simp_all add: RegisterSend_def)

lemma Disconnect_disconnects [simp]: "\<not> ss_connected (Session_Disconnect d s)"
  by (simp add: Session_Disconnect_def RegisterDisconnect_def post_def Let_def split: os_result.split)

text \<open>A session that is not connected never is again, and what is accepted stays accepted.\<close>

lemma ss_step_mono:
  assumes "ss_step mem r r'"
  shows "ss_connected (sr_session r') \<Longrightarrow> ss_connected (sr_session r)"
    "\<exists>sbs. sr_accepted r' = sr_accepted r @ sbs"
proof -
  from assms show "ss_connected (sr_session r') \<Longrightarrow> ss_connected (sr_session r)"
  proof cases
    case (complete as g bs n s' reg)
    then show "ss_connected (sr_session r') \<Longrightarrow> ss_connected (sr_session r)"
      by (auto simp: ProcessSend_update_def Let_def split: prod.splits if_splits)
  qed (auto simp: Send_push_def Send_push_many_def ProcessSend_def Let_def dest: RegisterSend_connected split: if_splits)
  from assms show "\<exists>sbs. sr_accepted r' = sr_accepted r @ sbs" by (auto elim!: ss_stepE)
qed

text \<open>
  The calls made so far were accepted up to the first that was not, and then the session is not
  connected any more, or the worker is about to disconnect it.
\<close>

definition calls_inv :: "send_run \<Rightarrow> send_buffer list \<Rightarrow> member_run \<Rightarrow> bool" where
  "calls_inv r0 sbs x \<longleftrightarrow>
     (case mr_phase x of
        Checked sb \<Rightarrow> sbs = mr_got x @ sb # mr_calls x
      | Refused \<Rightarrow> \<exists>sb. sbs = mr_got x @ sb # mr_calls x
      | Between \<Rightarrow> \<exists>missed. sbs = mr_got x @ missed @ mr_calls x \<and>
          (missed \<noteq> [] \<longrightarrow> \<not> ss_connected (sr_session (mr_run x)))) \<and>
     (\<exists>new. sr_accepted (mr_run x) = sr_accepted r0 @ new \<and> subseq (mr_got x) new)"

lemma calls_inv_step:
  assumes "call_step mem x x'" "calls_inv r0 sbs x"
  shows "calls_inv r0 sbs x'"
proof -
  obtain new where new: "sr_accepted (mr_run x) = sr_accepted r0 @ new" "subseq (mr_got x) new"
    using assms(2) by (auto simp: calls_inv_def)
  from assms(1) show ?thesis
  proof cases
    case (other r)
    obtain more where more: "sr_accepted r = sr_accepted (mr_run x) @ more" using ss_step_mono(2) [OF other(2)] by blast
    have "\<exists>new. sr_accepted r = sr_accepted r0 @ new \<and> subseq (mr_got x) new"
      using new more by (intro exI [of _ "new @ more"]) (simp add: subseq_rev_drop_many)
    then show ?thesis
      using assms(2) ss_step_mono(1) [OF other(2)] unfolding other(1) calls_inv_def
      by (auto split: call_phase.splits)
  next
    case (check sb rest)
    then obtain missed where missed: "sbs = mr_got x @ missed @ sb # rest"
      "missed \<noteq> [] \<longrightarrow> \<not> ss_connected (sr_session (mr_run x))"
      using assms(2) by (auto simp: calls_inv_def)
    show ?thesis
    proof (cases "ss_connected (sr_session (mr_run x))")
      case True
      then show ?thesis using missed new unfolding check(1) by (simp add: calls_inv_def)
    next
      case False
      then show ?thesis
        using missed new unfolding check(1) by (auto simp: calls_inv_def intro!: exI [of _ "missed @ [sb]"])
    qed
  next
    case (push sb s' reg)
    then have "sbs = mr_got x @ sb # mr_calls x" using assms(2) by (simp add: calls_inv_def)
    moreover have "\<exists>new'. (sr_accepted r0 @ new) @ [sb] = sr_accepted r0 @ new' \<and> subseq (mr_got x @ [sb]) new'"
      using new(2) by (intro exI [of _ "new @ [sb]"]) (simp add: list_emb_append_mono)
    ultimately show ?thesis using new(1) unfolding push(1) by (simp add: calls_inv_def)
  next
    case (overflow sb s' reg)
    then show ?thesis using assms(2) by (auto simp: calls_inv_def)
  next
    case (refuse d)
    then obtain sb where "sbs = mr_got x @ [sb] @ mr_calls x" using assms(2) by (auto simp: calls_inv_def)
    then show ?thesis using new unfolding refuse(1) by (auto simp: calls_inv_def intro!: exI [of _ "[sb]"])
  qed
qed

lemma calls_inv_reach:
  assumes "call_reach mem r0 sbs x"
  shows "calls_inv r0 sbs x"
  using assms
proof (induction rule: rtranclp_induct)
  case base
  then show ?case by (auto simp: calls_inv_def calls_start_def)
next
  case (step x x')
  show ?case by (rule calls_inv_step [OF step(2,3)])
qed

text \<open>The session itself only makes steps of \<open>SessionSend\<close>.\<close>

lemma call_step_session:
  assumes "call_step mem x x'" "\<forall>sb \<in> set sbs. buf_ok mem sb" "calls_inv r0 sbs x"
  shows "(ss_step mem)\<^sup>*\<^sup>* (mr_run x) (mr_run x')"
  using assms(1)
proof cases
  case (push sb s' reg)
  then have "buf_ok mem sb" using assms(2,3) by (auto simp: calls_inv_def)
  from ss_step.push [OF this push(3)] show ?thesis by (simp add: push(1))
next
  case (refuse d)
  from ss_step.disconnect [of mem "mr_run x" d] show ?thesis by (simp add: refuse(1))
qed auto

lemma call_reach_session:
  assumes "call_reach mem r0 sbs x" "\<forall>sb \<in> set sbs. buf_ok mem sb"
  shows "(ss_step mem)\<^sup>*\<^sup>* r0 (mr_run x)"
  using assms(1)
proof (induction rule: rtranclp_induct)
  case (step x x')
  with call_step_session [OF step(2) assms(2) calls_inv_reach [OF step(1)]] show ?case by (meson rtranclp_trans)
qed (simp add: calls_start_def)

text \<open>What one session makes of the calls of the room.\<close>

lemma member_gets:
  assumes "send_start s0" "send_reach mem s0 r0" "\<forall>sb \<in> set sbs. buf_ok mem sb" "call_reach mem r0 sbs x"
  shows "\<exists>new. prefix (mr_got x) sbs \<and> sr_accepted (mr_run x) = sr_accepted r0 @ new \<and> subseq (mr_got x) new \<and>
    prefix (sr_wire (mr_run x)) (bytes_of mem (sr_accepted (mr_run x))) \<and>
    (mr_calls x = [] \<and> mr_phase x = Between \<and> ss_connected (sr_session (mr_run x)) \<longrightarrow> mr_got x = sbs)"
proof -
  note inv = calls_inv_reach [OF assms(4)]
  have "send_reach mem s0 (mr_run x)" using assms(2) call_reach_session [OF assms(4,3)] by (rule rtranclp_trans)
  then have "send_stream mem (mr_run x)" using send_inv_reach assms(1) by blast
  then have "prefix (sr_wire (mr_run x)) (bytes_of mem (sr_accepted (mr_run x)))"
    by (auto simp: send_stream_def Let_def split: if_splits intro: prefixI [OF sym])
  moreover have "prefix (mr_got x) sbs" using inv by (auto simp: calls_inv_def split: call_phase.splits)
  moreover have "mr_got x = sbs" if "mr_calls x = []" "mr_phase x = Between" "ss_connected (sr_session (mr_run x))"
    using inv that by (auto simp: calls_inv_def)
  ultimately show ?thesis using inv unfolding calls_inv_def by blast
qed

text \<open>
  A member sees packets: the buffers its session has accepted from the room are the first of them in
  their order, and they are among what it has accepted since \<open>r0\<close>, whose bytes are transmitted in that
  order; if it is connected after the last call, they are all of them.
\<close>

definition sees :: "(send_buffer \<Rightarrow> byte list) \<Rightarrow> packet list \<Rightarrow> send_run \<Rightarrow> member_run \<Rightarrow> bool" where
  "sees mem packets r0 x \<longleftrightarrow> (\<exists>new. prefix (map mem (mr_got x)) (map packet_bytes packets) \<and>
     sr_accepted (mr_run x) = sr_accepted r0 @ new \<and> subseq (mr_got x) new \<and>
     prefix (sr_wire (mr_run x)) (bytes_of mem (sr_accepted (mr_run x))) \<and>
     (mr_calls x = [] \<and> mr_phase x = Between \<and> ss_connected (sr_session (mr_run x)) \<longrightarrow>
        map mem (mr_got x) = map packet_bytes packets))"

section \<open>Property\<close>

text \<open>
  C13: Everyone in a room sees the same. While a room runs any sequence of jobs, no job fails or is
  skipped, and on every member that does not itself move the worker calls \<open>Send\<close> with buffers that
  hold the same packets in the same order: one per job, the chat message, the join or the leave it
  announces. \<open>Session::Send\<close> may refuse: however these calls interleave with everything else that
  happens to the member's session, the buffers it accepts from the room are the first of them, in
  their order; they are among what it has accepted, whose bytes in that order are what its socket
  transmits; and while it is connected it has accepted every one. So any two members see the same
  packets in the same order, up to the moment where one of them is disconnected. The bounds keep
  every packet below 4096 bytes.
\<close>

theorem room_total_order:
  assumes "room_ok r (length js) w" "\<forall>j \<in> set js. job_ok j"
  shows "\<exists>w'. run_jobs (run_job t r) js w = Ok w' \<and>
    (let packets = concat (map (job_feed (\<lambda>u. GetPlayerName u w)) js) in
     \<forall>s \<in> set (rm_members (w_rooms w r)). (\<forall>j \<in> set js. \<not> job_moves s j) \<longrightarrow>
       (\<exists>sbs. cs_sends (w_clients w' s) = cs_sends (w_clients w s) @ sbs \<and>
         map (sb_bytes (w_sendBuffers w')) sbs = map packet_bytes packets \<and>
         (\<forall>mem s0 r0 x. send_start s0 \<and> send_reach mem s0 r0 \<and>
             (\<forall>sb \<in> set sbs. mem sb = sb_bytes (w_sendBuffers w') sb) \<and> call_reach mem r0 sbs x \<longrightarrow>
           sees mem packets r0 x)))"
proof -
  let ?ps = "concat (map (job_feed (\<lambda>u. GetPlayerName u w)) js)"
  obtain w' where w': "run_jobs (run_job t r) js w = Ok w'" "\<forall>s \<in> set (rm_members (w_rooms w r)).
      (\<forall>j \<in> set js. \<not> job_moves s j) \<longrightarrow> ready w' \<and> sent w' s = sent w s @ map packet_bytes ?ps"
    using room_jobs_feed [where t = t, OF assms] by blast
  have member: "\<exists>sbs. cs_sends (w_clients w' s) = cs_sends (w_clients w s) @ sbs \<and>
      map (sb_bytes (w_sendBuffers w')) sbs = map packet_bytes ?ps \<and> (\<forall>sb \<in> set sbs. sb_closed (w_sendBuffers w') sb) \<and> ready w'"
    if "s \<in> set (rm_members (w_rooms w r))" "\<forall>j \<in> set js. \<not> job_moves s j" for s
  proof -
    obtain sbs where sbs: "cs_sends (w_clients w' s) = cs_sends (w_clients w s) @ sbs"
      using run_jobs_sends [OF w'(1), of s] by (auto simp: prefix_def)
    have all: "ready w'" "sent w' s = sent w s @ map packet_bytes ?ps" using w'(2) that by blast+
    have "length (sent w s) = length (cs_sends (w_clients w s))" by (simp add: sent_def)
    then have "map (sb_bytes (w_sendBuffers w')) sbs = map packet_bytes ?ps"
      using arg_cong [OF all(2), of "drop (length (sent w s))"] by (simp add: sent_def sbs)
    moreover have "\<forall>sb \<in> set (cs_sends (w_clients w' s)). sb_closed (w_sendBuffers w') sb"
      using all(1) by (simp add: ready_def all_closed_def)
    ultimately show ?thesis using sbs all(1) by (intro exI [of _ sbs]) simp
  qed
  show ?thesis
  proof (intro exI [of _ w'] conjI w'(1), unfold Let_def, intro ballI impI)
    fix s assume "s \<in> set (rm_members (w_rooms w r))" "\<forall>j \<in> set js. \<not> job_moves s j"
    then obtain sbs where sbs: "cs_sends (w_clients w' s) = cs_sends (w_clients w s) @ sbs"
      "map (sb_bytes (w_sendBuffers w')) sbs = map packet_bytes ?ps" "\<forall>sb \<in> set sbs. sb_closed (w_sendBuffers w') sb" "ready w'"
      using member by blast
    have gets: "sees mem ?ps r0 x"
      if "send_start s0" "send_reach mem s0 r0" "\<forall>sb \<in> set sbs. mem sb = sb_bytes (w_sendBuffers w') sb"
        "call_reach mem r0 sbs x" for mem s0 r0 x
    proof -
      have "map mem sbs = map packet_bytes ?ps" using sbs(2) that(3) by (metis map_cong)
      moreover have "\<forall>sb \<in> set sbs. buf_ok mem sb"
        using that(3) sbs(3,4) length_sb_bytes by (simp add: buf_ok_def ready_def)
      ultimately show ?thesis
        using member_gets [OF that(1,2) _ that(4)] map_mono_prefix [of "mr_got x" sbs mem] unfolding sees_def by metis
    qed
    show "\<exists>sbs. cs_sends (w_clients w' s) = cs_sends (w_clients w s) @ sbs \<and>
         map (sb_bytes (w_sendBuffers w')) sbs = map packet_bytes ?ps \<and>
         (\<forall>mem s0 r0 x. send_start s0 \<and> send_reach mem s0 r0 \<and>
             (\<forall>sb \<in> set sbs. mem sb = sb_bytes (w_sendBuffers w') sb) \<and> call_reach mem r0 sbs x \<longrightarrow>
           sees mem ?ps r0 x)"
      using sbs(1,2) gets by (intro exI [of _ sbs]) blast
  qed
qed

section \<open>A run\<close>

text \<open>While the queue is short the session accepts every call.\<close>

lemma calls_accepted:
  assumes "ss_connected (sr_session (mr_run x))" "mr_phase x = Between" "mr_calls x = sbs"
    "length (ss_sendQueue (sr_session (mr_run x))) + length sbs \<le> MAX_SEND_QUEUE_SIZE"
  shows "\<exists>y. (call_step mem)\<^sup>*\<^sup>* x y \<and> mr_calls y = [] \<and> mr_phase y = Between \<and> ss_connected (sr_session (mr_run y)) \<and>
    mr_got y = mr_got x @ sbs"
  using assms
proof (induction sbs arbitrary: x)
  case (Cons sb sbs)
  let ?s = "sr_session (mr_run x)"
  let ?x1 = "x\<lparr>mr_calls := sbs, mr_phase := Checked sb\<rparr>"
  let ?s' = "?s\<lparr>ss_sendQueue := ss_sendQueue ?s @ [sb], ss_isSending := True\<rparr>"
  let ?x2 = "?x1\<lparr>mr_run := (mr_run x)\<lparr>sr_session := ?s',
      sr_registering := sr_registering (mr_run x) + (if \<not> ss_isSending ?s then 1 else 0),
      sr_accepted := sr_accepted (mr_run x) @ [sb]\<rparr>, mr_phase := Between, mr_got := mr_got x @ [sb]\<rparr>"
  have 1: "call_step mem x ?x1" using call_step.check [OF Cons.prems(2,3), of mem] Cons.prems(1) by simp
  have "Send_push sb (sr_session (mr_run ?x1)) = (?s', \<not> ss_isSending ?s, False)"
    using Cons.prems(4) by (simp add: Send_push_def)
  from call_step.push [OF _ this, of mem] have 2: "call_step mem ?x1 ?x2" by simp
  obtain y where "(call_step mem)\<^sup>*\<^sup>* ?x2 y" "mr_calls y = []" "mr_phase y = Between"
    "ss_connected (sr_session (mr_run y))" "mr_got y = mr_got ?x2 @ sbs"
    using Cons.IH [of ?x2] Cons.prems by auto
  with 1 2 show ?case by (intro exI [of _ y]) (auto intro: converse_rtranclp_into_rtranclp)
qed auto

theorem room_total_order_witness:
  "\<exists>w' sbs mem x. run_jobs (run_job 0 0) [JobHandleChat (Some 1) ''hi'', JobLeave (Some 2), JobHandleChat (Some 1) ''bye'']
      (room_world ''al'' [1, 2, 3]) = Ok w' \<and> cs_sends (w_clients w' 3) = sbs \<and>
    call_reach mem (run_start ex_session) sbs x \<and> ss_connected (sr_session (mr_run x)) \<and>
    map mem (mr_got x) = map packet_bytes [chat_packet 1 ''hi'' (room_world ''al'' []), left_notice ''bob'',
      chat_packet 1 ''bye'' (room_world ''al'' [])]"
proof -
  let ?js = "[JobHandleChat (Some 1) ''hi'', JobLeave (Some 2), JobHandleChat (Some 1) ''bye'']"
  let ?ps = "concat (map (job_feed (\<lambda>u. GetPlayerName u (room_world ''al'' [1, 2, 3]))) ?js)"
  have ok: "room_ok 0 (length ?js) (room_world ''al'' [1, 2, 3])" by (simp add: room_ok_def)
  have old: "cs_sends (w_clients (room_world ''al'' [1, 2, 3]) 3) = []"
    by (simp add: room_world_def world_start_def ClientSession_new_def)
  have ps: "?ps = [chat_packet 1 ''hi'' (room_world ''al'' []), left_notice ''bob'', chat_packet 1 ''bye'' (room_world ''al'' [])]"
    by (simp add: chat_packet_def)
  have jobs: "\<forall>j \<in> set ?js. job_ok j" and three: "3 \<in> set (rm_members (w_rooms (room_world ''al'' [1, 2, 3]) 0))"
    "\<forall>j \<in> set ?js. \<not> job_moves 3 j" by simp_all
  note all = room_total_order [OF ok jobs, of 0, unfolded Let_def]
  obtain w' sbs where w': "run_jobs (run_job 0 0) ?js (room_world ''al'' [1, 2, 3]) = Ok w'" "cs_sends (w_clients w' 3) = sbs"
    and bytes: "map (sb_bytes (w_sendBuffers w')) sbs = map packet_bytes ?ps"
    and sees: "\<forall>mem s0 r0 x. send_start s0 \<and> send_reach mem s0 r0 \<and>
      (\<forall>sb \<in> set sbs. mem sb = sb_bytes (w_sendBuffers w') sb) \<and> call_reach mem r0 sbs x \<longrightarrow> sees mem ?ps r0 x"
    using all three old by (metis append_Nil)
  have "length sbs = 3" using arg_cong [OF bytes, of size] unfolding ps by simp
  then obtain x where x: "call_reach (sb_bytes (w_sendBuffers w')) (run_start ex_session) sbs x" "mr_calls x = []"
    "mr_phase x = Between" "ss_connected (sr_session (mr_run x))"
    using calls_accepted [of "calls_start (run_start ex_session) sbs" sbs "sb_bytes (w_sendBuffers w')"]
    by (auto simp: calls_start_def run_start_def ex_session_def Session_new_def MAX_SEND_QUEUE_SIZE_def)
  have "sees (sb_bytes (w_sendBuffers w')) ?ps (run_start ex_session) x"
    using sees [rule_format, of ex_session "sb_bytes (w_sendBuffers w')" "run_start ex_session" x] ex_start x(1) by simp
  then have "map (sb_bytes (w_sendBuffers w')) (mr_got x) = map packet_bytes ?ps"
    using x(2-4) unfolding sees_def by blast
  then show ?thesis using w' x(1,4) unfolding ps by blast
qed

end
