(* ===== verification/Spec2Isabelle.thy ===== *)
theory Spec2Isabelle
  imports RingBuffer TokenBucket BufferIO SendBuffer PacketSession SessionSend SessionRecv JobTimer ServerStats ChatServer
    ObjectPool SpinLock ThreadPool Listener DummyClient ChatClient PacketTypes StressTester Monitoring Worker EngineTest
    Connection JobSystem Lifecycle Sockets Startup CrashDump ThreadManager
    ServerTest NetworkTest MemoryTest PoolTest TimerTest IocpCore Job ReadWriteLock RoomDelivery
begin

text \<open>
  A verification development for the IOCP chat server: the network engine (\<^verbatim>\<open>ServerEngine/\<close>), the protocol
  (\<^verbatim>\<open>Common/Protocol/\<close>), the server (\<^verbatim>\<open>ChatServer/\<close>), the interactive client (\<^verbatim>\<open>ChatClient/\<close>), the stress tester
  (\<^verbatim>\<open>DummyClient/\<close>) and the engine's own tests (\<^verbatim>\<open>EngineTest/\<close>). Paths are those under \<^verbatim>\<open>src/Source/\<close>.

  \<^bold>\<open>The program.\<close> Worker threads take completions off an I/O completion port. A received piece of a stream is in
  the session's ring buffer; \<open>PacketSession\<close> cuts it into packets; \<open>ClientSession\<close> limits their rate and calls the
  generated dispatcher, which parses the packet and calls a handler. Handlers either answer at once or push jobs to
  a room. A room is an actor: a job queue that is in the global queue while it has jobs, and that one worker at a
  time takes from there and runs. Answers are serialised once into a chunk of send buffers and put, by reference, into
  the send queue of every receiver, of which one thread at a time has a gathering send under way. A timer thread
  disconnects silent sessions; the main thread prints a dashboard and writes the abuse log.

  \<^bold>\<open>Theories\<close>, in the order they build on one another.
  \<^item> \<open>Prelude\<close>: integers at their width, faults, byte arrays, little-endian encoding, decimal numbers.
  \<^item> \<open>RingBuffer\<close>, \<open>TokenBucket\<close>, \<open>BufferIO\<close> (\<^verbatim>\<open>BufferReader.h\<close>, \<^verbatim>\<open>BufferWriter.h\<close>), \<open>SendBuffer\<close>: the buffers
    and the rate limiter of the engine.
  \<^item> \<open>PacketProtocol\<close>, \<open>PacketHandler\<close>, \<open>PacketTypes\<close>: the fifteen packets, their parsers and serialisers, the two
    dispatchers. Parsers and writers are two sides of the locale \<open>codec\<close>, which every packet interprets; \<open>exact_codec\<close>
    adds that a parser accepts nothing but encodings.
  \<^item> \<open>Sockets\<close> (\<^verbatim>\<open>SocketUtils.cpp\<close>, \<^verbatim>\<open>NetAddress.cpp\<close>), \<open>IocpCore\<close> (with \<^verbatim>\<open>IocpEvent.cpp\<close>): the calls of the system, over
    records of functions that stand for it.
  \<^item> \<open>PacketSession\<close>, \<open>Session\<close>, \<open>SessionSend\<close>, \<open>SessionRecv\<close>, \<open>Connection\<close>, \<open>Lifecycle\<close>: a connection. \<open>Session\<close> has the operations one
    by one, \<open>SessionSend\<close> interleaves the send path of any number of threads with the system's completions, \<open>SessionRecv\<close>
    composes the receive path from the posted request to the call of \<open>OnRecvPacket\<close>, which is an argument; \<open>Connection\<close>
    puts a sender and a receiver at the two ends of a stream, the receiver's \<open>OnRecvPacket\<close> again an argument, with that of
    \<open>ClientSession\<close> as an instance; and \<open>Lifecycle\<close> follows a session through all its requests and completions, from its
    making to its release, with other threads between the accesses of \<open>ProcessConnect\<close> and \<open>ProcessDisconnect\<close>.
  \<^item> \<open>JobQueue\<close> (with \<^verbatim>\<open>GlobalQueue.cpp\<close>), \<open>JobTimer\<close>, \<open>SpinLock\<close>, \<open>ReadWriteLock\<close>, \<open>ThreadPool\<close>, \<open>ThreadManager\<close>, \<open>Listener\<close> (with
    \<open>IocpCore::Dispatch\<close> and the start of the services), \<open>Service\<close>, \<open>CrashDump\<close>: the rest of the engine, concurrent
    where the code is.
  \<^item> \<open>MemoryPool\<close>, \<open>PoolAllocator\<close>, \<open>ObjectPool\<close>: the memory of the engine, on a heap of blocks.
  \<^item> \<open>ServerStats\<close>, \<open>Outbox\<close>, \<open>ChatWorld\<close>: the state of the server. \<open>Outbox\<close> is the locale of a world whose sessions have
    send queues; the server, the bots and the client are its instances.
  \<^item> \<open>Room\<close>, \<open>RoomManager\<close>, \<open>PacketHandlerImpl\<close>, \<open>AbuseMonitor\<close>, \<open>ClientSession\<close>: the operations of the server.
    \<open>RoomDelivery\<close> follows the calls of \<open>Send\<close> that a room makes into the send queue of a member, among all that other
    threads do to that session.
  \<^item> \<open>Membership\<close>, \<open>ChatServer\<close>, \<open>Worker\<close>, \<open>Job\<close>, \<open>Startup\<close>: the server as a whole. \<open>Membership\<close> is an abstract state machine of sessions
    and rooms, in which sessions ask for moves and end; \<open>ChatServer\<close> runs handlers, disconnects and the parts of \<open>JobQueue::Execute\<close> in any order and is shown
    to implement it; \<open>Worker\<close> is the inner loop of a worker on its own; \<open>Job\<close> shows that the values in the queues of rooms
    do what the callbacks of the code do; \<open>Startup\<close> is what the three programs do before their threads run.
  \<^item> \<open>Streams\<close>, \<open>Monitoring\<close>, \<open>LatencyMonitor\<close>, \<open>DummyClient\<close>, \<open>StressTester\<close>, \<open>ChatClient\<close>, \<open>EngineTest\<close>: the text
    functions of the library that the programs use, the dashboard, the log file and the main loop of the server, the
    bots and their latency histogram, the scenarios and the menu, the client from a typed line to what it prints, and
    those of the program's tests that use one thread.
  \<^item> \<open>JobSystem\<close>, \<open>PoolTest\<close>, \<open>MemoryTest\<close>, \<open>TimerTest\<close>, \<open>ServerTest\<close>, \<open>NetworkTest\<close>: the other tests of \<^verbatim>\<open>EngineTest/\<close>,
    with all their threads. They use the components as a client does, and what is proved of them is that they pass.

  \<^bold>\<open>Conventions.\<close> A class is a record, a struct of the protocol a record, an enum a datatype. An operation returns
  \<open>'a res\<close>: \<open>Ok\<close> its result, or \<open>Crash\<close> a fault (a failed \<open>ASSERT_CRASH\<close>, a null pointer, an access outside an array
  or to freed memory, an uncaught exception, a conversion without a defined result). Unsigned integers are words;
  an \<open>int32\<close> is the integer it denotes, with \<open>to_int32\<close> where the code converts or may overflow. Doubles are reals,
  with the rounding as an argument. What the system returns (the results of Winsock, memory or its absence, clocks,
  \<open>rand\<close>, keys) is an argument of the operation or a component of the step. A thread is a number where it matters which
  thread runs an operation, because of thread-local chunks and caches.

  Where threads interleave, the model is an \<open>inductive\<close> relation. Its steps are the atomic accesses in \<open>SpinLock\<close>, the
  concurrent bucket of \<open>TokenBucket\<close> and the histogram of \<open>LatencyMonitor\<close>; the atomic accesses and the sections under a lock
  in \<open>JobQueue\<close>, \<open>RoomManager\<close>, \<open>ThreadPool\<close>, \<open>ThreadManager\<close>, \<open>ReadWriteLock\<close> and \<open>RoomDelivery\<close>. In \<open>SessionSend\<close> a step is a push
  (a section under the lock), a whole registration or the processing of one completion, of which \<open>_isSending\<close> lets one
  thread at a time do either; in \<open>SendBuffer\<close>, \<open>PoolAllocator\<close> and \<open>ObjectPool\<close>, whose state is per thread but for the
  shared pools, it is a call of an operation. In \<open>ChatServer\<close> the handler of a packet, the hook of one connection made or
  ended and one job of a room are a step each: the accesses of two handlers do not alternate there. In \<open>Lifecycle\<close> making and ending a
  connection is divided by its accesses, while a call of \<open>Send\<close> and the processing of a completed receive or send are
  one step. \<open>SpinLock\<close> and \<open>ReadWriteLock\<close> prove that sections under the locks of the engine may be taken as one step. Loops over data are
  \<open>fun\<close> by their data or a measure. A loop that need not end has a bound \<open>n\<close> and returns an option: \<open>worker_loop\<close>
  ends within \<open>work w + 1\<close> turns from consistent queues, which is proved; \<open>menu_loop\<close> does not end on an exhausted input
  whatever \<open>n\<close> is, which is proved too; the retries of \<open>RegisterAccept\<close> and the spinning of \<open>Lock\<close> are steps.

  \<^bold>\<open>Lemmas.\<close> Every component has an invariant (\<open>rb_inv\<close>, \<open>sb_inv\<close>, \<open>send_shape\<close>, \<open>jq_inv\<close>, \<open>alloc_inv\<close>, \<open>pool_inv\<close>,
  \<open>lat_inv\<close>, \<open>op_inv\<close>, \<open>service_inv\<close>, \<open>table_inv\<close>, \<open>queues_inv\<close>) that its operations keep, and the behaviour of each
  operation under it, errors included. On these rest the properties, numbered C1 to C40:
  \<^item> streams: packets sent over a connection are given to \<open>OnRecvPacket\<close> at the other end, each once and in order; what is sent on a connection is what was queued, in order and without interleaving, and no wake-up is
    lost; what is received is cut into the same packets however it arrives; the ring implements a bounded FIFO; the hooks
    of a session are called at most once each, though in no fixed order, and a session accepts 501 buffers before it gives up on its peer;
  \<^item> packets: what is serialised is parsed back, arbitrary bytes are handled without a bad access, and a handler sees
    only packets somebody could have serialised;
  \<^item> actors: a queue runs on one worker at a time, in order, losing nothing; timers fire once; a worker drains the queues;
  \<^item> the server: it implements the abstract membership; clients that wait for their moves are in one room; the messages
    of a room are accepted for every connected member in one order; floods are cut off and silent sessions disconnected; it starts with its port bound
    and its accepts posted;
  \<^item> memory: every block has one owner, objects live in blocks of their own, send buffers do not change under a send;
  \<^item> the clients: from a line typed to a line on every screen, joining and leaving, round-trip times;
  \<^item> failures: the \<open>error\<close> properties show where the program does not do what it means to, from two memberships of an
    impatient client to a receive of half a packet that ends the connection. Their hypotheses say on which runs:
    those of C34 and C35 that the session does nothing else meanwhile, that of C36 that the names of the members are too
    long for a packet, that of C37 an empty ring, those of C38 and C39 which calls of the system fail, those of C40 the rate
    and the pauses of the polls.

  \<^bold>\<open>Not modelled\<close>, and why. \<open>SocketUtils::Clear\<close> and \<open>EnableAnsiEscapeCodes\<close> only call the system. \<open>GetCurrentTimeString\<close> and
  \<open>GetCurrentDateTimeString\<close> format the local time, which is an argument. Reference counts are not modelled: an object is
  reachable while something refers to it, and a use after an explicit release is a fault. Of the engine's tests the
  set-up of those over live sockets and the benchmark, which measures time, are left out, and so is the generator in
  C-sharp; the code it generated is modelled.
\<close>

end
